(* ===== verification/NRP_Prelude.thy ===== *)
theory NRP_Prelude
  imports Main "HOL-Library.Word" "HOL-Library.Multiset"
begin

text \<open>
  Shared vocabulary of the development: the machine integer types of the C++ sources, the
  pieces of the C++ standard library the sources use (\<open>std::sort\<close>, \<open>std::set::insert\<close>,
  \<open>std::lower_bound\<close>, linear searches), and the lemmas on lists and words every component
  theory relies on.

  \<open>std::sort\<close> and the ordered containers ask for a strict weak order. That contract is the
  locale \<open>strict_weak_order\<close>; each comparator of the sources interprets it in the theory that
  translates the comparator.
\<close>

unbundle bit_operations_syntax

type_synonym u8 = "8 word"
type_synonym u16 = "16 word"
type_synonym u32 = "32 word"
type_synonym u64 = "64 word"
type_synonym bytes = "u8 list"

named_theorems nrp_len \<open>length preservation of the state vectors\<close>
named_theorems nrp_wf \<open>preservation of well-formedness invariants\<close>

section \<open>Linear searches over vectors\<close>

text \<open>The index loops of the sources: the first position satisfying a test, \<open>None\<close> for
  \<open>static_cast<std::size_t>(-1)\<close>.\<close>

fun find_index :: "('a \<Rightarrow> bool) \<Rightarrow> 'a list \<Rightarrow> nat option" where
  "find_index P [] = None"
| "find_index P (x # xs) = (if P x then Some 0 else map_option Suc (find_index P xs))"

lemma find_index_Some:
  "find_index P xs = Some i \<Longrightarrow> i < length xs \<and> P (xs ! i) \<and> (\<forall>j<i. \<not> P (xs ! j))"
proof (induction xs arbitrary: i)
  case (Cons x xs)
  show ?case
  proof (cases "P x")
    case False
    with Cons.prems obtain k where k: "find_index P xs = Some k" "i = Suc k" by auto
    with Cons.IH[OF k(1)] False show ?thesis by (auto simp: less_Suc_eq_0_disj)
  qed (use Cons.prems in auto)
qed simp

lemma find_index_None [simp]: "find_index P xs = None \<longleftrightarrow> (\<forall>x\<in>set xs. \<not> P x)"
  by (induction xs) auto

lemma find_index_distinct:
  assumes "distinct (map f xs)" "i < length xs"
  shows "find_index (\<lambda>x. f x = f (xs ! i)) xs = Some i"
proof -
  obtain j where j: "find_index (\<lambda>x. f x = f (xs ! i)) xs = Some j"
    using assms(2) by (cases "find_index (\<lambda>x. f x = f (xs ! i)) xs") auto
  from find_index_Some[OF j] have "j < length xs" "f (xs ! j) = f (xs ! i)" by auto
  with assms have "j = i" by (metis length_map nth_eq_iff_index_eq nth_map)
  with j show ?thesis by simp
qed

section \<open>Ordering contracts\<close>

text \<open>\<open>std::sort\<close> with a comparator, as a stable insertion sort. The standard fixes the result
  up to the order of equivalent elements; \<open>sort_by_unique\<close> below says when there is no choice.\<close>

fun insert_by :: "('a \<Rightarrow> 'a \<Rightarrow> bool) \<Rightarrow> 'a \<Rightarrow> 'a list \<Rightarrow> 'a list" where
  "insert_by lt x [] = [x]"
| "insert_by lt x (y # ys) = (if lt y x then y # insert_by lt x ys else x # y # ys)"

definition sort_by :: "('a \<Rightarrow> 'a \<Rightarrow> bool) \<Rightarrow> 'a list \<Rightarrow> 'a list" where
  "sort_by lt xs = foldr (insert_by lt) xs []"

text \<open>\<open>std::set::insert\<close>: nothing happens when an equivalent element is present.\<close>

fun set_insert :: "('a \<Rightarrow> 'a \<Rightarrow> bool) \<Rightarrow> 'a \<Rightarrow> 'a list \<Rightarrow> 'a list" where
  "set_insert lt x [] = [x]"
| "set_insert lt x (y # ys) =
     (if lt y x then y # set_insert lt x ys
      else if lt x y then x # y # ys else y # ys)"

text \<open>\<open>std::lower_bound\<close> on a range partitioned by the comparator: the number of leading
  elements below the probe.\<close>

definition lower_bound :: "'a::linorder list \<Rightarrow> 'a \<Rightarrow> nat" where
  "lower_bound xs x = length (takeWhile (\<lambda>y. y < x) xs)"

lemma mset_insert_by [simp]: "mset (insert_by lt x xs) = add_mset x (mset xs)"
  by (induction xs) auto

lemma mset_sort_by [simp]: "mset (sort_by lt xs) = mset xs"
  by (induction xs) (auto simp: sort_by_def)

lemma set_sort_by [simp]: "set (sort_by lt xs) = set xs"
  by (metis mset_sort_by set_mset_mset)

lemma length_sort_by [simp, nrp_len]: "length (sort_by lt xs) = length xs"
  by (metis mset_sort_by size_mset)

lemma sort_by_Nil [simp]: "sort_by lt [] = []"
  by (simp add: sort_by_def)

lemma sort_by_Cons [simp]: "sort_by lt (x # xs) = insert_by lt x (sort_by lt xs)"
  by (simp add: sort_by_def)

lemma distinct_sort_by [simp]: "distinct (sort_by lt xs) = distinct xs"
  by (metis card_distinct distinct_card length_sort_by set_sort_by)

lemma mset_map_sort_by [simp]: "mset (map f (sort_by lt xs)) = mset (map f xs)"
  by simp

lemma distinct_map_sort_by [simp]: "distinct (map f (sort_by lt xs)) = distinct (map f xs)"
  by (metis mset_eq_imp_distinct_iff mset_map_sort_by)

lemma set_set_insert_subset: "set (set_insert lt x xs) \<subseteq> insert x (set xs)"
  by (induction xs) auto

lemma set_set_insert_mono: "set xs \<subseteq> set (set_insert lt x xs)"
  by (induction xs) auto

locale strict_weak_order =
  fixes lt :: "'a \<Rightarrow> 'a \<Rightarrow> bool"
  assumes less_irrefl: "\<not> lt x x"
    and less_trans: "lt x y \<Longrightarrow> lt y z \<Longrightarrow> lt x z"
    and incomparable_trans:
      "\<not> lt x y \<Longrightarrow> \<not> lt y x \<Longrightarrow> \<not> lt y z \<Longrightarrow> \<not> lt z y \<Longrightarrow> \<not> lt x z"
begin

abbreviation sorted_by :: "'a list \<Rightarrow> bool" where
  "sorted_by \<equiv> sorted_wrt (\<lambda>a b. \<not> lt b a)"

lemma less_asym: "lt x y \<Longrightarrow> \<not> lt y x"
  using less_irrefl less_trans by blast

lemma not_less_trans: "\<not> lt y x \<Longrightarrow> \<not> lt z y \<Longrightarrow> \<not> lt z x"
  by (meson incomparable_trans less_asym less_trans)

lemma sorted_by_insert_by: "sorted_by xs \<Longrightarrow> sorted_by (insert_by lt x xs)"
proof (induction xs)
  case (Cons y ys)
  have set_ins: "set (insert_by lt x ys) = insert x (set ys)"
    by (metis mset_insert_by set_mset_add_mset_insert set_mset_mset)
  show ?case
  proof (cases "lt y x")
    case True
    then show ?thesis using Cons less_asym[OF True] by (auto simp: set_ins)
  next
    case False
    then have "\<not> lt z x" if "z \<in> set ys" for z
      using Cons.prems that not_less_trans[OF False, of z] by auto
    with False Cons.prems show ?thesis by auto
  qed
qed simp

lemma sorted_by_sort_by: "sorted_by (sort_by lt xs)"
  by (induction xs) (auto intro: sorted_by_insert_by)

lemma sorted_by_unique:
  assumes "sorted_by xs" "sorted_by ys" "mset xs = mset ys"
    and "\<And>a b. a \<in> set xs \<Longrightarrow> b \<in> set xs \<Longrightarrow> \<not> lt a b \<Longrightarrow> \<not> lt b a \<Longrightarrow> a = b"
  shows "xs = ys"
  using assms
proof (induction xs arbitrary: ys)
  case (Cons x xs)
  then obtain y ys' where ys: "ys = y # ys'" by (cases ys) auto
  have mem: "set (x # xs) = set ys" using Cons.prems(3) mset_eq_setD by blast
  have "x = y"
  proof (rule ccontr)
    assume ne: "x \<noteq> y"
    with mem ys have "y \<in> set xs" "x \<in> set ys'" by auto
    with Cons.prems(1,2) ys have "\<not> lt y x" "\<not> lt x y" by auto
    with Cons.prems(4) mem ys ne show False by (metis list.set_intros(1))
  qed
  with Cons.prems ys have "mset xs = mset ys'" by simp
  moreover have "sorted_by xs" "sorted_by ys'" using Cons.prems ys by auto
  ultimately have "xs = ys'" using Cons.IH Cons.prems(4) by (meson list.set_intros(2))
  with \<open>x = y\<close> ys show ?case by simp
qed simp

lemma sort_by_unique:
  assumes "mset xs = mset ys"
    and "\<And>a b. a \<in> set xs \<Longrightarrow> b \<in> set xs \<Longrightarrow> \<not> lt a b \<Longrightarrow> \<not> lt b a \<Longrightarrow> a = b"
  shows "sort_by lt xs = sort_by lt ys"
  by (rule sorted_by_unique) (use assms sorted_by_sort_by in auto)

lemma sort_by_idem: "sorted_by xs \<Longrightarrow> sort_by lt xs = xs"
proof (induction xs)
  case (Cons x xs)
  then show ?case by (cases xs) auto
qed simp

text \<open>Ordered sets: the elements stay strictly increasing, and the smallest one comes first.\<close>

lemma sorted_set_insert: "sorted_wrt lt xs \<Longrightarrow> sorted_wrt lt (set_insert lt x xs)"
proof (induction xs)
  case (Cons y ys)
  have sub: "set (set_insert lt x ys) \<subseteq> insert x (set ys)" by (rule set_set_insert_subset)
  have "lt x z" if "lt x y" "z \<in> set ys" for z
    using that Cons.prems less_trans[of x y z] by auto
  then show ?case using Cons sub by auto
qed simp

lemma set_insert_new:
  assumes "\<And>y. y \<in> set xs \<Longrightarrow> lt x y \<or> lt y x"
  shows "set (set_insert lt x xs) = insert x (set xs) \<and>
    length (set_insert lt x xs) = Suc (length xs)"
  using assms
proof (induction xs)
  case (Cons y ys)
  have "lt x y \<or> lt y x" by (rule Cons.prems) simp
  moreover have "set (set_insert lt x ys) = insert x (set ys) \<and>
      length (set_insert lt x ys) = Suc (length ys)"
    by (rule Cons.IH) (use Cons.prems in auto)
  ultimately show ?case by auto
qed simp

lemma sorted_wrt_distinct: "sorted_wrt lt xs \<Longrightarrow> distinct xs"
  using less_irrefl by (induction xs) auto

end

section \<open>Ordered maps\<close>

text \<open>\<open>std::map\<close> as an association list in key order; \<open>map_put\<close> is \<open>m[k] = v\<close>.\<close>

fun map_put :: "('k \<Rightarrow> 'k \<Rightarrow> bool) \<Rightarrow> 'k \<Rightarrow> 'v \<Rightarrow> ('k \<times> 'v) list \<Rightarrow> ('k \<times> 'v) list" where
  "map_put lt k v [] = [(k, v)]"
| "map_put lt k v ((k', v') # xs) =
     (if lt k' k then (k', v') # map_put lt k v xs
      else if lt k k' then (k, v) # (k', v') # xs
      else (k, v) # xs)"

lemma map_put_fst_subset: "fst ` set (map_put lt k v xs) \<subseteq> insert k (fst ` set xs)"
proof (induction xs)
  case (Cons e xs)
  then show ?case by (cases e) auto
qed simp

locale strict_total_order = strict_weak_order +
  assumes total: "x \<noteq> y \<Longrightarrow> lt x y \<or> lt y x"
begin

abbreviation ordered_map :: "('a \<times> 'v) list \<Rightarrow> bool" where
  "ordered_map m \<equiv> sorted_wrt lt (map fst m)"

lemma map_of_below: "(\<And>k'. k' \<in> fst ` set m \<Longrightarrow> lt k k') \<Longrightarrow> map_of m k = None"
  using less_irrefl by (metis map_of_eq_None_iff)

lemma lookup_put:
  "ordered_map m \<Longrightarrow> map_of (map_put lt k v m) = (map_of m)(k \<mapsto> v)"
proof (induction m)
  case (Cons e m)
  obtain k' v' where e: "e = (k', v')" by (cases e)
  consider "lt k' k" | "lt k k'" "k \<noteq> k'" | "k = k'" using total less_irrefl by blast
  then show ?case
  proof cases
    case 1
    then have "k' \<noteq> k" using less_irrefl by blast
    with 1 Cons e show ?thesis by (auto simp: fun_eq_iff)
  next
    case 2
    with less_asym e show ?thesis by (auto simp: fun_eq_iff)
  next
    case 3
    with less_irrefl e show ?thesis by (auto simp: fun_eq_iff)
  qed
qed (auto simp: fun_eq_iff)

lemma ordered_put: "ordered_map m \<Longrightarrow> ordered_map (map_put lt k v m)"
proof (induction m)
  case (Cons e m)
  obtain k' v' where e: "e = (k', v')" by (cases e)
  have sub: "fst ` set (map_put lt k v m) \<subseteq> insert k (fst ` set m)" by (rule map_put_fst_subset)
  consider "lt k' k" | "lt k k'" "\<not> lt k' k" | "k = k'" using total less_asym by blast
  then show ?case
  proof cases
    case 1
    have "lt k' z" if "z \<in> fst ` set (map_put lt k v m)" for z
      using subsetD[OF sub that] 1 Cons.prems e by auto
    with 1 Cons e show ?thesis by simp
  next
    case 2
    have "lt k z" if "z \<in> fst ` set m" for z
      using that Cons.prems e less_trans[OF 2(1)] by auto
    with 2 Cons.prems e show ?thesis by auto
  next
    case 3
    with less_irrefl Cons.prems e show ?thesis by auto
  qed
qed simp

lemma length_put:
  "ordered_map m \<Longrightarrow>
   length (map_put lt k v m) = (if map_of m k = None then Suc (length m) else length m)"
proof (induction m)
  case (Cons e m)
  obtain k' v' where e: "e = (k', v')" by (cases e)
  consider "lt k' k" "k' \<noteq> k" | "lt k k'" "\<not> lt k' k" "k' \<noteq> k" | "k = k'"
    using total less_asym less_irrefl by metis
  then show ?case
  proof cases
    case 2
    have "map_of m k = None"
    proof (rule map_of_below)
      fix z assume "z \<in> fst ` set m"
      then show "lt k z" using Cons.prems e less_trans[OF 2(1)] by auto
    qed
    with 2 e show ?thesis by simp
  qed (use Cons e less_irrefl in auto)
qed simp

lemma ordered_distinct: "ordered_map m \<Longrightarrow> distinct (map fst m)"
  by (rule sorted_wrt_distinct)

lemma ordered_lookup_iff: "ordered_map m \<Longrightarrow> (k, v) \<in> set m \<longleftrightarrow> map_of m k = Some v"
  using ordered_distinct map_of_eq_Some_iff by metis

end

lemma strict_weak_order_key:
  fixes key :: "'a \<Rightarrow> 'k::linorder"
  assumes "\<And>a b. lt a b \<longleftrightarrow> key a < key b"
  shows "strict_weak_order lt"
  by unfold_locales (auto simp: assms)

text \<open>The comparators of the sources compare one field after the other.\<close>

lemma strict_weak_order_field:
  "strict_weak_order (\<lambda>a b. (g a :: 'k::linorder) < g b)"
  by (rule strict_weak_order_key[of _ g]) simp

lemma strict_weak_order_lex:
  fixes g :: "'a \<Rightarrow> 'k::linorder"
  assumes rest: "strict_weak_order l2" and g: "\<And>a b. f a = f b \<longleftrightarrow> g a = g b"
  shows "strict_weak_order (\<lambda>a b. if f a \<noteq> f b then g a < g b else l2 a b)"
proof
  fix x y z
  show "\<not> (if f x \<noteq> f x then g x < g x else l2 x x)"
    by (simp add: strict_weak_order.less_irrefl[OF rest])
  show "(if f x \<noteq> f y then g x < g y else l2 x y) \<Longrightarrow>
      (if f y \<noteq> f z then g y < g z else l2 y z) \<Longrightarrow>
      (if f x \<noteq> f z then g x < g z else l2 x z)"
    using strict_weak_order.less_trans[OF rest, of x y z] by (auto simp: g split: if_splits)
  show "\<not> (if f x \<noteq> f y then g x < g y else l2 x y) \<Longrightarrow>
      \<not> (if f y \<noteq> f x then g y < g x else l2 y x) \<Longrightarrow>
      \<not> (if f y \<noteq> f z then g y < g z else l2 y z) \<Longrightarrow>
      \<not> (if f z \<noteq> f y then g z < g y else l2 z y) \<Longrightarrow>
      \<not> (if f x \<noteq> f z then g x < g z else l2 x z)"
    using strict_weak_order.incomparable_trans[OF rest, of x y z] by (auto simp: g split: if_splits)
qed

lemmas strict_weak_orders = strict_weak_order_lex strict_weak_order_field

lemma sorted_by_key:
  fixes key :: "'a \<Rightarrow> 'k::linorder"
  assumes "\<And>a b. lt a b \<longleftrightarrow> key a < key b"
  shows "sorted (map key (sort_by lt xs))"
proof -
  have "sorted_wrt (\<lambda>a b. \<not> lt b a) (sort_by lt xs)"
    using strict_weak_order.sorted_by_sort_by[OF strict_weak_order_key[OF assms]] .
  then show ?thesis by (simp add: sorted_wrt_map assms not_less)
qed

text \<open>\<open>lower_bound\<close> on a sorted, duplicate free identity vector finds exactly the index.\<close>

lemma lower_bound_nth:
  assumes "sorted xs" "distinct xs" "i < length xs"
  shows "lower_bound xs (xs ! i) = i"
proof -
  have strict: "xs ! j < xs ! i" if "j < i" for j
    using that assms by (metis less_trans nless_le nth_eq_iff_index_eq sorted_iff_nth_mono)
  have "takeWhile (\<lambda>y. y < xs ! i) xs = take i xs"
    by (rule takeWhile_eq_take_P_nth) (use assms strict in auto)
  then show ?thesis using assms(3) by (simp add: lower_bound_def)
qed

lemma lower_bound_le: "lower_bound xs x \<le> length xs"
  by (simp add: lower_bound_def length_takeWhile_le)

section \<open>Lists, options and folds\<close>

lemma map_update_id: "i < length xs \<Longrightarrow> f y = f (xs ! i) \<Longrightarrow> map f (xs[i := y]) = map f xs"
  by (simp add: map_update list_update_same_conv)

lemma nth_list_update_if:
  "i < length xs \<Longrightarrow> xs[j := y] ! i = (if j = i then y else xs ! i)"
  by (simp add: nth_list_update)

text \<open>Byte strings with a common length split uniquely.\<close>

lemma append_eq_same_len:
  "length xs = length us \<Longrightarrow> xs @ ys = us @ vs \<longleftrightarrow> xs = us \<and> ys = vs"
  by simp

lemma concat_map_inj:
  assumes "\<And>x y. x \<in> set xs \<Longrightarrow> y \<in> set ys \<Longrightarrow> length (f x) = length (f y)"
    and "\<And>x y. x \<in> set xs \<Longrightarrow> y \<in> set ys \<Longrightarrow> f x = f y \<Longrightarrow> x = y"
    and "length xs = length ys" "concat (map f xs) = concat (map f ys)"
  shows "xs = ys"
  using assms(3,1,2,4)
proof (induction xs ys rule: list_induct2)
  case (Cons x xs y ys)
  have len: "length (f x) = length (f y)" by (rule Cons.prems(1)) auto
  with Cons.prems(3) have "f x = f y" "concat (map f xs) = concat (map f ys)" by auto
  moreover have "xs = ys"
    by (rule Cons.IH) (use Cons.prems(1,2) calculation(2) in auto)
  ultimately show ?case using Cons.prems(2) by auto
qed simp

lemma length_concat_const:
  "(\<And>x. x \<in> set xs \<Longrightarrow> length (f x) = k) \<Longrightarrow> length (concat (map f xs)) = length xs * k"
  by (induction xs) auto

section \<open>Machine words\<close>

lemma word_less_unat: "(a :: 'a::len word) < b \<longleftrightarrow> unat a < unat b"
  by (rule word_less_nat_alt)

lemma word_le_unat: "(a :: 'a::len word) \<le> b \<longleftrightarrow> unat a \<le> unat b"
  by (rule word_le_nat_alt)

lemma unat_add_no_wrap:
  "unat (a :: 'a::len word) + unat b < 2 ^ LENGTH('a) \<Longrightarrow> unat (a + b) = unat a + unat b"
  by (simp add: unat_word_ariths)

lemma unat_sub_le: "(b :: 'a::len word) \<le> a \<Longrightarrow> unat (a - b) = unat a - unat b"
  by (simp add: unat_sub)

lemma unat_Suc_less: "(a :: 'a::len word) < b \<Longrightarrow> unat (a + 1) = Suc (unat a)"
proof -
  assume "a < b"
  then have "unat a < unat b" by (simp add: word_less_nat_alt)
  moreover have "unat b < 2 ^ LENGTH('a)" by (rule unsigned_less)
  ultimately have "unat a + unat (1 :: 'a word) < 2 ^ LENGTH('a)"
    by (metis One_nat_def Suc_leI add.commute le_less_trans plus_1_eq_Suc unat_1)
  then show ?thesis by (subst unat_add_no_wrap) auto
qed

lemma unat_ucast_up:
  "LENGTH('a) \<le> LENGTH('b) \<Longrightarrow> unat (ucast (a :: 'a::len word) :: 'b::len word) = unat a"
proof -
  assume "LENGTH('a) \<le> LENGTH('b)"
  moreover have "unat a < 2 ^ LENGTH('a)" by (rule unsigned_less)
  ultimately have "unat a < 2 ^ LENGTH('b)"
    by (meson le_less_trans less_le_trans one_le_numeral power_increasing order_refl)
  then show ?thesis by (simp add: unsigned_ucast_eq take_bit_nat_eq_self)
qed

lemma unat_ucast_u32_u64 [simp]: "unat (ucast (a :: u32) :: u64) = unat a"
  by (simp add: unat_ucast_up)

end
