(* ===== verification/NRP_Ids.thy ===== *)
theory NRP_Ids
  imports NRP_Prelude
begin

text \<open>
  Identities, failure classes, subjects and integrity digests
  (\<open>include/nrp/result.hpp\<close>, \<open>include/nrp/ids.hpp\<close>, \<open>src/ids.cpp\<close>).
  A \<open>StrongId<Tag>\<close> is its 64-bit value; the tags only keep the C++ types apart, so every
  identity is a \<open>u64\<close>, as are \<open>Sequence\<close> and \<open>Generation\<close>.
\<close>

type_synonym strong_id = u64
type_synonym generation = u64
type_synonym seqno = u64
type_synonym epoch = u64
type_synonym boot_id = u64

section \<open>Status values\<close>

datatype status_code =
    SC_OK | SC_INVALID_ARGUMENT | SC_OUT_OF_RANGE | SC_CORRUPT | SC_UNSUPPORTED | SC_IO_ERROR
  | SC_EXHAUSTED | SC_NOT_FOUND | SC_STATE_MISMATCH | SC_PROTOCOL_ERROR | SC_CLOSED | SC_CONFLICT

primrec status_code_name :: "status_code \<Rightarrow> string" where
  "status_code_name SC_OK = ''OK''"
| "status_code_name SC_INVALID_ARGUMENT = ''INVALID_ARGUMENT''"
| "status_code_name SC_OUT_OF_RANGE = ''OUT_OF_RANGE''"
| "status_code_name SC_CORRUPT = ''CORRUPT''"
| "status_code_name SC_UNSUPPORTED = ''UNSUPPORTED''"
| "status_code_name SC_IO_ERROR = ''IO_ERROR''"
| "status_code_name SC_EXHAUSTED = ''EXHAUSTED''"
| "status_code_name SC_NOT_FOUND = ''NOT_FOUND''"
| "status_code_name SC_STATE_MISMATCH = ''STATE_MISMATCH''"
| "status_code_name SC_PROTOCOL_ERROR = ''PROTOCOL_ERROR''"
| "status_code_name SC_CLOSED = ''CLOSED''"
| "status_code_name SC_CONFLICT = ''CONFLICT''"

record status =
  st_code :: status_code
  st_message :: string

definition success :: status where
  "success = \<lparr>st_code = SC_OK, st_message = []\<rparr>"

definition status_error :: "status_code \<Rightarrow> string \<Rightarrow> status" where
  "status_error c m = \<lparr>st_code = c, st_message = m\<rparr>"

definition status_ok :: "status \<Rightarrow> bool" where
  "status_ok s \<longleftrightarrow> st_code s = SC_OK"

definition status_to_string :: "status \<Rightarrow> string" where
  "status_to_string s =
     status_code_name (st_code s) @ (if st_message s = [] then [] else '': '' @ st_message s)"

lemma status_ok_success [simp]: "status_ok success"
  by (simp add: status_ok_def success_def)

lemma status_ok_error [simp]: "status_ok (status_error c m) \<longleftrightarrow> c = SC_OK"
  by (simp add: status_ok_def status_error_def)

section \<open>Decimal rendering\<close>

text \<open>\<open>std::to_string\<close> on unsigned integers.\<close>

definition digit_char :: "nat \<Rightarrow> char" where
  "digit_char d = char_of (48 + d)"

fun dec_string :: "nat \<Rightarrow> string" where
  "dec_string n = (if n < 10 then [digit_char n] else dec_string (n div 10) @ [digit_char (n mod 10)])"

declare dec_string.simps [simp del]

section \<open>Subjects\<close>

datatype subject_kind =
  SK_NONE | SK_NODE | SK_LINK | SK_SERVICE | SK_RESOURCE | SK_ACTION | SK_FABRIC

primrec raw_subject_kind :: "subject_kind \<Rightarrow> u8" where
  "raw_subject_kind SK_NONE = 0"
| "raw_subject_kind SK_NODE = 1"
| "raw_subject_kind SK_LINK = 2"
| "raw_subject_kind SK_SERVICE = 3"
| "raw_subject_kind SK_RESOURCE = 4"
| "raw_subject_kind SK_ACTION = 5"
| "raw_subject_kind SK_FABRIC = 6"

primrec subject_kind_name :: "subject_kind \<Rightarrow> string" where
  "subject_kind_name SK_NONE = ''NONE''"
| "subject_kind_name SK_NODE = ''NODE''"
| "subject_kind_name SK_LINK = ''LINK''"
| "subject_kind_name SK_SERVICE = ''SERVICE''"
| "subject_kind_name SK_RESOURCE = ''RESOURCE''"
| "subject_kind_name SK_ACTION = ''ACTION''"
| "subject_kind_name SK_FABRIC = ''FABRIC''"

datatype subject = Subject (subj_kind: subject_kind) (subj_id: u64)

definition no_subject :: subject where
  "no_subject = Subject SK_NONE 0"

definition describe :: "subject \<Rightarrow> string" where
  "describe s = subject_kind_name (subj_kind s) @ '':'' @ dec_string (unat (subj_id s))"

lemma raw_subject_kind_inj [simp]: "raw_subject_kind a = raw_subject_kind b \<longleftrightarrow> a = b"
  by (cases a; cases b) auto

text \<open>\<open>operator<\<close> on subjects: the kind first, then the identity.\<close>

definition subject_less :: "subject \<Rightarrow> subject \<Rightarrow> bool" where
  "subject_less a b =
     (if subj_kind a \<noteq> subj_kind b then raw_subject_kind (subj_kind a) < raw_subject_kind (subj_kind b)
      else subj_id a < subj_id b)"

instantiation subject :: linorder
begin

definition less_subject :: "subject \<Rightarrow> subject \<Rightarrow> bool" where
  "less_subject = subject_less"

definition less_eq_subject :: "subject \<Rightarrow> subject \<Rightarrow> bool" where
  "less_eq_subject a b \<longleftrightarrow> a < b \<or> a = b"

instance
proof
  fix x y z :: subject
  have raw: "subj_kind a \<noteq> subj_kind b \<Longrightarrow>
      raw_subject_kind (subj_kind a) < raw_subject_kind (subj_kind b) \<or>
      raw_subject_kind (subj_kind b) < raw_subject_kind (subj_kind a)" for a b :: subject
    by (metis linorder_neqE raw_subject_kind_inj)
  show "(x < y) = (x \<le> y \<and> \<not> y \<le> x)"
    by (auto simp: less_eq_subject_def less_subject_def subject_less_def split: if_splits)
  show "x \<le> x" by (simp add: less_eq_subject_def)
  show "x \<le> y \<Longrightarrow> y \<le> z \<Longrightarrow> x \<le> z"
    by (auto simp: less_eq_subject_def less_subject_def subject_less_def split: if_splits)
  show "x \<le> y \<Longrightarrow> y \<le> x \<Longrightarrow> x = y"
    by (auto simp: less_eq_subject_def less_subject_def subject_less_def split: if_splits)
  show "x \<le> y \<or> y \<le> x"
    using raw[of x y] by (cases x; cases y) (auto simp: less_eq_subject_def less_subject_def subject_less_def)
qed

end

section \<open>Integrity digests\<close>

record digest =
  dg_hi :: u64
  dg_lo :: u64

definition zero_digest :: digest where
  "zero_digest = \<lparr>dg_hi = 0, dg_lo = 0\<rparr>"

definition mix64 :: "u64 \<Rightarrow> u64" where
  "mix64 value0 =
     (let v1 = value0 + 0x9E3779B97F4A7C15;
          v2 = (v1 XOR drop_bit 30 v1) * 0xBF58476D1CE4E5B9;
          v3 = (v2 XOR drop_bit 27 v2) * 0x94D049BB133111EB
      in v3 XOR drop_bit 31 v3)"

definition rotl :: "u64 \<Rightarrow> nat \<Rightarrow> u64" where
  "rotl v shift = push_bit shift v OR drop_bit (64 - shift) v"

text \<open>One round of the two accumulators of \<open>digest_of\<close>.\<close>

definition digest_round :: "u8 \<Rightarrow> u64 \<times> u64 \<Rightarrow> u64 \<times> u64" where
  "digest_round b = (\<lambda>(fnv, poly).
     let byte = (ucast b :: u64);
         fnv' = (fnv XOR byte) * 0x100000001B3;
         poly' = (rotl poly 7 XOR (byte * 0x9E3779B97F4A7C15 + 0xBF58476D1CE4E5B9))
                 + 0x94D049BB133111EB
     in (fnv', poly'))"

definition digest_of :: "bytes \<Rightarrow> digest" where
  "digest_of data =
     (let (fnv, poly) = fold digest_round data (0xCBF29CE484222325, 0x6A09E667F3BCC909);
          size = (of_nat (length data) :: u64)
      in \<lparr>dg_hi = mix64 (poly XOR (size + 0x9E3779B97F4A7C15)),
          dg_lo = mix64 (fnv XOR (size * 0x100000001B3))\<rparr>)"

end
