(* ===== verification/NRP_Canonical.thy ===== *)
theory NRP_Canonical
  imports NRP_Ids
begin

text \<open>
  Canonical serialisation and checked arithmetic (\<open>include/nrp/canonical.hpp\<close>,
  \<open>src/canonical.cpp\<close>). A \<open>CanonicalWriter\<close> only ever appends, so each write operation is
  modelled by the bytes it appends; an encoder is the concatenation of what it writes. The
  \<open>CanonicalReader\<close> is a record of the buffer, the offset and the sticky error; each read
  returns the value and the reader after it.
\<close>

section \<open>Writer\<close>

definition w_u8 :: "u8 \<Rightarrow> bytes" where
  "w_u8 v = [v]"

definition w_u16 :: "u16 \<Rightarrow> bytes" where
  "w_u16 v = [ucast (v AND 0xFF), ucast (drop_bit 8 v AND 0xFF)]"

definition w_u32 :: "u32 \<Rightarrow> bytes" where
  "w_u32 v = map (\<lambda>i. ucast (drop_bit (8 * i) v AND 0xFF)) [0..<4]"

definition w_u64 :: "u64 \<Rightarrow> bytes" where
  "w_u64 v = map (\<lambda>i. ucast (drop_bit (8 * i) v AND 0xFF)) [0..<8]"

text \<open>A signed 64-bit value is its two's complement word.\<close>

definition w_i64 :: "u64 \<Rightarrow> bytes" where
  "w_i64 v = w_u64 v"

definition w_boolean :: "bool \<Rightarrow> bytes" where
  "w_boolean b = w_u8 (if b then 1 else 0)"

definition w_bytes :: "bytes \<Rightarrow> bytes" where
  "w_bytes data = w_u32 (of_nat (length data)) @ data"

definition w_str :: "string \<Rightarrow> bytes" where
  "w_str s = w_u32 (of_nat (length s)) @ map (of_char :: char \<Rightarrow> u8) s"

text \<open>A container: the element count, then the elements.\<close>

definition w_list :: "('a \<Rightarrow> bytes) \<Rightarrow> 'a list \<Rightarrow> bytes" where
  "w_list f xs = w_u32 (of_nat (length xs)) @ concat (map f xs)"

lemma length_w [simp]:
  "length (w_u8 a) = 1" "length (w_u16 b) = 2" "length (w_u32 c) = 4" "length (w_u64 d) = 8"
  "length (w_i64 d) = 8" "length (w_boolean e) = 1"
  by (simp_all add: w_u8_def w_u16_def w_u32_def w_u64_def w_i64_def w_boolean_def)

section \<open>Reader\<close>

record reader =
  rd_data :: bytes
  rd_offset :: nat
  rd_error :: status

definition make_reader :: "bytes \<Rightarrow> reader" where
  "make_reader data = \<lparr>rd_data = data, rd_offset = 0, rd_error = success\<rparr>"

definition rd_ok :: "reader \<Rightarrow> bool" where
  "rd_ok r \<longleftrightarrow> status_ok (rd_error r)"

definition rd_fail :: "status_code \<Rightarrow> string \<Rightarrow> reader \<Rightarrow> reader" where
  "rd_fail code msg r = (if rd_ok r then r\<lparr>rd_error := status_error code msg\<rparr> else r)"

definition rd_need :: "nat \<Rightarrow> reader \<Rightarrow> bool \<times> reader" where
  "rd_need cnt r =
     (if \<not> rd_ok r then (False, r)
      else if cnt > length (rd_data r) - rd_offset r
        then (False, rd_fail SC_PROTOCOL_ERROR ''canonical encoding truncated'' r)
      else (True, r))"

definition rd_byte :: "reader \<Rightarrow> nat \<Rightarrow> u8" where
  "rd_byte r i = rd_data r ! (rd_offset r + i)"

definition rd_advance :: "nat \<Rightarrow> reader \<Rightarrow> reader" where
  "rd_advance n r = r\<lparr>rd_offset := rd_offset r + n\<rparr>"

definition r_u8 :: "reader \<Rightarrow> u8 \<times> reader" where
  "r_u8 r0 = (case rd_need 1 r0 of
     (False, r) \<Rightarrow> (0, r)
   | (True, r) \<Rightarrow> (rd_byte r 0, rd_advance 1 r))"

definition r_u16 :: "reader \<Rightarrow> u16 \<times> reader" where
  "r_u16 r0 = (case rd_need 2 r0 of
     (False, r) \<Rightarrow> (0, r)
   | (True, r) \<Rightarrow> (ucast (rd_byte r 0) OR push_bit 8 (ucast (rd_byte r 1)), rd_advance 2 r))"

definition r_u32 :: "reader \<Rightarrow> u32 \<times> reader" where
  "r_u32 r0 = (case rd_need 4 r0 of
     (False, r) \<Rightarrow> (0, r)
   | (True, r) \<Rightarrow>
       (fold (\<lambda>i v. v OR push_bit (8 * i) (ucast (rd_byte r i))) [0..<4] 0, rd_advance 4 r))"

definition r_u64 :: "reader \<Rightarrow> u64 \<times> reader" where
  "r_u64 r0 = (case rd_need 8 r0 of
     (False, r) \<Rightarrow> (0, r)
   | (True, r) \<Rightarrow>
       (fold (\<lambda>i v. v OR push_bit (8 * i) (ucast (rd_byte r i))) [0..<8] 0,
        rd_advance 8 r))"

definition r_i64 :: "reader \<Rightarrow> u64 \<times> reader" where
  "r_i64 r = r_u64 r"

definition r_boolean :: "reader \<Rightarrow> bool \<times> reader" where
  "r_boolean r0 =
     (let (raw, r) = r_u8 r0 in
      if \<not> rd_ok r then (False, r)
      else if raw > 1 then (False, rd_fail SC_PROTOCOL_ERROR ''boolean out of domain'' r)
      else (raw = 1, r))"

definition r_bounded_count :: "u32 \<Rightarrow> string \<Rightarrow> reader \<Rightarrow> u32 \<times> reader" where
  "r_bounded_count max_count what r0 =
     (let (cnt, r) = r_u32 r0 in
      if \<not> rd_ok r then (0, r)
      else if cnt > max_count
        then (0, rd_fail SC_OUT_OF_RANGE
                   (''declared count for '' @ what @ '' exceeds the model limit: ''
                    @ dec_string (unat cnt) @ '' > '' @ dec_string (unat max_count)) r)
      else (cnt, r))"

definition r_bytes :: "nat \<Rightarrow> reader \<Rightarrow> bytes \<times> reader" where
  "r_bytes max_length r0 =
     (let (len, r) = r_u32 r0 in
      if \<not> rd_ok r then ([], r)
      else if unat len > max_length
        then ([], rd_fail SC_OUT_OF_RANGE ''declared byte length exceeds the bound'' r)
      else case rd_need (unat len) r of
          (False, r') \<Rightarrow> ([], r')
        | (True, r') \<Rightarrow>
            (take (unat len) (drop (rd_offset r') (rd_data r')), rd_advance (unat len) r'))"

definition r_str :: "nat \<Rightarrow> reader \<Rightarrow> string \<times> reader" where
  "r_str max_length r0 =
     (let (len, r) = r_u32 r0 in
      if \<not> rd_ok r then ([], r)
      else if unat len > max_length
        then ([], rd_fail SC_OUT_OF_RANGE ''declared string length exceeds the bound'' r)
      else case rd_need (unat len) r of
          (False, r') \<Rightarrow> ([], r')
        | (True, r') \<Rightarrow>
            (map (\<lambda>b. char_of (unat b)) (take (unat len) (drop (rd_offset r') (rd_data r'))),
             rd_advance (unat len) r'))"

definition r_blob :: "u32 \<Rightarrow> reader \<Rightarrow> bytes \<times> reader" where
  "r_blob declared r0 =
     (let (len, r) = r_u32 r0 in
      if \<not> rd_ok r then ([], r)
      else if len \<noteq> declared
        then ([], rd_fail SC_PROTOCOL_ERROR
                    (''declared blob length mismatch: '' @ dec_string (unat len) @ '' != ''
                     @ dec_string (unat declared)) r)
      else r_bytes (unat len) r)"

text \<open>\<open>enum_value\<close>: the raw byte, checked against the domain of the enumeration.\<close>

definition r_enum :: "(u8 \<Rightarrow> 'e) \<Rightarrow> u8 \<Rightarrow> string \<Rightarrow> reader \<Rightarrow> 'e \<times> reader" where
  "r_enum of_raw max_exclusive what r0 =
     (let (raw, r) = r_u8 r0 in
      if \<not> rd_ok r then (of_raw 0, r)
      else if raw \<ge> max_exclusive
        then (of_raw 0, rd_fail SC_PROTOCOL_ERROR
                          (''enum out of domain for '' @ what @ '': '' @ dec_string (unat raw)) r)
      else (of_raw raw, r))"

definition r_require_end :: "reader \<Rightarrow> status" where
  "r_require_end r =
     (if \<not> rd_ok r then rd_error r
      else if rd_offset r \<noteq> length (rd_data r)
        then status_error SC_PROTOCOL_ERROR
               (''trailing bytes after canonical value: ''
                @ dec_string (length (rd_data r) - rd_offset r))
      else success)"

section \<open>Checked arithmetic\<close>

definition UINT64_MAX :: u64 where
  "UINT64_MAX = 0xFFFFFFFFFFFFFFFF"

text \<open>\<open>true\<close> (overflow) is \<open>None\<close>; otherwise the stored sum or product.\<close>

definition add_overflow :: "u64 \<Rightarrow> u64 \<Rightarrow> u64 option" where
  "add_overflow a b = (if a > UINT64_MAX - b then None else Some (a + b))"

definition mul_overflow :: "u64 \<Rightarrow> u64 \<Rightarrow> u64 option" where
  "mul_overflow a b = (if a \<noteq> 0 \<and> b > UINT64_MAX div a then None else Some (a * b))"

lemma unat_UINT64_MAX: "unat UINT64_MAX = 2 ^ 64 - 1"
  by (simp add: UINT64_MAX_def)

lemma add_overflow_None_iff: "add_overflow a b = None \<longleftrightarrow> unat a + unat b \<ge> 2 ^ 64"
proof -
  have b: "b \<le> UINT64_MAX" unfolding word_le_nat_alt unat_UINT64_MAX
    using unsigned_less[of b, where ?'a = nat] by simp
  have "unat (UINT64_MAX - b) = 2 ^ 64 - 1 - unat b"
    using unat_sub[OF b] by (simp add: unat_UINT64_MAX)
  then show ?thesis
    using unsigned_less[of b, where ?'a = nat] unsigned_less[of a, where ?'a = nat]
    by (auto simp: add_overflow_def word_less_nat_alt)
qed

lemma add_overflow_Some_iff:
  "add_overflow a b = Some c \<longleftrightarrow> unat c = unat a + unat b"
proof -
  have lt: "unat c < 2 ^ 64" using unsigned_less[of c, where ?'a = nat] by simp
  show ?thesis
  proof (cases "unat a + unat b < 2 ^ 64")
    case True
    then have "add_overflow a b \<noteq> None" by (simp add: add_overflow_None_iff)
    then have "add_overflow a b = Some (a + b)" by (auto simp: add_overflow_def split: if_splits)
    moreover have "unat (a + b) = unat a + unat b" using True by (simp add: unat_add_no_wrap)
    ultimately show ?thesis by (metis option.inject word_unat_eq_iff)
  next
    case False
    then have "add_overflow a b = None" by (simp add: add_overflow_None_iff)
    with False lt show ?thesis by auto
  qed
qed

lemma mul_overflow_Some_iff:
  "mul_overflow a b = Some c \<longleftrightarrow> unat c = unat a * unat b"
proof -
  have lt: "unat c < 2 ^ 64" using unsigned_less[of c, where ?'a = nat] by simp
  have div: "unat (UINT64_MAX div a) = (2 ^ 64 - 1) div unat a"
    by (simp add: unat_div unat_UINT64_MAX)
  have none: "mul_overflow a b = None \<longleftrightarrow> unat a * unat b \<ge> 2 ^ 64"
  proof (cases "a = 0")
    case False
    then have pos: "0 < unat a" by (simp add: unat_gt_0)
    have "unat b > (2 ^ 64 - 1) div unat a \<longleftrightarrow> unat b * unat a > 2 ^ 64 - 1"
      using div_less_iff_less_mult[OF pos] by simp
    with False div show ?thesis by (auto simp: mul_overflow_def word_less_nat_alt mult.commute)
  qed (simp add: mul_overflow_def)
  show ?thesis
  proof (cases "unat a * unat b < 2 ^ 64")
    case True
    then have "mul_overflow a b = Some (a * b)"
      using none by (auto simp: mul_overflow_def split: if_splits)
    moreover have "unat (a * b) = unat a * unat b" using True by (simp add: unat_word_ariths)
    ultimately show ?thesis by (metis option.inject word_unat_eq_iff)
  next
    case False
    with none have "mul_overflow a b = None" by simp
    with False lt show ?thesis by auto
  qed
qed

section \<open>Reading back what was written\<close>

text \<open>\<open>rd_at r bs\<close>: the reader has not failed and exactly \<open>bs\<close> is left to read.\<close>

lemma byte_of:
  "8 \<le> LENGTH('a) \<Longrightarrow> (ucast (drop_bit s (v :: 'a::len word) AND 0xFF) :: u8) = ucast (drop_bit s v)"
proof -
  assume len: "8 \<le> LENGTH('a)"
  have m: "(0xFF :: 'a word) = mask 8" by (simp add: mask_eq_exp_minus_1)
  show ?thesis unfolding m using len by (auto intro!: bit_word_eqI simp: bit_simps)
qed

lemma take_bit_byte:
  "take_bit s (v :: 'a::len word) OR push_bit s (ucast (ucast (drop_bit s v) :: u8)) = take_bit (s + 8) v"
  by (rule bit_word_eqI) (auto simp: bit_simps)

lemma join_bytes:
  "fold (\<lambda>i acc. acc OR push_bit (8 * i) (ucast (ucast (drop_bit (8 * i) v) :: u8))) [0..<k] 0
   = take_bit (8 * k) (v :: 'a::len word)"
  by (induction k) (simp_all add: take_bit_byte add.commute)

definition rd_at :: "reader \<Rightarrow> bytes \<Rightarrow> bool" where
  "rd_at r bs \<longleftrightarrow> rd_ok r \<and> rd_offset r \<le> length (rd_data r) \<and> drop (rd_offset r) (rd_data r) = bs"

lemma rd_at_make [simp]: "rd_at (make_reader bs) bs"
  by (simp add: rd_at_def make_reader_def rd_ok_def)

lemma rd_at_need: "rd_at r bs \<Longrightarrow> n \<le> length bs \<Longrightarrow> rd_need n r = (True, r)"
  by (auto simp: rd_at_def rd_need_def)

lemma rd_at_byte: "rd_at r bs \<Longrightarrow> i < length bs \<Longrightarrow> rd_byte r i = bs ! i"
  by (auto simp: rd_at_def rd_byte_def)

lemma rd_at_advance:
  assumes at: "rd_at r (xs @ bs)" and n: "length xs = n"
  shows "rd_at (rd_advance n r) bs"
proof -
  have d: "drop (rd_offset r) (rd_data r) = xs @ bs" and le: "rd_offset r \<le> length (rd_data r)"
    using at by (auto simp: rd_at_def)
  have "drop (rd_offset r + n) (rd_data r) = drop n (drop (rd_offset r) (rd_data r))"
    by (simp add: add.commute)
  also have "\<dots> = bs" using d n by simp
  finally have "drop (rd_offset r + n) (rd_data r) = bs" .
  moreover have "length (rd_data r) - rd_offset r = n + length bs"
    using arg_cong[OF d, of length] n by simp
  ultimately show ?thesis using at le by (simp add: rd_at_def rd_advance_def rd_ok_def)
qed

text \<open>The contract between a write and the read that mirrors it.\<close>

locale codec =
  fixes w :: "'a \<Rightarrow> bytes" and r :: "reader \<Rightarrow> 'a \<times> reader" and dom :: "'a \<Rightarrow> bool" and dflt :: 'a
  assumes read_back: "dom v \<Longrightarrow> rd_at rd (w v @ rest) \<Longrightarrow> \<exists>rd'. r rd = (v, rd') \<and> rd_at rd' rest"
    and sticky: "\<not> rd_ok rd \<Longrightarrow> r rd = (dflt, rd)"

text \<open>The element loops of the decoders: read, and stop at the first failure.\<close>

fun r_times :: "nat \<Rightarrow> (reader \<Rightarrow> 'a \<times> reader) \<Rightarrow> reader \<Rightarrow> 'a list \<times> reader" where
  "r_times 0 r rd = ([], rd)"
| "r_times (Suc n) r rd =
     (let (x, rd') = r rd in
      if \<not> rd_ok rd' then ([], rd')
      else let (xs, rd'') = r_times n r rd' in (x # xs, rd''))"

context codec
begin

lemma read_back_fst: "dom v \<Longrightarrow> rd_at rd (w v @ rest) \<Longrightarrow> fst (r rd) = v"
  using read_back by fastforce

lemma read_back_snd: "dom v \<Longrightarrow> rd_at rd (w v @ rest) \<Longrightarrow> rd_at (snd (r rd)) rest"
  using read_back by fastforce

text \<open>Encodings are unambiguous, also in front of further bytes of the same length.\<close>

lemma write_inj: "dom a \<Longrightarrow> dom b \<Longrightarrow> w a = w b \<longleftrightarrow> a = b"
  by (metis read_back_fst rd_at_make append_Nil2)

lemma list_append_inj:
  assumes len: "length xs = length ys" and fixed: "\<And>v. length (w v) = k"
    and all: "\<And>v. dom v"
  shows "w_list w xs @ r1 = w_list w ys @ r2 \<longleftrightarrow> xs = ys \<and> r1 = r2"
proof
  assume "w_list w xs @ r1 = w_list w ys @ r2"
  moreover have "length (w_list w xs) = length (w_list w ys)"
    using len by (simp add: w_list_def length_concat_const[OF fixed])
  ultimately have "concat (map w xs) = concat (map w ys)" "r1 = r2"
    using len by (auto simp: w_list_def)
  moreover have "xs = ys"
    by (rule concat_map_inj[of xs ys w]) (use len fixed write_inj all calculation(1) in auto)
  ultimately show "xs = ys \<and> r1 = r2" by simp
qed simp

lemma times_read_back:
  "list_all dom vs \<Longrightarrow> rd_at rd (concat (map w vs) @ rest) \<Longrightarrow>
   \<exists>rd'. r_times (length vs) r rd = (vs, rd') \<and> rd_at rd' rest"
proof (induction vs arbitrary: rd)
  case (Cons v vs)
  then have at: "rd_at rd (w v @ (concat (map w vs) @ rest))" and dv: "dom v" by auto
  from read_back[OF dv at] obtain rd1 where r1: "r rd = (v, rd1)"
      and at1: "rd_at rd1 (concat (map w vs) @ rest)"
    by blast
  from Cons.IH[OF _ at1] Cons.prems obtain rd2 where
    "r_times (length vs) r rd1 = (vs, rd2)" "rd_at rd2 rest" by auto
  moreover have "rd_ok rd1" using at1 by (simp add: rd_at_def)
  ultimately show ?case using r1 by simp
qed simp

end

lemma unat_of_char: "unat (of_char c :: u8) = of_char c"
proof -
  have "(of_char c :: u8) = of_nat (of_char c)" by (simp add: of_char_def horner_sum_eq_sum of_nat_sum)
  moreover have "(of_char c :: nat) < 256" by (rule nat_of_char_less_256)
  ultimately show ?thesis by (simp only: unat_of_nat) simp
qed

lemma rd_at_need_append: "rd_at r (xs @ bs) \<Longrightarrow> length xs = n \<Longrightarrow> rd_need n r = (True, r)"
  by (rule rd_at_need) auto

lemma rd_need_not_ok [simp]: "\<not> rd_ok r \<Longrightarrow> rd_need n r = (False, r)"
  by (simp add: rd_need_def)

lemma fold_bytes_cong:
  assumes at: "rd_at r (map (\<lambda>i. ucast (drop_bit (8 * i) (v :: 'a::len word) AND 0xFF)) [0..<k] @ rest)"
    and len: "8 \<le> LENGTH('a)"
  shows "fold (\<lambda>i acc. acc OR push_bit (8 * i) (ucast (rd_byte r i))) [0..<k] 0 = take_bit (8 * k) v"
proof -
  have "rd_byte r i = ucast (drop_bit (8 * i) v)" if "i < k" for i
    using that by (subst rd_at_byte[OF at]) (simp_all add: nth_append byte_of[OF len])
  then have "fold (\<lambda>i acc. acc OR push_bit (8 * i) (ucast (rd_byte r i))) [0..<k] 0 =
      fold (\<lambda>i acc. acc OR push_bit (8 * i) (ucast (ucast (drop_bit (8 * i) v) :: u8))) [0..<k] (0 :: 'a word)"
    by (intro fold_cong) auto
  then show ?thesis by (simp only: join_bytes)
qed

interpretation u8: codec w_u8 r_u8 "\<lambda>_. True" 0
proof unfold_locales
  fix v :: u8 and rd rest
  assume at: "rd_at rd (w_u8 v @ rest)"
  have "rd_at (rd_advance 1 rd) rest" by (rule rd_at_advance[OF at]) simp
  then show "\<exists>rd'. r_u8 rd = (v, rd') \<and> rd_at rd' rest"
    using rd_at_need_append[OF at, of 1] rd_at_byte[OF at, of 0] by (simp add: r_u8_def w_u8_def)
qed (simp add: r_u8_def)

interpretation u16: codec w_u16 r_u16 "\<lambda>_. True" 0
proof unfold_locales
  fix v :: u16 and rd rest
  assume "rd_at rd (w_u16 v @ rest)"
  moreover have "w_u16 v = map (\<lambda>i. ucast (drop_bit (8 * i) v AND 0xFF)) [0..<2]"
    by (simp add: w_u16_def upt_rec)
  ultimately have at: "rd_at rd (map (\<lambda>i. ucast (drop_bit (8 * i) v AND 0xFF)) [0..<2] @ rest)" by simp
  have "ucast (rd_byte rd 0) OR push_bit 8 (ucast (rd_byte rd 1)) = v"
    using fold_bytes_cong[OF at] by (simp add: upt_rec take_bit_word_eq_self)
  moreover have "rd_at (rd_advance 2 rd) rest" by (rule rd_at_advance[OF at]) simp
  ultimately show "\<exists>rd'. r_u16 rd = (v, rd') \<and> rd_at rd' rest"
    using rd_at_need_append[OF at, of 2] by (simp add: r_u16_def)
qed (simp add: r_u16_def)

interpretation u32: codec w_u32 r_u32 "\<lambda>_. True" 0
proof unfold_locales
  fix v :: u32 and rd rest
  assume "rd_at rd (w_u32 v @ rest)"
  then have at: "rd_at rd (map (\<lambda>i. ucast (drop_bit (8 * i) v AND 0xFF)) [0..<4] @ rest)"
    by (simp only: w_u32_def)
  have "rd_at (rd_advance 4 rd) rest" by (rule rd_at_advance[OF at]) simp
  then show "\<exists>rd'. r_u32 rd = (v, rd') \<and> rd_at rd' rest"
    using rd_at_need_append[OF at, of 4] fold_bytes_cong[OF at]
    by (simp add: r_u32_def take_bit_word_eq_self)
qed (simp add: r_u32_def)

interpretation u64: codec w_u64 r_u64 "\<lambda>_. True" 0
proof unfold_locales
  fix v :: u64 and rd rest
  assume "rd_at rd (w_u64 v @ rest)"
  then have at: "rd_at rd (map (\<lambda>i. ucast (drop_bit (8 * i) v AND 0xFF)) [0..<8] @ rest)"
    by (simp only: w_u64_def)
  have "rd_at (rd_advance 8 rd) rest" by (rule rd_at_advance[OF at]) simp
  then show "\<exists>rd'. r_u64 rd = (v, rd') \<and> rd_at rd' rest"
    using rd_at_need_append[OF at, of 8] fold_bytes_cong[OF at]
    by (simp add: r_u64_def take_bit_word_eq_self)
qed (simp add: r_u64_def)

interpretation i64: codec w_i64 r_i64 "\<lambda>_. True" 0
  by unfold_locales (auto simp: w_i64_def r_i64_def u64.read_back u64.sticky)

interpretation boolean: codec w_boolean r_boolean "\<lambda>_. True" False
proof unfold_locales
  fix v :: bool and rd rest
  assume "rd_at rd (w_boolean v @ rest)"
  from u8.read_back[OF _ this[unfolded w_boolean_def]] obtain rd' where
    "r_u8 rd = (if v then 1 else 0, rd')" "rd_at rd' rest" by auto
  then show "\<exists>rd'. r_boolean rd = (v, rd') \<and> rd_at rd' rest"
    by (auto simp: r_boolean_def rd_at_def)
qed (simp add: r_boolean_def u8.sticky)

interpretation counted_bytes: codec w_bytes "r_bytes m" "\<lambda>v. length v \<le> m \<and> length v < 2 ^ 32" "[]"
proof unfold_locales
  fix v :: bytes and rd rest
  assume dom: "length v \<le> m \<and> length v < 2 ^ 32" and "rd_at rd (w_bytes v @ rest)"
  then have "rd_at rd (w_u32 (of_nat (length v)) @ (v @ rest))" by (simp add: w_bytes_def)
  from u32.read_back[OF _ this] obtain rd1 where
    r1: "r_u32 rd = (of_nat (length v), rd1)" and at1: "rd_at rd1 (v @ rest)" by auto
  have len: "unat (of_nat (length v) :: u32) = length v" using dom by (simp add: unat_of_nat)
  have "rd_at (rd_advance (length v) rd1) rest" by (rule rd_at_advance[OF at1]) simp
  then show "\<exists>rd'. r_bytes m rd = (v, rd') \<and> rd_at rd' rest"
    using r1 dom rd_at_need_append[OF at1 refl] at1
    by (auto simp: r_bytes_def len rd_at_def Let_def)
qed (simp add: r_bytes_def u32.sticky)

interpretation str: codec w_str "r_str m" "\<lambda>v. length v \<le> m \<and> length v < 2 ^ 32" "[]"
proof unfold_locales
  fix v :: string and rd rest
  let ?b = "map (of_char :: char \<Rightarrow> u8) v"
  assume dom: "length v \<le> m \<and> length v < 2 ^ 32" and "rd_at rd (w_str v @ rest)"
  then have "rd_at rd (w_u32 (of_nat (length v)) @ (?b @ rest))" by (simp add: w_str_def)
  from u32.read_back[OF _ this] obtain rd1 where
    r1: "r_u32 rd = (of_nat (length v), rd1)" and at1: "rd_at rd1 (?b @ rest)" by auto
  have len: "unat (of_nat (length v) :: u32) = length v" using dom by (simp add: unat_of_nat)
  have "rd_at (rd_advance (length v) rd1) rest" by (rule rd_at_advance[OF at1]) simp
  moreover have "char_of (unat (of_char c :: u8)) = c" for c
    by (simp add: unat_of_char)
  ultimately show "\<exists>rd'. r_str m rd = (v, rd') \<and> rd_at rd' rest"
    using r1 dom rd_at_need_append[OF at1, of "length v"] at1
    by (auto simp: r_str_def len rd_at_def Let_def comp_def)
qed (simp add: r_str_def u32.sticky)

section \<open>Reads stay inside the buffer\<close>

text \<open>Every read leaves the buffer alone and the offset inside it.\<close>

definition rd_extends :: "reader \<Rightarrow> reader \<Rightarrow> bool" where
  "rd_extends r r' \<longleftrightarrow> rd_data r' = rd_data r \<and> rd_offset r \<le> rd_offset r' \<and>
     (rd_offset r \<le> length (rd_data r) \<longrightarrow> rd_offset r' \<le> length (rd_data r'))"

lemma rd_extends_refl [simp]: "rd_extends r r"
  by (simp add: rd_extends_def)

lemma rd_extends_trans: "rd_extends a b \<Longrightarrow> rd_extends b c \<Longrightarrow> rd_extends a c"
  by (auto simp: rd_extends_def)

lemma rd_extends_fail [simp]: "rd_extends r (rd_fail c m r)"
  by (simp add: rd_extends_def rd_fail_def)

lemma rd_extends_need: "rd_need n r = (b, r') \<Longrightarrow> rd_extends r r'"
  by (auto simp: rd_need_def split: if_splits)

lemma rd_extends_need_advance: "rd_need n r = (True, r') \<Longrightarrow> rd_extends r (rd_advance n r')"
  by (auto simp: rd_need_def rd_advance_def rd_extends_def split: if_splits)

lemmas rd_extends_rules = rd_extends_need rd_extends_need_advance

lemma rd_extends_scalar:
  "rd_extends r (snd (r_u8 r))" "rd_extends r (snd (r_u16 r))"
  "rd_extends r (snd (r_u32 r))" "rd_extends r (snd (r_u64 r))"
  by (auto simp: r_u8_def r_u16_def r_u32_def r_u64_def
      split: prod.splits bool.splits dest: rd_extends_rules)

lemma rd_extends_snd_fail: "rd_extends r r' \<Longrightarrow> rd_extends r (rd_fail c m r')"
  by (rule rd_extends_trans) auto

lemma rd_extends_u32_need:
  "r_u32 r = (len, r1) \<Longrightarrow> rd_need n r1 = (b, r2) \<Longrightarrow>
   rd_extends r r2 \<and> (b \<longrightarrow> rd_extends r (rd_advance n r2))"
  using rd_extends_scalar(3)[of r] rd_extends_need[of n r1 b r2] rd_extends_need_advance[of n r1 r2]
  by (auto intro: rd_extends_trans)

end
