(* ===== verification/NRP_Model.thy ===== *)
theory NRP_Model
  imports NRP_Canonical
begin

text \<open>
  Authority, generations, fences, evidence facts and the explanation log
  (\<open>include/nrp/model.hpp\<close>, \<open>src/model.cpp\<close>). Enumerations keep the source's constructors
  behind a prefix (\<open>AD_\<close> for \<open>AuthorityDomain\<close>, \<open>AL_\<close> for \<open>AuthorityLevel\<close>, ...), the
  \<open>COUNT\<close> sentinel included; \<open>raw_...\<close> is the \<open>static_cast\<close> to the underlying byte.
\<close>

section \<open>Enumerations\<close>

datatype trust_label =
    TL_UNKNOWN | TL_REAL | TL_SYNTHETIC | TL_UNSUPPORTED

primrec raw_trust_label :: "trust_label \<Rightarrow> u8" where
  "raw_trust_label TL_UNKNOWN = 0"
| "raw_trust_label TL_REAL = 1"
| "raw_trust_label TL_SYNTHETIC = 2"
| "raw_trust_label TL_UNSUPPORTED = 3"

lemma raw_trust_label_inj [simp]: "raw_trust_label a = raw_trust_label b \<longleftrightarrow> a = b"
  by (cases a; cases b) auto

datatype authority_domain =
    AD_FABRIC_STATE | AD_RECOVERY_ADMISSION | AD_RESOURCE_LEASE | AD_POLICY | AD_EVIDENCE_INGEST
  | AD_COUNT

primrec raw_authority_domain :: "authority_domain \<Rightarrow> u8" where
  "raw_authority_domain AD_FABRIC_STATE = 0"
| "raw_authority_domain AD_RECOVERY_ADMISSION = 1"
| "raw_authority_domain AD_RESOURCE_LEASE = 2"
| "raw_authority_domain AD_POLICY = 3"
| "raw_authority_domain AD_EVIDENCE_INGEST = 4"
| "raw_authority_domain AD_COUNT = 5"

primrec authority_domain_name :: "authority_domain \<Rightarrow> string" where
  "authority_domain_name AD_FABRIC_STATE = ''FABRIC_STATE''"
| "authority_domain_name AD_RECOVERY_ADMISSION = ''RECOVERY_ADMISSION''"
| "authority_domain_name AD_RESOURCE_LEASE = ''RESOURCE_LEASE''"
| "authority_domain_name AD_POLICY = ''POLICY''"
| "authority_domain_name AD_EVIDENCE_INGEST = ''EVIDENCE_INGEST''"
| "authority_domain_name AD_COUNT = ''COUNT''"

lemma raw_authority_domain_inj [simp]: "raw_authority_domain a = raw_authority_domain b \<longleftrightarrow> a = b"
  by (cases a; cases b) auto

definition valid_authority_domain :: "authority_domain \<Rightarrow> bool" where
  "valid_authority_domain d \<longleftrightarrow> d \<noteq> AD_COUNT"

datatype authority_level =
    AL_NONE | AL_OBSERVATION | AL_ELIGIBILITY | AL_RECOMMENDATION | AL_AUTHORIZATION
  | AL_ACKNOWLEDGEMENT | AL_VERIFIED_EFFECT | AL_COUNT

primrec raw_authority_level :: "authority_level \<Rightarrow> u8" where
  "raw_authority_level AL_NONE = 0"
| "raw_authority_level AL_OBSERVATION = 1"
| "raw_authority_level AL_ELIGIBILITY = 2"
| "raw_authority_level AL_RECOMMENDATION = 3"
| "raw_authority_level AL_AUTHORIZATION = 4"
| "raw_authority_level AL_ACKNOWLEDGEMENT = 5"
| "raw_authority_level AL_VERIFIED_EFFECT = 6"
| "raw_authority_level AL_COUNT = 7"

primrec authority_level_name :: "authority_level \<Rightarrow> string" where
  "authority_level_name AL_NONE = ''NONE''"
| "authority_level_name AL_OBSERVATION = ''OBSERVATION''"
| "authority_level_name AL_ELIGIBILITY = ''ELIGIBILITY''"
| "authority_level_name AL_RECOMMENDATION = ''RECOMMENDATION''"
| "authority_level_name AL_AUTHORIZATION = ''AUTHORIZATION''"
| "authority_level_name AL_ACKNOWLEDGEMENT = ''ACKNOWLEDGEMENT''"
| "authority_level_name AL_VERIFIED_EFFECT = ''VERIFIED_EFFECT''"
| "authority_level_name AL_COUNT = ''COUNT''"

lemma raw_authority_level_inj [simp]: "raw_authority_level a = raw_authority_level b \<longleftrightarrow> a = b"
  by (cases a; cases b) auto

definition valid_authority_level :: "authority_level \<Rightarrow> bool" where
  "valid_authority_level l \<longleftrightarrow> l \<noteq> AL_COUNT"

text \<open>Levels compare by their underlying value.\<close>

instantiation authority_level :: linorder
begin

definition less_authority_level :: "authority_level \<Rightarrow> authority_level \<Rightarrow> bool" where
  "less_authority_level a b \<longleftrightarrow> raw_authority_level a < raw_authority_level b"

definition less_eq_authority_level :: "authority_level \<Rightarrow> authority_level \<Rightarrow> bool" where
  "less_eq_authority_level a b \<longleftrightarrow> raw_authority_level a \<le> raw_authority_level b"

instance
proof
  fix x y z :: authority_level
  show "(x < y) = (x \<le> y \<and> \<not> y \<le> x)" "x \<le> x"
    by (simp_all add: less_authority_level_def less_eq_authority_level_def less_le_not_le)
  show "x \<le> y \<Longrightarrow> y \<le> z \<Longrightarrow> x \<le> z" "x \<le> y \<or> y \<le> x"
    by (auto simp: less_eq_authority_level_def)
  show "x \<le> y \<Longrightarrow> y \<le> x \<Longrightarrow> x = y"
    using raw_authority_level_inj[of x y] by (simp add: less_eq_authority_level_def)
qed

end

datatype binding_state =
    BS_CURRENT | BS_STALE | BS_UNKNOWN | BS_CONFLICT | BS_INVALID | BS_UNSUPPORTED | BS_COUNT

primrec raw_binding_state :: "binding_state \<Rightarrow> u8" where
  "raw_binding_state BS_CURRENT = 0"
| "raw_binding_state BS_STALE = 1"
| "raw_binding_state BS_UNKNOWN = 2"
| "raw_binding_state BS_CONFLICT = 3"
| "raw_binding_state BS_INVALID = 4"
| "raw_binding_state BS_UNSUPPORTED = 5"
| "raw_binding_state BS_COUNT = 6"

primrec binding_state_name :: "binding_state \<Rightarrow> string" where
  "binding_state_name BS_CURRENT = ''CURRENT''"
| "binding_state_name BS_STALE = ''STALE''"
| "binding_state_name BS_UNKNOWN = ''UNKNOWN''"
| "binding_state_name BS_CONFLICT = ''CONFLICT''"
| "binding_state_name BS_INVALID = ''INVALID''"
| "binding_state_name BS_UNSUPPORTED = ''UNSUPPORTED''"
| "binding_state_name BS_COUNT = ''COUNT''"

lemma raw_binding_state_inj [simp]: "raw_binding_state a = raw_binding_state b \<longleftrightarrow> a = b"
  by (cases a; cases b) auto

datatype evidence_kind =
    EK_LINK_OPERATIONAL | EK_NODE_OPERATIONAL | EK_SERVICE_REACHABLE_ENDPOINTS
  | EK_RESOURCE_AVAILABLE_UNITS | EK_RESOURCE_RESTORED | EK_COUNT

primrec raw_evidence_kind :: "evidence_kind \<Rightarrow> u8" where
  "raw_evidence_kind EK_LINK_OPERATIONAL = 0"
| "raw_evidence_kind EK_NODE_OPERATIONAL = 1"
| "raw_evidence_kind EK_SERVICE_REACHABLE_ENDPOINTS = 2"
| "raw_evidence_kind EK_RESOURCE_AVAILABLE_UNITS = 3"
| "raw_evidence_kind EK_RESOURCE_RESTORED = 4"
| "raw_evidence_kind EK_COUNT = 5"

lemma raw_evidence_kind_inj [simp]: "raw_evidence_kind a = raw_evidence_kind b \<longleftrightarrow> a = b"
  by (cases a; cases b) auto

definition valid_evidence_kind :: "evidence_kind \<Rightarrow> bool" where
  "valid_evidence_kind k \<longleftrightarrow> k \<noteq> EK_COUNT"

primrec expected_subject_evidence :: "evidence_kind \<Rightarrow> subject_kind" where
  "expected_subject_evidence EK_LINK_OPERATIONAL = SK_LINK"
| "expected_subject_evidence EK_NODE_OPERATIONAL = SK_NODE"
| "expected_subject_evidence EK_SERVICE_REACHABLE_ENDPOINTS = SK_SERVICE"
| "expected_subject_evidence EK_RESOURCE_AVAILABLE_UNITS = SK_RESOURCE"
| "expected_subject_evidence EK_RESOURCE_RESTORED = SK_RESOURCE"
| "expected_subject_evidence EK_COUNT = SK_NONE"

datatype subject_state =
    SS_RESOLVED | SS_MISSING | SS_STALE | SS_AHEAD | SS_CONFLICT | SS_INVALID | SS_UNSUPPORTED
  | SS_COUNT

primrec raw_subject_state :: "subject_state \<Rightarrow> u8" where
  "raw_subject_state SS_RESOLVED = 0"
| "raw_subject_state SS_MISSING = 1"
| "raw_subject_state SS_STALE = 2"
| "raw_subject_state SS_AHEAD = 3"
| "raw_subject_state SS_CONFLICT = 4"
| "raw_subject_state SS_INVALID = 5"
| "raw_subject_state SS_UNSUPPORTED = 6"
| "raw_subject_state SS_COUNT = 7"

primrec subject_state_name :: "subject_state \<Rightarrow> string" where
  "subject_state_name SS_RESOLVED = ''RESOLVED''"
| "subject_state_name SS_MISSING = ''MISSING''"
| "subject_state_name SS_STALE = ''STALE''"
| "subject_state_name SS_AHEAD = ''AHEAD''"
| "subject_state_name SS_CONFLICT = ''CONFLICT''"
| "subject_state_name SS_INVALID = ''INVALID''"
| "subject_state_name SS_UNSUPPORTED = ''UNSUPPORTED''"
| "subject_state_name SS_COUNT = ''COUNT''"

lemma raw_subject_state_inj [simp]: "raw_subject_state a = raw_subject_state b \<longleftrightarrow> a = b"
  by (cases a; cases b) auto

datatype (plugins only: code) reason_code =
    RC_NONE | RC_PLAN_ACCEPTED | RC_PLAN_OPTIMAL_BY_OBJECTIVE | RC_PROOF_EXHAUSTIVE_SEARCH
  | RC_PROOF_DEPENDENCY_CYCLE | RC_PROOF_GOAL_UPPER_BOUND | RC_SEARCH_BUDGET_EXHAUSTED
  | RC_EVIDENCE_SUBJECT_MISSING | RC_EVIDENCE_SUBJECT_STALE
  | RC_EVIDENCE_SUBJECT_AHEAD_OF_AUTHORITY | RC_EVIDENCE_SUBJECT_CONFLICTING
  | RC_EVIDENCE_SUBJECT_INVALID | RC_EVIDENCE_SUBJECT_UNSUPPORTED | RC_AUTHORITY_BINDING_MISSING
  | RC_AUTHORITY_BINDING_STALE | RC_AUTHORITY_BINDING_UNKNOWN | RC_AUTHORITY_BINDING_CONFLICT
  | RC_AUTHORITY_BINDING_INVALID | RC_AUTHORITY_BINDING_UNSUPPORTED
  | RC_AUTHORITY_LEVEL_INSUFFICIENT | RC_REQUEST_INVALID_DEFINITION
  | RC_REQUEST_UNSUPPORTED_PROBLEM | RC_REQUEST_MALFORMED_ENCODING
  | RC_REQUEST_POLICY_RESTRICTED_ACTION | RC_REQUEST_FENCED_BY_EPOCH
  | RC_VALIDATION_PRECONDITION_UNMET | RC_VALIDATION_ORDERING_VIOLATION
  | RC_VALIDATION_RESOURCE_VIOLATION | RC_VALIDATION_SAFETY_VIOLATION
  | RC_VALIDATION_AUTHORITY_MISMATCH | RC_VALIDATION_EVIDENCE_BINDING_MISMATCH
  | RC_VALIDATION_GOAL_UNMET | RC_VALIDATION_OBJECTIVE_MISMATCH | RC_VALIDATION_DIGEST_MISMATCH
  | RC_VALIDATION_OCCURRENCE_EXCEEDED | RC_VALIDATION_EXCLUSION_VIOLATION
  | RC_VALIDATION_COMPENSATION_MISSING | RC_VALIDATION_FENCED | RC_PERSISTENCE_INTEGRITY_FAILURE
  | RC_PERSISTENCE_VERSION_UNSUPPORTED | RC_PERSISTENCE_SEQUENCE_REGRESSION
  | RC_PERSISTENCE_TRAILING_GARBAGE | RC_PERSISTENCE_TORN_TAIL_RECOVERED
  | RC_PERSISTENCE_EPOCH_ADVANCED | RC_PERSISTENCE_STALE_DYNAMIC_STATE_FENCED
  | RC_PROTOCOL_FRAME_TOO_LARGE | RC_PROTOCOL_BAD_MAGIC | RC_PROTOCOL_BAD_VERSION
  | RC_PROTOCOL_BAD_CHECKSUM | RC_PROTOCOL_TRUNCATED | RC_PROTOCOL_TRAILING_BYTES
  | RC_PROTOCOL_SEQUENCE_REGRESSION | RC_PROTOCOL_SESSION_MISMATCH | RC_PROTOCOL_STICKY_FAILURE
  | RC_PROTOCOL_DECODE_REJECTED | RC_SESSION_LIMIT_REACHED | RC_QUEUE_LIMIT_REACHED
  | RC_SHUTDOWN_REQUESTED | RC_COUNT

primrec raw_reason_code :: "reason_code \<Rightarrow> u8" where
  "raw_reason_code RC_NONE = 0"
| "raw_reason_code RC_PLAN_ACCEPTED = 1"
| "raw_reason_code RC_PLAN_OPTIMAL_BY_OBJECTIVE = 2"
| "raw_reason_code RC_PROOF_EXHAUSTIVE_SEARCH = 3"
| "raw_reason_code RC_PROOF_DEPENDENCY_CYCLE = 4"
| "raw_reason_code RC_PROOF_GOAL_UPPER_BOUND = 5"
| "raw_reason_code RC_SEARCH_BUDGET_EXHAUSTED = 6"
| "raw_reason_code RC_EVIDENCE_SUBJECT_MISSING = 7"
| "raw_reason_code RC_EVIDENCE_SUBJECT_STALE = 8"
| "raw_reason_code RC_EVIDENCE_SUBJECT_AHEAD_OF_AUTHORITY = 9"
| "raw_reason_code RC_EVIDENCE_SUBJECT_CONFLICTING = 10"
| "raw_reason_code RC_EVIDENCE_SUBJECT_INVALID = 11"
| "raw_reason_code RC_EVIDENCE_SUBJECT_UNSUPPORTED = 12"
| "raw_reason_code RC_AUTHORITY_BINDING_MISSING = 13"
| "raw_reason_code RC_AUTHORITY_BINDING_STALE = 14"
| "raw_reason_code RC_AUTHORITY_BINDING_UNKNOWN = 15"
| "raw_reason_code RC_AUTHORITY_BINDING_CONFLICT = 16"
| "raw_reason_code RC_AUTHORITY_BINDING_INVALID = 17"
| "raw_reason_code RC_AUTHORITY_BINDING_UNSUPPORTED = 18"
| "raw_reason_code RC_AUTHORITY_LEVEL_INSUFFICIENT = 19"
| "raw_reason_code RC_REQUEST_INVALID_DEFINITION = 20"
| "raw_reason_code RC_REQUEST_UNSUPPORTED_PROBLEM = 21"
| "raw_reason_code RC_REQUEST_MALFORMED_ENCODING = 22"
| "raw_reason_code RC_REQUEST_POLICY_RESTRICTED_ACTION = 23"
| "raw_reason_code RC_REQUEST_FENCED_BY_EPOCH = 24"
| "raw_reason_code RC_VALIDATION_PRECONDITION_UNMET = 25"
| "raw_reason_code RC_VALIDATION_ORDERING_VIOLATION = 26"
| "raw_reason_code RC_VALIDATION_RESOURCE_VIOLATION = 27"
| "raw_reason_code RC_VALIDATION_SAFETY_VIOLATION = 28"
| "raw_reason_code RC_VALIDATION_AUTHORITY_MISMATCH = 29"
| "raw_reason_code RC_VALIDATION_EVIDENCE_BINDING_MISMATCH = 30"
| "raw_reason_code RC_VALIDATION_GOAL_UNMET = 31"
| "raw_reason_code RC_VALIDATION_OBJECTIVE_MISMATCH = 32"
| "raw_reason_code RC_VALIDATION_DIGEST_MISMATCH = 33"
| "raw_reason_code RC_VALIDATION_OCCURRENCE_EXCEEDED = 34"
| "raw_reason_code RC_VALIDATION_EXCLUSION_VIOLATION = 35"
| "raw_reason_code RC_VALIDATION_COMPENSATION_MISSING = 36"
| "raw_reason_code RC_VALIDATION_FENCED = 37"
| "raw_reason_code RC_PERSISTENCE_INTEGRITY_FAILURE = 38"
| "raw_reason_code RC_PERSISTENCE_VERSION_UNSUPPORTED = 39"
| "raw_reason_code RC_PERSISTENCE_SEQUENCE_REGRESSION = 40"
| "raw_reason_code RC_PERSISTENCE_TRAILING_GARBAGE = 41"
| "raw_reason_code RC_PERSISTENCE_TORN_TAIL_RECOVERED = 42"
| "raw_reason_code RC_PERSISTENCE_EPOCH_ADVANCED = 43"
| "raw_reason_code RC_PERSISTENCE_STALE_DYNAMIC_STATE_FENCED = 44"
| "raw_reason_code RC_PROTOCOL_FRAME_TOO_LARGE = 45"
| "raw_reason_code RC_PROTOCOL_BAD_MAGIC = 46"
| "raw_reason_code RC_PROTOCOL_BAD_VERSION = 47"
| "raw_reason_code RC_PROTOCOL_BAD_CHECKSUM = 48"
| "raw_reason_code RC_PROTOCOL_TRUNCATED = 49"
| "raw_reason_code RC_PROTOCOL_TRAILING_BYTES = 50"
| "raw_reason_code RC_PROTOCOL_SEQUENCE_REGRESSION = 51"
| "raw_reason_code RC_PROTOCOL_SESSION_MISMATCH = 52"
| "raw_reason_code RC_PROTOCOL_STICKY_FAILURE = 53"
| "raw_reason_code RC_PROTOCOL_DECODE_REJECTED = 54"
| "raw_reason_code RC_SESSION_LIMIT_REACHED = 55"
| "raw_reason_code RC_QUEUE_LIMIT_REACHED = 56"
| "raw_reason_code RC_SHUTDOWN_REQUESTED = 57"
| "raw_reason_code RC_COUNT = 58"

section \<open>Authority bindings\<close>

record authority_binding =
  ab_domain :: authority_domain
  ab_authority :: strong_id
  ab_required :: generation
  ab_granted :: generation
  ab_level :: authority_level

definition evaluate_binding :: "authority_binding \<Rightarrow> binding_state" where
  "evaluate_binding b =
     (if ab_authority b = 0 then BS_UNKNOWN
      else if ab_granted b < ab_required b then BS_STALE
      else if ab_granted b > ab_required b then BS_INVALID
      else if ab_level b = AL_NONE then BS_UNKNOWN
      else BS_CURRENT)"

definition binding_less :: "authority_binding \<Rightarrow> authority_binding \<Rightarrow> bool" where
  "binding_less a b =
     (if ab_domain a \<noteq> ab_domain b
        then raw_authority_domain (ab_domain a) < raw_authority_domain (ab_domain b)
      else if ab_authority a \<noteq> ab_authority b then ab_authority a < ab_authority b
      else if ab_required a \<noteq> ab_required b then ab_required a < ab_required b
      else if ab_granted a \<noteq> ab_granted b then ab_granted a < ab_granted b
      else raw_authority_level (ab_level a) < raw_authority_level (ab_level b))"

record authority_vector =
  av_epoch :: epoch
  av_boot :: boot_id
  av_bindings :: "authority_binding list"

definition canonicalise_authority :: "authority_vector \<Rightarrow> authority_vector" where
  "canonicalise_authority v = v\<lparr>av_bindings := sort_by binding_less (av_bindings v)\<rparr>"

definition find_binding :: "authority_vector \<Rightarrow> authority_domain \<Rightarrow> authority_binding option" where
  "find_binding v d = find (\<lambda>b. ab_domain b = d) (av_bindings v)"

text \<open>\<open>all_current\<close>: the nested loops, failing closed on a repeated domain.\<close>

fun all_current_from :: "authority_binding list \<Rightarrow> bool" where
  "all_current_from [] = True"
| "all_current_from (b # bs) =
     (if evaluate_binding b \<noteq> BS_CURRENT then False
      else if list_ex (\<lambda>other. ab_domain b = ab_domain other) bs then False
      else all_current_from bs)"

definition all_current :: "authority_vector \<Rightarrow> bool" where
  "all_current v = all_current_from (av_bindings v)"

text \<open>\<open>evaluate_domain\<close>: the scan remembers the binding found so far.\<close>

fun evaluate_domain_scan ::
  "authority_domain \<Rightarrow> authority_binding option \<Rightarrow> authority_binding list \<Rightarrow> binding_state" where
  "evaluate_domain_scan d found [] =
     (case found of None \<Rightarrow> BS_UNKNOWN | Some b \<Rightarrow> evaluate_binding b)"
| "evaluate_domain_scan d found (b # bs) =
     (if ab_domain b \<noteq> d then evaluate_domain_scan d found bs
      else case found of
          Some _ \<Rightarrow> BS_CONFLICT
        | None \<Rightarrow> evaluate_domain_scan d (Some b) bs)"

definition evaluate_domain :: "authority_vector \<Rightarrow> authority_domain \<Rightarrow> binding_state" where
  "evaluate_domain v d = evaluate_domain_scan d None (av_bindings v)"

definition encode_authority :: "authority_vector \<Rightarrow> bytes" where
  "encode_authority v =
     w_u64 (av_epoch v) @ w_u64 (av_boot v) @
     w_list (\<lambda>b. w_u8 (raw_authority_domain (ab_domain b)) @ w_u64 (ab_authority b) @
                 w_u64 (ab_required b) @ w_u64 (ab_granted b) @
                 w_u8 (raw_authority_level (ab_level b))) (av_bindings v)"

definition authority_digest :: "authority_vector \<Rightarrow> digest" where
  "authority_digest v = digest_of (encode_authority v)"

section \<open>Fences\<close>

record fence =
  fe_epoch :: epoch
  fe_boot :: boot_id
  fe_domain :: authority_domain
  fe_minimum_generation :: generation
  fe_sequence :: seqno
  fe_reason :: string

definition fence_less :: "fence \<Rightarrow> fence \<Rightarrow> bool" where
  "fence_less a b =
     (if fe_epoch a \<noteq> fe_epoch b then fe_epoch a < fe_epoch b
      else if fe_boot a \<noteq> fe_boot b then fe_boot a < fe_boot b
      else if fe_domain a \<noteq> fe_domain b
        then raw_authority_domain (fe_domain a) < raw_authority_domain (fe_domain b)
      else if fe_minimum_generation a \<noteq> fe_minimum_generation b
        then fe_minimum_generation a < fe_minimum_generation b
      else fe_sequence a < fe_sequence b)"

text \<open>\<open>encode_fence\<close> of \<open>src/codec.cpp\<close>.\<close>

definition encode_fence :: "fence \<Rightarrow> bytes" where
  "encode_fence f =
     w_u64 (fe_epoch f) @ w_u64 (fe_boot f) @ w_u8 (raw_authority_domain (fe_domain f)) @
     w_u64 (fe_minimum_generation f) @ w_u64 (fe_sequence f) @ w_str (fe_reason f)"

section \<open>Evidence\<close>

record evidence_fact =
  ef_id :: strong_id
  ef_kind :: evidence_kind
  ef_subject :: subject
  ef_value :: u64
  ef_generation :: generation
  ef_source_domain :: authority_domain
  ef_source :: strong_id
  ef_label :: trust_label
  ef_sequence :: seqno

definition fact_less :: "evidence_fact \<Rightarrow> evidence_fact \<Rightarrow> bool" where
  "fact_less a b =
     (if ef_subject a \<noteq> ef_subject b then ef_subject a < ef_subject b
      else if ef_kind a \<noteq> ef_kind b
        then raw_evidence_kind (ef_kind a) < raw_evidence_kind (ef_kind b)
      else if ef_source_domain a \<noteq> ef_source_domain b
        then raw_authority_domain (ef_source_domain a) < raw_authority_domain (ef_source_domain b)
      else if ef_source a \<noteq> ef_source b then ef_source a < ef_source b
      else if ef_sequence a \<noteq> ef_sequence b then ef_sequence a < ef_sequence b
      else if ef_generation a \<noteq> ef_generation b then ef_generation a < ef_generation b
      else if ef_value a \<noteq> ef_value b then ef_value a < ef_value b
      else ef_id a < ef_id b)"

record evidence_bundle =
  eb_epoch :: epoch
  eb_boot :: boot_id
  eb_facts :: "evidence_fact list"

definition canonicalise_evidence :: "evidence_bundle \<Rightarrow> evidence_bundle" where
  "canonicalise_evidence e = e\<lparr>eb_facts := sort_by fact_less (eb_facts e)\<rparr>"

definition encode_evidence :: "evidence_bundle \<Rightarrow> bytes" where
  "encode_evidence e =
     w_u64 (eb_epoch e) @ w_u64 (eb_boot e) @
     w_list (\<lambda>f. w_u64 (ef_id f) @ w_u8 (raw_evidence_kind (ef_kind f)) @
                 w_u8 (raw_subject_kind (subj_kind (ef_subject f))) @ w_u64 (subj_id (ef_subject f)) @
                 w_u64 (ef_value f) @ w_u64 (ef_generation f) @
                 w_u8 (raw_authority_domain (ef_source_domain f)) @ w_u64 (ef_source f) @
                 w_u8 (raw_trust_label (ef_label f)) @ w_u64 (ef_sequence f)) (eb_facts e)"

definition evidence_digest :: "evidence_bundle \<Rightarrow> digest" where
  "evidence_digest e = digest_of (encode_evidence e)"

section \<open>Explanation log\<close>

record explanation =
  ex_code :: reason_code
  ex_subject :: subject
  ex_detail_a :: u64
  ex_detail_b :: u64
  ex_text :: string

record explanation_log =
  el_entries :: "explanation list"
  el_cap :: nat
  el_overflowed :: bool

definition make_log :: "nat \<Rightarrow> explanation_log" where
  "make_log cap = \<lparr>el_entries = [], el_cap = (if cap = 0 then 1 else cap), el_overflowed = False\<rparr>"

definition overflow_marker :: explanation where
  "overflow_marker =
     \<lparr>ex_code = RC_REQUEST_UNSUPPORTED_PROBLEM, ex_subject = no_subject, ex_detail_a = 0,
      ex_detail_b = 0, ex_text = ''explanation log capacity reached; further entries truncated''\<rparr>"

definition log_add :: "explanation \<Rightarrow> explanation_log \<Rightarrow> explanation_log" where
  "log_add e l =
     (if length (el_entries l) \<ge> el_cap l then
        (if \<not> el_overflowed l then
           l\<lparr>el_overflowed := True,
             el_entries := (if el_entries l \<noteq> [] then butlast (el_entries l) @ [overflow_marker]
                            else [overflow_marker])\<rparr>
         else l)
      else l\<lparr>el_entries := el_entries l @ [e]\<rparr>)"

definition log_text :: "reason_code \<Rightarrow> string \<Rightarrow> explanation_log \<Rightarrow> explanation_log" where
  "log_text code text l =
     log_add \<lparr>ex_code = code, ex_subject = no_subject, ex_detail_a = 0, ex_detail_b = 0,
              ex_text = text\<rparr> l"

definition log_subject ::
  "reason_code \<Rightarrow> subject \<Rightarrow> u64 \<Rightarrow> u64 \<Rightarrow> string \<Rightarrow> explanation_log \<Rightarrow> explanation_log" where
  "log_subject code subject a b text l =
     log_add \<lparr>ex_code = code, ex_subject = subject, ex_detail_a = a, ex_detail_b = b,
              ex_text = text\<rparr> l"

section \<open>Comparators are strict weak orders\<close>

interpretation binding: strict_weak_order binding_less
  unfolding binding_less_def[abs_def] by (intro strict_weak_orders) simp_all

interpretation fences: strict_weak_order fence_less
  unfolding fence_less_def[abs_def] by (intro strict_weak_orders) simp_all

interpretation facts: strict_weak_order fact_less
  unfolding fact_less_def[abs_def] by (intro strict_weak_orders) simp_all

section \<open>Facts about authority evaluation\<close>

lemma find_binding_Some:
  "find_binding v d = Some b \<Longrightarrow> b \<in> set (av_bindings v) \<and> ab_domain b = d"
  by (auto simp: find_binding_def find_Some_iff)

lemma evaluate_domain_scan_filter:
  "evaluate_domain_scan d found bs =
     (case (case found of None \<Rightarrow> [] | Some b \<Rightarrow> [b]) @ filter (\<lambda>b. ab_domain b = d) bs of
        [] \<Rightarrow> BS_UNKNOWN | [b] \<Rightarrow> evaluate_binding b | _ \<Rightarrow> BS_CONFLICT)"
  by (induction bs arbitrary: found) (auto split: option.splits list.splits)

lemma evaluate_domain_filter:
  "evaluate_domain v d =
     (case filter (\<lambda>b. ab_domain b = d) (av_bindings v) of
        [] \<Rightarrow> BS_UNKNOWN | [b] \<Rightarrow> evaluate_binding b | _ \<Rightarrow> BS_CONFLICT)"
  by (simp add: evaluate_domain_def evaluate_domain_scan_filter)

lemma find_filter: "find P xs = (case filter P xs of [] \<Rightarrow> None | x # _ \<Rightarrow> Some x)"
  by (induction xs) auto

lemma evaluate_binding_current:
  "evaluate_binding b = BS_CURRENT \<longleftrightarrow>
     ab_authority b \<noteq> 0 \<and> ab_granted b = ab_required b \<and> ab_level b \<noteq> AL_NONE"
  by (auto simp: evaluate_binding_def)

lemma evaluate_domain_current_find:
  assumes "evaluate_domain v d = BS_CURRENT"
  obtains b where "find_binding v d = Some b" "evaluate_binding b = BS_CURRENT"
    "filter (\<lambda>b. ab_domain b = d) (av_bindings v) = [b]"
  using assms
  by (auto simp: evaluate_domain_filter find_binding_def find_filter split: list.splits)

lemma all_current_from_iff:
  "all_current_from bs \<longleftrightarrow>
     (\<forall>b\<in>set bs. evaluate_binding b = BS_CURRENT) \<and> distinct (map ab_domain bs)"
  by (induction bs) (auto simp: list_ex_iff)

section \<open>The log stays bounded\<close>

definition log_wf :: "explanation_log \<Rightarrow> bool" where
  "log_wf l \<longleftrightarrow> 0 < el_cap l \<and> length (el_entries l) \<le> el_cap l \<and>
     (el_overflowed l \<longrightarrow> length (el_entries l) = el_cap l \<and> overflow_marker \<in> set (el_entries l))"

lemma log_wf_make [nrp_wf, simp]: "log_wf (make_log cap)"
  by (simp add: log_wf_def make_log_def)

lemma log_wf_add [nrp_wf]: "log_wf l \<Longrightarrow> log_wf (log_add e l)"
  by (auto simp: log_wf_def log_add_def)

lemma log_cap_add [simp]: "el_cap (log_add e l) = el_cap l"
  by (simp add: log_add_def)

end
