(* ===== verification/NRP_Domain.thy ===== *)
theory NRP_Domain
  imports NRP_Model
begin

text \<open>
  The static problem definition, its canonical form and encoding, its structural validation,
  the dynamic fabric state, the policy and the plan request (\<open>include/nrp/domain.hpp\<close>,
  \<open>src/domain.cpp\<close>). The first violation found by \<open>validate_definition\<close> is a value of
  \<open>def_error\<close>; \<open>def_error_text\<close> is the message the code attaches to it.
\<close>

section \<open>Limits\<close>

record model_limits =
  max_nodes :: u32
  max_links :: u32
  max_services :: u32
  max_resources :: u32
  max_actions :: u32
  max_goals :: u32
  max_exclusion_groups :: u32
  max_preconditions_per_action :: u32
  max_effects_per_action :: u32
  max_evidence_facts :: u32
  max_authority_bindings :: u32
  max_fences :: u32
  max_action_occurrences :: u32
  max_hold_steps :: u32
  max_service_endpoints :: u32
  max_string_length :: u32

definition default_model_limits :: model_limits where
  "default_model_limits = \<lparr>max_nodes = 4096, max_links = 8192, max_services = 1024,
     max_resources = 1024, max_actions = 512, max_goals = 1024, max_exclusion_groups = 512,
     max_preconditions_per_action = 32, max_effects_per_action = 32, max_evidence_facts = 65536,
     max_authority_bindings = 32, max_fences = 1024, max_action_occurrences = 16,
     max_hold_steps = 64, max_service_endpoints = 1000000, max_string_length = 128\<rparr>"

section \<open>Enumerations\<close>

datatype resource_kind =
    RK_CONSUMABLE | RK_REUSABLE | RK_COUNT

primrec raw_resource_kind :: "resource_kind \<Rightarrow> u8" where
  "raw_resource_kind RK_CONSUMABLE = 0"
| "raw_resource_kind RK_REUSABLE = 1"
| "raw_resource_kind RK_COUNT = 2"

lemma raw_resource_kind_inj [simp]: "raw_resource_kind a = raw_resource_kind b \<longleftrightarrow> a = b"
  by (cases a; cases b) auto

definition valid_resource_kind :: "resource_kind \<Rightarrow> bool" where
  "valid_resource_kind k \<longleftrightarrow> k \<noteq> RK_COUNT"

datatype precondition_kind =
    PK_LINK_OPERATIONAL | PK_LINK_NOT_OPERATIONAL | PK_NODE_OPERATIONAL
  | PK_NODE_NOT_OPERATIONAL | PK_SERVICE_REACHABLE_AT_LEAST | PK_SERVICE_REACHABLE_AT_MOST
  | PK_RESOURCE_AVAILABLE_AT_LEAST | PK_ACTION_EXECUTED_AT_LEAST | PK_COUNT

primrec raw_precondition_kind :: "precondition_kind \<Rightarrow> u8" where
  "raw_precondition_kind PK_LINK_OPERATIONAL = 0"
| "raw_precondition_kind PK_LINK_NOT_OPERATIONAL = 1"
| "raw_precondition_kind PK_NODE_OPERATIONAL = 2"
| "raw_precondition_kind PK_NODE_NOT_OPERATIONAL = 3"
| "raw_precondition_kind PK_SERVICE_REACHABLE_AT_LEAST = 4"
| "raw_precondition_kind PK_SERVICE_REACHABLE_AT_MOST = 5"
| "raw_precondition_kind PK_RESOURCE_AVAILABLE_AT_LEAST = 6"
| "raw_precondition_kind PK_ACTION_EXECUTED_AT_LEAST = 7"
| "raw_precondition_kind PK_COUNT = 8"

lemma raw_precondition_kind_inj [simp]: "raw_precondition_kind a = raw_precondition_kind b \<longleftrightarrow> a = b"
  by (cases a; cases b) auto

definition valid_precondition_kind :: "precondition_kind \<Rightarrow> bool" where
  "valid_precondition_kind k \<longleftrightarrow> k \<noteq> PK_COUNT"

primrec expected_subject_precondition :: "precondition_kind \<Rightarrow> subject_kind" where
  "expected_subject_precondition PK_LINK_OPERATIONAL = SK_LINK"
| "expected_subject_precondition PK_LINK_NOT_OPERATIONAL = SK_LINK"
| "expected_subject_precondition PK_NODE_OPERATIONAL = SK_NODE"
| "expected_subject_precondition PK_NODE_NOT_OPERATIONAL = SK_NODE"
| "expected_subject_precondition PK_SERVICE_REACHABLE_AT_LEAST = SK_SERVICE"
| "expected_subject_precondition PK_SERVICE_REACHABLE_AT_MOST = SK_SERVICE"
| "expected_subject_precondition PK_RESOURCE_AVAILABLE_AT_LEAST = SK_RESOURCE"
| "expected_subject_precondition PK_ACTION_EXECUTED_AT_LEAST = SK_ACTION"
| "expected_subject_precondition PK_COUNT = SK_NONE"

datatype effect_kind =
    FK_SET_LINK_OPERATIONAL | FK_SET_NODE_OPERATIONAL | FK_SERVICE_REACHABLE_DELTA
  | FK_MARK_RESOURCE_RESTORED | FK_SET_SERVICE_REACHABLE | FK_SET_RESOURCE_AVAILABLE | FK_COUNT

primrec raw_effect_kind :: "effect_kind \<Rightarrow> u8" where
  "raw_effect_kind FK_SET_LINK_OPERATIONAL = 0"
| "raw_effect_kind FK_SET_NODE_OPERATIONAL = 1"
| "raw_effect_kind FK_SERVICE_REACHABLE_DELTA = 2"
| "raw_effect_kind FK_MARK_RESOURCE_RESTORED = 3"
| "raw_effect_kind FK_SET_SERVICE_REACHABLE = 4"
| "raw_effect_kind FK_SET_RESOURCE_AVAILABLE = 5"
| "raw_effect_kind FK_COUNT = 6"

lemma raw_effect_kind_inj [simp]: "raw_effect_kind a = raw_effect_kind b \<longleftrightarrow> a = b"
  by (cases a; cases b) auto

definition valid_effect_kind :: "effect_kind \<Rightarrow> bool" where
  "valid_effect_kind k \<longleftrightarrow> k \<noteq> FK_COUNT"

primrec expected_subject_effect :: "effect_kind \<Rightarrow> subject_kind" where
  "expected_subject_effect FK_SET_LINK_OPERATIONAL = SK_LINK"
| "expected_subject_effect FK_SET_NODE_OPERATIONAL = SK_NODE"
| "expected_subject_effect FK_SERVICE_REACHABLE_DELTA = SK_SERVICE"
| "expected_subject_effect FK_SET_SERVICE_REACHABLE = SK_SERVICE"
| "expected_subject_effect FK_MARK_RESOURCE_RESTORED = SK_RESOURCE"
| "expected_subject_effect FK_SET_RESOURCE_AVAILABLE = SK_RESOURCE"
| "expected_subject_effect FK_COUNT = SK_NONE"

datatype action_kind =
    AK_REROUTE | AK_REPLACE | AK_RESTART | AK_DRAIN | AK_ISOLATE | AK_RESTORE | AK_DEGRADE
  | AK_COUNT

primrec raw_action_kind :: "action_kind \<Rightarrow> u8" where
  "raw_action_kind AK_REROUTE = 0"
| "raw_action_kind AK_REPLACE = 1"
| "raw_action_kind AK_RESTART = 2"
| "raw_action_kind AK_DRAIN = 3"
| "raw_action_kind AK_ISOLATE = 4"
| "raw_action_kind AK_RESTORE = 5"
| "raw_action_kind AK_DEGRADE = 6"
| "raw_action_kind AK_COUNT = 7"

lemma raw_action_kind_inj [simp]: "raw_action_kind a = raw_action_kind b \<longleftrightarrow> a = b"
  by (cases a; cases b) auto

definition valid_action_kind :: "action_kind \<Rightarrow> bool" where
  "valid_action_kind k \<longleftrightarrow> k \<noteq> AK_COUNT"

datatype reversibility =
    RV_REVERSIBLE | RV_IRREVERSIBLE | RV_COUNT

primrec raw_reversibility :: "reversibility \<Rightarrow> u8" where
  "raw_reversibility RV_REVERSIBLE = 0"
| "raw_reversibility RV_IRREVERSIBLE = 1"
| "raw_reversibility RV_COUNT = 2"

lemma raw_reversibility_inj [simp]: "raw_reversibility a = raw_reversibility b \<longleftrightarrow> a = b"
  by (cases a; cases b) auto

definition valid_reversibility :: "reversibility \<Rightarrow> bool" where
  "valid_reversibility k \<longleftrightarrow> k \<noteq> RV_COUNT"

datatype goal_kind =
    GK_SERVICE_REACHABLE_AT_LEAST | GK_LINK_OPERATIONAL | GK_NODE_OPERATIONAL
  | GK_RESOURCE_RESTORED | GK_COUNT

primrec raw_goal_kind :: "goal_kind \<Rightarrow> u8" where
  "raw_goal_kind GK_SERVICE_REACHABLE_AT_LEAST = 0"
| "raw_goal_kind GK_LINK_OPERATIONAL = 1"
| "raw_goal_kind GK_NODE_OPERATIONAL = 2"
| "raw_goal_kind GK_RESOURCE_RESTORED = 3"
| "raw_goal_kind GK_COUNT = 4"

lemma raw_goal_kind_inj [simp]: "raw_goal_kind a = raw_goal_kind b \<longleftrightarrow> a = b"
  by (cases a; cases b) auto

definition valid_goal_kind :: "goal_kind \<Rightarrow> bool" where
  "valid_goal_kind k \<longleftrightarrow> k \<noteq> GK_COUNT"

primrec expected_subject_goal :: "goal_kind \<Rightarrow> subject_kind" where
  "expected_subject_goal GK_SERVICE_REACHABLE_AT_LEAST = SK_SERVICE"
| "expected_subject_goal GK_LINK_OPERATIONAL = SK_LINK"
| "expected_subject_goal GK_NODE_OPERATIONAL = SK_NODE"
| "expected_subject_goal GK_RESOURCE_RESTORED = SK_RESOURCE"
| "expected_subject_goal GK_COUNT = SK_NONE"

section \<open>Static definition\<close>

record node_spec =
  nd_id :: strong_id
  nd_protected :: bool

record link_spec =
  lk_id :: strong_id
  lk_endpoint_a :: strong_id
  lk_endpoint_b :: strong_id

record service_spec =
  sv_id :: strong_id
  sv_required :: u32
  sv_target :: u32
  sv_max :: u32
  sv_protected :: bool

record resource_spec =
  rs_id :: strong_id
  rs_kind :: resource_kind
  rs_capacity :: u32
  rs_hold_steps :: u32

record precondition =
  pc_kind :: precondition_kind
  pc_subject :: subject
  pc_value :: u64

text \<open>An effect value is a signed 64-bit integer, kept as its two's complement word; \<open>sint\<close>
  reads it.\<close>

record effect =
  fx_kind :: effect_kind
  fx_subject :: subject
  fx_value :: u64

record resource_use =
  ru_resource :: strong_id
  ru_units :: u32

record action_dependency =
  dp_predecessor :: strong_id
  dp_min_occurrences :: u32

record action_spec =
  ac_id :: strong_id
  ac_name :: string
  ac_kind :: action_kind
  ac_reversibility :: reversibility
  ac_compensation :: strong_id
  ac_blast_radius :: u32
  ac_disruption :: u32
  ac_cost_units :: u64
  ac_duration_ticks :: u64
  ac_max_occurrences :: u32
  ac_required_domain :: authority_domain
  ac_required_level :: authority_level
  ac_preconditions :: "precondition list"
  ac_effects :: "effect list"
  ac_resource_uses :: "resource_use list"
  ac_dependencies :: "action_dependency list"
  ac_exclusion_groups :: "strong_id list"

record goal_spec =
  gl_kind :: goal_kind
  gl_subject :: subject
  gl_value :: u64
  gl_weight :: u32

record exclusion_group =
  xg_id :: strong_id
  xg_max_selected :: u32

record fabric_definition =
  df_nodes :: "node_spec list"
  df_links :: "link_spec list"
  df_services :: "service_spec list"
  df_resources :: "resource_spec list"
  df_actions :: "action_spec list"
  df_goals :: "goal_spec list"
  df_exclusion_groups :: "exclusion_group list"

subsection \<open>Comparators\<close>

definition node_less :: "node_spec \<Rightarrow> node_spec \<Rightarrow> bool" where
  "node_less a b \<longleftrightarrow> nd_id a < nd_id b"

definition link_less :: "link_spec \<Rightarrow> link_spec \<Rightarrow> bool" where
  "link_less a b \<longleftrightarrow> lk_id a < lk_id b"

definition service_less :: "service_spec \<Rightarrow> service_spec \<Rightarrow> bool" where
  "service_less a b \<longleftrightarrow> sv_id a < sv_id b"

definition resource_less :: "resource_spec \<Rightarrow> resource_spec \<Rightarrow> bool" where
  "resource_less a b \<longleftrightarrow> rs_id a < rs_id b"

definition precondition_less :: "precondition \<Rightarrow> precondition \<Rightarrow> bool" where
  "precondition_less a b =
     (if pc_subject a \<noteq> pc_subject b then pc_subject a < pc_subject b
      else if pc_kind a \<noteq> pc_kind b
        then raw_precondition_kind (pc_kind a) < raw_precondition_kind (pc_kind b)
      else pc_value a < pc_value b)"

definition effect_less :: "effect \<Rightarrow> effect \<Rightarrow> bool" where
  "effect_less a b =
     (if fx_subject a \<noteq> fx_subject b then fx_subject a < fx_subject b
      else if fx_kind a \<noteq> fx_kind b
        then raw_effect_kind (fx_kind a) < raw_effect_kind (fx_kind b)
      else sint (fx_value a) < sint (fx_value b))"

definition use_less :: "resource_use \<Rightarrow> resource_use \<Rightarrow> bool" where
  "use_less a b =
     (if ru_resource a \<noteq> ru_resource b then ru_resource a < ru_resource b
      else ru_units a < ru_units b)"

definition dependency_less :: "action_dependency \<Rightarrow> action_dependency \<Rightarrow> bool" where
  "dependency_less a b =
     (if dp_predecessor a \<noteq> dp_predecessor b then dp_predecessor a < dp_predecessor b
      else dp_min_occurrences a < dp_min_occurrences b)"

definition action_less :: "action_spec \<Rightarrow> action_spec \<Rightarrow> bool" where
  "action_less a b \<longleftrightarrow> ac_id a < ac_id b"

definition group_less :: "exclusion_group \<Rightarrow> exclusion_group \<Rightarrow> bool" where
  "group_less a b \<longleftrightarrow> xg_id a < xg_id b"

definition goal_less :: "goal_spec \<Rightarrow> goal_spec \<Rightarrow> bool" where
  "goal_less a b =
     (if gl_subject a \<noteq> gl_subject b then gl_subject a < gl_subject b
      else if gl_kind a \<noteq> gl_kind b then raw_goal_kind (gl_kind a) < raw_goal_kind (gl_kind b)
      else if gl_value a \<noteq> gl_value b then gl_value a < gl_value b
      else gl_weight a < gl_weight b)"

definition canonicalise_action :: "action_spec \<Rightarrow> action_spec" where
  "canonicalise_action a = a\<lparr>
     ac_preconditions := sort_by precondition_less (ac_preconditions a),
     ac_effects := sort_by effect_less (ac_effects a),
     ac_resource_uses := sort_by use_less (ac_resource_uses a),
     ac_dependencies := sort_by dependency_less (ac_dependencies a),
     ac_exclusion_groups := sort_by (<) (ac_exclusion_groups a)\<rparr>"

definition canonicalise_definition :: "fabric_definition \<Rightarrow> fabric_definition" where
  "canonicalise_definition d = \<lparr>
     df_nodes = sort_by node_less (df_nodes d),
     df_links = sort_by link_less (df_links d),
     df_services = sort_by service_less (df_services d),
     df_resources = sort_by resource_less (df_resources d),
     df_actions = map canonicalise_action (sort_by action_less (df_actions d)),
     df_goals = sort_by goal_less (df_goals d),
     df_exclusion_groups = sort_by group_less (df_exclusion_groups d)\<rparr>"

subsection \<open>Lookup\<close>

definition node_index :: "fabric_definition \<Rightarrow> strong_id \<Rightarrow> nat option" where
  "node_index d i = find_index (\<lambda>n. nd_id n = i) (df_nodes d)"

definition link_index :: "fabric_definition \<Rightarrow> strong_id \<Rightarrow> nat option" where
  "link_index d i = find_index (\<lambda>l. lk_id l = i) (df_links d)"

definition service_index :: "fabric_definition \<Rightarrow> strong_id \<Rightarrow> nat option" where
  "service_index d i = find_index (\<lambda>s. sv_id s = i) (df_services d)"

definition resource_index :: "fabric_definition \<Rightarrow> strong_id \<Rightarrow> nat option" where
  "resource_index d i = find_index (\<lambda>r. rs_id r = i) (df_resources d)"

definition action_index :: "fabric_definition \<Rightarrow> strong_id \<Rightarrow> nat option" where
  "action_index d i = find_index (\<lambda>a. ac_id a = i) (df_actions d)"

definition find_action :: "fabric_definition \<Rightarrow> strong_id \<Rightarrow> action_spec option" where
  "find_action d i = map_option ((!) (df_actions d)) (action_index d i)"

definition find_resource :: "fabric_definition \<Rightarrow> strong_id \<Rightarrow> resource_spec option" where
  "find_resource d i = map_option ((!) (df_resources d)) (resource_index d i)"

definition find_service :: "fabric_definition \<Rightarrow> strong_id \<Rightarrow> service_spec option" where
  "find_service d i = map_option ((!) (df_services d)) (service_index d i)"

fun subject_exists :: "fabric_definition \<Rightarrow> subject \<Rightarrow> bool" where
  "subject_exists d (Subject SK_NODE i) = (node_index d i \<noteq> None)"
| "subject_exists d (Subject SK_LINK i) = (link_index d i \<noteq> None)"
| "subject_exists d (Subject SK_SERVICE i) = (service_index d i \<noteq> None)"
| "subject_exists d (Subject SK_RESOURCE i) = (resource_index d i \<noteq> None)"
| "subject_exists d (Subject SK_ACTION i) = (action_index d i \<noteq> None)"
| "subject_exists d (Subject SK_FABRIC i) = False"
| "subject_exists d (Subject SK_NONE i) = False"

subsection \<open>Encoding\<close>

definition encode_subject :: "subject \<Rightarrow> bytes" where
  "encode_subject s = w_u8 (raw_subject_kind (subj_kind s)) @ w_u64 (subj_id s)"

definition encode_node :: "node_spec \<Rightarrow> bytes" where
  "encode_node n = w_u64 (nd_id n) @ w_boolean (nd_protected n)"

definition encode_link :: "link_spec \<Rightarrow> bytes" where
  "encode_link l = w_u64 (lk_id l) @ w_u64 (lk_endpoint_a l) @ w_u64 (lk_endpoint_b l)"

definition encode_service :: "service_spec \<Rightarrow> bytes" where
  "encode_service s = w_u64 (sv_id s) @ w_u32 (sv_required s) @ w_u32 (sv_target s) @
     w_u32 (sv_max s) @ w_boolean (sv_protected s)"

definition encode_resource :: "resource_spec \<Rightarrow> bytes" where
  "encode_resource r = w_u64 (rs_id r) @ w_u8 (raw_resource_kind (rs_kind r)) @
     w_u32 (rs_capacity r) @ w_u32 (rs_hold_steps r)"

definition encode_precondition :: "precondition \<Rightarrow> bytes" where
  "encode_precondition p =
     w_u8 (raw_precondition_kind (pc_kind p)) @ encode_subject (pc_subject p) @ w_u64 (pc_value p)"

definition encode_effect :: "effect \<Rightarrow> bytes" where
  "encode_effect e =
     w_u8 (raw_effect_kind (fx_kind e)) @ encode_subject (fx_subject e) @ w_i64 (fx_value e)"

definition encode_use :: "resource_use \<Rightarrow> bytes" where
  "encode_use u = w_u64 (ru_resource u) @ w_u32 (ru_units u)"

definition encode_dependency :: "action_dependency \<Rightarrow> bytes" where
  "encode_dependency p = w_u64 (dp_predecessor p) @ w_u32 (dp_min_occurrences p)"

definition encode_action :: "action_spec \<Rightarrow> bytes" where
  "encode_action a =
     w_u64 (ac_id a) @ w_str (ac_name a) @ w_u8 (raw_action_kind (ac_kind a)) @
     w_u8 (raw_reversibility (ac_reversibility a)) @ w_u64 (ac_compensation a) @
     w_u32 (ac_blast_radius a) @ w_u32 (ac_disruption a) @ w_u64 (ac_cost_units a) @
     w_u64 (ac_duration_ticks a) @ w_u32 (ac_max_occurrences a) @
     w_u8 (raw_authority_domain (ac_required_domain a)) @
     w_u8 (raw_authority_level (ac_required_level a)) @
     w_list encode_precondition (ac_preconditions a) @ w_list encode_effect (ac_effects a) @
     w_list encode_use (ac_resource_uses a) @ w_list encode_dependency (ac_dependencies a) @
     w_list w_u64 (ac_exclusion_groups a)"

definition encode_goal :: "goal_spec \<Rightarrow> bytes" where
  "encode_goal g = w_u8 (raw_goal_kind (gl_kind g)) @ encode_subject (gl_subject g) @
     w_u64 (gl_value g) @ w_u32 (gl_weight g)"

definition encode_group :: "exclusion_group \<Rightarrow> bytes" where
  "encode_group g = w_u64 (xg_id g) @ w_u32 (xg_max_selected g)"

definition encode_definition :: "fabric_definition \<Rightarrow> bytes" where
  "encode_definition d =
     w_list encode_node (df_nodes d) @ w_list encode_link (df_links d) @
     w_list encode_service (df_services d) @ w_list encode_resource (df_resources d) @
     w_list encode_action (df_actions d) @ w_list encode_goal (df_goals d) @
     w_list encode_group (df_exclusion_groups d)"

definition definition_digest :: "fabric_definition \<Rightarrow> digest" where
  "definition_digest d = digest_of (encode_definition d)"

section \<open>Dynamic state\<close>

record fabric_state =
  node_operational :: "u8 list"
  link_operational :: "u8 list"
  resource_restored :: "u8 list"
  resource_available :: "u32 list"
  service_reachable :: "u32 list"
  action_occurrences :: "u32 list"
  node_known :: "u8 list"
  link_known :: "u8 list"
  resource_known :: "u8 list"
  service_known :: "u8 list"
  fs_tick :: u64

definition encode_state :: "fabric_state \<Rightarrow> bytes" where
  "encode_state s =
     w_list w_u8 (node_operational s) @ w_list w_u8 (link_operational s) @
     w_list w_u8 (resource_restored s) @ w_list w_u32 (resource_available s) @
     w_list w_u32 (service_reachable s) @ w_list w_u32 (action_occurrences s) @
     w_list w_u8 (node_known s) @ w_list w_u8 (link_known s) @ w_list w_u8 (resource_known s) @
     w_list w_u8 (service_known s) @ w_u64 (fs_tick s)"

record resource_hold =
  hd_resource_index :: u32
  hd_units :: u32
  hd_remaining_steps :: u32

definition hold_less :: "resource_hold \<Rightarrow> resource_hold \<Rightarrow> bool" where
  "hold_less a b =
     (if hd_resource_index a \<noteq> hd_resource_index b
        then hd_resource_index a < hd_resource_index b
      else if hd_remaining_steps a \<noteq> hd_remaining_steps b
        then hd_remaining_steps a < hd_remaining_steps b
      else hd_units a < hd_units b)"

section \<open>Policy and request\<close>

record plan_policy =
  allow_irreversible_actions :: bool
  require_current_authority :: bool
  max_plan_steps :: u64
  max_nodes_expanded :: u64
  max_generated_states :: u64
  max_frontier_entries :: u64
  budget_scale :: u32

definition encode_policy :: "plan_policy \<Rightarrow> bytes" where
  "encode_policy p =
     w_boolean (allow_irreversible_actions p) @ w_boolean (require_current_authority p) @
     w_u64 (max_plan_steps p) @ w_u64 (max_nodes_expanded p) @ w_u64 (max_generated_states p) @
     w_u64 (max_frontier_entries p) @ w_u32 (budget_scale p)"

definition policy_digest :: "plan_policy \<Rightarrow> digest" where
  "policy_digest p = digest_of (encode_policy p)"

record plan_request =
  rq_id :: strong_id
  rq_epoch :: epoch
  rq_boot :: boot_id
  rq_attempt :: strong_id
  rq_definition :: fabric_definition
  rq_evidence :: evidence_bundle
  rq_authority :: authority_vector
  rq_policy :: plan_policy
  rq_fences :: "fence list"

definition encode_request :: "plan_request \<Rightarrow> bytes" where
  "encode_request r =
     w_u64 (rq_id r) @ w_u64 (rq_epoch r) @ w_u64 (rq_boot r) @ w_u64 (rq_attempt r) @
     encode_definition (rq_definition r) @ encode_evidence (rq_evidence r) @
     encode_authority (rq_authority r) @ encode_policy (rq_policy r) @
     w_list encode_fence (rq_fences r)"

definition request_digest :: "plan_request \<Rightarrow> digest" where
  "request_digest r = digest_of (encode_request r)"

section \<open>Definition validation\<close>

text \<open>One error type per group of checks, with the message of each error.\<close>

datatype size_error =
    DE_NODE_COUNT | DE_LINK_COUNT | DE_SERVICE_COUNT | DE_RESOURCE_COUNT | DE_ACTION_COUNT
  | DE_GOAL_COUNT | DE_GROUP_COUNT

primrec size_error_text :: "size_error \<Rightarrow> string" where
  "size_error_text DE_NODE_COUNT = ''node count exceeds the model limit''"
| "size_error_text DE_LINK_COUNT = ''link count exceeds the model limit''"
| "size_error_text DE_SERVICE_COUNT = ''service count exceeds the model limit''"
| "size_error_text DE_RESOURCE_COUNT = ''resource count exceeds the model limit''"
| "size_error_text DE_ACTION_COUNT = ''action count exceeds the model limit''"
| "size_error_text DE_GOAL_COUNT = ''goal count exceeds the model limit''"
| "size_error_text DE_GROUP_COUNT = ''exclusion group count exceeds the model limit''"

datatype node_error =
    DE_NODE_ZERO | DE_NODE_DUP

primrec node_error_text :: "node_error \<Rightarrow> string" where
  "node_error_text DE_NODE_ZERO = ''node identity must be non-zero''"
| "node_error_text DE_NODE_DUP = ''duplicate node identity''"

datatype link_error =
    DE_LINK_ZERO | DE_LINK_DUP | DE_LINK_ENDPOINT

primrec link_error_text :: "link_error \<Rightarrow> string" where
  "link_error_text DE_LINK_ZERO = ''link identity must be non-zero''"
| "link_error_text DE_LINK_DUP = ''duplicate link identity''"
| "link_error_text DE_LINK_ENDPOINT = ''link references an unknown endpoint node''"

datatype service_error =
    DE_SERVICE_ZERO | DE_SERVICE_DUP | DE_SERVICE_MAX | DE_SERVICE_REQUIRED | DE_SERVICE_TARGET
  | DE_SERVICE_FLOOR

primrec service_error_text :: "service_error \<Rightarrow> string" where
  "service_error_text DE_SERVICE_ZERO = ''service identity must be non-zero''"
| "service_error_text DE_SERVICE_DUP = ''duplicate service identity''"
| "service_error_text DE_SERVICE_MAX = ''service max_reachable exceeds the model limit''"
| "service_error_text DE_SERVICE_REQUIRED = ''service required_reachable exceeds max_reachable''"
| "service_error_text DE_SERVICE_TARGET = ''service target_reachable exceeds max_reachable''"
| "service_error_text DE_SERVICE_FLOOR = ''service target_reachable is below required_reachable''"

datatype resource_error =
    DE_RESOURCE_ZERO | DE_RESOURCE_DUP | DE_RESOURCE_KIND | DE_RESOURCE_HOLD

primrec resource_error_text :: "resource_error \<Rightarrow> string" where
  "resource_error_text DE_RESOURCE_ZERO = ''resource identity must be non-zero''"
| "resource_error_text DE_RESOURCE_DUP = ''duplicate resource identity''"
| "resource_error_text DE_RESOURCE_KIND = ''resource kind is outside the defined domain''"
| "resource_error_text DE_RESOURCE_HOLD = ''resource hold_steps exceeds the model limit''"

datatype group_error =
    DE_GROUP_ZERO | DE_GROUP_DUP | DE_GROUP_MAX

primrec group_error_text :: "group_error \<Rightarrow> string" where
  "group_error_text DE_GROUP_ZERO = ''exclusion group identity must be non-zero''"
| "group_error_text DE_GROUP_DUP = ''duplicate exclusion group identity''"
| "group_error_text DE_GROUP_MAX = ''exclusion group max_selected must be at least one''"

datatype compensation_error =
    DE_COMPENSATION_MISSING | DE_COMPENSATION_SELF | DE_COMPENSATION_UNKNOWN
  | DE_COMPENSATION_IRREVERSIBLE

primrec compensation_error_text :: "compensation_error \<Rightarrow> string" where
  "compensation_error_text DE_COMPENSATION_MISSING = ''reversible action must declare a compensation action''"
| "compensation_error_text DE_COMPENSATION_SELF = ''action cannot compensate itself''"
| "compensation_error_text DE_COMPENSATION_UNKNOWN = ''action compensation references an unknown action''"
| "compensation_error_text DE_COMPENSATION_IRREVERSIBLE = ''irreversible action must not declare a compensation action''"

datatype precondition_error =
    DE_PRECONDITION_KIND | DE_PRECONDITION_SUBJECT | DE_PRECONDITION_UNKNOWN

primrec precondition_error_text :: "precondition_error \<Rightarrow> string" where
  "precondition_error_text DE_PRECONDITION_KIND = ''precondition kind is outside the domain''"
| "precondition_error_text DE_PRECONDITION_SUBJECT = ''precondition subject kind does not match the precondition kind''"
| "precondition_error_text DE_PRECONDITION_UNKNOWN = ''precondition references an unknown subject''"

datatype effect_error =
    DE_EFFECT_KIND | DE_EFFECT_SUBJECT | DE_EFFECT_UNKNOWN | DE_EFFECT_SET_VALUE
  | DE_EFFECT_MARK_VALUE | DE_EFFECT_SERVICE_NEGATIVE | DE_EFFECT_SERVICE_MAX
  | DE_EFFECT_RESOURCE_NEGATIVE | DE_EFFECT_RESOURCE_MAX

primrec effect_error_text :: "effect_error \<Rightarrow> string" where
  "effect_error_text DE_EFFECT_KIND = ''effect kind is outside the domain''"
| "effect_error_text DE_EFFECT_SUBJECT = ''effect subject kind does not match the effect kind''"
| "effect_error_text DE_EFFECT_UNKNOWN = ''effect references an unknown subject''"
| "effect_error_text DE_EFFECT_SET_VALUE = ''SET effect value must be zero or one''"
| "effect_error_text DE_EFFECT_MARK_VALUE = ''MARK_RESOURCE_RESTORED value must be one''"
| "effect_error_text DE_EFFECT_SERVICE_NEGATIVE = ''SET_SERVICE_REACHABLE value must not be negative''"
| "effect_error_text DE_EFFECT_SERVICE_MAX = ''SET_SERVICE_REACHABLE exceeds the structural maximum of the service''"
| "effect_error_text DE_EFFECT_RESOURCE_NEGATIVE = ''SET_RESOURCE_AVAILABLE value must not be negative''"
| "effect_error_text DE_EFFECT_RESOURCE_MAX = ''SET_RESOURCE_AVAILABLE exceeds the capacity of the resource''"

datatype use_error =
    DE_USE_UNKNOWN | DE_USE_ZERO | DE_USE_CAPACITY

primrec use_error_text :: "use_error \<Rightarrow> string" where
  "use_error_text DE_USE_UNKNOWN = ''resource use references an unknown resource''"
| "use_error_text DE_USE_ZERO = ''resource use must request at least one unit''"
| "use_error_text DE_USE_CAPACITY = ''resource use exceeds the capacity of the resource''"

datatype dependency_error =
    DE_DEPENDENCY_SELF | DE_DEPENDENCY_UNKNOWN | DE_DEPENDENCY_ZERO | DE_DEPENDENCY_EXCEEDS

primrec dependency_error_text :: "dependency_error \<Rightarrow> string" where
  "dependency_error_text DE_DEPENDENCY_SELF = ''action dependency cycle: an action cannot require itself''"
| "dependency_error_text DE_DEPENDENCY_UNKNOWN = ''action dependency references an unknown action''"
| "dependency_error_text DE_DEPENDENCY_ZERO = ''action dependency min_occurrences must be at least one''"
| "dependency_error_text DE_DEPENDENCY_EXCEEDS = ''action dependency requires more occurrences than the action can execute''"

datatype group_ref_error =
    DE_GROUP_REF_ZERO | DE_GROUP_REF_DUP | DE_GROUP_REF_UNKNOWN

primrec group_ref_error_text :: "group_ref_error \<Rightarrow> string" where
  "group_ref_error_text DE_GROUP_REF_ZERO = ''exclusion group reference must be non-zero''"
| "group_ref_error_text DE_GROUP_REF_DUP = ''action lists the same exclusion group twice''"
| "group_ref_error_text DE_GROUP_REF_UNKNOWN = ''action references an unknown exclusion group''"

datatype action_error =
    DE_ACTION_ZERO | DE_ACTION_DUP | DE_ACTION_NAME | DE_ACTION_KIND | DE_ACTION_REVERSIBILITY
  | DE_ACTION_DOMAIN | DE_ACTION_LEVEL | DE_ACTION_OCC_ZERO | DE_ACTION_OCC_LIMIT
  | DE_ACTION_PRECONDITIONS | DE_ACTION_EFFECTS | AE_COMPENSATION compensation_error
  | AE_PRECONDITION precondition_error | AE_EFFECT effect_error | AE_USE use_error
  | AE_DEPENDENCY dependency_error | AE_GROUP_REF group_ref_error

primrec action_error_text :: "action_error \<Rightarrow> string" where
  "action_error_text DE_ACTION_ZERO = ''action identity must be non-zero''"
| "action_error_text DE_ACTION_DUP = ''duplicate action identity''"
| "action_error_text DE_ACTION_NAME = ''action name exceeds the limit''"
| "action_error_text DE_ACTION_KIND = ''action kind is outside the defined domain''"
| "action_error_text DE_ACTION_REVERSIBILITY = ''action reversibility is outside the domain''"
| "action_error_text DE_ACTION_DOMAIN = ''action required_domain is outside the domain''"
| "action_error_text DE_ACTION_LEVEL = ''action required_level is outside the domain''"
| "action_error_text DE_ACTION_OCC_ZERO = ''action max_occurrences must be at least one''"
| "action_error_text DE_ACTION_OCC_LIMIT = ''action max_occurrences exceeds the model limit''"
| "action_error_text DE_ACTION_PRECONDITIONS = ''action precondition count exceeds the model limit''"
| "action_error_text DE_ACTION_EFFECTS = ''action effect count exceeds the model limit''"
| "action_error_text (AE_COMPENSATION e) = compensation_error_text e"
| "action_error_text (AE_PRECONDITION e) = precondition_error_text e"
| "action_error_text (AE_EFFECT e) = effect_error_text e"
| "action_error_text (AE_USE e) = use_error_text e"
| "action_error_text (AE_DEPENDENCY e) = dependency_error_text e"
| "action_error_text (AE_GROUP_REF e) = group_ref_error_text e"

datatype goal_error =
    DE_GOAL_KIND | DE_GOAL_SUBJECT | DE_GOAL_UNKNOWN | DE_GOAL_WEIGHT | DE_GOAL_SERVICE_MAX

primrec goal_error_text :: "goal_error \<Rightarrow> string" where
  "goal_error_text DE_GOAL_KIND = ''goal kind is outside the domain''"
| "goal_error_text DE_GOAL_SUBJECT = ''goal subject kind does not match the goal kind''"
| "goal_error_text DE_GOAL_UNKNOWN = ''goal references an unknown subject''"
| "goal_error_text DE_GOAL_WEIGHT = ''goal weight must be at least one''"
| "goal_error_text DE_GOAL_SERVICE_MAX = ''service goal exceeds the structural maximum for the service''"

datatype def_error =
    DE_size size_error | DE_node node_error | DE_link link_error | DE_service service_error
  | DE_resource resource_error | DE_group group_error | DE_action action_error
  | DE_goal goal_error

primrec def_error_text :: "def_error \<Rightarrow> string" where
  "def_error_text (DE_size e) = size_error_text e"
| "def_error_text (DE_node e) = node_error_text e"
| "def_error_text (DE_link e) = link_error_text e"
| "def_error_text (DE_service e) = service_error_text e"
| "def_error_text (DE_resource e) = resource_error_text e"
| "def_error_text (DE_group e) = group_error_text e"
| "def_error_text (DE_action e) = action_error_text e"
| "def_error_text (DE_goal e) = goal_error_text e"

text \<open>\<open>guard c e\<close> is \<open>if (c) return fail(e);\<close>, \<open>first_some\<close> runs such statements in order.\<close>

definition guard :: "bool \<Rightarrow> 'e \<Rightarrow> 'e option" where
  "guard c e = (if c then Some e else None)"

fun first_some :: "'e option list \<Rightarrow> 'e option" where
  "first_some [] = None"
| "first_some (x # xs) = (case x of Some e \<Rightarrow> Some e | None \<Rightarrow> first_some xs)"

text \<open>The identity loops: zero, then duplicate (\<open>std::set::insert\<close>), then the remaining checks
  of the element.\<close>

fun check_unique ::
  "('a \<Rightarrow> u64) \<Rightarrow> 'e \<Rightarrow> 'e \<Rightarrow> ('a \<Rightarrow> 'e option) \<Rightarrow> u64 set \<Rightarrow> 'a list \<Rightarrow> 'e option" where
  "check_unique key zero dup body seen [] = None"
| "check_unique key zero dup body seen (x # xs) =
     first_some [guard (key x = 0) zero, guard (key x \<in> seen) dup, body x,
                 check_unique key zero dup body (insert (key x) seen) xs]"

definition check_sizes :: "fabric_definition \<Rightarrow> model_limits \<Rightarrow> size_error option" where
  "check_sizes d l = first_some [
     guard (length (df_nodes d) > unat (max_nodes l)) DE_NODE_COUNT,
     guard (length (df_links d) > unat (max_links l)) DE_LINK_COUNT,
     guard (length (df_services d) > unat (max_services l)) DE_SERVICE_COUNT,
     guard (length (df_resources d) > unat (max_resources l)) DE_RESOURCE_COUNT,
     guard (length (df_actions d) > unat (max_actions l)) DE_ACTION_COUNT,
     guard (length (df_goals d) > unat (max_goals l)) DE_GOAL_COUNT,
     guard (length (df_exclusion_groups d) > unat (max_exclusion_groups l)) DE_GROUP_COUNT]"

definition check_link :: "fabric_definition \<Rightarrow> link_spec \<Rightarrow> link_error option" where
  "check_link d k = first_some [
     guard (node_index d (lk_endpoint_a k) = None) DE_LINK_ENDPOINT,
     guard (node_index d (lk_endpoint_b k) = None) DE_LINK_ENDPOINT]"

definition check_service :: "model_limits \<Rightarrow> service_spec \<Rightarrow> service_error option" where
  "check_service l s = first_some [
     guard (sv_max s > max_service_endpoints l) DE_SERVICE_MAX,
     guard (sv_required s > sv_max s) DE_SERVICE_REQUIRED,
     guard (sv_target s > sv_max s) DE_SERVICE_TARGET,
     guard (sv_target s < sv_required s) DE_SERVICE_FLOOR]"

definition check_resource :: "model_limits \<Rightarrow> resource_spec \<Rightarrow> resource_error option" where
  "check_resource l r = first_some [
     guard (\<not> valid_resource_kind (rs_kind r)) DE_RESOURCE_KIND,
     guard (rs_hold_steps r > max_hold_steps l) DE_RESOURCE_HOLD]"

definition check_group :: "exclusion_group \<Rightarrow> group_error option" where
  "check_group g = guard (xg_max_selected g = 0) DE_GROUP_MAX"

definition check_compensation :: "fabric_definition \<Rightarrow> action_spec \<Rightarrow> compensation_error option" where
  "check_compensation d a =
     (if ac_reversibility a = RV_REVERSIBLE then first_some [
        guard (ac_compensation a = 0) DE_COMPENSATION_MISSING,
        guard (ac_compensation a = ac_id a) DE_COMPENSATION_SELF,
        guard (action_index d (ac_compensation a) = None) DE_COMPENSATION_UNKNOWN]
      else guard (ac_compensation a \<noteq> 0) DE_COMPENSATION_IRREVERSIBLE)"

definition check_precondition :: "fabric_definition \<Rightarrow> precondition \<Rightarrow> precondition_error option" where
  "check_precondition d p = first_some [
     guard (\<not> valid_precondition_kind (pc_kind p)) DE_PRECONDITION_KIND,
     guard (subj_kind (pc_subject p) \<noteq> expected_subject_precondition (pc_kind p))
       DE_PRECONDITION_SUBJECT,
     guard (\<not> subject_exists d (pc_subject p)) DE_PRECONDITION_UNKNOWN]"

text \<open>\<open>static_cast<std::uint64_t>(effect.value)\<close> is the word itself; the sign test reads it as
  two's complement.\<close>

definition check_effect :: "fabric_definition \<Rightarrow> effect \<Rightarrow> effect_error option" where
  "check_effect d e = first_some [
     guard (\<not> valid_effect_kind (fx_kind e)) DE_EFFECT_KIND,
     guard (subj_kind (fx_subject e) \<noteq> expected_subject_effect (fx_kind e)) DE_EFFECT_SUBJECT,
     guard (\<not> subject_exists d (fx_subject e)) DE_EFFECT_UNKNOWN,
     guard ((fx_kind e = FK_SET_LINK_OPERATIONAL \<or> fx_kind e = FK_SET_NODE_OPERATIONAL) \<and>
            fx_value e \<noteq> 0 \<and> fx_value e \<noteq> 1) DE_EFFECT_SET_VALUE,
     guard (fx_kind e = FK_MARK_RESOURCE_RESTORED \<and> fx_value e \<noteq> 1) DE_EFFECT_MARK_VALUE,
     (if fx_kind e = FK_SET_SERVICE_REACHABLE then first_some [
        guard (sint (fx_value e) < 0) DE_EFFECT_SERVICE_NEGATIVE,
        (case find_service d (subj_id (fx_subject e)) of None \<Rightarrow> None
         | Some s \<Rightarrow> guard (fx_value e > ucast (sv_max s)) DE_EFFECT_SERVICE_MAX)]
      else None),
     (if fx_kind e = FK_SET_RESOURCE_AVAILABLE then first_some [
        guard (sint (fx_value e) < 0) DE_EFFECT_RESOURCE_NEGATIVE,
        (case find_resource d (subj_id (fx_subject e)) of None \<Rightarrow> None
         | Some r \<Rightarrow> guard (fx_value e > ucast (rs_capacity r)) DE_EFFECT_RESOURCE_MAX)]
      else None)]"

definition check_use :: "fabric_definition \<Rightarrow> resource_use \<Rightarrow> use_error option" where
  "check_use d u = (case find_resource d (ru_resource u) of
       None \<Rightarrow> Some DE_USE_UNKNOWN
     | Some r \<Rightarrow> first_some [
         guard (ru_units u = 0) DE_USE_ZERO,
         guard (ru_units u > rs_capacity r) DE_USE_CAPACITY])"

definition check_dependency ::
  "fabric_definition \<Rightarrow> action_spec \<Rightarrow> action_dependency \<Rightarrow> dependency_error option" where
  "check_dependency d a p =
     (if dp_predecessor p = ac_id a then Some DE_DEPENDENCY_SELF
      else case find_action d (dp_predecessor p) of
          None \<Rightarrow> Some DE_DEPENDENCY_UNKNOWN
        | Some q \<Rightarrow> first_some [
            guard (dp_min_occurrences p = 0) DE_DEPENDENCY_ZERO,
            guard (dp_min_occurrences p > ac_max_occurrences q) DE_DEPENDENCY_EXCEEDS])"

definition check_group_ref :: "fabric_definition \<Rightarrow> strong_id \<Rightarrow> group_ref_error option" where
  "check_group_ref d g =
     guard (\<not> list_ex (\<lambda>declared. xg_id declared = g) (df_exclusion_groups d)) DE_GROUP_REF_UNKNOWN"

definition check_action ::
  "fabric_definition \<Rightarrow> model_limits \<Rightarrow> action_spec \<Rightarrow> action_error option" where
  "check_action d l a = first_some [
     guard (length (ac_name a) > unat (max_string_length l)) DE_ACTION_NAME,
     guard (\<not> valid_action_kind (ac_kind a)) DE_ACTION_KIND,
     guard (\<not> valid_reversibility (ac_reversibility a)) DE_ACTION_REVERSIBILITY,
     guard (\<not> valid_authority_domain (ac_required_domain a)) DE_ACTION_DOMAIN,
     guard (\<not> valid_authority_level (ac_required_level a)) DE_ACTION_LEVEL,
     guard (ac_max_occurrences a = 0) DE_ACTION_OCC_ZERO,
     guard (ac_max_occurrences a > max_action_occurrences l) DE_ACTION_OCC_LIMIT,
     guard (length (ac_preconditions a) > unat (max_preconditions_per_action l))
       DE_ACTION_PRECONDITIONS,
     guard (length (ac_effects a) > unat (max_effects_per_action l)) DE_ACTION_EFFECTS,
     map_option AE_COMPENSATION (check_compensation d a),
     map_option AE_PRECONDITION (first_some (map (check_precondition d) (ac_preconditions a))),
     map_option AE_EFFECT (first_some (map (check_effect d) (ac_effects a))),
     map_option AE_USE (first_some (map (check_use d) (ac_resource_uses a))),
     map_option AE_DEPENDENCY (first_some (map (check_dependency d a) (ac_dependencies a))),
     map_option AE_GROUP_REF (check_unique id DE_GROUP_REF_ZERO DE_GROUP_REF_DUP
       (check_group_ref d) {} (ac_exclusion_groups a))]"

definition check_goal :: "fabric_definition \<Rightarrow> goal_spec \<Rightarrow> goal_error option" where
  "check_goal d g = first_some [
     guard (\<not> valid_goal_kind (gl_kind g)) DE_GOAL_KIND,
     guard (subj_kind (gl_subject g) \<noteq> expected_subject_goal (gl_kind g)) DE_GOAL_SUBJECT,
     guard (\<not> subject_exists d (gl_subject g)) DE_GOAL_UNKNOWN,
     guard (gl_weight g = 0) DE_GOAL_WEIGHT,
     (if gl_kind g = GK_SERVICE_REACHABLE_AT_LEAST then
        (case find_service d (subj_id (gl_subject g)) of None \<Rightarrow> None
         | Some s \<Rightarrow> guard (gl_value g > ucast (sv_max s)) DE_GOAL_SERVICE_MAX)
      else None)]"

definition check_definition :: "fabric_definition \<Rightarrow> model_limits \<Rightarrow> def_error option" where
  "check_definition d l = first_some [
     map_option DE_size (check_sizes d l),
     map_option DE_node
       (check_unique nd_id DE_NODE_ZERO DE_NODE_DUP (\<lambda>_. None) {} (df_nodes d)),
     map_option DE_link
       (check_unique lk_id DE_LINK_ZERO DE_LINK_DUP (check_link d) {} (df_links d)),
     map_option DE_service
       (check_unique sv_id DE_SERVICE_ZERO DE_SERVICE_DUP (check_service l) {} (df_services d)),
     map_option DE_resource
       (check_unique rs_id DE_RESOURCE_ZERO DE_RESOURCE_DUP (check_resource l) {} (df_resources d)),
     map_option DE_group
       (check_unique xg_id DE_GROUP_ZERO DE_GROUP_DUP check_group {} (df_exclusion_groups d)),
     map_option DE_action
       (check_unique ac_id DE_ACTION_ZERO DE_ACTION_DUP (check_action d l) {} (df_actions d)),
     map_option DE_goal (first_some (map (check_goal d) (df_goals d)))]"

text \<open>The public entry point: the status, and the log with the violation recorded.\<close>

definition validate_definition ::
  "fabric_definition \<Rightarrow> model_limits \<Rightarrow> explanation_log \<Rightarrow> status \<times> explanation_log" where
  "validate_definition d l log = (case check_definition d l of
       None \<Rightarrow> (success, log)
     | Some e \<Rightarrow> (status_error SC_INVALID_ARGUMENT (def_error_text e),
                  log_text RC_REQUEST_INVALID_DEFINITION (def_error_text e) log))"

section \<open>Comparators are strict weak orders\<close>

interpretation node: strict_weak_order node_less
  unfolding node_less_def[abs_def] by (rule strict_weak_order_field)

interpretation link: strict_weak_order link_less
  unfolding link_less_def[abs_def] by (rule strict_weak_order_field)

interpretation service: strict_weak_order service_less
  unfolding service_less_def[abs_def] by (rule strict_weak_order_field)

interpretation resource: strict_weak_order resource_less
  unfolding resource_less_def[abs_def] by (rule strict_weak_order_field)

interpretation precond: strict_weak_order precondition_less
  unfolding precondition_less_def[abs_def] by (intro strict_weak_orders) simp_all

interpretation effects: strict_weak_order effect_less
  unfolding effect_less_def[abs_def] by (intro strict_weak_orders) simp_all

interpretation uses: strict_weak_order use_less
  unfolding use_less_def[abs_def] by (intro strict_weak_orders) simp_all

interpretation dependency: strict_weak_order dependency_less
  unfolding dependency_less_def[abs_def] by (intro strict_weak_orders) simp_all

interpretation action: strict_weak_order action_less
  unfolding action_less_def[abs_def] by (rule strict_weak_order_field)

interpretation group: strict_weak_order group_less
  unfolding group_less_def[abs_def] by (rule strict_weak_order_field)

interpretation goal: strict_weak_order goal_less
  unfolding goal_less_def[abs_def] by (intro strict_weak_orders) simp_all

interpretation hold: strict_weak_order hold_less
  unfolding hold_less_def[abs_def] by (intro strict_weak_orders) simp_all

interpretation ident: strict_weak_order "(<) :: u64 \<Rightarrow> u64 \<Rightarrow> bool"
  by unfold_locales auto

section \<open>What validation establishes\<close>

lemma guard_None [simp]: "guard c e = None \<longleftrightarrow> \<not> c"
  by (simp add: guard_def)

lemma first_some_None [simp]: "first_some xs = None \<longleftrightarrow> (\<forall>x\<in>set xs. x = None)"
  by (induction xs) (auto split: option.splits)

declare first_some.simps [simp del]

lemma check_unique_None [simp]:
  "check_unique key z dup body seen xs = None \<longleftrightarrow>
     (\<forall>x\<in>set xs. key x \<noteq> 0 \<and> key x \<notin> seen \<and> body x = None) \<and> distinct (map key xs)"
  by (induction xs arbitrary: seen) (auto simp: image_iff)

lemma index_Some_iff:
  "node_index d i \<noteq> None \<longleftrightarrow> i \<in> nd_id ` set (df_nodes d)"
  "link_index d i \<noteq> None \<longleftrightarrow> i \<in> lk_id ` set (df_links d)"
  "service_index d i \<noteq> None \<longleftrightarrow> i \<in> sv_id ` set (df_services d)"
  "resource_index d i \<noteq> None \<longleftrightarrow> i \<in> rs_id ` set (df_resources d)"
  "action_index d i \<noteq> None \<longleftrightarrow> i \<in> ac_id ` set (df_actions d)"
  unfolding node_index_def link_index_def service_index_def resource_index_def action_index_def
    find_index_None by auto

end
