(* ===== verification/NRP_Objective.thy ===== *)
theory NRP_Objective
  imports NRP_Canonical "HOL-Library.List_Lexorder"
begin

text \<open>
  The deterministic lexicographic objective (\<open>include/nrp/objective.hpp\<close>,
  \<open>src/objective.cpp\<close>): eight 64-bit components compared lexicographically, with the
  canonical action encoding as the final tie-break.
\<close>

section \<open>Objective vectors\<close>

record objective =
  safety_violations :: u64
  service_preservation_gap :: u64
  recovery_incompleteness :: u64
  obj_blast_radius :: u64
  action_count :: u64
  obj_disruption :: u64
  obj_cost_units :: u64
  obj_duration_ticks :: u64

text \<open>The \<open>component\<close> array, index by index.\<close>

definition component :: "objective \<Rightarrow> u64 list" where
  "component v = [safety_violations v, service_preservation_gap v, recovery_incompleteness v,
     obj_blast_radius v, action_count v, obj_disruption v, obj_cost_units v, obj_duration_ticks v]"

definition zero_objective :: objective where
  "zero_objective = \<lparr>safety_violations = 0, service_preservation_gap = 0,
     recovery_incompleteness = 0, obj_blast_radius = 0, action_count = 0, obj_disruption = 0,
     obj_cost_units = 0, obj_duration_ticks = 0\<rparr>"

definition objective_of_list :: "u64 list \<Rightarrow> objective" where
  "objective_of_list cs = \<lparr>safety_violations = cs ! 0, service_preservation_gap = cs ! 1,
     recovery_incompleteness = cs ! 2, obj_blast_radius = cs ! 3, action_count = cs ! 4,
     obj_disruption = cs ! 5, obj_cost_units = cs ! 6, obj_duration_ticks = cs ! 7\<rparr>"

text \<open>\<open>ObjectiveVector::add\<close>: component by component, \<open>None\<close> at the first overflow.\<close>

fun add_components :: "u64 list \<Rightarrow> u64 list \<Rightarrow> u64 list option" where
  "add_components (a # as) (b # bs) =
     (case add_overflow a b of None \<Rightarrow> None
      | Some s \<Rightarrow> map_option ((#) s) (add_components as bs))"
| "add_components _ _ = Some []"

definition objective_add :: "objective \<Rightarrow> objective \<Rightarrow> objective option" where
  "objective_add a b = map_option objective_of_list (add_components (component a) (component b))"

definition is_safety_clean :: "objective \<Rightarrow> bool" where
  "is_safety_clean v \<longleftrightarrow> safety_violations v = 0 \<and> service_preservation_gap v = 0"

fun join_spaced :: "string list \<Rightarrow> string" where
  "join_spaced [] = []"
| "join_spaced [x] = x"
| "join_spaced (x # xs) = x @ '' '' @ join_spaced xs"

definition objective_to_string :: "objective \<Rightarrow> string" where
  "objective_to_string v =
     ''['' @ join_spaced (map (\<lambda>c. dec_string (unat c)) (component v)) @ '']''"

definition encode_objective :: "objective \<Rightarrow> bytes" where
  "encode_objective v = concat (map w_u64 (component v))"

section \<open>Comparison\<close>

text \<open>The three-way loops: \<open>-1\<close>, \<open>0\<close> or \<open>1\<close>.\<close>

fun compare_components :: "u64 list \<Rightarrow> u64 list \<Rightarrow> int" where
  "compare_components (a # as) (b # bs) =
     (if a < b then -1 else if a > b then 1 else compare_components as bs)"
| "compare_components _ _ = 0"

definition compare_objective :: "objective \<Rightarrow> objective \<Rightarrow> int" where
  "compare_objective a b = compare_components (component a) (component b)"

definition compare_encoding :: "strong_id list \<Rightarrow> strong_id list \<Rightarrow> int" where
  "compare_encoding a b =
     (let common = min (length a) (length b);
          order = compare_components (take common a) (take common b)
      in if order \<noteq> 0 then order
         else if length a < length b then -1
         else if length a > length b then 1 else 0)"

definition scored_plan_less ::
  "objective \<Rightarrow> strong_id list \<Rightarrow> objective \<Rightarrow> strong_id list \<Rightarrow> bool" where
  "scored_plan_less a_obj a_enc b_obj b_enc =
     (let objective_order = compare_objective a_obj b_obj in
      if objective_order \<noteq> 0 then objective_order < 0
      else compare_encoding a_enc b_enc < 0)"

section \<open>The comparison is the lexicographic order\<close>

lemma component_inj: "component a = component b \<longleftrightarrow> a = b"
  by (auto simp: component_def)

lemma length_component [simp]: "length (component v) = 8"
  by (simp add: component_def)

lemma component_zero: "component zero_objective = replicate 8 0"
  by (simp add: component_def zero_objective_def numeral_eq_Suc)

lemma component_objective_of_list: "length cs = 8 \<Longrightarrow> component (objective_of_list cs) = cs"
  by (simp add: component_def objective_of_list_def numeral_eq_Suc length_Suc_conv) auto

lemma compare_components_lex:
  "length as = length bs \<Longrightarrow>
   (compare_components as bs < 0 \<longleftrightarrow> as < bs) \<and> (compare_components as bs = 0 \<longleftrightarrow> as = bs)"
  by (induction as bs rule: list_induct2) auto

lemma compare_objective_less: "compare_objective a b < 0 \<longleftrightarrow> component a < component b"
  and compare_objective_eq: "compare_objective a b = 0 \<longleftrightarrow> a = b"
  using compare_components_lex[of "component a" "component b"]
  by (simp_all add: compare_objective_def component_inj)

lemma lex_take_cases:
  fixes a b :: "u64 list"
  defines "n \<equiv> min (length a) (length b)"
  shows "a < b \<longleftrightarrow> take n a < take n b \<or> take n a = take n b \<and> length a < length b"
  unfolding n_def
proof (induction a arbitrary: b)
  case Nil
  then show ?case by (cases b) auto
next
  case (Cons x xs)
  then show ?case by (cases b) auto
qed

lemma compare_encoding_less: "compare_encoding a b < 0 \<longleftrightarrow> a < b"
proof -
  let ?n = "min (length a) (length b)"
  have "length (take ?n a) = length (take ?n b)" by simp
  from compare_components_lex[OF this] show ?thesis
    by (auto simp: compare_encoding_def Let_def lex_take_cases[of a b])
qed

lemma compare_encoding_eq: "compare_encoding a b = 0 \<longleftrightarrow> a = b"
proof -
  let ?n = "min (length a) (length b)"
  have "length (take ?n a) = length (take ?n b)" by simp
  from compare_components_lex[OF this] show ?thesis
    by (auto simp: compare_encoding_def Let_def split: if_splits)
qed

text \<open>The score of a plan, as one lexicographically ordered value.\<close>

definition score_less :: "objective \<times> strong_id list \<Rightarrow> objective \<times> strong_id list \<Rightarrow> bool" where
  "score_less a b = scored_plan_less (fst a) (snd a) (fst b) (snd b)"

definition score_key :: "objective \<times> strong_id list \<Rightarrow> u64 list list" where
  "score_key s = [component (fst s), snd s]"

lemma score_key_inj: "score_key a = score_key b \<longleftrightarrow> a = b"
  by (auto simp: score_key_def component_inj prod_eq_iff)

lemma score_less_key: "score_less a b \<longleftrightarrow> score_key a < score_key b"
  using compare_objective_less[of "fst a" "fst b"] compare_objective_eq[of "fst a" "fst b"]
    compare_encoding_less[of "snd a" "snd b"]
  by (auto simp: score_less_def scored_plan_less_def Let_def score_key_def component_inj)

interpretation score: strict_weak_order score_less
  by (rule strict_weak_order_key[of _ score_key]) (rule score_less_key)

definition score_le :: "objective \<times> strong_id list \<Rightarrow> objective \<times> strong_id list \<Rightarrow> bool" where
  "score_le a b \<longleftrightarrow> \<not> score_less b a"

lemma score_le_key: "score_le a b \<longleftrightarrow> score_key a \<le> score_key b"
  by (simp add: score_le_def score_less_key not_less)

lemma score_le_refl [simp]: "score_le a a"
  by (simp add: score_le_key)

lemma score_le_trans: "score_le a b \<Longrightarrow> score_le b c \<Longrightarrow> score_le a c"
  by (auto simp: score_le_key)

lemma score_less_total: "a \<noteq> b \<Longrightarrow> score_less a b \<or> score_less b a"
  by (metis score_key_inj score_less_key linorder_neqE)

lemma score_less_imp_le: "score_less a b \<Longrightarrow> score_le a b"
  by (simp add: score_less_key score_le_key)

section \<open>Accumulation is monotone\<close>

lemma add_components_nth:
  "length as = length bs \<Longrightarrow> add_components as bs = Some cs \<longleftrightarrow>
   length cs = length as \<and> (\<forall>i<length as. unat (cs ! i) = unat (as ! i) + unat (bs ! i))"
proof (induction as bs arbitrary: cs rule: list_induct2)
  case (Cons a as b bs)
  show ?case
  proof (cases cs)
    case Nil
    then show ?thesis by (auto split: option.splits)
  next
    case (Cons c cs')
    have all: "(\<forall>i<Suc n. P i) \<longleftrightarrow> P 0 \<and> (\<forall>i<n. P (Suc i))" for P n
      by (metis less_Suc_eq_0_disj zero_less_Suc)
    show ?thesis
      using Cons.IH[of cs'] add_overflow_Some_iff[of a b c] \<open>cs = c # cs'\<close>
      by (auto simp: all split: option.splits)
  qed
qed auto

lemma objective_add_Some:
  "objective_add a b = Some c \<longleftrightarrow>
   (\<forall>i<8. unat (component c ! i) = unat (component a ! i) + unat (component b ! i))"
proof -
  have "objective_add a b = Some c \<longleftrightarrow> add_components (component a) (component b) = Some (component c)"
  proof
    assume "objective_add a b = Some c"
    then obtain cs where cs: "add_components (component a) (component b) = Some cs"
      "c = objective_of_list cs" by (auto simp: objective_add_def)
    then have "length cs = 8"
      using add_components_nth[of "component a" "component b" cs] by simp
    with cs show "add_components (component a) (component b) = Some (component c)"
      by (simp add: component_objective_of_list)
  next
    assume "add_components (component a) (component b) = Some (component c)"
    moreover have "objective_of_list (component c) = c"
      using component_inj component_objective_of_list length_component by blast
    ultimately show "objective_add a b = Some c" by (simp add: objective_add_def)
  qed
  then show ?thesis
    using add_components_nth[of "component a" "component b" "component c"] by simp
qed

lemma list_lex_iff_nth:
  fixes as bs :: "u64 list"
  assumes "length as = length bs"
  shows "as < bs \<longleftrightarrow> (\<exists>i<length as. as ! i < bs ! i \<and> (\<forall>j<i. as ! j = bs ! j))"
  using assms
proof (induction as bs rule: list_induct2)
  case (Cons a as b bs)
  have ex: "(\<exists>i<Suc n. P i) \<longleftrightarrow> P 0 \<or> (\<exists>i<n. P (Suc i))" for P n
    by (metis less_Suc_eq_0_disj zero_less_Suc)
  have all: "(\<forall>i<Suc n. P i) \<longleftrightarrow> P 0 \<and> (\<forall>i<n. P (Suc i))" for P n
    by (metis less_Suc_eq_0_disj zero_less_Suc)
  show ?case using Cons.IH by (auto simp: ex all)
qed simp

text \<open>Adding the same increment keeps the order of two sums.\<close>

lemma objective_add_mono:
  assumes a: "objective_add a d = Some a'" and b: "objective_add b d = Some b'"
  shows "component a < component b \<longleftrightarrow> component a' < component b'"
    and "a = b \<longleftrightarrow> a' = b'"
proof -
  have lt: "component a ! i < component b ! i \<longleftrightarrow> component a' ! i < component b' ! i" if "i < 8" for i
    using that a b by (simp add: objective_add_Some word_less_nat_alt)
  have eq: "component a ! i = component b ! i \<longleftrightarrow> component a' ! i = component b' ! i" if "i < 8" for i
    using that a b by (simp add: objective_add_Some word_unat_eq_iff)
  show "component a < component b \<longleftrightarrow> component a' < component b'"
  proof -
    have "(component a ! i < component b ! i \<and> (\<forall>j<i. component a ! j = component b ! j)) \<longleftrightarrow>
        (component a' ! i < component b' ! i \<and> (\<forall>j<i. component a' ! j = component b' ! j))"
      if "i < 8" for i
    proof -
      have "(\<forall>j<i. component a ! j = component b ! j) \<longleftrightarrow>
          (\<forall>j<i. component a' ! j = component b' ! j)"
        using eq that by (meson less_trans)
      with lt[OF that] show ?thesis by blast
    qed
    then show ?thesis by (simp only: list_lex_iff_nth length_component) blast
  qed
  show "a = b \<longleftrightarrow> a' = b'"
    using eq by (simp add: component_inj[symmetric] list_eq_iff_nth_eq)
qed

text \<open>A non-zero increment makes the objective strictly larger.\<close>

lemma objective_add_greater:
  assumes a: "objective_add a d = Some a'" and d: "d \<noteq> zero_objective"
  shows "component a < component a'"
proof -
  let ?P = "\<lambda>i. i < 8 \<and> component d ! i \<noteq> 0"
  have "\<exists>i. ?P i"
    using d by (auto simp: component_inj[symmetric] component_zero list_eq_iff_nth_eq)
  then have i: "?P (LEAST i. ?P i)" by (rule LeastI_ex)
  have below: "component d ! j = 0" if "j < (LEAST i. ?P i)" for j
    using that not_less_Least[OF that] i by auto
  have "component a ! (LEAST i. ?P i) < component a' ! (LEAST i. ?P i)"
    using i a by (simp add: objective_add_Some word_less_nat_alt unat_gt_0)
  moreover have "component a ! j = component a' ! j" if "j < (LEAST i. ?P i)" for j
    using that i a below[OF that] by (simp add: objective_add_Some word_unat_eq_iff)
  ultimately show ?thesis using i by (auto simp: list_lex_iff_nth)
qed

end
