(* ===== verification/NRP_Plan.thy ===== *)
theory NRP_Plan
  imports NRP_Domain NRP_Objective
begin

text \<open>
  Decisions, plan steps, plans, certificates and results (\<open>include/nrp/plan.hpp\<close>,
  \<open>src/plan.cpp\<close>), and the plan encoder the digest is taken over (\<open>encode_plan\<close> of
  \<open>src/codec.cpp\<close>).
\<close>

section \<open>Decisions\<close>

datatype plan_decision =
    PD_PLAN_FOUND | PD_PROVEN_INFEASIBLE | PD_INDETERMINATE_SEARCH_LIMIT
  | PD_INDETERMINATE_INCOMPLETE_EVIDENCE | PD_REJECTED_INVALID_REQUEST
  | PD_REJECTED_UNSUPPORTED_PROBLEM | PD_REJECTED_STALE_AUTHORITY
  | PD_REJECTED_UNKNOWN_AUTHORITY | PD_REJECTED_CONFLICTING_AUTHORITY | PD_REJECTED_FENCED
  | PD_REJECTED_EXHAUSTED | PD_COUNT

primrec raw_plan_decision :: "plan_decision \<Rightarrow> u8" where
  "raw_plan_decision PD_PLAN_FOUND = 0"
| "raw_plan_decision PD_PROVEN_INFEASIBLE = 1"
| "raw_plan_decision PD_INDETERMINATE_SEARCH_LIMIT = 2"
| "raw_plan_decision PD_INDETERMINATE_INCOMPLETE_EVIDENCE = 3"
| "raw_plan_decision PD_REJECTED_INVALID_REQUEST = 4"
| "raw_plan_decision PD_REJECTED_UNSUPPORTED_PROBLEM = 5"
| "raw_plan_decision PD_REJECTED_STALE_AUTHORITY = 6"
| "raw_plan_decision PD_REJECTED_UNKNOWN_AUTHORITY = 7"
| "raw_plan_decision PD_REJECTED_CONFLICTING_AUTHORITY = 8"
| "raw_plan_decision PD_REJECTED_FENCED = 9"
| "raw_plan_decision PD_REJECTED_EXHAUSTED = 10"
| "raw_plan_decision PD_COUNT = 11"

lemma raw_plan_decision_inj [simp]: "raw_plan_decision a = raw_plan_decision b \<longleftrightarrow> a = b"
  by (cases a; cases b) auto

definition is_indeterminate :: "plan_decision \<Rightarrow> bool" where
  "is_indeterminate d \<longleftrightarrow> d = PD_INDETERMINATE_SEARCH_LIMIT \<or>
     d = PD_INDETERMINATE_INCOMPLETE_EVIDENCE \<or> d = PD_REJECTED_EXHAUSTED"

definition is_rejection :: "plan_decision \<Rightarrow> bool" where
  "is_rejection d \<longleftrightarrow> d \<in> {PD_REJECTED_INVALID_REQUEST, PD_REJECTED_UNSUPPORTED_PROBLEM,
     PD_REJECTED_STALE_AUTHORITY, PD_REJECTED_UNKNOWN_AUTHORITY, PD_REJECTED_CONFLICTING_AUTHORITY,
     PD_REJECTED_FENCED, PD_REJECTED_EXHAUSTED}"

section \<open>Plans\<close>

record evidence_binding =
  bd_kind :: evidence_kind
  bd_subject :: subject
  bd_generation :: generation

definition evidence_binding_less :: "evidence_binding \<Rightarrow> evidence_binding \<Rightarrow> bool" where
  "evidence_binding_less a b =
     (if bd_subject a \<noteq> bd_subject b then bd_subject a < bd_subject b
      else if bd_kind a \<noteq> bd_kind b
        then raw_evidence_kind (bd_kind a) < raw_evidence_kind (bd_kind b)
      else bd_generation a < bd_generation b)"

interpretation evidence_bindings: strict_weak_order evidence_binding_less
  unfolding evidence_binding_less_def[abs_def] by (intro strict_weak_orders) simp_all

record plan_step =
  ps_index :: u32
  ps_action :: strong_id
  ps_occurrence :: u32
  ps_start_tick :: u64
  ps_end_tick :: u64
  ps_required_domain :: authority_domain
  ps_required_level :: authority_level
  ps_required_generation :: generation
  ps_issued_level :: authority_level
  ps_evidence :: "evidence_binding list"
  ps_irreversible :: bool
  ps_compensation :: strong_id

record recovery_plan =
  pl_id :: strong_id
  pl_request :: strong_id
  pl_epoch :: epoch
  pl_boot :: boot_id
  pl_attempt :: strong_id
  pl_steps :: "plan_step list"
  pl_objective :: objective
  pl_request_digest :: digest
  pl_definition_digest :: digest
  pl_evidence_digest :: digest
  pl_authority_digest :: digest
  pl_policy_digest :: digest
  pl_plan_digest :: digest
  pl_explanations :: "explanation list"

definition plan_encoding :: "recovery_plan \<Rightarrow> strong_id list" where
  "plan_encoding p = map ps_action (pl_steps p)"

definition encode_explanation :: "explanation \<Rightarrow> bytes" where
  "encode_explanation e =
     w_u8 (raw_reason_code (ex_code e)) @ w_u8 (raw_subject_kind (subj_kind (ex_subject e))) @
     w_u64 (subj_id (ex_subject e)) @ w_u64 (ex_detail_a e) @ w_u64 (ex_detail_b e) @
     w_str (ex_text e)"

definition encode_binding :: "evidence_binding \<Rightarrow> bytes" where
  "encode_binding b =
     w_u8 (raw_evidence_kind (bd_kind b)) @ w_u8 (raw_subject_kind (subj_kind (bd_subject b))) @
     w_u64 (subj_id (bd_subject b)) @ w_u64 (bd_generation b)"

definition encode_step :: "plan_step \<Rightarrow> bytes" where
  "encode_step s =
     w_u32 (ps_index s) @ w_u64 (ps_action s) @ w_u32 (ps_occurrence s) @ w_u64 (ps_start_tick s) @
     w_u64 (ps_end_tick s) @ w_u8 (raw_authority_domain (ps_required_domain s)) @
     w_u8 (raw_authority_level (ps_required_level s)) @ w_u64 (ps_required_generation s) @
     w_u8 (raw_authority_level (ps_issued_level s)) @ w_list encode_binding (ps_evidence s) @
     w_boolean (ps_irreversible s) @ w_u64 (ps_compensation s)"

definition encode_digest :: "digest \<Rightarrow> bytes" where
  "encode_digest g = w_u64 (dg_hi g) @ w_u64 (dg_lo g)"

definition encode_plan :: "recovery_plan \<Rightarrow> bytes" where
  "encode_plan p =
     w_u64 (pl_id p) @ w_u64 (pl_request p) @ w_u64 (pl_epoch p) @ w_u64 (pl_boot p) @
     w_u64 (pl_attempt p) @ w_list encode_step (pl_steps p) @ encode_objective (pl_objective p) @
     encode_digest (pl_request_digest p) @ encode_digest (pl_definition_digest p) @
     encode_digest (pl_evidence_digest p) @ encode_digest (pl_authority_digest p) @
     encode_digest (pl_policy_digest p) @ w_list encode_explanation (pl_explanations p)"

text \<open>The identity and the digest itself are zeroed before hashing.\<close>

definition compute_digest :: "recovery_plan \<Rightarrow> digest" where
  "compute_digest p = digest_of (encode_plan (p\<lparr>pl_id := 0, pl_plan_digest := zero_digest\<rparr>))"

section \<open>Certificates and results\<close>

datatype proof_kind =
    PF_EXHAUSTIVE_SEARCH | PF_DEPENDENCY_CYCLE | PF_GOAL_UPPER_BOUND | PF_COUNT

primrec raw_proof_kind :: "proof_kind \<Rightarrow> u8" where
  "raw_proof_kind PF_EXHAUSTIVE_SEARCH = 0"
| "raw_proof_kind PF_DEPENDENCY_CYCLE = 1"
| "raw_proof_kind PF_GOAL_UPPER_BOUND = 2"
| "raw_proof_kind PF_COUNT = 3"

lemma raw_proof_kind_inj [simp]: "raw_proof_kind a = raw_proof_kind b \<longleftrightarrow> a = b"
  by (cases a; cases b) auto

record certificate =
  ct_kind :: proof_kind
  ct_request_digest :: digest
  ct_policy_digest :: digest
  ct_nodes_expanded :: u64
  ct_nodes_generated :: u64
  ct_reachable_states :: u64
  ct_cycle :: "strong_id list"
  ct_unreachable_subject :: subject
  ct_unreachable_value :: u64
  ct_required_value :: u64
  ct_assumptions :: "string list"
  ct_explanations :: "explanation list"

definition empty_certificate :: certificate where
  "empty_certificate = \<lparr>ct_kind = PF_EXHAUSTIVE_SEARCH, ct_request_digest = zero_digest,
     ct_policy_digest = zero_digest, ct_nodes_expanded = 0, ct_nodes_generated = 0,
     ct_reachable_states = 0, ct_cycle = [], ct_unreachable_subject = no_subject,
     ct_unreachable_value = 0, ct_required_value = 0, ct_assumptions = [], ct_explanations = []\<rparr>"

record search_stats =
  ss_nodes_expanded :: u64
  ss_nodes_generated :: u64
  ss_nodes_pruned_by_dominance :: u64
  ss_nodes_pruned_by_safety :: u64
  ss_nodes_pruned_by_authority :: u64
  ss_nodes_pruned_by_policy :: u64
  ss_frontier_high_water :: u64
  ss_states_revisited :: u64
  ss_budget_nodes :: u64
  ss_budget_exhausted :: bool
  ss_frontier_emptied :: bool

definition zero_stats :: search_stats where
  "zero_stats = \<lparr>ss_nodes_expanded = 0, ss_nodes_generated = 0, ss_nodes_pruned_by_dominance = 0,
     ss_nodes_pruned_by_safety = 0, ss_nodes_pruned_by_authority = 0,
     ss_nodes_pruned_by_policy = 0, ss_frontier_high_water = 0, ss_states_revisited = 0,
     ss_budget_nodes = 0, ss_budget_exhausted = False, ss_frontier_emptied = False\<rparr>"

record planning_result =
  pr_decision :: plan_decision
  pr_request :: strong_id
  pr_epoch :: epoch
  pr_boot :: boot_id
  pr_attempt :: strong_id
  pr_plan :: "recovery_plan option"
  pr_certificate :: "certificate option"
  pr_stats :: search_stats
  pr_unresolved_subjects :: "subject list"
  pr_explanations :: "explanation list"
  pr_request_digest :: digest

end
