(* ===== verification/NRP_Report.thy ===== *)
theory NRP_Report
  imports NRP_Plan
begin

text \<open>
  The report of a validation (\<open>include/nrp/validate.hpp\<close>), which the validator fills and the frame
  protocol carries. A finding with the step index \<open>UINT32_MAX\<close> is about the plan as a whole.
\<close>

definition plan_level :: u32 where
  "plan_level = 0xFFFFFFFF"

record validation_finding =
  vf_code :: reason_code
  vf_step_index :: u32
  vf_subject :: subject
  vf_text :: string

record validation_report =
  vr_valid :: bool
  vr_objective_matches :: bool
  vr_digest_matches :: bool
  vr_recomputed_objective :: objective
  vr_stated_plan_digest :: digest
  vr_recomputed_plan_digest :: digest
  vr_findings :: "validation_finding list"

end
