(* ===== verification/NRP_Reconcile.thy ===== *)
theory NRP_Reconcile
  imports NRP_Plan
begin

text \<open>
  Identity indexing and evidence reconciliation of the planner (\<open>src/planner.cpp\<close>:
  \<open>Indexer\<close>, \<open>Reconciler\<close>, \<open>materialise_state\<close>, \<open>derive_initial_state\<close>). The resolution
  table is a \<open>std::map\<close> keyed by subject and evidence kind; it is an association list in key
  order here.
\<close>

section \<open>Identity indexing\<close>

definition index_of :: "strong_id \<Rightarrow> strong_id list \<Rightarrow> nat option" where
  "index_of i ids =
     (let it = lower_bound ids i in
      if it = length ids \<or> ids ! it \<noteq> i then None else Some it)"

record indexer =
  ix_node_ids :: "strong_id list"
  ix_link_ids :: "strong_id list"
  ix_service_ids :: "strong_id list"
  ix_resource_ids :: "strong_id list"
  ix_action_ids :: "strong_id list"

definition build_indexer :: "fabric_definition \<Rightarrow> indexer" where
  "build_indexer d = \<lparr>ix_node_ids = map nd_id (df_nodes d), ix_link_ids = map lk_id (df_links d),
     ix_service_ids = map sv_id (df_services d), ix_resource_ids = map rs_id (df_resources d),
     ix_action_ids = map ac_id (df_actions d)\<rparr>"

fun subject_index :: "indexer \<Rightarrow> subject \<Rightarrow> nat option" where
  "subject_index ix (Subject SK_NODE i) = index_of i (ix_node_ids ix)"
| "subject_index ix (Subject SK_LINK i) = index_of i (ix_link_ids ix)"
| "subject_index ix (Subject SK_SERVICE i) = index_of i (ix_service_ids ix)"
| "subject_index ix (Subject SK_RESOURCE i) = index_of i (ix_resource_ids ix)"
| "subject_index ix (Subject SK_ACTION i) = index_of i (ix_action_ids ix)"
| "subject_index ix (Subject SK_NONE i) = None"
| "subject_index ix (Subject SK_FABRIC i) = None"

section \<open>Resolution of one subject\<close>

record subject_resolution =
  sr_subject :: subject
  sr_kind :: evidence_kind
  sr_state :: subject_state
  sr_value :: u64
  sr_generation :: generation
  sr_sequence :: seqno
  sr_sources :: u32

primrec state_priority :: "subject_state \<Rightarrow> int" where
  "state_priority SS_CONFLICT = 6"
| "state_priority SS_STALE = 5"
| "state_priority SS_AHEAD = 4"
| "state_priority SS_INVALID = 3"
| "state_priority SS_UNSUPPORTED = 2"
| "state_priority SS_MISSING = 1"
| "state_priority SS_RESOLVED = 0"
| "state_priority SS_COUNT = 0"

primrec reason_for :: "subject_state \<Rightarrow> reason_code" where
  "reason_for SS_MISSING = RC_EVIDENCE_SUBJECT_MISSING"
| "reason_for SS_STALE = RC_EVIDENCE_SUBJECT_STALE"
| "reason_for SS_AHEAD = RC_EVIDENCE_SUBJECT_AHEAD_OF_AUTHORITY"
| "reason_for SS_CONFLICT = RC_EVIDENCE_SUBJECT_CONFLICTING"
| "reason_for SS_INVALID = RC_EVIDENCE_SUBJECT_INVALID"
| "reason_for SS_UNSUPPORTED = RC_EVIDENCE_SUBJECT_UNSUPPORTED"
| "reason_for SS_RESOLVED = RC_NONE"
| "reason_for SS_COUNT = RC_NONE"

primrec domain_for_evidence :: "evidence_kind \<Rightarrow> authority_domain" where
  "domain_for_evidence EK_LINK_OPERATIONAL = AD_FABRIC_STATE"
| "domain_for_evidence EK_NODE_OPERATIONAL = AD_FABRIC_STATE"
| "domain_for_evidence EK_SERVICE_REACHABLE_ENDPOINTS = AD_FABRIC_STATE"
| "domain_for_evidence EK_RESOURCE_AVAILABLE_UNITS = AD_RESOURCE_LEASE"
| "domain_for_evidence EK_RESOURCE_RESTORED = AD_RESOURCE_LEASE"
| "domain_for_evidence EK_COUNT = AD_FABRIC_STATE"

type_synonym evidence_key = "evidence_kind \<times> subject"
type_synonym resolution_table = "(evidence_key \<times> subject_resolution) list"

definition evidence_key_less :: "evidence_key \<Rightarrow> evidence_key \<Rightarrow> bool" where
  "evidence_key_less a b =
     (if snd a \<noteq> snd b then snd a < snd b
      else raw_evidence_kind (fst a) < raw_evidence_kind (fst b))"

interpretation evidence_keys: strict_total_order evidence_key_less
proof (rule strict_total_order.intro)
  show "strict_weak_order evidence_key_less"
    unfolding evidence_key_less_def[abs_def] by (intro strict_weak_orders) simp_all
  show "strict_total_order_axioms evidence_key_less"
  proof
    fix x y :: evidence_key
    assume "x \<noteq> y"
    then show "evidence_key_less x y \<or> evidence_key_less y x"
      using raw_evidence_kind_inj[of "fst x" "fst y"] linorder_less_linear[of "snd x" "snd y"]
        linorder_less_linear[of "raw_evidence_kind (fst x)" "raw_evidence_kind (fst y)"]
      by (auto simp: evidence_key_less_def prod_eq_iff)
  qed
qed

section \<open>Reconciler\<close>

definition downgrade :: "subject_state \<Rightarrow> subject_resolution \<Rightarrow> subject_resolution" where
  "downgrade st r =
     (if sr_state r = SS_RESOLVED then r
      else if state_priority st > state_priority (sr_state r) then r\<lparr>sr_state := st\<rparr>
      else r)"

definition value_in_domain ::
  "fabric_definition \<Rightarrow> indexer \<Rightarrow> model_limits \<Rightarrow> evidence_fact \<Rightarrow> bool" where
  "value_in_domain d ix l f = (case ef_kind f of
       EK_LINK_OPERATIONAL \<Rightarrow>
         index_of (subj_id (ef_subject f)) (ix_link_ids ix) \<noteq> None \<and> ef_value f \<le> 1
     | EK_NODE_OPERATIONAL \<Rightarrow>
         index_of (subj_id (ef_subject f)) (ix_node_ids ix) \<noteq> None \<and> ef_value f \<le> 1
     | EK_SERVICE_REACHABLE_ENDPOINTS \<Rightarrow>
         (case index_of (subj_id (ef_subject f)) (ix_service_ids ix) of None \<Rightarrow> False
          | Some i \<Rightarrow> ef_value f \<le> ucast (sv_max (df_services d ! i)) \<and>
                      ef_value f \<le> ucast (max_service_endpoints l))
     | EK_RESOURCE_AVAILABLE_UNITS \<Rightarrow>
         (case index_of (subj_id (ef_subject f)) (ix_resource_ids ix) of None \<Rightarrow> False
          | Some i \<Rightarrow> ef_value f \<le> ucast (rs_capacity (df_resources d ! i)))
     | EK_RESOURCE_RESTORED \<Rightarrow>
         index_of (subj_id (ef_subject f)) (ix_resource_ids ix) \<noteq> None \<and> ef_value f \<le> 1
     | EK_COUNT \<Rightarrow> False)"

definition accept_fact :: "evidence_fact \<Rightarrow> subject_resolution \<Rightarrow> subject_resolution" where
  "accept_fact f r = r\<lparr>sr_state := SS_RESOLVED, sr_value := ef_value f,
     sr_generation := ef_generation f, sr_sequence := ef_sequence f, sr_sources := 1\<rparr>"

text \<open>The body of \<open>ingest\<close> once the table entry is at hand.\<close>

definition resolve_fact ::
  "fabric_definition \<Rightarrow> indexer \<Rightarrow> authority_vector \<Rightarrow> model_limits \<Rightarrow> evidence_fact \<Rightarrow>
   subject_resolution \<Rightarrow> subject_resolution" where
  "resolve_fact d ix au l f r =
     (if subj_kind (ef_subject f) \<noteq> expected_subject_evidence (ef_kind f) \<or>
         subject_index ix (ef_subject f) = None \<or>
         ef_source_domain f \<noteq> domain_for_evidence (ef_kind f) \<or>
         ef_label f = TL_UNKNOWN \<or> \<not> value_in_domain d ix l f
        then downgrade SS_INVALID r
      else if ef_label f = TL_UNSUPPORTED then downgrade SS_UNSUPPORTED r
      else case find_binding au (ef_source_domain f) of
          None \<Rightarrow> downgrade SS_MISSING r
        | Some b \<Rightarrow>
            if ef_generation f < ab_granted b then downgrade SS_STALE r
            else if ef_generation f > ab_granted b then downgrade SS_AHEAD r
            else if sr_state r = SS_RESOLVED then
              (if ef_sequence f > sr_sequence r then accept_fact f r
               else if ef_sequence f = sr_sequence r then
                 (if ef_value f \<noteq> sr_value r then r\<lparr>sr_state := SS_CONFLICT\<rparr>
                  else r\<lparr>sr_sources := sr_sources r + 1\<rparr>)
               else r)
            else accept_fact f r)"

definition fresh_resolution :: "evidence_fact \<Rightarrow> subject_resolution" where
  "fresh_resolution f = \<lparr>sr_subject = ef_subject f, sr_kind = ef_kind f, sr_state = SS_MISSING,
     sr_value = 0, sr_generation = 0, sr_sequence = 0, sr_sources = 0\<rparr>"

definition fact_key :: "evidence_fact \<Rightarrow> evidence_key" where
  "fact_key f = (ef_kind f, ef_subject f)"

definition ingest ::
  "fabric_definition \<Rightarrow> indexer \<Rightarrow> authority_vector \<Rightarrow> model_limits \<Rightarrow> evidence_fact \<Rightarrow>
   resolution_table \<Rightarrow> resolution_table" where
  "ingest d ix au l f table =
     (if \<not> valid_evidence_kind (ef_kind f) then table
      else
        let r = (case map_of table (fact_key f) of None \<Rightarrow> fresh_resolution f | Some r \<Rightarrow> r)
        in map_put evidence_key_less (fact_key f) (resolve_fact d ix au l f r) table)"

definition reconcile ::
  "fabric_definition \<Rightarrow> indexer \<Rightarrow> authority_vector \<Rightarrow> model_limits \<Rightarrow> evidence_fact list \<Rightarrow>
   resolution_table" where
  "reconcile d ix au l facts = fold (ingest d ix au l) facts []"

section \<open>Initial state\<close>

definition blank_state :: "fabric_definition \<Rightarrow> fabric_state" where
  "blank_state d = \<lparr>
     node_operational = replicate (length (df_nodes d)) 0,
     link_operational = replicate (length (df_links d)) 0,
     resource_restored = replicate (length (df_resources d)) 0,
     resource_available = map rs_capacity (df_resources d),
     service_reachable = replicate (length (df_services d)) 0,
     action_occurrences = replicate (length (df_actions d)) 0,
     node_known = replicate (length (df_nodes d)) 0,
     link_known = replicate (length (df_links d)) 0,
     resource_known = replicate (length (df_resources d)) 0,
     service_known = replicate (length (df_services d)) 0,
     fs_tick = 0\<rparr>"

definition flag :: "bool \<Rightarrow> u8" where
  "flag b = (if b then 1 else 0)"

definition materialise_entry :: "indexer \<Rightarrow> subject_resolution \<Rightarrow> fabric_state \<Rightarrow> fabric_state" where
  "materialise_entry ix r s =
     (if sr_state r \<noteq> SS_RESOLVED then s
      else case subject_index ix (sr_subject r) of
          None \<Rightarrow> s
        | Some i \<Rightarrow> (case sr_kind r of
            EK_LINK_OPERATIONAL \<Rightarrow>
              s\<lparr>link_operational := (link_operational s)[i := flag (sr_value r \<noteq> 0)],
                link_known := (link_known s)[i := 1]\<rparr>
          | EK_NODE_OPERATIONAL \<Rightarrow>
              s\<lparr>node_operational := (node_operational s)[i := flag (sr_value r \<noteq> 0)],
                node_known := (node_known s)[i := 1]\<rparr>
          | EK_SERVICE_REACHABLE_ENDPOINTS \<Rightarrow>
              s\<lparr>service_reachable := (service_reachable s)[i := ucast (sr_value r)],
                service_known := (service_known s)[i := 1]\<rparr>
          | EK_RESOURCE_AVAILABLE_UNITS \<Rightarrow>
              s\<lparr>resource_available := (resource_available s)[i := ucast (sr_value r)],
                resource_known := (resource_known s)[i := 1]\<rparr>
          | EK_RESOURCE_RESTORED \<Rightarrow>
              s\<lparr>resource_restored := (resource_restored s)[i := flag (sr_value r \<noteq> 0)],
                resource_known := (resource_known s)[i := 1]\<rparr>
          | EK_COUNT \<Rightarrow> s))"

definition materialise_state ::
  "fabric_definition \<Rightarrow> indexer \<Rightarrow> resolution_table \<Rightarrow> fabric_state" where
  "materialise_state d ix table = fold (\<lambda>e. materialise_entry ix (snd e)) table (blank_state d)"

record derived_state =
  ds_state :: fabric_state
  ds_generation_index :: "(subject \<times> generation) list"
  ds_unresolved :: "subject list"
  ds_explanations :: "explanation list"

definition unresolved_explanation :: "subject_resolution \<Rightarrow> explanation" where
  "unresolved_explanation r = \<lparr>ex_code = reason_for (sr_state r), ex_subject = sr_subject r,
     ex_detail_a = 0, ex_detail_b = 0,
     ex_text = subject_state_name (sr_state r) @ '' evidence for '' @ describe (sr_subject r)\<rparr>"

definition subject_generation_less :: "subject \<times> generation \<Rightarrow> subject \<times> generation \<Rightarrow> bool" where
  "subject_generation_less a b = (if fst a \<noteq> fst b then fst a < fst b else snd a < snd b)"

definition derive_initial_state ::
  "fabric_definition \<Rightarrow> evidence_bundle \<Rightarrow> authority_vector \<Rightarrow> model_limits \<Rightarrow> derived_state" where
  "derive_initial_state d ev au l =
     (let ix = build_indexer d;
          table = reconcile d ix au l (eb_facts ev);
          resolved = filter (\<lambda>r. sr_state r = SS_RESOLVED) (map snd table);
          open_entries = filter (\<lambda>r. sr_state r \<noteq> SS_RESOLVED) (map snd table)
      in \<lparr>ds_state = materialise_state d ix table,
          ds_generation_index = remdups_adj (sort_by subject_generation_less
            (map (\<lambda>r. (sr_subject r, sr_generation r)) resolved)),
          ds_unresolved = remdups_adj (sort_by (<) (map sr_subject open_entries)),
          ds_explanations = map unresolved_explanation open_entries\<rparr>)"

definition generation_of :: "derived_state \<Rightarrow> subject \<Rightarrow> generation option" where
  "generation_of ds s =
     map_option snd (find (\<lambda>e. fst e = s) (ds_generation_index ds))"

section \<open>What a resolution rests on\<close>

text \<open>The facts the reconciler accepts: well-formed, labelled, and at the granted generation.\<close>

definition admissible_fact ::
  "fabric_definition \<Rightarrow> indexer \<Rightarrow> authority_vector \<Rightarrow> model_limits \<Rightarrow> evidence_fact \<Rightarrow> bool" where
  "admissible_fact d ix au l f \<longleftrightarrow>
     valid_evidence_kind (ef_kind f) \<and> subj_kind (ef_subject f) = expected_subject_evidence (ef_kind f) \<and>
     subject_index ix (ef_subject f) \<noteq> None \<and> ef_source_domain f = domain_for_evidence (ef_kind f) \<and>
     ef_label f \<noteq> TL_UNKNOWN \<and> ef_label f \<noteq> TL_UNSUPPORTED \<and> value_in_domain d ix l f \<and>
     (\<exists>b. find_binding au (ef_source_domain f) = Some b \<and> ef_generation f = ab_granted b)"

definition rests_on :: "evidence_fact \<Rightarrow> subject_resolution \<Rightarrow> bool" where
  "rests_on f r \<longleftrightarrow> sr_value r = ef_value f \<and> sr_generation r = ef_generation f \<and>
     sr_sequence r = ef_sequence f"

lemma downgrade_simps [simp]:
  "sr_subject (downgrade st r) = sr_subject r" "sr_kind (downgrade st r) = sr_kind r"
  "sr_state r = SS_RESOLVED \<Longrightarrow> downgrade st r = r"
  by (simp_all add: downgrade_def)

lemma downgrade_unresolved:
  "st \<noteq> SS_RESOLVED \<Longrightarrow> sr_state r \<noteq> SS_RESOLVED \<Longrightarrow> sr_state (downgrade st r) \<noteq> SS_RESOLVED"
  by (simp add: downgrade_def)

lemma resolve_fact_frame [simp]:
  "sr_subject (resolve_fact d ix au l f r) = sr_subject r"
  "sr_kind (resolve_fact d ix au l f r) = sr_kind r"
  by (simp_all add: resolve_fact_def accept_fact_def split: option.splits)

lemma resolve_fact_inadmissible:
  assumes "\<not> admissible_fact d ix au l f" "valid_evidence_kind (ef_kind f)"
  shows "sr_state r = SS_RESOLVED \<Longrightarrow> resolve_fact d ix au l f r = r"
    and "sr_state r \<noteq> SS_RESOLVED \<Longrightarrow> sr_state (resolve_fact d ix au l f r) \<noteq> SS_RESOLVED"
  using assms
  by (auto simp: resolve_fact_def admissible_fact_def downgrade_unresolved split: option.splits)

lemma resolve_fact_admissible:
  assumes "admissible_fact d ix au l f"
  shows "resolve_fact d ix au l f r =
    (if sr_state r = SS_RESOLVED then
       (if ef_sequence f > sr_sequence r then accept_fact f r
        else if ef_sequence f = sr_sequence r then
          (if ef_value f \<noteq> sr_value r then r\<lparr>sr_state := SS_CONFLICT\<rparr>
           else r\<lparr>sr_sources := sr_sources r + 1\<rparr>)
        else r)
     else accept_fact f r)"
  using assms by (auto simp: resolve_fact_def admissible_fact_def)

lemma resolve_fact_resolved:
  assumes "sr_state (resolve_fact d ix au l f r) = SS_RESOLVED" "valid_evidence_kind (ef_kind f)"
  shows "admissible_fact d ix au l f \<and> rests_on f (resolve_fact d ix au l f r) \<or>
    sr_state r = SS_RESOLVED \<and> sr_value (resolve_fact d ix au l f r) = sr_value r \<and>
    sr_generation (resolve_fact d ix au l f r) = sr_generation r \<and>
    sr_sequence (resolve_fact d ix au l f r) = sr_sequence r"
proof (cases "admissible_fact d ix au l f")
  case True
  with assms(1) show ?thesis
    by (auto simp: resolve_fact_admissible accept_fact_def rests_on_def split: if_splits)
next
  case False
  with assms resolve_fact_inadmissible[OF False assms(2), of r] show ?thesis by metis
qed

definition entry_or_fresh :: "evidence_fact \<Rightarrow> resolution_table \<Rightarrow> subject_resolution" where
  "entry_or_fresh f table =
     (case map_of table (fact_key f) of None \<Rightarrow> fresh_resolution f | Some r \<Rightarrow> r)"

lemma ingest_lookup:
  assumes "sorted_wrt evidence_key_less (map fst table)"
  shows "map_of (ingest d ix au l f table) =
    (if valid_evidence_kind (ef_kind f)
     then (map_of table)(fact_key f \<mapsto> resolve_fact d ix au l f (entry_or_fresh f table))
     else map_of table)"
    and "sorted_wrt evidence_key_less (map fst (ingest d ix au l f table))"
  using assms
  by (simp_all add: ingest_def Let_def entry_or_fresh_def evidence_keys.lookup_put evidence_keys.ordered_put)

definition entry_ok ::
  "fabric_definition \<Rightarrow> indexer \<Rightarrow> authority_vector \<Rightarrow> model_limits \<Rightarrow> evidence_fact list \<Rightarrow>
   evidence_key \<Rightarrow> subject_resolution \<Rightarrow> bool" where
  "entry_ok d ix au l facts k r \<longleftrightarrow> (sr_kind r, sr_subject r) = k \<and>
     (sr_state r = SS_RESOLVED \<longrightarrow>
        (\<exists>f\<in>set facts. fact_key f = k \<and> admissible_fact d ix au l f \<and> rests_on f r))"

definition table_ok ::
  "fabric_definition \<Rightarrow> indexer \<Rightarrow> authority_vector \<Rightarrow> model_limits \<Rightarrow> evidence_fact list \<Rightarrow>
   resolution_table \<Rightarrow> bool" where
  "table_ok d ix au l facts table \<longleftrightarrow> sorted_wrt evidence_key_less (map fst table) \<and>
     (\<forall>k r. map_of table k = Some r \<longrightarrow> entry_ok d ix au l facts k r)"

lemma entry_ok_mono: "entry_ok d ix au l facts k r \<Longrightarrow> entry_ok d ix au l (facts @ fs) k r"
  by (auto simp: entry_ok_def)

lemma table_ok_entry:
  "table_ok d ix au l facts table \<Longrightarrow> entry_ok d ix au l facts (fact_key f) (entry_or_fresh f table)"
  by (cases "map_of table (fact_key f)")
    (simp_all add: table_ok_def entry_or_fresh_def entry_ok_def fresh_resolution_def fact_key_def)

lemma entry_ok_resolve:
  assumes e: "entry_ok d ix au l facts (fact_key f) r" and v: "valid_evidence_kind (ef_kind f)"
  shows "entry_ok d ix au l (facts @ [f]) (fact_key f) (resolve_fact d ix au l f r)"
  unfolding entry_ok_def
proof (intro conjI impI)
  assume "sr_state (resolve_fact d ix au l f r) = SS_RESOLVED"
  from resolve_fact_resolved[OF this v] e
  show "\<exists>f'\<in>set (facts @ [f]). fact_key f' = fact_key f \<and> admissible_fact d ix au l f' \<and>
      rests_on f' (resolve_fact d ix au l f r)"
    by (auto simp: entry_ok_def rests_on_def)
qed (use e in \<open>simp add: entry_ok_def\<close>)

lemma ingest_table_ok:
  assumes t: "table_ok d ix au l facts table"
  shows "table_ok d ix au l (facts @ [f]) (ingest d ix au l f table)"
proof (cases "valid_evidence_kind (ef_kind f)")
  case False
  with t show ?thesis by (auto simp: table_ok_def ingest_def intro: entry_ok_mono)
next
  case True
  have o: "sorted_wrt evidence_key_less (map fst table)" using t by (simp add: table_ok_def)
  show ?thesis unfolding table_ok_def
  proof (intro conjI allI impI)
    fix k r assume r: "map_of (ingest d ix au l f table) k = Some r"
    show "entry_ok d ix au l (facts @ [f]) k r"
    proof (cases "k = fact_key f")
      case eq: True
      with r True have "r = resolve_fact d ix au l f (entry_or_fresh f table)"
        by (simp add: ingest_lookup[OF o])
      with eq entry_ok_resolve[OF table_ok_entry[OF t] True] show ?thesis by simp
    next
      case False
      with r True have "map_of table k = Some r" by (simp add: ingest_lookup[OF o])
      with t show ?thesis unfolding table_ok_def by (blast intro: entry_ok_mono)
    qed
  qed (simp add: ingest_lookup[OF o])
qed

lemma reconcile_snoc:
  "reconcile d ix au l (facts @ [f]) = ingest d ix au l f (reconcile d ix au l facts)"
  by (simp add: reconcile_def)

lemma reconcile_table_ok: "table_ok d ix au l facts (reconcile d ix au l facts)"
proof (induction facts rule: rev_induct)
  case Nil
  show ?case by (simp add: table_ok_def reconcile_def)
next
  case (snoc f facts)
  then show ?case by (simp add: reconcile_snoc ingest_table_ok)
qed

text \<open>Without contradiction between admissible facts of equal sequence, the entry of a subject is
  the admissible fact of highest sequence.\<close>

definition consistent_facts ::
  "fabric_definition \<Rightarrow> indexer \<Rightarrow> authority_vector \<Rightarrow> model_limits \<Rightarrow> evidence_fact list \<Rightarrow> evidence_key \<Rightarrow> bool" where
  "consistent_facts d ix au l facts k \<longleftrightarrow>
     (\<forall>f\<in>set facts. \<forall>g\<in>set facts. fact_key f = k \<longrightarrow> fact_key g = k \<longrightarrow> admissible_fact d ix au l f \<longrightarrow>
        admissible_fact d ix au l g \<longrightarrow> ef_sequence f = ef_sequence g \<longrightarrow> ef_value f = ef_value g)"

definition newest_entry ::
  "fabric_definition \<Rightarrow> indexer \<Rightarrow> authority_vector \<Rightarrow> model_limits \<Rightarrow> evidence_fact list \<Rightarrow> evidence_key \<Rightarrow>
   resolution_table \<Rightarrow> bool" where
  "newest_entry d ix au l facts k table \<longleftrightarrow>
     (\<forall>f\<in>set facts. fact_key f = k \<longrightarrow> admissible_fact d ix au l f \<longrightarrow>
        (\<exists>r. map_of table k = Some r \<and> sr_state r = SS_RESOLVED \<and> ef_sequence f \<le> sr_sequence r \<and>
           (ef_sequence f = sr_sequence r \<longrightarrow> ef_value f = sr_value r)))"

lemma newest_ingest:
  assumes t: "table_ok d ix au l facts table" and n: "newest_entry d ix au l facts k table"
    and c: "consistent_facts d ix au l (facts @ [f]) k"
  shows "newest_entry d ix au l (facts @ [f]) k (ingest d ix au l f table)"
proof (cases "valid_evidence_kind (ef_kind f) \<and> fact_key f = k")
  case False
  have o: "sorted_wrt evidence_key_less (map fst table)" using t by (simp add: table_ok_def)
  have "map_of (ingest d ix au l f table) k = map_of table k"
    using False by (auto simp: ingest_lookup[OF o])
  with False n show ?thesis by (auto simp: newest_entry_def admissible_fact_def)
next
  case True
  let ?e = "entry_or_fresh f table" and ?r = "resolve_fact d ix au l f (entry_or_fresh f table)"
  have o: "sorted_wrt evidence_key_less (map fst table)" using t by (simp add: table_ok_def)
  have lookup: "map_of (ingest d ix au l f table) k = Some ?r" using True by (simp add: ingest_lookup[OF o])
  have old: "sr_state ?e = SS_RESOLVED \<and> ef_sequence g \<le> sr_sequence ?e \<and>
      (ef_sequence g = sr_sequence ?e \<longrightarrow> ef_value g = sr_value ?e)"
    if "g \<in> set facts" "fact_key g = k" "admissible_fact d ix au l g" for g
    using n that True by (auto simp: newest_entry_def entry_or_fresh_def)
  have agree: "ef_value f = sr_value ?e"
    if "sr_state ?e = SS_RESOLVED" "admissible_fact d ix au l f" "ef_sequence f = sr_sequence ?e"
  proof -
    note res = that(1)
    obtain g where g: "g \<in> set facts" "fact_key g = k" "admissible_fact d ix au l g" "rests_on g ?e"
      using table_ok_entry[OF t, of f] res True by (auto simp: entry_ok_def)
    have "ef_value f = ef_value g"
      by (rule c[unfolded consistent_facts_def, rule_format])
        (use g True that in \<open>simp_all add: rests_on_def\<close>)
    with g(4) show ?thesis by (simp add: rests_on_def)
  qed
  have new: "sr_state ?r = SS_RESOLVED \<and> ef_sequence g \<le> sr_sequence ?r \<and>
      (ef_sequence g = sr_sequence ?r \<longrightarrow> ef_value g = sr_value ?r)"
    if g: "g \<in> set (facts @ [f])" "fact_key g = k" "admissible_fact d ix au l g" for g
  proof (cases "admissible_fact d ix au l f")
    case f: True
    note R = resolve_fact_admissible[OF f, of ?e]
    have same: "ef_sequence g = ef_sequence f \<Longrightarrow> ef_value g = ef_value f"
      by (rule c[unfolded consistent_facts_def, rule_format]) (use g f True in simp_all)
    consider "g = f" | "g \<in> set facts" using g(1) by auto
    then show ?thesis
    proof cases
      case 1
      then show ?thesis using agree f
        by (cases "sr_state ?e = SS_RESOLVED"; cases "ef_sequence f" "sr_sequence ?e" rule: linorder_cases)
          (auto simp: R accept_fact_def)
    next
      case 2
      note O = old[OF 2 g(2,3)]
      show ?thesis
        using O agree f same
        by (cases "ef_sequence f" "sr_sequence ?e" rule: linorder_cases) (auto simp: R accept_fact_def)
    qed
  next
    case False
    with g have "g \<in> set facts" by auto
    note O = old[OF this g(2,3)]
    have "?r = ?e" using O resolve_fact_inadmissible(1)[OF False, of ?e] True by simp
    with O show ?thesis by simp
  qed
  with lookup show ?thesis by (simp add: newest_entry_def)
qed

lemma consistent_facts_prefix:
  "consistent_facts d ix au l (facts @ [f]) k \<Longrightarrow> consistent_facts d ix au l facts k"
  unfolding consistent_facts_def set_append by blast

lemma reconcile_newest:
  "consistent_facts d ix au l facts k \<Longrightarrow> newest_entry d ix au l facts k (reconcile d ix au l facts)"
proof (induction facts rule: rev_induct)
  case Nil
  show ?case by (simp add: newest_entry_def)
next
  case (snoc f facts)
  from newest_ingest[OF reconcile_table_ok snoc.IH[OF consistent_facts_prefix[OF snoc.prems]] snoc.prems]
  show ?case by (simp add: reconcile_snoc)
qed

section \<open>What a known value of the initial state rests on\<close>

definition resolved_at ::
  "indexer \<Rightarrow> resolution_table \<Rightarrow> evidence_kind \<Rightarrow> nat \<Rightarrow> (u64 \<Rightarrow> bool) \<Rightarrow> bool" where
  "resolved_at ix table k i P \<longleftrightarrow> (\<exists>e\<in>set table. sr_state (snd e) = SS_RESOLVED \<and>
     sr_kind (snd e) = k \<and> subject_index ix (sr_subject (snd e)) = Some i \<and> P (sr_value (snd e)))"

lemma resolved_at_snoc [simp]:
  "resolved_at ix (table @ [e]) k i P \<longleftrightarrow> resolved_at ix table k i P \<or>
     sr_state (snd e) = SS_RESOLVED \<and> sr_kind (snd e) = k \<and>
     subject_index ix (sr_subject (snd e)) = Some i \<and> P (sr_value (snd e))"
  by (auto simp: resolved_at_def)

lemma materialise_snoc:
  "materialise_state d ix (table @ [e]) = materialise_entry ix (snd e) (materialise_state d ix table)"
  by (simp add: materialise_state_def)

lemma nth_update_known:
  "(xs[j := v]) ! i \<noteq> (0 :: u8) \<Longrightarrow> i < length xs \<Longrightarrow> i = j \<or> xs ! i \<noteq> 0"
  by (cases "i = j") auto

lemma materialise_lengths [simp]:
  "length (link_known (materialise_state d ix table)) = length (df_links d)"
  "length (link_operational (materialise_state d ix table)) = length (df_links d)"
  "length (node_known (materialise_state d ix table)) = length (df_nodes d)"
  "length (node_operational (materialise_state d ix table)) = length (df_nodes d)"
  "length (service_known (materialise_state d ix table)) = length (df_services d)"
  "length (service_reachable (materialise_state d ix table)) = length (df_services d)"
  "length (resource_known (materialise_state d ix table)) = length (df_resources d)"
  "length (resource_restored (materialise_state d ix table)) = length (df_resources d)"
  "length (resource_available (materialise_state d ix table)) = length (df_resources d)"
  by (induction table rule: rev_induct)
    (simp_all add: materialise_snoc, simp_all add: materialise_state_def blank_state_def
      materialise_entry_def split: option.split evidence_kind.split)

lemma materialise_untouched [simp]:
  "action_occurrences (materialise_state d ix table) = replicate (length (df_actions d)) 0"
  "fs_tick (materialise_state d ix table) = 0"
  by (induction table rule: rev_induct)
    (simp_all add: materialise_snoc, simp_all add: materialise_state_def blank_state_def
      materialise_entry_def split: option.split evidence_kind.split)

lemma known_link:
  "i < length (df_links d) \<Longrightarrow> link_known (materialise_state d ix table) ! i \<noteq> 0 \<Longrightarrow>
   resolved_at ix table EK_LINK_OPERATIONAL i
     (\<lambda>v. link_operational (materialise_state d ix table) ! i = flag (v \<noteq> 0))"
proof (induction table rule: rev_induct)
  case Nil
  then show ?case by (simp add: materialise_state_def blank_state_def)
next
  case (snoc e table)
  then show ?case
    by (cases "sr_kind (snd e)"; cases "subject_index ix (sr_subject (snd e)) = Some i")
      (auto simp: materialise_snoc materialise_entry_def nth_list_update split: option.splits if_splits
        dest!: nth_update_known)
qed

lemma known_node:
  "i < length (df_nodes d) \<Longrightarrow> node_known (materialise_state d ix table) ! i \<noteq> 0 \<Longrightarrow>
   resolved_at ix table EK_NODE_OPERATIONAL i
     (\<lambda>v. node_operational (materialise_state d ix table) ! i = flag (v \<noteq> 0))"
proof (induction table rule: rev_induct)
  case Nil
  then show ?case by (simp add: materialise_state_def blank_state_def)
next
  case (snoc e table)
  then show ?case
    by (cases "sr_kind (snd e)"; cases "subject_index ix (sr_subject (snd e)) = Some i")
      (auto simp: materialise_snoc materialise_entry_def nth_list_update split: option.splits if_splits
        dest!: nth_update_known)
qed

lemma known_service:
  "i < length (df_services d) \<Longrightarrow> service_known (materialise_state d ix table) ! i \<noteq> 0 \<Longrightarrow>
   resolved_at ix table EK_SERVICE_REACHABLE_ENDPOINTS i
     (\<lambda>v. service_reachable (materialise_state d ix table) ! i = ucast v)"
proof (induction table rule: rev_induct)
  case Nil
  then show ?case by (simp add: materialise_state_def blank_state_def)
next
  case (snoc e table)
  then show ?case
    by (cases "sr_kind (snd e)"; cases "subject_index ix (sr_subject (snd e)) = Some i")
      (auto simp: materialise_snoc materialise_entry_def nth_list_update split: option.splits if_splits
        dest!: nth_update_known)
qed

lemma resolved_fact:
  assumes t: "table_ok d ix au l facts table" and r: "resolved_at ix table k i P"
  obtains f where "f \<in> set facts" "ef_kind f = k" "admissible_fact d ix au l f"
    "subject_index ix (ef_subject f) = Some i" "P (ef_value f)"
proof -
  obtain key r where e: "(key, r) \<in> set table" and res: "sr_state r = SS_RESOLVED" "sr_kind r = k"
    "subject_index ix (sr_subject r) = Some i" "P (sr_value r)" using r by (auto simp: resolved_at_def)
  have "map_of table key = Some r"
    using e t evidence_keys.ordered_lookup_iff by (fastforce simp: table_ok_def)
  then have "entry_ok d ix au l facts key r" using t unfolding table_ok_def by blast
  with res that show thesis by (auto simp: entry_ok_def rests_on_def fact_key_def)
qed

section \<open>A sample fabric\<close>

text \<open>Two nodes, a link that is down, a reusable crew resource and one action that restores the
  link. The witnesses below and in the other theories evaluate the model on it.\<close>

definition sample_action :: action_spec where
  "sample_action = \<lparr>ac_id = 7, ac_name = ''restore'', ac_kind = AK_RESTORE,
     ac_reversibility = RV_IRREVERSIBLE, ac_compensation = 0, ac_blast_radius = 1, ac_disruption = 2,
     ac_cost_units = 3, ac_duration_ticks = 4, ac_max_occurrences = 1,
     ac_required_domain = AD_RECOVERY_ADMISSION, ac_required_level = AL_RECOMMENDATION,
     ac_preconditions =
       [\<lparr>pc_kind = PK_LINK_NOT_OPERATIONAL, pc_subject = Subject SK_LINK 5, pc_value = 0\<rparr>],
     ac_effects =
       [\<lparr>fx_kind = FK_SET_LINK_OPERATIONAL, fx_subject = Subject SK_LINK 5, fx_value = 1\<rparr>],
     ac_resource_uses = [\<lparr>ru_resource = 6, ru_units = 1\<rparr>], ac_dependencies = [],
     ac_exclusion_groups = []\<rparr>"

definition sample_definition :: fabric_definition where
  "sample_definition = \<lparr>
     df_nodes = [\<lparr>nd_id = 1, nd_protected = False\<rparr>, \<lparr>nd_id = 2, nd_protected = False\<rparr>],
     df_links = [\<lparr>lk_id = 5, lk_endpoint_a = 1, lk_endpoint_b = 2\<rparr>], df_services = [],
     df_resources = [\<lparr>rs_id = 6, rs_kind = RK_REUSABLE, rs_capacity = 2, rs_hold_steps = 3\<rparr>],
     df_actions = [sample_action],
     df_goals = [\<lparr>gl_kind = GK_LINK_OPERATIONAL, gl_subject = Subject SK_LINK 5, gl_value = 1,
                  gl_weight = 1\<rparr>],
     df_exclusion_groups = []\<rparr>"

definition sample_binding :: "authority_domain \<Rightarrow> authority_binding" where
  "sample_binding ad = \<lparr>ab_domain = ad, ab_authority = 9, ab_required = 3, ab_granted = 3,
     ab_level = AL_RECOMMENDATION\<rparr>"

definition sample_authority :: authority_vector where
  "sample_authority = \<lparr>av_epoch = 1, av_boot = 1, av_bindings = map sample_binding
     [AD_FABRIC_STATE, AD_RECOVERY_ADMISSION, AD_POLICY, AD_EVIDENCE_INGEST]\<rparr>"

text \<open>An observation of the link by one source.\<close>

definition link_fact :: "strong_id \<Rightarrow> seqno \<Rightarrow> u64 \<Rightarrow> evidence_fact" where
  "link_fact source sq v = \<lparr>ef_id = 0, ef_kind = EK_LINK_OPERATIONAL,
     ef_subject = Subject SK_LINK 5, ef_value = v, ef_generation = 3,
     ef_source_domain = AD_FABRIC_STATE, ef_source = source, ef_label = TL_REAL, ef_sequence = sq\<rparr>"

definition link_resolution :: "seqno \<Rightarrow> u64 \<Rightarrow> subject_resolution" where
  "link_resolution sq v = \<lparr>sr_subject = Subject SK_LINK 5, sr_kind = EK_LINK_OPERATIONAL,
     sr_state = SS_RESOLVED, sr_value = v, sr_generation = 3, sr_sequence = sq, sr_sources = 1\<rparr>"

lemma sample_indexer: "build_indexer sample_definition = \<lparr>ix_node_ids = [1, 2], ix_link_ids = [5],
    ix_service_ids = [], ix_resource_ids = [6], ix_action_ids = [7]\<rparr>"
  by (simp add: build_indexer_def sample_definition_def sample_action_def)

lemma sample_link_index: "subject_index (build_indexer sample_definition) (Subject SK_LINK 5) = Some 0"
  by (simp add: sample_indexer index_of_def lower_bound_def)

lemma sample_binding_found:
  "find_binding sample_authority AD_FABRIC_STATE = Some (sample_binding AD_FABRIC_STATE)"
  by (simp add: find_binding_def sample_authority_def sample_binding_def)

lemma link_fact_admissible:
  "v \<le> 1 \<Longrightarrow> admissible_fact d (build_indexer sample_definition) sample_authority
     default_model_limits (link_fact source sq v)"
  by (simp add: admissible_fact_def link_fact_def valid_evidence_kind_def sample_link_index
      sample_binding_found value_in_domain_def index_of_def lower_bound_def sample_indexer)
    (simp add: sample_binding_def)

lemma fresh_not_resolved: "sr_state (fresh_resolution f) = SS_MISSING"
  by (simp add: fresh_resolution_def)

lemma sample_reconcile:
  "v \<le> 1 \<Longrightarrow> reconcile d (build_indexer sample_definition) sample_authority
     default_model_limits [link_fact source sq v] =
     [((EK_LINK_OPERATIONAL, Subject SK_LINK 5), link_resolution sq v)]"
  by (simp add: reconcile_def ingest_def resolve_fact_admissible[OF link_fact_admissible]
      fresh_not_resolved)
    (simp add: fresh_resolution_def accept_fact_def link_fact_def link_resolution_def fact_key_def
      valid_evidence_kind_def)

section \<open>Properties\<close>

text \<open>C18. Reconciliation fails closed: an entry of the table is RESOLVED only when an admissible
  fact (right subject kind and domain, known subject, trusted label, value in its domain, exactly
  the granted generation) carries the value, generation and sequence of the entry.\<close>

theorem reconcile_fail_closed:
  assumes "map_of (reconcile d ix au l facts) k = Some r" "sr_state r = SS_RESOLVED"
  shows "\<exists>f\<in>set facts. fact_key f = k \<and> admissible_fact d ix au l f \<and> rests_on f r"
proof -
  have "entry_ok d ix au l facts k r"
    using assms(1) reconcile_table_ok[of d ix au l facts] unfolding table_ok_def by blast
  with assms(2) show ?thesis by (simp add: entry_ok_def)
qed

theorem reconcile_fail_closed_witness:
  "\<exists>f\<in>set [link_fact 4 1 0]. fact_key f = (EK_LINK_OPERATIONAL, Subject SK_LINK 5) \<and>
     admissible_fact sample_definition (build_indexer sample_definition) sample_authority
       default_model_limits f \<and> rests_on f (link_resolution 1 0)"
  by (rule reconcile_fail_closed) (simp_all add: sample_reconcile link_resolution_def)

text \<open>When no two admissible facts of a subject contradict each other at the same sequence,
  every admissible fact is represented: the entry is RESOLVED at a sequence at least as high, and
  carries the fact's value if the sequence is the fact's own. Older observations never win.\<close>

theorem reconcile_newest_wins:
  assumes "consistent_facts d ix au l facts (fact_key f)" "f \<in> set facts" "admissible_fact d ix au l f"
  shows "\<exists>r. map_of (reconcile d ix au l facts) (fact_key f) = Some r \<and> sr_state r = SS_RESOLVED \<and>
    ef_sequence f \<le> sr_sequence r \<and> (ef_sequence f = sr_sequence r \<longrightarrow> ef_value f = sr_value r)"
  using reconcile_newest[OF assms(1)] assms(2,3) by (simp add: newest_entry_def)

theorem reconcile_newest_wins_witness:
  "\<exists>r. map_of (reconcile sample_definition (build_indexer sample_definition) sample_authority
      default_model_limits [link_fact 4 1 0, link_fact 4 2 1]) (fact_key (link_fact 4 2 1)) = Some r \<and>
    sr_state r = SS_RESOLVED \<and> ef_sequence (link_fact 4 2 1) \<le> sr_sequence r \<and>
    (ef_sequence (link_fact 4 2 1) = sr_sequence r \<longrightarrow> ef_value (link_fact 4 2 1) = sr_value r)"
  by (rule reconcile_newest_wins)
    (simp_all add: link_fact_admissible, simp add: consistent_facts_def link_fact_def)

text \<open>C19. A conflict is not sticky: after two admissible facts of the same sequence disagree, any
  third admissible fact of the subject, of whatever sequence, resolves the entry to its own
  value.\<close>

theorem conflict_reopened:
  assumes f: "admissible_fact d ix au l f" "admissible_fact d ix au l g" "admissible_fact d ix au l h"
    and keys: "fact_key g = fact_key f" "fact_key h = fact_key f"
    and conflict: "ef_sequence g = ef_sequence f" "ef_value g \<noteq> ef_value f"
  shows "\<exists>r. map_of (reconcile d ix au l [f, g, h]) (fact_key f) = Some r \<and>
    sr_state r = SS_RESOLVED \<and> rests_on h r"
proof -
  let ?r1 = "accept_fact f (fresh_resolution f)"
  have v: "valid_evidence_kind (ef_kind x)" if "admissible_fact d ix au l x" for x
    using that by (simp add: admissible_fact_def)
  have one: "ingest d ix au l f [] = [(fact_key f, ?r1)]"
    by (simp add: ingest_def v f resolve_fact_admissible fresh_not_resolved)
  have irr: "\<not> evidence_key_less (fact_key f) (fact_key f)" by (rule evidence_keys.less_irrefl)
  have two: "ingest d ix au l g [(fact_key f, ?r1)] = [(fact_key f, ?r1\<lparr>sr_state := SS_CONFLICT\<rparr>)]"
    using conflict by (simp add: ingest_def v f keys irr resolve_fact_admissible accept_fact_def)
  have "map_of (ingest d ix au l h [(fact_key f, ?r1\<lparr>sr_state := SS_CONFLICT\<rparr>)]) (fact_key f) =
      Some (accept_fact h (?r1\<lparr>sr_state := SS_CONFLICT\<rparr>))"
    by (simp add: ingest_def v f keys irr resolve_fact_admissible)
  then show ?thesis by (simp add: reconcile_def one two) (simp add: accept_fact_def rests_on_def)
qed

theorem conflict_reopened_witness:
  "\<exists>r. map_of (reconcile sample_definition (build_indexer sample_definition) sample_authority
      default_model_limits [link_fact 1 5 0, link_fact 2 5 1, link_fact 3 4 1])
      (fact_key (link_fact 1 5 0)) = Some r \<and>
    sr_state r = SS_RESOLVED \<and> rests_on (link_fact 3 4 1) r"
  by (rule conflict_reopened) (simp_all add: link_fact_admissible, simp_all add: fact_key_def link_fact_def)

text \<open>The initial state knows the value of a link, a node or a service only when an admissible
  fact about that very subject establishes it, and then it holds the value of that fact.\<close>

theorem initial_state_grounded:
  fixes d ix au l facts
  defines "s \<equiv> materialise_state d ix (reconcile d ix au l facts)"
  shows "(\<forall>i<length (df_links d). link_known s ! i \<noteq> 0 \<longrightarrow>
      (\<exists>f\<in>set facts. ef_kind f = EK_LINK_OPERATIONAL \<and> admissible_fact d ix au l f \<and>
         subject_index ix (ef_subject f) = Some i \<and> link_operational s ! i = flag (ef_value f \<noteq> 0))) \<and>
    (\<forall>i<length (df_nodes d). node_known s ! i \<noteq> 0 \<longrightarrow>
      (\<exists>f\<in>set facts. ef_kind f = EK_NODE_OPERATIONAL \<and> admissible_fact d ix au l f \<and>
         subject_index ix (ef_subject f) = Some i \<and> node_operational s ! i = flag (ef_value f \<noteq> 0))) \<and>
    (\<forall>i<length (df_services d). service_known s ! i \<noteq> 0 \<longrightarrow>
      (\<exists>f\<in>set facts. ef_kind f = EK_SERVICE_REACHABLE_ENDPOINTS \<and> admissible_fact d ix au l f \<and>
         subject_index ix (ef_subject f) = Some i \<and> service_reachable s ! i = ucast (ef_value f)))"
proof (intro conjI allI impI)
  note T = resolved_fact[OF reconcile_table_ok]
  fix i
  { assume "i < length (df_links d)" "link_known s ! i \<noteq> 0"
    from known_link[OF this[unfolded s_def]] show "\<exists>f\<in>set facts. ef_kind f = EK_LINK_OPERATIONAL \<and>
        admissible_fact d ix au l f \<and> subject_index ix (ef_subject f) = Some i \<and>
        link_operational s ! i = flag (ef_value f \<noteq> 0)" unfolding s_def by (rule T) blast }
  { assume "i < length (df_nodes d)" "node_known s ! i \<noteq> 0"
    from known_node[OF this[unfolded s_def]] show "\<exists>f\<in>set facts. ef_kind f = EK_NODE_OPERATIONAL \<and>
        admissible_fact d ix au l f \<and> subject_index ix (ef_subject f) = Some i \<and>
        node_operational s ! i = flag (ef_value f \<noteq> 0)" unfolding s_def by (rule T) blast }
  { assume "i < length (df_services d)" "service_known s ! i \<noteq> 0"
    from known_service[OF this[unfolded s_def]]
    show "\<exists>f\<in>set facts. ef_kind f = EK_SERVICE_REACHABLE_ENDPOINTS \<and>
        admissible_fact d ix au l f \<and> subject_index ix (ef_subject f) = Some i \<and>
        service_reachable s ! i = ucast (ef_value f)" unfolding s_def by (rule T) blast }
qed

lemma sample_link_known:
  "link_known (materialise_state sample_definition (build_indexer sample_definition)
     [((EK_LINK_OPERATIONAL, Subject SK_LINK 5), link_resolution sq v)]) = [1]"
  by (simp add: materialise_state_def materialise_entry_def link_resolution_def sample_indexer
      index_of_def lower_bound_def blank_state_def) (simp add: sample_definition_def)

theorem initial_state_grounded_witness:
  "\<exists>f\<in>set [link_fact 4 1 0]. ef_kind f = EK_LINK_OPERATIONAL \<and>
     admissible_fact sample_definition (build_indexer sample_definition) sample_authority
       default_model_limits f \<and>
     subject_index (build_indexer sample_definition) (ef_subject f) = Some 0 \<and>
     link_operational (materialise_state sample_definition (build_indexer sample_definition)
       (reconcile sample_definition (build_indexer sample_definition) sample_authority
         default_model_limits [link_fact 4 1 0])) ! 0 = flag (ef_value f \<noteq> 0)"
proof -
  have "0 < length (df_links sample_definition)" by (simp add: sample_definition_def)
  moreover have "link_known (materialise_state sample_definition (build_indexer sample_definition)
      (reconcile sample_definition (build_indexer sample_definition) sample_authority
        default_model_limits [link_fact 4 1 0])) ! 0 \<noteq> 0"
    by (simp add: sample_reconcile sample_link_known)
  ultimately show ?thesis
    using initial_state_grounded[THEN conjunct1, rule_format] by blast
qed

end
