(* ===== verification/NRP_Transition.thy ===== *)
theory NRP_Transition
  imports NRP_Reconcile
begin

text \<open>
  One step of the plan search (\<open>src/planner.cpp\<close>: \<open>Compiled\<close>, \<open>incompleteness\<close>,
  \<open>floor_gap\<close>, \<open>Search::goals_satisfied\<close>, \<open>Search::precondition_holds\<close>, \<open>Search::apply\<close>).
  \<open>apply_action\<close> returns \<open>Inl\<close> with the reason fields when \<open>admissible\<close> stays false and \<open>Inr\<close>
  with the successor otherwise; each early return of the code is a branch. Positions in vectors
  are natural numbers; \<open>cast_index\<close> is the \<open>static_cast<std::uint32_t>\<close> of one.
\<close>

section \<open>Compiled view\<close>

definition cast_index :: "nat option \<Rightarrow> nat" where
  "cast_index i = (case i of None \<Rightarrow> 2 ^ 32 - 1 | Some n \<Rightarrow> n mod 2 ^ 32)"

record compiled =
  cp_dependency_indices :: "nat list list"
  cp_group_indices :: "nat list list"
  cp_resource_indices :: "nat list list"
  cp_group_members :: "nat list list"
  cp_absolute_step_bound :: u64
  cp_occurrence_bound_overflows :: bool

definition add_occurrence_bound :: "action_spec \<Rightarrow> u64 \<times> bool \<Rightarrow> u64 \<times> bool" where
  "add_occurrence_bound a acc =
     (case add_overflow (fst acc) (ucast (ac_max_occurrences a)) of
        None \<Rightarrow> (fst acc, True)
      | Some s \<Rightarrow> (s, snd acc))"

definition group_positions :: "fabric_definition \<Rightarrow> action_spec \<Rightarrow> nat list" where
  "group_positions d a =
     List.map_filter (\<lambda>g. find_index (\<lambda>x. xg_id x = g) (df_exclusion_groups d))
       (ac_exclusion_groups a)"

definition build_compiled :: "fabric_definition \<Rightarrow> indexer \<Rightarrow> compiled" where
  "build_compiled d ix = \<lparr>
     cp_dependency_indices = map (\<lambda>a. map (\<lambda>p. cast_index (index_of (dp_predecessor p)
       (ix_action_ids ix))) (ac_dependencies a)) (df_actions d),
     cp_group_indices = map (\<lambda>a. map (\<lambda>g. cast_index (Some g)) (group_positions d a)) (df_actions d),
     cp_resource_indices = map (\<lambda>a. map (\<lambda>u. cast_index (index_of (ru_resource u)
       (ix_resource_ids ix))) (ac_resource_uses a)) (df_actions d),
     cp_group_members = map (\<lambda>g. concat (map (\<lambda>i.
         replicate (count_list (group_positions d (df_actions d ! i)) g) (cast_index (Some i)))
         [0..<length (df_actions d)])) [0..<length (df_exclusion_groups d)],
     cp_absolute_step_bound = fst (fold add_occurrence_bound (df_actions d) (0, False)),
     cp_occurrence_bound_overflows = snd (fold add_occurrence_bound (df_actions d) (0, False))\<rparr>"

section \<open>State dependent objective components\<close>

definition incompleteness :: "fabric_definition \<Rightarrow> fabric_state \<Rightarrow> u64" where
  "incompleteness d s = fold (\<lambda>i total.
     let v = df_services d ! i in
     if sv_target v = 0 then total
     else if service_known s ! i = 0 then total + ucast (sv_target v)
     else if service_reachable s ! i < sv_target v
       then total + ucast (sv_target v - service_reachable s ! i)
     else total) [0..<length (df_services d)] 0"

definition floor_gap :: "fabric_definition \<Rightarrow> fabric_state \<Rightarrow> u64" where
  "floor_gap d s = fold (\<lambda>i total.
     let v = df_services d ! i in
     if sv_required v = 0 then total
     else if service_known s ! i = 0 then total + ucast (sv_required v)
     else if service_reachable s ! i < sv_required v
       then total + ucast (sv_required v - service_reachable s ! i)
     else total) [0..<length (df_services d)] 0"

section \<open>Transition and node\<close>

text \<open>The constant members of \<open>class Search\<close>.\<close>

record search_env =
  se_definition :: fabric_definition
  se_indexer :: indexer
  se_compiled :: compiled
  se_policy :: plan_policy
  se_resolutions :: resolution_table

text \<open>\<open>struct Transition\<close>: the fields read when a step is refused, and those of an admissible one.\<close>

record block =
  bk_unknown :: bool
  bk_policy :: bool
  bk_safety :: bool
  bk_reason :: reason_code
  bk_subject :: subject

record transition =
  tr_state :: fabric_state
  tr_holds :: "resource_hold list"
  tr_delta :: objective
  tr_bindings :: "evidence_binding list"
  tr_occurrence :: u32
  tr_start_tick :: u64
  tr_end_tick :: u64

text \<open>\<open>kNoParent\<close> is \<open>None\<close>.\<close>

record search_node =
  sn_state :: fabric_state
  sn_holds :: "resource_hold list"
  sn_parent :: "nat option"
  sn_action_index :: nat
  sn_depth :: u32
  sn_incompleteness :: u64
  sn_objective :: objective

definition blocked :: "reason_code \<Rightarrow> block" where
  "blocked r = \<lparr>bk_unknown = False, bk_policy = False, bk_safety = False, bk_reason = r,
     bk_subject = no_subject\<rparr>"

definition blocked_unknown :: "reason_code \<Rightarrow> subject \<Rightarrow> block" where
  "blocked_unknown r s = (blocked r)\<lparr>bk_unknown := True, bk_subject := s\<rparr>"

definition blocked_safety :: block where
  "blocked_safety = (blocked RC_VALIDATION_SAFETY_VIOLATION)\<lparr>bk_safety := True\<rparr>"

definition blocked_policy :: block where
  "blocked_policy = (blocked RC_REQUEST_POLICY_RESTRICTED_ACTION)\<lparr>bk_policy := True\<rparr>"

section \<open>Goals and preconditions\<close>

definition goal_holds :: "indexer \<Rightarrow> fabric_state \<Rightarrow> goal_spec \<Rightarrow> bool" where
  "goal_holds ix s g = (case subject_index ix (gl_subject g) of
       None \<Rightarrow> False
     | Some i \<Rightarrow> (case gl_kind g of
          GK_LINK_OPERATIONAL \<Rightarrow> link_known s ! i \<noteq> 0 \<and> link_operational s ! i \<noteq> 0
        | GK_NODE_OPERATIONAL \<Rightarrow> node_known s ! i \<noteq> 0 \<and> node_operational s ! i \<noteq> 0
        | GK_RESOURCE_RESTORED \<Rightarrow> resource_known s ! i \<noteq> 0 \<and> resource_restored s ! i \<noteq> 0
        | GK_SERVICE_REACHABLE_AT_LEAST \<Rightarrow>
            service_known s ! i \<noteq> 0 \<and> ucast (service_reachable s ! i) \<ge> gl_value g
        | GK_COUNT \<Rightarrow> False))"

definition goals_satisfied :: "search_env \<Rightarrow> fabric_state \<Rightarrow> bool" where
  "goals_satisfied e s = list_all (goal_holds (se_indexer e) s) (df_goals (se_definition e))"

text \<open>\<open>precondition_holds\<close>: the verdict and the \<open>known\<close> out-parameter.\<close>

definition precondition_holds :: "indexer \<Rightarrow> fabric_state \<Rightarrow> precondition \<Rightarrow> bool \<times> bool" where
  "precondition_holds ix s p = (case subject_index ix (pc_subject p) of
       None \<Rightarrow> (False, False)
     | Some i \<Rightarrow> (case pc_kind p of
          PK_LINK_OPERATIONAL \<Rightarrow>
            (link_known s ! i \<noteq> 0 \<and> link_operational s ! i \<noteq> 0, link_known s ! i \<noteq> 0)
        | PK_LINK_NOT_OPERATIONAL \<Rightarrow>
            (link_known s ! i \<noteq> 0 \<and> link_operational s ! i = 0, link_known s ! i \<noteq> 0)
        | PK_NODE_OPERATIONAL \<Rightarrow>
            (node_known s ! i \<noteq> 0 \<and> node_operational s ! i \<noteq> 0, node_known s ! i \<noteq> 0)
        | PK_NODE_NOT_OPERATIONAL \<Rightarrow>
            (node_known s ! i \<noteq> 0 \<and> node_operational s ! i = 0, node_known s ! i \<noteq> 0)
        | PK_SERVICE_REACHABLE_AT_LEAST \<Rightarrow>
            (service_known s ! i \<noteq> 0 \<and> ucast (service_reachable s ! i) \<ge> pc_value p,
             service_known s ! i \<noteq> 0)
        | PK_SERVICE_REACHABLE_AT_MOST \<Rightarrow>
            (service_known s ! i \<noteq> 0 \<and> ucast (service_reachable s ! i) \<le> pc_value p,
             service_known s ! i \<noteq> 0)
        | PK_RESOURCE_AVAILABLE_AT_LEAST \<Rightarrow>
            (resource_known s ! i \<noteq> 0 \<and> ucast (resource_available s ! i) \<ge> pc_value p,
             resource_known s ! i \<noteq> 0)
        | PK_ACTION_EXECUTED_AT_LEAST \<Rightarrow> (ucast (action_occurrences s ! i) \<ge> pc_value p, True)
        | PK_COUNT \<Rightarrow> (False, False)))"

primrec evidence_kind_for_precondition :: "precondition_kind \<Rightarrow> evidence_kind" where
  "evidence_kind_for_precondition PK_LINK_OPERATIONAL = EK_LINK_OPERATIONAL"
| "evidence_kind_for_precondition PK_LINK_NOT_OPERATIONAL = EK_LINK_OPERATIONAL"
| "evidence_kind_for_precondition PK_NODE_OPERATIONAL = EK_NODE_OPERATIONAL"
| "evidence_kind_for_precondition PK_NODE_NOT_OPERATIONAL = EK_NODE_OPERATIONAL"
| "evidence_kind_for_precondition PK_SERVICE_REACHABLE_AT_LEAST = EK_SERVICE_REACHABLE_ENDPOINTS"
| "evidence_kind_for_precondition PK_SERVICE_REACHABLE_AT_MOST = EK_SERVICE_REACHABLE_ENDPOINTS"
| "evidence_kind_for_precondition PK_RESOURCE_AVAILABLE_AT_LEAST = EK_RESOURCE_AVAILABLE_UNITS"
| "evidence_kind_for_precondition PK_ACTION_EXECUTED_AT_LEAST = EK_COUNT"
| "evidence_kind_for_precondition PK_COUNT = EK_COUNT"

definition resolution_for :: "resolution_table \<Rightarrow> precondition \<Rightarrow> subject_resolution option" where
  "resolution_for table p =
     (let k = evidence_kind_for_precondition (pc_kind p) in
      if k = EK_COUNT then None else map_of table (k, pc_subject p))"

definition binding_of :: "subject_resolution \<Rightarrow> evidence_binding" where
  "binding_of r = \<lparr>bd_kind = sr_kind r, bd_subject = sr_subject r, bd_generation = sr_generation r\<rparr>"

text \<open>The binding a satisfied precondition contributes.\<close>

definition precondition_bindings :: "resolution_table \<Rightarrow> precondition \<Rightarrow> evidence_binding list" where
  "precondition_bindings table p =
     (if pc_kind p = PK_ACTION_EXECUTED_AT_LEAST then []
      else case resolution_for table p of
          None \<Rightarrow> []
        | Some r \<Rightarrow> if sr_state r = SS_RESOLVED then [binding_of r] else [])"

fun scan_preconditions ::
  "search_env \<Rightarrow> fabric_state \<Rightarrow> precondition list \<Rightarrow> evidence_binding list \<Rightarrow>
   block + evidence_binding list" where
  "scan_preconditions e s [] bindings = Inr bindings"
| "scan_preconditions e s (p # ps) bindings =
     (let (holds, known) = precondition_holds (se_indexer e) s p in
      if \<not> known then Inl (blocked_unknown RC_EVIDENCE_SUBJECT_MISSING (pc_subject p))
      else if \<not> holds then Inl (blocked RC_VALIDATION_PRECONDITION_UNMET)
      else scan_preconditions e s ps (bindings @ precondition_bindings (se_resolutions e) p))"

section \<open>The stages of a step\<close>

definition check_occurrence :: "search_env \<Rightarrow> fabric_state \<Rightarrow> nat \<Rightarrow> block option" where
  "check_occurrence e s i =
     guard (action_occurrences s ! i \<ge> ac_max_occurrences (df_actions (se_definition e) ! i))
       (blocked RC_VALIDATION_OCCURRENCE_EXCEEDED)"

definition check_dependencies :: "search_env \<Rightarrow> fabric_state \<Rightarrow> nat \<Rightarrow> block option" where
  "check_dependencies e s i =
     guard (list_ex (\<lambda>(dep, p). p \<ge> length (df_actions (se_definition e)) \<or>
              action_occurrences s ! p < dp_min_occurrences dep)
            (zip (ac_dependencies (df_actions (se_definition e) ! i))
                 (cp_dependency_indices (se_compiled e) ! i)))
       (blocked RC_VALIDATION_ORDERING_VIOLATION)"

definition selected_members :: "search_env \<Rightarrow> fabric_state \<Rightarrow> nat \<Rightarrow> u32" where
  "selected_members e s g =
     of_nat (length (filter (\<lambda>m. action_occurrences s ! m > 0) (cp_group_members (se_compiled e) ! g)))"

definition check_exclusion :: "search_env \<Rightarrow> fabric_state \<Rightarrow> nat \<Rightarrow> block option" where
  "check_exclusion e s i =
     (if action_occurrences s ! i = 0 then
        guard (list_ex (\<lambda>g. selected_members e s g \<ge>
                 xg_max_selected (df_exclusion_groups (se_definition e) ! g))
               (cp_group_indices (se_compiled e) ! i))
          (blocked RC_VALIDATION_EXCLUSION_VIOLATION)
      else None)"

text \<open>The units of one resource held by running steps.\<close>

definition held_units :: "resource_hold list \<Rightarrow> nat \<Rightarrow> u64" where
  "held_units holds ri =
     fold (\<lambda>h held. if unat (hd_resource_index h) = ri then held + ucast (hd_units h) else held)
       holds 0"

definition check_resource_use ::
  "search_env \<Rightarrow> fabric_state \<Rightarrow> resource_hold list \<Rightarrow> resource_use \<times> nat \<Rightarrow> block option" where
  "check_resource_use e s holds ur = (case ur of (use, ri) \<Rightarrow>
     (let res = df_resources (se_definition e) ! ri in
      if rs_kind res = RK_CONSUMABLE then
        (if resource_known s ! ri = 0
           then Some (blocked_unknown RC_NONE (Subject SK_RESOURCE (rs_id res)))
         else guard (resource_available s ! ri < ru_units use)
                (blocked RC_VALIDATION_RESOURCE_VIOLATION))
      else guard (held_units holds ri + ucast (ru_units use) > ucast (rs_capacity res))
             (blocked RC_VALIDATION_RESOURCE_VIOLATION)))"

definition uses_at :: "search_env \<Rightarrow> nat \<Rightarrow> (resource_use \<times> nat) list" where
  "uses_at e i = zip (ac_resource_uses (df_actions (se_definition e) ! i))
                     (cp_resource_indices (se_compiled e) ! i)"

definition apply_effect :: "search_env \<Rightarrow> effect \<Rightarrow> fabric_state \<Rightarrow> block + fabric_state" where
  "apply_effect e fx s = (case subject_index (se_indexer e) (fx_subject fx) of
       None \<Rightarrow> Inl (blocked RC_REQUEST_UNSUPPORTED_PROBLEM)
     | Some i \<Rightarrow> (case fx_kind fx of
          FK_SET_LINK_OPERATIONAL \<Rightarrow>
            Inr (s\<lparr>link_operational := (link_operational s)[i := flag (fx_value fx \<noteq> 0)],
                   link_known := (link_known s)[i := 1]\<rparr>)
        | FK_SET_NODE_OPERATIONAL \<Rightarrow>
            Inr (s\<lparr>node_operational := (node_operational s)[i := flag (fx_value fx \<noteq> 0)],
                   node_known := (node_known s)[i := 1]\<rparr>)
        | FK_SET_SERVICE_REACHABLE \<Rightarrow>
            (if fx_value fx > ucast (sv_max (df_services (se_definition e) ! i))
               then Inl blocked_safety
             else Inr (s\<lparr>service_reachable := (service_reachable s)[i := ucast (fx_value fx)],
                         service_known := (service_known s)[i := 1]\<rparr>))
        | FK_SERVICE_REACHABLE_DELTA \<Rightarrow>
            (if service_known s ! i = 0 then
               (if sv_required (df_services (se_definition e) ! i) > 0
                  then Inl (blocked_unknown RC_NONE (fx_subject fx))
                else Inr s)
             else
               let updated = uint (service_reachable s ! i) + sint (fx_value fx) in
               if updated < 0 \<or> updated > uint (sv_max (df_services (se_definition e) ! i))
                 then Inl blocked_safety
               else Inr (s\<lparr>service_reachable := (service_reachable s)[i := of_int updated]\<rparr>))
        | FK_MARK_RESOURCE_RESTORED \<Rightarrow>
            Inr (s\<lparr>resource_restored := (resource_restored s)[i := 1],
                   resource_known := (resource_known s)[i := 1]\<rparr>)
        | FK_SET_RESOURCE_AVAILABLE \<Rightarrow>
            (if fx_value fx > ucast (rs_capacity (df_resources (se_definition e) ! i))
               then Inl (blocked RC_VALIDATION_RESOURCE_VIOLATION)
             else Inr (s\<lparr>resource_available := (resource_available s)[i := ucast (fx_value fx)],
                         resource_known := (resource_known s)[i := 1]\<rparr>))
        | FK_COUNT \<Rightarrow> Inl (blocked RC_REQUEST_UNSUPPORTED_PROBLEM)))"

fun apply_effects :: "search_env \<Rightarrow> effect list \<Rightarrow> fabric_state \<Rightarrow> block + fabric_state" where
  "apply_effects e [] s = Inr s"
| "apply_effects e (fx # fxs) s =
     (case apply_effect e fx s of Inl b \<Rightarrow> Inl b | Inr s' \<Rightarrow> apply_effects e fxs s')"

text \<open>Consumable units are subtracted with 32-bit wrap-around.\<close>

definition consume :: "search_env \<Rightarrow> resource_use \<times> nat \<Rightarrow> fabric_state \<Rightarrow> fabric_state" where
  "consume e ur s = (case ur of (use, ri) \<Rightarrow>
     if rs_kind (df_resources (se_definition e) ! ri) = RK_CONSUMABLE
     then s\<lparr>resource_available :=
              (resource_available s)[ri := resource_available s ! ri - ru_units use]\<rparr>
     else s)"

definition decay_holds :: "resource_hold list \<Rightarrow> resource_hold list" where
  "decay_holds holds = map (\<lambda>h. h\<lparr>hd_remaining_steps := hd_remaining_steps h - 1\<rparr>)
     (filter (\<lambda>h. hd_remaining_steps h > 1) holds)"

definition new_holds :: "search_env \<Rightarrow> nat \<Rightarrow> resource_hold list" where
  "new_holds e i =
     map (\<lambda>(use, ri). \<lparr>hd_resource_index = of_nat ri, hd_units = ru_units use,
            hd_remaining_steps = rs_hold_steps (df_resources (se_definition e) ! ri) - 1\<rparr>)
       (filter (\<lambda>(use, ri). rs_kind (df_resources (se_definition e) ! ri) = RK_REUSABLE \<and>
                 rs_hold_steps (df_resources (se_definition e) ! ri) > 1) (uses_at e i))"

definition next_holds :: "search_env \<Rightarrow> nat \<Rightarrow> resource_hold list \<Rightarrow> resource_hold list" where
  "next_holds e i holds = sort_by hold_less (decay_holds holds @ new_holds e i)"

definition step_delta :: "action_spec \<Rightarrow> u64 \<Rightarrow> u64 \<Rightarrow> objective" where
  "step_delta a prev now = \<lparr>safety_violations = 0, service_preservation_gap = 0,
     recovery_incompleteness = (if now > prev then now - prev else 0),
     obj_blast_radius = ucast (ac_blast_radius a), action_count = 1,
     obj_disruption = ucast (ac_disruption a), obj_cost_units = ac_cost_units a,
     obj_duration_ticks = ac_duration_ticks a\<rparr>"

text \<open>The tail of \<open>apply\<close>, once effects and consumption are done.\<close>

definition finish_step ::
  "search_env \<Rightarrow> search_node \<Rightarrow> nat \<Rightarrow> evidence_binding list \<Rightarrow> fabric_state \<Rightarrow> block + transition" where
  "finish_step e n i bindings s =
     (let a = df_actions (se_definition e) ! i;
          executed = action_occurrences (sn_state n) ! i in
      if floor_gap (se_definition e) s > floor_gap (se_definition e) (sn_state n)
        then Inl blocked_safety
      else if ac_reversibility a = RV_IRREVERSIBLE \<and> \<not> allow_irreversible_actions (se_policy e)
        then Inl blocked_policy
      else case add_overflow (fs_tick s) (ac_duration_ticks a) of
          None \<Rightarrow> Inl (blocked RC_REQUEST_UNSUPPORTED_PROBLEM)
        | Some tick \<Rightarrow>
            let s' = s\<lparr>action_occurrences := (action_occurrences s)[i := executed + 1],
                       fs_tick := tick\<rparr>
            in Inr \<lparr>tr_state = s', tr_holds = next_holds e i (sn_holds n),
                 tr_delta = step_delta a (sn_incompleteness n) (incompleteness (se_definition e) s'),
                 tr_bindings = bindings, tr_occurrence = executed + 1,
                 tr_start_tick = fs_tick (sn_state n), tr_end_tick = tick\<rparr>)"

definition apply_action :: "search_env \<Rightarrow> search_node \<Rightarrow> nat \<Rightarrow> block + transition" where
  "apply_action e n i =
     (let a = df_actions (se_definition e) ! i; s = sn_state n in
      case first_some [check_occurrence e s i, check_dependencies e s i, check_exclusion e s i] of
        Some b \<Rightarrow> Inl b
      | None \<Rightarrow> (case scan_preconditions e s (ac_preconditions a) [] of
          Inl b \<Rightarrow> Inl b
        | Inr bindings \<Rightarrow>
           (case first_some (map (check_resource_use e s (sn_holds n)) (uses_at e i)) of
              Some b \<Rightarrow> Inl b
            | None \<Rightarrow> (case apply_effects e (ac_effects a) s of
                Inl b \<Rightarrow> Inl b
              | Inr s1 \<Rightarrow>
                  finish_step e n i (remdups_adj (sort_by evidence_binding_less bindings))
                    (fold (consume e) (uses_at e i) s1)))))"

section \<open>What the stages keep\<close>

text \<open>The lengths of the state vectors.\<close>

definition shape :: "fabric_state \<Rightarrow> nat list" where
  "shape s = [length (node_operational s), length (link_operational s),
     length (resource_restored s), length (resource_available s), length (service_reachable s),
     length (action_occurrences s), length (node_known s), length (link_known s),
     length (resource_known s), length (service_known s)]"

definition state_shape :: "fabric_definition \<Rightarrow> nat list" where
  "state_shape d = shape (blank_state d)"

text \<open>No service is above its declared maximum.\<close>

definition services_bounded :: "fabric_definition \<Rightarrow> fabric_state \<Rightarrow> bool" where
  "services_bounded d s \<longleftrightarrow> (\<forall>i < length (service_reachable s). i < length (df_services d) \<longrightarrow>
     service_reachable s ! i \<le> sv_max (df_services d ! i))"

definition occurrences_bounded :: "fabric_definition \<Rightarrow> fabric_state \<Rightarrow> bool" where
  "occurrences_bounded d s \<longleftrightarrow> (\<forall>i < length (df_actions d).
     action_occurrences s ! i \<le> ac_max_occurrences (df_actions d ! i))"

text \<open>A stage that touches neither the vector lengths, nor the occurrence counters, nor the clock.\<close>

definition stage_ok :: "fabric_definition \<Rightarrow> fabric_state \<Rightarrow> fabric_state \<Rightarrow> bool" where
  "stage_ok d s s' \<longleftrightarrow> shape s' = shape s \<and> action_occurrences s' = action_occurrences s \<and>
     fs_tick s' = fs_tick s \<and> (services_bounded d s \<longrightarrow> services_bounded d s')"

lemma stage_ok_refl [simp]: "stage_ok d s s"
  by (simp add: stage_ok_def)

lemma stage_ok_trans: "stage_ok d a b \<Longrightarrow> stage_ok d b c \<Longrightarrow> stage_ok d a c"
  by (simp add: stage_ok_def)

lemma ucast_le_imp: "(v :: u64) \<le> ucast (m :: u32) \<Longrightarrow> (ucast v :: u32) \<le> m"
proof -
  assume "v \<le> ucast m"
  then have "unat v \<le> unat m" by (simp add: word_le_nat_alt)
  moreover have "unat m < 2 ^ 32" using unsigned_less[of m, where ?'a = nat] by simp
  ultimately have "unat (ucast v :: u32) = unat v"
    by (simp add: unsigned_ucast_eq take_bit_nat_eq_self)
  with \<open>unat v \<le> unat m\<close> show ?thesis by (simp add: word_le_nat_alt)
qed

lemma of_int_le_word: "0 \<le> k \<Longrightarrow> k \<le> uint (m :: u32) \<Longrightarrow> (of_int k :: u32) \<le> m"
proof -
  assume k: "0 \<le> k" "k \<le> uint m"
  moreover have "uint m < 2 ^ 32" using unsigned_less[of m, where ?'a = int] by simp
  ultimately have "uint (of_int k :: u32) = k" by (simp add: uint_word_of_int_eq take_bit_int_eq_self)
  with k show ?thesis by (simp add: word_le_def)
qed

lemma services_bounded_update:
  "services_bounded d s \<Longrightarrow> (i < length (df_services d) \<Longrightarrow> v \<le> sv_max (df_services d ! i)) \<Longrightarrow>
   service_reachable s' = (service_reachable s)[i := v] \<Longrightarrow> services_bounded d s'"
  by (auto simp: services_bounded_def nth_list_update_if)

lemma services_bounded_cong:
  "service_reachable s' = service_reachable s \<Longrightarrow> services_bounded d s' = services_bounded d s"
  by (simp add: services_bounded_def)

lemma apply_effect_stage:
  assumes "apply_effect e fx s = Inr s'"
  shows "stage_ok (se_definition e) s s'"
proof -
  obtain i where i: "subject_index (se_indexer e) (fx_subject fx) = Some i"
    using assms by (auto simp: apply_effect_def split: option.splits)
  show ?thesis
  proof (cases "fx_kind fx")
    case FK_SET_SERVICE_REACHABLE
    then have le: "(ucast (fx_value fx) :: u32) \<le> sv_max (df_services (se_definition e) ! i)"
      and s': "service_reachable s' = (service_reachable s)[i := ucast (fx_value fx)]"
      using assms i by (auto simp: apply_effect_def split: if_splits intro: ucast_le_imp)
    show ?thesis
      using FK_SET_SERVICE_REACHABLE assms i services_bounded_update[OF _ le s']
      by (auto simp: stage_ok_def apply_effect_def shape_def split: if_splits)
  next
    case FK_SERVICE_REACHABLE_DELTA
    show ?thesis
    proof (cases "service_known s ! i = 0")
      case False
      let ?u = "uint (service_reachable s ! i) + sint (fx_value fx)"
      have "0 \<le> ?u \<and> ?u \<le> uint (sv_max (df_services (se_definition e) ! i))"
        and s': "s' = s\<lparr>service_reachable := (service_reachable s)[i := of_int ?u]\<rparr>"
        using FK_SERVICE_REACHABLE_DELTA assms i False
        by (auto simp: apply_effect_def Let_def split: if_splits)
      then have le: "(of_int ?u :: u32) \<le> sv_max (df_services (se_definition e) ! i)"
        by (blast intro: of_int_le_word)
      show ?thesis
        using services_bounded_update[OF _ le, of s s'] by (simp add: s' stage_ok_def shape_def)
    qed (use FK_SERVICE_REACHABLE_DELTA assms i in \<open>auto simp: apply_effect_def split: if_splits\<close>)
  qed (use assms i in \<open>auto simp: apply_effect_def stage_ok_def shape_def split: if_splits
         intro: services_bounded_cong[THEN iffD2]\<close>)
qed

lemma apply_effects_stage: "apply_effects e fxs s = Inr s' \<Longrightarrow> stage_ok (se_definition e) s s'"
proof (induction fxs arbitrary: s)
  case (Cons fx fxs)
  then obtain s1 where "apply_effect e fx s = Inr s1" "apply_effects e fxs s1 = Inr s'"
    by (auto split: sum.splits)
  with Cons.IH show ?case by (blast intro: stage_ok_trans apply_effect_stage)
qed simp

lemma consume_stage: "stage_ok d s (consume e ur s)"
  by (auto simp: consume_def stage_ok_def shape_def split: prod.splits
      intro: services_bounded_cong[THEN iffD2])

lemma consume_all_stage: "stage_ok d s (fold (consume e) urs s)"
  by (induction urs arbitrary: s) (auto intro: stage_ok_trans consume_stage)

section \<open>Inversion of an admissible step\<close>

lemma finish_step_cases:
  assumes "finish_step e n i bindings s = Inr t"
  obtains tick where
    "floor_gap (se_definition e) s \<le> floor_gap (se_definition e) (sn_state n)"
    "ac_reversibility (df_actions (se_definition e) ! i) = RV_IRREVERSIBLE \<longrightarrow>
       allow_irreversible_actions (se_policy e)"
    "add_overflow (fs_tick s) (ac_duration_ticks (df_actions (se_definition e) ! i)) = Some tick"
    "tr_state t = s\<lparr>action_occurrences :=
        (action_occurrences s)[i := action_occurrences (sn_state n) ! i + 1], fs_tick := tick\<rparr>"
    "tr_holds t = next_holds e i (sn_holds n)"
    "tr_delta t = step_delta (df_actions (se_definition e) ! i) (sn_incompleteness n)
       (incompleteness (se_definition e) (tr_state t))"
    "tr_bindings t = bindings" "tr_occurrence t = action_occurrences (sn_state n) ! i + 1"
    "tr_start_tick t = fs_tick (sn_state n)" "tr_end_tick t = tick"
  using assms by (auto simp: finish_step_def Let_def not_less split: if_splits option.splits)

lemma apply_action_cases:
  assumes "apply_action e n i = Inr t"
  obtains bindings s1 where
    "check_occurrence e (sn_state n) i = None" "check_dependencies e (sn_state n) i = None"
    "check_exclusion e (sn_state n) i = None"
    "scan_preconditions e (sn_state n) (ac_preconditions (df_actions (se_definition e) ! i)) [] =
       Inr bindings"
    "\<forall>ur \<in> set (uses_at e i). check_resource_use e (sn_state n) (sn_holds n) ur = None"
    "apply_effects e (ac_effects (df_actions (se_definition e) ! i)) (sn_state n) = Inr s1"
    "finish_step e n i (remdups_adj (sort_by evidence_binding_less bindings))
       (fold (consume e) (uses_at e i) s1) = Inr t"
  using assms by (auto simp: apply_action_def Let_def split: option.splits sum.splits)

text \<open>A step depends on a node only through its state, its holds and its incompleteness.\<close>

lemma apply_action_cong:
  assumes "sn_state n = sn_state m" "sn_holds n = sn_holds m"
    "sn_incompleteness n = sn_incompleteness m"
  shows "apply_action e n i = apply_action e m i"
proof -
  have fin: "finish_step e n i = finish_step e m i"
    unfolding finish_step_def assms ..
  show ?thesis unfolding apply_action_def assms fin ..
qed

lemma apply_action_state:
  assumes t: "apply_action e n i = Inr t"
  obtains s tick where "stage_ok (se_definition e) (sn_state n) s"
    "floor_gap (se_definition e) s \<le> floor_gap (se_definition e) (sn_state n)"
    "action_occurrences (sn_state n) ! i < ac_max_occurrences (df_actions (se_definition e) ! i)"
    "add_overflow (fs_tick (sn_state n)) (ac_duration_ticks (df_actions (se_definition e) ! i)) =
       Some tick"
    "tr_state t = s\<lparr>action_occurrences :=
        (action_occurrences (sn_state n))[i := action_occurrences (sn_state n) ! i + 1],
        fs_tick := tick\<rparr>"
proof (rule apply_action_cases[OF t])
  fix bindings s1
  let ?s = "fold (consume e) (uses_at e i) s1"
  assume "check_occurrence e (sn_state n) i = None"
    and eff: "apply_effects e (ac_effects (df_actions (se_definition e) ! i)) (sn_state n) = Inr s1"
    and fin: "finish_step e n i (remdups_adj (sort_by evidence_binding_less bindings)) ?s = Inr t"
  then have occ: "action_occurrences (sn_state n) ! i < ac_max_occurrences (df_actions (se_definition e) ! i)"
    by (simp add: check_occurrence_def not_le)
  have st: "stage_ok (se_definition e) (sn_state n) ?s"
    using apply_effects_stage[OF eff] consume_all_stage stage_ok_trans by blast
  then have "action_occurrences ?s = action_occurrences (sn_state n)" "fs_tick ?s = fs_tick (sn_state n)"
    by (simp_all add: stage_ok_def)
  with finish_step_cases[OF fin] st occ that show thesis by metis
qed

section \<open>Invariants of a step\<close>

lemma shape_finish [simp]:
  "shape (s\<lparr>action_occurrences := (action_occurrences s)[i := v], fs_tick := k\<rparr>) = shape s"
  by (simp add: shape_def)

lemma step_shape [nrp_len]:
  assumes "apply_action e n i = Inr t" shows "shape (tr_state t) = shape (sn_state n)"
proof (rule apply_action_state[OF assms])
  fix s tick
  assume "stage_ok (se_definition e) (sn_state n) s"
    "tr_state t = s\<lparr>action_occurrences :=
      (action_occurrences (sn_state n))[i := action_occurrences (sn_state n) ! i + 1], fs_tick := tick\<rparr>"
  then show ?thesis by (simp add: stage_ok_def shape_def)
qed

lemma step_services_bounded [nrp_wf]:
  assumes "apply_action e n i = Inr t" "services_bounded (se_definition e) (sn_state n)"
  shows "services_bounded (se_definition e) (tr_state t)"
proof (rule apply_action_state[OF assms(1)])
  fix s tick
  assume "stage_ok (se_definition e) (sn_state n) s"
    "tr_state t = s\<lparr>action_occurrences :=
      (action_occurrences (sn_state n))[i := action_occurrences (sn_state n) ! i + 1], fs_tick := tick\<rparr>"
  with assms(2) show ?thesis by (simp add: stage_ok_def services_bounded_def)
qed

lemma step_occurrences:
  assumes "apply_action e n i = Inr t"
  shows "action_occurrences (tr_state t) =
      (action_occurrences (sn_state n))[i := action_occurrences (sn_state n) ! i + 1]"
    and "unat (action_occurrences (sn_state n) ! i + 1) = Suc (unat (action_occurrences (sn_state n) ! i))"
    and "action_occurrences (sn_state n) ! i + 1 \<le> ac_max_occurrences (df_actions (se_definition e) ! i)"
proof -
  have occ: "action_occurrences (sn_state n) ! i < ac_max_occurrences (df_actions (se_definition e) ! i)"
    by (rule apply_action_state[OF assms])
  show "action_occurrences (tr_state t) =
      (action_occurrences (sn_state n))[i := action_occurrences (sn_state n) ! i + 1]"
    by (rule apply_action_state[OF assms]) simp
  show suc: "unat (action_occurrences (sn_state n) ! i + 1) = Suc (unat (action_occurrences (sn_state n) ! i))"
    by (rule unat_Suc_less[OF occ])
  show "action_occurrences (sn_state n) ! i + 1 \<le> ac_max_occurrences (df_actions (se_definition e) ! i)"
    using occ by (simp add: word_le_nat_alt word_less_nat_alt suc)
qed

lemma step_occurrences_bounded [nrp_wf]:
  assumes "apply_action e n i = Inr t" "occurrences_bounded (se_definition e) (sn_state n)"
    and "length (action_occurrences (sn_state n)) = length (df_actions (se_definition e))"
  shows "occurrences_bounded (se_definition e) (tr_state t)"
  using assms(2,3) step_occurrences(1,3)[OF assms(1)]
  by (auto simp: occurrences_bounded_def nth_list_update_if)

lemma scan_preconditions_Inr:
  "scan_preconditions e s ps bs = Inr bs' \<longleftrightarrow>
     (\<forall>p\<in>set ps. precondition_holds (se_indexer e) s p = (True, True)) \<and>
     bs' = bs @ concat (map (precondition_bindings (se_resolutions e)) ps)"
  by (induction ps arbitrary: bs) (auto simp: Let_def split: prod.splits)

section \<open>Holds of reusable resources\<close>

text \<open>The held units without wrap-around, and the capacity invariant over them.\<close>

definition held_nat :: "resource_hold list \<Rightarrow> nat \<Rightarrow> nat" where
  "held_nat holds ri =
     sum_list (map (\<lambda>h. if unat (hd_resource_index h) = ri then unat (hd_units h) else 0) holds)"

definition holds_within_capacity :: "fabric_definition \<Rightarrow> resource_hold list \<Rightarrow> bool" where
  "holds_within_capacity d holds \<longleftrightarrow> (\<forall>ri < length (df_resources d).
     held_nat holds ri \<le> unat (rs_capacity (df_resources d ! ri)))"

lemma held_nat_append [simp]: "held_nat (xs @ ys) ri = held_nat xs ri + held_nat ys ri"
  by (simp add: held_nat_def)

lemma held_nat_Cons [simp]: "held_nat (h # hs) ri =
  (if unat (hd_resource_index h) = ri then unat (hd_units h) else 0) + held_nat hs ri"
  by (simp add: held_nat_def)

lemma held_nat_Nil [simp]: "held_nat [] ri = 0"
  by (simp add: held_nat_def)

lemma held_nat_mset: "mset xs = mset ys \<Longrightarrow> held_nat xs ri = held_nat ys ri"
  unfolding held_nat_def by (subst (1 2) sum_mset_sum_list[symmetric]) simp

lemma held_nat_decay: "held_nat (decay_holds holds) ri \<le> held_nat holds ri"
  by (induction holds) (auto simp: decay_holds_def)

lemma held_units_of_nat: "held_units holds ri = of_nat (held_nat holds ri)"
proof -
  have "fold (\<lambda>h held. if unat (hd_resource_index h) = ri then held + ucast (hd_units h) else held)
      holds acc = acc + (of_nat (held_nat holds ri) :: u64)" for acc
    by (induction holds arbitrary: acc) (auto simp: unsigned_of_nat[symmetric] add.assoc)
  then show ?thesis by (simp add: held_units_def)
qed

text \<open>The capacity test of a reusable resource is exact when the held units fit the capacity.\<close>

lemma capacity_test_exact:
  assumes "held_nat holds ri \<le> unat (cap :: u32)"
  shows "held_units holds ri + ucast (units :: u32) > ucast cap \<longleftrightarrow>
    held_nat holds ri + unat units > unat cap"
proof -
  have lt: "unat cap < 2 ^ 32" "unat units < 2 ^ 32"
    using unsigned_less[of cap, where ?'a = nat] unsigned_less[of units, where ?'a = nat] by simp_all
  have h: "unat (held_units holds ri) = held_nat holds ri"
    using assms lt unfolding held_units_of_nat by (simp add: unat_of_nat)
  have "unat (held_units holds ri + ucast units) = held_nat holds ri + unat units"
    using assms lt by (subst unat_add_no_wrap) (simp_all add: h)
  then show ?thesis by (simp add: word_less_nat_alt)
qed

abbreviation hold_of :: "(nat \<Rightarrow> u32) \<Rightarrow> resource_use \<times> nat \<Rightarrow> resource_hold" where
  "hold_of f \<equiv> \<lambda>(use, k). \<lparr>hd_resource_index = of_nat k, hd_units = ru_units use,
     hd_remaining_steps = f k\<rparr>"

lemma held_nat_new_absent:
  assumes "\<forall>ur\<in>set urs. snd ur < 2 ^ 32" "\<forall>ur\<in>set urs. snd ur = ri \<longrightarrow> \<not> P ur"
  shows "held_nat (map (hold_of f) (filter P urs)) ri = 0"
  using assms by (induction urs) (auto simp: unat_of_nat split: prod.splits)

lemma held_nat_new_present:
  assumes "distinct (map snd urs)" "\<forall>ur\<in>set urs. snd ur < 2 ^ 32" "(u, ri) \<in> set urs"
  shows "held_nat (map (hold_of f) (filter P urs)) ri \<le> unat (ru_units u)"
  using assms
proof (induction urs)
  case (Cons ur urs)
  show ?case
  proof (cases "ur = (u, ri)")
    case True
    then have "\<forall>x\<in>set urs. snd x = ri \<longrightarrow> \<not> P x" using Cons.prems(1) by auto
    with Cons.prems(2) have "held_nat (map (hold_of f) (filter P urs)) ri = 0"
      by (intro held_nat_new_absent) auto
    with True show ?thesis by simp
  next
    case False
    with Cons.prems have mem: "(u, ri) \<in> set urs" and "snd ur < 2 ^ 32" by auto
    moreover have "snd ur \<noteq> ri" using Cons.prems(1) mem by (metis distinct.simps(2) image_eqI list.set_map list.simps(9) snd_conv)
    ultimately show ?thesis using Cons by (cases ur) (auto simp: unat_of_nat)
  qed
qed simp

lemma cast_index_less: "cast_index i < 2 ^ 32"
  by (cases i) (simp_all add: cast_index_def)

lemma step_holds_within_capacity [nrp_wf]:
  assumes t: "apply_action e n i = Inr t"
    and inv: "holds_within_capacity (se_definition e) (sn_holds n)"
    and dis: "distinct (map snd (uses_at e i))" and small: "\<forall>ur\<in>set (uses_at e i). snd ur < 2 ^ 32"
  shows "holds_within_capacity (se_definition e) (tr_holds t)"
  unfolding holds_within_capacity_def
proof (intro allI impI)
  fix ri assume ri: "ri < length (df_resources (se_definition e))"
  let ?cap = "rs_capacity (df_resources (se_definition e) ! ri)"
  let ?P = "\<lambda>(use :: resource_use, k). rs_kind (df_resources (se_definition e) ! k) = RK_REUSABLE \<and>
    rs_hold_steps (df_resources (se_definition e) ! k) > 1"
  have chk: "\<forall>ur \<in> set (uses_at e i). check_resource_use e (sn_state n) (sn_holds n) ur = None"
    by (rule apply_action_cases[OF t])
  have hs: "tr_holds t = next_holds e i (sn_holds n)"
    by (rule apply_action_cases[OF t]) (erule finish_step_cases)
  have old: "held_nat (sn_holds n) ri \<le> unat ?cap" using inv ri by (simp add: holds_within_capacity_def)
  have split: "held_nat (tr_holds t) ri = held_nat (decay_holds (sn_holds n)) ri + held_nat (new_holds e i) ri"
    unfolding hs next_holds_def by (subst held_nat_mset[OF mset_sort_by]) simp
  show "held_nat (tr_holds t) ri \<le> unat ?cap"
  proof (cases "\<exists>ur\<in>set (uses_at e i). snd ur = ri \<and> ?P ur")
    case True
    then obtain u where ur: "(u, ri) \<in> set (uses_at e i)" "?P (u, ri)" by auto
    have "\<not> held_units (sn_holds n) ri + ucast (ru_units u) > ucast ?cap"
      using bspec[OF chk ur(1)] ur(2) by (simp add: check_resource_use_def Let_def)
    then have "held_nat (sn_holds n) ri + unat (ru_units u) \<le> unat ?cap"
      by (simp add: capacity_test_exact[OF old] not_less)
    moreover have "held_nat (new_holds e i) ri \<le> unat (ru_units u)"
      unfolding new_holds_def by (rule held_nat_new_present[OF dis small ur(1)])
    ultimately show ?thesis using split held_nat_decay[of "sn_holds n" ri] by linarith
  next
    case False
    then have "held_nat (new_holds e i) ri = 0"
      unfolding new_holds_def by (intro held_nat_new_absent[OF small]) blast
    with split old held_nat_decay[of "sn_holds n" ri] show ?thesis by linarith
  qed
qed

section \<open>The sample fabric, compiled\<close>

definition sample_policy :: plan_policy where
  "sample_policy = \<lparr>allow_irreversible_actions = True, require_current_authority = True,
     max_plan_steps = 4, max_nodes_expanded = 100, max_generated_states = 100,
     max_frontier_entries = 100, budget_scale = 1\<rparr>"

definition sample_table :: resolution_table where
  "sample_table = [((EK_LINK_OPERATIONAL, Subject SK_LINK 5), link_resolution 1 0)]"

definition env_of :: "fabric_definition \<Rightarrow> search_env" where
  "env_of d = \<lparr>se_definition = d, se_indexer = build_indexer d,
     se_compiled = build_compiled d (build_indexer d), se_policy = sample_policy,
     se_resolutions = sample_table\<rparr>"

definition sample_env :: search_env where
  "sample_env = env_of sample_definition"

definition sample_state :: fabric_state where
  "sample_state = (blank_state sample_definition)\<lparr>link_known := [1]\<rparr>"

definition node_at :: "fabric_state \<Rightarrow> search_node" where
  "node_at s = \<lparr>sn_state = s, sn_holds = [], sn_parent = None, sn_action_index = 0, sn_depth = 0,
     sn_incompleteness = 0, sn_objective = zero_objective\<rparr>"

lemma sample_action_simps:
  "ac_id sample_action = 7" "ac_reversibility sample_action = RV_IRREVERSIBLE"
  "ac_duration_ticks sample_action = 4" "ac_max_occurrences sample_action = 1"
  "ac_preconditions sample_action =
     [\<lparr>pc_kind = PK_LINK_NOT_OPERATIONAL, pc_subject = Subject SK_LINK 5, pc_value = 0\<rparr>]"
  "ac_effects sample_action =
     [\<lparr>fx_kind = FK_SET_LINK_OPERATIONAL, fx_subject = Subject SK_LINK 5, fx_value = 1\<rparr>]"
  "ac_resource_uses sample_action = [\<lparr>ru_resource = 6, ru_units = 1\<rparr>]"
  "ac_dependencies sample_action = []" "ac_exclusion_groups sample_action = []"
  by (simp_all add: sample_action_def)

lemma sample_definition_simps:
  "df_services sample_definition = []" "df_actions sample_definition = [sample_action]"
  "df_resources sample_definition =
     [\<lparr>rs_id = 6, rs_kind = RK_REUSABLE, rs_capacity = 2, rs_hold_steps = 3\<rparr>]"
  "df_goals sample_definition =
     [\<lparr>gl_kind = GK_LINK_OPERATIONAL, gl_subject = Subject SK_LINK 5, gl_value = 1, gl_weight = 1\<rparr>]"
  "df_exclusion_groups sample_definition = []"
  by (simp_all add: sample_definition_def)

lemmas compile_defs = build_compiled_def group_positions_def List.map_filter_simps index_of_def
  lower_bound_def cast_index_def add_occurrence_bound_def add_overflow_def UINT64_MAX_def

lemma sample_compiled:
  "build_compiled sample_definition (build_indexer sample_definition) = \<lparr>cp_dependency_indices = [[]],
    cp_group_indices = [[]], cp_resource_indices = [[0]], cp_group_members = [],
    cp_absolute_step_bound = 1, cp_occurrence_bound_overflows = False\<rparr>"
  unfolding sample_indexer
  by (simp add: compile_defs sample_definition_simps sample_action_simps)

lemma sample_env_simps:
  "se_definition sample_env = sample_definition"
  "se_indexer sample_env = \<lparr>ix_node_ids = [1, 2], ix_link_ids = [5],
    ix_service_ids = [], ix_resource_ids = [6], ix_action_ids = [7]\<rparr>"
  "se_compiled sample_env = \<lparr>cp_dependency_indices = [[]], cp_group_indices = [[]],
    cp_resource_indices = [[0]], cp_group_members = [], cp_absolute_step_bound = 1,
    cp_occurrence_bound_overflows = False\<rparr>"
  "se_policy sample_env = sample_policy" "se_resolutions sample_env = sample_table"
  by (simp_all add: sample_env_def env_of_def sample_compiled) (simp add: sample_indexer)

lemma sample_state_eq: "sample_state = \<lparr>node_operational = [0, 0], link_operational = [0],
    resource_restored = [0], resource_available = [2], service_reachable = [],
    action_occurrences = [0], node_known = [0, 0], link_known = [1], resource_known = [0],
    service_known = [], fs_tick = 0\<rparr>"
  by (simp add: sample_state_def blank_state_def sample_definition_def)

lemmas sample_simps = sample_action_simps sample_definition_simps sample_env_simps sample_state_eq
  node_at_def

lemmas step_defs = apply_action_def check_occurrence_def check_dependencies_def check_exclusion_def
  precondition_holds_def index_of_def lower_bound_def precondition_bindings_def resolution_for_def
  uses_at_def check_resource_use_def held_units_def apply_effect_def consume_def finish_step_def
  floor_gap_def incompleteness_def add_overflow_def UINT64_MAX_def next_holds_def decay_holds_def
  new_holds_def flag_def guard_def first_some.simps Let_def

definition sample_successor :: fabric_state where
  "sample_successor = sample_state\<lparr>link_operational := [1], action_occurrences := [1], fs_tick := 4\<rparr>"

definition sample_transition :: transition where
  "sample_transition = \<lparr>tr_state = sample_successor,
     tr_holds = [\<lparr>hd_resource_index = 0, hd_units = 1, hd_remaining_steps = 2\<rparr>],
     tr_delta = step_delta sample_action 0 0,
     tr_bindings = [binding_of (link_resolution 1 0)], tr_occurrence = 1,
     tr_start_tick = 0, tr_end_tick = 4\<rparr>"

lemma sample_step: "apply_action sample_env (node_at sample_state) 0 = Inr sample_transition"
  by (simp add: sample_simps step_defs sample_transition_def sample_successor_def sample_table_def)
    (simp add: link_resolution_def sample_policy_def)

section \<open>Properties\<close>

text \<open>C13. A step fails closed: when an action is admissible every one of its preconditions is known
  and holds in the state before the step, and every evidence binding of the step comes from a
  RESOLVED entry of the evidence table for one of those preconditions.\<close>

theorem step_fail_closed:
  assumes t: "apply_action e n i = Inr t"
  shows "(\<forall>p\<in>set (ac_preconditions (df_actions (se_definition e) ! i)).
      precondition_holds (se_indexer e) (sn_state n) p = (True, True)) \<and>
    (\<forall>b\<in>set (tr_bindings t). \<exists>p\<in>set (ac_preconditions (df_actions (se_definition e) ! i)). \<exists>r.
      resolution_for (se_resolutions e) p = Some r \<and> sr_state r = SS_RESOLVED \<and> b = binding_of r)"
proof (rule apply_action_cases[OF t])
  fix bindings s1
  assume scan: "scan_preconditions e (sn_state n)
      (ac_preconditions (df_actions (se_definition e) ! i)) [] = Inr bindings"
    and fin: "finish_step e n i (remdups_adj (sort_by evidence_binding_less bindings))
      (fold (consume e) (uses_at e i) s1) = Inr t"
  from fin have "set (tr_bindings t) = set bindings" by (rule finish_step_cases) simp
  moreover have "\<exists>p\<in>set (ac_preconditions (df_actions (se_definition e) ! i)). \<exists>r.
      resolution_for (se_resolutions e) p = Some r \<and> sr_state r = SS_RESOLVED \<and> b = binding_of r"
    if "b \<in> set bindings" for b
  proof -
    from that scan obtain p where p: "p \<in> set (ac_preconditions (df_actions (se_definition e) ! i))"
      "b \<in> set (precondition_bindings (se_resolutions e) p)" by (auto simp: scan_preconditions_Inr)
    then have "\<exists>r. resolution_for (se_resolutions e) p = Some r \<and> sr_state r = SS_RESOLVED \<and>
        b = binding_of r"
      by (cases "resolution_for (se_resolutions e) p")
        (auto simp: precondition_bindings_def split: if_splits)
    with p(1) show ?thesis by blast
  qed
  ultimately show ?thesis using scan by (simp add: scan_preconditions_Inr)
qed

theorem step_fail_closed_witness:
  "precondition_holds (se_indexer sample_env) sample_state (hd (ac_preconditions sample_action)) = (True, True) \<and>
    (\<exists>r. resolution_for (se_resolutions sample_env) (hd (ac_preconditions sample_action)) = Some r \<and>
       sr_state r = SS_RESOLVED \<and> tr_bindings sample_transition = [binding_of r])"
  using step_fail_closed[OF sample_step]
  by (simp add: sample_simps sample_action_def sample_transition_def node_at_def)

lemma floor_gap_frame:
  "service_known s = service_known t \<Longrightarrow> service_reachable s = service_reachable t \<Longrightarrow>
   floor_gap d s = floor_gap d t"
  unfolding floor_gap_def by (simp only:)

text \<open>C14. A step never widens the gap below the required service floor, is never irreversible under
  a policy that excludes irreversible actions, and advances the clock by exactly the duration of
  the action, without wrap-around.\<close>

theorem step_safe:
  assumes t: "apply_action e n i = Inr t"
  shows "floor_gap (se_definition e) (tr_state t) \<le> floor_gap (se_definition e) (sn_state n) \<and>
    (allow_irreversible_actions (se_policy e) \<or>
       ac_reversibility (df_actions (se_definition e) ! i) \<noteq> RV_IRREVERSIBLE) \<and>
    unat (fs_tick (tr_state t)) =
      unat (fs_tick (sn_state n)) + unat (ac_duration_ticks (df_actions (se_definition e) ! i))"
proof -
  obtain s tick where gap: "floor_gap (se_definition e) s \<le> floor_gap (se_definition e) (sn_state n)"
    and tick: "add_overflow (fs_tick (sn_state n))
      (ac_duration_ticks (df_actions (se_definition e) ! i)) = Some tick"
    and st: "tr_state t = s\<lparr>action_occurrences :=
        (action_occurrences (sn_state n))[i := action_occurrences (sn_state n) ! i + 1],
        fs_tick := tick\<rparr>"
    by (rule apply_action_state[OF t])
  have "floor_gap (se_definition e) (tr_state t) = floor_gap (se_definition e) s"
    by (rule floor_gap_frame) (simp_all add: st)
  moreover have "ac_reversibility (df_actions (se_definition e) ! i) = RV_IRREVERSIBLE \<longrightarrow>
      allow_irreversible_actions (se_policy e)"
    by (rule apply_action_cases[OF t]) (erule finish_step_cases)
  ultimately show ?thesis using gap tick by (auto simp: st add_overflow_Some_iff)
qed

theorem step_safe_witness:
  "floor_gap (se_definition sample_env) (tr_state sample_transition) \<le>
      floor_gap (se_definition sample_env) (sn_state (node_at sample_state)) \<and>
    unat (fs_tick (tr_state sample_transition)) = unat (fs_tick (sn_state (node_at sample_state))) +
      unat (ac_duration_ticks (df_actions (se_definition sample_env) ! 0))"
  using step_safe[OF sample_step] by blast

text \<open>C15. The state invariant of planning: a step keeps the length of every state vector, keeps
  every service at or below its declared maximum, counts exactly the executed action up by one
  without wrap-around, and keeps every action within its occurrence bound.\<close>

theorem step_invariant:
  assumes t: "apply_action e n i = Inr t" and i: "i < length (df_actions (se_definition e))"
    and len: "length (action_occurrences (sn_state n)) = length (df_actions (se_definition e))"
    and inv: "services_bounded (se_definition e) (sn_state n)"
      "occurrences_bounded (se_definition e) (sn_state n)"
  shows "shape (tr_state t) = shape (sn_state n) \<and> services_bounded (se_definition e) (tr_state t) \<and>
    occurrences_bounded (se_definition e) (tr_state t) \<and>
    (\<forall>j<length (df_actions (se_definition e)). unat (action_occurrences (tr_state t) ! j) =
       unat (action_occurrences (sn_state n) ! j) + (if j = i then 1 else 0))"
  using step_shape[OF t] step_services_bounded[OF t inv(1)] step_occurrences_bounded[OF t inv(2) len]
    step_occurrences(1,2)[OF t] len i by (auto simp: nth_list_update_if)

theorem step_invariant_witness:
  "shape (tr_state sample_transition) = shape (sn_state (node_at sample_state)) \<and>
    services_bounded (se_definition sample_env) (tr_state sample_transition) \<and>
    occurrences_bounded (se_definition sample_env) (tr_state sample_transition) \<and>
    unat (action_occurrences (tr_state sample_transition) ! 0) =
      unat (action_occurrences (sn_state (node_at sample_state)) ! 0) + 1"
proof -
  have "0 < length (df_actions (se_definition sample_env))" by (simp add: sample_simps)
  moreover have "length (action_occurrences (sn_state (node_at sample_state))) =
      length (df_actions (se_definition sample_env))" by (simp add: sample_simps)
  moreover have "services_bounded (se_definition sample_env) (sn_state (node_at sample_state))"
    "occurrences_bounded (se_definition sample_env) (sn_state (node_at sample_state))"
    by (simp_all add: sample_simps services_bounded_def occurrences_bounded_def)
  ultimately show ?thesis using step_invariant[OF sample_step] by presburger
qed

text \<open>C16. Reusable resources stay within capacity: if an action names each resource at most once (by
  resource indices below \<open>2 ^ 32\<close>), the units held after its step fit the capacity of every resource whenever those held before did.\<close>

theorem step_capacity:
  assumes t: "apply_action e n i = Inr t"
    and inv: "holds_within_capacity (se_definition e) (sn_holds n)"
    and dis: "distinct (map snd (uses_at e i))" and small: "\<forall>ur\<in>set (uses_at e i). snd ur < 2 ^ 32"
  shows "holds_within_capacity (se_definition e) (tr_holds t)"
  by (rule step_holds_within_capacity[OF assms])

theorem step_capacity_witness:
  "holds_within_capacity (se_definition sample_env) (tr_holds sample_transition)"
  by (rule step_capacity[OF sample_step])
    (simp_all add: holds_within_capacity_def sample_simps uses_at_def)

text \<open>The order of actions: an admissible action has every predecessor executed at least as often
  as its dependency asks, and on its first execution every exclusion group it belongs to still has
  a free place.\<close>

theorem step_ordering:
  assumes t: "apply_action e n i = Inr t"
  shows "(\<forall>(dep, p)\<in>set (zip (ac_dependencies (df_actions (se_definition e) ! i))
        (cp_dependency_indices (se_compiled e) ! i)).
      p < length (df_actions (se_definition e)) \<and>
      dp_min_occurrences dep \<le> action_occurrences (sn_state n) ! p) \<and>
    (action_occurrences (sn_state n) ! i = 0 \<longrightarrow>
      (\<forall>g\<in>set (cp_group_indices (se_compiled e) ! i).
        selected_members e (sn_state n) g < xg_max_selected (df_exclusion_groups (se_definition e) ! g)))"
proof (rule apply_action_cases[OF t])
  assume "check_dependencies e (sn_state n) i = None" "check_exclusion e (sn_state n) i = None"
  then show ?thesis
    by (auto simp: check_dependencies_def check_exclusion_def list_ex_iff not_le not_less split: if_splits)
qed

theorem step_ordering_witness:
  "list_all (\<lambda>(dep, p). p < length (df_actions (se_definition sample_env)) \<and>
      dp_min_occurrences dep \<le> action_occurrences sample_state ! p)
      (zip (ac_dependencies sample_action) (cp_dependency_indices (se_compiled sample_env) ! 0)) \<and>
    list_all (\<lambda>g. selected_members sample_env sample_state g <
      xg_max_selected (df_exclusion_groups (se_definition sample_env) ! g))
      (cp_group_indices (se_compiled sample_env) ! 0)"
  using step_ordering[OF sample_step] by (simp add: list_all_iff sample_simps node_at_def)

text \<open>An action that names the same consumable resource twice.\<close>

definition double_use_action :: action_spec where
  "double_use_action = sample_action\<lparr>ac_preconditions := [], ac_effects := [],
     ac_resource_uses := [\<lparr>ru_resource = 6, ru_units = 1\<rparr>, \<lparr>ru_resource = 6, ru_units = 1\<rparr>]\<rparr>"

definition double_use_definition :: fabric_definition where
  "double_use_definition = sample_definition\<lparr>
     df_resources := [\<lparr>rs_id = 6, rs_kind = RK_CONSUMABLE, rs_capacity = 1, rs_hold_steps = 0\<rparr>],
     df_actions := [double_use_action]\<rparr>"

definition double_use_state :: fabric_state where
  "double_use_state = (blank_state double_use_definition)\<lparr>resource_known := [1]\<rparr>"

lemma double_use_simps:
  "df_services double_use_definition = []" "df_actions double_use_definition = [double_use_action]"
  "df_resources double_use_definition =
     [\<lparr>rs_id = 6, rs_kind = RK_CONSUMABLE, rs_capacity = 1, rs_hold_steps = 0\<rparr>]"
  "df_exclusion_groups double_use_definition = []"
  "ac_preconditions double_use_action = []" "ac_effects double_use_action = []"
  "ac_dependencies double_use_action = []" "ac_exclusion_groups double_use_action = []"
  "ac_resource_uses double_use_action =
     [\<lparr>ru_resource = 6, ru_units = 1\<rparr>, \<lparr>ru_resource = 6, ru_units = 1\<rparr>]"
  "ac_max_occurrences double_use_action = 1" "ac_reversibility double_use_action = RV_IRREVERSIBLE"
  "ac_duration_ticks double_use_action = 4"
  "resource_available double_use_state = [1]" "resource_known double_use_state = [1]"
  "action_occurrences double_use_state = [0]" "fs_tick double_use_state = 0"
  by (simp_all add: double_use_definition_def double_use_action_def sample_action_def
      sample_definition_def double_use_state_def blank_state_def)

lemma double_use_env:
  "se_definition (env_of double_use_definition) = double_use_definition"
  "se_policy (env_of double_use_definition) = sample_policy"
  "se_compiled (env_of double_use_definition) = \<lparr>cp_dependency_indices = [[]], cp_group_indices = [[]],
    cp_resource_indices = [[0, 0]], cp_group_members = [], cp_absolute_step_bound = 1,
    cp_occurrence_bound_overflows = False\<rparr>"
  by (simp_all add: env_of_def compile_defs build_indexer_def double_use_simps)

lemma double_use_step:
  "\<exists>t. apply_action (env_of double_use_definition) (node_at double_use_state) 0 = Inr t"
  by (simp add: step_defs node_at_def double_use_simps double_use_env sample_policy_def)

text \<open>What the entries of an action take from one resource, together.\<close>

definition units_taken :: "search_env \<Rightarrow> nat \<Rightarrow> nat \<Rightarrow> nat" where
  "units_taken e i k = sum_list (map (\<lambda>ur. unat (ru_units (fst ur))) (filter (\<lambda>ur. snd ur = k) (uses_at e i)))"

lemma fold_consume:
  assumes "rs_kind (df_resources (se_definition e) ! k) = RK_CONSUMABLE"
  shows "k < length (resource_available s) \<Longrightarrow> resource_available (fold (consume e) urs s) ! k =
    resource_available s ! k - of_nat (sum_list (map (\<lambda>ur. unat (ru_units (fst ur))) (filter (\<lambda>ur. snd ur = k) urs)))"
proof (induction urs arbitrary: s)
  case (Cons ur urs)
  obtain u r where ur: "ur = (u, r)" by (cases ur)
  have len: "length (resource_available (consume e ur s)) = length (resource_available s)" by (simp add: consume_def ur)
  show ?case
  proof (cases "r = k")
    case True
    then have "resource_available (consume e ur s) ! k = resource_available s ! k - ru_units u"
      using assms Cons.prems by (simp add: consume_def ur)
    then show ?thesis using Cons.IH[of "consume e ur s"] Cons.prems len True by (simp add: ur diff_diff_eq)
  next
    case False
    then have "resource_available (consume e ur s) ! k = resource_available s ! k" by (simp add: consume_def ur)
    then show ?thesis using Cons.IH[of "consume e ur s"] Cons.prems len False by (simp add: ur)
  qed
qed simp

lemma sub_wraps:
  fixes a :: u32
  assumes "m < 2 ^ 32"
  shows "unat (a - of_nat m) = (if m \<le> unat a then unat a - m else unat a + 2 ^ 32 - m)"
proof -
  have m: "unat (of_nat m :: u32) = m" using assms by (simp add: unat_of_nat)
  then show ?thesis by (auto simp: unat_sub_if_size word_size)
qed

text \<open>C17. What a step takes from a consumable resource. Each entry of \<open>resource_uses\<close> is tested alone, against
  the units available before the step, and all entries are taken from what the effects leave. The counter
  is exact when these units cover the sum of the entries; otherwise the step is admitted all the same and
  the 32-bit counter wraps, to \<open>2 ^ 32\<close> more than the difference. (The sum of the entries stays below
  \<open>2 ^ 32\<close>.)\<close>

theorem double_use_wraps:
  assumes t: "apply_action e n i = Inr t"
    and eff: "apply_effects e (ac_effects (df_actions (se_definition e) ! i)) (sn_state n) = Inr s1"
    and k: "k < length (resource_available s1)" "rs_kind (df_resources (se_definition e) ! k) = RK_CONSUMABLE"
    and few: "units_taken e i k < 2 ^ 32"
  shows "(\<forall>u. (u, k) \<in> set (uses_at e i) \<longrightarrow> ru_units u \<le> resource_available (sn_state n) ! k) \<and>
    unat (resource_available (tr_state t) ! k) =
      (if units_taken e i k \<le> unat (resource_available s1 ! k) then unat (resource_available s1 ! k) - units_taken e i k
       else unat (resource_available s1 ! k) + 2 ^ 32 - units_taken e i k)"
proof (rule apply_action_cases[OF t])
  fix bindings s2
  assume uses: "\<forall>ur\<in>set (uses_at e i). check_resource_use e (sn_state n) (sn_holds n) ur = None"
    and s2: "apply_effects e (ac_effects (df_actions (se_definition e) ! i)) (sn_state n) = Inr s2"
    and fin: "finish_step e n i (remdups_adj (sort_by evidence_binding_less bindings)) (fold (consume e) (uses_at e i) s2) = Inr t"
  have "ru_units u \<le> resource_available (sn_state n) ! k" if "(u, k) \<in> set (uses_at e i)" for u
    using uses[rule_format, OF that] k(2) by (simp add: check_resource_use_def not_less split: if_splits)
  moreover have "resource_available (tr_state t) ! k = resource_available s1 ! k - of_nat (units_taken e i k)"
    using fin s2 eff fold_consume[OF k(2,1), of "uses_at e i"]
    by (auto simp: finish_step_def Let_def units_taken_def split: if_splits option.splits)
  ultimately show ?thesis using sub_wraps[OF few, of "resource_available s1 ! k"] by auto
qed

theorem double_use_wraps_witness:
  "case apply_action (env_of double_use_definition) (node_at double_use_state) 0 of
     Inl b \<Rightarrow> False
   | Inr t \<Rightarrow> unat (resource_available (tr_state t) ! 0) = 2 ^ 32 - 1"
proof -
  let ?e = "env_of double_use_definition" and ?n = "node_at double_use_state"
  obtain t where t: "apply_action ?e ?n 0 = Inr t" using double_use_step by blast
  have "units_taken ?e 0 0 = 2" by (simp add: units_taken_def uses_at_def double_use_simps double_use_env)
  then show ?thesis
    using double_use_wraps[OF t, of double_use_state 0] t by (simp add: double_use_simps double_use_env node_at_def)
qed

end
