(* ===== verification/NRP_Paths.thy ===== *)
theory NRP_Paths
  imports NRP_Transition
begin

text \<open>
  What the search has to find, without the search: plans are sequences of actions, each
  admissible where it is executed, and their score is the accumulated objective together with
  the sequence of action identities (the total order of \<open>src/objective.cpp\<close>).

  The locale \<open>cost_system\<close> is the contract between the transition function and the search: what a
  step keeps and what it costs. Its two lemmas are the whole optimality argument: a table of
  incumbent scores that is closed under the steps of every entry not on the frontier covers all
  plans. \<open>plan_space\<close> interprets it on the planner's own transition.
\<close>

section \<open>Scores along a path\<close>

type_synonym score = "objective \<times> strong_id list"

definition score_extend :: "objective \<Rightarrow> strong_id \<Rightarrow> score \<Rightarrow> score option" where
  "score_extend d a l = map_option (\<lambda>s. (s, snd l @ [a])) (objective_add (fst l) d)"

lemma append_mono_same_length:
  fixes xs ys :: "u64 list"
  shows "length xs = length ys \<Longrightarrow> xs < ys \<Longrightarrow> xs @ zs < ys @ zs"
  by (induction xs ys rule: list_induct2) auto

lemma score_extend_mono:
  assumes "score_le l m" "length (snd l) = length (snd m)"
    and "score_extend d a l = Some l'" "score_extend d a m = Some m'"
  shows "score_le l' m'"
proof -
  obtain x y where x: "objective_add (fst l) d = Some x" "l' = (x, snd l @ [a])"
    and y: "objective_add (fst m) d = Some y" "m' = (y, snd m @ [a])"
    using assms(3,4) by (auto simp: score_extend_def)
  consider "component (fst l) < component (fst m)" | "fst l = fst m" "snd l \<le> snd m"
    using assms(1) by (auto simp: score_le_key score_key_def component_inj less_le)
  then show ?thesis
  proof cases
    case 1
    then have "component x < component y" using objective_add_mono(1)[OF x(1) y(1)] by simp
    then show ?thesis by (simp add: x y score_le_key score_key_def)
  next
    case 2
    then have "x = y" using x y by simp
    moreover have "snd l @ [a] \<le> snd m @ [a]"
      using 2 assms(2) append_mono_same_length by (metis order_le_less order_refl)
    ultimately have "score_key l' \<le> score_key m'" by (auto simp: x y score_key_def order_le_less)
    then show ?thesis by (simp add: score_le_key)
  qed
qed

lemma score_extend_greater:
  "score_extend d a l = Some l' \<Longrightarrow> d \<noteq> zero_objective \<Longrightarrow> score_less l l'"
  using objective_add_greater[of "fst l" d]
  by (auto simp: score_extend_def score_less_key score_key_def)

lemma length_score_extend: "score_extend d a l = Some l' \<Longrightarrow> length (snd l') = Suc (length (snd l))"
  by (auto simp: score_extend_def)

text \<open>Executing a sequence of actions, and the score it accumulates.\<close>

fun run_path :: "('c \<Rightarrow> nat \<Rightarrow> ('c \<times> objective) option) \<Rightarrow> 'c \<Rightarrow> nat list \<Rightarrow> 'c option" where
  "run_path st c [] = Some c"
| "run_path st c (a # as) = (case st c a of None \<Rightarrow> None | Some (c', d) \<Rightarrow> run_path st c' as)"

fun score_path ::
  "('c \<Rightarrow> nat \<Rightarrow> ('c \<times> objective) option) \<Rightarrow> (nat \<Rightarrow> strong_id) \<Rightarrow> 'c \<Rightarrow> score \<Rightarrow> nat list \<Rightarrow> score option" where
  "score_path st aid c l [] = Some l"
| "score_path st aid c l (a # as) = (case st c a of None \<Rightarrow> None
     | Some (c', d) \<Rightarrow> (case score_extend d (aid a) l of None \<Rightarrow> None
        | Some l' \<Rightarrow> score_path st aid c' l' as))"

lemma run_path_append:
  "run_path st c (as @ bs) = (case run_path st c as of None \<Rightarrow> None | Some c' \<Rightarrow> run_path st c' bs)"
  by (induction as arbitrary: c) (auto split: option.splits)

lemma score_path_append:
  "run_path st c as = Some c' \<Longrightarrow> score_path st aid c l as = Some l' \<Longrightarrow>
   score_path st aid c l (as @ bs) = score_path st aid c' l' bs"
  by (induction as arbitrary: c l) (auto split: option.splits prod.splits)

lemma score_path_encoding:
  "score_path st aid c l as = Some l' \<Longrightarrow> snd l' = snd l @ map aid as"
  by (induction as arbitrary: c l) (auto simp: score_extend_def split: option.splits)

section \<open>The contract of a step\<close>

locale cost_system =
  fixes wf :: "'e \<Rightarrow> 'c \<Rightarrow> bool"
    and step :: "'e \<Rightarrow> 'c \<Rightarrow> nat \<Rightarrow> ('c \<times> objective) option"
    and moves :: "'e \<Rightarrow> nat"
    and aid :: "'e \<Rightarrow> nat \<Rightarrow> strong_id"
    and depth :: "'e \<Rightarrow> 'c \<Rightarrow> nat"
  assumes step_wf: "wf e c \<Longrightarrow> a < moves e \<Longrightarrow> step e c a = Some (c', d) \<Longrightarrow> wf e c'"
    and step_depth:
      "wf e c \<Longrightarrow> a < moves e \<Longrightarrow> step e c a = Some (c', d) \<Longrightarrow> depth e c' = Suc (depth e c)"
    and step_cost: "step e c a = Some (c', d) \<Longrightarrow> d \<noteq> zero_objective"
begin

definition moves_ok :: "'e \<Rightarrow> nat list \<Rightarrow> bool" where
  "moves_ok e as \<longleftrightarrow> (\<forall>a\<in>set as. a < moves e)"

text \<open>\<open>incumbent\<close> is closed: an entry off the frontier is no goal, and below the depth bound each
  of its steps leads to an entry scoring no worse than the step does.\<close>

definition closed_table ::
  "'e \<Rightarrow> nat \<Rightarrow> ('c \<Rightarrow> bool) \<Rightarrow> ('c \<Rightarrow> score option) \<Rightarrow> 'c set \<Rightarrow> bool" where
  "closed_table e bound goal incumbent frontier \<longleftrightarrow>
     (\<forall>c l. wf e c \<longrightarrow> incumbent c = Some l \<longrightarrow> length (snd l) = depth e c \<and>
        (c \<in> frontier \<or> \<not> goal c \<and> (depth e c < bound \<longrightarrow>
          (\<forall>a<moves e. \<forall>c' d. step e c a = Some (c', d) \<longrightarrow>
             (\<exists>l1 l'. score_extend d (aid e a) l = Some l1 \<and> incumbent c' = Some l' \<and>
                score_le l' l1)))))"

lemma closed_tableD:
  assumes "closed_table e bound goal incumbent frontier" "wf e c" "incumbent c = Some l"
  shows "length (snd l) = depth e c" and "c \<in> frontier \<or> \<not> goal c"
    and "c \<notin> frontier \<Longrightarrow> depth e c < bound \<Longrightarrow> a < moves e \<Longrightarrow> step e c a = Some (c', d) \<Longrightarrow>
      \<exists>l1 l'. score_extend d (aid e a) l = Some l1 \<and> incumbent c' = Some l' \<and> score_le l' l1"
  using assms unfolding closed_table_def by blast+

lemma run_wf:
  "wf e c \<Longrightarrow> moves_ok e as \<Longrightarrow> run_path (step e) c as = Some c' \<Longrightarrow>
   wf e c' \<and> depth e c' = depth e c + length as"
proof (induction as arbitrary: c)
  case (Cons a as)
  then obtain c1 d where st: "step e c a = Some (c1, d)" "run_path (step e) c1 as = Some c'"
    by (auto split: option.splits)
  from Cons.prems have "a < moves e" "moves_ok e as" by (auto simp: moves_ok_def)
  with Cons st step_wf[of e c a] step_depth[of e c a] show ?case by auto
qed simp

lemma score_path_le: "score_path (step e) f c l as = Some l' \<Longrightarrow> score_le l l'"
proof (induction as arbitrary: c l)
  case (Cons a as)
  then obtain c1 d l1 where st: "step e c a = Some (c1, d)" "score_extend d (f a) l = Some l1"
    "score_path (step e) f c1 l1 as = Some l'" by (auto split: option.splits)
  have "score_less l l1" using st step_cost score_extend_greater by blast
  with Cons.IH[OF st(3)] show ?case by (blast intro: score_le_trans score_less_imp_le)
qed simp

text \<open>With an empty frontier, every configuration reachable within the bound has an entry, so none
  of them satisfies the goal.\<close>

lemma exhaustive:
  assumes closed: "closed_table e bound goal incumbent {}"
    and c: "wf e c" "incumbent c = Some l"
    and run: "moves_ok e as" "run_path (step e) c as = Some c'" "depth e c + length as \<le> bound"
  shows "\<not> goal c'"
  using c run
proof (induction as arbitrary: c l)
  case Nil
  with closed_tableD(2)[OF closed] show ?case by auto
next
  case (Cons a as)
  then obtain c1 d where st: "step e c a = Some (c1, d)" and run1: "run_path (step e) c1 as = Some c'"
    by (auto split: option.splits)
  have a: "a < moves e" "moves_ok e as" using Cons.prems by (auto simp: moves_ok_def)
  obtain l1 where "incumbent c1 = Some l1"
    using closed_tableD(3)[OF closed Cons.prems(1,2) _ _ a(1) st] Cons.prems(5) by auto
  moreover have "wf e c1" "depth e c1 = Suc (depth e c)"
    using step_wf step_depth st a Cons.prems by blast+
  ultimately show ?case using Cons.IH[OF _ _ a(2) run1] Cons.prems by auto
qed

text \<open>In general every goal-reaching plan within the bound is matched by a frontier entry that
  scores no worse.\<close>

lemma frontier_covers:
  assumes closed: "closed_table e bound goal incumbent frontier"
    and c: "wf e c" "incumbent c = Some l0" "score_le l0 l" "length (snd l) = depth e c"
    and run: "moves_ok e as" "run_path (step e) c as = Some c'" "depth e c + length as \<le> bound"
    and goal: "goal c'" and score: "score_path (step e) (aid e) c l as = Some l'"
  shows "\<exists>f\<in>frontier. \<exists>m. wf e f \<and> incumbent f = Some m \<and> score_le m l'"
  using c run score
proof (induction as arbitrary: c l l0)
  case Nil
  then have "c \<in> frontier" using closed_tableD(2)[OF closed Nil.prems(1,2)] goal by simp
  with Nil show ?case by (metis option.inject score_path.simps(1))
next
  case (Cons a as)
  then obtain c1 d l1 where st: "step e c a = Some (c1, d)" and run1: "run_path (step e) c1 as = Some c'"
    and l1: "score_extend d (aid e a) l = Some l1"
    and sc1: "score_path (step e) (aid e) c1 l1 as = Some l'" by (auto split: option.splits)
  have a: "a < moves e" "moves_ok e as" using Cons.prems by (auto simp: moves_ok_def)
  have len: "length (snd l0) = depth e c"
    using closed_tableD(1)[OF closed Cons.prems(1,2)] .
  show ?case
  proof (cases "c \<in> frontier")
    case True
    have "score_le l0 l'" using Cons.prems(3) score_path_le[OF Cons.prems(8)] score_le_trans by blast
    with True Cons.prems(1,2) show ?thesis by blast
  next
    case False
    have "depth e c < bound" using Cons.prems(7) by simp
    then obtain m1 m' where m: "score_extend d (aid e a) l0 = Some m1" "incumbent c1 = Some m'"
        "score_le m' m1"
      using closed_tableD(3)[OF closed Cons.prems(1,2) False _ a(1) st] by blast
    have "score_le m1 l1"
      by (rule score_extend_mono[OF Cons.prems(3) _ m(1) l1]) (use len Cons.prems(4) in simp)
    with m(3) have le: "score_le m' l1" by (rule score_le_trans)
    have wf1: "wf e c1" "depth e c1 = Suc (depth e c)"
      using step_wf step_depth st a Cons.prems(1) by blast+
    show ?thesis
      by (rule Cons.IH[OF wf1(1) m(2) le _ a(2) run1 _ sc1])
        (use wf1(2) Cons.prems(4,7) length_score_extend[OF l1] in simp_all)
  qed
qed

end

section \<open>The planner's transition meets the contract\<close>

type_synonym config = "fabric_state \<times> resource_hold list"

text \<open>A search node as \<open>run\<close> and \<open>replay\<close> initialise it, at a given state and hold profile.\<close>

definition config_node :: "search_env \<Rightarrow> config \<Rightarrow> search_node" where
  "config_node e c = \<lparr>sn_state = fst c, sn_holds = snd c, sn_parent = None, sn_action_index = 0,
     sn_depth = 0, sn_incompleteness = incompleteness (se_definition e) (fst c),
     sn_objective = zero_objective\<rparr>"

definition config_step :: "search_env \<Rightarrow> config \<Rightarrow> nat \<Rightarrow> (config \<times> objective) option" where
  "config_step e c a = (case apply_action e (config_node e c) a of
       Inl b \<Rightarrow> None
     | Inr t \<Rightarrow> Some ((tr_state t, tr_holds t), tr_delta t))"

definition config_wf :: "search_env \<Rightarrow> config \<Rightarrow> bool" where
  "config_wf e c \<longleftrightarrow> shape (fst c) = state_shape (se_definition e) \<and>
     occurrences_bounded (se_definition e) (fst c)"

definition config_depth :: "search_env \<Rightarrow> config \<Rightarrow> nat" where
  "config_depth e c = sum_list (map unat (action_occurrences (fst c)))"

definition action_id_at :: "search_env \<Rightarrow> nat \<Rightarrow> strong_id" where
  "action_id_at e a = ac_id (df_actions (se_definition e) ! a)"

definition action_count_of :: "search_env \<Rightarrow> nat" where
  "action_count_of e = length (df_actions (se_definition e))"

lemma shape_eq_iff:
  "shape s = shape t \<longleftrightarrow>
     length (node_operational s) = length (node_operational t) \<and>
     length (link_operational s) = length (link_operational t) \<and>
     length (resource_restored s) = length (resource_restored t) \<and>
     length (resource_available s) = length (resource_available t) \<and>
     length (service_reachable s) = length (service_reachable t) \<and>
     length (action_occurrences s) = length (action_occurrences t) \<and>
     length (node_known s) = length (node_known t) \<and>
     length (link_known s) = length (link_known t) \<and>
     length (resource_known s) = length (resource_known t) \<and>
     length (service_known s) = length (service_known t)"
  by (simp add: shape_def)

lemma config_wf_actions:
  "config_wf e c \<Longrightarrow> length (action_occurrences (fst c)) = length (df_actions (se_definition e))"
  by (simp add: config_wf_def state_shape_def shape_eq_iff blank_state_def)

lemma sum_list_update_Suc:
  "i < length xs \<Longrightarrow> unat v = Suc (unat (xs ! i)) \<Longrightarrow>
   sum_list (map unat (xs[i := v])) = Suc (sum_list (map unat xs))"
  by (induction xs arbitrary: i) (auto split: nat.splits)

interpretation plan_space: cost_system config_wf config_step action_count_of action_id_at config_depth
proof
  fix e c a c' d
  assume "config_step e c a = Some (c', d)"
  then obtain t where t: "apply_action e (config_node e c) a = Inr t"
    and c': "c' = (tr_state t, tr_holds t)" and d: "d = tr_delta t"
    by (auto simp: config_step_def split: sum.splits)
  show "d \<noteq> zero_objective"
    unfolding d by (rule apply_action_cases[OF t], erule finish_step_cases)
      (simp add: step_delta_def zero_objective_def)
  assume wf: "config_wf e c" and a: "a < action_count_of e"
  have occ_len: "length (action_occurrences (fst c)) = length (df_actions (se_definition e))"
    by (rule config_wf_actions[OF wf])
  show "config_wf e c'"
    using wf step_shape[OF t] step_occurrences_bounded[OF t] occ_len
    by (simp add: config_wf_def c' config_node_def)
  show "config_depth e c' = Suc (config_depth e c)"
    using step_occurrences(1,2)[OF t] a occ_len
    by (simp add: config_depth_def c' config_node_def action_count_of_def sum_list_update_Suc)
qed

lemma sum_list_le_pointwise:
  "length xs = length ys \<Longrightarrow> (\<And>i. i < length xs \<Longrightarrow> f (xs ! i) \<le> g (ys ! i)) \<Longrightarrow>
   sum_list (map f xs) \<le> (sum_list (map g ys) :: nat)"
proof (induction xs ys rule: list_induct2)
  case (Cons x xs y ys)
  from Cons.prems[of 0] have "f x \<le> g y" by simp
  moreover have "sum_list (map f xs) \<le> sum_list (map g ys)"
    by (rule Cons.IH) (use Cons.prems[of "Suc _"] in auto)
  ultimately show ?case by simp
qed simp

text \<open>No configuration is deeper than the total occurrence bound.\<close>

definition occurrence_total :: "fabric_definition \<Rightarrow> nat" where
  "occurrence_total d = sum_list (map (\<lambda>a. unat (ac_max_occurrences a)) (df_actions d))"

lemma config_depth_le: "config_wf e c \<Longrightarrow> config_depth e c \<le> occurrence_total (se_definition e)"
  unfolding config_depth_def occurrence_total_def
  by (rule sum_list_le_pointwise)
    (auto simp: config_wf_actions config_wf_def occurrences_bounded_def word_le_nat_alt)

lemma occurrence_bound_fold:
  "\<not> snd (fold add_occurrence_bound as acc) \<Longrightarrow>
   \<not> snd acc \<and> unat (fst (fold add_occurrence_bound as acc)) =
     unat (fst acc) + sum_list (map (\<lambda>a. unat (ac_max_occurrences a)) as)"
proof (induction as arbitrary: acc)
  case (Cons a as)
  show ?case
  proof (cases "add_overflow (fst acc) (ucast (ac_max_occurrences a))")
    case None
    then show ?thesis using Cons.IH[of "(fst acc, True)"] Cons.prems
      by (simp add: add_occurrence_bound_def)
  next
    case (Some s)
    then have "unat s = unat (fst acc) + unat (ac_max_occurrences a)"
      by (simp add: add_overflow_Some_iff)
    moreover have "add_occurrence_bound a acc = (s, snd acc)"
      using Some by (simp add: add_occurrence_bound_def)
    ultimately show ?thesis using Cons.IH[of "(s, snd acc)"] Cons.prems by auto
  qed
qed simp

lemma absolute_step_bound_exact:
  "\<not> cp_occurrence_bound_overflows (build_compiled d ix) \<Longrightarrow>
   unat (cp_absolute_step_bound (build_compiled d ix)) = occurrence_total d"
  using occurrence_bound_fold[of "df_actions d" "(0, False)"]
  by (simp add: build_compiled_def occurrence_total_def)

end
