(* ===== verification/NRP_Search_Correct.thy ===== *)
theory NRP_Search_Correct
  imports NRP_Search
begin

text \<open>
  Correctness of the search of \<open>NRP_Search\<close>: the invariant of the arena, the visited table and
  the frontier, its preservation by every expansion, and what a returned outcome means in terms of
  the plans of \<open>NRP_Paths\<close>.
\<close>

section \<open>State keys identify configurations\<close>

lemma encode_state_append_inj:
  assumes "shape s = shape t"
  shows "encode_state s @ r1 = encode_state t @ r2 \<longleftrightarrow> s = t \<and> r1 = r2"
proof
  assume eq: "encode_state s @ r1 = encode_state t @ r2"
  note inj8 = u8.list_append_inj[where k = 1, OF _ length_w(1) TrueI]
  note inj32 = u32.list_append_inj[where k = 4, OF _ length_w(3) TrueI]
  from assms have len: "length (node_operational s) = length (node_operational t)"
    "length (link_operational s) = length (link_operational t)"
    "length (resource_restored s) = length (resource_restored t)"
    "length (resource_available s) = length (resource_available t)"
    "length (service_reachable s) = length (service_reachable t)"
    "length (action_occurrences s) = length (action_occurrences t)"
    "length (node_known s) = length (node_known t)" "length (link_known s) = length (link_known t)"
    "length (resource_known s) = length (resource_known t)"
    "length (service_known s) = length (service_known t)"
    by (simp_all add: shape_eq_iff)
  have "w_u64 (fs_tick s) @ r1 = w_u64 (fs_tick t) @ r2 \<longleftrightarrow> fs_tick s = fs_tick t \<and> r1 = r2"
    by (auto simp: u64.write_inj)
  with eq show "s = t \<and> r1 = r2"
    by (simp add: encode_state_def inj8 inj32 len)
qed simp

lemma length_encode_hold [simp]: "length (encode_hold h) = 12"
  by (simp add: encode_hold_def)

lemma encode_hold_inj: "encode_hold g = encode_hold h \<longleftrightarrow> g = h"
  by (auto simp: encode_hold_def u32.write_inj)

lemma encode_holds_inj: "w_list encode_hold xs = w_list encode_hold ys \<longleftrightarrow> xs = ys"
proof
  assume eq: "w_list encode_hold xs = w_list encode_hold ys"
  then have "length (w_list encode_hold xs) = length (w_list encode_hold ys)" by simp
  then have "length xs = length ys" by (simp add: w_list_def length_concat_const[where k = 12])
  moreover from eq have "concat (map encode_hold xs) = concat (map encode_hold ys)"
    by (simp add: w_list_def)
  ultimately show "xs = ys" by (intro concat_map_inj[of xs ys encode_hold]) (auto simp: encode_hold_inj)
qed simp

definition node_config :: "search_node \<Rightarrow> config" where
  "node_config n = (sn_state n, sn_holds n)"

lemma key_of_eq_iff:
  assumes "config_wf e (node_config n)" "config_wf e (node_config m)"
  shows "key_of n = key_of m \<longleftrightarrow> node_config n = node_config m"
  using assms encode_state_append_inj[of "sn_state n" "sn_state m"] encode_holds_inj
  by (auto simp: key_of_def node_config_def config_wf_def)

interpretation state_keys: strict_total_order "(<) :: bytes \<Rightarrow> bytes \<Rightarrow> bool"
  by unfold_locales auto

section \<open>Scores of arena nodes\<close>

definition node_score :: "search_env \<Rightarrow> search_node list \<Rightarrow> nat \<Rightarrow> score" where
  "node_score e arena i = (sn_objective (arena ! i), encoding_of e arena i)"

lemma frontier_less_score:
  "frontier_less e arena a b \<longleftrightarrow> score_less (node_score e arena a) (node_score e arena b)"
  by (simp add: frontier_less_def score_less_def scored_plan_less_def node_score_def)

lemma frontier_order: "strict_weak_order (frontier_less e arena)"
  by (rule strict_weak_order_key[of _ "\<lambda>i. score_key (node_score e arena i)"])
    (simp add: frontier_less_score score_less_key)

lemma encoding_of_append: "i < length arena \<Longrightarrow> encoding_of e (arena @ xs) i = encoding_of e arena i"
proof (induction i rule: less_induct)
  case (less i)
  then show ?case by (subst (1 2) encoding_of.simps) (auto simp: nth_append split: option.splits)
qed

lemma node_score_append [simp]:
  "i < length arena \<Longrightarrow> node_score e (arena @ xs) i = node_score e arena i"
  by (simp add: node_score_def encoding_of_append nth_append)

lemma encoding_of_child:
  assumes "sn_parent child = Some cur" "cur < length arena"
  shows "encoding_of e (arena @ [child]) (length arena) =
    encoding_of e arena cur @ [action_id_at e (sn_action_index child)]"
  using assms by (subst encoding_of.simps) (simp add: encoding_of_append)

lemma child_better_score:
  assumes "sn_parent child = Some cur" "sn_action_index child = i" "cur < length arena" "j < length arena"
  shows "child_better e arena cur i child j \<longleftrightarrow>
    score_less (node_score e (arena @ [child]) (length arena)) (node_score e arena j)"
  using assms
  by (auto simp: child_better_def Let_def score_less_def scored_plan_less_def node_score_def
      encoding_of_child)

section \<open>The invariant\<close>

definition plan_path :: "search_env \<Rightarrow> fabric_state \<Rightarrow> nat list \<Rightarrow> config option" where
  "plan_path e s path = (if \<forall>a\<in>set path. a < action_count_of e
     then run_path (config_step e) (s, []) path else None)"

definition plan_score :: "search_env \<Rightarrow> fabric_state \<Rightarrow> nat list \<Rightarrow> score option" where
  "plan_score e s path = score_path (config_step e) (action_id_at e) (s, []) (zero_objective, []) path"

definition step_bound :: "search_env \<Rightarrow> nat" where
  "step_bound e = unat (min (max_plan_steps (se_policy e)) (absolute_bound e))"

text \<open>Every arena node is the end of an admissible plan with the score the node claims.\<close>

definition node_ok :: "search_env \<Rightarrow> fabric_state \<Rightarrow> search_node list \<Rightarrow> nat \<Rightarrow> bool" where
  "node_ok e s arena i \<longleftrightarrow>
     (\<exists>path. plan_path e s path = Some (node_config (arena ! i)) \<and>
             plan_score e s path = Some (node_score e arena i)) \<and>
     sn_incompleteness (arena ! i) = incompleteness (se_definition e) (sn_state (arena ! i)) \<and>
     unat (sn_depth (arena ! i)) = config_depth e (node_config (arena ! i)) \<and>
     config_depth e (node_config (arena ! i)) \<le> step_bound e"

definition arena_ok :: "search_env \<Rightarrow> fabric_state \<Rightarrow> search_node list \<Rightarrow> bool" where
  "arena_ok e s arena \<longleftrightarrow> (\<forall>i<length arena. node_ok e s arena i) \<and>
     inj_on (node_score e arena) {..<length arena}"

text \<open>The visited table names, for every key in the arena, the best node with that key.\<close>

definition visited_ok :: "search_env \<Rightarrow> search_node list \<Rightarrow> (bytes \<times> nat) list \<Rightarrow> bool" where
  "visited_ok e arena visited \<longleftrightarrow> sorted_wrt (<) (map fst visited) \<and>
     (\<forall>k m. map_of visited k = Some m \<longrightarrow> m < length arena \<and> key_of (arena ! m) = k) \<and>
     (\<forall>i<length arena. \<exists>m. map_of visited (key_of (arena ! i)) = Some m \<and>
        score_le (node_score e arena m) (node_score e arena i))"

definition frontier_ok :: "search_env \<Rightarrow> search_node list \<Rightarrow> nat list \<Rightarrow> bool" where
  "frontier_ok e arena frontier \<longleftrightarrow>
     sorted_wrt (frontier_less e arena) frontier \<and> set frontier \<subseteq> {..<length arena}"

definition incumbent :: "search_env \<Rightarrow> search_state \<Rightarrow> config \<Rightarrow> score option" where
  "incumbent e x c = map_option (node_score e (sx_arena x))
     (map_of (sx_visited x) (key_of (config_node e c)))"

definition open_configs :: "search_state \<Rightarrow> config set" where
  "open_configs x = {node_config (sx_arena x ! m) | m.
     m \<in> set (sx_frontier x) \<and> map_of (sx_visited x) (key_of (sx_arena x ! m)) = Some m}"

definition goal_config :: "search_env \<Rightarrow> config \<Rightarrow> bool" where
  "goal_config e c = goals_satisfied e (fst c)"

text \<open>\<open>pending\<close> is the node under expansion, if any.\<close>

definition search_inv :: "search_env \<Rightarrow> fabric_state \<Rightarrow> config set \<Rightarrow> search_state \<Rightarrow> bool" where
  "search_inv e s pending x \<longleftrightarrow> arena_ok e s (sx_arena x) \<and> visited_ok e (sx_arena x) (sx_visited x) \<and>
     frontier_ok e (sx_arena x) (sx_frontier x) \<and>
     (\<exists>l. incumbent e x (s, []) = Some l \<and> score_le l (zero_objective, [])) \<and>
     plan_space.closed_table e (step_bound e) (goal_config e) (incumbent e x)
       (open_configs x \<union> pending) \<and>
     oc_effective_step_bound (sx_outcome x) = min (max_plan_steps (se_policy e)) (absolute_bound e)"

text \<open>What the search relies on: the state vectors fit the definition, action identities are
  distinct, and the depth counter of 32 bits is wide enough.\<close>

definition search_ready :: "search_env \<Rightarrow> fabric_state \<Rightarrow> bool" where
  "search_ready e s \<longleftrightarrow> config_wf e (s, []) \<and> distinct (map ac_id (df_actions (se_definition e))) \<and>
     occurrence_total (se_definition e) < 2 ^ 32 \<and> config_depth e (s, []) = 0"

section \<open>Facts about arena nodes\<close>

lemma node_config_config_node [simp]: "node_config (config_node e c) = c"
  by (simp add: node_config_def config_node_def)

lemma key_of_config: "key_of n = key_of (config_node e (node_config n))"
  by (simp add: key_of_def node_config_def config_node_def)

lemma key_of_eqI: "node_config n = node_config m \<Longrightarrow> key_of n = key_of m"
  by (metis key_of_config)

lemma node_ok_append [simp]:
  "i < length arena \<Longrightarrow> node_ok e s (arena @ xs) i \<longleftrightarrow> node_ok e s arena i"
  by (simp add: node_ok_def nth_append)

lemma plan_path_wf:
  assumes "search_ready e s" "plan_path e s path = Some c"
  shows "config_wf e c" "config_depth e c = length path"
  using assms plan_space.run_wf[of e "(s, [])" path c]
  by (auto simp: plan_path_def search_ready_def plan_space.moves_ok_def split: if_splits)

lemma node_wf: "search_ready e s \<Longrightarrow> node_ok e s arena i \<Longrightarrow> config_wf e (node_config (arena ! i))"
  using plan_path_wf unfolding node_ok_def by blast

lemma plan_score_encoding: "plan_score e s path = Some l \<Longrightarrow> snd l = map (action_id_at e) path"
  using score_path_encoding[of "config_step e" "action_id_at e" "(s, [])" "(zero_objective, [])" path l]
  by (simp add: plan_score_def)

lemma node_score_length:
  assumes "search_ready e s" "node_ok e s arena i"
  shows "length (snd (node_score e arena i)) = config_depth e (node_config (arena ! i))"
proof -
  obtain path where "plan_path e s path = Some (node_config (arena ! i))"
    "plan_score e s path = Some (node_score e arena i)" using assms(2) by (auto simp: node_ok_def)
  with plan_path_wf(2)[OF assms(1)] plan_score_encoding show ?thesis by (metis length_map)
qed

text \<open>Distinct identities: a plan is determined by its encoding.\<close>

lemma plan_encoding_inj:
  assumes "search_ready e s" "plan_path e s p = Some c" "plan_path e s q = Some c'"
    and "map (action_id_at e) p = map (action_id_at e) q"
  shows "p = q"
proof -
  have "inj_on (action_id_at e) {..<action_count_of e}"
    using assms(1) by (auto simp: search_ready_def inj_on_def action_id_at_def action_count_of_def
        distinct_conv_nth)
  moreover have "set p \<union> set q \<subseteq> {..<action_count_of e}"
    using assms(2,3) by (auto simp: plan_path_def split: if_splits)
  ultimately show ?thesis using assms(4) by (meson inj_on_map_eq_map inj_on_subset)
qed

lemma same_score_same_config:
  assumes "search_ready e s" "node_ok e s arena i" "node_ok e s arena j"
    and "node_score e arena i = node_score e arena j"
  shows "node_config (arena ! i) = node_config (arena ! j)"
proof -
  obtain p q where p: "plan_path e s p = Some (node_config (arena ! i))"
      "plan_score e s p = Some (node_score e arena i)"
    and q: "plan_path e s q = Some (node_config (arena ! j))"
      "plan_score e s q = Some (node_score e arena j)"
    using assms(2,3) unfolding node_ok_def by blast
  have "p = q"
    by (rule plan_encoding_inj[OF assms(1) p(1) q(1)])
      (metis plan_score_encoding p(2) q(2) assms(4))
  with p(1) q(1) show ?thesis by simp
qed

lemma apply_action_node:
  "node_ok e s arena i \<Longrightarrow>
   apply_action e (arena ! i) a = apply_action e (config_node e (node_config (arena ! i))) a"
  by (rule apply_action_cong) (simp_all add: node_ok_def config_node_def node_config_def)

lemma config_step_node:
  assumes "node_ok e s arena i"
  shows "config_step e (node_config (arena ! i)) a = Some (c', d) \<longleftrightarrow>
    (\<exists>t. apply_action e (arena ! i) a = Inr t \<and> c' = (tr_state t, tr_holds t) \<and> d = tr_delta t)"
  unfolding config_step_def apply_action_node[OF assms] by (auto split: sum.splits)

section \<open>Generating a child\<close>

lemma child_node_ok:
  assumes ready: "search_ready e s" and cur: "cur < length arena" "node_ok e s arena cur"
    and i: "i < action_count_of e" and t: "apply_action e (arena ! cur) i = Inr t"
    and sum: "objective_add (sn_objective (arena ! cur)) (tr_delta t) = Some summed"
    and deep: "config_depth e (node_config (arena ! cur)) < step_bound e"
  defines "child \<equiv> make_child e (arena ! cur) cur i t summed"
  shows "node_ok e s (arena @ [child]) (length arena)"
    and "score_extend (tr_delta t) (action_id_at e i) (node_score e arena cur) =
      Some (node_score e (arena @ [child]) (length arena))"
proof -
  let ?c = "node_config (arena ! cur)" and ?c' = "(tr_state t, tr_holds t)"
  have enc: "encoding_of e (arena @ [child]) (length arena) =
      encoding_of e arena cur @ [action_id_at e i]"
    using encoding_of_child[of child cur arena e] cur(1) by (simp add: child_def make_child_def)
  have score: "node_score e (arena @ [child]) (length arena) = (summed, encoding_of e arena cur @ [action_id_at e i])"
    using enc by (simp add: node_score_def child_def make_child_def)
  show ext: "score_extend (tr_delta t) (action_id_at e i) (node_score e arena cur) =
      Some (node_score e (arena @ [child]) (length arena))"
    by (simp add: score_extend_def score sum node_score_def[of e arena])
  have step: "config_step e ?c i = Some (?c', tr_delta t)"
    using config_step_node[OF cur(2)] t by blast
  obtain path where p: "plan_path e s path = Some ?c" "plan_score e s path = Some (node_score e arena cur)"
    using cur(2) by (auto simp: node_ok_def)
  have p': "plan_path e s (path @ [i]) = Some ?c'"
    using p(1) i step by (auto simp: plan_path_def run_path_append split: if_splits)
  have run: "run_path (config_step e) (s, []) path = Some ?c"
    using p(1) by (auto simp: plan_path_def split: if_splits)
  have "plan_score e s (path @ [i]) = Some (node_score e (arena @ [child]) (length arena))"
    using score_path_append[OF run p(2)[unfolded plan_score_def]] step ext by (simp add: plan_score_def)
  moreover have "node_config child = ?c'" by (simp add: child_def make_child_def node_config_def)
  moreover have "unat (sn_depth child) = config_depth e ?c' \<and> config_depth e ?c' \<le> step_bound e"
  proof -
    have wf': "config_wf e ?c'" and d': "config_depth e ?c' = Suc (config_depth e ?c)"
      using plan_path_wf[OF ready p'] plan_path_wf(2)[OF ready p(1)] by simp_all
    have "config_depth e ?c' < 2 ^ 32"
      using config_depth_le[OF wf'] ready by (simp add: search_ready_def)
    moreover have "unat (sn_depth (arena ! cur)) = config_depth e ?c" using cur(2) by (simp add: node_ok_def)
    ultimately show ?thesis
      using deep by (simp add: child_def make_child_def d' unat_word_ariths)
  qed
  ultimately show "node_ok e s (arena @ [child]) (length arena)"
    using p' by (auto simp: node_ok_def child_def make_child_def)
qed

section \<open>Pushing a child keeps the invariant\<close>

lemma visited_best:
  assumes "visited_ok e arena visited" "i < length arena"
  obtains m where "map_of visited (key_of (arena ! i)) = Some m" "m < length arena"
    "score_le (node_score e arena m) (node_score e arena i)"
  using assms unfolding visited_ok_def by blast

text \<open>The hypotheses under which \<open>push_child\<close> is called.\<close>

definition pushable :: "search_env \<Rightarrow> fabric_state \<Rightarrow> search_node \<Rightarrow> search_state \<Rightarrow> bool" where
  "pushable e s child x \<longleftrightarrow> node_ok e s (sx_arena x @ [child]) (length (sx_arena x)) \<and>
     (\<forall>m. map_of (sx_visited x) (key_of child) = Some m \<longrightarrow>
        score_less (node_score e (sx_arena x @ [child]) (length (sx_arena x)))
                   (node_score e (sx_arena x) m))"

lemma pushable_new_score:
  assumes ready: "search_ready e s" and a: "arena_ok e s (sx_arena x)"
    and v: "visited_ok e (sx_arena x) (sx_visited x)" and p: "pushable e s child x"
    and j: "j < length (sx_arena x)"
  shows "node_score e (sx_arena x) j \<noteq> node_score e (sx_arena x @ [child]) (length (sx_arena x))"
proof
  let ?A = "sx_arena x" and ?n = "length (sx_arena x)"
  assume eq: "node_score e ?A j = node_score e (?A @ [child]) ?n"
  have "node_ok e s (?A @ [child]) j" using a j by (simp add: arena_ok_def)
  from same_score_same_config[OF ready this, of ?n] p eq j
  have "node_config (?A ! j) = node_config child" by (simp add: pushable_def nth_append)
  then have "key_of (?A ! j) = key_of child" by (rule key_of_eqI)
  with visited_best[OF v j] obtain m where m: "map_of (sx_visited x) (key_of child) = Some m"
    "score_le (node_score e ?A m) (node_score e ?A j)" by metis
  then have "score_less (node_score e (?A @ [child]) ?n) (node_score e ?A m)"
    using p by (simp add: pushable_def)
  with m(2) eq show False by (simp add: score_le_def)
qed

lemma push_arena_ok:
  assumes "search_ready e s" "arena_ok e s (sx_arena x)" "visited_ok e (sx_arena x) (sx_visited x)"
    and "pushable e s child x"
  shows "arena_ok e s (sx_arena (push_child e child x))"
proof -
  let ?A = "sx_arena x" and ?n = "length (sx_arena x)"
  have "inj_on (node_score e (?A @ [child])) {..<?n}"
    using assms(2) by (auto simp: arena_ok_def inj_on_def)
  moreover have "node_score e (?A @ [child]) ?n \<notin> node_score e (?A @ [child]) ` {..<?n}"
    using pushable_new_score[OF assms] by force
  ultimately have "inj_on (node_score e (?A @ [child])) {..<Suc ?n}"
    by (simp add: lessThan_Suc)
  then show ?thesis using assms(2,4)
    by (auto simp: arena_ok_def push_child_def Let_def pushable_def less_Suc_eq)
qed

lemma push_lookup:
  assumes "visited_ok e (sx_arena x) (sx_visited x)"
  shows "map_of (sx_visited (push_child e child x)) =
    (map_of (sx_visited x))(key_of child \<mapsto> length (sx_arena x))"
  using assms by (simp add: push_child_def Let_def visited_ok_def state_keys.lookup_put)

lemma push_visited_ok:
  assumes v: "visited_ok e (sx_arena x) (sx_visited x)" and p: "pushable e s child x"
  shows "visited_ok e (sx_arena (push_child e child x)) (sx_visited (push_child e child x))"
proof -
  let ?A = "sx_arena x" and ?n = "length (sx_arena x)" and ?V = "map_of (sx_visited x)"
  let ?y = "push_child e child x"
  have arena: "sx_arena ?y = ?A @ [child]" by (simp add: push_child_def Let_def)
  have sorted: "sorted_wrt (<) (map fst (sx_visited ?y))"
    using v by (simp add: push_child_def Let_def visited_ok_def state_keys.ordered_put)
  have named: "m < length (?A @ [child]) \<and> key_of ((?A @ [child]) ! m) = k"
    if "map_of (sx_visited ?y) k = Some m" for k m
    using that v by (auto simp: push_lookup[OF v] visited_ok_def nth_append less_Suc_eq split: if_splits)
  have best: "\<exists>m. map_of (sx_visited ?y) (key_of ((?A @ [child]) ! i)) = Some m \<and>
      score_le (node_score e (?A @ [child]) m) (node_score e (?A @ [child]) i)" if "i < Suc ?n" for i
  proof (cases "i = ?n")
    case True
    then show ?thesis by (simp add: push_lookup[OF v])
  next
    case False
    with that have i: "i < ?n" by simp
    obtain m where m: "?V (key_of (?A ! i)) = Some m" "m < ?n"
      "score_le (node_score e ?A m) (node_score e ?A i)" by (rule visited_best[OF v i])
    show ?thesis
    proof (cases "key_of (?A ! i) = key_of child")
      case True
      with p m have "score_less (node_score e (?A @ [child]) ?n) (node_score e ?A m)"
        by (simp add: pushable_def)
      with m(3) have "score_le (node_score e (?A @ [child]) ?n) (node_score e ?A i)"
        by (blast intro: score_le_trans score_less_imp_le)
      with i True show ?thesis by (simp add: push_lookup[OF v] nth_append)
    next
      case False
      with m i show ?thesis by (simp add: push_lookup[OF v] nth_append)
    qed
  qed
  show ?thesis unfolding visited_ok_def arena using sorted named best by simp
qed

lemma push_frontier_ok:
  assumes ready: "search_ready e s" and a: "arena_ok e s (sx_arena x)"
    and v: "visited_ok e (sx_arena x) (sx_visited x)" and f: "frontier_ok e (sx_arena x) (sx_frontier x)"
    and p: "pushable e s child x"
  shows "frontier_ok e (sx_arena (push_child e child x)) (sx_frontier (push_child e child x))"
    and "set (sx_frontier (push_child e child x)) = insert (length (sx_arena x)) (set (sx_frontier x))"
proof -
  let ?A = "sx_arena x" and ?n = "length (sx_arena x)" and ?lt = "frontier_less e (sx_arena x @ [child])"
  have sub: "set (sx_frontier x) \<subseteq> {..<?n}" using f by (simp add: frontier_ok_def)
  have old: "sorted_wrt ?lt (sx_frontier x)"
  proof (rule sorted_wrt_mono_rel)
    show "sorted_wrt (frontier_less e ?A) (sx_frontier x)" using f by (simp add: frontier_ok_def)
    fix a b assume "a \<in> set (sx_frontier x)" "b \<in> set (sx_frontier x)" "frontier_less e ?A a b"
    with sub show "?lt a b" by (simp add: frontier_less_score subset_iff)
  qed
  have "?lt ?n y \<or> ?lt y ?n" if "y \<in> set (sx_frontier x)" for y
  proof -
    have y: "y < ?n" using that sub by auto
    have "score_less (node_score e ?A y) (node_score e (?A @ [child]) ?n) \<or>
        score_less (node_score e (?A @ [child]) ?n) (node_score e ?A y)"
      by (rule score_less_total[OF pushable_new_score[OF ready a v p y]])
    with y show ?thesis by (auto simp: frontier_less_score)
  qed
  from strict_weak_order.set_insert_new[OF frontier_order this]
  show set: "set (sx_frontier (push_child e child x)) = insert ?n (set (sx_frontier x))"
    by (simp add: push_child_def Let_def)
  show "frontier_ok e (sx_arena (push_child e child x)) (sx_frontier (push_child e child x))"
    using strict_weak_order.sorted_set_insert[OF frontier_order old] set sub
    by (auto simp: frontier_ok_def push_child_def Let_def)
qed

section \<open>The table stays closed\<close>

text \<open>An incumbent is only ever replaced by a better one.\<close>

definition improves :: "search_env \<Rightarrow> search_state \<Rightarrow> search_state \<Rightarrow> bool" where
  "improves e x y \<longleftrightarrow> (\<forall>c l. incumbent e x c = Some l \<longrightarrow>
     (\<exists>l'. incumbent e y c = Some l' \<and> score_le l' l))"

lemma improves_refl [simp]: "improves e x x"
  by (auto simp: improves_def)

lemma improvesD: "improves e x y \<Longrightarrow> incumbent e x c = Some l \<Longrightarrow>
  \<exists>l'. incumbent e y c = Some l' \<and> score_le l' l"
  unfolding improves_def by blast

lemma improves_trans: "improves e x y \<Longrightarrow> improves e y z \<Longrightarrow> improves e x z"
  unfolding improves_def using score_le_trans by blast

lemma push_incumbent:
  assumes v: "visited_ok e (sx_arena x) (sx_visited x)"
  shows "incumbent e (push_child e child x) c =
    (if key_of (config_node e c) = key_of child
     then Some (node_score e (sx_arena x @ [child]) (length (sx_arena x))) else incumbent e x c)"
proof -
  have "map_of (sx_visited x) k = Some m \<Longrightarrow> m < length (sx_arena x)" for k m
    using v by (auto simp: visited_ok_def)
  then show ?thesis
    unfolding incumbent_def push_lookup[OF v]
    by (cases "map_of (sx_visited x) (key_of (config_node e c))")
      (auto simp: push_child_def Let_def)
qed

lemma push_improves:
  assumes v: "visited_ok e (sx_arena x) (sx_visited x)" and p: "pushable e s child x"
  shows "improves e x (push_child e child x)"
  unfolding improves_def
proof (intro allI impI)
  fix c l assume l: "incumbent e x c = Some l"
  show "\<exists>l'. incumbent e (push_child e child x) c = Some l' \<and> score_le l' l"
  proof (cases "key_of (config_node e c) = key_of child")
    case True
    then obtain m where "map_of (sx_visited x) (key_of child) = Some m"
      "l = node_score e (sx_arena x) m" using l by (auto simp: incumbent_def)
    with p True show ?thesis
      unfolding push_incumbent[OF v] pushable_def by (simp add: score_less_imp_le)
  qed (use l in \<open>simp add: push_incumbent[OF v]\<close>)
qed

lemma push_open:
  assumes v: "visited_ok e (sx_arena x) (sx_visited x)"
    and f: "set (sx_frontier x) \<subseteq> {..<length (sx_arena x)}"
    and f': "set (sx_frontier (push_child e child x)) = insert (length (sx_arena x)) (set (sx_frontier x))"
    and c: "c \<in> open_configs x" "key_of (config_node e c) \<noteq> key_of child"
  shows "c \<in> open_configs (push_child e child x)"
proof -
  obtain m where m: "m \<in> set (sx_frontier x)" "map_of (sx_visited x) (key_of (sx_arena x ! m)) = Some m"
    "c = node_config (sx_arena x ! m)" using c(1) by (auto simp: open_configs_def)
  have "m < length (sx_arena x)" using m(1) f by auto
  moreover have "key_of (sx_arena x ! m) \<noteq> key_of child" using c(2) m(3) key_of_config by metis
  ultimately show ?thesis
    using m f' unfolding open_configs_def push_lookup[OF v]
    by (auto simp: push_child_def Let_def nth_append intro!: exI[of _ m])
qed

lemma push_open_child:
  assumes v: "visited_ok e (sx_arena x) (sx_visited x)"
    and f': "set (sx_frontier (push_child e child x)) = insert (length (sx_arena x)) (set (sx_frontier x))"
  shows "node_config child \<in> open_configs (push_child e child x)"
  unfolding open_configs_def push_lookup[OF v] using f'
  by (auto simp: push_child_def Let_def nth_append intro!: exI[of _ "length (sx_arena x)"])

lemma closed_improves:
  assumes closed: "plan_space.closed_table e b g (incumbent e x) (open_configs x \<union> pending)"
    and imp: "improves e x y"
    and entry: "\<And>c l. config_wf e c \<Longrightarrow> incumbent e y c = Some l \<Longrightarrow>
      length (snd l) = config_depth e c \<and>
      (c \<in> open_configs y \<union> pending \<or> incumbent e x c = Some l \<and> c \<notin> open_configs x)"
  shows "plan_space.closed_table e b g (incumbent e y) (open_configs y \<union> pending)"
  unfolding plan_space.closed_table_def
proof (intro allI impI, goal_cases)
  case (1 c l)
  note e = entry[OF 1]
  show ?case
  proof (cases "c \<in> open_configs y \<union> pending")
    case False
    with e have x: "incumbent e x c = Some l" "c \<notin> open_configs x \<union> pending" by auto
    note D = plan_space.closed_tableD[OF closed 1(1) x(1)]
    have "\<exists>l1 l'. score_extend d (action_id_at e a) l = Some l1 \<and> incumbent e y c' = Some l' \<and>
        score_le l' l1"
      if "config_depth e c < b" "a < action_count_of e" "config_step e c a = Some (c', d)" for a c' d
      using D(3)[OF x(2) that] improvesD[OF imp] score_le_trans by metis
    with e D(2) x(2) show ?thesis by blast
  qed (use e in blast)
qed

lemma search_inv_parts:
  assumes "search_inv e s pending x"
  shows "arena_ok e s (sx_arena x)" "visited_ok e (sx_arena x) (sx_visited x)"
    "frontier_ok e (sx_arena x) (sx_frontier x)"
    "\<exists>l. incumbent e x (s, []) = Some l \<and> score_le l (zero_objective, [])"
    "plan_space.closed_table e (step_bound e) (goal_config e) (incumbent e x) (open_configs x \<union> pending)"
    "oc_effective_step_bound (sx_outcome x) = min (max_plan_steps (se_policy e)) (absolute_bound e)"
  using assms unfolding search_inv_def by blast+

lemma effective_bound_simps [simp]:
  "oc_effective_step_bound (count_block b oc) = oc_effective_step_bound oc"
  "oc_effective_step_bound (exhaust oc) = oc_effective_step_bound oc"
  "oc_effective_step_bound (count_generated oc) = oc_effective_step_bound oc"
  "oc_effective_step_bound (count_revisited oc) = oc_effective_step_bound oc"
  "oc_effective_step_bound (raise_high_water k oc) = oc_effective_step_bound oc"
  "oc_effective_step_bound (count_expanded oc) = oc_effective_step_bound oc"
  "oc_effective_step_bound (count_pruned_policy oc) = oc_effective_step_bound oc"
  by (simp_all add: count_block_def exhaust_def count_generated_def count_revisited_def
      raise_high_water_def count_expanded_def count_pruned_policy_def)

lemma incumbent_upd [simp]: "incumbent e (upd_outcome f x) = incumbent e x"
  by (simp add: incumbent_def fun_eq_iff)

lemma open_configs_upd [simp]: "open_configs (upd_outcome f x) = open_configs x"
  by (simp add: open_configs_def)

lemma search_inv_upd:
  "oc_effective_step_bound (f (sx_outcome x)) = oc_effective_step_bound (sx_outcome x) \<Longrightarrow>
   search_inv e s pending (upd_outcome f x) \<longleftrightarrow> search_inv e s pending x"
  by (simp add: search_inv_def)

lemma push_inv:
  assumes ready: "search_ready e s" and inv: "search_inv e s pending x" and p: "pushable e s child x"
  shows "search_inv e s pending (push_child e child x)"
proof -
  note I = search_inv_parts[OF inv]
  let ?y = "push_child e child x"
  note F = push_frontier_ok[OF ready I(1,2,3) p]
  have imp: "improves e x ?y" by (rule push_improves[OF I(2) p])
  have child: "node_ok e s (sx_arena x @ [child]) (length (sx_arena x))"
    using p by (simp add: pushable_def)
  have child_wf: "config_wf e (node_config child)" using node_wf[OF ready child] by simp
  have sub: "set (sx_frontier x) \<subseteq> {..<length (sx_arena x)}" using I(3) by (simp add: frontier_ok_def)
  have "length (snd l) = config_depth e c \<and>
      (c \<in> open_configs ?y \<union> pending \<or> incumbent e x c = Some l \<and> c \<notin> open_configs x)"
    if c: "config_wf e c" "incumbent e ?y c = Some l" for c l
  proof (cases "key_of (config_node e c) = key_of child")
    case True
    then have "c = node_config child" using key_of_eq_iff[of e "config_node e c" child] c(1) child_wf by simp
    moreover have "l = node_score e (sx_arena x @ [child]) (length (sx_arena x))"
      using c(2) True by (simp add: push_incumbent[OF I(2)])
    ultimately show ?thesis
      using push_open_child[OF I(2) F(2)] node_score_length[OF ready child] by simp
  next
    case False
    then have x: "incumbent e x c = Some l" using c(2) by (simp add: push_incumbent[OF I(2)])
    with plan_space.closed_tableD(1)[OF I(5) c(1)] push_open[OF I(2) sub F(2) _ False]
    show ?thesis by blast
  qed
  from closed_improves[OF I(5) imp this]
  have "plan_space.closed_table e (step_bound e) (goal_config e) (incumbent e ?y) (open_configs ?y \<union> pending)" .
  moreover have "\<exists>l. incumbent e ?y (s, []) = Some l \<and> score_le l (zero_objective, [])"
    using I(4) improvesD[OF imp] score_le_trans by blast
  moreover have "oc_effective_step_bound (sx_outcome ?y) = min (max_plan_steps (se_policy e)) (absolute_bound e)"
    using I(6) by (simp add: push_child_def Let_def)
  ultimately show ?thesis
    using push_arena_ok[OF ready I(1,2) p] push_visited_ok[OF I(2) p] F(1) by (simp add: search_inv_def)
qed

section \<open>Expanding a node\<close>

definition expanding :: "search_env \<Rightarrow> fabric_state \<Rightarrow> nat \<Rightarrow> config \<Rightarrow> score \<Rightarrow> search_state \<Rightarrow> bool" where
  "expanding e s cur c l x \<longleftrightarrow> search_inv e s {c} x \<and> cur < length (sx_arena x) \<and>
     map_of (sx_visited x) (key_of (sx_arena x ! cur)) = Some cur \<and>
     node_config (sx_arena x ! cur) = c \<and> node_score e (sx_arena x) cur = l"

definition covered :: "search_env \<Rightarrow> config \<Rightarrow> score \<Rightarrow> search_state \<Rightarrow> nat \<Rightarrow> bool" where
  "covered e c l x a \<longleftrightarrow> (\<forall>c' d. config_step e c a = Some (c', d) \<longrightarrow>
     (\<exists>l1 l'. score_extend d (action_id_at e a) l = Some l1 \<and> incumbent e x c' = Some l' \<and>
        score_le l' l1))"

lemma coveredI:
  "config_step e c a = Some (c', d) \<Longrightarrow> score_extend d (action_id_at e a) l = Some l1 \<Longrightarrow>
   incumbent e x c' = Some l' \<Longrightarrow> score_le l' l1 \<Longrightarrow> covered e c l x a"
  unfolding covered_def by (intro allI impI exI[of _ l1] exI[of _ l']) simp

lemma covered_improves:
  assumes "covered e c l x a" "improves e x y" shows "covered e c l y a"
proof (cases "config_step e c a")
  case (Some r)
  obtain c' d where st: "config_step e c a = Some (c', d)" using Some by (cases r) simp
  then obtain l1 l' where l: "score_extend d (action_id_at e a) l = Some l1"
    "incumbent e x c' = Some l'" "score_le l' l1" using assms(1) unfolding covered_def by blast
  from improvesD[OF assms(2) l(2)] obtain m where "incumbent e y c' = Some m" "score_le m l'" by blast
  with l st show ?thesis by (blast intro: coveredI score_le_trans)
qed (simp add: covered_def)

lemma expanding_upd:
  "oc_effective_step_bound (f (sx_outcome x)) = oc_effective_step_bound (sx_outcome x) \<Longrightarrow>
   expanding e s cur c l (upd_outcome f x) \<longleftrightarrow> expanding e s cur c l x"
  by (simp add: expanding_def search_inv_upd)

lemma improves_upd [simp]: "improves e x (upd_outcome f x)"
  by (auto simp: improves_def)

lemma expanding_push:
  assumes ready: "search_ready e s" and x: "expanding e s cur c l x" and p: "pushable e s child x"
    and other: "key_of (sx_arena x ! cur) \<noteq> key_of child"
  shows "expanding e s cur c l (push_child e child x)"
proof -
  have inv: "search_inv e s {c} x" and cur: "cur < length (sx_arena x)"
    using x by (auto simp: expanding_def)
  have arena: "sx_arena (push_child e child x) = sx_arena x @ [child]"
    by (simp add: push_child_def Let_def)
  show ?thesis
    using x push_inv[OF ready inv p] other cur
    by (simp add: expanding_def arena push_lookup[OF search_inv_parts(2)[OF inv]] nth_append)
qed

text \<open>The three ways an action continues the loop, for one that is admissible.\<close>

lemma expand_action_admissible:
  assumes "expand_action e cur i x = Inr y" "apply_action e (sx_arena x ! cur) i = Inr t"
  defines "x1 \<equiv> upd_outcome count_generated x"
  obtains summed where "objective_add (sn_objective (sx_arena x ! cur)) (tr_delta t) = Some summed"
    and "(\<exists>j. map_of (sx_visited x) (key_of (make_child e (sx_arena x ! cur) cur i t summed)) = Some j \<and>
            \<not> child_better e (sx_arena x) cur i (make_child e (sx_arena x ! cur) cur i t summed) j \<and>
            y = upd_outcome count_revisited x1) \<or>
         (\<forall>j. map_of (sx_visited x) (key_of (make_child e (sx_arena x ! cur) cur i t summed)) = Some j \<longrightarrow>
            child_better e (sx_arena x) cur i (make_child e (sx_arena x ! cur) cur i t summed) j) \<and>
         y = push_child e (make_child e (sx_arena x ! cur) cur i t summed) x1"
  using assms by (auto simp: expand_action_def Let_def split: if_splits option.splits)

lemma expand_action_ok:
  assumes ready: "search_ready e s" and x: "expanding e s cur c l x" and i: "i < action_count_of e"
    and deep: "config_depth e c < step_bound e" and y: "expand_action e cur i x = Inr y"
  shows "expanding e s cur c l y \<and> improves e x y \<and> covered e c l y i"
proof (cases "apply_action e (sx_arena x ! cur) i")
  case (Inl b)
  then have y': "y = upd_outcome (count_block b) x" using y by (simp add: expand_action_def)
  have ok: "node_ok e s (sx_arena x) cur" using x by (auto simp: expanding_def search_inv_def arena_ok_def)
  have "config_step e c i = None"
    using x Inl apply_action_node[OF ok] by (auto simp: expanding_def config_step_def split: sum.splits)
  then show ?thesis using x by (simp add: y' expanding_upd covered_def)
next
  case (Inr t)
  let ?A = "sx_arena x" and ?x1 = "upd_outcome count_generated x" and ?c' = "(tr_state t, tr_holds t)"
  obtain summed where sum: "objective_add (sn_objective (?A ! cur)) (tr_delta t) = Some summed"
    and y': "(\<exists>j. map_of (sx_visited x) (key_of (make_child e (?A ! cur) cur i t summed)) = Some j \<and>
            \<not> child_better e ?A cur i (make_child e (?A ! cur) cur i t summed) j \<and>
            y = upd_outcome count_revisited ?x1) \<or>
         (\<forall>j. map_of (sx_visited x) (key_of (make_child e (?A ! cur) cur i t summed)) = Some j \<longrightarrow>
            child_better e ?A cur i (make_child e (?A ! cur) cur i t summed) j) \<and>
         y = push_child e (make_child e (?A ! cur) cur i t summed) ?x1"
    by (rule expand_action_admissible[OF y Inr])
  define child where "child = make_child e (?A ! cur) cur i t summed"
  have child: "sn_parent child = Some cur" "sn_action_index child = i" "node_config child = ?c'"
    by (simp_all add: child_def make_child_def node_config_def)
  have inv: "search_inv e s {c} x" and cur: "cur < length ?A" and c: "node_config (?A ! cur) = c"
    and l: "node_score e ?A cur = l" using x by (auto simp: expanding_def)
  note I = search_inv_parts[OF inv]
  have ok: "node_ok e s ?A cur" using I(1) cur by (simp add: arena_ok_def)
  note N = child_node_ok[OF ready cur ok i Inr sum, unfolded c, OF deep, folded child_def]
  have step: "config_step e c i = Some (?c', tr_delta t)" using config_step_node[OF ok] Inr c by blast
  have vis: "j < length ?A" if "map_of (sx_visited x) k = Some j" for j k
    using that I(2) by (auto simp: visited_ok_def)
  have covered: "covered e c l y i" if "incumbent e y ?c' = Some l'"
      "score_le l' (node_score e (?A @ [child]) (length ?A))" for l'
    by (rule coveredI[OF step _ that]) (use N(2) l in simp)
  have key: "key_of (config_node e ?c') = key_of child" by (metis child(3) key_of_config)
  from y' show ?thesis unfolding child_def[symmetric]
  proof (elim disjE exE conjE)
    fix j assume j: "map_of (sx_visited x) (key_of child) = Some j"
      and nb: "\<not> child_better e ?A cur i child j" and y: "y = upd_outcome count_revisited ?x1"
    have "score_le (node_score e ?A j) (node_score e (?A @ [child]) (length ?A))"
      using nb child_better_score[OF child(1,2) cur vis[OF j]] by (simp add: score_le_def)
    moreover have "incumbent e y ?c' = Some (node_score e ?A j)"
      using j key by (simp add: y incumbent_def)
    ultimately show ?thesis using covered x improves_trans[OF improves_upd improves_upd]
      by (simp add: y expanding_upd)
  next
    assume better: "\<forall>j. map_of (sx_visited x) (key_of child) = Some j \<longrightarrow> child_better e ?A cur i child j"
      and y: "y = push_child e child ?x1"
    have p: "pushable e s child ?x1"
      using N(1) better child_better_score[OF child(1,2) cur vis] by (simp add: pushable_def)
    have v1: "visited_ok e (sx_arena ?x1) (sx_visited ?x1)" using I(2) by simp
    have "config_depth e ?c' = Suc (config_depth e c)"
      using plan_space.step_depth[OF node_wf[OF ready ok] i] step c by simp
    then have "c \<noteq> ?c'" by auto
    then have other: "key_of (sx_arena ?x1 ! cur) \<noteq> key_of child"
      using key_of_eq_iff[OF node_wf[OF ready ok], of child] node_wf[OF ready N(1)] c child(3) by simp
    have "expanding e s cur c l ?x1" using x by (simp add: expanding_upd)
    from expanding_push[OF ready this p other] have "expanding e s cur c l y" by (simp add: y)
    moreover have "improves e x y"
      unfolding y by (rule improves_trans[OF improves_upd push_improves[OF v1 p]])
    moreover have "incumbent e y ?c' = Some (node_score e (?A @ [child]) (length ?A))"
      using push_incumbent[OF v1, of child ?c'] key by (simp add: y)
    ultimately show ?thesis using covered by simp
  qed
qed

lemma expand_actions_ok:
  assumes "search_ready e s" "expanding e s cur c l x" "\<forall>i\<in>set is. i < action_count_of e"
    and "config_depth e c < step_bound e" "expand_actions e cur is x = Inr y"
  shows "expanding e s cur c l y \<and> improves e x y \<and> (\<forall>i\<in>set is. covered e c l y i)"
  using assms(2-)
proof (induction "is" arbitrary: x)
  case (Cons i "is")
  then obtain z where z: "expand_action e cur i x = Inr z" "expand_actions e cur is z = Inr y"
    by (auto split: sum.splits)
  note A = expand_action_ok[OF assms(1) Cons.prems(1) _ assms(4) z(1)]
  have "expanding e s cur c l y \<and> improves e z y \<and> (\<forall>i\<in>set is. covered e c l y i)"
    by (rule Cons.IH[OF _ _ Cons.prems(3) z(2)]) (use A Cons.prems in auto)
  with A Cons.prems show ?case by (auto intro: improves_trans covered_improves)
qed simp

section \<open>The loop\<close>

text \<open>Plans: admissible sequences within the step bound whose end satisfies the goals.\<close>

definition solves :: "search_env \<Rightarrow> fabric_state \<Rightarrow> nat list \<Rightarrow> bool" where
  "solves e s path \<longleftrightarrow> length path \<le> step_bound e \<and>
     (case plan_path e s path of None \<Rightarrow> False | Some c \<Rightarrow> goals_satisfied e (fst c))"

definition optimal_score :: "search_env \<Rightarrow> fabric_state \<Rightarrow> score \<Rightarrow> bool" where
  "optimal_score e s l \<longleftrightarrow> (\<exists>path. solves e s path \<and> plan_score e s path = Some l) \<and>
     (\<forall>path l'. solves e s path \<longrightarrow> plan_score e s path = Some l' \<longrightarrow> score_le l l')"

text \<open>What a returned state means.\<close>

definition outcome_ok :: "search_env \<Rightarrow> fabric_state \<Rightarrow> search_state \<Rightarrow> bool" where
  "outcome_ok e s y \<longleftrightarrow>
     (oc_found (sx_outcome y) \<longrightarrow>
        optimal_score e s (node_score e (sx_arena y) (oc_plan_node (sx_outcome y)))) \<and>
     (oc_frontier_emptied (sx_outcome y) \<longrightarrow> (\<forall>path. \<not> solves e s path))"

text \<open>Removing the head of the frontier: a stale head was not open, a current one is pending.\<close>

lemma pop_head:
  assumes inv: "search_inv e s {} x" and fr: "sx_frontier x = cur # rest"
  defines "x0 \<equiv> x\<lparr>sx_frontier := rest\<rparr>"
  shows "cur < length (sx_arena x)"
    and "stale_entry x0 cur \<Longrightarrow> search_inv e s {} x0"
    and "\<not> stale_entry x0 cur \<Longrightarrow>
      expanding e s cur (node_config (sx_arena x ! cur)) (node_score e (sx_arena x) cur) x0"
proof -
  note I = search_inv_parts[OF inv]
  show cur: "cur < length (sx_arena x)" using I(3) fr by (simp add: frontier_ok_def)
  have parts: "arena_ok e s (sx_arena x0)" "visited_ok e (sx_arena x0) (sx_visited x0)"
    "frontier_ok e (sx_arena x0) (sx_frontier x0)"
    using I fr by (simp_all add: x0_def frontier_ok_def)
  have inc: "incumbent e x0 = incumbent e x" by (simp add: incumbent_def fun_eq_iff x0_def)
  obtain j where j: "map_of (sx_visited x) (key_of (sx_arena x ! cur)) = Some j"
    by (rule visited_best[OF I(2) cur])
  have stale: "stale_entry x0 cur \<longleftrightarrow> j \<noteq> cur" using j by (simp add: stale_entry_def x0_def)
  { assume "stale_entry x0 cur"
    then have "open_configs x0 = open_configs x"
      using j stale fr by (auto simp: open_configs_def x0_def)
    with parts I inc show "search_inv e s {} x0" by (simp add: search_inv_def x0_def) }
  assume "\<not> stale_entry x0 cur"
  then have "j = cur" using stale by simp
  with j fr have "open_configs x0 \<union> {node_config (sx_arena x ! cur)} = open_configs x"
    by (auto simp: open_configs_def x0_def)
  then have "search_inv e s {node_config (sx_arena x ! cur)} x0"
    using parts I inc by (simp add: search_inv_def) (simp add: x0_def)
  with j \<open>j = cur\<close> cur
  show "expanding e s cur (node_config (sx_arena x ! cur)) (node_score e (sx_arena x) cur) x0"
    by (simp add: expanding_def x0_def)
qed

text \<open>A node that needs no further expansion leaves the pending set.\<close>

lemma close_pending:
  assumes x: "expanding e s cur c l x" and no_goal: "\<not> goal_config e c"
    and all: "config_depth e c < step_bound e \<Longrightarrow> \<forall>a<action_count_of e. covered e c l x a"
  shows "search_inv e s {} x"
proof -
  have inv: "search_inv e s {c} x" and cur: "cur < length (sx_arena x)"
    and c: "node_config (sx_arena x ! cur) = c"
    and v: "map_of (sx_visited x) (key_of (sx_arena x ! cur)) = Some cur"
    and l: "node_score e (sx_arena x) cur = l" using x by (auto simp: expanding_def)
  note I = search_inv_parts[OF inv]
  have key: "key_of (config_node e c) = key_of (sx_arena x ! cur)" using c key_of_config by metis
  have inc: "incumbent e x c = Some l" using v l by (simp add: incumbent_def key)
  have "plan_space.closed_table e (step_bound e) (goal_config e) (incumbent e x) (open_configs x \<union> {})"
    unfolding plan_space.closed_table_def
  proof (intro allI impI, goal_cases)
    case (1 k m)
    note D = plan_space.closed_tableD[OF I(5) 1]
    show ?case
    proof (cases "k = c")
      case True
      with 1(2) inc have "m = l" by simp
      with True no_goal all D(1) show ?thesis unfolding covered_def by blast
    next
      case False
      with D show ?thesis by (metis Un_iff singletonD sup_bot.right_neutral)
    qed
  qed
  with I show ?thesis by (simp add: search_inv_def)
qed

lemma flag_simps [simp]:
  "oc_found (count_block b oc) = oc_found oc" "oc_found (exhaust oc) = oc_found oc"
  "oc_found (count_generated oc) = oc_found oc" "oc_found (count_revisited oc) = oc_found oc"
  "oc_found (raise_high_water k oc) = oc_found oc" "oc_found (count_expanded oc) = oc_found oc"
  "oc_found (count_pruned_policy oc) = oc_found oc"
  "oc_frontier_emptied (count_block b oc) = oc_frontier_emptied oc"
  "oc_frontier_emptied (exhaust oc) = oc_frontier_emptied oc"
  "oc_frontier_emptied (count_generated oc) = oc_frontier_emptied oc"
  "oc_frontier_emptied (count_revisited oc) = oc_frontier_emptied oc"
  "oc_frontier_emptied (raise_high_water k oc) = oc_frontier_emptied oc"
  "oc_frontier_emptied (count_expanded oc) = oc_frontier_emptied oc"
  "oc_frontier_emptied (count_pruned_policy oc) = oc_frontier_emptied oc"
  by (simp_all add: count_block_def exhaust_def count_generated_def count_revisited_def
      raise_high_water_def count_expanded_def count_pruned_policy_def)

definition undecided :: "search_state \<Rightarrow> bool" where
  "undecided x \<longleftrightarrow> \<not> oc_found (sx_outcome x) \<and> \<not> oc_frontier_emptied (sx_outcome x)"

lemma undecided_upd [simp]:
  "oc_found (f (sx_outcome x)) = oc_found (sx_outcome x) \<Longrightarrow>
   oc_frontier_emptied (f (sx_outcome x)) = oc_frontier_emptied (sx_outcome x) \<Longrightarrow>
   undecided (upd_outcome f x) = undecided x"
  by (simp add: undecided_def)

lemma undecided_push [simp]: "undecided (push_child e child x) = undecided x"
  by (simp add: undecided_def push_child_def Let_def)

lemma expand_action_undecided:
  "undecided x \<Longrightarrow> case expand_action e cur i x of Inl y \<Rightarrow> undecided y | Inr y \<Rightarrow> undecided y"
  by (auto simp: expand_action_def Let_def split: sum.splits option.splits)

lemma expand_actions_undecided:
  "undecided x \<Longrightarrow> case expand_actions e cur is x of Inl y \<Rightarrow> undecided y | Inr y \<Rightarrow> undecided y"
proof (induction "is" arbitrary: x)
  case (Cons i "is")
  show ?case
  proof (cases "expand_action e cur i x")
    case (Inr z)
    with Cons.IH[of z] expand_action_undecided[OF Cons.prems, of e cur i] show ?thesis by simp
  qed (use expand_action_undecided[OF Cons.prems, of e cur i] in simp)
qed simp

lemma outcome_ok_undecided: "undecided x \<Longrightarrow> outcome_ok e s (finalise x)"
  by (simp add: outcome_ok_def undecided_def finalise_def)

lemma closed_root:
  assumes "search_ready e s" "search_inv e s {} x"
  obtains l where "config_wf e (s, [])" "config_depth e (s, []) = 0"
    "incumbent e x (s, []) = Some l" "score_le l (zero_objective, [])"
    "plan_space.closed_table e (step_bound e) (goal_config e) (incumbent e x) (open_configs x)"
  using assms search_inv_parts[OF assms(2)] by (auto simp: search_ready_def)

lemma plan_pathD:
  "plan_path e s path = Some c \<Longrightarrow>
   plan_space.moves_ok e path \<and> run_path (config_step e) (s, []) path = Some c"
  by (auto simp: plan_path_def plan_space.moves_ok_def split: if_splits)

lemma emptied_ok:
  assumes ready: "search_ready e s" and inv: "search_inv e s {} x" and fr: "sx_frontier x = []"
  shows "\<not> solves e s path"
proof (rule closed_root[OF ready inv], rule notI)
  fix l
  assume "solves e s path"
  then obtain c where path: "plan_path e s path = Some c" "length path \<le> step_bound e"
    "goals_satisfied e (fst c)" by (auto simp: solves_def split: option.splits)
  assume r: "config_wf e (s, [])" "config_depth e (s, []) = 0" "incumbent e x (s, []) = Some l"
    and cl: "plan_space.closed_table e (step_bound e) (goal_config e) (incumbent e x) (open_configs x)"
  have "open_configs x = {}" by (simp add: open_configs_def fr)
  from plan_space.exhaustive[OF cl[unfolded this] r(1,3), of path c] plan_pathD[OF path(1)] path r(2)
  show False by (simp add: goal_config_def)
qed

lemma head_minimal:
  assumes inv: "search_inv e s {} x" and fr: "sx_frontier x = cur # rest"
    and c: "c \<in> open_configs x" "incumbent e x c = Some m"
  shows "score_le (node_score e (sx_arena x) cur) m"
proof -
  obtain k where k: "k \<in> set (sx_frontier x)" "map_of (sx_visited x) (key_of (sx_arena x ! k)) = Some k"
    "c = node_config (sx_arena x ! k)" using c(1) by (auto simp: open_configs_def)
  have "key_of (config_node e c) = key_of (sx_arena x ! k)" using k(3) key_of_config by metis
  then have m: "m = node_score e (sx_arena x) k" using c(2) k(2) by (simp add: incumbent_def)
  show ?thesis
  proof (cases "k = cur")
    case False
    then have "frontier_less e (sx_arena x) cur k"
      using k(1) fr search_inv_parts(3)[OF inv] by (auto simp: frontier_ok_def)
    then show ?thesis by (simp add: m frontier_less_score score_less_imp_le)
  qed (simp add: m)
qed

lemma found_optimal:
  assumes ready: "search_ready e s" and inv: "search_inv e s {} x" and fr: "sx_frontier x = cur # rest"
    and sol: "solves e s path" and score: "plan_score e s path = Some l"
  shows "score_le (node_score e (sx_arena x) cur) l"
proof (rule closed_root[OF ready inv])
  fix l0
  obtain c where path: "plan_path e s path = Some c" "length path \<le> step_bound e"
    "goals_satisfied e (fst c)" using sol by (auto simp: solves_def split: option.splits)
  assume r: "config_wf e (s, [])" "config_depth e (s, []) = 0" "incumbent e x (s, []) = Some l0"
      "score_le l0 (zero_objective, [])"
    and cl: "plan_space.closed_table e (step_bound e) (goal_config e) (incumbent e x) (open_configs x)"
  have "\<exists>f\<in>open_configs x. \<exists>m. config_wf e f \<and> incumbent e x f = Some m \<and> score_le m l"
    by (rule plan_space.frontier_covers[OF cl r(1,3,4)])
      (use r(2) plan_pathD[OF path(1)] path score in \<open>auto simp: goal_config_def plan_score_def\<close>)
  with head_minimal[OF inv fr] show ?thesis by (meson score_le_trans)
qed

lemma found_ok:
  assumes ready: "search_ready e s" and inv: "search_inv e s {} x" and fr: "sx_frontier x = cur # rest"
    and goal: "goals_satisfied e (sn_state (sx_arena x ! cur))" and und: "undecided x"
  shows "outcome_ok e s (finalise (upd_outcome (\<lambda>oc. oc\<lparr>oc_found := True, oc_plan_node := cur\<rparr>)
    (x\<lparr>sx_frontier := rest\<rparr>)))" (is "outcome_ok e s ?y")
proof -
  have "cur < length (sx_arena x)" by (rule pop_head(1)[OF inv fr])
  then have ok: "node_ok e s (sx_arena x) cur"
    using search_inv_parts(1)[OF inv] by (simp add: arena_ok_def)
  then obtain path where path: "plan_path e s path = Some (node_config (sx_arena x ! cur))"
    "plan_score e s path = Some (node_score e (sx_arena x) cur)" by (auto simp: node_ok_def)
  have "solves e s path"
    using plan_path_wf(2)[OF ready path(1)] ok path(1) goal
    by (simp add: node_ok_def solves_def) (simp add: node_config_def)
  then have "optimal_score e s (node_score e (sx_arena x) cur)"
    unfolding optimal_score_def using path(2) found_optimal[OF ready inv fr] by blast
  then show ?thesis using und by (simp add: outcome_ok_def finalise_def undecided_def)
qed

text \<open>The depth test of the loop is the test on configurations.\<close>

lemma depth_test:
  assumes "expanding e s cur c l x"
  shows "ucast (sn_depth (sx_arena x ! cur)) \<ge> oc_effective_step_bound (sx_outcome x) \<longleftrightarrow>
    step_bound e \<le> config_depth e c"
  using assms by (auto simp: expanding_def search_inv_def arena_ok_def node_ok_def step_bound_def
      word_le_nat_alt)

lemma expand_node_ok:
  assumes ready: "search_ready e s" and x: "expanding e s cur c l x" and und: "undecided x"
    and ng: "\<not> goal_config e c"
  shows "case expand_node e cur x of Inl y \<Rightarrow> outcome_ok e s y | Inr y \<Rightarrow> search_inv e s {} y \<and> undecided y"
proof -
  let ?x1 = "upd_outcome count_expanded x" and ?as = "[0..<length (df_actions (se_definition e))]"
  have x1: "expanding e s cur c l ?x1" and und1: "undecided ?x1"
    using x und by (simp_all add: expanding_upd)
  note depth = depth_test[OF x1]
  show ?thesis
  proof (cases "step_bound e \<le> config_depth e c")
    case True
    then have "search_inv e s {} ?x1" by (intro close_pending[OF x1 ng]) simp
    then have "search_inv e s {} (upd_outcome count_pruned_policy ?x1)" by (subst search_inv_upd) simp_all
    with True depth und show ?thesis by (simp add: expand_node_def)
  next
    case False
    then have deep: "config_depth e c < step_bound e" by simp
    note u = expand_actions_undecided[OF und1, of e cur ?as]
    show ?thesis
    proof (cases "expand_actions e cur ?as ?x1")
      case (Inl y)
      with u False depth show ?thesis by (simp add: expand_node_def outcome_ok_undecided)
    next
      case (Inr y)
      note E = expand_actions_ok[OF ready x1 _ deep Inr]
      have "search_inv e s {} y"
        by (rule close_pending[OF _ ng, of s cur l]) (use E in \<open>auto simp: action_count_of_def\<close>)
      with u Inr False depth show ?thesis by (simp add: expand_node_def)
    qed
  qed
qed

lemma search_step_ok:
  assumes ready: "search_ready e s" and inv: "search_inv e s {} x" and und: "undecided x"
  shows "case search_step e x of Inl y \<Rightarrow> outcome_ok e s y | Inr y \<Rightarrow> search_inv e s {} y \<and> undecided y"
proof (cases "sx_frontier x")
  case Nil
  with emptied_ok[OF ready inv Nil] und show ?thesis
    by (auto simp: search_step_def leave_loop_def outcome_ok_def finalise_def undecided_def)
next
  case (Cons cur rest)
  let ?x0 = "x\<lparr>sx_frontier := rest\<rparr>" and ?n = "sx_arena x ! cur"
  have und0: "undecided ?x0" using und by (simp add: undecided_def)
  note pop = pop_head[OF inv Cons]
  consider "stale_entry ?x0 cur" | "\<not> stale_entry ?x0 cur" "goals_satisfied e (sn_state ?n)"
    | "\<not> stale_entry ?x0 cur" "\<not> goals_satisfied e (sn_state ?n)"
      "oc_nodes_expanded (sx_outcome ?x0) \<ge> max_nodes_expanded (se_policy e)"
    | "\<not> stale_entry ?x0 cur" "\<not> goals_satisfied e (sn_state ?n)"
      "\<not> oc_nodes_expanded (sx_outcome ?x0) \<ge> max_nodes_expanded (se_policy e)" by blast
  then show ?thesis
  proof cases
    case 1
    have "search_inv e s {} (upd_outcome count_revisited ?x0)"
      using pop(2)[OF 1] by (subst search_inv_upd) simp_all
    with 1 und0 Cons show ?thesis by (simp add: search_step_def)
  next
    case 2
    with found_ok[OF ready inv Cons 2(2) und] Cons show ?thesis by (simp add: search_step_def)
  next
    case 3
    have "search_step e x = Inl (finalise (upd_outcome exhaust ?x0))"
      using 3 Cons by (simp add: search_step_def leave_loop_def exhaust_def)
    with und0 show ?thesis by (simp add: outcome_ok_undecided)
  next
    case 4
    then have "\<not> goal_config e (node_config ?n)" by (simp add: goal_config_def node_config_def)
    from expand_node_ok[OF ready pop(3)[OF 4(1)] und0 this] 4 Cons show ?thesis
      by (simp add: search_step_def)
  qed
qed

lemma search_loop_ok:
  "search_ready e s \<Longrightarrow> search_inv e s {} x \<Longrightarrow> undecided x \<Longrightarrow> outcome_ok e s (search_loop e x)"
proof (induction e x rule: search_loop.induct)
  case (1 e x)
  from search_step_ok[OF 1(2,3,4)] 1 show ?case
    by (subst search_loop.simps) (auto split: sum.splits)
qed

section \<open>The initial state of the search\<close>

lemma initial_search_ok:
  assumes ready: "search_ready e s"
  shows "search_inv e s {} (initial_search e s)" "undecided (initial_search e s)"
proof -
  let ?x = "initial_search e s" and ?r = "root_node e s"
  have enc: "encoding_of e [?r] 0 = []"
    by (subst encoding_of.simps) (simp add: root_node_def config_node_def)
  then have score: "node_score e [?r] 0 = (zero_objective, [])"
    by (simp add: node_score_def root_node_def config_node_def)
  have cfg: "node_config ?r = (s, [])" by (simp add: root_node_def)
  have "node_ok e s [?r] 0"
    unfolding node_ok_def
  proof (intro conjI exI[of _ "[]"])
    show "unat (sn_depth ([?r] ! 0)) = config_depth e (node_config ([?r] ! 0))"
      "config_depth e (node_config ([?r] ! 0)) \<le> step_bound e"
      using ready cfg by (simp_all add: search_ready_def) (simp add: root_node_def config_node_def)
  qed (simp_all add: score cfg plan_path_def plan_score_def, simp add: root_node_def config_node_def)
  then have a: "arena_ok e s [?r]" by (simp add: arena_ok_def lessThan_Suc)
  have v: "visited_ok e [?r] [(key_of ?r, 0)]" by (simp add: visited_ok_def)
  have inc: "incumbent e ?x c = (if c = (s, []) then Some (zero_objective, []) else None)"
    if "config_wf e c" for c
    using key_of_eq_iff[of e "config_node e c" ?r] that ready
    by (auto simp: incumbent_def initial_search_def score cfg search_ready_def)
  have op: "open_configs ?x = {(s, [])}"
    by (auto simp: open_configs_def initial_search_def cfg)
  have "plan_space.closed_table e (step_bound e) (goal_config e) (incumbent e ?x) (open_configs ?x \<union> {})"
    unfolding plan_space.closed_table_def op using inc ready by (auto simp: search_ready_def)
  moreover have "frontier_ok e [?r] [0]" by (simp add: frontier_ok_def)
  moreover have "incumbent e ?x (s, []) = Some (zero_objective, [])"
    using inc ready by (simp add: search_ready_def)
  ultimately show "search_inv e s {} ?x"
    using a v by (simp add: search_inv_def) (simp add: initial_search_def initial_outcome_def)
  show "undecided ?x" by (simp add: undecided_def initial_search_def initial_outcome_def)
qed

theorem search_run_ok: "search_ready e s \<Longrightarrow> outcome_ok e s (search_run e s)"
  unfolding search_run_def by (rule search_loop_ok) (auto intro: initial_search_ok)

section \<open>Budgets and verdicts\<close>

text \<open>Between iterations no verdict is set and the counters are within the policy.\<close>

definition within_budget :: "search_env \<Rightarrow> search_state \<Rightarrow> bool" where
  "within_budget e x \<longleftrightarrow> oc_nodes_generated (sx_outcome x) \<le> max_generated_states (se_policy e) \<and>
     oc_nodes_expanded (sx_outcome x) \<le> max_nodes_expanded (se_policy e) \<and>
     length (sx_arena x) \<le> Suc (unat (oc_nodes_generated (sx_outcome x))) \<and>
     length (sx_visited x) \<le> length (sx_arena x)"

definition open_verdict :: "search_outcome \<Rightarrow> bool" where
  "open_verdict oc \<longleftrightarrow> \<not> oc_found oc \<and> \<not> oc_frontier_emptied oc \<and> \<not> oc_budget_exhausted oc"

definition exhausted_verdict :: "search_outcome \<Rightarrow> bool" where
  "exhausted_verdict oc \<longleftrightarrow> \<not> oc_found oc \<and> \<not> oc_frontier_emptied oc \<and> oc_budget_exhausted oc \<and>
     oc_limit_reason oc = RC_SEARCH_BUDGET_EXHAUSTED"

lemma open_verdict_simps [simp]:
  "open_verdict (count_block b oc) = open_verdict oc" "open_verdict (count_generated oc) = open_verdict oc"
  "open_verdict (count_revisited oc) = open_verdict oc" "open_verdict (raise_high_water k oc) = open_verdict oc"
  "open_verdict (count_expanded oc) = open_verdict oc" "open_verdict (count_pruned_policy oc) = open_verdict oc"
  "open_verdict oc \<Longrightarrow> exhausted_verdict (exhaust oc)"
  "open_verdict oc \<Longrightarrow> exhausted_verdict (exhaust (oc\<lparr>oc_accounting_overflow := b2\<rparr>))"
  by (simp_all add: open_verdict_def exhausted_verdict_def count_block_def exhaust_def count_generated_def
      count_revisited_def raise_high_water_def count_expanded_def count_pruned_policy_def)

lemma expanded_simps [simp]:
  "oc_nodes_expanded (count_block b oc) = oc_nodes_expanded oc"
  "oc_nodes_expanded (exhaust oc) = oc_nodes_expanded oc"
  "oc_nodes_expanded (count_generated oc) = oc_nodes_expanded oc"
  "oc_nodes_expanded (count_revisited oc) = oc_nodes_expanded oc"
  "oc_nodes_expanded (raise_high_water k oc) = oc_nodes_expanded oc"
  "oc_nodes_expanded (count_pruned_policy oc) = oc_nodes_expanded oc"
  "oc_nodes_expanded (count_expanded oc) = oc_nodes_expanded oc + 1"
  by (simp_all add: count_block_def exhaust_def count_generated_def count_revisited_def
      raise_high_water_def count_expanded_def count_pruned_policy_def)

lemma within_budget_upd:
  "oc_nodes_generated (f (sx_outcome y)) = oc_nodes_generated (sx_outcome y) \<Longrightarrow>
   oc_nodes_expanded (f (sx_outcome y)) = oc_nodes_expanded (sx_outcome y) \<Longrightarrow>
   within_budget e (upd_outcome f y) = within_budget e y"
  by (simp add: within_budget_def)

lemma length_map_put: "length (map_put lt k v m) \<le> Suc (length m)"
proof (induction m)
  case (Cons a m)
  then show ?case by (cases a) auto
qed simp

lemma expand_action_budget:
  assumes w: "within_budget e x" and o1: "open_verdict (sx_outcome x)"
  shows "case expand_action e cur i x of
    Inl y \<Rightarrow> within_budget e y \<and> exhausted_verdict (sx_outcome y)
  | Inr y \<Rightarrow> within_budget e y \<and> open_verdict (sx_outcome y)"
proof (cases "apply_action e (sx_arena x ! cur) i")
  case (Inl b)
  with assms show ?thesis by (simp add: expand_action_def within_budget_upd)
next
  case (Inr t)
  show ?thesis
  proof (cases "oc_nodes_generated (sx_outcome x) < max_generated_states (se_policy e)")
    case True
    let ?g = "oc_nodes_generated (sx_outcome x)"
    have suc: "unat (?g + 1) = Suc (unat ?g)" by (rule unat_Suc_less[OF True])
    with True have le: "?g + 1 \<le> max_generated_states (se_policy e)"
      by (simp add: word_le_nat_alt word_less_nat_alt)
    have w1: "within_budget e (upd_outcome count_generated x)"
      using w le suc by (simp add: within_budget_def)
    have w2: "within_budget e (push_child e child (upd_outcome count_generated x))" for child
      using w le suc length_map_put[of "(<)" "key_of child" "length (sx_arena x)" "sx_visited x"]
      by (simp add: within_budget_def push_child_def Let_def)
    have o2: "open_verdict (sx_outcome (push_child e child (upd_outcome count_generated x)))" for child
      using o1 by (simp add: push_child_def Let_def)
    show ?thesis
      using True Inr o1 w1 w2 o2 by (auto simp: expand_action_def Let_def within_budget_upd split: option.splits)
  qed (use Inr assms in \<open>simp add: expand_action_def within_budget_upd not_less\<close>)
qed

lemma expand_actions_budget:
  "within_budget e x \<Longrightarrow> open_verdict (sx_outcome x) \<Longrightarrow>
   case expand_actions e cur is x of
     Inl y \<Rightarrow> within_budget e y \<and> exhausted_verdict (sx_outcome y)
   | Inr y \<Rightarrow> within_budget e y \<and> open_verdict (sx_outcome y)"
proof (induction "is" arbitrary: x)
  case (Cons i "is")
  note step = expand_action_budget[OF Cons.prems, of cur i]
  show ?case
  proof (cases "expand_action e cur i x")
    case (Inr z)
    with Cons.IH[of z] step show ?thesis by simp
  qed (use step in simp)
qed simp

text \<open>The three ways the search can end.\<close>

definition verdict_ok :: "search_env \<Rightarrow> search_state \<Rightarrow> bool" where
  "verdict_ok e y \<longleftrightarrow> within_budget e y \<and>
     oc_reachable_states (sx_outcome y) = of_nat (length (sx_visited y)) \<and>
     (oc_found (sx_outcome y) \<and> \<not> oc_budget_exhausted (sx_outcome y) \<and> \<not> oc_frontier_emptied (sx_outcome y) \<or>
      exhausted_verdict (sx_outcome y) \<or>
      \<not> oc_found (sx_outcome y) \<and> \<not> oc_budget_exhausted (sx_outcome y) \<and> oc_frontier_emptied (sx_outcome y))"

lemma verdict_finalise:
  "within_budget e y \<Longrightarrow> exhausted_verdict (sx_outcome y) \<Longrightarrow> verdict_ok e (finalise y)"
  by (simp add: verdict_ok_def finalise_def within_budget_def exhausted_verdict_def)

lemma expand_node_budget:
  assumes w: "within_budget e x" and o1: "open_verdict (sx_outcome x)"
    and lt: "oc_nodes_expanded (sx_outcome x) < max_nodes_expanded (se_policy e)"
  shows "case expand_node e cur x of Inl y \<Rightarrow> verdict_ok e y
    | Inr y \<Rightarrow> within_budget e y \<and> open_verdict (sx_outcome y)"
proof -
  let ?x1 = "upd_outcome count_expanded x"
  have "oc_nodes_expanded (sx_outcome x) + 1 \<le> max_nodes_expanded (se_policy e)"
    using lt unat_Suc_less[OF lt] by (simp add: word_le_nat_alt word_less_nat_alt)
  with w have w1: "within_budget e ?x1" by (simp add: within_budget_def)
  have o2: "open_verdict (sx_outcome ?x1)" using o1 by simp
  show ?thesis
  proof (cases "expand_actions e cur [0..<length (df_actions (se_definition e))] ?x1")
    case (Inl y)
    with expand_actions_budget[OF w1 o2, of cur "[0..<length (df_actions (se_definition e))]"] w1 o1
    show ?thesis by (simp add: expand_node_def Let_def within_budget_upd verdict_finalise)
  next
    case (Inr y)
    with expand_actions_budget[OF w1 o2, of cur "[0..<length (df_actions (se_definition e))]"] w1 o1
    show ?thesis by (simp add: expand_node_def Let_def within_budget_upd)
  qed
qed

lemma search_step_budget:
  assumes w: "within_budget e x" and o1: "open_verdict (sx_outcome x)"
  shows "case search_step e x of Inl y \<Rightarrow> verdict_ok e y
    | Inr y \<Rightarrow> within_budget e y \<and> open_verdict (sx_outcome y)"
proof (cases "sx_frontier x")
  case Nil
  with assms show ?thesis
    by (simp add: search_step_def verdict_ok_def leave_loop_def finalise_def within_budget_def
        open_verdict_def)
next
  case (Cons cur rest)
  let ?x0 = "x\<lparr>sx_frontier := rest\<rparr>"
  have w0: "within_budget e ?x0" "open_verdict (sx_outcome ?x0)" using assms by (simp_all add: within_budget_def)
  have found: "verdict_ok e (finalise (upd_outcome (\<lambda>oc. oc\<lparr>oc_found := True, oc_plan_node := cur\<rparr>) ?x0))"
    using w0 by (simp add: verdict_ok_def finalise_def within_budget_def open_verdict_def)
  have exh: "verdict_ok e (leave_loop (upd_outcome exhaust ?x0))"
    using w0 by (simp add: verdict_ok_def leave_loop_def finalise_def within_budget_def
        open_verdict_def exhausted_verdict_def exhaust_def)
  show ?thesis
    using expand_node_budget[OF w0, of cur] w0 found exh Cons
    by (simp add: search_step_def Let_def within_budget_upd not_le)
qed

lemma search_loop_budget:
  "within_budget e x \<Longrightarrow> open_verdict (sx_outcome x) \<Longrightarrow> verdict_ok e (search_loop e x)"
proof (induction e x rule: search_loop.induct)
  case (1 e x)
  from search_step_budget[OF 1(2,3)] 1(1) show ?case
    by (subst search_loop.simps) (auto split: sum.splits)
qed

lemma search_run_budget: "verdict_ok e (search_run e s)"
  unfolding search_run_def
  by (rule search_loop_budget)
    (simp_all add: within_budget_def open_verdict_def initial_search_def initial_outcome_def)

section \<open>Replay\<close>

text \<open>The index the planner builds finds every action.\<close>

definition index_ready :: "search_env \<Rightarrow> bool" where
  "index_ready e \<longleftrightarrow> se_indexer e = build_indexer (se_definition e) \<and>
     sorted (map ac_id (df_actions (se_definition e))) \<and>
     distinct (map ac_id (df_actions (se_definition e)))"

lemma index_of_nth: "sorted ids \<Longrightarrow> distinct ids \<Longrightarrow> i < length ids \<Longrightarrow> index_of (ids ! i) ids = Some i"
  by (simp add: index_of_def lower_bound_nth)

lemma index_of_action:
  "index_ready e \<Longrightarrow> a < action_count_of e \<Longrightarrow>
   index_of (action_id_at e a) (ix_action_ids (se_indexer e)) = Some a"
  using index_of_nth[of "map ac_id (df_actions (se_definition e))" a]
  by (simp add: index_ready_def action_id_at_def action_count_of_def build_indexer_def)

lemma replay_from_ok:
  "index_ready e \<Longrightarrow> \<forall>a\<in>set path. a < action_count_of e \<Longrightarrow>
   run_path (config_step e) c path = Some c' \<Longrightarrow>
   score_path (config_step e) (action_id_at e) c (acc, enc) path = Some l \<Longrightarrow>
   \<exists>steps. replay_from e c acc pos (map (action_id_at e) path) = Inr (steps, fst l) \<and>
     map ps_action steps = map (action_id_at e) path \<and>
     (\<forall>st\<in>set steps. ps_issued_level st = AL_RECOMMENDATION)"
proof (induction path arbitrary: c acc enc pos)
  case (Cons a path)
  obtain c1 d l1 where st: "config_step e c a = Some (c1, d)"
      "score_extend d (action_id_at e a) (acc, enc) = Some l1"
      "run_path (config_step e) c1 path = Some c'"
      "score_path (config_step e) (action_id_at e) c1 l1 path = Some l"
    using Cons.prems by (auto split: option.splits)
  obtain t where t: "apply_action e (config_node e c) a = Inr t" "c1 = (tr_state t, tr_holds t)"
      "d = tr_delta t" using st(1) by (auto simp: config_step_def split: sum.splits)
  obtain sm where sm: "objective_add acc d = Some sm" "l1 = (sm, enc @ [action_id_at e a])"
    using st(2) by (auto simp: score_extend_def)
  have "\<exists>steps. replay_from e c1 sm (Suc pos) (map (action_id_at e) path) = Inr (steps, fst l) \<and>
      map ps_action steps = map (action_id_at e) path \<and>
      (\<forall>st\<in>set steps. ps_issued_level st = AL_RECOMMENDATION)"
    by (rule Cons.IH[OF _ _ st(3) st(4)[unfolded sm(2)]]) (use Cons.prems in auto)
  then obtain steps where r: "replay_from e c1 sm (Suc pos) (map (action_id_at e) path) = Inr (steps, fst l)"
      "map ps_action steps = map (action_id_at e) path"
      "\<forall>st\<in>set steps. ps_issued_level st = AL_RECOMMENDATION" by blast
  have "index_of (action_id_at e a) (ix_action_ids (se_indexer e)) = Some a"
    using Cons.prems by (simp add: index_of_action)
  with t sm(1) r show ?case by (simp add: replay_step_record_def Let_def)
qed auto

lemma replay_ok:
  assumes "index_ready e" "plan_path e s path = Some c" "plan_score e s path = Some l"
  obtains steps where "replay e s (snd l) = Inr (steps, fst l)" "map ps_action steps = snd l"
    "\<forall>st\<in>set steps. ps_issued_level st = AL_RECOMMENDATION"
proof -
  have ok: "\<forall>a\<in>set path. a < action_count_of e" and run: "run_path (config_step e) (s, []) path = Some c"
    using assms(2) by (auto simp: plan_path_def split: if_splits)
  have enc: "snd l = map (action_id_at e) path" by (rule plan_score_encoding[OF assms(3)])
  from replay_from_ok[OF assms(1) ok run assms(3)[unfolded plan_score_def], of 0] that enc
  show thesis by (auto simp: replay_def)
qed

section \<open>The search on the sample fabric\<close>

lemma sample_ready: "search_ready sample_env sample_state"
  by (simp add: search_ready_def config_wf_def sample_simps state_shape_def shape_def
      occurrences_bounded_def occurrence_total_def config_depth_def)
    (simp add: blank_state_def sample_definition_def)

lemma sample_goal: "goals_satisfied sample_env s \<longleftrightarrow> link_known s ! 0 \<noteq> 0 \<and> link_operational s ! 0 \<noteq> 0"
  by (simp add: goals_satisfied_def goal_holds_def sample_simps index_of_def lower_bound_def)

lemma sample_root: "root_node sample_env sample_state = node_at sample_state"
  by (simp add: root_node_def config_node_def node_at_def incompleteness_def sample_simps)

definition sample_child :: search_node where
  "sample_child = \<lparr>sn_state = sample_successor,
     sn_holds = [\<lparr>hd_resource_index = 0, hd_units = 1, hd_remaining_steps = 2\<rparr>],
     sn_parent = Some 0, sn_action_index = 0, sn_depth = 1, sn_incompleteness = 0,
     sn_objective = step_delta sample_action 0 0\<rparr>"

definition sample_frontier_state :: "search_state" where
  "sample_frontier_state = \<lparr>sx_arena = [node_at sample_state, sample_child],
     sx_visited = map_put (<) (key_of sample_child) 1 [(key_of (node_at sample_state), 0)],
     sx_frontier = [1],
     sx_outcome = (initial_outcome sample_env)\<lparr>oc_nodes_expanded := 1, oc_nodes_generated := 1,
       oc_frontier_high_water := 1\<rparr>\<rparr>"

lemma sample_keys_differ: "key_of sample_child \<noteq> key_of (node_at sample_state)"
proof
  assume "key_of sample_child = key_of (node_at sample_state)"
  moreover have "shape sample_successor = shape sample_state"
    by (simp add: sample_successor_def shape_def sample_state_eq)
  ultimately have "sample_successor = sample_state"
    using encode_state_append_inj[of sample_successor sample_state]
    by (simp add: key_of_def sample_child_def node_at_def)
  then have "fs_tick sample_successor = fs_tick sample_state" by simp
  then show False by (simp add: sample_successor_def sample_state_eq)
qed

lemma sample_incompleteness: "incompleteness sample_definition s = 0"
  by (simp add: incompleteness_def sample_simps)

lemma sample_child_eq:
  "make_child sample_env (node_at sample_state) 0 0 sample_transition (step_delta sample_action 0 0) = sample_child"
  by (simp add: make_child_def sample_child_def sample_transition_def node_at_def sample_env_simps
      sample_incompleteness)

lemma sample_sum: "objective_add zero_objective (tr_delta sample_transition) = Some (step_delta sample_action 0 0)"
  by (simp add: sample_transition_def objective_add_def zero_objective_def step_delta_def component_def
     add_overflow_def UINT64_MAX_def objective_of_list_def sample_action_def)

lemma sample_first_step:
  "search_step sample_env (initial_search sample_env sample_state) = Inr sample_frontier_state"
proof -
  let ?x = "(initial_search sample_env sample_state)\<lparr>sx_frontier := []\<rparr>"
  have stale: "\<not> stale_entry ?x 0"
    by (simp add: stale_entry_def initial_search_def)
  have init: "oc_effective_step_bound (initial_outcome sample_env) = 1"
    "oc_nodes_generated (initial_outcome sample_env) = 0"
    "oc_nodes_expanded (initial_outcome sample_env) = 0"
    "oc_frontier_high_water (initial_outcome sample_env) = 0"
    by (simp_all add: initial_outcome_def absolute_bound_def sample_env_simps sample_policy_def)
  have pol: "max_generated_states (se_policy sample_env) = 100"
    "max_frontier_entries (se_policy sample_env) = 100" "max_nodes_expanded (se_policy sample_env) = 100"
    by (simp_all add: sample_env_simps sample_policy_def)
  have node: "sn_objective (node_at sample_state) = zero_objective" "sn_depth (node_at sample_state) = 0"
    "sn_state (node_at sample_state) = sample_state"
    by (simp_all add: node_at_def)
  have expand: "expand_action sample_env 0 0 (upd_outcome count_expanded ?x) = Inr sample_frontier_state"
    by (simp add: expand_action_def initial_search_def sample_root sample_step upd_outcome_def
        Let_def sample_child_eq sample_sum node push_child_def sample_keys_differ init pol
        sample_frontier_state_def del: map_put.simps)
      (simp add: raise_high_water_def count_generated_def count_expanded_def init)
  have "\<not> goals_satisfied sample_env sample_state"
    by (simp add: sample_goal) (simp add: sample_state_eq)
  then show ?thesis
    using stale expand
    by (simp add: search_step_def expand_node_def initial_search_def sample_root node init pol
        sample_definition_simps sample_env_simps(1) upd_outcome_def Let_def)
qed

lemma sample_lookup: "map_of (sx_visited sample_frontier_state) (key_of sample_child) = Some 1"
  by (simp add: sample_frontier_state_def state_keys.lookup_put)

lemma sample_second_step:
  "search_step sample_env sample_frontier_state = Inl (finalise (upd_outcome
     (\<lambda>oc. oc\<lparr>oc_found := True, oc_plan_node := 1\<rparr>) (sample_frontier_state\<lparr>sx_frontier := []\<rparr>)))"
proof -
  have f: "sx_frontier sample_frontier_state = [1]" "sx_arena sample_frontier_state ! 1 = sample_child"
    by (simp_all add: sample_frontier_state_def)
  have "goals_satisfied sample_env (sn_state sample_child)"
    by (simp add: sample_goal) (simp add: sample_child_def sample_successor_def sample_state_eq)
  moreover have "\<not> stale_entry (sample_frontier_state\<lparr>sx_frontier := []\<rparr>) 1"
    using sample_lookup f by (simp add: stale_entry_def)
  ultimately show ?thesis using f by (simp add: search_step_def Let_def)
qed

lemma sample_run: "search_run sample_env sample_state = finalise (upd_outcome
     (\<lambda>oc. oc\<lparr>oc_found := True, oc_plan_node := 1\<rparr>) (sample_frontier_state\<lparr>sx_frontier := []\<rparr>))"
  unfolding search_run_def
  by (subst search_loop.simps, simp only: sample_first_step sum.case)
    (subst search_loop.simps, simp only: sample_second_step sum.case)

lemma sample_plan: "plan_encoding_of sample_env (search_run sample_env sample_state) = [7]"
proof -
  have a: "sx_arena (search_run sample_env sample_state) = [node_at sample_state, sample_child]"
    "oc_plan_node (sx_outcome (search_run sample_env sample_state)) = 1"
    by (simp_all add: sample_run finalise_def sample_frontier_state_def)
  show ?thesis
    unfolding plan_encoding_of_def a
    by (subst encoding_of.simps, subst encoding_of.simps)
      (simp add: sample_child_def node_at_def action_id_at_def sample_simps)
qed

text \<open>A fabric without actions: the search empties its frontier at once.\<close>

definition idle_env :: search_env where
  "idle_env = env_of (sample_definition\<lparr>df_actions := []\<rparr>)"

definition idle_state :: fabric_state where
  "idle_state = sample_state\<lparr>action_occurrences := []\<rparr>"

lemma idle_simps:
  "df_actions (se_definition idle_env) = []" "df_goals (se_definition idle_env) = df_goals sample_definition"
  "df_services (se_definition idle_env) = []"
  "ix_link_ids (se_indexer idle_env) = [5]" "se_policy idle_env = sample_policy"
  "cp_absolute_step_bound (se_compiled idle_env) = 0"
  "\<not> cp_occurrence_bound_overflows (se_compiled idle_env)"
  by (simp_all add: idle_env_def env_of_def build_compiled_def build_indexer_def sample_definition_def)

lemma idle_ready: "search_ready idle_env idle_state"
  by (simp add: search_ready_def config_wf_def idle_simps state_shape_def shape_def
      occurrences_bounded_def occurrence_total_def config_depth_def idle_state_def sample_state_eq)
    (simp add: blank_state_def sample_definition_def idle_env_def env_of_def)

lemma idle_goal: "\<not> goals_satisfied idle_env idle_state"
  by (simp add: goals_satisfied_def goal_holds_def idle_simps sample_definition_simps index_of_def
      lower_bound_def idle_state_def sample_state_eq)

lemma idle_run: "oc_frontier_emptied (sx_outcome (search_run idle_env idle_state))"
proof -
  have pol: "max_nodes_expanded (se_policy idle_env) = 100" by (simp add: idle_simps sample_policy_def)
  have bound: "oc_effective_step_bound (initial_outcome idle_env) = 0"
    "oc_nodes_expanded (initial_outcome idle_env) = 0"
    "\<not> oc_budget_exhausted (initial_outcome idle_env)"
    by (simp_all add: initial_outcome_def absolute_bound_def idle_simps)
  have root: "sn_state (root_node idle_env idle_state) = idle_state"
    "sn_depth (root_node idle_env idle_state) = 0" by (simp_all add: root_node_def config_node_def)
  let ?x = "initial_search idle_env idle_state"
  obtain y where y: "search_step idle_env ?x = Inr y" "sx_frontier y = []"
      "\<not> oc_budget_exhausted (sx_outcome y)"
    by (simp add: search_step_def initial_search_def stale_entry_def root idle_goal bound pol
        expand_node_def Let_def count_pruned_policy_def count_expanded_def)
  show ?thesis
    unfolding search_run_def
    by (subst search_loop.simps, simp add: y, subst search_loop.simps)
      (simp add: search_step_def y leave_loop_def finalise_def)
qed

section \<open>Properties\<close>

text \<open>Optimality of the search: when it reports a plan, the reported node's objective and action
  encoding are those of an admissible sequence within the step bound that satisfies the goals, and
  every such sequence whose objective does not overflow scores no better.\<close>

theorem search_optimal:
  assumes "search_ready e s" "oc_found (sx_outcome (search_run e s))"
  shows "optimal_score e s (sn_objective (sx_arena (search_run e s) !
      oc_plan_node (sx_outcome (search_run e s))), plan_encoding_of e (search_run e s))"
  using search_run_ok[OF assms(1)] assms(2) by (simp add: outcome_ok_def node_score_def plan_encoding_of_def)

theorem search_optimal_witness:
  "optimal_score sample_env sample_state (sn_objective (sx_arena (search_run sample_env sample_state) !
      oc_plan_node (sx_outcome (search_run sample_env sample_state))),
      plan_encoding_of sample_env (search_run sample_env sample_state))"
  by (rule search_optimal[OF sample_ready]) (simp add: sample_run finalise_def)

text \<open>Exhaustiveness: when the search reports an emptied frontier, no admissible sequence of
  actions within the step bound satisfies the goals.\<close>

theorem search_exhaustive:
  assumes "search_ready e s" "oc_frontier_emptied (sx_outcome (search_run e s))"
  shows "\<not> solves e s path"
  using search_run_ok[OF assms(1)] assms(2) by (simp add: outcome_ok_def)

theorem search_exhaustive_witness: "\<not> solves idle_env idle_state []"
  by (rule search_exhaustive[OF idle_ready idle_run])

text \<open>C10. The search always returns, with exactly one of three verdicts: found, budget exhausted
  (with the reason recorded) or frontier emptied. Its counters never exceed the budgets of the
  policy, and the arena holds at most one node more than the nodes generated.\<close>

theorem search_verdict:
  fixes e :: search_env and s :: fabric_state
  defines "y \<equiv> search_run e s"
  shows "(oc_found (sx_outcome y), oc_budget_exhausted (sx_outcome y), oc_frontier_emptied (sx_outcome y))
      \<in> {(True, False, False), (False, True, False), (False, False, True)} \<and>
    oc_nodes_generated (sx_outcome y) \<le> max_generated_states (se_policy e) \<and>
    oc_nodes_expanded (sx_outcome y) \<le> max_nodes_expanded (se_policy e) \<and>
    length (sx_arena y) \<le> Suc (unat (oc_nodes_generated (sx_outcome y))) \<and>
    oc_reachable_states (sx_outcome y) = of_nat (length (sx_visited y))"
  using search_run_budget[of e s]
  unfolding y_def by (auto simp: verdict_ok_def within_budget_def exhausted_verdict_def)

text \<open>A reported plan replays: walking its action encoding through the transition function
  from the initial state yields one step per action, every step issued as a recommendation, and an
  accumulated objective equal to the objective of the node the search reported.\<close>

theorem search_replay:
  assumes "search_ready e s" "index_ready e" "oc_found (sx_outcome (search_run e s))"
  shows "\<exists>steps. replay e s (plan_encoding_of e (search_run e s)) = Inr (steps,
      sn_objective (sx_arena (search_run e s) ! oc_plan_node (sx_outcome (search_run e s)))) \<and>
    map ps_action steps = plan_encoding_of e (search_run e s) \<and>
    (\<forall>st\<in>set steps. ps_issued_level st = AL_RECOMMENDATION)"
proof -
  let ?y = "search_run e s"
  let ?l = "(sn_objective (sx_arena ?y ! oc_plan_node (sx_outcome ?y)), plan_encoding_of e ?y)"
  have "optimal_score e s ?l"
    using search_run_ok[OF assms(1)] assms(3) by (simp add: outcome_ok_def node_score_def plan_encoding_of_def)
  then obtain path c where p: "plan_path e s path = Some c" "plan_score e s path = Some ?l"
    by (auto simp: optimal_score_def solves_def split: option.splits)
  show ?thesis by (rule replay_ok[OF assms(2) p]) auto
qed

lemma sample_index_ready: "index_ready sample_env"
  by (simp add: index_ready_def sample_env_def env_of_def build_indexer_def sample_definition_def)

theorem search_replay_witness:
  "\<exists>steps. replay sample_env sample_state [7] = Inr (steps, step_delta sample_action 0 0) \<and>
    map ps_action steps = [7] \<and> (\<forall>st\<in>set steps. ps_issued_level st = AL_RECOMMENDATION)"
proof -
  have "oc_found (sx_outcome (search_run sample_env sample_state))" by (simp add: sample_run finalise_def)
  from search_replay[OF sample_ready sample_index_ready this]
  have "\<exists>steps. replay sample_env sample_state [7] = Inr (steps,
      sn_objective (sx_arena (search_run sample_env sample_state) !
        oc_plan_node (sx_outcome (search_run sample_env sample_state)))) \<and>
    map ps_action steps = [7] \<and> (\<forall>st\<in>set steps. ps_issued_level st = AL_RECOMMENDATION)"
    unfolding sample_plan .
  then show ?thesis by (simp add: sample_run finalise_def sample_frontier_state_def sample_child_def)
qed

end
