(* ===== verification/NRP_Static.thy ===== *)
theory NRP_Static
  imports NRP_Search_Correct
begin

text \<open>
  The proofs the planner attempts before searching, and the authority domains it requires
  (\<open>src/planner.cpp\<close>: \<open>find_dependency_cycle\<close>, \<open>goal_upper_bound\<close>, \<open>decision_for_binding\<close>,
  \<open>reason_for_binding\<close>, \<open>required_domains\<close>).
\<close>

section \<open>Dependency cycles\<close>

definition dependency_successors :: "fabric_definition \<Rightarrow> indexer \<Rightarrow> nat list list" where
  "dependency_successors d ix = fold (\<lambda>i succ.
     fold (\<lambda>dep succ. case index_of (dp_predecessor dep) (ix_action_ids ix) of
          None \<Rightarrow> succ
        | Some p \<Rightarrow> succ[p := succ ! p @ [i]])
       (ac_dependencies (df_actions d ! i)) succ)
     [0..<length (df_actions d)] (replicate (length (df_actions d)) [])"

text \<open>The iterative depth-first search. The head of \<open>df_frames\<close> is \<open>frames.back()\<close>; \<open>df_path\<close> is in
  push order.\<close>

record dfs_state =
  dfs_colour :: "nat list"
  dfs_path :: "nat list"
  dfs_frames :: "(nat \<times> nat) list"

definition dfs_step :: "nat list list \<Rightarrow> dfs_state \<Rightarrow> nat list + dfs_state" where
  "dfs_step succ z = (case dfs_frames z of
       [] \<Rightarrow> Inr z
     | (node, k) # frames \<Rightarrow>
         if k < length (succ ! node) then
           let nx = succ ! node ! k; z1 = z\<lparr>dfs_frames := (node, Suc k) # frames\<rparr> in
           if dfs_colour z ! nx = 1 then Inl (dropWhile (\<lambda>p. p \<noteq> nx) (dfs_path z) @ [nx])
           else if dfs_colour z ! nx = 0 \<and> nx < length (dfs_colour z) then
             Inr \<lparr>dfs_colour = (dfs_colour z)[nx := 1], dfs_path = dfs_path z @ [nx],
                  dfs_frames = (nx, 0) # (node, Suc k) # frames\<rparr>
           else Inr z1
         else Inr \<lparr>dfs_colour = (dfs_colour z)[node := 2], dfs_path = butlast (dfs_path z),
                   dfs_frames = frames\<rparr>)"

text \<open>White nodes and unread edges: what the search still has to do.\<close>

definition dfs_white :: "nat list list \<Rightarrow> nat list \<Rightarrow> nat" where
  "dfs_white succ colour =
     (\<Sum>i<length colour. if colour ! i = 0 then 2 + length (succ ! i) else 0)"

definition dfs_measure :: "nat list list \<Rightarrow> dfs_state \<Rightarrow> nat" where
  "dfs_measure succ z = dfs_white succ (dfs_colour z) +
     sum_list (map (\<lambda>(node, k). 1 + (length (succ ! node) - k)) (dfs_frames z))"

lemma dfs_white_update:
  assumes "nx < length colour" "colour ! nx = 0"
  shows "dfs_white succ (colour[nx := 1]) + (2 + length (succ ! nx)) = dfs_white succ colour"
proof -
  let ?f = "\<lambda>c i. if c ! i = 0 then 2 + length (succ ! i) else (0::nat)"
  have split: "(\<Sum>i<length colour. ?f c i) = ?f c nx + (\<Sum>i\<in>{..<length colour} - {nx}. ?f c i)" for c
    by (rule sum.remove) (use assms(1) in auto)
  have "(\<Sum>i\<in>{..<length colour} - {nx}. ?f (colour[nx := 1]) i) =
      (\<Sum>i\<in>{..<length colour} - {nx}. ?f colour i)"
    by (rule sum.cong) auto
  then show ?thesis using assms by (simp add: dfs_white_def split)
qed

lemma dfs_white_blacken: "dfs_white succ (colour[node := 2]) \<le> dfs_white succ colour"
  unfolding dfs_white_def length_list_update
  by (rule sum_mono) (auto simp: nth_list_update_if)

lemma dfs_step_measure:
  assumes "dfs_frames z \<noteq> []" "dfs_step succ z = Inr y"
  shows "dfs_measure succ y < dfs_measure succ z"
proof -
  obtain node k frames where f: "dfs_frames z = (node, k) # frames"
    using assms(1) by (cases "dfs_frames z") auto
  show ?thesis
    using assms(2) f dfs_white_update[of "succ ! node ! k" "dfs_colour z" succ]
      dfs_white_blacken[of succ "dfs_colour z" node]
    by (auto simp: dfs_step_def dfs_measure_def Let_def split: if_splits)
qed

function dfs_loop :: "nat list list \<Rightarrow> dfs_state \<Rightarrow> nat list + dfs_state" where
  "dfs_loop succ z =
     (if dfs_frames z = [] then Inr z
      else case dfs_step succ z of Inl c \<Rightarrow> Inl c | Inr y \<Rightarrow> dfs_loop succ y)"
  by pat_completeness auto
termination by (relation "measure (\<lambda>(succ, z). dfs_measure succ z)") (auto intro: dfs_step_measure)

declare dfs_loop.simps [simp del]

fun dfs_starts :: "nat list list \<Rightarrow> nat list \<Rightarrow> dfs_state \<Rightarrow> nat list option" where
  "dfs_starts succ [] z = None"
| "dfs_starts succ (start # starts) z =
     (if dfs_colour z ! start \<noteq> 0 then dfs_starts succ starts z
      else case dfs_loop succ \<lparr>dfs_colour = (dfs_colour z)[start := 1], dfs_path = dfs_path z @ [start],
                               dfs_frames = (start, 0) # dfs_frames z\<rparr> of
          Inl c \<Rightarrow> Some c
        | Inr y \<Rightarrow> dfs_starts succ starts y)"

definition find_cycle_indices :: "fabric_definition \<Rightarrow> indexer \<Rightarrow> nat list option" where
  "find_cycle_indices d ix = dfs_starts (dependency_successors d ix) [0..<length (df_actions d)]
     \<lparr>dfs_colour = replicate (length (df_actions d)) 0, dfs_path = [], dfs_frames = []\<rparr>"

definition find_dependency_cycle :: "fabric_definition \<Rightarrow> indexer \<Rightarrow> strong_id list option" where
  "find_dependency_cycle d ix =
     map_option (map (\<lambda>i. ac_id (df_actions d ! i))) (find_cycle_indices d ix)"

section \<open>Upper bounds of goals\<close>

definition goal_writer :: "goal_spec \<Rightarrow> effect \<Rightarrow> bool" where
  "goal_writer g fx \<longleftrightarrow> fx_subject fx = gl_subject g \<and>
     (gl_kind g = GK_LINK_OPERATIONAL \<and> fx_kind fx = FK_SET_LINK_OPERATIONAL \<and> fx_value fx = 1 \<or>
      gl_kind g = GK_NODE_OPERATIONAL \<and> fx_kind fx = FK_SET_NODE_OPERATIONAL \<and> fx_value fx = 1 \<or>
      gl_kind g = GK_RESOURCE_RESTORED \<and> fx_kind fx = FK_MARK_RESOURCE_RESTORED)"

text \<open>One effect on a service: the best absolute value and the positive increments so far.\<close>

definition bound_effect :: "subject \<Rightarrow> effect \<Rightarrow> (u64 \<times> u64) option \<Rightarrow> (u64 \<times> u64) option" where
  "bound_effect subject fx acc = (case acc of None \<Rightarrow> None
     | Some (best, positive) \<Rightarrow>
         if fx_subject fx \<noteq> subject then Some (best, positive)
         else if fx_kind fx = FK_SET_SERVICE_REACHABLE then
           (if sint (fx_value fx) \<ge> 0 \<and> fx_value fx > best then Some (fx_value fx, positive)
            else Some (best, positive))
         else if fx_kind fx = FK_SERVICE_REACHABLE_DELTA \<and> sint (fx_value fx) > 0 then
           map_option (\<lambda>s. (best, s)) (add_overflow positive (fx_value fx))
         else Some (best, positive))"

definition bound_action :: "subject \<Rightarrow> action_spec \<Rightarrow> (u64 \<times> u64) option \<Rightarrow> (u64 \<times> u64) option" where
  "bound_action subject a acc = (case acc of None \<Rightarrow> None
     | Some (best, acc_total) \<Rightarrow>
        (case fold (bound_effect subject) (ac_effects a) (Some (best, 0)) of None \<Rightarrow> None
         | Some (best', positive) \<Rightarrow>
            (case mul_overflow positive (ucast (ac_max_occurrences a)) of None \<Rightarrow> None
             | Some contribution \<Rightarrow> map_option (\<lambda>s. (best', s)) (add_overflow acc_total contribution))))"

definition service_upper_bound ::
  "fabric_definition \<Rightarrow> fabric_state \<Rightarrow> subject \<Rightarrow> nat \<Rightarrow> u64 option" where
  "service_upper_bound d s subject i =
     (let cap = sv_max (df_services d ! i);
          best = (if service_known s ! i \<noteq> 0 then ucast (service_reachable s ! i) else ucast cap)
      in case fold (bound_action subject) (df_actions d) (Some (best, 0)) of None \<Rightarrow> None
         | Some (best', acc_total) \<Rightarrow>
             map_option (\<lambda>r. if r > ucast cap then ucast cap else r) (add_overflow best' acc_total))"

definition goal_upper_bound ::
  "fabric_definition \<Rightarrow> indexer \<Rightarrow> fabric_state \<Rightarrow> goal_spec \<Rightarrow> u64 option" where
  "goal_upper_bound d ix s g = (case subject_index ix (gl_subject g) of
       None \<Rightarrow> None
     | Some i \<Rightarrow>
        (case gl_kind g of
           GK_SERVICE_REACHABLE_AT_LEAST \<Rightarrow> service_upper_bound d s (gl_subject g) i
         | GK_COUNT \<Rightarrow> None
         | _ \<Rightarrow>
           if list_ex (\<lambda>a. list_ex (goal_writer g) (ac_effects a)) (df_actions d) then None
           else if gl_kind g = GK_LINK_OPERATIONAL then
             (if link_known s ! i = 0 then None else Some (ucast (link_operational s ! i)))
           else if gl_kind g = GK_NODE_OPERATIONAL then
             (if node_known s ! i = 0 then None else Some (ucast (node_operational s ! i)))
           else (if resource_known s ! i = 0 then None else Some (ucast (resource_restored s ! i)))))"

section \<open>Authority decisions\<close>

primrec decision_for_binding :: "binding_state \<Rightarrow> plan_decision" where
  "decision_for_binding BS_CURRENT = PD_PLAN_FOUND"
| "decision_for_binding BS_STALE = PD_REJECTED_STALE_AUTHORITY"
| "decision_for_binding BS_UNKNOWN = PD_REJECTED_UNKNOWN_AUTHORITY"
| "decision_for_binding BS_CONFLICT = PD_REJECTED_CONFLICTING_AUTHORITY"
| "decision_for_binding BS_INVALID = PD_REJECTED_INVALID_REQUEST"
| "decision_for_binding BS_UNSUPPORTED = PD_REJECTED_UNSUPPORTED_PROBLEM"
| "decision_for_binding BS_COUNT = PD_REJECTED_INVALID_REQUEST"

primrec reason_for_binding :: "binding_state \<Rightarrow> reason_code" where
  "reason_for_binding BS_CURRENT = RC_NONE"
| "reason_for_binding BS_STALE = RC_AUTHORITY_BINDING_STALE"
| "reason_for_binding BS_UNKNOWN = RC_AUTHORITY_BINDING_UNKNOWN"
| "reason_for_binding BS_CONFLICT = RC_AUTHORITY_BINDING_CONFLICT"
| "reason_for_binding BS_INVALID = RC_AUTHORITY_BINDING_INVALID"
| "reason_for_binding BS_UNSUPPORTED = RC_AUTHORITY_BINDING_UNSUPPORTED"
| "reason_for_binding BS_COUNT = RC_AUTHORITY_BINDING_INVALID"

definition add_domain :: "authority_domain \<Rightarrow> authority_domain list \<Rightarrow> authority_domain list" where
  "add_domain a ds = (if a \<in> set ds then ds else ds @ [a])"

definition required_domains :: "fabric_definition \<Rightarrow> evidence_bundle \<Rightarrow> authority_domain list" where
  "required_domains d ev =
     (let base = add_domain AD_POLICY (add_domain AD_FABRIC_STATE []);
          ingest = (if eb_facts ev \<noteq> [] then add_domain AD_EVIDENCE_INGEST base else base);
          lease = fold (\<lambda>f ds. if ef_kind f = EK_RESOURCE_AVAILABLE_UNITS \<or> ef_kind f = EK_RESOURCE_RESTORED
                           then add_domain AD_RESOURCE_LEASE ds else ds) (eb_facts ev) ingest;
          all = fold (\<lambda>a. add_domain (ac_required_domain a)) (df_actions d) lease
      in sort_by (\<lambda>a b. raw_authority_domain a < raw_authority_domain b) all)"

lemma set_add_domain [simp]: "set (add_domain a ds) = insert a (set ds)"
  by (auto simp: add_domain_def)

lemma set_fold_add_domain:
  "set (fold (\<lambda>a. add_domain (f a)) xs ds) = f ` set xs \<union> set ds"
  by (induction xs arbitrary: ds) auto

lemma set_fold_add_domain_if:
  "set (fold (\<lambda>f ds. if P f then add_domain k ds else ds) xs ds) =
     (if \<exists>x\<in>set xs. P x then {k} else {}) \<union> set ds"
  by (induction xs arbitrary: ds) auto

lemma set_required_domains:
  "set (required_domains d ev) = {AD_FABRIC_STATE, AD_POLICY} \<union>
     (if eb_facts ev \<noteq> [] then {AD_EVIDENCE_INGEST} else {}) \<union>
     (if \<exists>f\<in>set (eb_facts ev). ef_kind f = EK_RESOURCE_AVAILABLE_UNITS \<or> ef_kind f = EK_RESOURCE_RESTORED
      then {AD_RESOURCE_LEASE} else {}) \<union>
     ac_required_domain ` set (df_actions d)"
  unfolding required_domains_def Let_def set_sort_by set_fold_add_domain set_fold_add_domain_if by auto

end
