(* ===== verification/NRP_Planner.thy ===== *)
theory NRP_Planner
  imports NRP_Static
begin

text \<open>
  \<open>Planner::plan\<close> (\<open>src/planner.cpp\<close>), the entry point: normalisation, the admission checks in
  their order, the reconciliation of evidence, the static proofs, the search, and the result with
  its plan or certificate. The explanation log is threaded through as in the code.
\<close>

section \<open>Normalisation and the result skeleton\<close>

definition normalise_request :: "plan_request \<Rightarrow> plan_request" where
  "normalise_request r = r\<lparr>rq_definition := canonicalise_definition (rq_definition r),
     rq_evidence := canonicalise_evidence (rq_evidence r),
     rq_authority := canonicalise_authority (rq_authority r),
     rq_fences := sort_by fence_less (rq_fences r)\<rparr>"

definition base_result :: "plan_request \<Rightarrow> planning_result" where
  "base_result r = \<lparr>pr_decision = PD_REJECTED_INVALID_REQUEST, pr_request = rq_id r,
     pr_epoch = rq_epoch r, pr_boot = rq_boot r, pr_attempt = rq_attempt r, pr_plan = None,
     pr_certificate = None, pr_stats = zero_stats, pr_unresolved_subjects = [],
     pr_explanations = [], pr_request_digest = request_digest (normalise_request r)\<rparr>"

definition conclude :: "plan_decision \<Rightarrow> explanation_log \<Rightarrow> planning_result \<Rightarrow> planning_result" where
  "conclude d log res = res\<lparr>pr_decision := d,
     pr_explanations := (if pr_explanations res = [] then el_entries log else pr_explanations res)\<rparr>"

section \<open>Admission\<close>

text \<open>Each check: \<open>None\<close> when it passes, otherwise the decision and the log to conclude with.\<close>

type_synonym rejection = "plan_decision \<times> explanation_log"

definition admit_identity :: "plan_request \<Rightarrow> explanation_log \<Rightarrow> rejection option" where
  "admit_identity r log = guard (rq_id r = 0 \<or> rq_attempt r = 0)
     (PD_REJECTED_UNSUPPORTED_PROBLEM, log_text RC_REQUEST_UNSUPPORTED_PROBLEM
        ''request identity and attempt identity are mandatory and must be non-zero'' log)"

definition admit_policy :: "plan_policy \<Rightarrow> explanation_log \<Rightarrow> rejection option" where
  "admit_policy p log = first_some [
     guard (max_plan_steps p = 0 \<or> max_nodes_expanded p = 0 \<or> max_generated_states p = 0 \<or>
            max_frontier_entries p = 0)
       (PD_REJECTED_INVALID_REQUEST, log_text RC_REQUEST_INVALID_DEFINITION
          ''policy bounds must be at least one'' log),
     guard (budget_scale p = 0 \<or> budget_scale p > 64)
       (PD_REJECTED_UNSUPPORTED_PROBLEM, log_text RC_REQUEST_UNSUPPORTED_PROBLEM
          ''policy budget_scale is outside the supported range 1..64'' log)]"

definition admit_definition ::
  "model_limits \<Rightarrow> fabric_definition \<Rightarrow> explanation_log \<Rightarrow> rejection option" where
  "admit_definition l d log =
     (let (st, dlog) = validate_definition d l (make_log 32) in
      if status_ok st then None
      else Some (PD_REJECTED_INVALID_REQUEST,
        fold log_add (el_entries dlog)
          (log_text RC_REQUEST_INVALID_DEFINITION (status_to_string st) log)))"

definition admit_epochs :: "plan_request \<Rightarrow> explanation_log \<Rightarrow> rejection option" where
  "admit_epochs n log =
     (let stale = (eb_epoch (rq_evidence n) < rq_epoch n) in
      first_some [
        guard (av_epoch (rq_authority n) \<noteq> rq_epoch n \<or> av_boot (rq_authority n) \<noteq> rq_boot n)
          (PD_REJECTED_INVALID_REQUEST, log_text RC_AUTHORITY_BINDING_INVALID
             ''authority vector belongs to a different coordinator epoch or boot incarnation'' log),
        guard (eb_epoch (rq_evidence n) \<noteq> rq_epoch n \<or> eb_boot (rq_evidence n) \<noteq> rq_boot n)
          (if stale then PD_REJECTED_STALE_AUTHORITY else PD_REJECTED_INVALID_REQUEST,
           log_text (if stale then RC_EVIDENCE_SUBJECT_STALE else RC_EVIDENCE_SUBJECT_INVALID)
             ''evidence bundle was not produced under the request coordinator epoch/boot'' log)])"

definition admit_fence :: "plan_request \<Rightarrow> explanation_log \<Rightarrow> fence \<Rightarrow> rejection option" where
  "admit_fence n log f = first_some [
     guard (fe_epoch f > rq_epoch n)
       (PD_REJECTED_FENCED, log_text RC_REQUEST_FENCED_BY_EPOCH
          ''a fence from a later coordinator epoch revokes this request'' log),
     guard (fe_epoch f = rq_epoch n \<and> fe_boot f \<noteq> rq_boot n)
       (PD_REJECTED_FENCED, log_text RC_REQUEST_FENCED_BY_EPOCH
          ''a fence from another boot incarnation of the same epoch revokes this request'' log)]"

definition admit_domain :: "authority_vector \<Rightarrow> explanation_log \<Rightarrow> authority_domain \<Rightarrow> rejection option" where
  "admit_domain av log d =
     (let st = evaluate_domain av d in
      guard (st \<noteq> BS_CURRENT)
        (decision_for_binding st, log_text (reason_for_binding st)
           (''authority domain '' @ authority_domain_name d @ '' is '' @ binding_state_name st) log))"

definition admit_action_level ::
  "authority_vector \<Rightarrow> explanation_log \<Rightarrow> action_spec \<Rightarrow> rejection option" where
  "admit_action_level av log a =
     guard (case find_binding av (ac_required_domain a) of
              None \<Rightarrow> True | Some b \<Rightarrow> ab_level b < ac_required_level a)
       (PD_REJECTED_UNKNOWN_AUTHORITY, log_subject RC_AUTHORITY_LEVEL_INSUFFICIENT
          (Subject SK_ACTION (ac_id a)) 0 0
          (''action requires '' @ authority_level_name (ac_required_level a) @ '' on '' @
           authority_domain_name (ac_required_domain a) @
           '' but only a weaker level is established'') log)"

definition admit_authority :: "plan_request \<Rightarrow> explanation_log \<Rightarrow> rejection option" where
  "admit_authority n log =
     (if require_current_authority (rq_policy n) then
        first_some [
          first_some (map (admit_domain (rq_authority n) log)
            (required_domains (rq_definition n) (rq_evidence n))),
          first_some (map (admit_action_level (rq_authority n) log) (df_actions (rq_definition n)))]
      else None)"

definition admit :: "model_limits \<Rightarrow> plan_request \<Rightarrow> plan_request \<Rightarrow> explanation_log \<Rightarrow> rejection option" where
  "admit l r n log = first_some [
     admit_identity r log,
     admit_policy (rq_policy n) log,
     admit_definition l (rq_definition n) log,
     admit_epochs n log,
     first_some (map (admit_fence n log) (rq_fences n)),
     admit_authority n log]"

section \<open>Unresolved subjects\<close>

definition subject_set :: "subject list \<Rightarrow> subject list" where
  "subject_set xs = fold (set_insert (<)) xs []"

definition referenced_subjects :: "fabric_definition \<Rightarrow> subject list" where
  "referenced_subjects d = subject_set
     (concat (map (\<lambda>a. map pc_subject (ac_preconditions a)) (df_actions d)) @
      map gl_subject (df_goals d))"

text \<open>Table entries that are not resolved and are referenced.\<close>

definition unresolved_entries :: "subject list \<Rightarrow> resolution_table \<Rightarrow> subject_resolution list" where
  "unresolved_entries referenced table =
     filter (\<lambda>r. sr_state r \<noteq> SS_RESOLVED \<and> sr_subject r \<in> set referenced) (map snd table)"

definition established :: "indexer \<Rightarrow> fabric_state \<Rightarrow> subject \<Rightarrow> bool" where
  "established ix s subject = (case subject_index ix subject of
       None \<Rightarrow> True
     | Some i \<Rightarrow> (case subj_kind subject of
          SK_LINK \<Rightarrow> link_known s ! i \<noteq> 0
        | SK_NODE \<Rightarrow> node_known s ! i \<noteq> 0
        | SK_SERVICE \<Rightarrow> service_known s ! i \<noteq> 0
        | SK_RESOURCE \<Rightarrow> resource_known s ! i \<noteq> 0
        | _ \<Rightarrow> True))"

definition missing_subjects :: "indexer \<Rightarrow> fabric_state \<Rightarrow> subject list \<Rightarrow> subject list" where
  "missing_subjects ix s referenced = filter (\<lambda>x. \<not> established ix s x) referenced"

definition unresolved_referenced ::
  "indexer \<Rightarrow> fabric_state \<Rightarrow> subject list \<Rightarrow> resolution_table \<Rightarrow> subject list" where
  "unresolved_referenced ix s referenced table =
     subject_set (map sr_subject (unresolved_entries referenced table) @ missing_subjects ix s referenced)"

definition log_unresolved ::
  "indexer \<Rightarrow> fabric_state \<Rightarrow> subject list \<Rightarrow> resolution_table \<Rightarrow> explanation_log \<Rightarrow> explanation_log" where
  "log_unresolved ix s referenced table log =
     fold (\<lambda>x. log_subject RC_EVIDENCE_SUBJECT_MISSING x 0 0
             ''no evidence establishes this subject at the granted generation'')
       (missing_subjects ix s referenced)
       (fold (\<lambda>r. log_add (unresolved_explanation r)) (unresolved_entries referenced table) log)"

section \<open>Certificates\<close>

definition evidence_assumption :: string where
  "evidence_assumption = ''evidence establishes every subject referenced by a precondition or goal''"

definition cycle_explanation :: explanation where
  "cycle_explanation = \<lparr>ex_code = RC_PROOF_DEPENDENCY_CYCLE, ex_subject = no_subject, ex_detail_a = 0,
     ex_detail_b = 0, ex_text = ''the action dependency relation contains a cycle''\<rparr>"

definition cycle_certificate :: "plan_request \<Rightarrow> strong_id list \<Rightarrow> certificate" where
  "cycle_certificate n cyc = empty_certificate\<lparr>ct_kind := PF_DEPENDENCY_CYCLE,
     ct_request_digest := request_digest n, ct_policy_digest := policy_digest (rq_policy n),
     ct_cycle := cyc,
     ct_assumptions := [''action dependencies are unconditional'',
       ''every action executes at most max_occurrences times'', evidence_assumption],
     ct_explanations := [cycle_explanation]\<rparr>"

definition bound_explanation :: "goal_spec \<Rightarrow> u64 \<Rightarrow> explanation" where
  "bound_explanation g b = \<lparr>ex_code = RC_PROOF_GOAL_UPPER_BOUND, ex_subject = gl_subject g,
     ex_detail_a = b, ex_detail_b = gl_value g,
     ex_text = ''goal value exceeds the structural upper bound of the subject''\<rparr>"

definition bound_certificate :: "plan_request \<Rightarrow> goal_spec \<Rightarrow> u64 \<Rightarrow> certificate" where
  "bound_certificate n g b = empty_certificate\<lparr>ct_kind := PF_GOAL_UPPER_BOUND,
     ct_request_digest := request_digest n, ct_policy_digest := policy_digest (rq_policy n),
     ct_unreachable_subject := gl_subject g, ct_unreachable_value := b,
     ct_required_value := gl_value g,
     ct_assumptions := [''no action can raise the subject beyond the derived bound'',
       ''action effects are exactly as declared in the definition'', evidence_assumption],
     ct_explanations := [bound_explanation g b]\<rparr>"

text \<open>The first goal whose bound is below its value, with the bound.\<close>

fun unreachable_goal ::
  "fabric_definition \<Rightarrow> indexer \<Rightarrow> fabric_state \<Rightarrow> goal_spec list \<Rightarrow> (goal_spec \<times> u64) option" where
  "unreachable_goal d ix s [] = None"
| "unreachable_goal d ix s (g # gs) = (case goal_upper_bound d ix s g of
       None \<Rightarrow> unreachable_goal d ix s gs
     | Some b \<Rightarrow> if b \<ge> gl_value g then unreachable_goal d ix s gs else Some (g, b))"

definition search_explanation :: "search_outcome \<Rightarrow> explanation" where
  "search_explanation oc = \<lparr>ex_code = RC_PROOF_EXHAUSTIVE_SEARCH, ex_subject = no_subject,
     ex_detail_a = oc_nodes_expanded oc, ex_detail_b = oc_reachable_states oc,
     ex_text = ''the reachable plan-prefix space was exhausted without a solution''\<rparr>"

definition exhaustive_certificate :: "plan_request \<Rightarrow> search_outcome \<Rightarrow> certificate" where
  "exhaustive_certificate n oc = empty_certificate\<lparr>ct_kind := PF_EXHAUSTIVE_SEARCH,
     ct_request_digest := request_digest n, ct_policy_digest := policy_digest (rq_policy n),
     ct_nodes_expanded := oc_nodes_expanded oc, ct_nodes_generated := oc_nodes_generated oc,
     ct_reachable_states := oc_reachable_states oc,
     ct_assumptions := [
       ''the plan state space is finite: every action executes at most max_occurrences times'',
       evidence_assumption,
       ''policy: irreversible actions '' @
         (if allow_irreversible_actions (rq_policy n) then ''allowed'' else ''excluded'') @
         '', plan length bounded by '' @ dec_string (unat (oc_effective_step_bound oc)) @ '' steps''] @
       (if oc_step_bound_binding oc
        then [''policy.max_plan_steps is smaller than the total occurrence bound, so the proof is '' @
              ''relative to that bound''] else []),
     ct_explanations := [search_explanation oc]\<rparr>"

section \<open>The plan\<close>

definition accepted_explanation :: explanation where
  "accepted_explanation = \<lparr>ex_code = RC_PLAN_ACCEPTED, ex_subject = no_subject, ex_detail_a = 0,
     ex_detail_b = 0, ex_text = ''plan satisfies every goal with zero safety violations''\<rparr>"

definition optimal_explanation :: "objective \<Rightarrow> search_outcome \<Rightarrow> explanation" where
  "optimal_explanation obj oc = \<lparr>ex_code = RC_PLAN_OPTIMAL_BY_OBJECTIVE, ex_subject = no_subject,
     ex_detail_a = 0, ex_detail_b = 0,
     ex_text = ''objective '' @ objective_to_string obj @
       '' is minimal over the explored plan space (nodes expanded '' @
       dec_string (unat (oc_nodes_expanded oc)) @ '')''\<rparr>"

definition bind_authority :: "authority_vector \<Rightarrow> plan_step \<Rightarrow> plan_step" where
  "bind_authority av st = st\<lparr>ps_required_generation :=
       (case find_binding av (ps_required_domain st) of None \<Rightarrow> 0 | Some b \<Rightarrow> ab_granted b),
     ps_issued_level := AL_RECOMMENDATION\<rparr>"

definition draft_plan ::
  "plan_request \<Rightarrow> plan_step list \<Rightarrow> objective \<Rightarrow> search_outcome \<Rightarrow> recovery_plan" where
  "draft_plan n steps obj oc = \<lparr>pl_id = 0, pl_request = rq_id n, pl_epoch = rq_epoch n,
     pl_boot = rq_boot n, pl_attempt = rq_attempt n,
     pl_steps = map (bind_authority (rq_authority n)) steps, pl_objective = obj,
     pl_request_digest = request_digest n,
     pl_definition_digest = definition_digest (rq_definition n),
     pl_evidence_digest = evidence_digest (rq_evidence n),
     pl_authority_digest = authority_digest (rq_authority n),
     pl_policy_digest = policy_digest (rq_policy n), pl_plan_digest = zero_digest,
     pl_explanations = [accepted_explanation, optimal_explanation obj oc]\<rparr>"

definition make_plan ::
  "plan_request \<Rightarrow> plan_step list \<Rightarrow> objective \<Rightarrow> search_outcome \<Rightarrow> recovery_plan" where
  "make_plan n steps obj oc =
     (let p = draft_plan n steps obj oc; g = compute_digest p
      in p\<lparr>pl_plan_digest := g, pl_id := (if dg_lo g = 0 then 1 else dg_lo g)\<rparr>)"

definition stats_of :: "plan_policy \<Rightarrow> search_outcome \<Rightarrow> search_stats" where
  "stats_of p oc = \<lparr>ss_nodes_expanded = oc_nodes_expanded oc, ss_nodes_generated = oc_nodes_generated oc,
     ss_nodes_pruned_by_dominance = oc_states_revisited oc,
     ss_nodes_pruned_by_safety = oc_nodes_pruned_by_safety oc,
     ss_nodes_pruned_by_authority = oc_nodes_pruned_by_unknown oc,
     ss_nodes_pruned_by_policy = oc_nodes_pruned_by_policy oc,
     ss_frontier_high_water = oc_frontier_high_water oc,
     ss_states_revisited = oc_states_revisited oc, ss_budget_nodes = max_nodes_expanded p,
     ss_budget_exhausted = oc_budget_exhausted oc, ss_frontier_emptied = oc_frontier_emptied oc\<rparr>"

section \<open>Planning\<close>

definition request_env :: "model_limits \<Rightarrow> plan_request \<Rightarrow> search_env" where
  "request_env l n =
     (let d = rq_definition n; ix = build_indexer d in
      \<lparr>se_definition = d, se_indexer = ix, se_compiled = build_compiled d ix,
       se_policy = rq_policy n,
       se_resolutions = reconcile d ix (rq_authority n) l (eb_facts (rq_evidence n))\<rparr>)"

definition request_initial :: "model_limits \<Rightarrow> plan_request \<Rightarrow> fabric_state" where
  "request_initial l n = materialise_state (rq_definition n) (build_indexer (rq_definition n))
     (se_resolutions (request_env l n))"

text \<open>From the search outcome to the result.\<close>

definition conclude_search ::
  "plan_request \<Rightarrow> search_env \<Rightarrow> fabric_state \<Rightarrow> search_state \<Rightarrow> explanation_log \<Rightarrow>
   planning_result \<Rightarrow> planning_result" where
  "conclude_search n e s x log res0 =
     (let oc = sx_outcome x; res = res0\<lparr>pr_stats := stats_of (rq_policy n) oc\<rparr> in
      if oc_found oc then
        (case replay e s (plan_encoding_of e x) of
           Inl st \<Rightarrow> conclude PD_REJECTED_INVALID_REQUEST
                      (log_text RC_REQUEST_INVALID_DEFINITION (status_to_string st) log) res
         | Inr (steps, obj) \<Rightarrow> conclude PD_PLAN_FOUND
                      (log_add (optimal_explanation obj oc) (log_add accepted_explanation log))
                      (res\<lparr>pr_plan := Some (make_plan n steps obj oc)\<rparr>))
      else if oc_budget_exhausted oc then
        (let log1 = log_text RC_SEARCH_BUDGET_EXHAUSTED
               (''search budget reached after '' @ dec_string (unat (oc_nodes_expanded oc)) @
                '' expansions; no conclusion about feasibility is claimed'') log
         in conclude PD_INDETERMINATE_SEARCH_LIMIT
              (if oc_accounting_overflow oc
               then log_text RC_SEARCH_BUDGET_EXHAUSTED ''objective accounting overflowed 64 bits'' log1
               else log1) res)
      else if pr_unresolved_subjects res0 \<noteq> [] then
        conclude PD_INDETERMINATE_INCOMPLETE_EVIDENCE
          (log_text RC_EVIDENCE_SUBJECT_MISSING
             (''the search space was exhausted but evidence does not establish every subject a '' @
              ''step or goal depends on, so infeasibility cannot be claimed'') log) res
      else conclude PD_PROVEN_INFEASIBLE (log_add (search_explanation oc) log)
             (res\<lparr>pr_certificate := Some (exhaustive_certificate n oc)\<rparr>))"

definition plan_admitted ::
  "model_limits \<Rightarrow> plan_request \<Rightarrow> explanation_log \<Rightarrow> planning_result \<Rightarrow> planning_result" where
  "plan_admitted l n log0 res0 =
     (let e = request_env l n; d = rq_definition n; ix = build_indexer d;
          s = request_initial l n; referenced = referenced_subjects d;
          log = log_unresolved ix s referenced (se_resolutions e) log0;
          res = res0\<lparr>pr_unresolved_subjects :=
                  unresolved_referenced ix s referenced (se_resolutions e)\<rparr> in
      case find_dependency_cycle d ix of
        Some cyc \<Rightarrow> conclude PD_PROVEN_INFEASIBLE (log_add cycle_explanation log)
          (res\<lparr>pr_certificate := Some (cycle_certificate n cyc)\<rparr>)
      | None \<Rightarrow> (case unreachable_goal d ix s (df_goals d) of
          Some (g, b) \<Rightarrow> conclude PD_PROVEN_INFEASIBLE (log_add (bound_explanation g b) log)
            (res\<lparr>pr_certificate := Some (bound_certificate n g b)\<rparr>)
        | None \<Rightarrow> conclude_search n e s (search_run e s) log res))"

definition plan :: "model_limits \<Rightarrow> plan_request \<Rightarrow> planning_result" where
  "plan l r =
     (let n = normalise_request r; log = make_log 96; res = base_result r in
      case admit l r n log of
        Some (d, log1) \<Rightarrow> conclude d log1 res
      | None \<Rightarrow> plan_admitted l n log res)"

end
