(* ===== verification/NRP_Validate.thy ===== *)
theory NRP_Validate
  imports NRP_Report NRP_Planner
begin

text \<open>
  The validator (\<open>src/validate.cpp\<close>): \<open>validate_plan\<close> re-derives the evolution of the state, the
  resource and the objective accounting of a plan without the planner's code, \<open>validate_certificate\<close>
  checks a proof of infeasibility. A finding is appended where the code calls \<open>Report::add\<close>; the
  functions below return the findings they add, in order. \<open>State\<close> has the vectors of \<open>FabricState\<close>
  under other names, so the record is shared; a missing table entry (\<open>size_t(-1)\<close>) is \<open>None\<close>. The
  notes of \<open>reconcile\<close> are never read and left out, and so is \<open>render\<close>.
\<close>

section \<open>Tables and state\<close>

definition add_finding :: "reason_code \<Rightarrow> u32 \<Rightarrow> subject \<Rightarrow> string \<Rightarrow> validation_finding" where
  "add_finding code pos s t = \<lparr>vf_code = code, vf_step_index = pos, vf_subject = s, vf_text = t\<rparr>"

record tables =
  tb_nodes :: "(strong_id \<times> nat) list"
  tb_links :: "(strong_id \<times> nat) list"
  tb_services :: "(strong_id \<times> nat) list"
  tb_resources :: "(strong_id \<times> nat) list"
  tb_actions :: "(strong_id \<times> nat) list"
  tb_groups :: "(strong_id \<times> nat) list"

text \<open>\<open>emplace\<close> keeps the first entry of an identity, as \<open>map_of\<close> does.\<close>

definition id_table :: "strong_id list \<Rightarrow> (strong_id \<times> nat) list" where
  "id_table ids = zip ids [0..<length ids]"

definition build_tables :: "fabric_definition \<Rightarrow> tables" where
  "build_tables d = \<lparr>tb_nodes = id_table (map nd_id (df_nodes d)), tb_links = id_table (map lk_id (df_links d)),
     tb_services = id_table (map sv_id (df_services d)), tb_resources = id_table (map rs_id (df_resources d)),
     tb_actions = id_table (map ac_id (df_actions d)), tb_groups = id_table (map xg_id (df_exclusion_groups d))\<rparr>"

fun table_subject :: "tables \<Rightarrow> subject \<Rightarrow> nat option" where
  "table_subject t (Subject SK_NODE i) = map_of (tb_nodes t) i"
| "table_subject t (Subject SK_LINK i) = map_of (tb_links t) i"
| "table_subject t (Subject SK_SERVICE i) = map_of (tb_services t) i"
| "table_subject t (Subject SK_RESOURCE i) = map_of (tb_resources t) i"
| "table_subject t (Subject SK_ACTION i) = map_of (tb_actions t) i"
| "table_subject t (Subject SK_NONE i) = None"
| "table_subject t (Subject SK_FABRIC i) = None"

definition shortfall :: "fabric_definition \<Rightarrow> fabric_state \<Rightarrow> bool \<Rightarrow> u64" where
  "shortfall d s targets = fold (\<lambda>i total.
     let v = df_services d ! i; reference = (if targets then sv_target v else sv_required v) in
     if reference = 0 then total
     else if service_known s ! i = 0 then total + ucast reference
     else if service_reachable s ! i < reference then total + ucast (reference - service_reachable s ! i)
     else total) [0..<length (df_services d)] 0"

primrec domain_of :: "evidence_kind \<Rightarrow> authority_domain" where
  "domain_of EK_LINK_OPERATIONAL = AD_FABRIC_STATE"
| "domain_of EK_NODE_OPERATIONAL = AD_FABRIC_STATE"
| "domain_of EK_SERVICE_REACHABLE_ENDPOINTS = AD_FABRIC_STATE"
| "domain_of EK_RESOURCE_AVAILABLE_UNITS = AD_RESOURCE_LEASE"
| "domain_of EK_RESOURCE_RESTORED = AD_RESOURCE_LEASE"
| "domain_of EK_COUNT = AD_FABRIC_STATE"

primrec kind_of :: "precondition_kind \<Rightarrow> evidence_kind" where
  "kind_of PK_LINK_OPERATIONAL = EK_LINK_OPERATIONAL"
| "kind_of PK_LINK_NOT_OPERATIONAL = EK_LINK_OPERATIONAL"
| "kind_of PK_NODE_OPERATIONAL = EK_NODE_OPERATIONAL"
| "kind_of PK_NODE_NOT_OPERATIONAL = EK_NODE_OPERATIONAL"
| "kind_of PK_SERVICE_REACHABLE_AT_LEAST = EK_SERVICE_REACHABLE_ENDPOINTS"
| "kind_of PK_SERVICE_REACHABLE_AT_MOST = EK_SERVICE_REACHABLE_ENDPOINTS"
| "kind_of PK_RESOURCE_AVAILABLE_AT_LEAST = EK_RESOURCE_AVAILABLE_UNITS"
| "kind_of PK_ACTION_EXECUTED_AT_LEAST = EK_COUNT"
| "kind_of PK_COUNT = EK_COUNT"

definition value_admissible :: "fabric_definition \<Rightarrow> tables \<Rightarrow> evidence_fact \<Rightarrow> bool" where
  "value_admissible d t f = (case ef_kind f of
       EK_LINK_OPERATIONAL \<Rightarrow> map_of (tb_links t) (subj_id (ef_subject f)) \<noteq> None \<and> ef_value f \<le> 1
     | EK_NODE_OPERATIONAL \<Rightarrow> map_of (tb_nodes t) (subj_id (ef_subject f)) \<noteq> None \<and> ef_value f \<le> 1
     | EK_SERVICE_REACHABLE_ENDPOINTS \<Rightarrow> (case map_of (tb_services t) (subj_id (ef_subject f)) of
          None \<Rightarrow> False | Some i \<Rightarrow> ef_value f \<le> ucast (sv_max (df_services d ! i)))
     | EK_RESOURCE_AVAILABLE_UNITS \<Rightarrow> (case map_of (tb_resources t) (subj_id (ef_subject f)) of
          None \<Rightarrow> False | Some i \<Rightarrow> ef_value f \<le> ucast (rs_capacity (df_resources d ! i)))
     | EK_RESOURCE_RESTORED \<Rightarrow>
         map_of (tb_resources t) (subj_id (ef_subject f)) \<noteq> None \<and> ef_value f \<le> 1
     | EK_COUNT \<Rightarrow> False)"

section \<open>Evidence\<close>

text \<open>The facts of one key, in the order of the bundle.\<close>

definition group_fact :: "evidence_fact \<Rightarrow> (evidence_key \<times> evidence_fact list) list \<Rightarrow>
    (evidence_key \<times> evidence_fact list) list" where
  "group_fact f m =
     (if \<not> valid_evidence_kind (ef_kind f) then m
      else map_put evidence_key_less (fact_key f)
             ((case map_of m (fact_key f) of None \<Rightarrow> [] | Some fs \<Rightarrow> fs) @ [f]) m)"

record group_scan =
  gs_usable :: bool
  gs_sequence :: seqno
  gs_value :: u64
  gs_conflict :: bool
  gs_worst :: subject_state

definition scan_fact :: "fabric_definition \<Rightarrow> tables \<Rightarrow> authority_vector \<Rightarrow> evidence_fact \<Rightarrow> group_scan \<Rightarrow> group_scan" where
  "scan_fact d t au f g =
     (if subj_kind (ef_subject f) \<noteq> expected_subject_evidence (ef_kind f) then g\<lparr>gs_worst := SS_INVALID\<rparr>
      else if ef_source_domain f \<noteq> domain_of (ef_kind f) \<or> \<not> value_admissible d t f
        then g\<lparr>gs_worst := SS_INVALID\<rparr>
      else case find_binding au (ef_source_domain f) of
          None \<Rightarrow> g
        | Some b \<Rightarrow>
            if ef_generation f < ab_granted b
              then (if gs_worst g \<noteq> SS_INVALID then g\<lparr>gs_worst := SS_STALE\<rparr> else g)
            else if ef_generation f > ab_granted b
              then (if gs_worst g \<noteq> SS_INVALID then g\<lparr>gs_worst := SS_AHEAD\<rparr> else g)
            else if ef_label f = TL_UNSUPPORTED
              then (if gs_worst g = SS_MISSING then g\<lparr>gs_worst := SS_UNSUPPORTED\<rparr> else g)
            else if ef_label f = TL_UNKNOWN then g\<lparr>gs_worst := SS_INVALID\<rparr>
            else if \<not> gs_usable g
              then g\<lparr>gs_usable := True, gs_sequence := ef_sequence f, gs_value := ef_value f\<rparr>
            else if ef_sequence f > gs_sequence g
              then g\<lparr>gs_sequence := ef_sequence f, gs_value := ef_value f, gs_conflict := False\<rparr>
            else if ef_sequence f = gs_sequence g \<and> ef_value f \<noteq> gs_value g then g\<lparr>gs_conflict := True\<rparr>
            else g)"

definition scan_group :: "fabric_definition \<Rightarrow> tables \<Rightarrow> authority_vector \<Rightarrow> evidence_fact list \<Rightarrow> group_scan" where
  "scan_group d t au fs = fold (scan_fact d t au) fs
     \<lparr>gs_usable = False, gs_sequence = 0, gs_value = 0, gs_conflict = False, gs_worst = SS_MISSING\<rparr>"

definition settle_group :: "fabric_definition \<Rightarrow> tables \<Rightarrow> authority_vector \<Rightarrow>
    evidence_key \<times> evidence_fact list \<Rightarrow> fabric_state \<Rightarrow> fabric_state" where
  "settle_group d t au entry s = (case entry of ((kind, subject), fs) \<Rightarrow>
     (case table_subject t subject of
        None \<Rightarrow> s
      | Some i \<Rightarrow>
         let g = scan_group d t au fs in
         if gs_conflict g \<or> \<not> gs_usable g then s
         else (case kind of
            EK_LINK_OPERATIONAL \<Rightarrow>
              s\<lparr>link_operational := (link_operational s)[i := flag (gs_value g \<noteq> 0)],
                link_known := (link_known s)[i := 1]\<rparr>
          | EK_NODE_OPERATIONAL \<Rightarrow>
              s\<lparr>node_operational := (node_operational s)[i := flag (gs_value g \<noteq> 0)],
                node_known := (node_known s)[i := 1]\<rparr>
          | EK_SERVICE_REACHABLE_ENDPOINTS \<Rightarrow>
              s\<lparr>service_reachable := (service_reachable s)[i := ucast (gs_value g)],
                service_known := (service_known s)[i := 1]\<rparr>
          | EK_RESOURCE_AVAILABLE_UNITS \<Rightarrow>
              s\<lparr>resource_available := (resource_available s)[i := ucast (gs_value g)],
                resource_known := (resource_known s)[i := 1]\<rparr>
          | EK_RESOURCE_RESTORED \<Rightarrow>
              s\<lparr>resource_restored := (resource_restored s)[i := flag (gs_value g \<noteq> 0)],
                resource_known := (resource_known s)[i := 1]\<rparr>
          | EK_COUNT \<Rightarrow> s)))"

definition validator_reconcile :: "fabric_definition \<Rightarrow> tables \<Rightarrow> authority_vector \<Rightarrow> evidence_fact list \<Rightarrow> fabric_state" where
  "validator_reconcile d t au facts = fold (settle_group d t au) (fold group_fact facts []) (blank_state d)"

text \<open>The verdict and the \<open>known\<close> out-parameter.\<close>

definition precondition_ok :: "tables \<Rightarrow> fabric_state \<Rightarrow> precondition \<Rightarrow> bool \<times> bool" where
  "precondition_ok t s p = (case table_subject t (pc_subject p) of
       None \<Rightarrow> (False, False)
     | Some i \<Rightarrow> (case pc_kind p of
          PK_LINK_OPERATIONAL \<Rightarrow>
            (link_known s ! i \<noteq> 0 \<and> link_operational s ! i \<noteq> 0, link_known s ! i \<noteq> 0)
        | PK_LINK_NOT_OPERATIONAL \<Rightarrow>
            (link_known s ! i \<noteq> 0 \<and> link_operational s ! i = 0, link_known s ! i \<noteq> 0)
        | PK_NODE_OPERATIONAL \<Rightarrow>
            (node_known s ! i \<noteq> 0 \<and> node_operational s ! i \<noteq> 0, node_known s ! i \<noteq> 0)
        | PK_NODE_NOT_OPERATIONAL \<Rightarrow>
            (node_known s ! i \<noteq> 0 \<and> node_operational s ! i = 0, node_known s ! i \<noteq> 0)
        | PK_SERVICE_REACHABLE_AT_LEAST \<Rightarrow>
            (service_known s ! i \<noteq> 0 \<and> ucast (service_reachable s ! i) \<ge> pc_value p, service_known s ! i \<noteq> 0)
        | PK_SERVICE_REACHABLE_AT_MOST \<Rightarrow>
            (service_known s ! i \<noteq> 0 \<and> ucast (service_reachable s ! i) \<le> pc_value p, service_known s ! i \<noteq> 0)
        | PK_RESOURCE_AVAILABLE_AT_LEAST \<Rightarrow>
            (resource_known s ! i \<noteq> 0 \<and> ucast (resource_available s ! i) \<ge> pc_value p, resource_known s ! i \<noteq> 0)
        | PK_ACTION_EXECUTED_AT_LEAST \<Rightarrow> (ucast (action_occurrences s ! i) \<ge> pc_value p, True)
        | PK_COUNT \<Rightarrow> (False, False)))"

section \<open>One step of a plan\<close>

text \<open>The normalised request with its tables.\<close>

record validation =
  va_request :: plan_request
  va_tables :: tables

definition ordering_findings :: "validation \<Rightarrow> fabric_state \<Rightarrow> u32 \<Rightarrow> plan_step \<Rightarrow> nat \<Rightarrow> validation_finding list" where
  "ordering_findings v s pos step i =
     (let d = rq_definition (va_request v); a = df_actions d ! i; self = Subject SK_ACTION (ps_action step) in
      (if action_occurrences s ! i \<ge> ac_max_occurrences a
         then [add_finding RC_VALIDATION_OCCURRENCE_EXCEEDED pos self
                 ''step exceeds the declared occurrence bound of the action''] else []) @
      (if ps_occurrence step \<noteq> action_occurrences s ! i + 1
         then [add_finding RC_VALIDATION_ORDERING_VIOLATION pos self
                 ''step occurrence number is not the next occurrence of the action''] else []) @
      concat (map (\<lambda>dep. (case map_of (tb_actions (va_tables v)) (dp_predecessor dep) of
          None \<Rightarrow> [add_finding RC_VALIDATION_ORDERING_VIOLATION pos (Subject SK_ACTION (dp_predecessor dep))
                    ''dependency references an unknown action'']
        | Some p \<Rightarrow> if action_occurrences s ! p < dp_min_occurrences dep
            then [add_finding RC_VALIDATION_ORDERING_VIOLATION pos (Subject SK_ACTION (dp_predecessor dep))
                    ''dependency is not satisfied before this step''] else []))
        (ac_dependencies a)))"

definition selected_in_group :: "fabric_definition \<Rightarrow> fabric_state \<Rightarrow> strong_id \<Rightarrow> u32" where
  "selected_in_group d s g = of_nat (length (filter (\<lambda>c. action_occurrences s ! c \<noteq> 0 \<and>
     g \<in> set (ac_exclusion_groups (df_actions d ! c))) [0..<length (df_actions d)]))"

definition exclusion_findings :: "validation \<Rightarrow> fabric_state \<Rightarrow> u32 \<Rightarrow> nat \<Rightarrow> validation_finding list" where
  "exclusion_findings v s pos i =
     (let d = rq_definition (va_request v) in
      if action_occurrences s ! i = 0 then
        concat (map (\<lambda>g. (case map_of (tb_groups (va_tables v)) g of
            None \<Rightarrow> [add_finding RC_VALIDATION_EXCLUSION_VIOLATION pos no_subject ''unknown group'']
          | Some gi \<Rightarrow> if selected_in_group d s g \<ge> xg_max_selected (df_exclusion_groups d ! gi)
              then [add_finding RC_VALIDATION_EXCLUSION_VIOLATION pos no_subject
                      ''exclusion group capacity is already consumed''] else []))
          (ac_exclusion_groups (df_actions d ! i)))
      else [])"

primrec precondition_kind_name :: "precondition_kind \<Rightarrow> string" where
  "precondition_kind_name PK_LINK_OPERATIONAL = ''LINK_OPERATIONAL''"
| "precondition_kind_name PK_LINK_NOT_OPERATIONAL = ''LINK_NOT_OPERATIONAL''"
| "precondition_kind_name PK_NODE_OPERATIONAL = ''NODE_OPERATIONAL''"
| "precondition_kind_name PK_NODE_NOT_OPERATIONAL = ''NODE_NOT_OPERATIONAL''"
| "precondition_kind_name PK_SERVICE_REACHABLE_AT_LEAST = ''SERVICE_REACHABLE_AT_LEAST''"
| "precondition_kind_name PK_SERVICE_REACHABLE_AT_MOST = ''SERVICE_REACHABLE_AT_MOST''"
| "precondition_kind_name PK_RESOURCE_AVAILABLE_AT_LEAST = ''RESOURCE_AVAILABLE_AT_LEAST''"
| "precondition_kind_name PK_ACTION_EXECUTED_AT_LEAST = ''ACTION_EXECUTED_AT_LEAST''"
| "precondition_kind_name PK_COUNT = ''COUNT''"

definition precondition_findings :: "validation \<Rightarrow> fabric_state \<Rightarrow> u32 \<Rightarrow> precondition \<Rightarrow> validation_finding list" where
  "precondition_findings v s pos p = (case precondition_ok (va_tables v) s p of (holds, known) \<Rightarrow>
     if \<not> known then [add_finding RC_VALIDATION_PRECONDITION_UNMET pos (pc_subject p)
                        ''precondition subject is UNKNOWN at this point of the plan'']
     else if \<not> holds then [add_finding RC_VALIDATION_PRECONDITION_UNMET pos (pc_subject p)
                        (''precondition '' @ precondition_kind_name (pc_kind p) @ '' is not met'')]
     else [])"

text \<open>The newest admissible fact for a subject: its sequence and generation.\<close>

definition newest_fact :: "validation \<Rightarrow> precondition \<Rightarrow> (seqno \<times> generation) option" where
  "newest_fact v p = fold (\<lambda>f best.
     if ef_kind f \<noteq> kind_of (pc_kind p) \<or> ef_subject f \<noteq> pc_subject p then best
     else if subj_kind (ef_subject f) \<noteq> expected_subject_evidence (ef_kind f) then best
     else if ef_source_domain f \<noteq> domain_of (ef_kind f) then best
     else if ef_label f \<noteq> TL_REAL \<and> ef_label f \<noteq> TL_SYNTHETIC then best
     else if \<not> value_admissible (rq_definition (va_request v)) (va_tables v) f then best
     else case find_binding (rq_authority (va_request v)) (ef_source_domain f) of
         None \<Rightarrow> best
       | Some b \<Rightarrow>
           if ef_generation f \<noteq> ab_granted b then best
           else case best of
               None \<Rightarrow> Some (ef_sequence f, ef_generation f)
             | Some (sq, g) \<Rightarrow> if ef_sequence f > sq then Some (ef_sequence f, ef_generation f) else best)
     (eb_facts (rq_evidence (va_request v))) None"

definition expected_binding :: "validation \<Rightarrow> fabric_state \<Rightarrow> precondition \<Rightarrow> evidence_binding list" where
  "expected_binding v s p =
     (if \<not> snd (precondition_ok (va_tables v) s p) \<or> kind_of (pc_kind p) = EK_COUNT then []
      else case newest_fact v p of
          None \<Rightarrow> []
        | Some (_, g) \<Rightarrow> [\<lparr>bd_kind = kind_of (pc_kind p), bd_subject = pc_subject p, bd_generation = g\<rparr>])"

definition binding_findings :: "validation \<Rightarrow> fabric_state \<Rightarrow> u32 \<Rightarrow> plan_step \<Rightarrow> action_spec \<Rightarrow> validation_finding list" where
  "binding_findings v s pos step a =
     (let expected = concat (map (expected_binding v s) (ac_preconditions a)) in
      if remdups_adj (sort_by evidence_binding_less (ps_evidence step)) \<noteq>
         remdups_adj (sort_by evidence_binding_less expected)
      then [add_finding RC_VALIDATION_EVIDENCE_BINDING_MISMATCH pos no_subject
              ''step evidence bindings do not match the independently derived binding set'']
      else [])"

definition authority_findings :: "validation \<Rightarrow> u32 \<Rightarrow> plan_step \<Rightarrow> action_spec \<Rightarrow> validation_finding list" where
  "authority_findings v pos step a =
     (let au = rq_authority (va_request v); mismatch = add_finding RC_VALIDATION_AUTHORITY_MISMATCH pos no_subject in
      (case find_binding au (ps_required_domain step) of
         None \<Rightarrow> [mismatch ''step requires an authority domain that is not current'']
       | Some b \<Rightarrow>
          if evaluate_domain au (ps_required_domain step) \<noteq> BS_CURRENT
            then [mismatch ''step requires an authority domain that is not current'']
          else
            (if ps_required_generation step \<noteq> ab_granted b
               then [mismatch ''step binds a generation that is not the granted generation''] else []) @
            (if ps_required_level step \<noteq> ac_required_level a \<or> ps_required_domain step \<noteq> ac_required_domain a
               then [mismatch ''step authority requirement does not match the action definition''] else []) @
            (if ab_level b < ps_required_level step
               then [mismatch ''granted authority level is below the level the step requires''] else [])) @
      (if ps_issued_level step \<noteq> AL_RECOMMENDATION
         then [mismatch ''a planner issued authority above RECOMMENDATION''] else []))"

definition policy_findings :: "validation \<Rightarrow> u32 \<Rightarrow> plan_step \<Rightarrow> action_spec \<Rightarrow> validation_finding list" where
  "policy_findings v pos step a =
     (let self = Subject SK_ACTION (ps_action step); policy = rq_policy (va_request v) in
      (if ac_reversibility a = RV_IRREVERSIBLE then
         (if \<not> ps_irreversible step \<or> ps_compensation step \<noteq> 0
            then [add_finding RC_VALIDATION_COMPENSATION_MISSING pos self
                    ''irreversible action must be marked irreversible with no compensation''] else [])
       else
         (if ps_irreversible step
            then [add_finding RC_VALIDATION_COMPENSATION_MISSING pos self
                    ''reversible action is marked irreversible''] else []) @
         (if ps_compensation step \<noteq> ac_compensation a \<or>
             map_of (tb_actions (va_tables v)) (ps_compensation step) = None
            then [add_finding RC_VALIDATION_COMPENSATION_MISSING pos self
                    ''compensation action is missing or does not match the definition''] else [])) @
      (if ac_reversibility a = RV_IRREVERSIBLE \<and> \<not> allow_irreversible_actions policy
         then [add_finding RC_REQUEST_POLICY_RESTRICTED_ACTION pos self
                 ''policy excludes irreversible actions but the plan contains one''] else []) @
      (if ucast pos \<ge> max_plan_steps policy
         then [add_finding RC_VALIDATION_ORDERING_VIOLATION pos no_subject
                 ''plan length exceeds the policy bound''] else []))"

text \<open>Holds: for each resource the positions and units of the steps that took it.\<close>

type_synonym hold_history = "(u32 \<times> u32) list list"

definition overlapping_units :: "resource_spec \<Rightarrow> u32 \<Rightarrow> (u32 \<times> u32) list \<Rightarrow> u32 \<Rightarrow> u32" where
  "overlapping_units r pos holds units = fold (\<lambda>(first, held) n.
     if pos - first < rs_hold_steps r \<or> rs_hold_steps r = 0 \<and> pos = first then n + held else n) holds units"

definition use_findings :: "validation \<Rightarrow> fabric_state \<Rightarrow> hold_history \<Rightarrow> u32 \<Rightarrow> resource_use \<Rightarrow> validation_finding list" where
  "use_findings v s history pos use =
     (let violation = add_finding RC_VALIDATION_RESOURCE_VIOLATION pos (Subject SK_RESOURCE (ru_resource use)) in
      case map_of (tb_resources (va_tables v)) (ru_resource use) of
        None \<Rightarrow> [violation ''step uses a resource that is not in the definition'']
      | Some ri \<Rightarrow>
         let res = df_resources (rq_definition (va_request v)) ! ri in
         if rs_kind res = RK_CONSUMABLE then
           (if resource_known s ! ri = 0 then [violation ''consumable resource availability is UNKNOWN'']
            else if resource_available s ! ri < ru_units use
              then [violation ''step consumes more units than remain available''] else [])
         else if overlapping_units res pos (history ! ri) (ru_units use) > rs_capacity res
           then [violation ''overlapping holds exceed the capacity of the reusable resource'']
         else [])"

definition validate_effect :: "validation \<Rightarrow> u32 \<Rightarrow> effect \<Rightarrow> validation_finding list \<times> fabric_state \<Rightarrow>
    validation_finding list \<times> fabric_state" where
  "validate_effect v pos fx fs = (case fs of (found, s) \<Rightarrow>
     (let d = rq_definition (va_request v);
          refuse = (\<lambda>code t. (found @ [add_finding code pos (fx_subject fx) t], s)) in
      case table_subject (va_tables v) (fx_subject fx) of
        None \<Rightarrow> refuse RC_REQUEST_INVALID_DEFINITION ''effect references an unknown subject''
      | Some i \<Rightarrow> (case fx_kind fx of
          FK_SET_LINK_OPERATIONAL \<Rightarrow>
            (found, s\<lparr>link_operational := (link_operational s)[i := flag (fx_value fx \<noteq> 0)],
                      link_known := (link_known s)[i := 1]\<rparr>)
        | FK_SET_NODE_OPERATIONAL \<Rightarrow>
            (found, s\<lparr>node_operational := (node_operational s)[i := flag (fx_value fx \<noteq> 0)],
                      node_known := (node_known s)[i := 1]\<rparr>)
        | FK_SET_SERVICE_REACHABLE \<Rightarrow>
            (if fx_value fx > ucast (sv_max (df_services d ! i))
               then refuse RC_VALIDATION_SAFETY_VIOLATION ''effect exceeds the structural maximum of the service''
             else (found, s\<lparr>service_reachable := (service_reachable s)[i := ucast (fx_value fx)],
                            service_known := (service_known s)[i := 1]\<rparr>))
        | FK_SERVICE_REACHABLE_DELTA \<Rightarrow>
            (if service_known s ! i = 0 then
               (if sv_required (df_services d ! i) > 0
                  then refuse RC_VALIDATION_SAFETY_VIOLATION ''step changes a service whose reachability is UNKNOWN''
                else (found, s))
             else
               let updated = uint (service_reachable s ! i) + sint (fx_value fx) in
               if updated < 0 \<or> updated > uint (sv_max (df_services d ! i))
                 then refuse RC_VALIDATION_SAFETY_VIOLATION ''reachability would leave the valid range''
               else (found, s\<lparr>service_reachable := (service_reachable s)[i := of_int updated]\<rparr>))
        | FK_MARK_RESOURCE_RESTORED \<Rightarrow>
            (found, s\<lparr>resource_restored := (resource_restored s)[i := 1],
                      resource_known := (resource_known s)[i := 1]\<rparr>)
        | FK_SET_RESOURCE_AVAILABLE \<Rightarrow>
            (if fx_value fx > ucast (rs_capacity (df_resources d ! i))
               then refuse RC_VALIDATION_RESOURCE_VIOLATION ''availability effect exceeds the capacity of the resource''
             else (found, s\<lparr>resource_available := (resource_available s)[i := ucast (fx_value fx)],
                            resource_known := (resource_known s)[i := 1]\<rparr>))
        | FK_COUNT \<Rightarrow> refuse RC_REQUEST_UNSUPPORTED_PROBLEM ''effect kind is outside the defined domain'')))"

definition settle_use :: "validation \<Rightarrow> u32 \<Rightarrow> resource_use \<Rightarrow>
    validation_finding list \<times> fabric_state \<times> hold_history \<Rightarrow> validation_finding list \<times> fabric_state \<times> hold_history" where
  "settle_use v pos use fsh = (case fsh of (found, s, history) \<Rightarrow>
     (case map_of (tb_resources (va_tables v)) (ru_resource use) of
        None \<Rightarrow> (found, s, history)
      | Some ri \<Rightarrow>
         let kind = rs_kind (df_resources (rq_definition (va_request v)) ! ri);
             consumed = (kind = RK_CONSUMABLE \<and> resource_known s ! ri \<noteq> 0);
             short = (resource_available s ! ri < ru_units use);
             left = (if short then 0 else resource_available s ! ri - ru_units use) in
         (found @ (if consumed \<and> short
            then [add_finding RC_VALIDATION_RESOURCE_VIOLATION pos (Subject SK_RESOURCE (ru_resource use))
                    ''consumption underflows the available units''] else []),
          (if consumed then s\<lparr>resource_available := (resource_available s)[ri := left]\<rparr> else s),
          (if kind = RK_REUSABLE then history[ri := history ! ri @ [(pos, ru_units use)]] else history))))"

section \<open>The walk over the steps\<close>

record validator_run =
  vx_state :: fabric_state
  vx_objective :: objective
  vx_completeness :: u64
  vx_floor :: u64
  vx_history :: hold_history
  vx_position :: u32
  vx_findings :: "validation_finding list"

text \<open>\<open>if (!add_overflow(total, x, &sum)) total = sum;\<close>\<close>

definition add_capped :: "u64 \<Rightarrow> u64 \<Rightarrow> u64" where
  "add_capped n x = (case add_overflow n x of None \<Rightarrow> n | Some m \<Rightarrow> m)"

definition account :: "action_spec \<Rightarrow> u64 \<Rightarrow> u64 \<Rightarrow> u64 \<Rightarrow> u64 \<Rightarrow> objective \<Rightarrow> objective" where
  "account a floor floor_after completeness completeness_after obj =
     \<lparr>safety_violations = (if floor_after > floor then safety_violations obj + 1 else safety_violations obj),
      service_preservation_gap = (if floor_after > floor
        then service_preservation_gap obj + (floor_after - floor) else service_preservation_gap obj),
      recovery_incompleteness = (if completeness_after > completeness
        then recovery_incompleteness obj + (completeness_after - completeness) else recovery_incompleteness obj),
      obj_blast_radius = add_capped (obj_blast_radius obj) (ucast (ac_blast_radius a)),
      action_count = add_capped (action_count obj) 1,
      obj_disruption = add_capped (obj_disruption obj) (ucast (ac_disruption a)),
      obj_cost_units = add_capped (obj_cost_units obj) (ac_cost_units a),
      obj_duration_ticks = add_capped (obj_duration_ticks obj) (ac_duration_ticks a)\<rparr>"

text \<open>The findings of a step before its effects, with the action at index \<open>i\<close>.\<close>

definition step_findings :: "validation \<Rightarrow> validator_run \<Rightarrow> plan_step \<Rightarrow> nat \<Rightarrow> validation_finding list" where
  "step_findings v x step i =
     (let s = vx_state x; pos = vx_position x; a = df_actions (rq_definition (va_request v)) ! i in
      ordering_findings v s pos step i @ exclusion_findings v s pos i @
      concat (map (precondition_findings v s pos) (ac_preconditions a)) @ binding_findings v s pos step a @
      authority_findings v pos step a @ policy_findings v pos step a @
      concat (map (use_findings v s (vx_history x) pos) (ac_resource_uses a)))"

definition validate_step :: "validation \<Rightarrow> plan_step \<Rightarrow> validator_run \<Rightarrow> validator_run" where
  "validate_step v step x =
     (let d = rq_definition (va_request v); pos = vx_position x;
          placed = vx_findings x @ (if ps_index step \<noteq> pos
            then [add_finding RC_VALIDATION_ORDERING_VIOLATION pos no_subject
                    ''step index does not match its position in the plan''] else []) in
      case map_of (tb_actions (va_tables v)) (ps_action step) of
        None \<Rightarrow> x\<lparr>vx_position := pos + 1,
           vx_findings := placed @ [add_finding RC_VALIDATION_ORDERING_VIOLATION pos
             (Subject SK_ACTION (ps_action step)) ''step references an action that is not in the definition'']\<rparr>
      | Some i \<Rightarrow>
        let a = df_actions d ! i;
            (found, s1) = fold (validate_effect v pos) (ac_effects a) (placed @ step_findings v x step i, vx_state x);
            (found, s2, history) = fold (settle_use v pos) (ac_resource_uses a) (found, s1, vx_history x);
            floor_after = shortfall d s2 False;
            completeness_after = shortfall d s2 True in
        \<lparr>vx_state = s2\<lparr>fs_tick := add_capped (fs_tick s2) (ac_duration_ticks a),
            action_occurrences := (action_occurrences s2)[i := action_occurrences s2 ! i + 1]\<rparr>,
         vx_objective = account a (vx_floor x) floor_after (vx_completeness x) completeness_after (vx_objective x),
         vx_completeness = completeness_after, vx_floor = floor_after, vx_history = history,
         vx_position = pos + 1,
         vx_findings = found @ (if floor_after > vx_floor x
           then [add_finding RC_VALIDATION_SAFETY_VIOLATION pos no_subject
                   ''step increases the shortfall of a service below its required floor''] else [])\<rparr>)"

definition goal_ok :: "tables \<Rightarrow> fabric_state \<Rightarrow> goal_spec \<Rightarrow> nat \<Rightarrow> bool" where
  "goal_ok t s g i = (case gl_kind g of
       GK_LINK_OPERATIONAL \<Rightarrow> link_known s ! i \<noteq> 0 \<and> link_operational s ! i \<noteq> 0
     | GK_NODE_OPERATIONAL \<Rightarrow> node_known s ! i \<noteq> 0 \<and> node_operational s ! i \<noteq> 0
     | GK_RESOURCE_RESTORED \<Rightarrow> resource_known s ! i \<noteq> 0 \<and> resource_restored s ! i \<noteq> 0
     | GK_SERVICE_REACHABLE_AT_LEAST \<Rightarrow> service_known s ! i \<noteq> 0 \<and> ucast (service_reachable s ! i) \<ge> gl_value g
     | GK_COUNT \<Rightarrow> False)"

definition goal_findings :: "tables \<Rightarrow> fabric_state \<Rightarrow> goal_spec \<Rightarrow> validation_finding list" where
  "goal_findings t s g = (case table_subject t (gl_subject g) of
       None \<Rightarrow> [add_finding RC_VALIDATION_GOAL_UNMET plan_level (gl_subject g)
                 ''goal references a subject that is not in the definition'']
     | Some i \<Rightarrow> if goal_ok t s g i then []
         else [add_finding RC_VALIDATION_GOAL_UNMET plan_level (gl_subject g)
                 ''goal is not satisfied by the final state''])"

section \<open>Whole plans\<close>

definition plan_finding :: "bool \<Rightarrow> reason_code \<Rightarrow> string \<Rightarrow> validation_finding list" where
  "plan_finding bad code t = (if bad then [add_finding code plan_level no_subject t] else [])"

definition identity_findings :: "plan_request \<Rightarrow> recovery_plan \<Rightarrow> validation_finding list" where
  "identity_findings n p =
     plan_finding (pl_plan_digest p \<noteq> compute_digest p) RC_VALIDATION_DIGEST_MISMATCH
       ''plan digest does not match the canonical encoding of the plan'' @
     plan_finding (pl_request_digest p \<noteq> request_digest n) RC_VALIDATION_DIGEST_MISMATCH
       ''plan is bound to a different request digest'' @
     plan_finding (pl_definition_digest p \<noteq> definition_digest (rq_definition n)) RC_VALIDATION_DIGEST_MISMATCH
       ''plan is bound to a different definition digest'' @
     plan_finding (pl_evidence_digest p \<noteq> evidence_digest (rq_evidence n)) RC_VALIDATION_DIGEST_MISMATCH
       ''plan is bound to a different evidence digest'' @
     plan_finding (pl_authority_digest p \<noteq> authority_digest (rq_authority n)) RC_VALIDATION_DIGEST_MISMATCH
       ''plan is bound to a different authority digest'' @
     plan_finding (pl_policy_digest p \<noteq> policy_digest (rq_policy n)) RC_VALIDATION_DIGEST_MISMATCH
       ''plan is bound to a different policy digest'' @
     plan_finding (pl_request p \<noteq> rq_id n \<or> pl_epoch p \<noteq> rq_epoch n \<or> pl_boot p \<noteq> rq_boot n \<or>
         pl_attempt p \<noteq> rq_attempt n) RC_VALIDATION_DIGEST_MISMATCH
       ''plan identity does not match the request identity'' @
     concat (map (\<lambda>f. plan_finding (fe_epoch f > pl_epoch p \<or> fe_epoch f = pl_epoch p \<and> fe_boot f \<noteq> pl_boot p)
         RC_VALIDATION_FENCED ''a fence revokes the authority the plan was issued under'') (rq_fences n)) @
     (let st = fst (validate_definition (rq_definition n) default_model_limits (make_log 16)) in
      plan_finding (\<not> status_ok st) RC_REQUEST_INVALID_DEFINITION (status_to_string st))"

definition validation_of :: "plan_request \<Rightarrow> validation" where
  "validation_of r = \<lparr>va_request = normalise_request r, va_tables = build_tables (rq_definition (normalise_request r))\<rparr>"

definition validation_start :: "validation \<Rightarrow> recovery_plan \<Rightarrow> validator_run" where
  "validation_start v p =
     (let n = va_request v; d = rq_definition n;
          s = validator_reconcile d (va_tables v) (rq_authority n) (eb_facts (rq_evidence n)) in
      \<lparr>vx_state = s, vx_objective = zero_objective, vx_completeness = shortfall d s True,
       vx_floor = shortfall d s False, vx_history = replicate (length (df_resources d)) [], vx_position = 0,
       vx_findings = identity_findings n p\<rparr>)"

definition validate_plan :: "plan_request \<Rightarrow> recovery_plan \<Rightarrow> validation_report" where
  "validate_plan r p =
     (let v = validation_of r;
          x = fold (validate_step v) (pl_steps p) (validation_start v p);
          matches = (compare_objective (vx_objective x) (pl_objective p) = 0);
          findings = vx_findings x @
            concat (map (goal_findings (va_tables v) (vx_state x)) (df_goals (rq_definition (va_request v)))) @
            plan_finding (\<not> matches) RC_VALIDATION_OBJECTIVE_MISMATCH
              (''stated objective '' @ objective_to_string (pl_objective p) @ '' differs from the recomputed '' @
               objective_to_string (vx_objective x)) in
      \<lparr>vr_valid = (findings = []), vr_objective_matches = matches,
       vr_digest_matches = (pl_plan_digest p = compute_digest p), vr_recomputed_objective = vx_objective x,
       vr_stated_plan_digest = pl_plan_digest p, vr_recomputed_plan_digest = compute_digest p,
       vr_findings = findings\<rparr>)"

section \<open>Certificates\<close>

definition cycle_edge :: "validation \<Rightarrow> strong_id \<Rightarrow> strong_id \<Rightarrow> bool" where
  "cycle_edge v from to = (case map_of (tb_actions (va_tables v)) to of
       None \<Rightarrow> False
     | Some i \<Rightarrow> list_ex (\<lambda>dep. dp_predecessor dep = from)
         (ac_dependencies (df_actions (rq_definition (va_request v)) ! i)))"

definition cycle_findings :: "validation \<Rightarrow> strong_id list \<Rightarrow> validation_finding list" where
  "cycle_findings v cyc =
     (if length cyc < 2 then plan_finding True RC_PROOF_DEPENDENCY_CYCLE ''cycle certificate carries no cycle''
      else plan_finding (\<not> (list_all (\<lambda>(a, b). cycle_edge v a b) (zip cyc (tl cyc)) \<and> cyc ! 0 = last cyc))
        RC_PROOF_DEPENDENCY_CYCLE ''declared cycle is not a cycle of the dependency relation'')"

text \<open>The scan over the goals; a service goal of an unknown service ends it.\<close>

fun bound_matched :: "validation \<Rightarrow> certificate \<Rightarrow> goal_spec list \<Rightarrow> bool" where
  "bound_matched v c [] = False"
| "bound_matched v c (g # gs) =
     (if gl_subject g \<noteq> ct_unreachable_subject c \<or> gl_value g \<noteq> ct_required_value c then bound_matched v c gs
      else if gl_kind g = GK_SERVICE_REACHABLE_AT_LEAST then
        (case map_of (tb_services (va_tables v)) (subj_id (gl_subject g)) of
           None \<Rightarrow> False
         | Some i \<Rightarrow> ct_unreachable_value c \<le> ucast (sv_max (df_services (rq_definition (va_request v)) ! i)) \<or>
                     bound_matched v c gs)
      else ct_unreachable_value c \<le> 0 \<or> bound_matched v c gs)"

definition referenced :: "fabric_definition \<Rightarrow> subject list" where
  "referenced d = fold (set_insert (<)) (concat (map (\<lambda>a. map pc_subject (ac_preconditions a)) (df_actions d)) @
     map gl_subject (df_goals d)) []"

definition subject_established :: "tables \<Rightarrow> fabric_state \<Rightarrow> subject \<Rightarrow> bool" where
  "subject_established t s subj = (case table_subject t subj of
       None \<Rightarrow> True
     | Some i \<Rightarrow> (case subj_kind subj of
          SK_LINK \<Rightarrow> link_known s ! i \<noteq> 0
        | SK_NODE \<Rightarrow> node_known s ! i \<noteq> 0
        | SK_SERVICE \<Rightarrow> service_known s ! i \<noteq> 0
        | SK_RESOURCE \<Rightarrow> resource_known s ! i \<noteq> 0
        | _ \<Rightarrow> True))"

definition exhaustive_findings :: "validation \<Rightarrow> certificate \<Rightarrow> validation_finding list" where
  "exhaustive_findings v c =
     (let n = va_request v; d = rq_definition n;
          s = validator_reconcile d (va_tables v) (rq_authority n) (eb_facts (rq_evidence n)) in
      plan_finding (ct_nodes_expanded c = 0) RC_PROOF_EXHAUSTIVE_SEARCH
        ''an exhaustive proof must report the explored node count'' @
      concat (map (\<lambda>subj. if subject_established (va_tables v) s subj then []
          else [add_finding RC_PROOF_EXHAUSTIVE_SEARCH plan_level subj
                  ''exhaustive proof claimed while a referenced subject is UNKNOWN'']) (referenced d)))"

definition validate_certificate :: "plan_request \<Rightarrow> certificate \<Rightarrow> validation_report" where
  "validate_certificate r c =
     (let v = validation_of r; n = va_request v;
          findings =
            plan_finding (ct_request_digest c \<noteq> request_digest n) RC_VALIDATION_DIGEST_MISMATCH
              ''certificate is bound to a different request digest'' @
            plan_finding (ct_policy_digest c \<noteq> policy_digest (rq_policy n)) RC_VALIDATION_DIGEST_MISMATCH
              ''certificate is bound to a different policy digest'' @
            plan_finding (ct_assumptions c = []) RC_VALIDATION_OBJECTIVE_MISMATCH
              ''a proof of infeasibility must state its assumptions explicitly'' @
            (case ct_kind c of
               PF_DEPENDENCY_CYCLE \<Rightarrow> cycle_findings v (ct_cycle c)
             | PF_GOAL_UPPER_BOUND \<Rightarrow>
                 if bound_matched v c (df_goals (rq_definition n)) then []
                 else [add_finding RC_PROOF_GOAL_UPPER_BOUND plan_level (ct_unreachable_subject c)
                         ''declared upper bound is not below the structural maximum of the subject'']
             | PF_EXHAUSTIVE_SEARCH \<Rightarrow> exhaustive_findings v c
             | PF_COUNT \<Rightarrow> plan_finding True RC_REQUEST_UNSUPPORTED_PROBLEM
                 ''certificate proof kind is outside the defined domain'') in
      \<lparr>vr_valid = (findings = []), vr_objective_matches = False, vr_digest_matches = False,
       vr_recomputed_objective = zero_objective, vr_stated_plan_digest = zero_digest,
       vr_recomputed_plan_digest = zero_digest, vr_findings = findings\<rparr>)"

end
