(* ===== verification/NRP_Planner_Correct.thy ===== *)
theory NRP_Planner_Correct
  imports NRP_Planner NRP_Search_Correct
begin

text \<open>
  What \<open>Planner::plan\<close> (\<open>src/planner.cpp\<close>) promises. Admission rejects, and never concludes; an
  admitted request meets the preconditions of the search theorems, so a plan is optimal and an
  exhaustive certificate is sound; budgets and missing evidence never turn into infeasibility.
\<close>

section \<open>Admission\<close>

lemma first_some_Some [simp]:
  "first_some (x # xs) = Some y \<longleftrightarrow> x = Some y \<or> x = None \<and> first_some xs = Some y"
  "first_some [] = None"
  by (simp_all add: first_some.simps split: option.splits)

lemma first_some_map: "first_some (map f xs) = Some y \<Longrightarrow> \<exists>x\<in>set xs. f x = Some y"
  by (induction xs) auto

lemma guard_Some [simp]: "guard c e = Some y \<longleftrightarrow> c \<and> y = e"
  by (auto simp: guard_def)

lemma decision_for_binding_rejects: "st \<noteq> BS_CURRENT \<Longrightarrow> is_rejection (decision_for_binding st)"
  by (cases st) (simp_all add: is_rejection_def)

named_theorems admit_defs

declare admit_identity_def [admit_defs] admit_policy_def [admit_defs] admit_epochs_def [admit_defs]
  admit_fence_def [admit_defs] admit_domain_def [admit_defs] admit_action_level_def [admit_defs]

lemma admit_definition_None: "admit_definition l d log = None \<longleftrightarrow> check_definition d l = None"
  by (auto simp: admit_definition_def validate_definition_def success_def status_ok_def status_error_def
      split: option.splits)

lemma admit_definition_Some: "admit_definition l d log = Some y \<Longrightarrow> is_rejection (fst y)"
  by (auto simp: admit_definition_def is_rejection_def split: prod.splits if_splits)

lemma admit_parts_reject:
  "admit_identity r log = Some y \<Longrightarrow> is_rejection (fst y)"
  "admit_policy p log = Some y \<Longrightarrow> is_rejection (fst y)"
  "admit_epochs n log = Some y \<Longrightarrow> is_rejection (fst y)"
  "admit_fence n log f = Some y \<Longrightarrow> is_rejection (fst y)"
  "admit_domain av log ad = Some y \<Longrightarrow> is_rejection (fst y)"
  "admit_action_level av log a = Some y \<Longrightarrow> is_rejection (fst y)"
  by (auto simp: admit_defs Let_def is_rejection_def[of "PD_REJECTED_INVALID_REQUEST"]
      is_rejection_def[of "PD_REJECTED_UNSUPPORTED_PROBLEM"] is_rejection_def[of "PD_REJECTED_FENCED"]
      is_rejection_def[of "PD_REJECTED_STALE_AUTHORITY"] is_rejection_def[of "PD_REJECTED_UNKNOWN_AUTHORITY"]
      decision_for_binding_rejects)

lemma admit_rejects: "admit l r n log = Some y \<Longrightarrow> is_rejection (fst y)"
  unfolding admit_def admit_authority_def
  by (auto dest!: first_some_map dest: admit_parts_reject admit_definition_Some split: if_splits)

text \<open>What an admitted request has established.\<close>

definition authority_established :: "plan_request \<Rightarrow> bool" where
  "authority_established n \<longleftrightarrow>
     (\<forall>ad\<in>set (required_domains (rq_definition n) (rq_evidence n)).
        evaluate_domain (rq_authority n) ad = BS_CURRENT) \<and>
     (\<forall>a\<in>set (df_actions (rq_definition n)). \<exists>b.
        find_binding (rq_authority n) (ac_required_domain a) = Some b \<and> ac_required_level a \<le> ab_level b)"

definition unfenced :: "plan_request \<Rightarrow> bool" where
  "unfenced n \<longleftrightarrow> (\<forall>f\<in>set (rq_fences n). fe_epoch f \<le> rq_epoch n \<and>
     (fe_epoch f = rq_epoch n \<longrightarrow> fe_boot f = rq_boot n))"

definition admissible_request :: "model_limits \<Rightarrow> plan_request \<Rightarrow> bool" where
  "admissible_request l n \<longleftrightarrow> check_definition (rq_definition n) l = None \<and>
     av_epoch (rq_authority n) = rq_epoch n \<and> av_boot (rq_authority n) = rq_boot n \<and>
     eb_epoch (rq_evidence n) = rq_epoch n \<and> eb_boot (rq_evidence n) = rq_boot n \<and>
     unfenced n \<and> (require_current_authority (rq_policy n) \<longrightarrow> authority_established n)"

lemma admit_None: "admit l r n log = None \<Longrightarrow> admissible_request l n"
proof -
  assume "admit l r n log = None"
  then have parts: "admit_definition l (rq_definition n) log = None" "admit_epochs n log = None"
    "\<forall>f\<in>set (rq_fences n). admit_fence n log f = None" "admit_authority n log = None"
    by (simp_all add: admit_def)
  have "unfenced n" using parts(3) by (auto simp: unfenced_def admit_fence_def)
  moreover have "authority_established n" if "require_current_authority (rq_policy n)"
    using parts(4) that
    by (auto simp: authority_established_def admit_authority_def admit_domain_def admit_action_level_def
        Let_def not_less split: option.splits)
  ultimately show ?thesis
    using parts(1,2) by (simp add: admissible_request_def admit_definition_None admit_epochs_def Let_def)
qed

section \<open>An admitted request is ready for the search\<close>

text \<open>The limits keep the total number of executions within 32 bits.\<close>

definition limits_ok :: "model_limits \<Rightarrow> bool" where
  "limits_ok l \<longleftrightarrow> unat (max_actions l) * unat (max_action_occurrences l) < 2 ^ 32"

lemma default_limits_ok: "limits_ok default_model_limits"
  by (simp add: limits_ok_def default_model_limits_def)

lemma check_definition_actions:
  assumes "check_definition d l = None"
  shows "distinct (map ac_id (df_actions d))" "length (df_actions d) \<le> unat (max_actions l)"
    "\<forall>a\<in>set (df_actions d). ac_max_occurrences a \<le> max_action_occurrences l"
  using assms by (simp_all add: check_definition_def check_sizes_def check_action_def not_less)

lemma sum_list_le_const: "(\<forall>x\<in>set xs. f x \<le> (k::nat)) \<Longrightarrow> sum_list (map f xs) \<le> length xs * k"
  by (induction xs) auto

lemma occurrence_total_less:
  assumes "check_definition d l = None" "limits_ok l"
  shows "occurrence_total d < 2 ^ 32"
proof -
  note c = check_definition_actions[OF assms(1)]
  have "occurrence_total d \<le> length (df_actions d) * unat (max_action_occurrences l)"
    unfolding occurrence_total_def by (rule sum_list_le_const) (use c(3) in \<open>simp add: word_le_nat_alt\<close>)
  also have "\<dots> \<le> unat (max_actions l) * unat (max_action_occurrences l)"
    using c(2) by (rule mult_le_mono1)
  finally show ?thesis using assms(2) by (simp add: limits_ok_def)
qed

lemma shape_materialise: "shape (materialise_state d ix table) = state_shape d"
  by (simp add: shape_def state_shape_def blank_state_def)

lemma request_env_simps [simp]:
  "se_definition (request_env l n) = rq_definition n"
  "se_indexer (request_env l n) = build_indexer (rq_definition n)"
  "se_policy (request_env l n) = rq_policy n"
  by (simp_all add: request_env_def Let_def)

lemma request_ready:
  assumes "check_definition (rq_definition n) l = None" "limits_ok l"
  shows "search_ready (request_env l n) (request_initial l n)"
  using assms check_definition_actions(1)[OF assms(1)] occurrence_total_less[OF assms]
  by (auto simp: search_ready_def config_wf_def request_initial_def shape_materialise
      occurrences_bounded_def config_depth_def)

lemma canonical_actions_sorted: "sorted (map ac_id (df_actions (canonicalise_definition d)))"
proof -
  have "sorted (map ac_id (sort_by action_less (df_actions d)))"
    using action.sorted_by_sort_by[of "df_actions d"] by (simp add: sorted_by_key action_less_def[abs_def])
  then show ?thesis by (simp add: canonicalise_definition_def canonicalise_action_def comp_def)
qed

lemma request_index_ready:
  assumes "check_definition (rq_definition (normalise_request r)) l = None"
  shows "index_ready (request_env l (normalise_request r))"
  using check_definition_actions(1)[OF assms] canonical_actions_sorted
  by (simp add: index_ready_def normalise_request_def)

section \<open>The decisions of the planner\<close>

lemma conclude_simps [simp]:
  "pr_decision (conclude d log res) = d" "pr_plan (conclude d log res) = pr_plan res"
  "pr_certificate (conclude d log res) = pr_certificate res" "pr_stats (conclude d log res) = pr_stats res"
  "pr_unresolved_subjects (conclude d log res) = pr_unresolved_subjects res"
  "pr_request_digest (conclude d log res) = pr_request_digest res"
  by (simp_all add: conclude_def)

lemma base_result_simps [simp]:
  "pr_plan (base_result r) = None" "pr_certificate (base_result r) = None"
  "pr_stats (base_result r) = zero_stats" "pr_unresolved_subjects (base_result r) = []"
  "pr_request_digest (base_result r) = request_digest (normalise_request r)"
  by (simp_all add: base_result_def)

text \<open>The search of a request, and its outcome.\<close>

definition request_search :: "model_limits \<Rightarrow> plan_request \<Rightarrow> search_state" where
  "request_search l n = search_run (request_env l n) (request_initial l n)"

definition request_unresolved :: "model_limits \<Rightarrow> plan_request \<Rightarrow> subject list" where
  "request_unresolved l n = unresolved_referenced (build_indexer (rq_definition n)) (request_initial l n)
     (referenced_subjects (rq_definition n)) (se_resolutions (request_env l n))"

text \<open>How a result came about: one case per return of \<open>Planner::plan\<close>.\<close>

datatype plan_exit =
    Exit_rejected
  | Exit_cycle "strong_id list"
  | Exit_bound goal_spec u64
  | Exit_replay_failed
  | Exit_found "plan_step list" objective
  | Exit_budget
  | Exit_incomplete
  | Exit_exhausted

definition plan_exit_of :: "model_limits \<Rightarrow> plan_request \<Rightarrow> plan_exit" where
  "plan_exit_of l r =
     (let n = normalise_request r; e = request_env l n; s = request_initial l n; d = rq_definition n;
          x = request_search l n in
      if admit l r n (make_log 96) \<noteq> None then Exit_rejected
      else case find_dependency_cycle d (build_indexer d) of Some cyc \<Rightarrow> Exit_cycle cyc
      | None \<Rightarrow> (case unreachable_goal d (build_indexer d) s (df_goals d) of
          Some (g, b) \<Rightarrow> Exit_bound g b
        | None \<Rightarrow>
          if oc_found (sx_outcome x) then
            (case replay e s (plan_encoding_of e x) of Inl st \<Rightarrow> Exit_replay_failed
             | Inr (steps, obj) \<Rightarrow> Exit_found steps obj)
          else if oc_budget_exhausted (sx_outcome x) then Exit_budget
          else if request_unresolved l n \<noteq> [] then Exit_incomplete
          else Exit_exhausted))"

definition exit_result :: "model_limits \<Rightarrow> plan_request \<Rightarrow> planning_result \<Rightarrow> plan_exit \<Rightarrow> bool" where
  "exit_result l n res ex = (let oc = sx_outcome (request_search l n) in
     case ex of
       Exit_rejected \<Rightarrow> is_rejection (pr_decision res) \<and> pr_plan res = None \<and>
         pr_certificate res = None \<and> pr_stats res = zero_stats
     | Exit_cycle cyc \<Rightarrow> pr_decision res = PD_PROVEN_INFEASIBLE \<and> pr_plan res = None \<and>
         pr_certificate res = Some (cycle_certificate n cyc) \<and> pr_stats res = zero_stats
     | Exit_bound g b \<Rightarrow> pr_decision res = PD_PROVEN_INFEASIBLE \<and> pr_plan res = None \<and>
         pr_certificate res = Some (bound_certificate n g b) \<and> pr_stats res = zero_stats
     | Exit_replay_failed \<Rightarrow> pr_decision res = PD_REJECTED_INVALID_REQUEST \<and> pr_plan res = None \<and>
         pr_certificate res = None \<and> pr_stats res = stats_of (rq_policy n) oc
     | Exit_found steps obj \<Rightarrow> pr_decision res = PD_PLAN_FOUND \<and>
         pr_plan res = Some (make_plan n steps obj oc) \<and> pr_certificate res = None \<and>
         pr_stats res = stats_of (rq_policy n) oc
     | Exit_budget \<Rightarrow> pr_decision res = PD_INDETERMINATE_SEARCH_LIMIT \<and> pr_plan res = None \<and>
         pr_certificate res = None \<and> pr_stats res = stats_of (rq_policy n) oc
     | Exit_incomplete \<Rightarrow> pr_decision res = PD_INDETERMINATE_INCOMPLETE_EVIDENCE \<and> pr_plan res = None \<and>
         pr_certificate res = None \<and> pr_stats res = stats_of (rq_policy n) oc
     | Exit_exhausted \<Rightarrow> pr_decision res = PD_PROVEN_INFEASIBLE \<and> pr_plan res = None \<and>
         pr_certificate res = Some (exhaustive_certificate n oc) \<and>
         pr_stats res = stats_of (rq_policy n) oc \<and> pr_unresolved_subjects res = [])"

lemma plan_exit: "exit_result l (normalise_request r) (plan l r) (plan_exit_of l r)"
proof (cases "admit l r (normalise_request r) (make_log 96)")
  case (Some y)
  then show ?thesis
    using admit_rejects[OF Some] by (cases y) (simp add: plan_def plan_exit_of_def exit_result_def Let_def)
next
  case None
  then show ?thesis
    by (simp add: plan_def plan_admitted_def plan_exit_of_def exit_result_def conclude_search_def Let_def
        request_search_def request_unresolved_def split: option.splits sum.splits)
qed

lemma found_exit:
  assumes "pr_decision (plan l r) = PD_PLAN_FOUND"
  obtains steps obj where "plan_exit_of l r = Exit_found steps obj"
    "pr_plan (plan l r) =
       Some (make_plan (normalise_request r) steps obj (sx_outcome (request_search l (normalise_request r))))"
proof -
  have "\<exists>steps obj. plan_exit_of l r = Exit_found steps obj"
    using plan_exit[of l r] assms
    by (cases "plan_exit_of l r") (simp_all add: exit_result_def Let_def is_rejection_def)
  then show thesis using plan_exit[of l r] that by (auto simp: exit_result_def Let_def)
qed

lemma exit_found_iff:
  assumes "plan_exit_of l r = Exit_found steps obj"
  shows "admit l r (normalise_request r) (make_log 96) = None"
    "oc_found (sx_outcome (request_search l (normalise_request r)))"
    "replay (request_env l (normalise_request r)) (request_initial l (normalise_request r))
       (plan_encoding_of (request_env l (normalise_request r)) (request_search l (normalise_request r)))
     = Inr (steps, obj)"
  using assms by (cases "admit l r (normalise_request r) (make_log 96)",
      simp_all add: plan_exit_of_def Let_def split: if_splits option.splits sum.splits prod.splits)+

lemma make_plan_simps [simp]:
  "pl_objective (make_plan n steps obj oc) = obj"
  "pl_steps (make_plan n steps obj oc) = map (bind_authority (rq_authority n)) steps"
  "plan_encoding (make_plan n steps obj oc) = map ps_action steps"
  by (simp_all add: make_plan_def draft_plan_def Let_def plan_encoding_def bind_authority_def)

lemma replay_of_search:
  assumes "check_definition (rq_definition (normalise_request r)) l = None" "limits_ok l"
    "oc_found (sx_outcome (request_search l (normalise_request r)))"
  obtains steps obj where
    "replay (request_env l (normalise_request r)) (request_initial l (normalise_request r))
       (plan_encoding_of (request_env l (normalise_request r)) (request_search l (normalise_request r)))
     = Inr (steps, obj)"
    "optimal_score (request_env l (normalise_request r)) (request_initial l (normalise_request r))
       (obj, map ps_action steps)"
proof -
  let ?e = "request_env l (normalise_request r)"
  let ?s = "request_initial l (normalise_request r)"
  let ?y = "request_search l (normalise_request r)"
  have found: "oc_found (sx_outcome (search_run ?e ?s))" using assms(3) by (simp add: request_search_def)
  have "optimal_score ?e ?s (node_score ?e (sx_arena ?y) (oc_plan_node (sx_outcome ?y)))"
    using search_run_ok[OF request_ready[OF assms(1,2)]] found
    by (simp add: outcome_ok_def request_search_def)
  then obtain obj where sc: "optimal_score ?e ?s (obj, plan_encoding_of ?e ?y)"
    by (simp add: node_score_def plan_encoding_of_def)
  then obtain path c where p: "plan_path ?e ?s path = Some c"
      "plan_score ?e ?s path = Some (obj, plan_encoding_of ?e ?y)"
    by (auto simp: optimal_score_def solves_def split: option.splits)
  show thesis
    by (rule replay_ok[OF request_index_ready[OF assms(1)] p]) (use that sc in simp)
qed

text \<open>Facts about every result.\<close>

lemma shape_of_result:
  "(pr_plan (plan l r) \<noteq> None \<longleftrightarrow> pr_decision (plan l r) = PD_PLAN_FOUND) \<and>
   (pr_certificate (plan l r) \<noteq> None \<longleftrightarrow> pr_decision (plan l r) = PD_PROVEN_INFEASIBLE) \<and>
   pr_request_digest (plan l r) = request_digest (normalise_request r)"
proof -
  have "pr_request_digest (plan l r) = request_digest (normalise_request r)"
    by (auto simp: plan_def plan_admitted_def conclude_search_def Let_def split: option.splits sum.splits)
  then show ?thesis
    using plan_exit[of l r]
    by (cases "plan_exit_of l r") (auto simp: exit_result_def Let_def is_rejection_def)
qed

lemma unrejected_admissible:
  assumes "\<not> is_rejection (pr_decision (plan l r))"
  shows "admissible_request l (normalise_request r)"
proof -
  have "plan_exit_of l r \<noteq> Exit_rejected"
    using plan_exit[of l r] assms by (auto simp: exit_result_def Let_def)
  then have "admit l r (normalise_request r) (make_log 96) = None"
    by (cases "admit l r (normalise_request r) (make_log 96)") (simp_all add: plan_exit_of_def Let_def)
  then show ?thesis by (rule admit_None)
qed

section \<open>The planner on the sample fabric\<close>

definition request_on :: "fabric_definition \<Rightarrow> plan_request" where
  "request_on d = \<lparr>rq_id = 1, rq_epoch = 1, rq_boot = 1, rq_attempt = 1, rq_definition = d,
     rq_evidence = \<lparr>eb_epoch = 1, eb_boot = 1, eb_facts = [link_fact 4 1 0]\<rparr>,
     rq_authority = sample_authority, rq_policy = sample_policy, rq_fences = []\<rparr>"

lemma sample_canonical: "canonicalise_definition sample_definition = sample_definition"
  by (simp add: canonicalise_definition_def sample_definition_def node_less_def canonicalise_action_def
      sample_action_def)

lemma request_on_normal:
  "canonicalise_definition d = d \<Longrightarrow> normalise_request (request_on d) = request_on d"
  by (simp add: normalise_request_def request_on_def canonicalise_evidence_def canonicalise_authority_def
      sample_authority_def sample_binding_def binding_less_def)

lemma sample_checked: "check_definition sample_definition default_model_limits = None"
  by (simp add: check_definition_def check_sizes_def check_link_def check_resource_def check_goal_def
      check_action_def check_compensation_def check_precondition_def check_effect_def check_use_def
      sample_definition_def sample_action_def default_model_limits_def
      node_index_def link_index_def find_resource_def resource_index_def
      valid_action_kind_def valid_reversibility_def valid_authority_domain_def valid_authority_level_def
      valid_precondition_kind_def valid_effect_kind_def valid_resource_kind_def valid_goal_kind_def)

lemma sample_domain_current:
  "ad \<in> {AD_FABRIC_STATE, AD_RECOVERY_ADMISSION, AD_POLICY, AD_EVIDENCE_INGEST} \<Longrightarrow>
   evaluate_domain sample_authority ad = BS_CURRENT"
  by (auto simp: evaluate_domain_def sample_authority_def sample_binding_def evaluate_binding_def)

lemma sample_binding_any:
  "ad \<in> {AD_FABRIC_STATE, AD_RECOVERY_ADMISSION, AD_POLICY, AD_EVIDENCE_INGEST} \<Longrightarrow>
   find_binding sample_authority ad = Some (sample_binding ad)"
  by (auto simp: find_binding_def sample_authority_def sample_binding_def)

lemma request_on_simps [simp]:
  "rq_id (request_on d) = 1" "rq_epoch (request_on d) = 1" "rq_boot (request_on d) = 1"
  "rq_attempt (request_on d) = 1" "rq_definition (request_on d) = d" "rq_fences (request_on d) = []"
  "rq_evidence (request_on d) = \<lparr>eb_epoch = 1, eb_boot = 1, eb_facts = [link_fact 4 1 0]\<rparr>"
  "rq_authority (request_on d) = sample_authority" "rq_policy (request_on d) = sample_policy"
  by (simp_all add: request_on_def)

text \<open>A definition whose only action needs the recovery authority the sample grants.\<close>

lemma request_on_admitted:
  assumes "check_definition d default_model_limits = None" "df_actions d = [a]"
    "ac_required_domain a = AD_RECOVERY_ADMISSION" "ac_required_level a = AL_RECOMMENDATION"
  shows "admit default_model_limits (request_on d) (request_on d) log = None"
proof -
  have "admit_domain sample_authority log ad = None"
    if "ad \<in> {AD_FABRIC_STATE, AD_RECOVERY_ADMISSION, AD_POLICY, AD_EVIDENCE_INGEST}" for ad
    using sample_domain_current[OF that] by (simp add: admit_domain_def Let_def)
  moreover have "set (required_domains d (rq_evidence (request_on d))) \<subseteq>
      {AD_FABRIC_STATE, AD_RECOVERY_ADMISSION, AD_POLICY, AD_EVIDENCE_INGEST}"
    using assms by (auto simp: set_required_domains link_fact_def)
  moreover have "admit_action_level sample_authority log a = None"
    using assms(3,4) sample_binding_any[of AD_RECOVERY_ADMISSION]
    by (simp add: admit_action_level_def sample_binding_def)
  ultimately have "admit_authority (request_on d) log = None"
    using assms(2) by (auto simp: admit_authority_def)
  then show ?thesis
    using assms(1)
    by (simp add: admit_def admit_definition_None)
      (simp add: admit_identity_def admit_policy_def admit_epochs_def sample_policy_def sample_authority_def
        Let_def)
qed

lemma sample_no_cycle: "find_dependency_cycle sample_definition (build_indexer sample_definition) = None"
  by (simp add: find_dependency_cycle_def find_cycle_indices_def dependency_successors_def
      sample_definition_def sample_action_def dfs_step_def dfs_loop.simps)

lemma sample_no_bound: "unreachable_goal sample_definition (build_indexer sample_definition) s
    (df_goals sample_definition) = None"
  by (simp add: goal_upper_bound_def sample_definition_simps sample_action_simps goal_writer_def sample_indexer
      index_of_def lower_bound_def)

lemma sample_request_env: "request_env default_model_limits (request_on sample_definition) = sample_env"
  by (simp add: request_env_def sample_reconcile sample_env_def env_of_def sample_table_def Let_def)

lemma sample_request_initial: "request_initial default_model_limits (request_on sample_definition) = sample_state"
proof -
  have "length (df_links sample_definition) = 1" by (simp add: sample_definition_def)
  then show ?thesis
    by (simp add: request_initial_def sample_request_env sample_env_simps)
      (simp add: sample_table_def materialise_state_def materialise_entry_def link_resolution_def
        sample_indexer index_of_def lower_bound_def sample_state_def blank_state_def flag_def)
qed

lemma sample_found: "pr_decision (plan default_model_limits (request_on sample_definition)) = PD_PLAN_FOUND"
proof -
  let ?l = "default_model_limits"
  let ?r = "request_on sample_definition"
  have n: "normalise_request ?r = ?r" by (rule request_on_normal[OF sample_canonical])
  have found: "oc_found (sx_outcome (request_search ?l ?r))"
    by (simp add: request_search_def sample_request_env sample_request_initial sample_run finalise_def)
  have "check_definition (rq_definition (normalise_request ?r)) ?l = None" by (simp add: n sample_checked)
  then obtain steps obj where "replay (request_env ?l ?r) (request_initial ?l ?r)
      (plan_encoding_of (request_env ?l ?r) (request_search ?l ?r)) = Inr (steps, obj)"
    by (rule replay_of_search) (use found in \<open>simp_all add: n default_limits_ok\<close>)
  moreover have "admit ?l ?r ?r (make_log 96) = None"
    by (rule request_on_admitted[where a = sample_action, OF sample_checked])
      (simp_all add: sample_definition_simps sample_action_def)
  ultimately have "plan_exit_of ?l ?r = Exit_found steps obj"
    using found sample_no_cycle sample_no_bound by (simp add: plan_exit_of_def n Let_def)
  then show ?thesis using plan_exit[of ?l ?r] by (simp add: exit_result_def Let_def)
qed

text \<open>The same fabric with an action that asks for the link to be operational already: no plan
  restores the link.\<close>

definition blocked_action :: action_spec where
  "blocked_action = sample_action\<lparr>ac_preconditions :=
     [\<lparr>pc_kind = PK_LINK_OPERATIONAL, pc_subject = Subject SK_LINK 5, pc_value = 0\<rparr>]\<rparr>"

definition blocked_definition :: fabric_definition where
  "blocked_definition = sample_definition\<lparr>df_actions := [blocked_action]\<rparr>"

lemma blocked_simps:
  "df_actions blocked_definition = [blocked_action]" "df_services blocked_definition = []"
  "df_goals blocked_definition = df_goals sample_definition"
  "df_links blocked_definition = df_links sample_definition"
  "df_exclusion_groups blocked_definition = []"
  "df_resources blocked_definition = df_resources sample_definition"
  "build_indexer blocked_definition = build_indexer sample_definition"
  by (simp_all add: blocked_definition_def sample_definition_simps build_indexer_def blocked_action_def)

lemma blocked_canonical: "canonicalise_definition blocked_definition = blocked_definition"
  by (simp add: canonicalise_definition_def blocked_definition_def blocked_action_def sample_definition_def
      node_less_def canonicalise_action_def sample_action_def)

lemma blocked_checked: "check_definition blocked_definition default_model_limits = None"
  by (simp add: check_definition_def check_sizes_def check_link_def check_resource_def check_goal_def
      check_action_def check_compensation_def check_precondition_def check_effect_def check_use_def
      blocked_definition_def blocked_action_def sample_definition_def sample_action_def
      default_model_limits_def node_index_def link_index_def find_resource_def resource_index_def
      valid_action_kind_def valid_reversibility_def valid_authority_domain_def valid_authority_level_def
      valid_precondition_kind_def valid_effect_kind_def valid_resource_kind_def valid_goal_kind_def)

lemma blocked_no_cycle: "find_dependency_cycle blocked_definition (build_indexer blocked_definition) = None"
  by (simp add: find_dependency_cycle_def find_cycle_indices_def dependency_successors_def
      blocked_simps blocked_action_def sample_action_def dfs_step_def dfs_loop.simps)

lemma blocked_no_bound: "unreachable_goal blocked_definition (build_indexer blocked_definition) s
    (df_goals blocked_definition) = None"
  by (simp add: goal_upper_bound_def blocked_simps sample_definition_simps blocked_action_def
      sample_action_simps goal_writer_def sample_indexer index_of_def lower_bound_def)

lemma blocked_env: "request_env default_model_limits (request_on blocked_definition) = env_of blocked_definition"
  by (simp add: request_env_def sample_reconcile blocked_simps env_of_def sample_table_def Let_def)

lemma blocked_initial: "request_initial default_model_limits (request_on blocked_definition) = sample_state"
proof -
  have "blank_state blocked_definition = blank_state sample_definition"
    by (simp add: blank_state_def blocked_definition_def sample_definition_simps)
  then have "materialise_state blocked_definition ix t = materialise_state sample_definition ix t" for ix t
    by (simp add: materialise_state_def)
  then show ?thesis
    using sample_request_initial
    by (simp add: request_initial_def blocked_env sample_request_env blocked_simps)
      (simp add: env_of_def sample_env_simps)
qed

lemma blocked_step: "apply_action (env_of blocked_definition) (node_at sample_state) 0 =
    Inl (blocked RC_VALIDATION_PRECONDITION_UNMET)"
  by (simp add: env_of_def compile_defs blocked_simps sample_indexer sample_definition_simps
      blocked_action_def sample_action_simps step_defs sample_state_eq node_at_def)

lemma blocked_run: "oc_frontier_emptied (sx_outcome (search_run (env_of blocked_definition) sample_state)) \<and>
  \<not> oc_found (sx_outcome (search_run (env_of blocked_definition) sample_state)) \<and>
  \<not> oc_budget_exhausted (sx_outcome (search_run (env_of blocked_definition) sample_state))"
proof -
  let ?e = "env_of blocked_definition"
  have e: "se_definition ?e = blocked_definition" "se_policy ?e = sample_policy"
    "se_indexer ?e = build_indexer sample_definition"
    "cp_absolute_step_bound (se_compiled ?e) = 1" "\<not> cp_occurrence_bound_overflows (se_compiled ?e)"
    by (simp_all add: env_of_def blocked_simps compile_defs blocked_action_def sample_action_simps)
  have goal: "\<not> goals_satisfied ?e sample_state"
    by (simp add: goals_satisfied_def goal_holds_def e blocked_simps sample_definition_simps sample_indexer
        index_of_def lower_bound_def) (simp add: sample_state_eq)
  have init: "oc_effective_step_bound (initial_outcome ?e) = 1" "oc_nodes_expanded (initial_outcome ?e) = 0"
    "\<not> oc_budget_exhausted (initial_outcome ?e)" "\<not> oc_found (initial_outcome ?e)"
    by (simp_all add: initial_outcome_def absolute_bound_def e sample_policy_def)
  have root: "root_node ?e sample_state = node_at sample_state"
    by (simp add: root_node_def config_node_def node_at_def incompleteness_def e blocked_simps)
  have node: "sn_state (node_at sample_state) = sample_state" "sn_depth (node_at sample_state) = 0"
    by (simp_all add: node_at_def)
  have pol: "max_nodes_expanded sample_policy = 100" by (simp add: sample_policy_def)
  let ?x = "initial_search ?e sample_state"
  obtain y where y: "search_step ?e ?x = Inr y" "sx_frontier y = []"
      "\<not> oc_budget_exhausted (sx_outcome y)" "\<not> oc_found (sx_outcome y)"
    by (simp add: search_step_def initial_search_def stale_entry_def root goal node init pol e blocked_simps
        expand_node_def expand_action_def blocked_step Let_def count_block_def count_expanded_def blocked_def)
  show ?thesis
    unfolding search_run_def
    by (subst (1 2 3) search_loop.simps, simp add: y, subst (1 2 3) search_loop.simps)
      (simp add: search_step_def y leave_loop_def finalise_def)
qed

lemma blocked_unresolved: "request_unresolved default_model_limits (request_on blocked_definition) = []"
  by (simp add: request_unresolved_def unresolved_referenced_def unresolved_entries_def missing_subjects_def
      blocked_env blocked_initial subject_set_def)
    (simp add: env_of_def sample_table_def link_resolution_def referenced_subjects_def blocked_simps
      blocked_action_def sample_definition_simps subject_set_def established_def sample_indexer index_of_def
      lower_bound_def sample_state_eq)

lemma blocked_exhausted:
  "pr_certificate (plan default_model_limits (request_on blocked_definition)) = Some (exhaustive_certificate
     (request_on blocked_definition)
     (sx_outcome (request_search default_model_limits (request_on blocked_definition))))"
proof -
  let ?l = "default_model_limits"
  let ?r = "request_on blocked_definition"
  have n: "normalise_request ?r = ?r" by (rule request_on_normal[OF blocked_canonical])
  have "admit ?l ?r ?r (make_log 96) = None"
    by (rule request_on_admitted[where a = blocked_action, OF blocked_checked])
      (simp_all add: blocked_simps blocked_action_def sample_action_def)
  then have "plan_exit_of ?l ?r = Exit_exhausted"
    using blocked_no_cycle blocked_no_bound blocked_run blocked_unresolved
    by (simp add: plan_exit_of_def n Let_def request_search_def blocked_env blocked_initial)
  then show ?thesis using plan_exit[of ?l ?r] by (simp add: exit_result_def Let_def n)
qed

section \<open>What found plans and certificates mean\<close>

lemma found_plan_optimal:
  assumes "limits_ok l" "pr_decision (plan l r) = PD_PLAN_FOUND"
  shows "\<exists>p. pr_plan (plan l r) = Some p \<and>
    optimal_score (request_env l (normalise_request r)) (request_initial l (normalise_request r))
      (pl_objective p, plan_encoding p) \<and>
    (\<forall>st\<in>set (pl_steps p). ps_issued_level st = AL_RECOMMENDATION)"
proof -
  obtain steps obj where ex: "plan_exit_of l r = Exit_found steps obj"
    and p: "pr_plan (plan l r) =
       Some (make_plan (normalise_request r) steps obj (sx_outcome (request_search l (normalise_request r))))"
    by (rule found_exit[OF assms(2)])
  note found = exit_found_iff[OF ex]
  have "check_definition (rq_definition (normalise_request r)) l = None"
    using admit_None[OF found(1)] by (simp add: admissible_request_def)
  then have "optimal_score (request_env l (normalise_request r)) (request_initial l (normalise_request r))
      (obj, map ps_action steps)"
    by (rule replay_of_search[OF _ assms(1) found(2)]) (use found(3) in simp)
  with p show ?thesis by (auto simp: bind_authority_def)
qed

lemma exhausted_unsolvable:
  assumes "limits_ok l" "pr_certificate (plan l r) = Some c" "ct_kind c = PF_EXHAUSTIVE_SEARCH"
  shows "pr_decision (plan l r) = PD_PROVEN_INFEASIBLE \<and> pr_unresolved_subjects (plan l r) = [] \<and>
    \<not> solves (request_env l (normalise_request r)) (request_initial l (normalise_request r)) path"
proof -
  have ex: "plan_exit_of l r = Exit_exhausted"
    using plan_exit[of l r] assms(2,3)
    by (cases "plan_exit_of l r") (auto simp: exit_result_def Let_def cycle_certificate_def bound_certificate_def)
  then have facts: "admit l r (normalise_request r) (make_log 96) = None"
    "\<not> oc_found (sx_outcome (request_search l (normalise_request r)))"
    "\<not> oc_budget_exhausted (sx_outcome (request_search l (normalise_request r)))"
    by (cases "admit l r (normalise_request r) (make_log 96)",
        auto simp: plan_exit_of_def Let_def split: if_splits option.splits sum.splits prod.splits)+
  have "check_definition (rq_definition (normalise_request r)) l = None"
    using admit_None[OF facts(1)] by (simp add: admissible_request_def)
  note ready = request_ready[OF this assms(1)]
  have "oc_frontier_emptied (sx_outcome (request_search l (normalise_request r)))"
    using search_run_budget[of "request_env l (normalise_request r)" "request_initial l (normalise_request r)"]
      facts(2,3) by (auto simp: verdict_ok_def request_search_def exhausted_verdict_def)
  then have "\<not> solves (request_env l (normalise_request r)) (request_initial l (normalise_request r)) path"
    using search_run_ok[OF ready] by (simp add: outcome_ok_def request_search_def)
  then show ?thesis using plan_exit[of l r] ex by (simp add: exit_result_def Let_def)
qed

section \<open>Properties\<close>

text \<open>C1. Every plan the planner returns is optimal: its objective and action sequence are those of an
  admissible sequence that satisfies the goals from the state the evidence establishes, within the
  step bound, and no such sequence is better in the order of objectives and encodings. Every step
  is issued as a recommendation only.\<close>

theorem plan_found_optimal:
  assumes "limits_ok l" "pr_decision (plan l r) = PD_PLAN_FOUND"
  shows "\<exists>p. pr_plan (plan l r) = Some p \<and>
    optimal_score (request_env l (normalise_request r)) (request_initial l (normalise_request r))
      (pl_objective p, plan_encoding p) \<and>
    (\<forall>st\<in>set (pl_steps p). ps_issued_level st = AL_RECOMMENDATION)"
  by (rule found_plan_optimal[OF assms])

theorem plan_found_optimal_witness:
  "\<exists>p. pr_plan (plan default_model_limits (request_on sample_definition)) = Some p \<and>
    optimal_score sample_env sample_state (pl_objective p, plan_encoding p) \<and>
    (\<forall>st\<in>set (pl_steps p). ps_issued_level st = AL_RECOMMENDATION)"
  using plan_found_optimal[OF default_limits_ok sample_found]
  by (simp add: request_on_normal[OF sample_canonical] sample_request_env sample_request_initial)



text \<open>C3. The planner finds a plan whenever there is one: for an admitted request without a static
  proof of infeasibility, if some admissible sequence within the step bound satisfies the goals and
  the search stays within its budget, the decision is PLAN_FOUND.\<close>

theorem plan_complete:
  assumes "limits_ok l" "admit l r (normalise_request r) (make_log 96) = None"
    and static: "find_dependency_cycle (rq_definition (normalise_request r))
        (build_indexer (rq_definition (normalise_request r))) = None"
      "unreachable_goal (rq_definition (normalise_request r)) (build_indexer (rq_definition (normalise_request r)))
        (request_initial l (normalise_request r)) (df_goals (rq_definition (normalise_request r))) = None"
    and budget: "\<not> oc_budget_exhausted (sx_outcome (request_search l (normalise_request r)))"
    and sol: "solves (request_env l (normalise_request r)) (request_initial l (normalise_request r)) path"
  shows "pr_decision (plan l r) = PD_PLAN_FOUND"
proof -
  have chk: "check_definition (rq_definition (normalise_request r)) l = None"
    using admit_None[OF assms(2)] by (simp add: admissible_request_def)
  have "\<not> oc_frontier_emptied (sx_outcome (request_search l (normalise_request r)))"
    using search_run_ok[OF request_ready[OF chk assms(1)]] sol by (auto simp: outcome_ok_def request_search_def)
  then have found: "oc_found (sx_outcome (request_search l (normalise_request r)))"
    using search_run_budget[of "request_env l (normalise_request r)" "request_initial l (normalise_request r)"]
      budget by (auto simp: verdict_ok_def request_search_def exhausted_verdict_def)
  obtain steps obj where "plan_exit_of l r = Exit_found steps obj"
    by (rule replay_of_search[OF chk assms(1) found]) (simp add: plan_exit_of_def assms static found Let_def)
  then show ?thesis using plan_exit[of l r] by (simp add: exit_result_def Let_def)
qed

lemma sample_solves: "solves sample_env sample_state [0]"
proof -
  have "step_bound sample_env = 1"
    by (simp add: step_bound_def initial_outcome_def absolute_bound_def sample_env_simps sample_policy_def)
  moreover have "config_node sample_env (sample_state, []) = node_at sample_state"
    by (simp add: config_node_def node_at_def incompleteness_def sample_simps)
  ultimately show ?thesis
    by (simp add: solves_def plan_path_def action_count_of_def sample_definition_simps sample_env_simps
        config_step_def sample_step sample_goal)
      (simp add: sample_transition_def sample_successor_def sample_state_eq)
qed

theorem plan_complete_witness:
  "pr_decision (plan default_model_limits (request_on sample_definition)) = PD_PLAN_FOUND"
proof -
  let ?r = "request_on sample_definition"
  have n: "normalise_request ?r = ?r" by (rule request_on_normal[OF sample_canonical])
  have "admit default_model_limits ?r ?r (make_log 96) = None"
    by (rule request_on_admitted[where a = sample_action, OF sample_checked])
      (simp_all add: sample_definition_simps sample_action_def)
  moreover have "find_dependency_cycle (rq_definition ?r) (build_indexer (rq_definition ?r)) = None"
    using sample_no_cycle by (simp only: request_on_simps)
  moreover have "unreachable_goal (rq_definition ?r) (build_indexer (rq_definition ?r))
      (request_initial default_model_limits ?r) (df_goals (rq_definition ?r)) = None"
    using sample_no_bound by (simp only: request_on_simps)
  moreover have "\<not> oc_budget_exhausted (sx_outcome (request_search default_model_limits ?r))"
    by (simp add: request_search_def sample_request_env sample_request_initial sample_run finalise_def)
      (simp add: sample_frontier_state_def initial_outcome_def)
  moreover have "solves (request_env default_model_limits ?r) (request_initial default_model_limits ?r) [0]"
    using sample_solves by (simp only: sample_request_env sample_request_initial)
  ultimately show ?thesis
    by (rule plan_complete[OF default_limits_ok, where r = ?r and path = "[0]", unfolded n])
qed

text \<open>C9. Running out of budget is never infeasibility: the statistics report an exhausted budget exactly
  when the decision is INDETERMINATE_SEARCH_LIMIT, and then there is neither a plan nor a
  certificate.\<close>

theorem budget_is_indeterminate:
  "(ss_budget_exhausted (pr_stats (plan l r)) \<longleftrightarrow> pr_decision (plan l r) = PD_INDETERMINATE_SEARCH_LIMIT) \<and>
   (pr_decision (plan l r) = PD_INDETERMINATE_SEARCH_LIMIT, pr_plan (plan l r) = None,
     pr_certificate (plan l r) = None) \<notin> {(True, False, True), (True, True, False), (True, False, False)}"
proof -
  let ?oc = "sx_outcome (request_search l (normalise_request r))"
  have verdict: "oc_found ?oc \<Longrightarrow> \<not> oc_budget_exhausted ?oc"
    using search_run_budget[of "request_env l (normalise_request r)" "request_initial l (normalise_request r)"]
    by (auto simp: verdict_ok_def request_search_def exhausted_verdict_def)
  have "oc_found ?oc" if "plan_exit_of l r = Exit_found steps obj" for steps obj
    using exit_found_iff(2)[OF that] .
  moreover have "oc_found ?oc" if "plan_exit_of l r = Exit_replay_failed"
    using that by (simp add: plan_exit_of_def Let_def split: if_splits option.splits sum.splits prod.splits)
  moreover have "oc_budget_exhausted ?oc" if "plan_exit_of l r = Exit_budget"
    using that by (simp add: plan_exit_of_def Let_def split: if_splits option.splits sum.splits prod.splits)
  moreover have "\<not> oc_budget_exhausted ?oc" if "plan_exit_of l r \<in> {Exit_incomplete, Exit_exhausted}"
    using that by (auto simp add: plan_exit_of_def Let_def split: if_splits option.splits sum.splits prod.splits)
  ultimately show ?thesis
    using plan_exit[of l r] verdict
    by (cases "plan_exit_of l r") (auto simp: exit_result_def Let_def stats_of_def zero_stats_def is_rejection_def)
qed

text \<open>C11. The result has the shape its decision announces: a plan exactly with PLAN_FOUND, a certificate
  exactly with PROVEN_INFEASIBLE, and always the digest of the canonical request.\<close>

theorem result_shape:
  "(pr_plan (plan l r) \<noteq> None \<longleftrightarrow> pr_decision (plan l r) = PD_PLAN_FOUND) \<and>
   (pr_certificate (plan l r) \<noteq> None \<longleftrightarrow> pr_decision (plan l r) = PD_PROVEN_INFEASIBLE) \<and>
   pr_request_digest (plan l r) = request_digest (normalise_request r)"
  by (rule shape_of_result)

text \<open>C12. Nothing is concluded for a request that is not admissible: unless the decision is a rejection,
  the definition is valid, authority and evidence belong to the request's epoch and boot, no fence
  revokes it, and, when the policy asks for it, every required authority domain is CURRENT and
  every action's authority level is established.\<close>

theorem conclusions_need_admission:
  assumes "\<not> is_rejection (pr_decision (plan l r))"
  shows "admissible_request l (normalise_request r)"
  by (rule unrejected_admissible[OF assms])

theorem conclusions_need_admission_witness:
  "admissible_request default_model_limits (normalise_request (request_on sample_definition))"
  by (rule conclusions_need_admission) (simp add: sample_found is_rejection_def)

text \<open>A fence from a later coordinator epoch, or from another boot of the same epoch, revokes a
  request: the planner rejects it without a plan and without a certificate.\<close>

theorem fenced_rejected:
  assumes "f \<in> set (rq_fences r)"
    "fe_epoch f > rq_epoch r \<or> fe_epoch f = rq_epoch r \<and> fe_boot f \<noteq> rq_boot r"
  shows "is_rejection (pr_decision (plan l r)) \<and> pr_plan (plan l r) = None \<and>
    pr_certificate (plan l r) = None"
proof -
  have "\<not> unfenced (normalise_request r)"
    using assms by (auto simp: unfenced_def normalise_request_def not_le[symmetric])
  then have "is_rejection (pr_decision (plan l r))"
    using unrejected_admissible[of l r] by (auto simp: admissible_request_def)
  moreover have "pr_plan (plan l r) = None \<and> pr_certificate (plan l r) = None"
    if "is_rejection (pr_decision (plan l r))"
    using shape_of_result[of l r] that by (auto simp: is_rejection_def)
  ultimately show ?thesis by blast
qed

theorem fenced_rejected_witness:
  "is_rejection (pr_decision (plan default_model_limits ((request_on sample_definition)
      \<lparr>rq_fences := [\<lparr>fe_epoch = 2, fe_boot = 1, fe_domain = AD_FABRIC_STATE,
       fe_minimum_generation = 0, fe_sequence = 1, fe_reason = []\<rparr>]\<rparr>)))"
  by (rule fenced_rejected[where f = "\<lparr>fe_epoch = 2, fe_boot = 1, fe_domain = AD_FABRIC_STATE,
       fe_minimum_generation = 0, fe_sequence = 1, fe_reason = []\<rparr>", THEN conjunct1]) simp_all

end
