(* ===== verification/NRP_Validate_Evidence.thy ===== *)
theory NRP_Validate_Evidence
  imports NRP_Validate NRP_Planner_Correct
begin

text \<open>
  The planner's and the validator's view of one request: identity tables and binary-searched
  identity lists find the same positions, and when no two admissible facts of one sequence
  contradict each other the two reconcilers establish the same initial state.
\<close>

section \<open>Identities\<close>

text \<open>A definition whose identity lists are strictly increasing.\<close>

definition indexed :: "fabric_definition \<Rightarrow> bool" where
  "indexed d \<longleftrightarrow> (\<forall>ids\<in>set [map nd_id (df_nodes d), map lk_id (df_links d), map sv_id (df_services d),
     map rs_id (df_resources d), map ac_id (df_actions d), map xg_id (df_exclusion_groups d)]. sorted ids \<and> distinct ids)"

lemma canonical_sorted:
  "sorted (map nd_id (df_nodes (canonicalise_definition d)))"
  "sorted (map lk_id (df_links (canonicalise_definition d)))"
  "sorted (map sv_id (df_services (canonicalise_definition d)))"
  "sorted (map rs_id (df_resources (canonicalise_definition d)))"
  "sorted (map xg_id (df_exclusion_groups (canonicalise_definition d)))"
  unfolding canonicalise_definition_def fabric_definition.simps
  by (rule sorted_by_key, simp add: node_less_def link_less_def service_less_def resource_less_def group_less_def)+

lemma checked_indexed:
  assumes "check_definition (canonicalise_definition d) l = None"
  shows "indexed (canonicalise_definition d)"
  using assms canonical_sorted[of d] canonical_actions_sorted[of d]
  by (simp add: indexed_def check_definition_def)

lemma index_of_Some: "index_of i ids = Some k \<Longrightarrow> k < length ids \<and> ids ! k = i"
  using lower_bound_le[of ids i] by (auto simp: index_of_def Let_def split: if_splits)

lemma index_of_None: "i \<notin> set ids \<Longrightarrow> index_of i ids = None"
  by (cases "index_of i ids") (auto dest: index_of_Some)

lemma id_table_lookup:
  assumes "sorted ids" "distinct ids"
  shows "map_of (id_table ids) i = index_of i ids"
proof (cases "i \<in> set ids")
  case True
  then obtain k where k: "k < length ids" "i = ids ! k" by (metis in_set_conv_nth)
  have "map_of (zip ids [0..<length ids]) (ids ! k) = Some ([0..<length ids] ! k)"
    by (rule map_of_zip_nth) (use assms k in simp_all)
  then show ?thesis using index_of_nth[OF assms k(1)] k by (simp add: id_table_def)
next
  case False
  then have "map_of (id_table ids) i = None" by (auto simp: id_table_def map_of_eq_None_iff dest: set_zip_leftD)
  with index_of_None[OF False] show ?thesis by simp
qed

lemma table_lookup:
  assumes "indexed d"
  shows "map_of (tb_nodes (build_tables d)) i = index_of i (ix_node_ids (build_indexer d))"
    and "map_of (tb_links (build_tables d)) i = index_of i (ix_link_ids (build_indexer d))"
    and "map_of (tb_services (build_tables d)) i = index_of i (ix_service_ids (build_indexer d))"
    and "map_of (tb_resources (build_tables d)) i = index_of i (ix_resource_ids (build_indexer d))"
    and "map_of (tb_actions (build_tables d)) i = index_of i (ix_action_ids (build_indexer d))"
    and "map_of (tb_groups (build_tables d)) i = index_of i (map xg_id (df_exclusion_groups d))"
  using assms by (simp_all add: indexed_def build_tables_def build_indexer_def id_table_lookup)

lemma table_subject_index:
  assumes "indexed d"
  shows "table_subject (build_tables d) s = subject_index (build_indexer d) s"
proof (cases s)
  case (Subject k i)
  with table_lookup[OF assms, of i] show ?thesis by (cases k) simp_all
qed

section \<open>Admissible facts\<close>

lemma domain_of_eq: "domain_of k = domain_for_evidence k"
  by (cases k) simp_all

lemma value_admissible_eq:
  assumes "indexed d" and "\<forall>s\<in>set (df_services d). sv_max s \<le> max_service_endpoints l"
  shows "value_admissible d (build_tables d) f = value_in_domain d (build_indexer d) l f"
proof (cases "ef_kind f = EK_SERVICE_REACHABLE_ENDPOINTS")
  case True
  have "v \<le> ucast (sv_max (df_services d ! i)) \<Longrightarrow> v \<le> ucast (max_service_endpoints l)"
    if "index_of (subj_id (ef_subject f)) (ix_service_ids (build_indexer d)) = Some i" for i and v :: u64
  proof -
    have "i < length (df_services d)" using index_of_Some[OF that] by (simp add: build_indexer_def)
    then have "sv_max (df_services d ! i) \<le> max_service_endpoints l" using assms(2) by simp
    then have "(ucast (sv_max (df_services d ! i)) :: u64) \<le> ucast (max_service_endpoints l)"
      by (simp add: word_le_nat_alt)
    then show "v \<le> ucast (sv_max (df_services d ! i)) \<Longrightarrow> v \<le> ucast (max_service_endpoints l)" by simp
  qed
  with True table_lookup[OF assms(1)] show ?thesis
    by (auto simp: value_admissible_def value_in_domain_def split: option.splits)
next
  case False
  with table_lookup[OF assms(1)] show ?thesis
    by (cases "ef_kind f") (simp_all add: value_admissible_def value_in_domain_def split: option.splits)
qed

lemma admissible_subject:
  assumes "value_in_domain d ix l f" "subj_kind (ef_subject f) = expected_subject_evidence (ef_kind f)"
  shows "subject_index ix (ef_subject f) \<noteq> None"
proof (cases "ef_subject f")
  case (Subject k i)
  with assms show ?thesis
    by (cases "ef_kind f") (auto simp: value_in_domain_def split: option.splits)
qed


section \<open>One group of facts\<close>

text \<open>What a definition within the limits gives the lemmas below.\<close>

definition within_limits :: "fabric_definition \<Rightarrow> model_limits \<Rightarrow> bool" where
  "within_limits d l \<longleftrightarrow> indexed d \<and> (\<forall>s\<in>set (df_services d). sv_max s \<le> max_service_endpoints l)"

lemma checked_within_limits:
  assumes "check_definition (canonicalise_definition d) l = None"
  shows "within_limits (canonicalise_definition d) l"
  using assms checked_indexed[OF assms]
  by (auto simp: within_limits_def check_definition_def check_service_def not_less)

definition scan_core :: "group_scan \<Rightarrow> bool \<times> seqno \<times> u64 \<times> bool" where
  "scan_core g = (gs_usable g, gs_sequence g, gs_value g, gs_conflict g)"

lemma scan_fact_core:
  assumes w: "within_limits d l" and valid: "valid_evidence_kind (ef_kind f)"
  shows "scan_core (scan_fact d (build_tables d) au f g) =
    (if \<not> admissible_fact d (build_indexer d) au l f then scan_core g
     else if \<not> gs_usable g then (True, ef_sequence f, ef_value f, gs_conflict g)
     else if ef_sequence f > gs_sequence g then (True, ef_sequence f, ef_value f, False)
     else if ef_sequence f = gs_sequence g \<and> ef_value f \<noteq> gs_value g then (True, gs_sequence g, gs_value g, True)
     else scan_core g)"
proof -
  have v: "value_admissible d (build_tables d) f = value_in_domain d (build_indexer d) l f"
    using w by (intro value_admissible_eq) (simp_all add: within_limits_def)
  show ?thesis
    using admissible_subject[of d "build_indexer d" l f] valid
    by (auto simp: scan_fact_def admissible_fact_def scan_core_def v domain_of_eq split: option.splits)
qed

text \<open>The scan has found the newest admissible fact, if there is one.\<close>

definition scan_newest :: "(evidence_fact \<Rightarrow> bool) \<Rightarrow> evidence_fact list \<Rightarrow> group_scan \<Rightarrow> bool" where
  "scan_newest adm fs g \<longleftrightarrow> \<not> gs_conflict g \<and> (gs_usable g \<longleftrightarrow> (\<exists>f\<in>set fs. adm f)) \<and>
     (gs_usable g \<longrightarrow> (\<exists>f\<in>set fs. adm f \<and> ef_sequence f = gs_sequence g \<and> ef_value f = gs_value g) \<and>
        (\<forall>h\<in>set fs. adm h \<longrightarrow> ef_sequence h \<le> gs_sequence g))"

lemma scan_group_newest:
  assumes w: "within_limits d l"
    and key: "\<forall>f\<in>set fs. valid_evidence_kind (ef_kind f) \<and> fact_key f = k"
    and cons: "consistent_facts d (build_indexer d) au l fs k"
  shows "scan_newest (admissible_fact d (build_indexer d) au l) fs (scan_group d (build_tables d) au fs)"
  using key cons
proof (induction fs rule: rev_induct)
  case Nil
  show ?case by (simp add: scan_newest_def scan_group_def)
next
  case (snoc f fs)
  let ?adm = "admissible_fact d (build_indexer d) au l"
  let ?g = "scan_group d (build_tables d) au fs"
  let ?g' = "scan_fact d (build_tables d) au f ?g"
  have IH: "scan_newest ?adm fs ?g"
    using snoc.IH snoc.prems(1) consistent_facts_prefix[OF snoc.prems(2)] by simp
  have same: "ef_value h = ef_value f" if "h \<in> set fs" "?adm h" "?adm f" "ef_sequence h = ef_sequence f" for h
    by (rule snoc.prems(2)[unfolded consistent_facts_def, rule_format])
      (use that snoc.prems(1) in simp_all)
  have core: "scan_core ?g' = (if \<not> ?adm f then scan_core ?g
     else if \<not> gs_usable ?g then (True, ef_sequence f, ef_value f, gs_conflict ?g)
     else if ef_sequence f > gs_sequence ?g then (True, ef_sequence f, ef_value f, False)
     else if ef_sequence f = gs_sequence ?g \<and> ef_value f \<noteq> gs_value ?g then (True, gs_sequence ?g, gs_value ?g, True)
     else scan_core ?g)"
    by (rule scan_fact_core[OF w]) (use snoc.prems(1) in simp)
  have "scan_newest ?adm (fs @ [f]) ?g'"
  proof (cases "?adm f")
    case False
    with core have "gs_usable ?g' = gs_usable ?g" "gs_sequence ?g' = gs_sequence ?g"
      "gs_value ?g' = gs_value ?g" "gs_conflict ?g' = gs_conflict ?g" by (simp_all add: scan_core_def)
    with IH False show ?thesis by (auto simp: scan_newest_def)
  next
    case f: True
    show ?thesis
    proof (cases "gs_usable ?g")
      case False
      with core f have "gs_usable ?g'" "gs_sequence ?g' = ef_sequence f" "gs_value ?g' = ef_value f"
        "gs_conflict ?g' = gs_conflict ?g" by (simp_all add: scan_core_def)
      with IH False f show ?thesis by (auto simp: scan_newest_def)
    next
      case used: True
      obtain h where h: "h \<in> set fs" "?adm h" "ef_sequence h = gs_sequence ?g" "ef_value h = gs_value ?g"
        using IH used by (auto simp: scan_newest_def)
      show ?thesis
      proof (cases "ef_sequence f > gs_sequence ?g")
        case True
        with core f used have "gs_usable ?g'" "gs_sequence ?g' = ef_sequence f" "gs_value ?g' = ef_value f"
          "\<not> gs_conflict ?g'" by (simp_all add: scan_core_def)
        with IH used True f show ?thesis by (fastforce simp: scan_newest_def)
      next
        case False
        have "ef_sequence f = gs_sequence ?g \<Longrightarrow> ef_value f = gs_value ?g" using same[OF h(1,2) f] h by simp
        with core f used False have "scan_core ?g' = scan_core ?g" by auto
        then have "gs_usable ?g' = gs_usable ?g" "gs_sequence ?g' = gs_sequence ?g"
          "gs_value ?g' = gs_value ?g" "gs_conflict ?g' = gs_conflict ?g" by (simp_all add: scan_core_def)
        with IH used False f h show ?thesis by (auto simp: scan_newest_def)
      qed
    qed
  qed
  then show ?case by (simp add: scan_group_def)
qed

section \<open>Grouped facts and the resolution table\<close>

lemma map_put_same_keys:
  "map fst m = map fst m' \<Longrightarrow> map fst (map_put lt k v m) = map fst (map_put lt k w m')"
proof (induction m arbitrary: m')
  case (Cons e m)
  then obtain e' m2 where m': "m' = e' # m2" by (cases m') auto
  with Cons show ?case by (cases e; cases e') auto
qed simp

lemma reconcile_keys:
  "g \<in> set facts \<Longrightarrow> valid_evidence_kind (ef_kind g) \<Longrightarrow> fact_key g \<in> fst ` set (reconcile d ix au l facts)"
proof (induction facts rule: rev_induct)
  case (snoc h hs)
  have s: "sorted_wrt evidence_key_less (map fst (reconcile d ix au l hs))"
    using reconcile_table_ok[of d ix au l hs] by (simp add: table_ok_def)
  have "fact_key g \<in> dom (map_of (reconcile d ix au l (hs @ [h])))"
    using snoc by (auto simp: reconcile_snoc ingest_lookup[OF s] dom_map_of_conv_image_fst)
  then show ?case by (simp add: dom_map_of_conv_image_fst)
qed simp

lemma grouped_facts:
  "map fst (fold group_fact facts []) = map fst (reconcile d ix au l facts) \<and>
   map_of (fold group_fact facts []) k =
     (if k \<in> fst ` set (reconcile d ix au l facts)
      then Some (filter (\<lambda>f. valid_evidence_kind (ef_kind f) \<and> fact_key f = k) facts) else None)"
proof (induction facts arbitrary: k rule: rev_induct)
  case Nil
  show ?case by (simp add: reconcile_def)
next
  case (snoc f facts)
  let ?m = "fold group_fact facts []" and ?t = "reconcile d ix au l facts"
  have keys: "map fst ?m = map fst ?t" using snoc by blast
  have sorted: "sorted_wrt evidence_key_less (map fst ?m)"
    using reconcile_table_ok[of d ix au l facts] by (simp add: keys table_ok_def)
  have fstset: "fst ` set ?m = fst ` set ?t" using keys by (metis list.set_map)
  show ?case
  proof (cases "valid_evidence_kind (ef_kind f)")
    case False
    with snoc show ?thesis by (simp add: reconcile_snoc group_fact_def ingest_def)
  next
    case valid: True
    let ?old = "case map_of ?m (fact_key f) of None \<Rightarrow> [] | Some fs \<Rightarrow> fs"
    have old: "?old = filter (\<lambda>g. valid_evidence_kind (ef_kind g) \<and> fact_key g = fact_key f) facts"
    proof (cases "fact_key f \<in> fst ` set ?t")
      case True
      then show ?thesis using snoc[of "fact_key f"] by simp
    next
      case False
      have "\<not> (valid_evidence_kind (ef_kind g) \<and> fact_key g = fact_key f)" if "g \<in> set facts" for g
      proof
        assume g: "valid_evidence_kind (ef_kind g) \<and> fact_key g = fact_key f"
        have "fact_key g \<in> fst ` set ?t" using that g by (intro reconcile_keys) simp_all
        with False g show False by simp
      qed
      then show ?thesis using False snoc[of "fact_key f"] by (simp add: filter_empty_conv)
    qed
    have "map fst (fold group_fact (facts @ [f]) []) = map fst (reconcile d ix au l (facts @ [f]))"
      using valid by (simp add: reconcile_snoc group_fact_def ingest_def Let_def map_put_same_keys[OF keys])
    moreover have "fst ` set (reconcile d ix au l (facts @ [f])) = insert (fact_key f) (fst ` set ?t)"
    proof -
      have "dom (map_of (reconcile d ix au l (facts @ [f]))) = insert (fact_key f) (dom (map_of ?t))"
        using valid sorted by (simp add: reconcile_snoc ingest_lookup keys)
      then show ?thesis by (simp add: dom_map_of_conv_image_fst)
    qed
    moreover have "map_of (fold group_fact (facts @ [f]) []) k =
        (if k = fact_key f then Some (?old @ [f]) else map_of ?m k)"
      using valid by (simp add: group_fact_def evidence_keys.lookup_put[OF sorted])
    ultimately show ?thesis using snoc[of k] valid by (auto simp: old)
  qed
qed


text \<open>One entry: the group's scan and the resolution agree on whether there is a value and which.\<close>

lemma scan_agrees:
  assumes w: "within_limits d l" and cons: "consistent_facts d (build_indexer d) au l facts k"
    and r: "map_of (reconcile d (build_indexer d) au l facts) k = Some r"
    and fs: "fs = filter (\<lambda>f. valid_evidence_kind (ef_kind f) \<and> fact_key f = k) facts"
  shows "\<not> gs_conflict (scan_group d (build_tables d) au fs)"
    and "gs_usable (scan_group d (build_tables d) au fs) \<longleftrightarrow> sr_state r = SS_RESOLVED"
    and "sr_state r = SS_RESOLVED \<Longrightarrow> gs_value (scan_group d (build_tables d) au fs) = sr_value r"
proof -
  let ?adm = "admissible_fact d (build_indexer d) au l"
  let ?g = "scan_group d (build_tables d) au fs"
  have "consistent_facts d (build_indexer d) au l fs k" using cons by (auto simp: consistent_facts_def fs)
  then have new: "scan_newest ?adm fs ?g" by (intro scan_group_newest[OF w]) (auto simp: fs)
  have mem: "f \<in> set fs \<longleftrightarrow> f \<in> set facts \<and> fact_key f = k" if "?adm f" for f
    using that by (auto simp: fs admissible_fact_def)
  have entry: "newest_entry d (build_indexer d) au l facts k (reconcile d (build_indexer d) au l facts)"
    by (rule reconcile_newest[OF cons])
  have ok: "entry_ok d (build_indexer d) au l facts k r"
    using reconcile_table_ok[of d "build_indexer d" au l facts] r by (cases k) (simp add: table_ok_def)
  show "\<not> gs_conflict ?g" using new by (simp add: scan_newest_def)
  show used: "gs_usable ?g \<longleftrightarrow> sr_state r = SS_RESOLVED"
  proof
    assume "gs_usable ?g"
    then obtain f where "f \<in> set fs" "?adm f" using new by (auto simp: scan_newest_def)
    then show "sr_state r = SS_RESOLVED" using entry r mem by (fastforce simp: newest_entry_def)
  next
    assume "sr_state r = SS_RESOLVED"
    then obtain f where "f \<in> set facts" "fact_key f = k" "?adm f" using ok by (auto simp: entry_ok_def)
    then show "gs_usable ?g" using new mem by (auto simp: scan_newest_def)
  qed
  assume res: "sr_state r = SS_RESOLVED"
  then obtain f where f: "f \<in> set facts" "fact_key f = k" "?adm f" "rests_on f r"
    using ok by (auto simp: entry_ok_def)
  obtain h where h: "h \<in> set fs" "?adm h" "ef_sequence h = gs_sequence ?g" "ef_value h = gs_value ?g"
    using new res used by (auto simp: scan_newest_def)
  have "ef_sequence f \<le> ef_sequence h"
    using new f h mem res used by (auto simp: scan_newest_def)
  moreover have "ef_sequence h \<le> sr_sequence r \<and> (ef_sequence h = sr_sequence r \<longrightarrow> ef_value h = sr_value r)"
    using entry r h mem by (fastforce simp: newest_entry_def)
  ultimately show "gs_value ?g = sr_value r" using f(4) h(4) by (auto simp: rests_on_def)
qed

lemma settle_group_agrees:
  assumes w: "within_limits d l" and cons: "consistent_facts d (build_indexer d) au l facts k"
    and r: "map_of (reconcile d (build_indexer d) au l facts) k = Some r"
    and fs: "fs = filter (\<lambda>f. valid_evidence_kind (ef_kind f) \<and> fact_key f = k) facts"
  shows "settle_group d (build_tables d) au (k, fs) = materialise_entry (build_indexer d) r"
proof -
  have "(sr_kind r, sr_subject r) = k"
    using reconcile_table_ok[of d "build_indexer d" au l facts] r by (cases k) (auto simp: table_ok_def entry_ok_def)
  then have k: "k = (sr_kind r, sr_subject r)" by simp
  have ix: "indexed d" using w by (simp add: within_limits_def)
  show ?thesis
  proof (cases "sr_state r = SS_RESOLVED")
    case True
    with scan_agrees[OF assms] show ?thesis
      unfolding k by (intro ext, cases "sr_kind r")
        (simp_all add: settle_group_def materialise_entry_def table_subject_index[OF ix] Let_def split: option.split)
  next
    case False
    with scan_agrees(1,2)[OF assms] show ?thesis
      unfolding k by (intro ext) (simp add: settle_group_def materialise_entry_def Let_def split: option.split)
  qed
qed

lemma fold_list_all2: "list_all2 (\<lambda>x y. f x = g y) xs ys \<Longrightarrow> fold f xs s = fold g ys s"
  by (induction arbitrary: s rule: list_all2_induct) simp_all

text \<open>Planner and validator start from the same state.\<close>

lemma reconcile_agrees:
  assumes w: "within_limits d l" and cons: "\<And>k. consistent_facts d (build_indexer d) au l facts k"
  shows "validator_reconcile d (build_tables d) au facts =
    materialise_state d (build_indexer d) (reconcile d (build_indexer d) au l facts)"
proof -
  let ?m = "fold group_fact facts []" and ?t = "reconcile d (build_indexer d) au l facts"
  have keys: "map fst ?m = map fst ?t" and val: "\<And>k. map_of ?m k = (if k \<in> fst ` set ?t
      then Some (filter (\<lambda>f. valid_evidence_kind (ef_kind f) \<and> fact_key f = k) facts) else None)"
    using grouped_facts[of facts d "build_indexer d" au l] by blast+
  have dist: "distinct (map fst ?t)"
    using reconcile_table_ok[of d "build_indexer d" au l facts] evidence_keys.ordered_distinct
    by (auto simp: table_ok_def)
  have len: "length ?m = length ?t" using keys map_eq_imp_length_eq by blast
  have "list_all2 (\<lambda>x y. settle_group d (build_tables d) au x = materialise_entry (build_indexer d) (snd y)) ?m ?t"
    unfolding list_all2_conv_all_nth
  proof (intro conjI allI impI)
    fix i assume i: "i < length ?m"
    obtain k fs where m: "?m ! i = (k, fs)" by fastforce
    have ti: "fst (?t ! i) = k" using keys i m len by (metis fst_conv nth_map)
    then obtain r where t: "?t ! i = (k, r)" by (cases "?t ! i") auto
    have 1: "map_of ?m k = Some fs" using dist keys i m by (metis map_of_eq_Some_iff nth_mem)
    have 2: "map_of ?t k = Some r" using dist i t len by (metis map_of_eq_Some_iff nth_mem)
    have "fs = filter (\<lambda>f. valid_evidence_kind (ef_kind f) \<and> fact_key f = k) facts"
      using 1 val[of k] by (simp split: if_splits)
    then show "settle_group d (build_tables d) au (?m ! i) = materialise_entry (build_indexer d) (snd (?t ! i))"
      unfolding m t snd_conv by (rule settle_group_agrees[OF w cons 2])
  qed (rule len)
  then show ?thesis unfolding validator_reconcile_def materialise_state_def by (rule fold_list_all2)
qed

end
