(* ===== verification/NRP_Validate_Step.thy ===== *)
theory NRP_Validate_Step
  imports NRP_Validate_Evidence
begin

text \<open>
  One step of the validator against one step of the planner's transition function: each group of
  checks that adds no finding is the corresponding stage of \<open>apply_action\<close> letting the step pass.
\<close>

section \<open>Two views of a request\<close>

definition view_of :: "plan_request \<Rightarrow> validation" where
  "view_of n = \<lparr>va_request = n, va_tables = build_tables (rq_definition n)\<rparr>"

lemma view_of_simps [simp]: "va_request (view_of n) = n" "va_tables (view_of n) = build_tables (rq_definition n)"
  by (simp_all add: view_of_def)

abbreviation env_default :: "plan_request \<Rightarrow> search_env" where
  "env_default n \<equiv> request_env default_model_limits n"

lemma env_default_simps [simp]:
  "se_definition (env_default n) = rq_definition n"
  "se_indexer (env_default n) = build_indexer (rq_definition n)"
  "se_compiled (env_default n) = build_compiled (rq_definition n) (build_indexer (rq_definition n))"
  "se_policy (env_default n) = rq_policy n"
  by (simp_all add: request_env_def Let_def)

definition sound_definition :: "fabric_definition \<Rightarrow> bool" where
  "sound_definition d \<longleftrightarrow> indexed d \<and> check_definition d default_model_limits = None"

lemma sound_definitionD:
  assumes "sound_definition d"
  shows "indexed d"
    and "length (df_resources d) \<le> 1024" "length (df_actions d) \<le> 512" "length (df_exclusion_groups d) \<le> 512"
    and "a \<in> set (df_actions d) \<Longrightarrow> check_action d default_model_limits a = None"
    and "r \<in> set (df_resources d) \<Longrightarrow> check_resource default_model_limits r = None"
  using assms
  by (auto simp: sound_definition_def check_definition_def check_sizes_def default_model_limits_def)

text \<open>The position of the resource of a use.\<close>

definition use_index :: "fabric_definition \<Rightarrow> resource_use \<Rightarrow> nat" where
  "use_index d u = the (index_of (ru_resource u) (ix_resource_ids (build_indexer d)))"

lemma find_index_in: "find_index P xs \<noteq> None \<longleftrightarrow> (\<exists>x\<in>set xs. P x)"
  by (simp add: find_index_None)

lemma index_of_in: "sorted ids \<Longrightarrow> distinct ids \<Longrightarrow> x \<in> set ids \<Longrightarrow> index_of x ids \<noteq> None"
  by (metis in_set_conv_nth index_of_nth option.distinct(1))

lemma use_indexed:
  assumes "sound_definition d" "a \<in> set (df_actions d)" "u \<in> set (ac_resource_uses a)"
  shows "index_of (ru_resource u) (ix_resource_ids (build_indexer d)) = Some (use_index d u)"
    and "use_index d u < length (df_resources d)"
    and "ru_units u \<le> rs_capacity (df_resources d ! use_index d u)"
proof -
  have ids: "sorted (map rs_id (df_resources d))" "distinct (map rs_id (df_resources d))"
    using sound_definitionD(1)[OF assms(1)] by (simp_all add: indexed_def)
  have "check_use d u = None"
    using sound_definitionD(5)[OF assms(1,2)] assms(3) by (auto simp: check_action_def)
  then obtain r where r: "find_resource d (ru_resource u) = Some r" "ru_units u \<le> rs_capacity r"
    by (auto simp: check_use_def not_less split: option.splits)
  then have mem: "r \<in> set (df_resources d)" "rs_id r = ru_resource u"
    by (auto simp: find_resource_def resource_index_def dest!: find_index_Some)
  then have "ru_resource u \<in> set (map rs_id (df_resources d))" by force
  from index_of_in[OF ids this] obtain k where k: "index_of (ru_resource u) (map rs_id (df_resources d)) = Some k"
    by blast
  then show ix: "index_of (ru_resource u) (ix_resource_ids (build_indexer d)) = Some (use_index d u)"
    by (simp add: use_index_def build_indexer_def)
  from index_of_Some[OF this] show lt: "use_index d u < length (df_resources d)" by (simp add: build_indexer_def)
  have "rs_id (df_resources d ! use_index d u) = rs_id r"
    using index_of_Some[OF ix] mem(2) lt by (simp add: build_indexer_def)
  then have "df_resources d ! use_index d u = r"
    using ids(2) mem(1) lt by (metis distinct_map inj_onD nth_mem)
  with r(2) show "ru_units u \<le> rs_capacity (df_resources d ! use_index d u)" by simp
qed

lemma uses_at_indexed:
  assumes "sound_definition (rq_definition n)" "i < length (df_actions (rq_definition n))"
  shows "uses_at (env_default n) i = map (\<lambda>u. (u, use_index (rq_definition n) u))
    (ac_resource_uses (df_actions (rq_definition n) ! i))"
proof -
  let ?d = "rq_definition n"
  have "cast_index (index_of (ru_resource u) (ix_resource_ids (build_indexer ?d))) = use_index ?d u"
    if "u \<in> set (ac_resource_uses (df_actions ?d ! i))" for u
    using use_indexed(1,2)[OF assms(1) nth_mem[OF assms(2)] that] sound_definitionD(2)[OF assms(1)]
    by (simp add: cast_index_def)
  then have "cp_resource_indices (build_compiled ?d (build_indexer ?d)) ! i =
      map (use_index ?d) (ac_resource_uses (df_actions ?d ! i))"
    using assms(2) by (simp add: build_compiled_def)
  then show ?thesis by (simp add: uses_at_def zip_map2 zip_same_conv_map)
qed

section \<open>Order and exclusion\<close>

lemma dependencies_test:
  assumes sd: "sound_definition (rq_definition n)" and i: "i < length (df_actions (rq_definition n))"
  shows "check_dependencies (env_default n) s i = None \<longleftrightarrow>
    (\<forall>p\<in>set (ac_dependencies (df_actions (rq_definition n) ! i)).
       case index_of (dp_predecessor p) (ix_action_ids (build_indexer (rq_definition n))) of
         None \<Rightarrow> False | Some k \<Rightarrow> \<not> action_occurrences s ! k < dp_min_occurrences p)"
proof -
  let ?d = "rq_definition n" and ?a = "df_actions (rq_definition n) ! i"
  let ?ix = "\<lambda>p. index_of (dp_predecessor p) (ix_action_ids (build_indexer ?d))"
  have deps: "cp_dependency_indices (build_compiled ?d (build_indexer ?d)) ! i =
      map (\<lambda>p. cast_index (?ix p)) (ac_dependencies ?a)"
    using i by (simp add: build_compiled_def)
  have e: "(\<not> length (df_actions ?d) \<le> cast_index (?ix p) \<and> \<not> action_occurrences s ! cast_index (?ix p) < dp_min_occurrences p) \<longleftrightarrow>
      (case ?ix p of None \<Rightarrow> False | Some k \<Rightarrow> \<not> action_occurrences s ! k < dp_min_occurrences p)" for p
    using index_of_Some[of "dp_predecessor p" "ix_action_ids (build_indexer ?d)"] sound_definitionD(3)[OF sd]
    by (auto simp: cast_index_def build_indexer_def split: option.splits)
  have "check_dependencies (env_default n) s i = None \<longleftrightarrow> (\<forall>p\<in>set (ac_dependencies ?a).
      \<not> length (df_actions ?d) \<le> cast_index (?ix p) \<and> \<not> action_occurrences s ! cast_index (?ix p) < dp_min_occurrences p)"
    by (simp add: check_dependencies_def deps list_ex_iff zip_map2 zip_same_conv_map)
  also have "\<dots> \<longleftrightarrow> (\<forall>p\<in>set (ac_dependencies ?a).
      case ?ix p of None \<Rightarrow> False | Some k \<Rightarrow> \<not> action_occurrences s ! k < dp_min_occurrences p)"
    by (rule ball_cong[OF refl e])
  finally show ?thesis .
qed

lemma ordering_passes:
  assumes sd: "sound_definition (rq_definition n)" and i: "i < length (df_actions (rq_definition n))"
    and none: "ordering_findings (view_of n) s pos step i = []"
  shows "check_occurrence (env_default n) s i = None" "check_dependencies (env_default n) s i = None"
    and "ps_occurrence step = action_occurrences s ! i + 1"
proof -
  show "check_occurrence (env_default n) s i = None" "ps_occurrence step = action_occurrences s ! i + 1"
    using none by (auto simp: ordering_findings_def check_occurrence_def Let_def split: if_splits)
  show "check_dependencies (env_default n) s i = None"
    using none unfolding dependencies_test[OF sd i]
    by (auto simp: ordering_findings_def Let_def table_lookup[OF sound_definitionD(1)[OF sd]] split: option.splits if_splits)
qed

lemma find_index_index_of:
  assumes "sorted (map f xs)" "distinct (map f xs)"
  shows "find_index (\<lambda>x. f x = g) xs = index_of g (map f xs)"
proof (cases "g \<in> set (map f xs)")
  case True
  then obtain k where k: "k < length xs" "g = f (xs ! k)" by (auto simp: in_set_conv_nth)
  with find_index_distinct[OF assms(2) k(1)] index_of_nth[OF assms, of k] show ?thesis by simp
next
  case False
  then have "find_index (\<lambda>x. f x = g) xs = None" by auto
  with index_of_None[OF False] show ?thesis by simp
qed

lemma count_positions:
  assumes "sorted ids" "distinct ids" "k < length ids" "distinct gs"
  shows "count_list (List.map_filter (\<lambda>g. index_of g ids) gs) k = (if ids ! k \<in> set gs then 1 else 0)"
  using assms(4)
proof (induction gs)
  case (Cons g gs)
  have "index_of g ids = Some k \<longleftrightarrow> g = ids ! k"
    using index_of_nth[OF assms(1-3)] index_of_Some[of g ids k] by auto
  with Cons show ?case by (auto simp: List.map_filter_simps split: option.splits)
qed (simp add: List.map_filter_simps)

lemma members_selected:
  assumes "\<forall>i\<in>set is. i < 2 ^ 32"
  shows "length (filter P (concat (map (\<lambda>i. replicate (if Q i then 1 else 0) (cast_index (Some i))) is))) =
    length (filter (\<lambda>i. P i \<and> Q i) is)"
  using assms by (induction "is") (auto simp: cast_index_def)

lemma exclusion_test:
  assumes sd: "sound_definition (rq_definition n)" and i: "i < length (df_actions (rq_definition n))"
  shows "check_exclusion (env_default n) s i = None \<longleftrightarrow> (action_occurrences s ! i = 0 \<longrightarrow>
    (\<forall>g\<in>set (ac_exclusion_groups (df_actions (rq_definition n) ! i)). \<forall>k.
       index_of g (map xg_id (df_exclusion_groups (rq_definition n))) = Some k \<longrightarrow>
       \<not> selected_in_group (rq_definition n) s g \<ge> xg_max_selected (df_exclusion_groups (rq_definition n) ! k)))"
proof -
  let ?d = "rq_definition n" and ?gids = "map xg_id (df_exclusion_groups (rq_definition n))"
  let ?a = "df_actions ?d ! i"
  have ids: "sorted ?gids" "distinct ?gids" using sound_definitionD(1)[OF sd] by (simp_all add: indexed_def)
  have pos_eq: "group_positions ?d a = List.map_filter (\<lambda>g. index_of g ?gids) (ac_exclusion_groups a)" for a
    by (simp add: group_positions_def find_index_index_of[OF ids])
  have dist: "distinct (ac_exclusion_groups (df_actions ?d ! c))" if "c < length (df_actions ?d)" for c
    using sound_definitionD(5)[OF sd nth_mem[OF that]] by (simp add: check_action_def)
  have sel: "selected_members (env_default n) s k = selected_in_group ?d s (?gids ! k)" if k: "k < length ?gids" for k
  proof -
    have k': "k < length (df_exclusion_groups ?d)" using k by simp
    have "cp_group_members (build_compiled ?d (build_indexer ?d)) ! k =
        concat (map (\<lambda>c. replicate (if ?gids ! k \<in> set (ac_exclusion_groups (df_actions ?d ! c)) then 1 else 0)
          (cast_index (Some c))) [0..<length (df_actions ?d)])"
      using k' unfolding build_compiled_def pos_eq
      by (simp, intro arg_cong[of _ _ concat] map_cong refl)
        (subst count_positions[OF ids k dist], simp_all)
    then have "length (filter (\<lambda>m. action_occurrences s ! m > 0)
          (cp_group_members (build_compiled ?d (build_indexer ?d)) ! k)) =
        length (filter (\<lambda>c. action_occurrences s ! c > 0 \<and> ?gids ! k \<in> set (ac_exclusion_groups (df_actions ?d ! c)))
          [0..<length (df_actions ?d)])"
      using sound_definitionD(3)[OF sd] by (simp only:) (rule members_selected, auto)
    then show ?thesis by (simp add: selected_members_def selected_in_group_def word_neq_0_conv)
  qed
  have mem: "k \<in> set (group_positions ?d ?a) \<longleftrightarrow> (\<exists>g\<in>set (ac_exclusion_groups ?a). index_of g ?gids = Some k)" for k
    by (auto simp: pos_eq List.map_filter_def image_iff)
  have sel': "selected_members (env_default n) s k = selected_in_group ?d s g" if "index_of g ?gids = Some k" for g k
    using sel[of k] index_of_Some[OF that] by simp
  have "cp_group_indices (build_compiled ?d (build_indexer ?d)) ! i = group_positions ?d ?a"
  proof -
    have "k < 2 ^ 32" if "k \<in> set (group_positions ?d ?a)" for k
      using that sound_definitionD(4)[OF sd] index_of_Some[of _ ?gids k]
      by (fastforce simp: pos_eq List.map_filter_def)
    then have "map (\<lambda>g. cast_index (Some g)) (group_positions ?d ?a) = group_positions ?d ?a"
      by (intro map_idI) (simp add: cast_index_def)
    then show ?thesis using i by (simp add: build_compiled_def)
  qed
  then have "check_exclusion (env_default n) s i = None \<longleftrightarrow> (action_occurrences s ! i = 0 \<longrightarrow>
      (\<forall>k\<in>set (group_positions ?d ?a). \<not> selected_members (env_default n) s k \<ge> xg_max_selected (df_exclusion_groups ?d ! k)))"
    by (simp add: check_exclusion_def list_ex_iff)
  also have "\<dots> \<longleftrightarrow> (action_occurrences s ! i = 0 \<longrightarrow> (\<forall>g\<in>set (ac_exclusion_groups ?a). \<forall>k. index_of g ?gids = Some k \<longrightarrow>
       \<not> selected_in_group ?d s g \<ge> xg_max_selected (df_exclusion_groups ?d ! k)))"
  proof -
    have "(index_of g ?gids = Some k \<longrightarrow> \<not> selected_members (env_default n) s k \<ge> xg_max_selected (df_exclusion_groups ?d ! k)) \<longleftrightarrow>
        (index_of g ?gids = Some k \<longrightarrow> \<not> selected_in_group ?d s g \<ge> xg_max_selected (df_exclusion_groups ?d ! k))" for g k
      using sel'[of g k] by auto
    then show ?thesis using mem by (metis (lifting))
  qed
  finally show ?thesis .
qed

lemma exclusion_passes:
  assumes sd: "sound_definition (rq_definition n)" and i: "i < length (df_actions (rq_definition n))"
    and none: "exclusion_findings (view_of n) s pos i = []"
  shows "check_exclusion (env_default n) s i = None"
  unfolding exclusion_test[OF sd i]
  using none by (auto simp: exclusion_findings_def Let_def table_lookup(6)[OF sound_definitionD(1)[OF sd]]
      split: option.splits if_splits)

section \<open>Preconditions, uses and effects\<close>

lemma precondition_ok_eq:
  "indexed d \<Longrightarrow> precondition_ok (build_tables d) s p = precondition_holds (build_indexer d) s p"
  by (simp add: precondition_ok_def precondition_holds_def table_subject_index)

lemma preconditions_pass:
  assumes "sound_definition (rq_definition n)"
    and "concat (map (precondition_findings (view_of n) s pos) ps) = []"
  shows "\<exists>bs. scan_preconditions (env_default n) s ps [] = Inr bs"
proof -
  have "precondition_holds (build_indexer (rq_definition n)) s p = (True, True)" if "p \<in> set ps" for p
  proof -
    have none: "precondition_findings (view_of n) s pos p = []" using assms(2) that by simp
    obtain h k where "precondition_holds (build_indexer (rq_definition n)) s p = (h, k)" by fastforce
    with none show ?thesis
      by (simp add: precondition_findings_def precondition_ok_eq[OF sound_definitionD(1)[OF assms(1)]]
          split: if_splits)
  qed
  then show ?thesis by (simp add: scan_preconditions_Inr)
qed

text \<open>Findings only grow.\<close>

lemma validate_effect_extends: "\<exists>more. fst (validate_effect v pos fx (found, s)) = found @ more"
  by (simp add: validate_effect_def Let_def split: option.split effect_kind.split)

lemma validate_effects_extend: "\<exists>more. fst (fold (validate_effect v pos) fxs (found, s)) = found @ more"
proof (induction fxs arbitrary: found s)
  case (Cons fx fxs)
  obtain f1 s1 where 1: "validate_effect v pos fx (found, s) = (f1, s1)" by fastforce
  from validate_effect_extends[of v pos fx found s] 1 Cons[of f1 s1] show ?case by auto
qed simp

lemma effect_passes:
  assumes "indexed (rq_definition n)" "validate_effect (view_of n) pos fx (found, s) = (found, s')"
  shows "apply_effect (env_default n) fx s = Inr s'"
  using assms(2)
  by (auto simp: validate_effect_def apply_effect_def table_subject_index[OF assms(1)] Let_def
      split: option.splits effect_kind.splits if_splits)

lemma effects_pass:
  assumes "indexed (rq_definition n)"
  shows "fold (validate_effect (view_of n) pos) fxs (found, s) = (found, s') \<Longrightarrow>
    apply_effects (env_default n) fxs s = Inr s'"
proof (induction fxs arbitrary: s)
  case (Cons fx fxs)
  obtain f1 s1 where 1: "validate_effect (view_of n) pos fx (found, s) = (f1, s1)" by fastforce
  obtain m1 where m1: "f1 = found @ m1" using validate_effect_extends[of "view_of n" pos fx found s] 1 by auto
  obtain m2 where "fst (fold (validate_effect (view_of n) pos) fxs (f1, s1)) = f1 @ m2"
    using validate_effects_extend by blast
  with Cons.prems 1 m1 have "f1 = found" by auto
  with 1 Cons effect_passes[OF assms, of pos fx found s s1] show ?case by auto
qed simp

lemma apply_effect_known:
  "apply_effect e fx s = Inr s' \<Longrightarrow> resource_known s ! k \<noteq> 0 \<Longrightarrow> k < length (resource_known s) \<Longrightarrow>
   resource_known s' ! k \<noteq> 0 \<and> k < length (resource_known s')"
  by (auto simp: apply_effect_def Let_def nth_list_update_if split: option.splits effect_kind.splits if_splits)

lemma apply_effects_known:
  "apply_effects e fxs s = Inr s' \<Longrightarrow> resource_known s ! k \<noteq> 0 \<Longrightarrow> k < length (resource_known s) \<Longrightarrow>
   resource_known s' ! k \<noteq> 0"
proof (induction fxs arbitrary: s)
  case (Cons fx fxs)
  then show ?case using apply_effect_known[of e fx s _ k] by (auto split: sum.splits)
qed simp

end
