(* ===== verification/NRP_Validate_Holds.thy ===== *)
theory NRP_Validate_Holds
  imports NRP_Validate_Step
begin

text \<open>
  The validator keeps, per resource, the positions and units of every step that ever took it; the
  planner keeps the steps each hold still has to run. The two are one history seen at a position:
  decaying the holds is reading the same history one position later.
\<close>

section \<open>A history read at a position\<close>

definition hold_at :: "fabric_definition \<Rightarrow> u32 \<Rightarrow> nat \<Rightarrow> u32 \<times> u32 \<Rightarrow> resource_hold list" where
  "hold_at d pos ri h = (if pos - fst h < rs_hold_steps (df_resources d ! ri)
     then [\<lparr>hd_resource_index = of_nat ri, hd_units = snd h,
            hd_remaining_steps = rs_hold_steps (df_resources d ! ri) - (pos - fst h)\<rparr>] else [])"

definition history_holds :: "fabric_definition \<Rightarrow> u32 \<Rightarrow> hold_history \<Rightarrow> resource_hold list" where
  "history_holds d pos hist =
     concat (map (\<lambda>ri. concat (map (hold_at d pos ri) (hist ! ri))) [0..<length hist])"

text \<open>Every recorded step lies before the current position.\<close>

definition history_ok :: "fabric_definition \<Rightarrow> u32 \<Rightarrow> hold_history \<Rightarrow> bool" where
  "history_ok d pos hist \<longleftrightarrow> length hist = length (df_resources d) \<and> (\<forall>hs\<in>set hist. \<forall>h\<in>set hs. fst h < pos)"

lemma word_sub_Suc:
  fixes p q :: u32
  assumes "p \<le> q" "unat q + 1 < 2 ^ 32"
  shows "unat (q + 1 - p) = unat (q - p) + 1"
proof -
  have 1: "unat (q + 1) = unat q + 1" using assms(2) by (subst unat_add_no_wrap) simp_all
  moreover have "p \<le> q + 1" using assms(1) 1 by (simp add: word_le_nat_alt)
  ultimately show ?thesis using assms(1) by (simp add: unat_sub word_le_nat_alt)
qed

lemma decay_hold_at:
  assumes p: "fst h \<le> pos" and small: "unat pos + 1 < 2 ^ 32"
  shows "decay_holds (hold_at d pos ri h) = hold_at d (pos + 1) ri h"
proof -
  let ?s = "rs_hold_steps (df_resources d ! ri)" and ?k = "pos - fst h"
  have k: "unat (pos + 1 - fst h) = unat ?k + 1" by (rule word_sub_Suc[OF assms])
  show ?thesis
  proof (cases "pos + 1 - fst h < ?s")
    case True
    then have lt: "?k < ?s" using k by (simp add: word_less_nat_alt)
    have "1 < ?s - ?k" using True k lt by (simp add: word_less_nat_alt unat_sub word_le_nat_alt)
    moreover have "?s - ?k - 1 = ?s - (pos + 1 - fst h)" by simp
    ultimately show ?thesis using True lt by (simp add: hold_at_def decay_holds_def)
  next
    case False
    then have "\<not> (1 < ?s - ?k)" if "?k < ?s"
      using that k by (simp add: word_less_nat_alt unat_sub word_le_nat_alt)
    with False show ?thesis by (simp add: hold_at_def decay_holds_def)
  qed
qed

lemma decay_concat: "decay_holds (concat hss) = concat (map decay_holds hss)"
  by (induction hss) (simp_all add: decay_holds_def)

lemma decay_mset: "mset xs = mset ys \<Longrightarrow> mset (decay_holds xs) = mset (decay_holds ys)"
  by (simp add: decay_holds_def)

lemma decay_history:
  assumes ok: "history_ok d pos hist" and small: "unat pos + 1 < 2 ^ 32"
  shows "decay_holds (history_holds d pos hist) = history_holds d (pos + 1) hist"
proof -
  have "decay_holds (hold_at d pos ri h) = hold_at d (pos + 1) ri h"
    if "ri < length hist" "h \<in> set (hist ! ri)" for ri h
  proof -
    have "fst h < pos" using ok nth_mem[OF that(1)] that(2) by (auto simp: history_ok_def)
    then show ?thesis by (intro decay_hold_at[OF _ small]) simp
  qed
  then have "concat (map (decay_holds \<circ> hold_at d pos ri) (hist ! ri)) = concat (map (hold_at d (pos + 1) ri) (hist ! ri))"
    if "ri < length hist" for ri using that by (metis (no_types, lifting) comp_apply map_cong)
  then have "map (\<lambda>ri. decay_holds (concat (map (hold_at d pos ri) (hist ! ri)))) [0..<length hist] =
      map (\<lambda>ri. concat (map (hold_at d (pos + 1) ri) (hist ! ri))) [0..<length hist]"
    by (intro map_cong) (simp_all add: decay_concat)
  then show ?thesis by (simp only: history_holds_def decay_concat map_map comp_def)
qed

lemma history_append:
  assumes "ri < length hist"
  shows "mset (history_holds d pos (hist[ri := hist ! ri @ [h]])) = mset (history_holds d pos hist) + mset (hold_at d pos ri h)"
proof -
  let ?f = "\<lambda>hist k. mset (concat (map (hold_at d pos k) (hist ! k)))"
  have sums: "mset (history_holds d pos hist) = (\<Sum>k<length hist. ?f hist k)" for hist
    by (simp add: history_holds_def mset_concat sum_list_sum_nth comp_def atLeast0LessThan)
  have "(\<Sum>k<length hist. ?f (hist[ri := hist ! ri @ [h]]) k) =
      ?f (hist[ri := hist ! ri @ [h]]) ri + (\<Sum>k\<in>{..<length hist} - {ri}. ?f (hist[ri := hist ! ri @ [h]]) k)"
    using assms by (simp add: sum.remove)
  also have "(\<Sum>k\<in>{..<length hist} - {ri}. ?f (hist[ri := hist ! ri @ [h]]) k) = (\<Sum>k\<in>{..<length hist} - {ri}. ?f hist k)"
    by (rule sum.cong) auto
  also have "?f (hist[ri := hist ! ri @ [h]]) ri + (\<Sum>k\<in>{..<length hist} - {ri}. ?f hist k) =
      (\<Sum>k<length hist. ?f hist k) + mset (hold_at d pos ri h)"
    using assms by (simp add: sum.remove[of "{..<length hist}" ri])
  finally show ?thesis by (simp add: sums)
qed

section \<open>Held units\<close>

definition overlap_nat :: "fabric_definition \<Rightarrow> u32 \<Rightarrow> nat \<Rightarrow> (u32 \<times> u32) list \<Rightarrow> nat" where
  "overlap_nat d pos ri hs = sum_list (map (\<lambda>h. if pos - fst h < rs_hold_steps (df_resources d ! ri)
     then unat (snd h) else 0) hs)"

lemma held_hold_at: "k < 2 ^ 32 \<Longrightarrow> held_nat (concat (map (hold_at d pos k) hs)) ri =
    (if k = ri then overlap_nat d pos ri hs else 0)"
  by (induction hs) (auto simp: overlap_nat_def hold_at_def unat_of_nat)

lemma held_concat: "held_nat (concat hss) ri = sum_list (map (\<lambda>hs. held_nat hs ri) hss)"
  by (induction hss) simp_all

lemma held_history:
  assumes "ri < length hist" "length hist \<le> 2 ^ 32"
  shows "held_nat (history_holds d pos hist) ri = overlap_nat d pos ri (hist ! ri)"
proof -
  have "held_nat (history_holds d pos hist) ri =
      (\<Sum>k<length hist. held_nat (concat (map (hold_at d pos k) (hist ! k))) ri)"
    by (simp add: history_holds_def held_concat sum_list_sum_nth comp_def atLeast0LessThan)
  also have "\<dots> = (\<Sum>k<length hist. if k = ri then overlap_nat d pos ri (hist ! k) else 0)"
    by (rule sum.cong) (use assms(2) held_hold_at in auto)
  also have "\<dots> = overlap_nat d pos ri (hist ! ri)" using assms(1) by (simp add: sum.delta)
  finally show ?thesis .
qed

lemma overlapping_of_nat:
  assumes "\<forall>h\<in>set hs. fst h < pos"
  shows "overlapping_units (df_resources d ! ri) pos hs units = units + of_nat (overlap_nat d pos ri hs)"
  unfolding overlapping_units_def
  using assms by (induction hs arbitrary: units) (auto simp: overlap_nat_def add.assoc)

text \<open>With capacities below half the range of the counter the validator's 32-bit sum is the number
  of units, so its test is the planner's.\<close>

lemma reusable_test:
  assumes hist: "history_ok d pos hist" "mset holds = mset (history_holds d pos hist)"
    and cap: "holds_within_capacity d holds" "rs_capacity (df_resources d ! ri) < 2 ^ 31"
    and ri: "ri < length (df_resources d)" "length (df_resources d) \<le> 2 ^ 32"
    and units: "units \<le> rs_capacity (df_resources d ! ri)"
  shows "overlapping_units (df_resources d ! ri) pos (hist ! ri) units > rs_capacity (df_resources d ! ri) \<longleftrightarrow>
    held_units holds ri + ucast units > ucast (rs_capacity (df_resources d ! ri))"
proof -
  let ?cap = "rs_capacity (df_resources d ! ri)" and ?o = "overlap_nat d pos ri (hist ! ri)"
  have held: "held_nat holds ri = ?o"
    using held_nat_mset[OF hist(2)] held_history[of ri hist d pos] hist(1) ri by (simp add: history_ok_def)
  have fits: "held_nat holds ri \<le> unat ?cap" using cap(1) ri(1) by (simp add: holds_within_capacity_def)
  have "\<forall>h\<in>set (hist ! ri). fst h < pos" using hist(1) ri(1) by (auto simp: history_ok_def)
  then have "overlapping_units (df_resources d ! ri) pos (hist ! ri) units = units + of_nat ?o"
    by (rule overlapping_of_nat)
  moreover have "unat ?cap < 2 ^ 31" using cap(2) by (simp add: word_less_nat_alt)
  moreover from this have "unat (of_nat ?o :: u32) = ?o" using fits held by (simp add: unat_of_nat)
  moreover have "unat units \<le> unat ?cap" using units by (simp add: word_le_nat_alt)
  ultimately have "unat (overlapping_units (df_resources d ! ri) pos (hist ! ri) units) = unat units + ?o"
    using fits held by (simp add: unat_add_no_wrap)
  then have "overlapping_units (df_resources d ! ri) pos (hist ! ri) units > ?cap \<longleftrightarrow> held_nat holds ri + unat units > unat ?cap"
    by (simp add: word_less_nat_alt held add.commute)
  then show ?thesis by (simp add: capacity_test_exact[OF fits])
qed

lemma reusable_passes:
  assumes "history_ok d pos hist" "mset holds = mset (history_holds d pos hist)"
    and "holds_within_capacity d holds" "rs_capacity (df_resources d ! ri) < 2 ^ 31"
    and "ri < length (df_resources d)" "length (df_resources d) \<le> 2 ^ 32"
    and "units \<le> rs_capacity (df_resources d ! ri)"
    and "\<not> overlapping_units (df_resources d ! ri) pos (hist ! ri) units > rs_capacity (df_resources d ! ri)"
  shows "\<not> held_units holds ri + ucast units > ucast (rs_capacity (df_resources d ! ri))"
  using reusable_test[OF assms(1-7)] assms(8) by simp

end
