(* ===== verification/NRP_Validate_Sound.thy ===== *)
theory NRP_Validate_Sound
  imports NRP_Validate_Holds
begin

text \<open>
  A plan the validator accepts is a plan of the planner's transition system: every step it lets pass
  is admissible there, leads to the same state and costs the same, and the goals hold at the end.
\<close>

section \<open>Consumption and holds of a step\<close>

lemma settle_use_extends: "\<exists>more. fst (settle_use v pos u (found, s, hist)) = found @ more"
  by (simp add: settle_use_def Let_def split: option.split)

lemma settle_uses_extend: "\<exists>more. fst (fold (settle_use v pos) us (found, s, hist)) = found @ more"
proof (induction us arbitrary: found s hist)
  case (Cons u us)
  obtain f1 s1 h1 where 1: "settle_use v pos u (found, s, hist) = (f1, s1, h1)" by (metis prod_cases3)
  from settle_use_extends[of v pos u found s hist] 1 Cons[of f1 s1 h1] show ?case by auto
qed simp

definition use_pairs :: "fabric_definition \<Rightarrow> resource_use list \<Rightarrow> (resource_use \<times> nat) list" where
  "use_pairs d us = map (\<lambda>u. (u, use_index d u)) us"

definition taken_holds :: "fabric_definition \<Rightarrow> resource_use list \<Rightarrow> resource_hold list" where
  "taken_holds d us = map (hold_of (\<lambda>ri. rs_hold_steps (df_resources d ! ri) - 1))
     (filter (\<lambda>(use, ri). rs_kind (df_resources d ! ri) = RK_REUSABLE \<and>
        rs_hold_steps (df_resources d ! ri) > 1) (use_pairs d us))"

lemma new_holds_taken:
  assumes "sound_definition (rq_definition n)" "i < length (df_actions (rq_definition n))"
  shows "new_holds (env_default n) i = taken_holds (rq_definition n) (ac_resource_uses (df_actions (rq_definition n) ! i))"
  by (simp add: new_holds_def taken_holds_def use_pairs_def uses_at_indexed[OF assms])

lemma settle_uses_pass:
  fixes n pos
  defines "d \<equiv> rq_definition n"
  assumes sd: "sound_definition d" and a: "a \<in> set (df_actions d)"
  shows "set us \<subseteq> set (ac_resource_uses a) \<Longrightarrow>
    (\<forall>u\<in>set us. rs_kind (df_resources d ! use_index d u) = RK_CONSUMABLE \<longrightarrow> resource_known s ! use_index d u \<noteq> 0) \<Longrightarrow>
    history_ok d (pos + 1) hist \<Longrightarrow> pos < pos + 1 \<Longrightarrow>
    fold (settle_use (view_of n) pos) us (found, s, hist) = (found, s', hist') \<Longrightarrow>
    s' = fold (consume (env_default n)) (use_pairs d us) s \<and> history_ok d (pos + 1) hist' \<and>
    mset (history_holds d (pos + 1) hist') = mset (history_holds d (pos + 1) hist) + mset (taken_holds d us)"
proof (induction us arbitrary: s hist)
  case Nil
  then show ?case by (simp add: use_pairs_def taken_holds_def)
next
  case (Cons u us)
  let ?ri = "use_index d u" and ?r = "df_resources d ! use_index d u"
  have u: "u \<in> set (ac_resource_uses a)" using Cons.prems(1) by simp
  note ix = use_indexed[OF sd a u]
  have look: "map_of (tb_resources (build_tables d)) (ru_resource u) = Some ?ri"
    using ix(1) by (simp add: table_lookup(4)[OF sound_definitionD(1)[OF sd]])
  have len: "length hist = length (df_resources d)" using Cons.prems(3) by (simp add: history_ok_def)
  obtain f1 s1 h1 where 1: "settle_use (view_of n) pos u (found, s, hist) = (f1, s1, h1)" by (metis prod_cases3)
  obtain m1 where m1: "f1 = found @ m1" using settle_use_extends[of "view_of n" pos u found s hist] 1 by auto
  obtain m2 where "fst (fold (settle_use (view_of n) pos) us (f1, s1, h1)) = f1 @ m2"
    using settle_uses_extend by blast
  with Cons.prems(5) 1 m1 have f1: "f1 = found" by auto
  have s1: "s1 = consume (env_default n) (u, ?ri) s"
    using 1 f1 Cons.prems(2) look
    by (auto simp: settle_use_def consume_def Let_def d_def split: if_splits)
  have h1: "h1 = (if rs_kind ?r = RK_REUSABLE then hist[?ri := hist ! ?ri @ [(pos, ru_units u)]] else hist)"
    using 1 look by (auto simp: settle_use_def Let_def d_def split: if_splits)
  have ok1: "history_ok d (pos + 1) h1"
    using Cons.prems(3,4) len ix(2) set_update_subset_insert[of hist ?ri "hist ! ?ri @ [(pos, ru_units u)]"]
    unfolding h1 by (fastforce simp: history_ok_def)
  have "resource_known s1 = resource_known s" by (simp add: s1 consume_def)
  with Cons.prems(2) have known: "\<forall>w\<in>set us. rs_kind (df_resources d ! use_index d w) = RK_CONSUMABLE \<longrightarrow>
      resource_known s1 ! use_index d w \<noteq> 0" by simp
  have rest: "fold (settle_use (view_of n) pos) us (found, s1, h1) = (found, s', hist')"
    using Cons.prems(5) 1 f1 by simp
  have sub: "set us \<subseteq> set (ac_resource_uses a)" using Cons.prems(1) by simp
  note IH = Cons.IH[OF sub known ok1 Cons.prems(4) rest]
  have "mset (history_holds d (pos + 1) h1) = mset (history_holds d (pos + 1) hist) + mset (taken_holds d [u])"
    using history_append[of ?ri hist d "pos + 1" "(pos, ru_units u)"] len ix(2)
    by (simp add: h1 taken_holds_def use_pairs_def hold_at_def)
  moreover have "taken_holds d (u # us) = taken_holds d [u] @ taken_holds d us"
    by (simp add: taken_holds_def use_pairs_def)
  ultimately show ?case using IH s1 by (simp add: use_pairs_def)
qed

section \<open>A step without findings\<close>

text \<open>The findings of a step are those before it, those of its checks, of its effects and of its uses.\<close>

lemma validate_step_parts:
  assumes i: "map_of (tb_actions (va_tables v)) (ps_action step) = Some i"
  obtains idx m1 m2 s1 s2 hist f1 where
    "idx = [] \<longleftrightarrow> ps_index step = vx_position x" "f1 = (vx_findings x @ idx) @ step_findings v x step i"
    "fold (validate_effect v (vx_position x)) (ac_effects (df_actions (rq_definition (va_request v)) ! i))
       (f1, vx_state x) = (f1 @ m1, s1)"
    "fold (settle_use v (vx_position x)) (ac_resource_uses (df_actions (rq_definition (va_request v)) ! i))
       (f1 @ m1, s1, vx_history x) = ((f1 @ m1) @ m2, s2, hist)"
    "validate_step v step x =
      \<lparr>vx_state = s2\<lparr>fs_tick := add_capped (fs_tick s2) (ac_duration_ticks (df_actions (rq_definition (va_request v)) ! i)),
          action_occurrences := (action_occurrences s2)[i := action_occurrences s2 ! i + 1]\<rparr>,
       vx_objective = account (df_actions (rq_definition (va_request v)) ! i) (vx_floor x)
          (shortfall (rq_definition (va_request v)) s2 False) (vx_completeness x)
          (shortfall (rq_definition (va_request v)) s2 True) (vx_objective x),
       vx_completeness = shortfall (rq_definition (va_request v)) s2 True,
       vx_floor = shortfall (rq_definition (va_request v)) s2 False, vx_history = hist,
       vx_position = vx_position x + 1,
       vx_findings = ((f1 @ m1) @ m2) @ (if shortfall (rq_definition (va_request v)) s2 False > vx_floor x
           then [add_finding RC_VALIDATION_SAFETY_VIOLATION (vx_position x) no_subject
                   ''step increases the shortfall of a service below its required floor''] else [])\<rparr>"
proof -
  let ?a = "df_actions (rq_definition (va_request v)) ! i" and ?pos = "vx_position x"
  define idx where "idx = (if ps_index step \<noteq> ?pos
            then [add_finding RC_VALIDATION_ORDERING_VIOLATION ?pos no_subject
                    ''step index does not match its position in the plan''] else [])"
  define f1 where "f1 = (vx_findings x @ idx) @ step_findings v x step i"
  obtain m1 s1 where e: "fold (validate_effect v ?pos) (ac_effects ?a) (f1, vx_state x) = (f1 @ m1, s1)"
    using validate_effects_extend[of v ?pos "ac_effects ?a" f1 "vx_state x"]
    by (cases "fold (validate_effect v ?pos) (ac_effects ?a) (f1, vx_state x)") auto
  obtain m2 s2 hist where u: "fold (settle_use v ?pos) (ac_resource_uses ?a) (f1 @ m1, s1, vx_history x) =
      ((f1 @ m1) @ m2, s2, hist)"
    using settle_uses_extend[of v ?pos "ac_resource_uses ?a" "f1 @ m1" s1 "vx_history x"]
    by (cases "fold (settle_use v ?pos) (ac_resource_uses ?a) (f1 @ m1, s1, vx_history x)") auto
  note e' = e[unfolded f1_def idx_def] and u' = u[unfolded f1_def idx_def]
  show thesis
    by (rule that[OF _ f1_def e u]) (simp_all only: validate_step_def Let_def i option.case e' u' prod.case f1_def idx_def, simp)
qed

lemma validate_step_clean:
  assumes clean: "vx_findings (validate_step v step x) = vx_findings x"
  obtains i s1 s2 hist where
    "map_of (tb_actions (va_tables v)) (ps_action step) = Some i" "ps_index step = vx_position x"
    "step_findings v x step i = []"
    "fold (validate_effect v (vx_position x)) (ac_effects (df_actions (rq_definition (va_request v)) ! i))
       (vx_findings x, vx_state x) = (vx_findings x, s1)"
    "fold (settle_use v (vx_position x)) (ac_resource_uses (df_actions (rq_definition (va_request v)) ! i))
       (vx_findings x, s1, vx_history x) = (vx_findings x, s2, hist)"
    "shortfall (rq_definition (va_request v)) s2 False \<le> vx_floor x"
    "validate_step v step x =
      \<lparr>vx_state = s2\<lparr>fs_tick := add_capped (fs_tick s2) (ac_duration_ticks (df_actions (rq_definition (va_request v)) ! i)),
          action_occurrences := (action_occurrences s2)[i := action_occurrences s2 ! i + 1]\<rparr>,
       vx_objective = account (df_actions (rq_definition (va_request v)) ! i) (vx_floor x)
          (shortfall (rq_definition (va_request v)) s2 False) (vx_completeness x)
          (shortfall (rq_definition (va_request v)) s2 True) (vx_objective x),
       vx_completeness = shortfall (rq_definition (va_request v)) s2 True,
       vx_floor = shortfall (rq_definition (va_request v)) s2 False, vx_history = hist,
       vx_position = vx_position x + 1, vx_findings = vx_findings x\<rparr>"
proof -
  obtain i where i: "map_of (tb_actions (va_tables v)) (ps_action step) = Some i"
    using clean by (cases "map_of (tb_actions (va_tables v)) (ps_action step)")
      (auto simp: validate_step_def Let_def)
  show thesis
  proof (rule validate_step_parts[OF i, of x])
    fix idx m1 m2 s1 s2 hist f1
    let ?d = "rq_definition (va_request v)" and ?pos = "vx_position x"
    let ?x = "validate_step v step x"
    assume idx: "(idx = []) = (ps_index step = ?pos)" and f1: "f1 = (vx_findings x @ idx) @ step_findings v x step i"
      and e: "fold (validate_effect v ?pos) (ac_effects (df_actions ?d ! i)) (f1, vx_state x) = (f1 @ m1, s1)"
      and u: "fold (settle_use v ?pos) (ac_resource_uses (df_actions ?d ! i)) (f1 @ m1, s1, vx_history x) =
        ((f1 @ m1) @ m2, s2, hist)"
      and st: "?x = \<lparr>vx_state = s2\<lparr>fs_tick := add_capped (fs_tick s2) (ac_duration_ticks (df_actions ?d ! i)),
          action_occurrences := (action_occurrences s2)[i := action_occurrences s2 ! i + 1]\<rparr>,
       vx_objective = account (df_actions ?d ! i) (vx_floor x)
          (shortfall ?d s2 False) (vx_completeness x) (shortfall ?d s2 True) (vx_objective x),
       vx_completeness = shortfall ?d s2 True, vx_floor = shortfall ?d s2 False, vx_history = hist,
       vx_position = ?pos + 1,
       vx_findings = ((f1 @ m1) @ m2) @ (if shortfall ?d s2 False > vx_floor x
           then [add_finding RC_VALIDATION_SAFETY_VIOLATION ?pos no_subject
                   ''step increases the shortfall of a service below its required floor''] else [])\<rparr>"
    have fs: "vx_findings ?x = ((f1 @ m1) @ m2) @ (if shortfall ?d s2 False > vx_floor x
           then [add_finding RC_VALIDATION_SAFETY_VIOLATION ?pos no_subject
                   ''step increases the shortfall of a service below its required floor''] else [])"
      by (simp only: st validator_run.simps)
    have none: "idx = []" "step_findings v x step i = []" "m1 = []" "m2 = []" "\<not> shortfall ?d s2 False > vx_floor x"
      using clean unfolding fs f1 by (auto split: if_splits)
    then have f1': "f1 = vx_findings x" by (simp add: f1)
    show thesis
      by (rule that[OF i]) (use none f1' idx e u st in auto)
  qed
qed

lemma shortfall_eq: "shortfall d s False = floor_gap d s" "shortfall d s True = incompleteness d s"
  by (simp_all add: shortfall_def floor_gap_def incompleteness_def Let_def)

lemma incompleteness_frame:
  "service_known s = service_known t \<Longrightarrow> service_reachable s = service_reachable t \<Longrightarrow>
   incompleteness d s = incompleteness d t"
  unfolding incompleteness_def by (simp only:)

lemma gaps_frame [simp]:
  "floor_gap d (s\<lparr>action_occurrences := occ, fs_tick := k\<rparr>) = floor_gap d s"
  "incompleteness d (s\<lparr>action_occurrences := occ, fs_tick := k\<rparr>) = incompleteness d s"
  by (rule floor_gap_frame, simp, simp) (rule incompleteness_frame, simp, simp)

text \<open>The validator's accounting is the planner's sum, where the sum does not overflow.\<close>

lemma add_capped_eq: "unat c = unat a + unat b \<Longrightarrow> add_capped a b = c"
  by (simp add: add_capped_def flip: add_overflow_Some_iff)

lemma account_adds:
  assumes "objective_add obj (step_delta a before now) = Some acc" "floor' \<le> floor"
  shows "account a floor floor' before now obj = acc"
proof -
  have sums: "unat (component acc ! i) = unat (component obj ! i) + unat (component (step_delta a before now) ! i)"
    if "i < 8" for i using assms(1) that by (simp add: objective_add_Some)
  have plus: "unat (u + w) = unat u + unat w" if "unat c = unat u + unat w" for c u w :: u64
    using that unsigned_less[of c, where ?'a = nat] by (simp add: unat_add_no_wrap)
  show ?thesis
    using sums[of 0] sums[of 1] sums[of 2] sums[of 3] sums[of 4] sums[of 5] sums[of 6] sums[of 7] assms(2)
    by (cases acc; cases obj)
      (auto simp: account_def step_delta_def component_def add_capped_eq not_less word_unat_eq_iff
        intro: plus split: if_splits)
qed

section \<open>The step simulates\<close>

text \<open>The definitions on which the two accounts of resources agree: no capacity reaches half the range
  of the validator's 32-bit sum, and no action lists a resource twice.\<close>

definition plain_resources :: "fabric_definition \<Rightarrow> bool" where
  "plain_resources d \<longleftrightarrow> list_all (\<lambda>r. rs_capacity r < 2 ^ 31) (df_resources d) \<and>
     list_all (\<lambda>a. distinct (map ru_resource (ac_resource_uses a))) (df_actions d)"

definition accountable :: "plan_request \<Rightarrow> bool" where
  "accountable n \<longleftrightarrow> sound_definition (rq_definition n) \<and> plain_resources (rq_definition n)"

lemma accountableD:
  assumes "accountable n"
  shows "sound_definition (rq_definition n)"
    "r \<in> set (df_resources (rq_definition n)) \<Longrightarrow> rs_capacity r < 2 ^ 31"
    "a \<in> set (df_actions (rq_definition n)) \<Longrightarrow> distinct (map ru_resource (ac_resource_uses a))"
  using assms by (simp_all add: accountable_def plain_resources_def list_all_iff)

text \<open>The validator's variables describe the planner's configuration.\<close>

definition in_step :: "plan_request \<Rightarrow> validator_run \<Rightarrow> config \<Rightarrow> bool" where
  "in_step n x c \<longleftrightarrow> vx_state x = fst c \<and> vx_floor x = floor_gap (rq_definition n) (fst c) \<and>
     vx_completeness x = incompleteness (rq_definition n) (fst c) \<and>
     history_ok (rq_definition n) (vx_position x) (vx_history x) \<and>
     mset (snd c) = mset (history_holds (rq_definition n) (vx_position x) (vx_history x)) \<and>
     holds_within_capacity (rq_definition n) (snd c) \<and> config_wf (env_default n) c \<and>
     unat (vx_position x) = config_depth (env_default n) c"

lemma sound_total: "sound_definition d \<Longrightarrow> occurrence_total d \<le> 8192"
proof -
  assume sd: "sound_definition d"
  have "occurrence_total d \<le> length (df_actions d) * 16"
    unfolding occurrence_total_def
  proof (rule sum_list_le_const, rule ballI)
    fix a assume "a \<in> set (df_actions d)"
    from sound_definitionD(5)[OF sd this] show "unat (ac_max_occurrences a) \<le> 16"
      by (simp add: check_action_def default_model_limits_def word_less_nat_alt)
  qed
  with sound_definitionD(3)[OF sd] show ?thesis by simp
qed

lemma position_small:
  assumes "accountable n" "in_step n x c"
  shows "unat (vx_position x) + 1 < 2 ^ 32" "unat (vx_position x + 1) = unat (vx_position x) + 1"
    "vx_position x < vx_position x + 1"
proof -
  have "config_depth (env_default n) c \<le> occurrence_total (rq_definition n)"
    using config_depth_le[of "env_default n" c] assms(2) by (simp add: in_step_def)
  also have "\<dots> \<le> 8192" using sound_total assms(1) by (simp add: accountable_def)
  finally show 1: "unat (vx_position x) + 1 < 2 ^ 32" using assms(2) by (simp add: in_step_def)
  then show 2: "unat (vx_position x + 1) = unat (vx_position x) + 1" by (subst unat_add_no_wrap) simp_all
  then show "vx_position x < vx_position x + 1" by (simp add: word_less_nat_alt)
qed

lemma use_passes:
  assumes acc: "accountable n" and rel: "in_step n x c" and a: "a \<in> set (df_actions (rq_definition n))"
    and u: "u \<in> set (ac_resource_uses a)"
    and none: "use_findings (view_of n) (vx_state x) (vx_history x) (vx_position x) u = []"
  shows "check_resource_use (env_default n) (fst c) (snd c) (u, use_index (rq_definition n) u) = None"
    and "rs_kind (df_resources (rq_definition n) ! use_index (rq_definition n) u) = RK_CONSUMABLE \<longrightarrow>
      resource_known (fst c) ! use_index (rq_definition n) u \<noteq> 0"
proof -
  let ?d = "rq_definition n" and ?ri = "use_index (rq_definition n) u"
  have sd: "sound_definition ?d" using acc by (simp add: accountable_def)
  note ix = use_indexed[OF sd a u]
  have look: "map_of (tb_resources (build_tables ?d)) (ru_resource u) = Some ?ri"
    using ix(1) by (simp add: table_lookup(4)[OF sound_definitionD(1)[OF sd]])
  have res: "if rs_kind (df_resources ?d ! ?ri) = RK_CONSUMABLE
      then resource_known (fst c) ! ?ri \<noteq> 0 \<and> \<not> resource_available (fst c) ! ?ri < ru_units u
      else \<not> overlapping_units (df_resources ?d ! ?ri) (vx_position x) (vx_history x ! ?ri) (ru_units u) >
        rs_capacity (df_resources ?d ! ?ri)"
    using none rel by (auto simp: use_findings_def Let_def look in_step_def split: if_splits)
  then show "rs_kind (df_resources ?d ! ?ri) = RK_CONSUMABLE \<longrightarrow> resource_known (fst c) ! ?ri \<noteq> 0"
    by (simp split: if_splits)
  show "check_resource_use (env_default n) (fst c) (snd c) (u, ?ri) = None"
  proof (cases "rs_kind (df_resources ?d ! ?ri) = RK_CONSUMABLE")
    case True
    with res show ?thesis by (simp add: check_resource_use_def Let_def)
  next
    case False
    have "rs_capacity (df_resources ?d ! ?ri) < 2 ^ 31" using accountableD(2)[OF acc nth_mem[OF ix(2)]] .
    then have "\<not> held_units (snd c) ?ri + ucast (ru_units u) > ucast (rs_capacity (df_resources ?d ! ?ri))"
      using rel res False sound_definitionD(2)[OF sd] ix(2,3)
      by (intro reusable_passes[where hist = "vx_history x" and pos = "vx_position x"]) (simp_all add: in_step_def)
    with False show ?thesis by (simp add: check_resource_use_def Let_def)
  qed
qed

lemma distinct_use_pairs:
  assumes "sound_definition d" "a \<in> set (df_actions d)" "distinct (map ru_resource (ac_resource_uses a))"
  shows "distinct (map snd (use_pairs d (ac_resource_uses a)))"
proof -
  have "ru_resource u = ru_resource w"
    if "u \<in> set (ac_resource_uses a)" "w \<in> set (ac_resource_uses a)" "use_index d u = use_index d w" for u w
    using index_of_Some[OF use_indexed(1)[OF assms(1,2) that(1)]]
      index_of_Some[OF use_indexed(1)[OF assms(1,2) that(2)]] that(3) by simp
  moreover have "inj_on ru_resource (set (ac_resource_uses a))" using assms(3) by (simp add: distinct_map)
  ultimately have "inj_on (use_index d) (set (ac_resource_uses a))" by (intro inj_onI) (blast dest: inj_onD)
  moreover have "distinct (ac_resource_uses a)" using assms(3) by (simp add: distinct_map)
  ultimately show ?thesis by (simp add: use_pairs_def distinct_map comp_def)
qed

lemma apply_actionI:
  assumes "check_occurrence e (sn_state n) i = None" "check_dependencies e (sn_state n) i = None"
    "check_exclusion e (sn_state n) i = None"
    "scan_preconditions e (sn_state n) (ac_preconditions (df_actions (se_definition e) ! i)) [] = Inr bs"
    "\<forall>ur\<in>set (uses_at e i). check_resource_use e (sn_state n) (sn_holds n) ur = None"
    "apply_effects e (ac_effects (df_actions (se_definition e) ! i)) (sn_state n) = Inr s1"
    "fold (consume e) (uses_at e i) s1 = s2"
    "floor_gap (se_definition e) s2 \<le> floor_gap (se_definition e) (sn_state n)"
    "ac_reversibility (df_actions (se_definition e) ! i) = RV_IRREVERSIBLE \<longrightarrow> allow_irreversible_actions (se_policy e)"
    "add_overflow (fs_tick s2) (ac_duration_ticks (df_actions (se_definition e) ! i)) = Some tick"
  shows "\<exists>t. apply_action e n i = Inr t \<and> tr_holds t = next_holds e i (sn_holds n) \<and>
    tr_state t = s2\<lparr>action_occurrences := (action_occurrences s2)[i := action_occurrences (sn_state n) ! i + 1], fs_tick := tick\<rparr> \<and>
    tr_delta t = step_delta (df_actions (se_definition e) ! i) (sn_incompleteness n) (incompleteness (se_definition e) s2)"
proof -
  let ?bs = "remdups_adj (sort_by evidence_binding_less bs)"
  have uses [simp]: "first_some (map (check_resource_use e (sn_state n) (sn_holds n)) (uses_at e i)) = None"
    using assms(5) by simp
  have act: "apply_action e n i = finish_step e n i ?bs s2"
    using assms(1-4,6,7) by (simp add: apply_action_def Let_def first_some.simps)
  show ?thesis using assms(8-10) unfolding act by (auto simp: finish_step_def Let_def not_less)
qed

text \<open>What a step without findings and its successor are, in the planner's terms.\<close>

definition matching_step :: "plan_request \<Rightarrow> validator_run \<Rightarrow> config \<Rightarrow> nat \<Rightarrow> validator_run \<Rightarrow> transition \<Rightarrow> bool" where
  "matching_step n x c i x' t \<longleftrightarrow>
     apply_action (env_default n) (config_node (env_default n) c) i = Inr t \<and>
     vx_state x' = tr_state t \<and> vx_floor x' = floor_gap (rq_definition n) (tr_state t) \<and>
     vx_completeness x' = incompleteness (rq_definition n) (tr_state t) \<and>
     vx_position x' = vx_position x + 1 \<and>
     history_ok (rq_definition n) (vx_position x') (vx_history x') \<and>
     mset (history_holds (rq_definition n) (vx_position x') (vx_history x')) =
       mset (history_holds (rq_definition n) (vx_position x') (vx_history x)) + mset (new_holds (env_default n) i) \<and>
     tr_holds t = next_holds (env_default n) i (snd c) \<and>
     unat (fs_tick (tr_state t)) = unat (fs_tick (fst c)) + unat (ac_duration_ticks (df_actions (rq_definition n) ! i)) \<and>
     (\<forall>z. objective_add (vx_objective x) (tr_delta t) = Some z \<longrightarrow> vx_objective x' = z)"

lemma matching_step_related:
  assumes acc: "accountable n" and rel: "in_step n x c" and i: "i < length (df_actions (rq_definition n))"
    and m: "matching_step n x c i x' t"
  shows "config_step (env_default n) c i = Some ((tr_state t, tr_holds t), tr_delta t)"
    and "in_step n x' (tr_state t, tr_holds t)"
proof -
  let ?d = "rq_definition n" and ?e = "env_default n"
  have sd: "sound_definition ?d" using acc by (simp add: accountable_def)
  note pos = position_small[OF acc rel]
  have t: "apply_action ?e (config_node ?e c) i = Inr t" using m by (simp add: matching_step_def)
  then show st: "config_step ?e c i = Some ((tr_state t, tr_holds t), tr_delta t)" by (simp add: config_step_def)
  have wf: "config_wf ?e c" "i < action_count_of ?e" using rel i by (simp_all add: in_step_def action_count_of_def)
  have "mset (tr_holds t) = mset (decay_holds (snd c)) + mset (new_holds ?e i)"
    using m by (simp add: matching_step_def next_holds_def)
  also have "mset (decay_holds (snd c)) = mset (history_holds ?d (vx_position x + 1) (vx_history x))"
    using rel decay_history[OF _ pos(1), of ?d "vx_history x"] by (metis decay_mset in_step_def)
  finally have holds: "mset (tr_holds t) = mset (history_holds ?d (vx_position x') (vx_history x'))"
    using m unfolding matching_step_def by metis
  have "holds_within_capacity (se_definition ?e) (tr_holds t)"
  proof (rule step_holds_within_capacity[OF t])
    show "holds_within_capacity (se_definition ?e) (sn_holds (config_node ?e c))"
      using rel by (simp add: in_step_def config_node_def)
    have pairs: "uses_at ?e i = use_pairs ?d (ac_resource_uses (df_actions ?d ! i))"
      by (simp add: uses_at_indexed[OF sd i] use_pairs_def)
    show "distinct (map snd (uses_at ?e i))"
      unfolding pairs using acc i by (intro distinct_use_pairs[OF sd]) (simp_all add: accountableD(3))
    show "\<forall>ur\<in>set (uses_at ?e i). snd ur < 2 ^ 32"
      using use_indexed(2)[OF sd nth_mem[OF i]] sound_definitionD(2)[OF sd] by (fastforce simp: pairs use_pairs_def)
  qed
  moreover have "config_wf ?e (tr_state t, tr_holds t)" by (rule plan_space.step_wf[OF wf st])
  moreover have "config_depth ?e (tr_state t, tr_holds t) = Suc (config_depth ?e c)"
    by (rule plan_space.step_depth[OF wf st])
  ultimately show "in_step n x' (tr_state t, tr_holds t)"
    using rel m holds pos(2) by (auto simp: in_step_def matching_step_def)
qed

lemma clean_step_matches:
  assumes acc: "accountable n" and rel: "in_step n x c"
    and clean: "vx_findings (validate_step (view_of n) step x) = vx_findings x"
    and ticks: "\<And>i. map_of (tb_actions (build_tables (rq_definition n))) (ps_action step) = Some i \<Longrightarrow>
      unat (fs_tick (fst c)) + unat (ac_duration_ticks (df_actions (rq_definition n) ! i)) < 2 ^ 64"
  shows "\<exists>i t. i < length (df_actions (rq_definition n)) \<and> ac_id (df_actions (rq_definition n) ! i) = ps_action step \<and>
    map_of (tb_actions (build_tables (rq_definition n))) (ps_action step) = Some i \<and>
    matching_step n x c i (validate_step (view_of n) step x) t \<and> ucast (vx_position x) < max_plan_steps (rq_policy n)"
  using clean
proof (rule validate_step_clean, unfold view_of_simps)
  let ?d = "rq_definition n" and ?e = "env_default n" and ?pos = "vx_position x"
  fix i s1 s2 hist
  let ?a = "df_actions ?d ! i"
  assume i: "map_of (tb_actions (build_tables ?d)) (ps_action step) = Some i"
    and none: "step_findings (view_of n) x step i = []"
    and eff: "fold (validate_effect (view_of n) ?pos) (ac_effects ?a) (vx_findings x, vx_state x) = (vx_findings x, s1)"
    and use: "fold (settle_use (view_of n) ?pos) (ac_resource_uses ?a) (vx_findings x, s1, vx_history x) = (vx_findings x, s2, hist)"
    and floor: "shortfall ?d s2 False \<le> vx_floor x"
    and x': "validate_step (view_of n) step x =
      \<lparr>vx_state = s2\<lparr>fs_tick := add_capped (fs_tick s2) (ac_duration_ticks ?a),
          action_occurrences := (action_occurrences s2)[i := action_occurrences s2 ! i + 1]\<rparr>,
       vx_objective = account ?a (vx_floor x) (shortfall ?d s2 False) (vx_completeness x) (shortfall ?d s2 True) (vx_objective x),
       vx_completeness = shortfall ?d s2 True, vx_floor = shortfall ?d s2 False, vx_history = hist,
       vx_position = ?pos + 1, vx_findings = vx_findings x\<rparr>"
  have sd: "sound_definition ?d" using acc by (simp add: accountable_def)
  note ixd = sound_definitionD(1)[OF sd]
  have ilt: "i < length (df_actions ?d)" and aid: "ac_id ?a = ps_action step"
    using i index_of_Some[of "ps_action step" "map ac_id (df_actions ?d)" i]
    by (auto simp: table_lookup(5)[OF ixd] build_indexer_def)
  have a: "?a \<in> set (df_actions ?d)" using ilt by simp
  have vs: "vx_state x = fst c" using rel by (simp add: in_step_def)
  note pos = position_small[OF acc rel]
  have parts: "ordering_findings (view_of n) (fst c) ?pos step i = []" "exclusion_findings (view_of n) (fst c) ?pos i = []"
    "concat (map (precondition_findings (view_of n) (fst c) ?pos) (ac_preconditions ?a)) = []"
    "policy_findings (view_of n) ?pos step ?a = []"
    "\<forall>u\<in>set (ac_resource_uses ?a). use_findings (view_of n) (vx_state x) (vx_history x) ?pos u = []"
    using none by (simp_all add: step_findings_def Let_def vs)
  obtain bs where bs: "scan_preconditions ?e (fst c) (ac_preconditions ?a) [] = Inr bs"
    using preconditions_pass[OF sd parts(3)] by blast
  have s1: "apply_effects ?e (ac_effects ?a) (fst c) = Inr s1"
    using effects_pass[OF ixd eff] by (simp add: vs)
  have known: "\<forall>u\<in>set (ac_resource_uses ?a). rs_kind (df_resources ?d ! use_index ?d u) = RK_CONSUMABLE \<longrightarrow>
      resource_known s1 ! use_index ?d u \<noteq> 0"
  proof (intro ballI impI)
    fix u assume u: "u \<in> set (ac_resource_uses ?a)" "rs_kind (df_resources ?d ! use_index ?d u) = RK_CONSUMABLE"
    have "length (resource_known (fst c)) = length (df_resources ?d)"
      using rel by (simp add: in_step_def config_wf_def state_shape_def shape_eq_iff blank_state_def)
    with use_passes(2)[OF acc rel a u(1)] parts(5) u use_indexed(2)[OF sd a u(1)]
    show "resource_known s1 ! use_index ?d u \<noteq> 0" by (intro apply_effects_known[OF s1]) simp_all
  qed
  have hok: "history_ok ?d (?pos + 1) (vx_history x)"
    using rel pos(3) by (auto simp: in_step_def history_ok_def intro: less_trans)
  note settled = settle_uses_pass[OF sd a subset_refl known hok pos(3) use]
  have pairs: "uses_at ?e i = use_pairs ?d (ac_resource_uses ?a)"
    by (simp add: uses_at_indexed[OF sd ilt] use_pairs_def)
  have s2: "fold (consume ?e) (uses_at ?e i) s1 = s2" using settled pairs by simp
  have stage: "stage_ok ?d (fst c) s2"
    using apply_effects_stage[OF s1] consume_all_stage[of ?d s1 ?e "uses_at ?e i"] s2
    by (auto intro: stage_ok_trans)
  obtain tick where tick: "add_overflow (fs_tick s2) (ac_duration_ticks ?a) = Some tick"
    "unat tick = unat (fs_tick (fst c)) + unat (ac_duration_ticks ?a)"
    using ticks[OF i] stage by (cases "add_overflow (fs_tick s2) (ac_duration_ticks ?a)")
      (auto simp: stage_ok_def add_overflow_Some_iff add_overflow_None_iff)
  obtain t where t: "apply_action ?e (config_node ?e c) i = Inr t" "tr_holds t = next_holds ?e i (snd c)"
    "tr_state t = s2\<lparr>action_occurrences := (action_occurrences s2)[i := action_occurrences (fst c) ! i + 1], fs_tick := tick\<rparr>"
    "tr_delta t = step_delta ?a (incompleteness ?d (fst c)) (incompleteness ?d s2)"
  proof -
    have "\<forall>ur\<in>set (uses_at ?e i). check_resource_use ?e (fst c) (snd c) ur = None"
      using use_passes(1)[OF acc rel a] parts(5) by (auto simp: pairs use_pairs_def)
    moreover have "ac_reversibility ?a = RV_IRREVERSIBLE \<longrightarrow> allow_irreversible_actions (rq_policy n)"
      using parts(4) by (auto simp: policy_findings_def Let_def split: if_splits)
    ultimately show ?thesis
      using apply_actionI[of ?e "config_node ?e c" i bs s1 s2 tick] ordering_passes(1,2)[OF sd ilt parts(1)]
        exclusion_passes[OF sd ilt parts(2)] bs s1 s2 floor tick(1) rel that
      by (auto simp: config_node_def shortfall_eq in_step_def)
  qed
  have occ: "action_occurrences s2 = action_occurrences (fst c)" using stage by (simp add: stage_ok_def)
  have capped: "add_capped (fs_tick s2) (ac_duration_ticks ?a) = tick" using tick(1) by (simp add: add_capped_def)
  have "matching_step n x c i (validate_step (view_of n) step x) t"
    unfolding matching_step_def
  proof (intro conjI allI impI)
    fix z assume "objective_add (vx_objective x) (tr_delta t) = Some z"
    with floor rel show "vx_objective (validate_step (view_of n) step x) = z"
      unfolding x' t(4) by (simp add: account_adds in_step_def shortfall_eq)
  qed (use t settled[THEN conjunct2] tick(2) in \<open>simp_all add: x' shortfall_eq occ capped new_holds_taken[OF sd ilt]\<close>)
  moreover have "ucast ?pos < max_plan_steps (rq_policy n)"
    using parts(4) by (auto simp: policy_findings_def Let_def not_le split: if_splits)
  ultimately show ?thesis using ilt aid i by blast
qed

section \<open>Whole plans\<close>

text \<open>Findings only grow along the walk.\<close>

lemma validate_step_extends: "\<exists>more. vx_findings (validate_step v step x) = vx_findings x @ more"
proof (cases "map_of (tb_actions (va_tables v)) (ps_action step)")
  case (Some i)
  show ?thesis by (rule validate_step_parts[OF Some, of x]) simp
qed (simp add: validate_step_def Let_def)

lemma validate_steps_extend: "\<exists>more. vx_findings (fold (validate_step v) steps x) = vx_findings x @ more"
proof (induction steps arbitrary: x)
  case (Cons st steps)
  from Cons[of "validate_step v st x"] validate_step_extends[of v st x] show ?case by auto
qed simp

text \<open>The ticks of a list of steps, without wrap-around.\<close>

definition step_ticks :: "fabric_definition \<Rightarrow> plan_step \<Rightarrow> nat" where
  "step_ticks d st = (case find_action d (ps_action st) of None \<Rightarrow> 0 | Some a \<Rightarrow> unat (ac_duration_ticks a))"

definition plan_ticks :: "fabric_definition \<Rightarrow> plan_step list \<Rightarrow> nat" where
  "plan_ticks d steps = sum_list (map (step_ticks d) steps)"

lemma step_ticks_indexed:
  assumes "indexed d" "map_of (tb_actions (build_tables d)) (ps_action st) = Some i"
  shows "step_ticks d st = unat (ac_duration_ticks (df_actions d ! i))"
proof -
  have "index_of (ps_action st) (map ac_id (df_actions d)) = Some i"
    using assms by (simp add: table_lookup(5) build_indexer_def)
  then have "find_index (\<lambda>a. ac_id a = ps_action st) (df_actions d) = Some i"
    using assms(1) by (simp add: find_index_index_of indexed_def)
  then show ?thesis by (simp add: step_ticks_def find_action_def action_index_def)
qed

lemma plan_simulated:
  assumes acc: "accountable n" and rel: "in_step n x c"
    and clean: "vx_findings (fold (validate_step (view_of n)) steps x) = vx_findings x"
    and ticks: "unat (fs_tick (fst c)) + plan_ticks (rq_definition n) steps < 2 ^ 64"
  shows "\<exists>path c'. (\<forall>i\<in>set path. i < length (df_actions (rq_definition n))) \<and>
    map (action_id_at (env_default n)) path = map ps_action steps \<and>
    run_path (config_step (env_default n)) c path = Some c' \<and>
    in_step n (fold (validate_step (view_of n)) steps x) c' \<and>
    (steps \<noteq> [] \<longrightarrow> unat (vx_position x) + length steps \<le> unat (max_plan_steps (rq_policy n))) \<and>
    (\<forall>l l'. fst l = vx_objective x \<longrightarrow> score_path (config_step (env_default n)) (action_id_at (env_default n)) c l path = Some l' \<longrightarrow>
       fst l' = vx_objective (fold (validate_step (view_of n)) steps x))"
  using rel clean ticks
proof (induction steps arbitrary: x c)
  case Nil
  then show ?case by (intro exI[of _ "[]"] exI[of _ c]) simp
next
  case (Cons st steps)
  let ?d = "rq_definition n" and ?e = "env_default n" and ?x = "validate_step (view_of n) st x"
  have ixd: "indexed ?d" using acc sound_definitionD(1) by (simp add: accountable_def)
  obtain m1 where "vx_findings ?x = vx_findings x @ m1" using validate_step_extends by blast
  moreover obtain m2 where "vx_findings (fold (validate_step (view_of n)) steps ?x) = vx_findings ?x @ m2"
    using validate_steps_extend by blast
  ultimately have clean1: "vx_findings ?x = vx_findings x"
    and clean2: "vx_findings (fold (validate_step (view_of n)) steps ?x) = vx_findings ?x"
    using Cons.prems(2) by auto
  have tick: "unat (fs_tick (fst c)) + step_ticks ?d st + plan_ticks ?d steps < 2 ^ 64"
    using Cons.prems(3) by (simp add: plan_ticks_def)
  have "unat (fs_tick (fst c)) + unat (ac_duration_ticks (df_actions ?d ! i)) < 2 ^ 64"
    if "map_of (tb_actions (build_tables ?d)) (ps_action st) = Some i" for i
    using tick step_ticks_indexed[OF ixd that] by linarith
  from clean_step_matches[OF acc Cons.prems(1) clean1 this]
  obtain i t where i: "i < length (df_actions ?d)" "ac_id (df_actions ?d ! i) = ps_action st"
    "map_of (tb_actions (build_tables ?d)) (ps_action st) = Some i"
    and m: "matching_step n x c i ?x t" and bound: "ucast (vx_position x) < max_plan_steps (rq_policy n)"
    by blast
  note rel' = matching_step_related[OF acc Cons.prems(1) i(1) m]
  have "unat (fs_tick (tr_state t)) = unat (fs_tick (fst c)) + step_ticks ?d st"
    using m step_ticks_indexed[OF ixd i(3)] by (simp add: matching_step_def)
  then have tick': "unat (fs_tick (fst (tr_state t, tr_holds t))) + plan_ticks ?d steps < 2 ^ 64" using tick by simp
  obtain path c' where path: "\<forall>i\<in>set path. i < length (df_actions ?d)" "map (action_id_at ?e) path = map ps_action steps"
    "run_path (config_step ?e) (tr_state t, tr_holds t) path = Some c'"
    "in_step n (fold (validate_step (view_of n)) steps ?x) c'"
    "steps \<noteq> [] \<longrightarrow> unat (vx_position ?x) + length steps \<le> unat (max_plan_steps (rq_policy n))"
    "\<And>l l'. fst l = vx_objective ?x \<Longrightarrow> score_path (config_step ?e) (action_id_at ?e) (tr_state t, tr_holds t) l path = Some l' \<Longrightarrow>
       fst l' = vx_objective (fold (validate_step (view_of n)) steps ?x)"
    using Cons.IH[OF rel'(2) clean2 tick'] by blast
  have "unat (vx_position ?x) = unat (vx_position x) + 1"
    using position_small(2)[OF acc Cons.prems(1)] m by (simp add: matching_step_def)
  then have len: "unat (vx_position x) + length (st # steps) \<le> unat (max_plan_steps (rq_policy n))"
    using path(5) bound by (cases steps) (simp_all add: word_less_nat_alt)
  have obj: "objective_add (vx_objective x) (tr_delta t) = Some z \<Longrightarrow> vx_objective ?x = z" for z
    using m by (simp add: matching_step_def)
  have score: "fst l' = vx_objective (fold (validate_step (view_of n)) steps ?x)"
    if l: "fst l = vx_objective x" and sc: "score_path (config_step ?e) (action_id_at ?e) c l (i # path) = Some l'" for l l'
  proof -
    obtain l1 where l1: "score_extend (tr_delta t) (action_id_at ?e i) l = Some l1"
      "score_path (config_step ?e) (action_id_at ?e) (tr_state t, tr_holds t) l1 path = Some l'"
      using sc rel'(1) by (cases "score_extend (tr_delta t) (action_id_at ?e i) l") simp_all
    then have "fst l1 = vx_objective ?x" using obj l by (auto simp: score_extend_def)
    then show ?thesis using l1(2) by (rule path(6))
  qed
  have "run_path (config_step ?e) c (i # path) = Some c'" using rel'(1) path(3) by simp
  moreover have "map (action_id_at ?e) (i # path) = map ps_action (st # steps)"
    using i(2) path(2) by (simp add: action_id_at_def)
  moreover have "\<forall>k\<in>set (i # path). k < length (df_actions ?d)" using i(1) path(1) by simp
  ultimately show ?case using path(4) len score by (simp only: fold_simps) blast
qed

section \<open>Scores that cannot overflow\<close>

text \<open>The totals of a plan, without wrap-around.\<close>

definition step_cost :: "fabric_definition \<Rightarrow> plan_step \<Rightarrow> nat" where
  "step_cost d st = (case find_action d (ps_action st) of None \<Rightarrow> 0 | Some a \<Rightarrow> unat (ac_cost_units a))"

definition totals_fit :: "fabric_definition \<Rightarrow> plan_step list \<Rightarrow> bool" where
  "totals_fit d steps \<longleftrightarrow> plan_ticks d steps < 2 ^ 64 \<and> sum_list (map (step_cost d) steps) < 2 ^ 64"

lemma objective_add_defined:
  assumes "\<And>i. i < 8 \<Longrightarrow> unat (component a ! i) + unat (component b ! i) < 2 ^ 64"
  shows "\<exists>c. objective_add a b = Some c"
proof -
  let ?cs = "map (\<lambda>i. component a ! i + component b ! i) [0..<8]"
  have len: "length ?cs = 8" by simp
  have "unat (component (objective_of_list ?cs) ! i) = unat (component a ! i) + unat (component b ! i)" if "i < 8" for i
    using assms[OF that] that by (simp add: component_objective_of_list[OF len] unat_add_no_wrap)
  then show ?thesis by (auto simp: objective_add_Some)
qed

lemma incompleteness_le:
  assumes "length (df_services d) \<le> 1024" shows "unat (incompleteness d s) \<le> 2 ^ 42"
proof -
  let ?f = "\<lambda>i n. let v = df_services d ! i in
     if sv_target v = 0 then n else if service_known s ! i = 0 then n + (ucast (sv_target v) :: u64)
     else if service_reachable s ! i < sv_target v then n + ucast (sv_target v - service_reachable s ! i) else n"
  have add: "unat (n + ucast (w :: u32)) \<le> unat n + 2 ^ 32" for n :: u64 and w
  proof -
    have "unat (n + ucast w) \<le> unat n + unat (ucast w :: u64)" by (simp add: unat_word_ariths)
    also have "\<dots> \<le> unat n + 2 ^ 32" using unsigned_less[of w, where ?'a = nat] by simp
    finally show ?thesis .
  qed
  have step: "unat (?f i n) \<le> unat n + 2 ^ 32" for i n
    using add by (simp add: Let_def)
  have "unat (fold ?f is n) \<le> unat n + length is * 2 ^ 32" for "is" n
  proof (induction "is" arbitrary: n)
    case (Cons i "is")
    have "unat (fold ?f is (?f i n)) \<le> unat (?f i n) + length is * 2 ^ 32" by (rule Cons)
    also have "\<dots> \<le> unat n + length (i # is) * 2 ^ 32" using step[of i n] by simp
    finally show ?case by (simp only: fold_simps)
  qed simp
  from this[of "[0..<length (df_services d)]" 0]
  have "unat (incompleteness d s) \<le> length (df_services d) * 2 ^ 32" by (simp add: incompleteness_def)
  also have "\<dots> \<le> 1024 * 2 ^ 32" using assms by simp
  finally show ?thesis by simp
qed

text \<open>What \<open>k\<close> steps can have accumulated.\<close>

definition accumulated :: "nat \<Rightarrow> objective \<Rightarrow> bool" where
  "accumulated k z \<longleftrightarrow> safety_violations z = 0 \<and> service_preservation_gap z = 0 \<and>
     unat (recovery_incompleteness z) \<le> k * 2 ^ 42 \<and> unat (obj_blast_radius z) \<le> k * 2 ^ 32 \<and>
     unat (action_count z) = k \<and> unat (obj_disruption z) \<le> k * 2 ^ 32"

lemma accumulated_step:
  assumes z: "accumulated k z" "k < 8192" and inc: "unat now \<le> 2 ^ 42"
    and cost: "unat (obj_cost_units z) + unat (ac_cost_units a) < 2 ^ 64"
    and ticks: "unat (obj_duration_ticks z) + unat (ac_duration_ticks a) < 2 ^ 64"
  shows "\<exists>y. objective_add z (step_delta a prev now) = Some y \<and> accumulated (Suc k) y \<and>
    unat (obj_cost_units y) = unat (obj_cost_units z) + unat (ac_cost_units a) \<and>
    unat (obj_duration_ticks y) = unat (obj_duration_ticks z) + unat (ac_duration_ticks a)"
proof -
  let ?b = "step_delta a prev now"
  have r: "unat (recovery_incompleteness ?b) \<le> 2 ^ 42"
    using inc by (auto simp: step_delta_def unat_sub word_le_nat_alt word_less_nat_alt)
  have u32: "unat (obj_blast_radius ?b) < 2 ^ 32" "unat (obj_disruption ?b) < 2 ^ 32"
    using unsigned_less[of "ac_blast_radius a", where ?'a = nat] unsigned_less[of "ac_disruption a", where ?'a = nat] by (simp_all add: step_delta_def)
  have k: "k * 2 ^ 42 \<le> 8191 * (2 ^ 42 :: nat)" "k * 2 ^ 32 \<le> 8191 * (2 ^ 32 :: nat)" using z(2) by simp_all
  have "unat (component z ! i) + unat (component ?b ! i) < 2 ^ 64" if "i < 8" for i
  proof -
    from that consider "i = 0" | "i = 1" | "i = 2" | "i = 3" | "i = 4" | "i = 5" | "i = 6" | "i = 7" by linarith
    then show ?thesis
      using z r u32 k cost ticks
      by cases (simp_all add: component_def accumulated_def step_delta_def)
  qed
  then obtain y where y: "objective_add z ?b = Some y" using objective_add_defined by blast
  then have sums: "unat (component y ! i) = unat (component z ! i) + unat (component ?b ! i)" if "i < 8" for i
    using that by (simp add: objective_add_Some)
  have "accumulated (Suc k) y \<and> unat (obj_cost_units y) = unat (obj_cost_units z) + unat (ac_cost_units a) \<and>
    unat (obj_duration_ticks y) = unat (obj_duration_ticks z) + unat (ac_duration_ticks a)"
    using sums[of 0] sums[of 1] sums[of 2] sums[of 3] sums[of 4] sums[of 5] sums[of 6] sums[of 7] z(1) r u32
    by (simp add: accumulated_def component_def) (simp add: step_delta_def unat_eq_0)
  with y show ?thesis by blast
qed

lemma score_defined:
  assumes svc: "length (df_services (se_definition e)) \<le> 1024"
  shows "run_path (config_step e) c path = Some c' \<Longrightarrow> accumulated k (fst l) \<Longrightarrow> k + length path \<le> 8192 \<Longrightarrow>
    unat (obj_cost_units (fst l)) + sum_list (map (\<lambda>i. unat (ac_cost_units (df_actions (se_definition e) ! i))) path) < 2 ^ 64 \<Longrightarrow>
    unat (obj_duration_ticks (fst l)) + sum_list (map (\<lambda>i. unat (ac_duration_ticks (df_actions (se_definition e) ! i))) path) < 2 ^ 64 \<Longrightarrow>
    \<exists>l'. score_path (config_step e) (action_id_at e) c l path = Some l'"
proof (induction path arbitrary: c l k)
  case (Cons i path)
  let ?a = "df_actions (se_definition e) ! i"
  obtain c1 dl where st: "config_step e c i = Some (c1, dl)" "run_path (config_step e) c1 path = Some c'"
    using Cons.prems(1) by (auto split: option.splits)
  then obtain t where "apply_action e (config_node e c) i = Inr t" "dl = tr_delta t"
    by (auto simp: config_step_def split: sum.splits)
  then obtain prev now where dl: "dl = step_delta ?a prev now" "unat now \<le> 2 ^ 42"
    using incompleteness_le[OF svc] by (metis apply_action_cases finish_step_cases)
  obtain y where y: "objective_add (fst l) dl = Some y" "accumulated (Suc k) y"
    "unat (obj_cost_units y) = unat (obj_cost_units (fst l)) + unat (ac_cost_units ?a)"
    "unat (obj_duration_ticks y) = unat (obj_duration_ticks (fst l)) + unat (ac_duration_ticks ?a)"
    using accumulated_step[OF Cons.prems(2) _ dl(2), of ?a prev] Cons.prems(3-5) dl(1) by auto
  have "\<exists>l'. score_path (config_step e) (action_id_at e) c1 (y, snd l @ [action_id_at e i]) path = Some l'"
    by (rule Cons.IH[OF st(2), of "Suc k"]) (use y Cons.prems(3-5) in simp_all)
  then show ?case using st(1) y(1) by (simp add: score_extend_def)
qed simp

lemma find_action_nth:
  assumes "distinct (map ac_id (df_actions d))" "i < length (df_actions d)"
  shows "find_action d (ac_id (df_actions d ! i)) = Some (df_actions d ! i)"
  using find_index_distinct[OF assms] by (simp add: find_action_def action_index_def)

lemma path_totals:
  assumes "distinct (map ac_id (df_actions (se_definition e)))" "\<forall>i\<in>set path. i < length (df_actions (se_definition e))"
    and "map (action_id_at e) path = map ps_action steps"
  shows "sum_list (map (\<lambda>i. unat (ac_cost_units (df_actions (se_definition e) ! i))) path) =
      sum_list (map (step_cost (se_definition e)) steps)"
    and "sum_list (map (\<lambda>i. unat (ac_duration_ticks (df_actions (se_definition e) ! i))) path) =
      plan_ticks (se_definition e) steps"
proof -
  let ?d = "se_definition e"
  have gen: "map (\<lambda>i. f (df_actions ?d ! i)) path =
      map (\<lambda>st. case find_action ?d (ps_action st) of None \<Rightarrow> 0 | Some a \<Rightarrow> f a) steps" for f :: "action_spec \<Rightarrow> nat"
  proof -
    let ?g = "\<lambda>x. case find_action ?d x of None \<Rightarrow> 0 | Some a \<Rightarrow> f a"
    have "map (\<lambda>st. ?g (ps_action st)) steps = map ?g (map (action_id_at e) path)" by (simp add: assms(3) comp_def)
    also have "\<dots> = map (\<lambda>i. f (df_actions ?d ! i)) path"
      using assms(2) by (simp add: action_id_at_def find_action_nth[OF assms(1)])
    finally show ?thesis by simp
  qed
  show "sum_list (map (\<lambda>i. unat (ac_cost_units (df_actions ?d ! i))) path) = sum_list (map (step_cost ?d) steps)"
    using arg_cong[OF gen[of "\<lambda>a. unat (ac_cost_units a)"], of sum_list] by (simp add: step_cost_def[abs_def])
  show "sum_list (map (\<lambda>i. unat (ac_duration_ticks (df_actions ?d ! i))) path) = plan_ticks ?d steps"
    using arg_cong[OF gen[of "\<lambda>a. unat (ac_duration_ticks a)"], of sum_list]
    by (simp add: plan_ticks_def step_ticks_def[abs_def])
qed

section \<open>Acceptance\<close>

lemma valid_parts:
  assumes "vr_valid (validate_plan r p)"
  defines "n \<equiv> normalise_request r"
  shows "check_definition (rq_definition n) default_model_limits = None"
    and "vx_findings (validation_start (view_of n) p) = []"
    and "vx_findings (fold (validate_step (view_of n)) (pl_steps p) (validation_start (view_of n) p)) = []"
    and "\<forall>g\<in>set (df_goals (rq_definition n)). goal_findings (build_tables (rq_definition n))
      (vx_state (fold (validate_step (view_of n)) (pl_steps p) (validation_start (view_of n) p))) g = []"
    and "vx_objective (fold (validate_step (view_of n)) (pl_steps p) (validation_start (view_of n) p)) = pl_objective p"
proof -
  have v: "validation_of r = view_of n" by (simp add: validation_of_def view_of_def n_def)
  let ?x = "fold (validate_step (view_of n)) (pl_steps p) (validation_start (view_of n) p)"
  show fs: "vx_findings ?x = []"
    "\<forall>g\<in>set (df_goals (rq_definition n)). goal_findings (build_tables (rq_definition n)) (vx_state ?x) g = []"
    "vx_objective ?x = pl_objective p"
    using assms(1) by (auto simp: validate_plan_def v Let_def plan_finding_def compare_objective_eq split: if_splits)
  obtain more where "vx_findings ?x = vx_findings (validation_start (view_of n) p) @ more"
    using validate_steps_extend by blast
  with fs(1) show start: "vx_findings (validation_start (view_of n) p) = []" by simp
  then show "check_definition (rq_definition n) default_model_limits = None"
    by (auto simp: validation_start_def identity_findings_def Let_def plan_finding_def validate_definition_def
        status_error_def status_ok_def split: if_splits option.splits)
qed

lemma start_related:
  assumes chk: "check_definition (rq_definition n) default_model_limits = None"
    and canon: "rq_definition n = canonicalise_definition d0"
    and cons: "\<forall>k. consistent_facts (rq_definition n) (build_indexer (rq_definition n)) (rq_authority n)
      default_model_limits (eb_facts (rq_evidence n)) k"
  shows "in_step n (validation_start (view_of n) p) (request_initial default_model_limits n, [])"
proof -
  let ?d = "rq_definition n"
  have w: "within_limits ?d default_model_limits" using checked_within_limits chk canon by simp
  have s: "validator_reconcile ?d (build_tables ?d) (rq_authority n) (eb_facts (rq_evidence n)) =
      request_initial default_model_limits n"
    unfolding reconcile_agrees[OF w spec[OF cons]] by (simp add: request_initial_def request_env_def Let_def)
  have ready: "search_ready (env_default n) (request_initial default_model_limits n)"
    by (rule request_ready[OF chk default_limits_ok])
  have "history_holds ?d pos (replicate k []) = []" for pos k by (simp add: history_holds_def)
  then show ?thesis
    using ready by (simp add: in_step_def validation_start_def Let_def s shortfall_eq history_ok_def
        holds_within_capacity_def search_ready_def)
qed

lemma goals_agree:
  assumes "indexed d" "se_definition e = d" "se_indexer e = build_indexer d"
  shows "goals_satisfied e s \<longleftrightarrow> (\<forall>g\<in>set (df_goals d). goal_findings (build_tables d) s g = [])"
proof -
  have "goal_holds (build_indexer d) s g \<longleftrightarrow> goal_findings (build_tables d) s g = []" for g
    by (cases "gl_kind g") (simp_all add: goal_holds_def goal_findings_def goal_ok_def table_subject_index[OF assms(1)]
        split: option.split)
  then show ?thesis by (simp add: goals_satisfied_def assms list_all_iff)
qed

lemma step_bound_total:
  assumes "occurrence_total (se_definition e) < 2 ^ 32"
    and "se_compiled e = build_compiled (se_definition e) ix" and "k \<le> occurrence_total (se_definition e)"
    "k \<le> unat (max_plan_steps (se_policy e))"
  shows "k \<le> step_bound e"
proof (cases "cp_occurrence_bound_overflows (build_compiled (se_definition e) ix)")
  case True
  then have "unat (absolute_bound e) = 2 ^ 64 - 1" using assms(2) by (simp add: absolute_bound_def UINT64_MAX_def)
  with assms show ?thesis by (simp add: step_bound_def min_def)
next
  case False
  with absolute_step_bound_exact[OF False] assms show ?thesis
    by (simp add: step_bound_def min_def absolute_bound_def)
qed

text \<open>What acceptance is worth, shared by the properties below: the hypotheses under which planner and
  validator read a request the same way, and the sequence of actions an accepted plan stands for.\<close>

definition unambiguous :: "plan_request \<Rightarrow> bool" where
  "unambiguous n \<longleftrightarrow> plain_resources (rq_definition n) \<and>
     (\<forall>f\<in>set (eb_facts (rq_evidence n)). \<forall>g\<in>set (eb_facts (rq_evidence n)).
        fact_key f = fact_key g \<longrightarrow> ef_sequence f = ef_sequence g \<longrightarrow> ef_value f = ef_value g)"

lemma accepted_path:
  fixes r p
  defines "n \<equiv> normalise_request r"
  assumes valid: "vr_valid (validate_plan r p)" and un: "unambiguous n"
    and fit: "totals_fit (rq_definition n) (pl_steps p)"
  obtains path where "solves (env_default n) (request_initial default_model_limits n) path"
    "plan_score (env_default n) (request_initial default_model_limits n) path = Some (pl_objective p, plan_encoding p)"
proof -
  let ?d = "rq_definition n" and ?e = "env_default n" and ?s = "request_initial default_model_limits n"
  let ?x = "validation_start (view_of n) p"
  note parts = valid_parts[OF valid, folded n_def]
  have canon: "?d = canonicalise_definition (rq_definition r)" by (simp add: n_def normalise_request_def)
  have sd: "sound_definition ?d" using parts(1) checked_indexed canon by (simp add: sound_definition_def)
  have acc: "accountable n" using sd un by (simp add: accountable_def unambiguous_def)
  have cons: "\<forall>k. consistent_facts ?d (build_indexer ?d) (rq_authority n) default_model_limits (eb_facts (rq_evidence n)) k"
    using un unfolding unambiguous_def consistent_facts_def by metis
  have rel: "in_step n ?x (?s, [])" by (rule start_related[OF parts(1) canon cons])
  have clean: "vx_findings (fold (validate_step (view_of n)) (pl_steps p) ?x) = vx_findings ?x" using parts(2,3) by simp
  have tick0: "unat (fs_tick (fst (?s, [] :: resource_hold list))) + plan_ticks ?d (pl_steps p) < 2 ^ 64"
    using fit by (simp add: request_initial_def totals_fit_def)
  obtain path c where path: "\<forall>i\<in>set path. i < length (df_actions ?d)" "map (action_id_at ?e) path = map ps_action (pl_steps p)"
    "run_path (config_step ?e) (?s, []) path = Some c" "in_step n (fold (validate_step (view_of n)) (pl_steps p) ?x) c"
    "pl_steps p \<noteq> [] \<longrightarrow> unat (vx_position ?x) + length (pl_steps p) \<le> unat (max_plan_steps (rq_policy n))"
    "\<And>l l'. fst l = vx_objective ?x \<Longrightarrow> score_path (config_step ?e) (action_id_at ?e) (?s, []) l path = Some l' \<Longrightarrow>
       fst l' = vx_objective (fold (validate_step (view_of n)) (pl_steps p) ?x)"
    using plan_simulated[OF acc rel clean tick0] by blast
  have pp: "plan_path ?e ?s path = Some c" using path(1,3) by (simp add: plan_path_def action_count_of_def)
  have ready: "search_ready ?e ?s" by (rule request_ready[OF parts(1) default_limits_ok])
  note wf = plan_path_wf[OF ready pp]
  have "length path \<le> step_bound ?e"
  proof (rule step_bound_total[where ix = "build_indexer ?d"])
    show "length path \<le> unat (max_plan_steps (se_policy ?e))"
      using path(5) map_eq_imp_length_eq[OF path(2)] by (cases "pl_steps p") simp_all
  qed (use config_depth_le[OF wf(1)] wf(2) ready in \<open>simp_all add: search_ready_def\<close>)
  moreover have "goals_satisfied ?e (fst c)"
    using parts(4) path(4) by (simp add: goals_agree[OF sound_definitionD(1)[OF sd]] in_step_def)
  ultimately have "solves ?e ?s path" by (simp add: solves_def pp)
  moreover obtain l where l: "plan_score ?e ?s path = Some l"
  proof -
    have ids: "distinct (map ac_id (df_actions (se_definition ?e)))" using ready by (simp add: search_ready_def)
    have all: "\<forall>i\<in>set path. i < length (df_actions (se_definition ?e))" using path(1) by simp
    note sums = path_totals[OF ids all path(2)]
    have "length path \<le> 8192" using config_depth_le[OF wf(1)] wf(2) sound_total[OF sd] by simp
    moreover have "length (df_services (se_definition ?e)) \<le> 1024"
      using parts(1) by (simp add: check_definition_def check_sizes_def default_model_limits_def)
    ultimately show thesis
      using score_defined[of ?e "(?s, [])" path c 0 "(zero_objective, [])"] path(3) fit sums that
      by (auto simp: plan_score_def accumulated_def zero_objective_def totals_fit_def)
  qed
  moreover have "l = (pl_objective p, plan_encoding p)"
  proof -
    have "fst l = pl_objective p"
      using path(6)[of "(zero_objective, [])" l] l parts(5) by (simp add: plan_score_def validation_start_def Let_def)
    with plan_score_encoding[OF l] path(2) show ?thesis by (cases l) (simp add: plan_encoding_def)
  qed
  ultimately show thesis using that by simp
qed

section \<open>An accepted plan of the sample fabric\<close>

definition sample_plan_step :: plan_step where
  "sample_plan_step = \<lparr>ps_index = 0, ps_action = 7, ps_occurrence = 1, ps_start_tick = 0, ps_end_tick = 4,
     ps_required_domain = AD_RECOVERY_ADMISSION, ps_required_level = AL_RECOMMENDATION, ps_required_generation = 3,
     ps_issued_level = AL_RECOMMENDATION,
     ps_evidence = [\<lparr>bd_kind = EK_LINK_OPERATIONAL, bd_subject = Subject SK_LINK 5, bd_generation = 3\<rparr>],
     ps_irreversible = True, ps_compensation = 0\<rparr>"

definition sample_plan :: recovery_plan where
  "sample_plan =
     (let n = request_on sample_definition;
          p = \<lparr>pl_id = 1, pl_request = 1, pl_epoch = 1, pl_boot = 1, pl_attempt = 1, pl_steps = [sample_plan_step],
            pl_objective = step_delta sample_action 0 0, pl_request_digest = request_digest n,
            pl_definition_digest = definition_digest sample_definition, pl_evidence_digest = evidence_digest (rq_evidence n),
            pl_authority_digest = authority_digest (rq_authority n), pl_policy_digest = policy_digest (rq_policy n),
            pl_plan_digest = zero_digest, pl_explanations = []\<rparr>
      in p\<lparr>pl_plan_digest := compute_digest p\<rparr>)"

lemma sample_plan_simps [simp]:
  "pl_steps sample_plan = [sample_plan_step]" "pl_objective sample_plan = step_delta sample_action 0 0"
  by (simp_all add: sample_plan_def Let_def)

lemma sample_plan_step_simps [simp]: "ps_action sample_plan_step = 7" "ps_index sample_plan_step = 0"
  by (simp_all add: sample_plan_step_def)

lemma sample_identity: "identity_findings (request_on sample_definition) sample_plan = []"
  by (simp add: identity_findings_def plan_finding_def sample_plan_def Let_def compute_digest_def
      validate_definition_def sample_checked)

lemma sample_tables: "build_tables sample_definition = \<lparr>tb_nodes = [(1, 0), (2, 1)], tb_links = [(5, 0)], tb_services = [],
    tb_resources = [(6, 0)], tb_actions = [(7, 0)], tb_groups = []\<rparr>"
  by (simp add: build_tables_def id_table_def sample_definition_def sample_action_def)

lemma sample_start:
  "validation_start (view_of (request_on sample_definition)) sample_plan =
    \<lparr>vx_state = sample_state, vx_objective = zero_objective, vx_completeness = 0, vx_floor = 0, vx_history = [[]],
     vx_position = 0, vx_findings = []\<rparr>"
proof -
  let ?n = "request_on sample_definition"
  have "in_step ?n (validation_start (view_of ?n) sample_plan) (request_initial default_model_limits ?n, [])"
    by (rule start_related[of _ sample_definition]) (simp_all add: sample_checked sample_canonical consistent_facts_def)
  then have "vx_state (validation_start (view_of ?n) sample_plan) = sample_state"
    by (simp add: in_step_def sample_request_initial)
  then show ?thesis
    by (simp add: validation_start_def Let_def shortfall_eq incompleteness_def floor_gap_def sample_identity
        sample_definition_simps)
qed

lemmas check_defs = step_findings_def ordering_findings_def exclusion_findings_def precondition_findings_def
  precondition_ok_def binding_findings_def expected_binding_def authority_findings_def policy_findings_def
  use_findings_def overlapping_units_def newest_fact_def value_admissible_def

lemma sample_clean: "step_findings (view_of (request_on sample_definition))
    \<lparr>vx_state = sample_state, vx_objective = zero_objective, vx_completeness = 0, vx_floor = 0, vx_history = [[]],
     vx_position = 0, vx_findings = []\<rparr> sample_plan_step 0 = []"
  by (simp add: check_defs Let_def sample_simps sample_tables sample_plan_step_def link_fact_def
      sample_binding_any sample_domain_current sample_action_def sample_policy_def)
    (simp add: sample_binding_def)

lemma sample_accepted: "vr_valid (validate_plan (request_on sample_definition) sample_plan)"
proof -
  let ?n = "request_on sample_definition"
  have v: "validation_of ?n = view_of ?n"
    by (simp add: validation_of_def view_of_def request_on_normal[OF sample_canonical])
  have "validate_step (view_of ?n) sample_plan_step (validation_start (view_of ?n) sample_plan) =
      \<lparr>vx_state = sample_successor, vx_objective = step_delta sample_action 0 0, vx_completeness = 0, vx_floor = 0,
       vx_history = [[(0, 1)]], vx_position = 1, vx_findings = []\<rparr>"
    unfolding sample_start validate_step_def
    by (simp add: Let_def sample_tables sample_clean)
      (simp add: sample_tables sample_simps validate_effect_def settle_use_def Let_def
        shortfall_def account_def step_delta_def add_capped_def add_overflow_def UINT64_MAX_def zero_objective_def
        sample_successor_def flag_def)
  then show ?thesis
    by (simp add: validate_plan_def v Let_def plan_finding_def goal_findings_def goal_ok_def sample_tables
        sample_definition_simps sample_successor_def sample_state_eq compare_objective_eq)
qed

lemma sample_unambiguous: "unambiguous (normalise_request (request_on sample_definition))"
  by (simp add: unambiguous_def plain_resources_def request_on_normal[OF sample_canonical] sample_simps)

section \<open>Properties\<close>

text \<open>C4. The validator is sound for the planner's semantics. If it accepts a plan, the evidence holds no
  two different values of one sequence number, no action lists a resource twice, capacities stay
  below \<open>2 ^ 31\<close> and the total cost and duration fit 64 bits, then the plan stands for a sequence of
  actions that is admissible from the state the evidence establishes, satisfies the goals within the
  step bound, and has exactly the objective the plan states.\<close>

theorem validator_sound:
  assumes "vr_valid (validate_plan r p)" "unambiguous (normalise_request r)"
    "totals_fit (rq_definition (normalise_request r)) (pl_steps p)"
  shows "\<exists>path. solves (request_env default_model_limits (normalise_request r))
      (request_initial default_model_limits (normalise_request r)) path \<and>
    plan_score (request_env default_model_limits (normalise_request r))
      (request_initial default_model_limits (normalise_request r)) path = Some (pl_objective p, plan_encoding p)"
  using accepted_path[OF assms] by blast

lemma sample_totals: "totals_fit (rq_definition (normalise_request (request_on sample_definition))) (pl_steps sample_plan)"
  by (simp add: totals_fit_def plan_ticks_def step_ticks_def step_cost_def request_on_normal[OF sample_canonical]
      sample_plan_step_def find_action_def action_index_def sample_simps sample_action_def)

theorem validator_sound_witness:
  "\<exists>path. solves sample_env sample_state path \<and>
     plan_score sample_env sample_state path = Some (pl_objective sample_plan, plan_encoding sample_plan)"
  using validator_sound[OF sample_accepted sample_unambiguous sample_totals]
  by (simp add: request_on_normal[OF sample_canonical] sample_request_env sample_request_initial)

text \<open>Planner and validator agree on what is best: no plan the validator accepts for a request is
  better, in the order of objectives and encodings, than the plan the planner returns for it.\<close>

theorem accepted_plans_no_better:
  assumes "pr_decision (plan default_model_limits r) = PD_PLAN_FOUND" "pr_plan (plan default_model_limits r) = Some q"
    and "vr_valid (validate_plan r p)" "unambiguous (normalise_request r)"
    "totals_fit (rq_definition (normalise_request r)) (pl_steps p)"
  shows "score_le (pl_objective q, plan_encoding q) (pl_objective p, plan_encoding p)"
proof -
  have "optimal_score (request_env default_model_limits (normalise_request r))
      (request_initial default_model_limits (normalise_request r)) (pl_objective q, plan_encoding q)"
    using found_plan_optimal[OF default_limits_ok assms(1)] assms(2) by auto
  then show ?thesis using accepted_path[OF assms(3-5)] unfolding optimal_score_def by metis
qed

theorem accepted_plans_no_better_witness:
  "\<exists>q. pr_plan (plan default_model_limits (request_on sample_definition)) = Some q \<and>
     score_le (pl_objective q, plan_encoding q) (pl_objective sample_plan, plan_encoding sample_plan)"
proof -
  obtain q where "pr_plan (plan default_model_limits (request_on sample_definition)) = Some q"
    using found_plan_optimal[OF default_limits_ok sample_found] by blast
  with accepted_plans_no_better[OF sample_found this sample_accepted sample_unambiguous sample_totals]
  show ?thesis by blast
qed

text \<open>A certificate of exhaustive search excludes acceptance: when the planner returns one, the
  validator accepts no plan for the request.\<close>

theorem certificate_excludes_acceptance:
  assumes "pr_certificate (plan default_model_limits r) = Some c" "ct_kind c = PF_EXHAUSTIVE_SEARCH"
    and "unambiguous (normalise_request r)" "totals_fit (rq_definition (normalise_request r)) (pl_steps p)"
  shows "\<not> vr_valid (validate_plan r p)"
proof
  assume "vr_valid (validate_plan r p)"
  from accepted_path[OF this assms(3,4)] exhausted_unsolvable[OF default_limits_ok assms(1,2)] show False by blast
qed

theorem certificate_excludes_acceptance_witness:
  "\<not> vr_valid (validate_plan (request_on blocked_definition) sample_plan)"
proof (rule certificate_excludes_acceptance[OF blocked_exhausted])
  show "unambiguous (normalise_request (request_on blocked_definition))"
    by (simp add: unambiguous_def plain_resources_def request_on_normal[OF blocked_canonical] blocked_simps
        sample_definition_simps blocked_action_def sample_action_def)
  show "totals_fit (rq_definition (normalise_request (request_on blocked_definition))) (pl_steps sample_plan)"
    by (simp add: totals_fit_def plan_ticks_def step_ticks_def step_cost_def request_on_normal[OF blocked_canonical]
      sample_plan_step_def find_action_def action_index_def blocked_simps blocked_action_def sample_action_def)
qed (simp add: exhaustive_certificate_def)

end
