(* ===== verification/NRP_Reference.thy ===== *)
theory NRP_Reference
  imports NRP_Planner
begin

text \<open>
  The reference solver (\<open>src/reference_solver.cpp\<close>), the slow oracle the planner is tested against: it
  enumerates every sequence of actions within its limits and simulates each one from the start with a
  checker of its own. An early return of \<open>reference_evaluate\<close> with an invalid evaluation is \<open>None\<close>;
  positions and vector indices are natural numbers.
\<close>

section \<open>Positions of identities\<close>

record lookup =
  lu_node :: "(strong_id \<times> nat) list"
  lu_link :: "(strong_id \<times> nat) list"
  lu_service :: "(strong_id \<times> nat) list"
  lu_resource :: "(strong_id \<times> nat) list"
  lu_action :: "(strong_id \<times> nat) list"
  lu_group :: "(strong_id \<times> nat) list"

definition index_map :: "strong_id list \<Rightarrow> (strong_id \<times> nat) list" where
  "index_map ids = fold (\<lambda>i. map_put (<) (ids ! i) i) [0..<length ids] []"

definition build_lookup :: "fabric_definition \<Rightarrow> lookup" where
  "build_lookup d = \<lparr>lu_node = index_map (map nd_id (df_nodes d)), lu_link = index_map (map lk_id (df_links d)),
     lu_service = index_map (map sv_id (df_services d)), lu_resource = index_map (map rs_id (df_resources d)),
     lu_action = index_map (map ac_id (df_actions d)), lu_group = index_map (map xg_id (df_exclusion_groups d))\<rparr>"

fun lookup_subject :: "lookup \<Rightarrow> subject \<Rightarrow> nat option" where
  "lookup_subject lk (Subject SK_NODE i) = map_of (lu_node lk) i"
| "lookup_subject lk (Subject SK_LINK i) = map_of (lu_link lk) i"
| "lookup_subject lk (Subject SK_SERVICE i) = map_of (lu_service lk) i"
| "lookup_subject lk (Subject SK_RESOURCE i) = map_of (lu_resource lk) i"
| "lookup_subject lk (Subject SK_ACTION i) = map_of (lu_action lk) i"
| "lookup_subject lk (Subject SK_NONE i) = None"
| "lookup_subject lk (Subject SK_FABRIC i) = None"

section \<open>State\<close>

record ref_state =
  rf_node_up :: "u8 list"
  rf_link_up :: "u8 list"
  rf_restored :: "u8 list"
  rf_node_known :: "u8 list"
  rf_link_known :: "u8 list"
  rf_resource_known :: "u8 list"
  rf_service_known :: "u8 list"
  rf_available :: "u32 list"
  rf_reachable :: "u32 list"
  rf_occurrences :: "u32 list"

definition ref_shortfall :: "fabric_definition \<Rightarrow> ref_state \<Rightarrow> bool \<Rightarrow> u64" where
  "ref_shortfall d s targets = fold (\<lambda>i total.
     let v = df_services d ! i; reference = (if targets then sv_target v else sv_required v) in
     if reference = 0 then total
     else if rf_service_known s ! i = 0 then total + ucast reference
     else if rf_reachable s ! i < reference then total + ucast (reference - rf_reachable s ! i)
     else total) [0..<length (df_services d)] 0"

definition ref_domain :: "evidence_kind \<Rightarrow> authority_domain" where
  "ref_domain k = (if k = EK_RESOURCE_AVAILABLE_UNITS \<or> k = EK_RESOURCE_RESTORED then AD_RESOURCE_LEASE else AD_FABRIC_STATE)"

definition ref_blank :: "fabric_definition \<Rightarrow> ref_state" where
  "ref_blank d = \<lparr>rf_node_up = replicate (length (df_nodes d)) 0, rf_link_up = replicate (length (df_links d)) 0,
     rf_restored = replicate (length (df_resources d)) 0, rf_node_known = replicate (length (df_nodes d)) 0,
     rf_link_known = replicate (length (df_links d)) 0, rf_resource_known = replicate (length (df_resources d)) 0,
     rf_service_known = replicate (length (df_services d)) 0, rf_available = map rs_capacity (df_resources d),
     rf_reachable = replicate (length (df_services d)) 0, rf_occurrences = replicate (length (df_actions d)) 0\<rparr>"

text \<open>What one accepted fact writes, and which facts are accepted.\<close>

definition ref_write :: "fabric_definition \<Rightarrow> evidence_kind \<Rightarrow> nat \<Rightarrow> u64 \<Rightarrow> ref_state \<Rightarrow> ref_state" where
  "ref_write d k i v s = (case k of
       EK_LINK_OPERATIONAL \<Rightarrow> if v > 1 then s
         else s\<lparr>rf_link_up := (rf_link_up s)[i := ucast v], rf_link_known := (rf_link_known s)[i := 1]\<rparr>
     | EK_NODE_OPERATIONAL \<Rightarrow> if v > 1 then s
         else s\<lparr>rf_node_up := (rf_node_up s)[i := ucast v], rf_node_known := (rf_node_known s)[i := 1]\<rparr>
     | EK_SERVICE_REACHABLE_ENDPOINTS \<Rightarrow> if v > ucast (sv_max (df_services d ! i)) then s
         else s\<lparr>rf_reachable := (rf_reachable s)[i := ucast v], rf_service_known := (rf_service_known s)[i := 1]\<rparr>
     | EK_RESOURCE_AVAILABLE_UNITS \<Rightarrow> if v > ucast (rs_capacity (df_resources d ! i)) then s
         else s\<lparr>rf_available := (rf_available s)[i := ucast v], rf_resource_known := (rf_resource_known s)[i := 1]\<rparr>
     | EK_RESOURCE_RESTORED \<Rightarrow> if v > 1 then s
         else s\<lparr>rf_restored := (rf_restored s)[i := ucast v], rf_resource_known := (rf_resource_known s)[i := 1]\<rparr>
     | EK_COUNT \<Rightarrow> s)"

definition ref_fact :: "fabric_definition \<Rightarrow> lookup \<Rightarrow> plan_request \<Rightarrow> evidence_fact \<Rightarrow> ref_state \<Rightarrow> ref_state" where
  "ref_fact d lk n f s =
     (if \<not> valid_evidence_kind (ef_kind f) then s
      else if subj_kind (ef_subject f) \<noteq> expected_subject_evidence (ef_kind f) then s
      else if ef_source_domain f \<noteq> ref_domain (ef_kind f) then s
      else if ef_label f \<noteq> TL_REAL \<and> ef_label f \<noteq> TL_SYNTHETIC then s
      else case find_binding (rq_authority n) (ef_source_domain f) of
          None \<Rightarrow> s
        | Some b \<Rightarrow> if ef_generation f \<noteq> ab_granted b then s
            else (case lookup_subject lk (ef_subject f) of
                None \<Rightarrow> s
              | Some i \<Rightarrow>
                  let others = filter (\<lambda>g. ef_kind g = ef_kind f \<and> ef_subject g = ef_subject f) (eb_facts (rq_evidence n)) in
                  if list_ex (\<lambda>g. ef_sequence g > ef_sequence f) others \<or>
                     list_ex (\<lambda>g. ef_sequence g = ef_sequence f \<and> ef_value g \<noteq> ef_value f) others
                  then s else ref_write d (ef_kind f) i (ef_value f) s))"

definition ref_initial :: "fabric_definition \<Rightarrow> lookup \<Rightarrow> plan_request \<Rightarrow> ref_state" where
  "ref_initial d lk n = fold (ref_fact d lk n) (eb_facts (rq_evidence n)) (ref_blank d)"

definition ref_precondition :: "lookup \<Rightarrow> ref_state \<Rightarrow> precondition \<Rightarrow> bool" where
  "ref_precondition lk s p = (case lookup_subject lk (pc_subject p) of
       None \<Rightarrow> False
     | Some i \<Rightarrow> (case pc_kind p of
          PK_LINK_OPERATIONAL \<Rightarrow> rf_link_known s ! i \<noteq> 0 \<and> rf_link_up s ! i \<noteq> 0
        | PK_LINK_NOT_OPERATIONAL \<Rightarrow> rf_link_known s ! i \<noteq> 0 \<and> rf_link_up s ! i = 0
        | PK_NODE_OPERATIONAL \<Rightarrow> rf_node_known s ! i \<noteq> 0 \<and> rf_node_up s ! i \<noteq> 0
        | PK_NODE_NOT_OPERATIONAL \<Rightarrow> rf_node_known s ! i \<noteq> 0 \<and> rf_node_up s ! i = 0
        | PK_SERVICE_REACHABLE_AT_LEAST \<Rightarrow> rf_service_known s ! i \<noteq> 0 \<and> ucast (rf_reachable s ! i) \<ge> pc_value p
        | PK_SERVICE_REACHABLE_AT_MOST \<Rightarrow> rf_service_known s ! i \<noteq> 0 \<and> ucast (rf_reachable s ! i) \<le> pc_value p
        | PK_RESOURCE_AVAILABLE_AT_LEAST \<Rightarrow> rf_resource_known s ! i \<noteq> 0 \<and> ucast (rf_available s ! i) \<ge> pc_value p
        | PK_ACTION_EXECUTED_AT_LEAST \<Rightarrow> ucast (rf_occurrences s ! i) \<ge> pc_value p
        | PK_COUNT \<Rightarrow> False))"

section \<open>One step of an evaluation\<close>

definition ref_dependency :: "lookup \<Rightarrow> ref_state \<Rightarrow> action_dependency \<Rightarrow> bool" where
  "ref_dependency lk s p = (case map_of (lu_action lk) (dp_predecessor p) of
       None \<Rightarrow> False | Some k \<Rightarrow> \<not> rf_occurrences s ! k < dp_min_occurrences p)"

text \<open>The actions of a group that have run.\<close>

definition ref_selected :: "fabric_definition \<Rightarrow> ref_state \<Rightarrow> strong_id \<Rightarrow> u32" where
  "ref_selected d s g = fold (\<lambda>c selected.
     if rf_occurrences s ! c = 0 then selected
     else if list_ex (\<lambda>x. x = g) (ac_exclusion_groups (df_actions d ! c)) then selected + 1 else selected)
     [0..<length (df_actions d)] 0"

definition ref_group_open :: "fabric_definition \<Rightarrow> lookup \<Rightarrow> ref_state \<Rightarrow> strong_id \<Rightarrow> bool" where
  "ref_group_open d lk s g = (case map_of (lu_group lk) g of
       None \<Rightarrow> False | Some k \<Rightarrow> \<not> ref_selected d s g \<ge> xg_max_selected (df_exclusion_groups d ! k))"

type_synonym ref_holds = "(nat \<times> u32) list list"

definition ref_overlap :: "resource_spec \<Rightarrow> nat \<Rightarrow> (nat \<times> u32) list \<Rightarrow> u32 \<Rightarrow> u32" where
  "ref_overlap r pos holds units = fold (\<lambda>(first, held) n.
     let distance = pos - first in
     if distance < unat (rs_hold_steps r) \<or> rs_hold_steps r = 0 \<and> distance = 0 then n + held else n) holds units"

definition ref_use_ok :: "fabric_definition \<Rightarrow> lookup \<Rightarrow> ref_state \<Rightarrow> ref_holds \<Rightarrow> nat \<Rightarrow> resource_use \<Rightarrow> bool" where
  "ref_use_ok d lk s holds pos u = (case map_of (lu_resource lk) (ru_resource u) of
       None \<Rightarrow> False
     | Some i \<Rightarrow> let r = df_resources d ! i in
         if rs_kind r = RK_CONSUMABLE then rf_resource_known s ! i \<noteq> 0 \<and> \<not> rf_available s ! i < ru_units u
         else \<not> ref_overlap r pos (holds ! i) (ru_units u) > rs_capacity r)"

definition ref_effect :: "fabric_definition \<Rightarrow> lookup \<Rightarrow> effect \<Rightarrow> ref_state \<Rightarrow> ref_state option" where
  "ref_effect d lk fx s = (case lookup_subject lk (fx_subject fx) of
       None \<Rightarrow> None
     | Some i \<Rightarrow> (case fx_kind fx of
          FK_SET_LINK_OPERATIONAL \<Rightarrow> Some (s\<lparr>rf_link_up := (rf_link_up s)[i := if fx_value fx \<noteq> 0 then 1 else 0],
            rf_link_known := (rf_link_known s)[i := 1]\<rparr>)
        | FK_SET_NODE_OPERATIONAL \<Rightarrow> Some (s\<lparr>rf_node_up := (rf_node_up s)[i := if fx_value fx \<noteq> 0 then 1 else 0],
            rf_node_known := (rf_node_known s)[i := 1]\<rparr>)
        | FK_SET_SERVICE_REACHABLE \<Rightarrow>
            if sint (fx_value fx) < 0 \<or> fx_value fx > ucast (sv_max (df_services d ! i)) then None
            else Some (s\<lparr>rf_reachable := (rf_reachable s)[i := ucast (fx_value fx)],
              rf_service_known := (rf_service_known s)[i := 1]\<rparr>)
        | FK_SERVICE_REACHABLE_DELTA \<Rightarrow>
            if rf_service_known s ! i = 0 then (if sv_required (df_services d ! i) > 0 then None else Some s)
            else let updated = uint (rf_reachable s ! i) + sint (fx_value fx) in
              if updated < 0 \<or> updated > uint (sv_max (df_services d ! i)) then None
              else Some (s\<lparr>rf_reachable := (rf_reachable s)[i := of_int updated]\<rparr>)
        | FK_MARK_RESOURCE_RESTORED \<Rightarrow> Some (s\<lparr>rf_restored := (rf_restored s)[i := 1],
            rf_resource_known := (rf_resource_known s)[i := 1]\<rparr>)
        | FK_SET_RESOURCE_AVAILABLE \<Rightarrow>
            if sint (fx_value fx) < 0 \<or> fx_value fx > ucast (rs_capacity (df_resources d ! i)) then None
            else Some (s\<lparr>rf_available := (rf_available s)[i := ucast (fx_value fx)],
              rf_resource_known := (rf_resource_known s)[i := 1]\<rparr>)
        | FK_COUNT \<Rightarrow> None))"

fun ref_effects :: "fabric_definition \<Rightarrow> lookup \<Rightarrow> effect list \<Rightarrow> ref_state \<Rightarrow> ref_state option" where
  "ref_effects d lk [] s = Some s"
| "ref_effects d lk (fx # fxs) s = (case ref_effect d lk fx s of None \<Rightarrow> None | Some s' \<Rightarrow> ref_effects d lk fxs s')"

fun ref_take :: "fabric_definition \<Rightarrow> lookup \<Rightarrow> nat \<Rightarrow> resource_use list \<Rightarrow> ref_state \<Rightarrow> ref_holds \<Rightarrow> (ref_state \<times> ref_holds) option" where
  "ref_take d lk pos [] s holds = Some (s, holds)"
| "ref_take d lk pos (u # us) s holds = (case map_of (lu_resource lk) (ru_resource u) of
       None \<Rightarrow> None
     | Some i \<Rightarrow> if rs_kind (df_resources d ! i) = RK_CONSUMABLE
         then ref_take d lk pos us (s\<lparr>rf_available := (rf_available s)[i := rf_available s ! i - ru_units u]\<rparr>) holds
         else ref_take d lk pos us s (holds[i := holds ! i @ [(pos, ru_units u)]]))"

record ref_run =
  rr_state :: ref_state
  rr_holds :: ref_holds
  rr_floor :: u64
  rr_completeness :: u64
  rr_objective :: objective
  rr_position :: nat

definition ref_account :: "action_spec \<Rightarrow> u64 \<Rightarrow> u64 \<Rightarrow> objective \<Rightarrow> objective" where
  "ref_account a before after z = z\<lparr>
     recovery_incompleteness := (if after > before then recovery_incompleteness z + (after - before) else recovery_incompleteness z),
     obj_blast_radius := obj_blast_radius z + ucast (ac_blast_radius a), action_count := action_count z + 1,
     obj_disruption := obj_disruption z + ucast (ac_disruption a), obj_cost_units := obj_cost_units z + ac_cost_units a,
     obj_duration_ticks := obj_duration_ticks z + ac_duration_ticks a\<rparr>"

definition ref_admits :: "plan_request \<Rightarrow> lookup \<Rightarrow> nat \<Rightarrow> ref_run \<Rightarrow> bool" where
  "ref_admits n lk i x =
     (let d = rq_definition n; a = df_actions d ! i; s = rr_state x in
      \<not> rf_occurrences s ! i \<ge> ac_max_occurrences a \<and> list_all (ref_dependency lk s) (ac_dependencies a) \<and>
      (rf_occurrences s ! i = 0 \<longrightarrow> list_all (ref_group_open d lk s) (ac_exclusion_groups a)) \<and>
      list_all (ref_precondition lk s) (ac_preconditions a) \<and>
      (ac_reversibility a = RV_IRREVERSIBLE \<longrightarrow> allow_irreversible_actions (rq_policy n)) \<and>
      list_all (ref_use_ok d lk s (rr_holds x) (rr_position x)) (ac_resource_uses a))"

definition ref_step :: "plan_request \<Rightarrow> lookup \<Rightarrow> strong_id \<Rightarrow> ref_run \<Rightarrow> ref_run option" where
  "ref_step n lk aid x = (case map_of (lu_action lk) aid of
       None \<Rightarrow> None
     | Some i \<Rightarrow>
         let d = rq_definition n; a = df_actions d ! i in
         if \<not> ref_admits n lk i x then None
         else case ref_effects d lk (ac_effects a) (rr_state x) of
           None \<Rightarrow> None
         | Some s1 \<Rightarrow> (case ref_take d lk (rr_position x) (ac_resource_uses a) s1 (rr_holds x) of
             None \<Rightarrow> None
           | Some (s2, holds) \<Rightarrow>
               let floor_after = ref_shortfall d s2 False; completeness_after = ref_shortfall d s2 True in
               if floor_after > rr_floor x then None
               else Some \<lparr>rr_state = s2\<lparr>rf_occurrences := (rf_occurrences s2)[i := rf_occurrences s2 ! i + 1]\<rparr>,
                 rr_holds = holds, rr_floor = floor_after, rr_completeness = completeness_after,
                 rr_objective = ref_account a (rr_completeness x) completeness_after (rr_objective x),
                 rr_position = rr_position x + 1\<rparr>))"

fun ref_steps :: "plan_request \<Rightarrow> lookup \<Rightarrow> strong_id list \<Rightarrow> ref_run \<Rightarrow> ref_run option" where
  "ref_steps n lk [] x = Some x"
| "ref_steps n lk (aid # aids) x = (case ref_step n lk aid x of None \<Rightarrow> None | Some x' \<Rightarrow> ref_steps n lk aids x')"

definition ref_goal :: "lookup \<Rightarrow> ref_state \<Rightarrow> goal_spec \<Rightarrow> bool" where
  "ref_goal lk s g = (case lookup_subject lk (gl_subject g) of
       None \<Rightarrow> False
     | Some i \<Rightarrow> (case gl_kind g of
          GK_LINK_OPERATIONAL \<Rightarrow> \<not> (rf_link_known s ! i = 0 \<or> rf_link_up s ! i = 0)
        | GK_NODE_OPERATIONAL \<Rightarrow> \<not> (rf_node_known s ! i = 0 \<or> rf_node_up s ! i = 0)
        | GK_RESOURCE_RESTORED \<Rightarrow> \<not> (rf_resource_known s ! i = 0 \<or> rf_restored s ! i = 0)
        | GK_SERVICE_REACHABLE_AT_LEAST \<Rightarrow> rf_service_known s ! i \<noteq> 0 \<and> \<not> ucast (rf_reachable s ! i) < gl_value g
        | GK_COUNT \<Rightarrow> False))"

section \<open>Evaluation of a sequence\<close>

definition ref_normal :: "plan_request \<Rightarrow> plan_request" where
  "ref_normal r = r\<lparr>rq_definition := canonicalise_definition (rq_definition r),
     rq_evidence := canonicalise_evidence (rq_evidence r), rq_authority := canonicalise_authority (rq_authority r)\<rparr>"

definition ref_authority :: "plan_request \<Rightarrow> action_spec \<Rightarrow> bool" where
  "ref_authority n a = (case find_binding (rq_authority n) (ac_required_domain a) of
       None \<Rightarrow> False
     | Some b \<Rightarrow> evaluate_binding b = BS_CURRENT \<and> \<not> ab_level b < ac_required_level a)"

definition ref_start :: "plan_request \<Rightarrow> lookup \<Rightarrow> ref_run" where
  "ref_start n lk = (let d = rq_definition n; s = ref_initial d lk n in
     \<lparr>rr_state = s, rr_holds = replicate (length (df_resources d)) [], rr_floor = ref_shortfall d s False,
      rr_completeness = ref_shortfall d s True, rr_objective = zero_objective, rr_position = 0\<rparr>)"

definition reference_evaluate :: "plan_request \<Rightarrow> strong_id list \<Rightarrow> objective option" where
  "reference_evaluate r encoding =
     (let n = ref_normal r; d = rq_definition n; lk = build_lookup d in
      if length encoding > unat (max_plan_steps (rq_policy n)) then None
      else if require_current_authority (rq_policy n) \<and> \<not> list_all (ref_authority n) (df_actions d) then None
      else case ref_steps n lk encoding (ref_start n lk) of
        None \<Rightarrow> None
      | Some x \<Rightarrow> if list_all (ref_goal lk (rr_state x)) (df_goals d) then Some (rr_objective x) else None)"

definition reference_check_sequence :: "plan_request \<Rightarrow> strong_id list \<Rightarrow> bool" where
  "reference_check_sequence r encoding \<longleftrightarrow> reference_evaluate r encoding \<noteq> None"

section \<open>Enumeration\<close>

record reference_limits =
  rl_max_sequences :: u64
  rl_max_plan_steps :: u64

definition default_reference_limits :: reference_limits where
  "default_reference_limits = \<lparr>rl_max_sequences = 40000000, rl_max_plan_steps = 8\<rparr>"

datatype reference_kind = RK_COMPLETED | RK_LIMIT_REACHED | RK_INVALID_INPUT

record reference_outcome =
  ro_kind :: reference_kind
  ro_plan_found :: bool
  ro_objective :: objective
  ro_encoding :: "strong_id list"
  ro_sequences_examined :: u64
  ro_valid_plans :: u64

text \<open>What the enumeration mutates.\<close>

record ref_search =
  rx_examined :: u64
  rx_valid :: u64
  rx_best :: "(objective \<times> strong_id list) option"
  rx_aborted :: bool

definition ref_visit :: "plan_request \<Rightarrow> strong_id list \<Rightarrow> ref_search \<Rightarrow> ref_search" where
  "ref_visit n current x =
     (let x = x\<lparr>rx_examined := rx_examined x + 1\<rparr> in
      case reference_evaluate n current of
        None \<Rightarrow> x
      | Some objective \<Rightarrow>
          let x = x\<lparr>rx_valid := rx_valid x + 1\<rparr> in
          case rx_best x of
            None \<Rightarrow> x\<lparr>rx_best := Some (objective, current)\<rparr>
          | Some (best, best_encoding) \<Rightarrow>
              let order = compare_objective objective best in
              if order < 0 \<or> order = 0 \<and> compare_encoding current best_encoding < 0
              then x\<lparr>rx_best := Some (objective, current)\<rparr> else x)"

text \<open>\<open>descend\<close>; the first argument is \<open>depth_bound - current.size()\<close>.\<close>

primrec ref_descend :: "nat \<Rightarrow> plan_request \<Rightarrow> u64 \<Rightarrow> strong_id list \<Rightarrow> u32 list \<Rightarrow> ref_search \<Rightarrow> ref_search" where
  "ref_descend 0 n m current counts x = (if rx_aborted x then x else ref_visit n current x)"
| "ref_descend (Suc k) n m current counts x =
     (if rx_aborted x then x
      else fold (\<lambda>i x.
          if rx_aborted x then x
          else if counts ! i \<ge> ac_max_occurrences (df_actions (rq_definition n) ! i) then x
          else if rx_examined x \<ge> m then x\<lparr>rx_aborted := True\<rparr>
          else ref_descend k n m (current @ [ac_id (df_actions (rq_definition n) ! i)]) (counts[i := counts ! i + 1]) x)
        [0..<length (df_actions (rq_definition n))] (ref_visit n current x))"

fun ref_occurrence_bound :: "action_spec list \<Rightarrow> u64 \<Rightarrow> u64" where
  "ref_occurrence_bound [] bound = bound"
| "ref_occurrence_bound (a # as) bound = (case add_overflow bound (ucast (ac_max_occurrences a)) of
       None \<Rightarrow> UINT64_MAX | Some bound' \<Rightarrow> ref_occurrence_bound as bound')"

definition ref_depth_bound :: "plan_request \<Rightarrow> reference_limits \<Rightarrow> u64" where
  "ref_depth_bound n l = min (rl_max_plan_steps l)
     (min (max_plan_steps (rq_policy n)) (ref_occurrence_bound (df_actions (rq_definition n)) 0))"

definition no_outcome :: "reference_kind \<Rightarrow> reference_outcome" where
  "no_outcome k = \<lparr>ro_kind = k, ro_plan_found = False, ro_objective = zero_objective, ro_encoding = [],
     ro_sequences_examined = 0, ro_valid_plans = 0\<rparr>"

definition reference_solve :: "plan_request \<Rightarrow> reference_limits \<Rightarrow> reference_outcome" where
  "reference_solve r l =
     (let n = ref_normal r in
      if max_plan_steps (rq_policy n) = 0 \<or> rl_max_plan_steps l = 0 then no_outcome RK_INVALID_INPUT
      else if ref_depth_bound n l > 12 then no_outcome RK_LIMIT_REACHED
      else let x = ref_descend (unat (ref_depth_bound n l)) n (rl_max_sequences l) []
                 (replicate (length (df_actions (rq_definition n))) 0)
                 \<lparr>rx_examined = 0, rx_valid = 0, rx_best = None, rx_aborted = False\<rparr>;
               best = (case rx_best x of None \<Rightarrow> (zero_objective, []) | Some b \<Rightarrow> b) in
        \<lparr>ro_kind = (if rx_aborted x then RK_LIMIT_REACHED else RK_COMPLETED), ro_plan_found = (rx_best x \<noteq> None),
         ro_objective = fst best, ro_encoding = snd best,
         ro_sequences_examined = rx_examined x, ro_valid_plans = rx_valid x\<rparr>)"

end
