(* ===== verification/NRP_Reference_Step.thy ===== *)
theory NRP_Reference_Step
  imports NRP_Reference NRP_Validate_Sound
begin

text \<open>
  One step of the reference solver against one step of the planner's transition function. For a valid
  definition the solver's identity maps and the planner's binary searches find the same positions, its
  state is the planner's without the clock, its recorded holds are the planner's running ones read at the
  current position, and each of its checks passes exactly where the planner's does.
\<close>

section \<open>Positions\<close>

interpretation ids: strict_total_order "(<) :: strong_id \<Rightarrow> strong_id \<Rightarrow> bool"
  by unfold_locales auto

lemma index_map_prefix:
  assumes "distinct ids" "k \<le> length ids"
  defines "m \<equiv> fold (\<lambda>i. map_put (<) (ids ! i) i) [0..<k] []"
  shows "ids.ordered_map m \<and> (\<forall>j<k. map_of m (ids ! j) = Some j) \<and> (\<forall>x. x \<notin> set (take k ids) \<longrightarrow> map_of m x = None)"
  using assms(2) unfolding m_def
proof (induction k)
  case (Suc k)
  let ?m = "fold (\<lambda>i. map_put (<) (ids ! i) i) [0..<k] []"
  have IH: "ids.ordered_map ?m" "\<forall>j<k. map_of ?m (ids ! j) = Some j" "\<forall>x. x \<notin> set (take k ids) \<longrightarrow> map_of ?m x = None"
    using Suc by simp_all
  have "map_of (map_put (<) (ids ! k) k ?m) = (map_of ?m)(ids ! k \<mapsto> k)" by (rule ids.lookup_put[OF IH(1)])
  moreover have "ids ! j \<noteq> ids ! k" if "j < k" for j using assms(1) Suc.prems that by (simp add: nth_eq_iff_index_eq)
  moreover have "set (take (Suc k) ids) = insert (ids ! k) (set (take k ids))"
    using Suc.prems by (simp add: take_Suc_conv_app_nth)
  ultimately show ?case using IH ids.ordered_put[OF IH(1)] by (auto simp: less_Suc_eq)
qed simp

lemma index_map_lookup:
  assumes "sorted ids" "distinct ids"
  shows "map_of (index_map ids) x = index_of x ids"
proof -
  note m = index_map_prefix[OF assms(2) order_refl, folded index_map_def]
  show ?thesis
  proof (cases "x \<in> set ids")
    case True
    then obtain k where "k < length ids" "x = ids ! k" by (auto simp: in_set_conv_nth)
    with m index_of_nth[OF assms] show ?thesis by simp
  qed (use m index_of_None in simp)
qed

lemma build_lookup_index:
  assumes "indexed d"
  shows "map_of (lu_node (build_lookup d)) i = index_of i (ix_node_ids (build_indexer d))"
    and "map_of (lu_link (build_lookup d)) i = index_of i (ix_link_ids (build_indexer d))"
    and "map_of (lu_service (build_lookup d)) i = index_of i (ix_service_ids (build_indexer d))"
    and "map_of (lu_resource (build_lookup d)) i = index_of i (ix_resource_ids (build_indexer d))"
    and "map_of (lu_action (build_lookup d)) i = index_of i (ix_action_ids (build_indexer d))"
    and "map_of (lu_group (build_lookup d)) i = index_of i (map xg_id (df_exclusion_groups d))"
  using assms by (simp_all add: indexed_def build_lookup_def build_indexer_def index_map_lookup)

lemma lookup_subject_index:
  assumes "indexed d"
  shows "lookup_subject (build_lookup d) s = subject_index (build_indexer d) s"
proof (cases s)
  case (Subject k i)
  with build_lookup_index[OF assms, of i] show ?thesis by (cases k) simp_all
qed

section \<open>State\<close>

definition ref_of :: "fabric_state \<Rightarrow> ref_state" where
  "ref_of s = \<lparr>rf_node_up = node_operational s, rf_link_up = link_operational s, rf_restored = resource_restored s,
     rf_node_known = node_known s, rf_link_known = link_known s, rf_resource_known = resource_known s,
     rf_service_known = service_known s, rf_available = resource_available s, rf_reachable = service_reachable s,
     rf_occurrences = action_occurrences s\<rparr>"

lemma ref_of_simps [simp]:
  "rf_node_up (ref_of s) = node_operational s" "rf_link_up (ref_of s) = link_operational s"
  "rf_restored (ref_of s) = resource_restored s" "rf_node_known (ref_of s) = node_known s"
  "rf_link_known (ref_of s) = link_known s" "rf_resource_known (ref_of s) = resource_known s"
  "rf_service_known (ref_of s) = service_known s" "rf_available (ref_of s) = resource_available s"
  "rf_reachable (ref_of s) = service_reachable s" "rf_occurrences (ref_of s) = action_occurrences s"
  by (simp_all add: ref_of_def)

lemma shortfall_ref: "ref_shortfall d (ref_of s) False = floor_gap d s" "ref_shortfall d (ref_of s) True = incompleteness d s"
  unfolding ref_shortfall_def floor_gap_def incompleteness_def Let_def ref_of_simps if_True if_False by simp_all

lemma precondition_ref:
  "indexed d \<Longrightarrow> ref_precondition (build_lookup d) (ref_of s) p \<longleftrightarrow> precondition_holds (build_indexer d) s p = (True, True)"
  by (auto simp: ref_precondition_def precondition_holds_def lookup_subject_index split: option.split precondition_kind.split)

lemma goal_ref: "indexed d \<Longrightarrow> ref_goal (build_lookup d) (ref_of s) g \<longleftrightarrow> goal_holds (build_indexer d) s g"
  by (auto simp: ref_goal_def goal_holds_def lookup_subject_index not_less split: option.split goal_kind.split)

lemma small_not_negative:
  assumes "v \<le> ucast (m :: u32)" shows "\<not> sint (v :: u64) < 0"
proof -
  have "unat v \<le> unat m" using assms by (simp add: word_le_nat_alt)
  moreover have "unat m < 2 ^ 32" using unsigned_less[of m, where ?'a = nat] by simp
  ultimately have "unat v < 9223372036854775808" by simp
  then have "uint v < 9223372036854775808" by (simp only: uint_nat of_nat_less_numeral_iff)
  moreover have pos: "0 \<le> uint v" by simp
  then have "- 9223372036854775808 \<le> uint v" by linarith
  ultimately have "sint v = uint v"
    unfolding sint_uint by (intro signed_take_bit_int_eq_self) simp_all
  then show ?thesis using pos by linarith
qed

lemma effect_ref:
  assumes "indexed d" "se_definition e = d" "se_indexer e = build_indexer d"
  shows "ref_effect d (build_lookup d) fx (ref_of s) = (case apply_effect e fx s of Inl _ \<Rightarrow> None | Inr s' \<Rightarrow> Some (ref_of s'))"
proof -
  have neg: "\<not> sint (fx_value fx) < 0" if "\<not> fx_value fx > ucast (m :: u32)" for m
    by (rule small_not_negative[of _ m]) (use that in simp)
  show ?thesis
    using neg assms(2,3)
    by (auto simp: ref_effect_def apply_effect_def lookup_subject_index[OF assms(1)] flag_def Let_def ref_of_def
        split: option.split effect_kind.split)
qed

lemma effects_ref:
  assumes "indexed d" "se_definition e = d" "se_indexer e = build_indexer d"
  shows "ref_effects d (build_lookup d) fxs (ref_of s) = (case apply_effects e fxs s of Inl _ \<Rightarrow> None | Inr s' \<Rightarrow> Some (ref_of s'))"
  by (induction fxs arbitrary: s) (simp_all add: effect_ref[OF assms] split: sum.split)

section \<open>Order and exclusion\<close>

lemma dependencies_ref:
  assumes sd: "sound_definition (rq_definition n)" and i: "i < length (df_actions (rq_definition n))"
  shows "list_all (ref_dependency (build_lookup (rq_definition n)) (ref_of s)) (ac_dependencies (df_actions (rq_definition n) ! i)) \<longleftrightarrow>
    check_dependencies (env_default n) s i = None"
  unfolding dependencies_test[OF sd i] list_all_iff ref_dependency_def build_lookup_index(5)[OF sound_definitionD(1)[OF sd]]
    ref_of_simps ..

lemma selected_ref: "ref_selected d (ref_of s) g = selected_in_group d s g"
proof -
  have "fold (\<lambda>c m. if action_occurrences s ! c = 0 then m
      else if list_ex (\<lambda>x. x = g) (ac_exclusion_groups (df_actions d ! c)) then m + 1 else m) cs (k :: u32) =
    k + of_nat (length (filter (\<lambda>c. action_occurrences s ! c \<noteq> 0 \<and> g \<in> set (ac_exclusion_groups (df_actions d ! c))) cs))" for cs k
    by (induction cs arbitrary: k) (auto simp: list_ex_iff)
  then show ?thesis by (simp add: ref_selected_def selected_in_group_def)
qed

lemma group_known:
  assumes sd: "sound_definition d" and a: "a \<in> set (df_actions d)" "g \<in> set (ac_exclusion_groups a)"
  shows "index_of g (map xg_id (df_exclusion_groups d)) \<noteq> None"
proof -
  have "g \<in> set (map xg_id (df_exclusion_groups d))"
    using sound_definitionD(5)[OF sd a(1)] a(2) by (auto simp: check_action_def check_group_ref_def list_ex_iff)
  then show ?thesis using sound_definitionD(1)[OF sd] by (intro index_of_in) (simp_all add: indexed_def)
qed

lemma exclusion_ref:
  assumes sd: "sound_definition (rq_definition n)" and i: "i < length (df_actions (rq_definition n))"
  shows "(action_occurrences s ! i = 0 \<longrightarrow> list_all (ref_group_open (rq_definition n) (build_lookup (rq_definition n)) (ref_of s))
      (ac_exclusion_groups (df_actions (rq_definition n) ! i))) \<longleftrightarrow> check_exclusion (env_default n) s i = None"
proof -
  have "ref_group_open (rq_definition n) (build_lookup (rq_definition n)) (ref_of s) g \<longleftrightarrow>
      (\<forall>k. index_of g (map xg_id (df_exclusion_groups (rq_definition n))) = Some k \<longrightarrow>
         \<not> selected_in_group (rq_definition n) s g \<ge> xg_max_selected (df_exclusion_groups (rq_definition n) ! k))"
    if "g \<in> set (ac_exclusion_groups (df_actions (rq_definition n) ! i))" for g
    using group_known[OF sd nth_mem[OF i] that]
    by (auto simp: ref_group_open_def build_lookup_index(6)[OF sound_definitionD(1)[OF sd]] selected_ref)
  then show ?thesis unfolding exclusion_test[OF sd i] by (simp add: list_all_iff)
qed

section \<open>Holds\<close>

text \<open>The solver's positions are machine words for the lemmas on histories.\<close>

definition history_of :: "ref_holds \<Rightarrow> hold_history" where
  "history_of holds = map (map (\<lambda>(p, u). (of_nat p, u))) holds"

definition positions_below :: "nat \<Rightarrow> ref_holds \<Rightarrow> bool" where
  "positions_below pos holds \<longleftrightarrow> (\<forall>hs\<in>set holds. \<forall>h\<in>set hs. fst h < pos)"

lemma history_of_ok:
  assumes "positions_below pos holds" "length holds = length (df_resources d)" "pos < 2 ^ 32"
  shows "history_ok d (of_nat pos) (history_of holds)"
proof -
  have "(of_nat p :: u32) < of_nat pos" if "p < pos" for p
    using that assms(3) by (simp add: word_less_nat_alt unat_of_nat)
  then show ?thesis using assms(1,2) by (fastforce simp: history_ok_def history_of_def positions_below_def)
qed

lemma overlap_ref:
  assumes "\<forall>h\<in>set hs. fst h < pos" "pos < 2 ^ 32"
  shows "ref_overlap r pos hs units = overlapping_units r (of_nat pos) (map (\<lambda>(p, u). (of_nat p, u)) hs) units"
  using assms(1)
proof (induction hs arbitrary: units)
  case (Cons h hs)
  obtain p u where h: "h = (p, u)" by fastforce
  have p: "p < pos" using Cons.prems h by simp
  have "unat (of_nat pos - of_nat p :: u32) = pos - p"
    using p assms(2) by (simp add: unat_sub word_le_nat_alt unat_of_nat)
  then have "pos - p < unat (rs_hold_steps r) \<longleftrightarrow> (of_nat pos - of_nat p :: u32) < rs_hold_steps r" by (simp add: word_less_nat_alt)
  moreover have "(of_nat pos :: u32) \<noteq> of_nat p" "pos - p \<noteq> 0"
    using p assms(2) by (simp_all add: word_unat_eq_iff unat_of_nat)
  ultimately show ?case using Cons by (simp add: ref_overlap_def overlapping_units_def h Let_def)
qed (simp add: ref_overlap_def overlapping_units_def)

text \<open>One more hold.\<close>

lemma history_of_append:
  "i < length holds \<Longrightarrow> history_of (holds[i := holds ! i @ [(pos, u)]]) =
    (history_of holds)[i := history_of holds ! i @ [(of_nat pos, u)]]"
  by (simp add: history_of_def map_update)

lemma take_ref:
  assumes sd: "sound_definition (rq_definition n)" and a: "a \<in> set (df_actions (rq_definition n))"
  shows "set us \<subseteq> set (ac_resource_uses a) \<Longrightarrow> length holds = length (df_resources (rq_definition n)) \<Longrightarrow>
    positions_below (Suc pos) holds \<Longrightarrow>
    \<exists>holds'. ref_take (rq_definition n) (build_lookup (rq_definition n)) pos us (ref_of s) holds =
        Some (ref_of (fold (consume (env_default n)) (use_pairs (rq_definition n) us) s), holds') \<and>
      length holds' = length (df_resources (rq_definition n)) \<and> positions_below (Suc pos) holds' \<and>
      mset (history_holds (rq_definition n) (of_nat pos + 1) (history_of holds')) =
        mset (history_holds (rq_definition n) (of_nat pos + 1) (history_of holds)) + mset (taken_holds (rq_definition n) us)"
proof (induction us arbitrary: s holds)
  case Nil
  then show ?case by (simp add: use_pairs_def taken_holds_def)
next
  case (Cons u us)
  let ?d = "rq_definition n" and ?lk = "build_lookup (rq_definition n)"
  let ?i = "use_index ?d u"
  have u: "u \<in> set (ac_resource_uses a)" and sub: "set us \<subseteq> set (ac_resource_uses a)" using Cons.prems(1) by simp_all
  note ix = use_indexed[OF sd a u]
  have look: "map_of (lu_resource ?lk) (ru_resource u) = Some ?i"
    using ix(1) by (simp add: build_lookup_index(4)[OF sound_definitionD(1)[OF sd]])
  let ?s = "consume (env_default n) (u, ?i) s"
  let ?holds = "if rs_kind (df_resources ?d ! ?i) = RK_CONSUMABLE then holds else holds[?i := holds ! ?i @ [(pos, ru_units u)]]"
  have kind: "rs_kind (df_resources ?d ! ?i) = RK_CONSUMABLE \<or> rs_kind (df_resources ?d ! ?i) = RK_REUSABLE"
    using sound_definitionD(6)[OF sd nth_mem[OF ix(2)]]
    by (cases "rs_kind (df_resources ?d ! ?i)") (auto simp: check_resource_def valid_resource_kind_def)
  have one: "ref_take ?d ?lk pos (u # us) (ref_of s) holds = ref_take ?d ?lk pos us (ref_of ?s) ?holds"
    using look by (simp add: consume_def ref_of_def)
  have len: "length ?holds = length (df_resources ?d)" using Cons.prems(2) by simp
  have below: "positions_below (Suc pos) ?holds"
    using Cons.prems(2,3) ix(2) set_update_subset_insert[of holds ?i "holds ! ?i @ [(pos, ru_units u)]"]
    unfolding positions_below_def by (fastforce split: if_splits)
  have m: "mset (history_holds ?d (of_nat pos + 1) (history_of ?holds)) =
      mset (history_holds ?d (of_nat pos + 1) (history_of holds)) + mset (taken_holds ?d [u])"
    using kind history_append[of ?i "history_of holds" ?d "of_nat pos + 1" "(of_nat pos, ru_units u)"] Cons.prems(2) ix(2)
    by (auto simp: history_of_append taken_holds_def use_pairs_def hold_at_def, simp_all add: history_of_def)
  from Cons.IH[OF sub len below, of ?s] obtain holds' where IH:
    "ref_take ?d ?lk pos us (ref_of ?s) ?holds = Some (ref_of (fold (consume (env_default n)) (use_pairs ?d us) ?s), holds')"
    "length holds' = length (df_resources ?d)" "positions_below (Suc pos) holds'"
    "mset (history_holds ?d (of_nat pos + 1) (history_of holds')) =
      mset (history_holds ?d (of_nat pos + 1) (history_of ?holds)) + mset (taken_holds ?d us)" by blast
  have "taken_holds ?d (u # us) = taken_holds ?d [u] @ taken_holds ?d us" by (simp add: taken_holds_def use_pairs_def)
  then show ?case using IH m one by (intro exI[of _ holds']) (simp add: use_pairs_def)
qed

end
