(* ===== verification/NRP_Reference_Start.thy ===== *)
theory NRP_Reference_Start
  imports NRP_Reference_Step
begin

text \<open>
  The reference solver reads every fact against every other; the planner reconciles them one by one into
  a table. Where no two facts of one sequence number contradict each other and no inadmissible fact is
  newer than an admissible one of its subject, both write the same values, and the order of writing does
  not matter.
\<close>

section \<open>The facts that count\<close>

definition superseded :: "plan_request \<Rightarrow> evidence_fact \<Rightarrow> bool" where
  "superseded n f \<longleftrightarrow> (\<exists>g\<in>set (eb_facts (rq_evidence n)). fact_key g = fact_key f \<and> ef_sequence g > ef_sequence f)"

abbreviation counted_fact :: "plan_request \<Rightarrow> evidence_fact \<Rightarrow> bool" where
  "counted_fact n f \<equiv> admissible_fact (rq_definition n) (build_indexer (rq_definition n)) (rq_authority n) default_model_limits f \<and>
     \<not> superseded n f"

definition clean_evidence :: "plan_request \<Rightarrow> bool" where
  "clean_evidence n \<longleftrightarrow>
     (\<forall>f\<in>set (eb_facts (rq_evidence n)). \<forall>g\<in>set (eb_facts (rq_evidence n)). fact_key f = fact_key g \<longrightarrow>
        (ef_sequence f = ef_sequence g \<longrightarrow> ef_value f = ef_value g) \<and>
        (admissible_fact (rq_definition n) (build_indexer (rq_definition n)) (rq_authority n) default_model_limits f \<longrightarrow>
           ef_sequence g > ef_sequence f \<longrightarrow>
           admissible_fact (rq_definition n) (build_indexer (rq_definition n)) (rq_authority n) default_model_limits g))"

lemma clean_same:
  "clean_evidence n \<Longrightarrow> f \<in> set (eb_facts (rq_evidence n)) \<Longrightarrow> g \<in> set (eb_facts (rq_evidence n)) \<Longrightarrow>
   fact_key f = fact_key g \<Longrightarrow> ef_sequence f = ef_sequence g \<Longrightarrow> ef_value f = ef_value g"
  unfolding clean_evidence_def by blast

lemma clean_newer:
  "clean_evidence n \<Longrightarrow> f \<in> set (eb_facts (rq_evidence n)) \<Longrightarrow> g \<in> set (eb_facts (rq_evidence n)) \<Longrightarrow>
   fact_key f = fact_key g \<Longrightarrow> ef_sequence g > ef_sequence f \<Longrightarrow>
   admissible_fact (rq_definition n) (build_indexer (rq_definition n)) (rq_authority n) default_model_limits f \<Longrightarrow>
   admissible_fact (rq_definition n) (build_indexer (rq_definition n)) (rq_authority n) default_model_limits g"
  unfolding clean_evidence_def by blast

text \<open>What a fact or a resolved entry writes.\<close>

definition write_value :: "fabric_definition \<Rightarrow> evidence_key \<times> u64 \<Rightarrow> ref_state \<Rightarrow> ref_state" where
  "write_value d kv s = (case subject_index (build_indexer d) (snd (fst kv)) of
       None \<Rightarrow> s | Some i \<Rightarrow> ref_write d (fst (fst kv)) i (snd kv) s)"

lemma ref_domain_eq: "ref_domain k = domain_for_evidence k"
  by (cases k) (simp_all add: ref_domain_def)

lemma write_out_of_domain:
  assumes w: "within_limits d l" and out: "\<not> value_in_domain d (build_indexer d) l f"
    and k: "subj_kind (ef_subject f) = expected_subject_evidence (ef_kind f)"
    and i: "subject_index (build_indexer d) (ef_subject f) = Some i"
  shows "ref_write d (ef_kind f) i (ef_value f) s = s"
proof (cases "ef_kind f = EK_SERVICE_REACHABLE_ENDPOINTS")
  case True
  have ix: "index_of (subj_id (ef_subject f)) (ix_service_ids (build_indexer d)) = Some i"
    using k i True by (cases "ef_subject f") simp
  then have "i < length (df_services d)" using index_of_Some[OF ix] by (simp add: build_indexer_def)
  then have "sv_max (df_services d ! i) \<le> max_service_endpoints l" using w by (simp add: within_limits_def)
  then have "(ucast (sv_max (df_services d ! i)) :: u64) \<le> ucast (max_service_endpoints l)" by (simp add: word_le_nat_alt)
  moreover have "\<not> (ef_value f \<le> ucast (sv_max (df_services d ! i)) \<and> ef_value f \<le> ucast (max_service_endpoints l))"
    using out by (simp add: value_in_domain_def True ix)
  ultimately have "ef_value f > ucast (sv_max (df_services d ! i))" by (meson le_less_trans not_le)
  then show ?thesis by (simp add: ref_write_def True)
next
  case False
  then show ?thesis using out k i
    by (cases "ef_subject f") (cases "ef_kind f", simp_all add: value_in_domain_def ref_write_def not_le)
qed

lemma ref_fact_counted:
  assumes w: "within_limits (rq_definition n) default_model_limits" and clean: "clean_evidence n"
    and f: "f \<in> set (eb_facts (rq_evidence n))"
  shows "ref_fact (rq_definition n) (build_lookup (rq_definition n)) n f s =
    (if counted_fact n f then write_value (rq_definition n) (fact_key f, ef_value f) s else s)"
proof -
  let ?d = "rq_definition n" and ?ix = "build_indexer (rq_definition n)"
  have ix: "indexed ?d" using w by (simp add: within_limits_def)
  let ?others = "filter (\<lambda>g. ef_kind g = ef_kind f \<and> ef_subject g = ef_subject f) (eb_facts (rq_evidence n))"
  have conflict: "list_ex (\<lambda>g. ef_sequence g = ef_sequence f \<and> ef_value g \<noteq> ef_value f) ?others = False"
    using clean_same[OF clean f] by (auto simp: list_ex_iff fact_key_def)
  have newer: "list_ex (\<lambda>g. ef_sequence g > ef_sequence f) ?others \<longleftrightarrow> superseded n f"
    by (auto simp: superseded_def list_ex_iff fact_key_def)
  have rf: "ref_fact ?d (build_lookup ?d) n f s =
      (if valid_evidence_kind (ef_kind f) \<and> subj_kind (ef_subject f) = expected_subject_evidence (ef_kind f) \<and>
          ef_source_domain f = domain_for_evidence (ef_kind f) \<and> ef_label f \<noteq> TL_UNKNOWN \<and> ef_label f \<noteq> TL_UNSUPPORTED \<and>
          (\<exists>b. find_binding (rq_authority n) (ef_source_domain f) = Some b \<and> ef_generation f = ab_granted b) \<and> \<not> superseded n f
       then (case subject_index ?ix (ef_subject f) of None \<Rightarrow> s | Some i \<Rightarrow> ref_write ?d (ef_kind f) i (ef_value f) s) else s)"
    unfolding ref_fact_def Let_def ref_domain_eq lookup_subject_index[OF ix] newer conflict
    by (cases "find_binding (rq_authority n) (domain_for_evidence (ef_kind f))"; cases "subject_index ?ix (ef_subject f)"; cases "ef_label f")
      simp_all
  show ?thesis
  proof (cases "value_in_domain ?d ?ix default_model_limits f")
    case True
    then show ?thesis
      unfolding rf admissible_fact_def write_value_def fact_key_def fst_conv snd_conv
      by (cases "subject_index ?ix (ef_subject f)") simp_all
  next
    case False
    have "\<not> admissible_fact ?d ?ix (rq_authority n) default_model_limits f" using False by (simp add: admissible_fact_def)
    moreover have "ref_fact ?d (build_lookup ?d) n f s = s"
      unfolding rf using write_out_of_domain[OF w False] by (simp split: option.split)
    ultimately show ?thesis by simp
  qed
qed

lemma fold_counted:
  assumes w: "within_limits (rq_definition n) default_model_limits" and clean: "clean_evidence n"
  shows "set fs \<subseteq> set (eb_facts (rq_evidence n)) \<Longrightarrow>
    fold (ref_fact (rq_definition n) (build_lookup (rq_definition n)) n) fs s =
    fold (write_value (rq_definition n)) (map (\<lambda>f. (fact_key f, ef_value f)) (filter (counted_fact n) fs)) s"
proof (induction fs arbitrary: s)
  case (Cons f fs)
  then have f: "f \<in> set (eb_facts (rq_evidence n))" "set fs \<subseteq> set (eb_facts (rq_evidence n))" by simp_all
  show ?case using Cons.IH[OF f(2)] ref_fact_counted[OF w clean f(1), of s] by (simp split: if_splits)
qed simp

section \<open>The planner's table\<close>

lemma entry_writes:
  assumes w: "within_limits d l" and ok: "entry_ok d (build_indexer d) au l facts k r"
  shows "ref_of (materialise_entry (build_indexer d) r s) =
    (if sr_state r = SS_RESOLVED then write_value d (k, sr_value r) (ref_of s) else ref_of s)"
proof (cases "sr_state r = SS_RESOLVED")
  case True
  then obtain f where f: "fact_key f = k" "admissible_fact d (build_indexer d) au l f" "rests_on f r" and k: "(sr_kind r, sr_subject r) = k"
    using ok by (auto simp: entry_ok_def)
  obtain i where i: "subject_index (build_indexer d) (ef_subject f) = Some i" using f(2) by (auto simp: admissible_fact_def)
  have one: "v \<le> 1 \<Longrightarrow> flag (v \<noteq> 0) = (ucast v :: u8)" for v :: u64
  proof -
    assume "v \<le> 1"
    then have "unat v \<le> 1" by (simp add: word_le_nat_alt)
    then have "v = 0 \<or> v = 1" by (simp add: word_unat_eq_iff) linarith
    then show ?thesis by (auto simp: flag_def)
  qed
  have dom: "value_in_domain d (build_indexer d) l f" "subj_kind (ef_subject f) = expected_subject_evidence (ef_kind f)"
    using f(2) by (simp_all add: admissible_fact_def)
  show ?thesis
    using True f(1,3) k i dom
    by (cases "ef_subject f"; cases "ef_kind f")
      (auto simp: materialise_entry_def write_value_def ref_write_def rests_on_def fact_key_def value_in_domain_def
        ref_of_def one not_less split: option.splits)
next
  case False
  then show ?thesis by (simp add: materialise_entry_def)
qed

lemma fold_entries:
  assumes w: "within_limits d l"
  shows "\<forall>e\<in>set table. entry_ok d (build_indexer d) au l facts (fst e) (snd e) \<Longrightarrow>
    ref_of (fold (\<lambda>e. materialise_entry (build_indexer d) (snd e)) table s) =
    fold (write_value d) (map (\<lambda>e. (fst e, sr_value (snd e))) (filter (\<lambda>e. sr_state (snd e) = SS_RESOLVED) table)) (ref_of s)"
proof (induction table arbitrary: s)
  case (Cons e table)
  then show ?case using entry_writes[OF w, of au facts "fst e" "snd e" s] by simp
qed simp

section \<open>The order of writing\<close>

lemma ones_commute: "(xs[i := 1])[j := 1] = (xs[j := 1])[i := (1 :: 'a :: one)]"
  by (cases "i = j") (simp_all add: list_update_swap)

lemma ref_write_commute:
  assumes "k = k' \<Longrightarrow> i \<noteq> j"
  shows "ref_write d k i v (ref_write d k' j v' s) = ref_write d k' j v' (ref_write d k i v s)"
  using assms by (cases k; cases k') (simp_all add: ref_write_def list_update_swap ones_commute)

lemma ref_write_idem: "ref_write d k i v (ref_write d k i v s) = ref_write d k i v s"
  by (cases k) (simp_all add: ref_write_def)

lemma subject_index_inj:
  assumes "subject_index ix a = Some i" "subject_index ix b = Some i" "subj_kind a = subj_kind b"
  shows "a = b"
proof -
  obtain k m where a: "a = Subject k m" by (cases a)
  moreover obtain m' where b: "b = Subject k m'" using assms(3) a by (cases b) simp
  moreover have "m = m'" using assms(1,2) unfolding a b by (cases k) (auto dest!: index_of_Some)
  ultimately show ?thesis by simp
qed

definition proper_key :: "evidence_key \<Rightarrow> bool" where
  "proper_key k \<longleftrightarrow> subj_kind (snd k) = expected_subject_evidence (fst k)"

lemma write_value_commute:
  assumes "proper_key (fst x)" "proper_key (fst y)" "fst x \<noteq> fst y"
  shows "write_value d x (write_value d y s) = write_value d y (write_value d x s)"
proof (cases "subject_index (build_indexer d) (snd (fst x))"; cases "subject_index (build_indexer d) (snd (fst y))")
  fix i j
  assume ij: "subject_index (build_indexer d) (snd (fst x)) = Some i" "subject_index (build_indexer d) (snd (fst y)) = Some j"
  have "i \<noteq> j" if k: "fst (fst x) = fst (fst y)"
  proof
    assume "i = j"
    then have "snd (fst x) = snd (fst y)" using subject_index_inj[OF ij(1)] ij(2) assms(1,2) k by (simp add: proper_key_def)
    with k assms(3) show False by (simp add: prod_eq_iff)
  qed
  then show ?thesis unfolding write_value_def ij option.case by (rule ref_write_commute)
qed (simp_all add: write_value_def)

lemma write_value_idem: "write_value d x (write_value d x s) = write_value d x s"
  by (simp add: write_value_def ref_write_idem split: option.split)

text \<open>Two lists of writes over the same pairs, one value to a key, have the same effect.\<close>

lemma fold_write_set:
  assumes same: "set xs = set ys" and proper: "\<forall>x\<in>set ys. proper_key (fst x)"
    and one: "\<forall>x\<in>set ys. \<forall>y\<in>set ys. fst x = fst y \<longrightarrow> x = y"
  shows "fold (write_value d) xs s = fold (write_value d) ys s"
proof -
  have "comp_fun_idem_on (set ys) (write_value d)"
  proof
    fix x y assume xy: "x \<in> set ys" "y \<in> set ys"
    show "write_value d y \<circ> write_value d x = write_value d x \<circ> write_value d y"
    proof (cases "x = y")
      case False
      with one xy have "fst x \<noteq> fst y" by blast
      with proper xy show ?thesis by (simp add: fun_eq_iff write_value_commute)
    qed simp
  next
    fix x assume "x \<in> set ys"
    show "write_value d x \<circ> write_value d x = write_value d x" by (simp add: fun_eq_iff write_value_idem)
  qed
  from comp_fun_idem_on.fold_set_fold[OF this, of xs s] comp_fun_idem_on.fold_set_fold[OF this, of ys s]
  show ?thesis by (simp add: same)
qed

section \<open>The initial state\<close>

lemma clean_consistent:
  assumes "clean_evidence n"
  shows "consistent_facts (rq_definition n) (build_indexer (rq_definition n)) (rq_authority n) default_model_limits
    (eb_facts (rq_evidence n)) k"
  unfolding consistent_facts_def using clean_same[OF assms] by blast

lemma resolved_counted:
  assumes clean: "clean_evidence n"
    and r: "map_of (reconcile (rq_definition n) (build_indexer (rq_definition n)) (rq_authority n) default_model_limits
      (eb_facts (rq_evidence n))) k = Some r"
    and res: "sr_state r = SS_RESOLVED"
  shows "\<exists>f\<in>set (eb_facts (rq_evidence n)). fact_key f = k \<and> ef_value f = sr_value r \<and> counted_fact n f"
proof -
  let ?ok = "admissible_fact (rq_definition n) (build_indexer (rq_definition n)) (rq_authority n) default_model_limits"
  have "entry_ok (rq_definition n) (build_indexer (rq_definition n)) (rq_authority n) default_model_limits (eb_facts (rq_evidence n)) k r"
    using reconcile_table_ok r unfolding table_ok_def by blast
  then obtain f where f: "f \<in> set (eb_facts (rq_evidence n))" "fact_key f = k" "?ok f" "rests_on f r"
    using res unfolding entry_ok_def by blast
  have "\<not> superseded n f"
  proof
    assume "superseded n f"
    then obtain g where g: "g \<in> set (eb_facts (rq_evidence n))" "fact_key g = fact_key f" "ef_sequence g > ef_sequence f"
      unfolding superseded_def by blast
    then have "?ok g" using clean_newer[OF clean f(1) g(1)] f(3) by simp
    then have "ef_sequence g \<le> sr_sequence r"
      using reconcile_newest[OF clean_consistent[OF clean], of k] g(1,2) f(2) r unfolding newest_entry_def by fastforce
    then show False using g(3) f(4) by (simp add: rests_on_def)
  qed
  then show ?thesis using f by (auto simp: rests_on_def)
qed

lemma counted_resolved:
  assumes clean: "clean_evidence n" and f: "f \<in> set (eb_facts (rq_evidence n))" and c: "counted_fact n f"
  shows "\<exists>r. map_of (reconcile (rq_definition n) (build_indexer (rq_definition n)) (rq_authority n) default_model_limits
      (eb_facts (rq_evidence n))) (fact_key f) = Some r \<and> sr_state r = SS_RESOLVED \<and> sr_value r = ef_value f"
proof -
  obtain r where r: "map_of (reconcile (rq_definition n) (build_indexer (rq_definition n)) (rq_authority n) default_model_limits
      (eb_facts (rq_evidence n))) (fact_key f) = Some r" "sr_state r = SS_RESOLVED" "ef_sequence f \<le> sr_sequence r"
    "ef_sequence f = sr_sequence r \<longrightarrow> ef_value f = sr_value r"
    using reconcile_newest[OF clean_consistent[OF clean], of "fact_key f"] f c unfolding newest_entry_def by blast
  have "entry_ok (rq_definition n) (build_indexer (rq_definition n)) (rq_authority n) default_model_limits
      (eb_facts (rq_evidence n)) (fact_key f) r"
    using reconcile_table_ok r(1) unfolding table_ok_def by blast
  then obtain g where g: "g \<in> set (eb_facts (rq_evidence n))" "fact_key g = fact_key f" "rests_on g r"
    using r(2) unfolding entry_ok_def by blast
  have "\<not> ef_sequence g > ef_sequence f" using c g(1,2) unfolding superseded_def by blast
  then have "ef_sequence f = sr_sequence r" using r(3) g(3) by (simp add: rests_on_def)
  then show ?thesis using r by auto
qed

lemma ref_of_blank: "ref_of (blank_state d) = ref_blank d"
  by (simp add: ref_of_def blank_state_def ref_blank_def)

lemma ref_start_agrees:
  assumes w: "within_limits (rq_definition n) default_model_limits" and clean: "clean_evidence n"
  shows "ref_initial (rq_definition n) (build_lookup (rq_definition n)) n = ref_of (request_initial default_model_limits n)"
proof -
  let ?d = "rq_definition n" and ?ix = "build_indexer (rq_definition n)" and ?fs = "eb_facts (rq_evidence n)"
  let ?t = "reconcile ?d ?ix (rq_authority n) default_model_limits ?fs"
  let ?xs = "map (\<lambda>f. (fact_key f, ef_value f)) (filter (counted_fact n) ?fs)"
  let ?ys = "map (\<lambda>e. (fst e, sr_value (snd e))) (filter (\<lambda>e. sr_state (snd e) = SS_RESOLVED) ?t)"
  have ordered: "sorted_wrt evidence_key_less (map fst ?t)" using reconcile_table_ok unfolding table_ok_def by blast
  then have dist: "distinct (map fst ?t)" by (rule evidence_keys.sorted_wrt_distinct)
  have look: "map_of ?t k = Some r \<longleftrightarrow> (k, r) \<in> set ?t" for k r using dist by simp
  have same: "set ?ys = set ?xs"
  proof (intro equalityI subsetI)
    fix y assume "y \<in> set ?ys"
    then obtain k r where y: "(k, r) \<in> set ?t" "sr_state r = SS_RESOLVED" "y = (k, sr_value r)" by auto
    from resolved_counted[OF clean _ y(2), of k] y(1) look obtain f where
      "f \<in> set ?fs" "fact_key f = k" "ef_value f = sr_value r" "counted_fact n f" by blast
    then show "y \<in> set ?xs" by (auto simp: y(3) image_iff intro!: bexI[of _ f])
  next
    fix y assume "y \<in> set ?xs"
    then obtain f where f: "f \<in> set ?fs" "counted_fact n f" "y = (fact_key f, ef_value f)" by auto
    from counted_resolved[OF clean f(1,2)] look obtain r where
      "(fact_key f, r) \<in> set ?t" "sr_state r = SS_RESOLVED" "sr_value r = ef_value f" by blast
    then show "y \<in> set ?ys" unfolding f(3) set_map set_filter by (intro image_eqI[of _ _ "(fact_key f, r)"]) simp_all
  qed
  have proper: "\<forall>x\<in>set ?xs. proper_key (fst x)" by (auto simp: proper_key_def fact_key_def admissible_fact_def)
  have one: "\<forall>x\<in>set ?xs. \<forall>y\<in>set ?xs. fst x = fst y \<longrightarrow> x = y"
  proof (intro ballI impI)
    fix x y assume "x \<in> set ?xs" "y \<in> set ?xs" and eq: "fst x = fst y"
    then have "x \<in> set ?ys" "y \<in> set ?ys" unfolding same by blast+
    then obtain r r' where "(fst x, r) \<in> set ?t" "(fst y, r') \<in> set ?t" "snd x = sr_value r" "snd y = sr_value r'" by auto
    then show "x = y" using look eq by (metis option.inject prod_eq_iff)
  qed
  have "ref_initial ?d (build_lookup ?d) n = fold (write_value ?d) ?xs (ref_blank ?d)"
    unfolding ref_initial_def by (rule fold_counted[OF w clean subset_refl])
  moreover have "ref_of (request_initial default_model_limits n) = fold (write_value ?d) ?ys (ref_blank ?d)"
    unfolding request_initial_def request_env_def Let_def search_env.simps materialise_state_def ref_of_blank[symmetric]
    by (rule fold_entries[OF w]) (use reconcile_table_ok look in \<open>force simp: table_ok_def\<close>)
  ultimately show ?thesis using fold_write_set[OF same proper one] by simp
qed

end
