(* ===== verification/NRP_Reference_Correct.thy ===== *)
theory NRP_Reference_Correct
  imports NRP_Reference_Start
begin

text \<open>
  The reference solver against the planner: a sequence is valid for the solver exactly when it is an
  admissible sequence of actions that reaches the goals, with the same objective; its enumeration covers
  every such sequence; so a completed enumeration and a search of the planner agree.
\<close>

section \<open>The solver's variables and the planner's configuration\<close>

definition small_costs :: "fabric_definition \<Rightarrow> bool" where
  "small_costs d \<longleftrightarrow> list_all (\<lambda>a. ac_cost_units a < 2 ^ 50 \<and> ac_duration_ticks a < 2 ^ 50) (df_actions d)"

definition ref_in_step :: "plan_request \<Rightarrow> ref_run \<Rightarrow> config \<Rightarrow> bool" where
  "ref_in_step n x c \<longleftrightarrow> rr_state x = ref_of (fst c) \<and> rr_floor x = floor_gap (rq_definition n) (fst c) \<and>
     rr_completeness x = incompleteness (rq_definition n) (fst c) \<and>
     length (rr_holds x) = length (df_resources (rq_definition n)) \<and> positions_below (rr_position x) (rr_holds x) \<and>
     mset (snd c) = mset (history_holds (rq_definition n) (of_nat (rr_position x)) (history_of (rr_holds x))) \<and>
     holds_within_capacity (rq_definition n) (snd c) \<and> config_wf (env_default n) c \<and>
     rr_position x = config_depth (env_default n) c \<and> unat (fs_tick (fst c)) \<le> rr_position x * 2 ^ 50"

lemma ref_position_small:
  assumes "accountable n" "ref_in_step n x c"
  shows "rr_position x \<le> 8192"
  using config_depth_le[of "env_default n" c] assms sound_total[of "rq_definition n"]
  by (simp add: ref_in_step_def accountable_def)

lemma use_ref:
  assumes acc: "accountable n" and rel: "ref_in_step n x c" and a: "a \<in> set (df_actions (rq_definition n))"
    and u: "u \<in> set (ac_resource_uses a)"
  shows "ref_use_ok (rq_definition n) (build_lookup (rq_definition n)) (rr_state x) (rr_holds x) (rr_position x) u \<longleftrightarrow>
    check_resource_use (env_default n) (fst c) (snd c) (u, use_index (rq_definition n) u) = None"
proof -
  let ?d = "rq_definition n" and ?i = "use_index (rq_definition n) u" and ?pos = "rr_position x"
  have sd: "sound_definition ?d" using acc by (simp add: accountable_def)
  note ix = use_indexed[OF sd a u]
  have look: "map_of (lu_resource (build_lookup ?d)) (ru_resource u) = Some ?i"
    using ix(1) by (simp add: build_lookup_index(4)[OF sound_definitionD(1)[OF sd]])
  have pos: "?pos < 2 ^ 32" using ref_position_small[OF acc rel] by simp
  have len: "length (rr_holds x) = length (df_resources ?d)" and below: "positions_below ?pos (rr_holds x)"
    using rel unfolding ref_in_step_def by blast+
  have hs: "\<forall>h\<in>set (rr_holds x ! ?i). fst h < ?pos" using below nth_mem[of ?i "rr_holds x"] ix(2) unfolding positions_below_def len by blast
  have hist: "history_of (rr_holds x) ! ?i = map (\<lambda>(p, u). (of_nat p, u)) (rr_holds x ! ?i)"
    using ix(2) len by (simp add: history_of_def)
  have "rs_capacity (df_resources ?d ! ?i) < 2 ^ 31" using accountableD(2)[OF acc nth_mem[OF ix(2)]] .
  then have "overlapping_units (df_resources ?d ! ?i) (of_nat ?pos) (history_of (rr_holds x) ! ?i) (ru_units u) >
      rs_capacity (df_resources ?d ! ?i) \<longleftrightarrow> held_units (snd c) ?i + ucast (ru_units u) > ucast (rs_capacity (df_resources ?d ! ?i))"
    using rel sound_definitionD(2)[OF sd] ix(2,3) history_of_ok[OF below len pos]
    by (intro reusable_test) (simp_all add: ref_in_step_def)
  then have "ref_overlap (df_resources ?d ! ?i) ?pos (rr_holds x ! ?i) (ru_units u) > rs_capacity (df_resources ?d ! ?i) \<longleftrightarrow>
      held_units (snd c) ?i + ucast (ru_units u) > ucast (rs_capacity (df_resources ?d ! ?i))"
    unfolding overlap_ref[OF hs pos] hist .
  moreover have "rr_state x = ref_of (fst c)" using rel by (simp add: ref_in_step_def)
  ultimately show ?thesis by (auto simp: ref_use_ok_def look check_resource_use_def Let_def)
qed

lemma admits_ref:
  assumes acc: "accountable n" and rel: "ref_in_step n x c" and i: "i < length (df_actions (rq_definition n))"
  defines "a \<equiv> df_actions (rq_definition n) ! i"
  shows "ref_admits n (build_lookup (rq_definition n)) i x \<longleftrightarrow>
    check_occurrence (env_default n) (fst c) i = None \<and> check_dependencies (env_default n) (fst c) i = None \<and>
    check_exclusion (env_default n) (fst c) i = None \<and> (\<exists>bs. scan_preconditions (env_default n) (fst c) (ac_preconditions a) [] = Inr bs) \<and>
    (ac_reversibility a = RV_IRREVERSIBLE \<longrightarrow> allow_irreversible_actions (rq_policy n)) \<and>
    (\<forall>ur\<in>set (uses_at (env_default n) i). check_resource_use (env_default n) (fst c) (snd c) ur = None)"
proof -
  let ?d = "rq_definition n" and ?lk = "build_lookup (rq_definition n)" and ?s = "fst c"
  have sd: "sound_definition ?d" using acc by (simp add: accountable_def)
  have st: "rr_state x = ref_of ?s" using rel by (simp add: ref_in_step_def)
  have uses: "list_all (ref_use_ok ?d ?lk (ref_of ?s) (rr_holds x) (rr_position x)) (ac_resource_uses a) \<longleftrightarrow>
      (\<forall>ur\<in>set (uses_at (env_default n) i). check_resource_use (env_default n) ?s (snd c) ur = None)"
    using use_ref[OF acc rel nth_mem[OF i]]
    by (auto simp: uses_at_indexed[OF sd i] list_all_iff st a_def)
  have occ: "\<not> rf_occurrences (ref_of ?s) ! i \<ge> ac_max_occurrences a \<longleftrightarrow> check_occurrence (env_default n) ?s i = None"
    by (simp add: check_occurrence_def a_def)
  have pre: "list_all (ref_precondition ?lk (ref_of ?s)) (ac_preconditions a) \<longleftrightarrow>
      (\<exists>bs. scan_preconditions (env_default n) ?s (ac_preconditions a) [] = Inr bs)"
    by (simp add: scan_preconditions_Inr list_all_iff precondition_ref[OF sound_definitionD(1)[OF sd]])
  show ?thesis
    using uses occ pre dependencies_ref[OF sd i, of ?s] exclusion_ref[OF sd i, of ?s]
    unfolding ref_admits_def Let_def st a_def ref_of_simps by argo
qed

section \<open>Steps\<close>

lemma ref_of_occurrences: "(ref_of s)\<lparr>rf_occurrences := xs\<rparr> = ref_of (s\<lparr>action_occurrences := xs\<rparr>)"
  by (simp add: ref_of_def)

lemma account_ref:
  assumes "objective_add obj (step_delta a before now) = Some acc"
  shows "ref_account a before now obj = acc"
proof -
  have sums: "unat (component acc ! i) = unat (component obj ! i) + unat (component (step_delta a before now) ! i)"
    if "i < 8" for i using assms(1) that by (simp add: objective_add_Some)
  have plus: "u + w = c" if "unat c = unat u + unat w" for c u w :: u64
    using that unsigned_less[of c, where ?'a = nat] by (simp add: word_unat_eq_iff unat_add_no_wrap)
  show ?thesis
    using sums[of 0] sums[of 1] sums[of 2] sums[of 3] sums[of 4] sums[of 5] sums[of 6] sums[of 7]
    by (cases acc; cases obj)
      (auto simp: ref_account_def step_delta_def component_def word_unat_eq_iff[symmetric] intro: plus split: if_splits)
qed

definition ref_successor :: "plan_request \<Rightarrow> ref_run \<Rightarrow> config \<Rightarrow> nat \<Rightarrow> ref_run option" where
  "ref_successor n x c i = (case apply_effects (env_default n) (ac_effects (df_actions (rq_definition n) ! i)) (fst c) of
       Inl _ \<Rightarrow> None
     | Inr s1 \<Rightarrow> let s2 = fold (consume (env_default n)) (uses_at (env_default n) i) s1 in
         if floor_gap (rq_definition n) s2 > floor_gap (rq_definition n) (fst c) then None
         else Some \<lparr>rr_state = ref_of (s2\<lparr>action_occurrences := (action_occurrences s2)[i := action_occurrences s2 ! i + 1]\<rparr>),
           rr_holds = snd (the (ref_take (rq_definition n) (build_lookup (rq_definition n)) (rr_position x)
             (ac_resource_uses (df_actions (rq_definition n) ! i)) (ref_of s1) (rr_holds x))),
           rr_floor = floor_gap (rq_definition n) s2, rr_completeness = incompleteness (rq_definition n) s2,
           rr_objective = ref_account (df_actions (rq_definition n) ! i) (incompleteness (rq_definition n) (fst c))
             (incompleteness (rq_definition n) s2) (rr_objective x),
           rr_position = rr_position x + 1\<rparr>)"

lemma positions_below_mono: "positions_below p hs \<Longrightarrow> p \<le> q \<Longrightarrow> positions_below q hs"
  by (fastforce simp: positions_below_def)

lemma ref_step_successor:
  assumes acc: "accountable n" and rel: "ref_in_step n x c" and i: "i < length (df_actions (rq_definition n))"
  shows "ref_step n (build_lookup (rq_definition n)) (ac_id (df_actions (rq_definition n) ! i)) x =
    (if ref_admits n (build_lookup (rq_definition n)) i x then ref_successor n x c i else None)"
proof -
  let ?d = "rq_definition n" and ?lk = "build_lookup (rq_definition n)" and ?e = "env_default n"
  let ?a = "df_actions ?d ! i"
  have sd: "sound_definition ?d" using acc by (simp add: accountable_def)
  note ixd = sound_definitionD(1)[OF sd]
  have st: "rr_state x = ref_of (fst c)" using rel by (simp add: ref_in_step_def)
  have "index_of (ac_id ?a) (map ac_id (df_actions ?d)) = Some i"
    using index_of_nth[of "map ac_id (df_actions ?d)" i] ixd i by (simp add: indexed_def)
  then have look: "map_of (lu_action ?lk) (ac_id ?a) = Some i"
    by (simp add: build_lookup_index(5)[OF ixd] build_indexer_def)
  have eff: "ref_effects ?d ?lk (ac_effects ?a) (rr_state x) =
      (case apply_effects ?e (ac_effects ?a) (fst c) of Inl _ \<Rightarrow> None | Inr s' \<Rightarrow> Some (ref_of s'))"
    unfolding st by (rule effects_ref[OF ixd]) simp_all
  have pairs: "uses_at ?e i = use_pairs ?d (ac_resource_uses ?a)" by (simp add: uses_at_indexed[OF sd i] use_pairs_def)
  have hs: "length (rr_holds x) = length (df_resources ?d)" "positions_below (Suc (rr_position x)) (rr_holds x)"
    using rel positions_below_mono by (auto simp: ref_in_step_def)
  have take: "\<exists>holds. ref_take ?d ?lk (rr_position x) (ac_resource_uses ?a) (ref_of s1) (rr_holds x) =
      Some (ref_of (fold (consume ?e) (uses_at ?e i) s1), holds)" for s1
    using take_ref[OF sd nth_mem[OF i] subset_refl hs, of s1] unfolding pairs by blast
  have fc: "rr_floor x = floor_gap ?d (fst c)" "rr_completeness x = incompleteness ?d (fst c)" using rel by (simp_all add: ref_in_step_def)
  show ?thesis
  proof (cases "apply_effects ?e (ac_effects ?a) (fst c)")
    case (Inl b)
    then show ?thesis by (simp add: ref_step_def look eff ref_successor_def)
  next
    case (Inr s1)
    obtain holds where t: "ref_take ?d ?lk (rr_position x) (ac_resource_uses ?a) (ref_of s1) (rr_holds x) =
      Some (ref_of (fold (consume ?e) (uses_at ?e i) s1), holds)" using take by blast
    show ?thesis using Inr t
      by (simp add: ref_step_def look eff ref_successor_def shortfall_ref fc Let_def ref_of_occurrences)
  qed
qed

definition comparable_definition :: "plan_request \<Rightarrow> bool" where
  "comparable_definition n \<longleftrightarrow> accountable n \<and> small_costs (rq_definition n)"

text \<open>A step the planner admits is one the solver makes, to the same state and with the same cost.\<close>

lemma ref_step_admitted:
  assumes cmp: "comparable_definition n" and rel: "ref_in_step n x c" and i: "i < length (df_actions (rq_definition n))"
    and t: "apply_action (env_default n) (config_node (env_default n) c) i = Inr t"
  shows "\<exists>x'. ref_step n (build_lookup (rq_definition n)) (ac_id (df_actions (rq_definition n) ! i)) x = Some x' \<and>
    ref_in_step n x' (tr_state t, tr_holds t) \<and> (\<forall>z. objective_add (rr_objective x) (tr_delta t) = Some z \<longrightarrow> rr_objective x' = z)"
proof -
  let ?d = "rq_definition n" and ?e = "env_default n" and ?lk = "build_lookup (rq_definition n)"
  let ?a = "df_actions ?d ! i" and ?pos = "rr_position x"
  have acc: "accountable n" using cmp by (simp add: comparable_definition_def)
  have sd: "sound_definition ?d" using acc by (simp add: accountable_def)
  obtain bindings s1 where ad: "check_occurrence ?e (fst c) i = None" "check_dependencies ?e (fst c) i = None"
    "check_exclusion ?e (fst c) i = None" "scan_preconditions ?e (fst c) (ac_preconditions ?a) [] = Inr bindings"
    "\<forall>ur\<in>set (uses_at ?e i). check_resource_use ?e (fst c) (snd c) ur = None"
    and s1: "apply_effects ?e (ac_effects ?a) (fst c) = Inr s1"
    and fin: "finish_step ?e (config_node ?e c) i (remdups_adj (sort_by evidence_binding_less bindings))
       (fold (consume ?e) (uses_at ?e i) s1) = Inr t"
    using apply_action_cases[OF t] by (auto simp: config_node_def)
  define s2 where "s2 = fold (consume ?e) (uses_at ?e i) s1"
  obtain tick where f: "floor_gap ?d s2 \<le> floor_gap ?d (fst c)"
    "ac_reversibility ?a = RV_IRREVERSIBLE \<longrightarrow> allow_irreversible_actions (rq_policy n)"
    "add_overflow (fs_tick s2) (ac_duration_ticks ?a) = Some tick"
    "tr_state t = s2\<lparr>action_occurrences := (action_occurrences s2)[i := action_occurrences (fst c) ! i + 1], fs_tick := tick\<rparr>"
    "tr_holds t = next_holds ?e i (snd c)"
    "tr_delta t = step_delta ?a (incompleteness ?d (fst c)) (incompleteness ?d (tr_state t))"
    using finish_step_cases[OF fin] by (auto simp: config_node_def s2_def)
  have stage: "stage_ok ?d (fst c) s2"
    using apply_effects_stage[OF s1] consume_all_stage[of ?d s1 ?e "uses_at ?e i"] by (auto simp: s2_def intro: stage_ok_trans)
  have occ: "action_occurrences s2 = action_occurrences (fst c)" and clock: "fs_tick s2 = fs_tick (fst c)"
    using stage by (simp_all add: stage_ok_def)
  have gap: "floor_gap ?d (tr_state t) = floor_gap ?d s2" "incompleteness ?d (tr_state t) = incompleteness ?d s2"
    by (simp_all add: f(4))
  have hs: "length (rr_holds x) = length (df_resources ?d)" "positions_below (Suc ?pos) (rr_holds x)"
    using rel positions_below_mono unfolding ref_in_step_def by auto
  have pairs: "uses_at ?e i = use_pairs ?d (ac_resource_uses ?a)" by (simp add: uses_at_indexed[OF sd i] use_pairs_def)
  obtain holds where tk: "ref_take ?d ?lk ?pos (ac_resource_uses ?a) (ref_of s1) (rr_holds x) = Some (ref_of s2, holds)"
    "length holds = length (df_resources ?d)" "positions_below (Suc ?pos) holds"
    "mset (history_holds ?d (of_nat ?pos + 1) (history_of holds)) =
      mset (history_holds ?d (of_nat ?pos + 1) (history_of (rr_holds x))) + mset (taken_holds ?d (ac_resource_uses ?a))"
    using take_ref[OF sd nth_mem[OF i] subset_refl hs, of s1] unfolding s2_def pairs by blast
  have "ref_admits n ?lk i x" unfolding admits_ref[OF acc rel i] using ad f(2) by blast
  then have step: "ref_step n ?lk (ac_id ?a) x = ref_successor n x c i" by (simp add: ref_step_successor[OF acc rel i])
  let ?x = "\<lparr>rr_state = ref_of (tr_state t), rr_holds = holds, rr_floor = floor_gap ?d s2, rr_completeness = incompleteness ?d s2,
    rr_objective = ref_account ?a (incompleteness ?d (fst c)) (incompleteness ?d s2) (rr_objective x), rr_position = ?pos + 1\<rparr>"
  have "ref_of (s2\<lparr>action_occurrences := (action_occurrences s2)[i := action_occurrences s2 ! i + 1]\<rparr>) = ref_of (tr_state t)"
    by (simp add: f(4) occ ref_of_def)
  then have succ: "ref_successor n x c i = Some ?x"
    using f(1) tk(1) by (simp add: ref_successor_def s1 s2_def[symmetric] Let_def not_less)
  have wf: "config_wf ?e c" "i < action_count_of ?e" using rel i by (simp_all add: ref_in_step_def action_count_of_def)
  have cs: "config_step ?e c i = Some ((tr_state t, tr_holds t), tr_delta t)" using t by (simp add: config_step_def)
  have below: "positions_below ?pos (rr_holds x)" using rel unfolding ref_in_step_def by blast
  have small: "?pos < 2 ^ 31" using ref_position_small[OF acc rel] by simp
  have "mset (decay_holds (snd c)) = mset (decay_holds (history_holds ?d (of_nat ?pos) (history_of (rr_holds x))))"
    using rel unfolding ref_in_step_def by (intro decay_mset) blast
  also have "\<dots> = mset (history_holds ?d (of_nat ?pos + 1) (history_of (rr_holds x)))"
    by (rule arg_cong[of _ _ mset], rule decay_history[OF history_of_ok[OF below hs(1)]]) (use small in \<open>simp_all add: unat_of_nat\<close>)
  finally have "mset (tr_holds t) = mset (history_holds ?d (of_nat ?pos + 1) (history_of holds))"
    by (simp add: f(5) next_holds_def tk(4) new_holds_taken[OF sd i])
  then have holds: "mset (tr_holds t) = mset (history_holds ?d (of_nat (?pos + 1)) (history_of holds))"
    by (simp add: add.commute)
  have "holds_within_capacity ?d (tr_holds t)"
    using step_holds_within_capacity[OF t] rel distinct_use_pairs[OF sd nth_mem[OF i] accountableD(3)[OF acc nth_mem[OF i]]]
      use_indexed(2)[OF sd nth_mem[OF i]] sound_definitionD(2)[OF sd]
    by (fastforce simp: ref_in_step_def config_node_def pairs use_pairs_def)
  moreover have "config_wf ?e (tr_state t, tr_holds t)" "config_depth ?e (tr_state t, tr_holds t) = Suc (config_depth ?e c)"
    by (rule plan_space.step_wf[OF wf cs], rule plan_space.step_depth[OF wf cs])
  moreover have "unat (fs_tick (tr_state t)) \<le> (?pos + 1) * 2 ^ 50"
  proof -
    have "unat (ac_duration_ticks ?a) \<le> 2 ^ 50"
      using cmp nth_mem[OF i] by (auto simp: comparable_definition_def small_costs_def list_all_iff word_less_nat_alt)
    moreover have "unat (fs_tick (fst c)) \<le> ?pos * 2 ^ 50" using rel by (simp add: ref_in_step_def)
    moreover have "unat tick = unat (fs_tick (fst c)) + unat (ac_duration_ticks ?a)" using f(3) clock by (simp add: add_overflow_Some_iff)
    ultimately show ?thesis by (simp add: f(4))
  qed
  moreover have "?pos = config_depth ?e c" using rel by (simp add: ref_in_step_def)
  ultimately have "ref_in_step n ?x (tr_state t, tr_holds t)"
    using holds tk(2,3) by (simp add: ref_in_step_def gap)
  moreover have "\<forall>z. objective_add (rr_objective x) (tr_delta t) = Some z \<longrightarrow> rr_objective ?x = z"
    using account_ref[of "rr_objective x" ?a "incompleteness ?d (fst c)" "incompleteness ?d s2"] by (simp add: f(6) gap)
  ultimately show ?thesis using step succ by auto
qed

text \<open>And the solver makes no other step.\<close>

lemma ref_step_refused:
  assumes cmp: "comparable_definition n" and rel: "ref_in_step n x c" and i: "i < length (df_actions (rq_definition n))"
    and blocked: "apply_action (env_default n) (config_node (env_default n) c) i = Inl b"
  shows "ref_step n (build_lookup (rq_definition n)) (ac_id (df_actions (rq_definition n) ! i)) x = None"
proof (rule ccontr)
  let ?d = "rq_definition n" and ?e = "env_default n" and ?lk = "build_lookup (rq_definition n)"
  let ?a = "df_actions ?d ! i"
  have acc: "accountable n" using cmp by (simp add: comparable_definition_def)
  assume "ref_step n ?lk (ac_id ?a) x \<noteq> None"
  then have ad: "ref_admits n ?lk i x" and suc: "ref_successor n x c i \<noteq> None"
    unfolding ref_step_successor[OF acc rel i] by (simp_all split: if_splits)
  obtain s1 where s1: "apply_effects ?e (ac_effects ?a) (fst c) = Inr s1"
    using suc by (cases "apply_effects ?e (ac_effects ?a) (fst c)") (simp_all add: ref_successor_def)
  define s2 where "s2 = fold (consume ?e) (uses_at ?e i) s1"
  have floor: "floor_gap ?d s2 \<le> floor_gap ?d (fst c)"
    using suc by (simp add: ref_successor_def s1 Let_def s2_def not_less split: if_splits)
  have stage: "stage_ok ?d (fst c) s2"
    using apply_effects_stage[OF s1] consume_all_stage[of ?d s1 ?e "uses_at ?e i"] by (auto simp: s2_def intro: stage_ok_trans)
  then have clock: "fs_tick s2 = fs_tick (fst c)" by (simp add: stage_ok_def)
  have "unat (fs_tick (fst c)) \<le> rr_position x * 2 ^ 50" using rel unfolding ref_in_step_def by blast
  moreover have "rr_position x * 2 ^ 50 \<le> 8192 * 2 ^ 50" using ref_position_small[OF acc rel] by (rule mult_le_mono1)
  moreover have "unat (ac_duration_ticks ?a) < 2 ^ 50"
    using cmp nth_mem[OF i] by (auto simp: comparable_definition_def small_costs_def list_all_iff word_less_nat_alt)
  ultimately obtain tick where tick: "add_overflow (fs_tick s2) (ac_duration_ticks ?a) = Some tick"
    by (cases "add_overflow (fs_tick s2) (ac_duration_ticks ?a)") (auto simp: add_overflow_None_iff clock)
  obtain bs where "check_occurrence ?e (fst c) i = None" "check_dependencies ?e (fst c) i = None"
    "check_exclusion ?e (fst c) i = None" "scan_preconditions ?e (fst c) (ac_preconditions ?a) [] = Inr bs"
    "\<forall>ur\<in>set (uses_at ?e i). check_resource_use ?e (fst c) (snd c) ur = None"
    "ac_reversibility ?a = RV_IRREVERSIBLE \<longrightarrow> allow_irreversible_actions (rq_policy n)"
    using ad unfolding admits_ref[OF acc rel i] by blast
  then have "\<exists>t. apply_action ?e (config_node ?e c) i = Inr t"
    using apply_actionI[of ?e "config_node ?e c" i bs s1 s2 tick] s1 floor tick by (auto simp: config_node_def s2_def)
  with blocked show False by simp
qed

end
