(* ===== verification/NRP_Reference_Paths.thy ===== *)
theory NRP_Reference_Paths
  imports NRP_Reference_Correct
begin

text \<open>
  Whole sequences: the evaluation of the reference solver accepts exactly the sequences that solve the
  request for the planner, and gives them the planner's objective. The evaluation normalises its request
  once more, which changes nothing.
\<close>

section \<open>Sequences\<close>

lemma ref_steps_follow:
  assumes cmp: "comparable_definition n"
  shows "ref_in_step n x c \<Longrightarrow> \<forall>i\<in>set path. i < length (df_actions (rq_definition n)) \<Longrightarrow>
    run_path (config_step (env_default n)) c path = Some c' \<Longrightarrow>
    \<exists>x'. ref_steps n (build_lookup (rq_definition n)) (map (action_id_at (env_default n)) path) x = Some x' \<and> ref_in_step n x' c' \<and>
      (\<forall>l l'. fst l = rr_objective x \<longrightarrow>
        score_path (config_step (env_default n)) (action_id_at (env_default n)) c l path = Some l' \<longrightarrow> fst l' = rr_objective x')"
proof (induction path arbitrary: x c)
  case (Cons i path)
  have i: "i < length (df_actions (rq_definition n))" using Cons.prems(2) by simp
  obtain t where t: "apply_action (env_default n) (config_node (env_default n) c) i = Inr t"
    and run: "run_path (config_step (env_default n)) (tr_state t, tr_holds t) path = Some c'"
    using Cons.prems(3) by (cases "apply_action (env_default n) (config_node (env_default n) c) i")
      (simp_all add: config_step_def[of _ c i])
  obtain x1 where x1: "ref_step n (build_lookup (rq_definition n)) (ac_id (df_actions (rq_definition n) ! i)) x = Some x1"
    "ref_in_step n x1 (tr_state t, tr_holds t)" "\<And>z. objective_add (rr_objective x) (tr_delta t) = Some z \<Longrightarrow> rr_objective x1 = z"
    using ref_step_admitted[OF cmp Cons.prems(1) i t] by blast
  obtain x' where x': "ref_steps n (build_lookup (rq_definition n)) (map (action_id_at (env_default n)) path) x1 = Some x'"
    "ref_in_step n x' c'"
    "\<And>l l'. fst l = rr_objective x1 \<Longrightarrow>
      score_path (config_step (env_default n)) (action_id_at (env_default n)) (tr_state t, tr_holds t) l path = Some l' \<Longrightarrow> fst l' = rr_objective x'"
    using Cons.IH[OF x1(2) _ run] Cons.prems(2) unfolding set_simps ball_simps by blast
  have "fst l' = rr_objective x'" if l: "fst l = rr_objective x"
    "score_path (config_step (env_default n)) (action_id_at (env_default n)) c l (i # path) = Some l'" for l l'
  proof -
    have "config_step (env_default n) c i = Some ((tr_state t, tr_holds t), tr_delta t)" using t by (simp add: config_step_def)
    then obtain l1 where l1: "score_extend (tr_delta t) (action_id_at (env_default n) i) l = Some l1"
      "score_path (config_step (env_default n)) (action_id_at (env_default n)) (tr_state t, tr_holds t) l1 path = Some l'"
      using l(2) by (auto split: option.splits)
    then have "fst l1 = rr_objective x1" using x1(3) l(1) by (auto simp: score_extend_def split: option.splits)
    then show ?thesis using x'(3) l1(2) by blast
  qed
  moreover have "ref_steps n (build_lookup (rq_definition n)) (map (action_id_at (env_default n)) (i # path)) x = Some x'"
    using x1(1) x'(1) by (simp add: action_id_at_def)
  ultimately show ?case using x'(2) by blast
qed simp

lemma ref_steps_path:
  assumes cmp: "comparable_definition n"
  shows "ref_in_step n x c \<Longrightarrow> ref_steps n (build_lookup (rq_definition n)) aids x = Some x' \<Longrightarrow>
    \<exists>path c'. (\<forall>i\<in>set path. i < length (df_actions (rq_definition n))) \<and> map (action_id_at (env_default n)) path = aids \<and>
      run_path (config_step (env_default n)) c path = Some c'"
proof (induction aids arbitrary: x c)
  case (Cons aid aids)
  have ixd: "indexed (rq_definition n)"
    using cmp sound_definitionD(1) by (simp add: comparable_definition_def accountable_def)
  obtain x1 where x1: "ref_step n (build_lookup (rq_definition n)) aid x = Some x1"
    "ref_steps n (build_lookup (rq_definition n)) aids x1 = Some x'" using Cons.prems(2) by (auto split: option.splits)
  then obtain i where "map_of (lu_action (build_lookup (rq_definition n))) aid = Some i"
    by (cases "map_of (lu_action (build_lookup (rq_definition n))) aid") (simp_all add: ref_step_def)
  then have i: "i < length (df_actions (rq_definition n))" "ac_id (df_actions (rq_definition n) ! i) = aid"
    using index_of_Some[of aid "map ac_id (df_actions (rq_definition n))" i]
    by (auto simp: build_lookup_index(5)[OF ixd] build_indexer_def)
  obtain t where t: "apply_action (env_default n) (config_node (env_default n) c) i = Inr t"
    using ref_step_refused[OF cmp Cons.prems(1) i(1)] x1(1) i(2)
    by (cases "apply_action (env_default n) (config_node (env_default n) c) i") auto
  then have "ref_in_step n x1 (tr_state t, tr_holds t)" using ref_step_admitted[OF cmp Cons.prems(1) i(1) t] x1(1) i(2) by auto
  from Cons.IH[OF this x1(2)] obtain path c' where p: "\<forall>i\<in>set path. i < length (df_actions (rq_definition n))"
    "map (action_id_at (env_default n)) path = aids"
    "run_path (config_step (env_default n)) (tr_state t, tr_holds t) path = Some c'" by blast
  have "config_step (env_default n) c i = Some ((tr_state t, tr_holds t), tr_delta t)" using t by (simp add: config_step_def)
  then have "run_path (config_step (env_default n)) c (i # path) = Some c'" using p(3) by simp
  moreover have "map (action_id_at (env_default n)) (i # path) = aid # aids" using p(2) i(2) by (simp add: action_id_at_def)
  ultimately show ?case using p(1) i(1) by (intro exI[of _ "i # path"] exI[of _ c']) simp
qed simp

section \<open>Normal requests\<close>

lemma sort_by_map_key:
  assumes "\<And>x y. lt (f x) (f y) = lt x y"
  shows "sort_by lt (map f xs) = map f (sort_by lt xs)"
proof -
  have ins: "insert_by lt (f x) (map f ys) = map f (insert_by lt x ys)" for x ys by (induction ys) (simp_all add: assms)
  show ?thesis by (induction xs) (simp_all add: ins)
qed

lemma canonicalise_action_idem: "canonicalise_action (canonicalise_action a) = canonicalise_action a"
  by (simp add: canonicalise_action_def precond.sort_by_idem[OF precond.sorted_by_sort_by]
      effects.sort_by_idem[OF effects.sorted_by_sort_by] uses.sort_by_idem[OF uses.sorted_by_sort_by]
      dependency.sort_by_idem[OF dependency.sorted_by_sort_by] ident.sort_by_idem[OF ident.sorted_by_sort_by])

lemma canonicalise_definition_idem: "canonicalise_definition (canonicalise_definition d) = canonicalise_definition d"
proof -
  have "sort_by action_less (map canonicalise_action xs) = map canonicalise_action (sort_by action_less xs)" for xs
    by (rule sort_by_map_key) (simp add: action_less_def canonicalise_action_def)
  then show ?thesis
    by (simp add: canonicalise_definition_def comp_def canonicalise_action_idem node.sort_by_idem[OF node.sorted_by_sort_by]
        link.sort_by_idem[OF link.sorted_by_sort_by] service.sort_by_idem[OF service.sorted_by_sort_by]
        resource.sort_by_idem[OF resource.sorted_by_sort_by] action.sort_by_idem[OF action.sorted_by_sort_by]
        goal.sort_by_idem[OF goal.sorted_by_sort_by] group.sort_by_idem[OF group.sorted_by_sort_by])
qed

lemma ref_normal_idem: "ref_normal (ref_normal r) = ref_normal r"
  by (simp add: ref_normal_def canonicalise_definition_idem canonicalise_evidence_def canonicalise_authority_def
      facts.sort_by_idem[OF facts.sorted_by_sort_by] binding.sort_by_idem[OF binding.sorted_by_sort_by])

lemma ref_normal_simps:
  "rq_definition (ref_normal r) = rq_definition (normalise_request r)"
  "rq_evidence (ref_normal r) = rq_evidence (normalise_request r)"
  "rq_authority (ref_normal r) = rq_authority (normalise_request r)"
  "rq_policy (ref_normal r) = rq_policy (normalise_request r)"
  by (simp_all add: ref_normal_def normalise_request_def)

text \<open>What the evaluation and the planner's search look at is the same in both forms.\<close>

lemma ref_normal_env:
  "request_env l (ref_normal r) = request_env l (normalise_request r)"
  "request_initial l (ref_normal r) = request_initial l (normalise_request r)"
  by (simp_all add: request_env_def request_initial_def ref_normal_simps)

section \<open>Requests both solvers read the same way\<close>

definition comparable :: "plan_request \<Rightarrow> bool" where
  "comparable n \<longleftrightarrow> plain_resources (rq_definition n) \<and> small_costs (rq_definition n) \<and> clean_evidence n"

definition ready_request :: "plan_request \<Rightarrow> bool" where
  "ready_request n \<longleftrightarrow> comparable_definition n \<and> clean_evidence n \<and> within_limits (rq_definition n) default_model_limits \<and>
     (require_current_authority (rq_policy n) \<longrightarrow> list_all (ref_authority n) (df_actions (rq_definition n)))"

lemma scan_found: "evaluate_domain_scan d (Some f) bs = BS_CURRENT \<Longrightarrow> evaluate_binding f = BS_CURRENT"
  by (induction bs) (auto split: if_splits)

lemma evaluate_domain_find:
  assumes "evaluate_domain v d = BS_CURRENT"
  shows "\<exists>b. find_binding v d = Some b \<and> evaluate_binding b = BS_CURRENT"
proof -
  have "evaluate_domain_scan d None bs = BS_CURRENT \<Longrightarrow> \<exists>b. find (\<lambda>b. ab_domain b = d) bs = Some b \<and> evaluate_binding b = BS_CURRENT" for bs
    by (induction bs) (auto dest: scan_found split: if_splits)
  with assms show ?thesis by (simp add: evaluate_domain_def find_binding_def)
qed

lemma admitted_ready:
  assumes adm: "\<not> is_rejection (pr_decision (plan default_model_limits r))" and cmp: "comparable (normalise_request r)"
  shows "ready_request (ref_normal r)"
proof -
  let ?n = "normalise_request r"
  have a: "admissible_request default_model_limits ?n" by (rule unrejected_admissible[OF adm])
  have chk: "check_definition (canonicalise_definition (rq_definition r)) default_model_limits = None"
    using a by (simp add: admissible_request_def normalise_request_def)
  have d: "rq_definition ?n = canonicalise_definition (rq_definition r)" by (simp add: normalise_request_def)
  have au: "list_all (ref_authority (ref_normal r)) (df_actions (rq_definition ?n))" if "require_current_authority (rq_policy ?n)"
  proof -
    have est: "authority_established ?n" using a that by (simp add: admissible_request_def)
    show ?thesis unfolding list_all_iff
    proof
      fix x assume x: "x \<in> set (df_actions (rq_definition ?n))"
      then have "ac_required_domain x \<in> set (required_domains (rq_definition ?n) (rq_evidence ?n))"
        unfolding set_required_domains by blast
      then have "evaluate_domain (rq_authority ?n) (ac_required_domain x) = BS_CURRENT"
        using est unfolding authority_established_def by blast
      from evaluate_domain_find[OF this] obtain b where
        b: "find_binding (rq_authority ?n) (ac_required_domain x) = Some b" "evaluate_binding b = BS_CURRENT" by blast
      moreover have "ac_required_level x \<le> ab_level b" using est x b(1) unfolding authority_established_def by fastforce
      ultimately show "ref_authority (ref_normal r) x" by (simp add: ref_authority_def ref_normal_simps not_less)
    qed
  qed
  have "clean_evidence (ref_normal r) \<longleftrightarrow> clean_evidence ?n" unfolding clean_evidence_def ref_normal_simps ..
  moreover have "sound_definition (rq_definition ?n)" "within_limits (rq_definition ?n) default_model_limits"
    unfolding sound_definition_def d using chk checked_indexed[OF chk] checked_within_limits[OF chk] by blast+
  ultimately show ?thesis
    using cmp au unfolding ready_request_def comparable_def comparable_definition_def accountable_def ref_normal_simps by blast
qed

section \<open>Evaluation\<close>

lemma ref_started:
  assumes rd: "ready_request n"
  shows "ref_in_step n (ref_start n (build_lookup (rq_definition n))) (request_initial default_model_limits n, [])"
proof -
  have acc: "accountable n" using rd by (simp add: ready_request_def comparable_definition_def)
  have s: "ref_initial (rq_definition n) (build_lookup (rq_definition n)) n = ref_of (request_initial default_model_limits n)"
    using rd ref_start_agrees by (simp add: ready_request_def)
  have "search_ready (env_default n) (request_initial default_model_limits n)"
    using acc by (intro request_ready default_limits_ok) (simp add: accountable_def sound_definition_def)
  moreover have "history_holds (rq_definition n) 0 (history_of (replicate (length (df_resources (rq_definition n))) [])) = []"
    by (simp add: history_of_def history_holds_def)
  moreover have "fs_tick (request_initial default_model_limits n) = 0" by (simp add: request_initial_def)
  ultimately show ?thesis
    by (simp add: ref_start_def Let_def ref_in_step_def s shortfall_ref positions_below_def holds_within_capacity_def
        search_ready_def)
qed

lemma goals_ref:
  assumes "indexed d" "se_definition e = d" "se_indexer e = build_indexer d"
  shows "list_all (ref_goal (build_lookup d) (ref_of s)) (df_goals d) \<longleftrightarrow> goals_satisfied e s"
  by (simp add: goals_satisfied_def assms list_all_iff goal_ref[OF assms(1)])

lemma small_sum:
  assumes "\<forall>i\<in>set path. unat (f i :: u64) < 2 ^ 50" "length path \<le> 8192"
  shows "sum_list (map (\<lambda>i. unat (f i)) path) < 2 ^ 64"
proof -
  have "sum_list (map (\<lambda>i. unat (f i)) path) \<le> length path * 2 ^ 50"
    by (rule sum_list_le_const) (use assms(1) in auto)
  also have "\<dots> \<le> 8192 * 2 ^ 50" using assms(2) by (rule mult_le_mono1)
  finally show ?thesis by simp
qed

lemma ready_score_defined:
  assumes rd: "ready_request n" and pp: "plan_path (env_default n) (request_initial default_model_limits n) path = Some c"
  shows "\<exists>z. plan_score (env_default n) (request_initial default_model_limits n) path = Some (z, map (action_id_at (env_default n)) path)"
proof -
  let ?e = "env_default n" and ?s = "request_initial default_model_limits n"
  have acc: "accountable n" and costs: "small_costs (rq_definition n)"
    using rd by (simp_all add: ready_request_def comparable_definition_def)
  have chk: "check_definition (rq_definition n) default_model_limits = None" and sd: "sound_definition (rq_definition n)"
    using acc by (simp_all add: accountable_def sound_definition_def)
  have ready: "search_ready ?e ?s" by (rule request_ready[OF chk default_limits_ok])
  note wf = plan_path_wf[OF ready pp]
  have len: "length path \<le> 8192" using config_depth_le[OF wf(1)] wf(2) sound_total[OF sd] by simp
  have run: "\<forall>i\<in>set path. i < length (df_actions (rq_definition n))" "run_path (config_step ?e) (?s, []) path = Some c"
    using pp by (simp_all add: plan_path_def action_count_of_def split: if_splits)
  have small: "\<forall>i\<in>set path. unat (ac_cost_units (df_actions (rq_definition n) ! i)) < 2 ^ 50"
    "\<forall>i\<in>set path. unat (ac_duration_ticks (df_actions (rq_definition n) ! i)) < 2 ^ 50"
    using costs run(1) by (auto simp: small_costs_def list_all_iff word_less_nat_alt)
  have "length (df_services (se_definition ?e)) \<le> 1024"
    using chk by (simp add: check_definition_def check_sizes_def default_model_limits_def)
  then obtain l where "plan_score ?e ?s path = Some l"
    using score_defined[of ?e "(?s, [])" path c 0 "(zero_objective, [])"] run(2) small_sum[OF small(1) len]
      small_sum[OF small(2) len] len
    by (auto simp: plan_score_def accumulated_def zero_objective_def)
  with plan_score_encoding show ?thesis by (metis prod.collapse)
qed

lemma step_bound_le_policy: "step_bound e \<le> unat (max_plan_steps (se_policy e))"
  by (simp add: step_bound_def min_def word_le_nat_alt)

text \<open>The evaluation accepts a sequence exactly when it solves the request, with the planner's objective.\<close>

lemma evaluate_exact:
  assumes rd: "ready_request n" and normal: "ref_normal n = n"
  shows "reference_evaluate n aids = Some z \<longleftrightarrow>
    (\<exists>path. solves (env_default n) (request_initial default_model_limits n) path \<and>
      plan_score (env_default n) (request_initial default_model_limits n) path = Some (z, aids))"
proof -
  let ?e = "env_default n" and ?s = "request_initial default_model_limits n" and ?lk = "build_lookup (rq_definition n)"
  have cmp: "comparable_definition n" using rd by (simp add: ready_request_def)
  then have acc: "accountable n" by (simp add: comparable_definition_def)
  have sd: "sound_definition (rq_definition n)" using acc by (simp add: accountable_def)
  note start = ref_started[OF rd]
  have chk: "check_definition (rq_definition n) default_model_limits = None" using sd by (simp add: sound_definition_def)
  have ready: "search_ready ?e ?s" by (rule request_ready[OF chk default_limits_ok])
  have eval: "reference_evaluate n aids = (if length aids > unat (max_plan_steps (rq_policy n)) then None
      else case ref_steps n ?lk aids (ref_start n ?lk) of None \<Rightarrow> None
        | Some x \<Rightarrow> if list_all (ref_goal ?lk (rr_state x)) (df_goals (rq_definition n)) then Some (rr_objective x) else None)"
  proof -
    have "\<not> (require_current_authority (rq_policy n) \<and> \<not> list_all (ref_authority n) (df_actions (rq_definition n)))"
      using rd unfolding ready_request_def by blast
    then show ?thesis unfolding reference_evaluate_def normal Let_def by (simp only: if_False)
  qed
  have zero: "rr_objective (ref_start n ?lk) = zero_objective" by (simp add: ref_start_def Let_def)
  show ?thesis
  proof
    assume some: "reference_evaluate n aids = Some z"
    then obtain x where x: "ref_steps n ?lk aids (ref_start n ?lk) = Some x" "rr_objective x = z"
      "list_all (ref_goal ?lk (rr_state x)) (df_goals (rq_definition n))" "length aids \<le> unat (max_plan_steps (rq_policy n))"
      by (auto simp: eval not_less split: if_splits option.splits)
    obtain path c where p: "\<forall>i\<in>set path. i < length (df_actions (rq_definition n))" "map (action_id_at ?e) path = aids"
      "run_path (config_step ?e) (?s, []) path = Some c" using ref_steps_path[OF cmp start x(1)] by blast
    have pp: "plan_path ?e ?s path = Some c" using p(1,3) by (simp add: plan_path_def action_count_of_def)
    obtain x' where x': "ref_steps n ?lk aids (ref_start n ?lk) = Some x'" "ref_in_step n x' c"
      "\<And>l'. score_path (config_step ?e) (action_id_at ?e) (?s, []) (zero_objective, []) path = Some l' \<Longrightarrow> fst l' = rr_objective x'"
      using ref_steps_follow[OF cmp start p(1,3)] unfolding p(2) zero by (metis fst_conv)
    have xx: "x' = x" using x'(1) x(1) by simp
    note wf = plan_path_wf[OF ready pp]
    have "length path \<le> step_bound ?e"
      by (rule step_bound_total[where ix = "build_indexer (rq_definition n)"])
        (use config_depth_le[OF wf(1)] wf(2) ready x(4) p(2) in \<open>auto simp: search_ready_def\<close>)
    moreover have "goals_satisfied ?e (fst c)"
      using x(3) x'(2) goals_ref[OF sound_definitionD(1)[OF sd], of ?e "fst c"] unfolding xx by (simp add: ref_in_step_def)
    ultimately have "solves ?e ?s path" by (simp add: solves_def pp)
    moreover obtain z' where "plan_score ?e ?s path = Some (z', aids)" using ready_score_defined[OF rd pp] p(2) by auto
    moreover from this x'(3) have "z' = z" unfolding plan_score_def xx using x(2) by force
    ultimately show "\<exists>path. solves ?e ?s path \<and> plan_score ?e ?s path = Some (z, aids)" by blast
  next
    assume "\<exists>path. solves ?e ?s path \<and> plan_score ?e ?s path = Some (z, aids)"
    then obtain path c where p: "length path \<le> step_bound ?e" "plan_path ?e ?s path = Some c" "goals_satisfied ?e (fst c)"
      "plan_score ?e ?s path = Some (z, aids)" by (auto simp: solves_def split: option.splits)
    have run: "\<forall>i\<in>set path. i < length (df_actions (rq_definition n))" "run_path (config_step ?e) (?s, []) path = Some c"
      using p(2) by (simp_all add: plan_path_def action_count_of_def split: if_splits)
    have aids: "map (action_id_at ?e) path = aids" using plan_score_encoding[OF p(4)] by simp
    obtain x where x: "ref_steps n ?lk aids (ref_start n ?lk) = Some x" "ref_in_step n x c"
      "\<And>l'. score_path (config_step ?e) (action_id_at ?e) (?s, []) (zero_objective, []) path = Some l' \<Longrightarrow> fst l' = rr_objective x"
      using ref_steps_follow[OF cmp start run] unfolding aids zero by (metis fst_conv)
    have "rr_objective x = z" using x(3)[of "(z, aids)"] p(4) by (simp add: plan_score_def)
    moreover have "list_all (ref_goal ?lk (rr_state x)) (df_goals (rq_definition n))"
      using p(3) x(2) goals_ref[OF sound_definitionD(1)[OF sd], of ?e "fst c"] by (simp add: ref_in_step_def)
    moreover have "length aids \<le> unat (max_plan_steps (rq_policy n))"
      using p(1) step_bound_le_policy[of ?e] aids by auto
    ultimately show "reference_evaluate n aids = Some z" using x(1) by (simp add: eval)
  qed
qed

end
