(* ===== verification/NRP_Reference_Agree.thy ===== *)
theory NRP_Reference_Agree
  imports NRP_Reference_Paths
begin

text \<open>
  The enumeration of the reference solver: a run that reaches none of its limits looks at every sequence
  that could solve the request and keeps the best one it accepts; so a completed run and a search of the
  planner give the same answer.
\<close>

section \<open>The sequences a run looks at\<close>

primrec ref_sequences :: "nat \<Rightarrow> plan_request \<Rightarrow> strong_id list \<Rightarrow> u32 list \<Rightarrow> strong_id list list" where
  "ref_sequences 0 n current counts = [current]"
| "ref_sequences (Suc k) n current counts = current # concat (map
     (\<lambda>i. if counts ! i \<ge> ac_max_occurrences (df_actions (rq_definition n) ! i) then []
        else ref_sequences k n (current @ [ac_id (df_actions (rq_definition n) ! i)]) (counts[i := counts ! i + 1]))
     [0..<length (df_actions (rq_definition n))])"

lemma ref_visit_aborted [simp]: "rx_aborted (ref_visit n current x) = rx_aborted x"
  by (simp add: ref_visit_def Let_def split: option.split)

text \<open>A fold that only ever sets the abort flag has followed its list when the flag is down at the end.\<close>

lemma fold_unaborted:
  assumes body: "\<And>i x. \<not> rx_aborted (body i x) \<Longrightarrow> \<not> rx_aborted x \<and> body i x = fold visit (seqs i) x"
  shows "\<not> rx_aborted (fold body is x) \<Longrightarrow> \<not> rx_aborted x \<and> fold body is x = fold visit (concat (map seqs is)) x"
proof (induction "is" arbitrary: x)
  case (Cons i "is")
  then have rest: "\<not> rx_aborted (body i x)" "fold body is (body i x) = fold visit (concat (map seqs is)) (body i x)" by auto
  with body[OF rest(1)] show ?case by simp
qed simp

lemma ref_descend_unaborted:
  "\<not> rx_aborted (ref_descend k n m current counts x) \<Longrightarrow>
   \<not> rx_aborted x \<and> ref_descend k n m current counts x = fold (ref_visit n) (ref_sequences k n current counts) x"
proof (induction k arbitrary: current counts x)
  case 0
  then show ?case by (simp split: if_splits)
next
  case (Suc k)
  let ?as = "df_actions (rq_definition n)"
  define body where "body = (\<lambda>i x. if rx_aborted x then x else if counts ! i \<ge> ac_max_occurrences (?as ! i) then x
    else if rx_examined x \<ge> m then x\<lparr>rx_aborted := True\<rparr>
    else ref_descend k n m (current @ [ac_id (?as ! i)]) (counts[i := counts ! i + 1]) x)"
  define seqs where "seqs = (\<lambda>i. if counts ! i \<ge> ac_max_occurrences (?as ! i) then []
    else ref_sequences k n (current @ [ac_id (?as ! i)]) (counts[i := counts ! i + 1]))"
  have unfold: "ref_descend (Suc k) n m current counts x =
      (if rx_aborted x then x else fold body [0..<length ?as] (ref_visit n current x))"
    by (simp add: body_def)
  have one: "\<not> rx_aborted (body i x) \<Longrightarrow> \<not> rx_aborted x \<and> body i x = fold (ref_visit n) (seqs i) x" for i x
    using Suc.IH[of "current @ [ac_id (?as ! i)]" "counts[i := counts ! i + 1]" x]
    by (auto simp: body_def seqs_def split: if_splits)
  have up: "\<not> rx_aborted x" using Suc.prems unfolding unfold by (cases "rx_aborted x") simp_all
  moreover have "\<not> rx_aborted (fold body [0..<length ?as] (ref_visit n current x))" using Suc.prems up unfolding unfold by simp
  note fold_unaborted[of body "ref_visit n" seqs, OF one this]
  ultimately show ?case unfolding unfold by (simp add: seqs_def)
qed

text \<open>Every admissible path is among them: the counts are the executions of the state.\<close>

lemma path_enumerated:
  assumes "se_definition e = rq_definition n"
  shows "run_path (config_step e) c path = Some c' \<Longrightarrow> \<forall>i\<in>set path. i < length (df_actions (rq_definition n)) \<Longrightarrow>
    length path \<le> k \<Longrightarrow> current @ map (action_id_at e) path \<in> set (ref_sequences k n current (action_occurrences (fst c)))"
proof (induction k arbitrary: c path current)
  case (Suc k)
  show ?case
  proof (cases path)
    case (Cons i rest)
    obtain t where t: "apply_action e (config_node e c) i = Inr t"
      and run: "run_path (config_step e) (tr_state t, tr_holds t) rest = Some c'"
      using Suc.prems(1) unfolding Cons by (cases "apply_action e (config_node e c) i") (simp_all add: config_step_def[of _ c i])
    have next_counts: "action_occurrences (tr_state t) = (action_occurrences (fst c))[i := action_occurrences (fst c) ! i + 1]"
      using step_occurrences(1)[OF t] by (simp add: config_node_def)
    have "action_occurrences (fst c) ! i < ac_max_occurrences (df_actions (se_definition e) ! i)"
      by (rule apply_action_state[OF t]) (simp add: config_node_def)
    then have open_count: "\<not> action_occurrences (fst c) ! i \<ge> ac_max_occurrences (df_actions (rq_definition n) ! i)"
      using assms by simp
    have tail: "(current @ [ac_id (df_actions (rq_definition n) ! i)]) @ map (action_id_at e) rest
        \<in> set (ref_sequences k n (current @ [ac_id (df_actions (rq_definition n) ! i)]) (action_occurrences (fst (tr_state t, tr_holds t))))"
      by (rule Suc.IH[OF run]) (use Suc.prems(2,3) Cons in simp_all)
    have i: "i \<in> set [0..<length (df_actions (rq_definition n))]" using Suc.prems(2) Cons by simp
    have "current @ map (action_id_at e) path = (current @ [ac_id (df_actions (rq_definition n) ! i)]) @ map (action_id_at e) rest"
      by (simp add: Cons action_id_at_def assms)
    then have "current @ map (action_id_at e) path \<in> set (ref_sequences k n (current @ [ac_id (df_actions (rq_definition n) ! i)])
        ((action_occurrences (fst c))[i := action_occurrences (fst c) ! i + 1]))"
      using tail by (simp only: next_counts fst_conv)
    then show ?thesis unfolding ref_sequences.simps set_simps set_concat set_map
      by (intro insertI2 UN_I[OF imageI[OF i]]) (simp only: open_count if_False)
  qed simp
qed simp

section \<open>The best sequence kept\<close>

definition best_over :: "plan_request \<Rightarrow> strong_id list set \<Rightarrow> (objective \<times> strong_id list) option \<Rightarrow> bool" where
  "best_over n A best \<longleftrightarrow> (case best of
       None \<Rightarrow> \<forall>aids\<in>A. reference_evaluate n aids = None
     | Some b \<Rightarrow> snd b \<in> A \<and> reference_evaluate n (snd b) = Some (fst b) \<and>
         (\<forall>aids\<in>A. \<forall>z. reference_evaluate n aids = Some z \<longrightarrow> score_le b (z, aids)))"

lemma score_test:
  "compare_objective z z' < 0 \<or> compare_objective z z' = 0 \<and> compare_encoding a a' < 0 \<longleftrightarrow> score_less (z, a) (z', a')"
  by (auto simp: score_less_def scored_plan_less_def Let_def)

lemma visit_best: "best_over n A (rx_best x) \<Longrightarrow> best_over n (insert aids A) (rx_best (ref_visit n aids x))"
proof (cases "reference_evaluate n aids")
  case None
  assume "best_over n A (rx_best x)"
  with None show ?thesis by (cases "rx_best x") (simp_all add: best_over_def ref_visit_def Let_def)
next
  case (Some z)
  assume old: "best_over n A (rx_best x)"
  show ?thesis
  proof (cases "rx_best x")
    case None
    with Some old show ?thesis by (simp add: best_over_def ref_visit_def Let_def)
  next
    case (Some b)
    obtain z' a' where b: "b = (z', a')" by (cases b)
    have old: "a' \<in> A" "reference_evaluate n a' = Some z'"
      "\<And>a w. a \<in> A \<Longrightarrow> reference_evaluate n a = Some w \<Longrightarrow> score_le (z', a') (w, a)"
      using old by (simp_all add: best_over_def Some b)
    have v: "rx_best (ref_visit n aids x) = (if score_less (z, aids) (z', a') then Some (z, aids) else Some (z', a'))"
      using \<open>reference_evaluate n aids = Some z\<close> by (simp add: ref_visit_def Let_def Some b score_test)
    show ?thesis
    proof (cases "score_less (z, aids) (z', a')")
      case True
      then have "score_le (z, aids) (w, a)" if "a \<in> A" "reference_evaluate n a = Some w" for a w
        using old(3)[OF that] score_less_imp_le score_le_trans by blast
      with True \<open>reference_evaluate n aids = Some z\<close> show ?thesis by (simp add: best_over_def v)
    next
      case False
      then have "score_le (z', a') (z, aids)" by (simp add: score_le_def)
      with False old \<open>reference_evaluate n aids = Some z\<close> show ?thesis by (simp add: best_over_def v)
    qed
  qed
qed

lemma fold_best: "best_over n A (rx_best x) \<Longrightarrow> best_over n (A \<union> set as) (rx_best (fold (ref_visit n) as x))"
proof (induction as arbitrary: A x)
  case (Cons a as)
  from Cons.IH[OF visit_best[OF Cons.prems, of a]] show ?case by simp
qed simp

section \<open>The bound on the length\<close>

lemma ref_occurrence_bound_ge:
  "unat b + sum_list (map (\<lambda>a. unat (ac_max_occurrences a)) as) < 2 ^ 64 \<Longrightarrow>
   unat (ref_occurrence_bound as b) = unat b + sum_list (map (\<lambda>a. unat (ac_max_occurrences a)) as)"
proof (induction as arbitrary: b)
  case (Cons a as)
  have u: "unat (ucast (ac_max_occurrences a) :: u64) = unat (ac_max_occurrences a)" by simp
  with Cons.prems have "unat b + unat (ucast (ac_max_occurrences a) :: u64) < 2 ^ 64" by simp
  then obtain b1 where b1: "add_overflow b (ucast (ac_max_occurrences a)) = Some b1"
    by (cases "add_overflow b (ucast (ac_max_occurrences a))") (simp_all add: add_overflow_None_iff)
  then have "unat b1 = unat b + unat (ac_max_occurrences a)" using u by (simp add: add_overflow_Some_iff)
  with Cons.IH[of b1] Cons.prems b1 show ?case by simp
qed simp

lemma depth_bound_covers:
  assumes "k \<le> unat (rl_max_plan_steps l)" "k \<le> unat (max_plan_steps (rq_policy n))"
    "k \<le> occurrence_total (rq_definition n)" "occurrence_total (rq_definition n) < 2 ^ 32"
  shows "k \<le> unat (ref_depth_bound n l)"
proof -
  have "unat (ref_occurrence_bound (df_actions (rq_definition n)) 0) = occurrence_total (rq_definition n)"
    using ref_occurrence_bound_ge[of 0 "df_actions (rq_definition n)"] assms(4) by (simp add: occurrence_total_def)
  with assms(1-3) show ?thesis by (simp add: ref_depth_bound_def min_def)
qed

section \<open>A completed run\<close>

definition run_answer :: "reference_outcome \<Rightarrow> (objective \<times> strong_id list) option" where
  "run_answer v = (if ro_plan_found v then Some (ro_objective v, ro_encoding v) else None)"

lemma completed_run:
  assumes "ro_kind (reference_solve r l) = RK_COMPLETED"
  shows "best_over (ref_normal r) (set (ref_sequences (unat (ref_depth_bound (ref_normal r) l)) (ref_normal r) []
      (replicate (length (df_actions (rq_definition (ref_normal r)))) 0))) (run_answer (reference_solve r l))"
proof -
  let ?n = "ref_normal r"
  define x where "x = ref_descend (unat (ref_depth_bound ?n l)) ?n (rl_max_sequences l) []
    (replicate (length (df_actions (rq_definition ?n))) 0) \<lparr>rx_examined = 0, rx_valid = 0, rx_best = None, rx_aborted = False\<rparr>"
  have run: "\<not> rx_aborted x" "run_answer (reference_solve r l) = rx_best x"
    using assms by (auto simp: reference_solve_def Let_def no_outcome_def run_answer_def x_def[symmetric] split: if_splits option.splits)
  have "best_over ?n {} (rx_best \<lparr>rx_examined = 0, rx_valid = 0, rx_best = None, rx_aborted = False\<rparr>)" by (simp add: best_over_def)
  from fold_best[OF this] ref_descend_unaborted[of _ ?n] run show ?thesis unfolding x_def by fastforce
qed

lemma solving_sequence_seen:
  assumes rd: "ready_request n" and sol: "solves (env_default n) (request_initial default_model_limits n) path"
    and sc: "plan_score (env_default n) (request_initial default_model_limits n) path = Some (z, aids)"
    and room: "step_bound (env_default n) \<le> unat (rl_max_plan_steps l)"
  shows "aids \<in> set (ref_sequences (unat (ref_depth_bound n l)) n [] (replicate (length (df_actions (rq_definition n))) 0))"
proof -
  let ?e = "env_default n" and ?s = "request_initial default_model_limits n"
  have chk: "check_definition (rq_definition n) default_model_limits = None"
    using rd by (simp add: ready_request_def comparable_definition_def accountable_def sound_definition_def)
  have ready: "search_ready ?e ?s" by (rule request_ready[OF chk default_limits_ok])
  obtain c where p: "length path \<le> step_bound ?e" "plan_path ?e ?s path = Some c"
    using sol by (auto simp: solves_def split: option.splits)
  note wf = plan_path_wf[OF ready p(2)]
  have len: "length path \<le> unat (ref_depth_bound n l)"
    using p(1) room step_bound_le_policy[of ?e] config_depth_le[OF wf(1)] wf(2) ready
    by (intro depth_bound_covers) (auto simp: search_ready_def)
  have run: "run_path (config_step ?e) (?s, []) path = Some c" "\<forall>i\<in>set path. i < length (df_actions (rq_definition n))"
    using p(2) by (simp_all add: plan_path_def action_count_of_def split: if_splits)
  have occ: "action_occurrences ?s = replicate (length (df_actions (rq_definition n))) 0"
    by (simp add: request_initial_def)
  show ?thesis
    using path_enumerated[OF _ run(1,2) len, of "[]"] plan_score_encoding[OF sc] by (simp add: occ)
qed

lemma best_unique:
  assumes "score_le x y" "score_le y x"
  shows "x = y"
  using assms by (simp add: score_le_key score_key_inj[symmetric])

text \<open>A completed run answers with the best plan of the request.\<close>

lemma completed_run_optimal:
  assumes rd: "ready_request (ref_normal r)" and finished: "ro_kind (reference_solve r l) = RK_COMPLETED"
    and room: "step_bound (env_default (ref_normal r)) \<le> unat (rl_max_plan_steps l)"
  shows "case run_answer (reference_solve r l) of
       None \<Rightarrow> \<forall>path. \<not> solves (env_default (ref_normal r)) (request_initial default_model_limits (ref_normal r)) path
     | Some b \<Rightarrow> optimal_score (env_default (ref_normal r)) (request_initial default_model_limits (ref_normal r)) b"
proof -
  let ?n = "ref_normal r" and ?e = "env_default (ref_normal r)" and ?s = "request_initial default_model_limits (ref_normal r)"
  note best = completed_run[OF finished]
  note exact = evaluate_exact[OF rd ref_normal_idem]
  have seen: "plan_score ?e ?s path = Some (z, aids) \<Longrightarrow> solves ?e ?s path \<Longrightarrow>
      aids \<in> set (ref_sequences (unat (ref_depth_bound ?n l)) ?n [] (replicate (length (df_actions (rq_definition ?n))) 0)) \<and>
      reference_evaluate ?n aids = Some z" for path z aids
    using solving_sequence_seen[OF rd _ _ room] exact by blast
  have scored: "\<exists>z aids. plan_score ?e ?s path = Some (z, aids)" if "solves ?e ?s path" for path
    using that ready_score_defined[OF rd, of path] by (auto simp: solves_def split: option.splits)
  show ?thesis
  proof (cases "run_answer (reference_solve r l)")
    case None
    have "\<not> solves ?e ?s path" for path
      using scored[of path] seen[of path] best unfolding None best_over_def option.case by fastforce
    then show ?thesis by (simp add: None)
  next
    case (Some b)
    obtain z aids where b: "b = (z, aids)" by (cases b)
    have ev: "reference_evaluate ?n aids = Some z" using best by (simp add: Some best_over_def b)
    have "score_le b l'" if "solves ?e ?s path" "plan_score ?e ?s path = Some l'" for path l'
      using seen[of path "fst l'" "snd l'"] that best unfolding Some best_over_def option.case by fastforce
    then show ?thesis using exact ev unfolding Some option.case optimal_score_def b by blast
  qed
qed

section \<open>The length of a run\<close>

lemma ref_visit_counts [simp]:
  "rx_examined (ref_visit n current x) = rx_examined x + 1"
  "rx_valid (ref_visit n current x) = (if reference_evaluate n current = None then rx_valid x else rx_valid x + 1)"
  by (auto simp: ref_visit_def Let_def split: option.split)

text \<open>The counters never pass the limit, so they never wrap; the valid sequences are among those examined.\<close>

definition within_run :: "nat \<Rightarrow> ref_search \<Rightarrow> bool" where
  "within_run k x \<longleftrightarrow> unat (rx_examined x) \<le> k \<and> unat (rx_valid x) \<le> unat (rx_examined x)"

lemma fold_within: "(\<And>i x. within_run k x \<Longrightarrow> within_run k (f i x)) \<Longrightarrow> within_run k x \<Longrightarrow> within_run k (fold f is x)"
  by (induction "is" arbitrary: x) simp_all

lemma visit_within:
  assumes "within_run k x" "unat (rx_examined x) < k" "k < 2 ^ 64"
  shows "within_run k (ref_visit n current x)"
proof -
  have "unat (rx_examined x + 1) = unat (rx_examined x) + 1" using assms(2,3) by (subst unat_add_no_wrap) simp_all
  moreover have "unat (rx_valid x + 1) = unat (rx_valid x) + 1"
    using assms unfolding within_run_def by (subst unat_add_no_wrap) simp_all
  ultimately show ?thesis using assms by (simp add: within_run_def)
qed

lemma descend_within:
  assumes m: "unat m \<le> k" and k: "k < 2 ^ 64"
  shows "within_run k x \<Longrightarrow> unat (rx_examined x) < k \<Longrightarrow> within_run k (ref_descend d n m current counts x)"
proof (induction d arbitrary: current counts x)
  case 0
  then show ?case using visit_within[OF 0 k] by simp
next
  case (Suc d)
  have body: "within_run k (if rx_aborted x then x else if counts ! i \<ge> ac_max_occurrences (df_actions (rq_definition n) ! i) then x
      else if rx_examined x \<ge> m then x\<lparr>rx_aborted := True\<rparr>
      else ref_descend d n m (current @ [ac_id (df_actions (rq_definition n) ! i)]) (counts[i := counts ! i + 1]) x)"
    if "within_run k x" for i x
  proof (cases "rx_examined x \<ge> m")
    case True
    have "within_run k (x\<lparr>rx_aborted := True\<rparr>)" using that by (simp add: within_run_def)
    with that True show ?thesis by simp
  next
    case False
    then have "unat (rx_examined x) < k" using m by (simp add: not_le word_less_nat_alt)
    from Suc.IH[OF that this] that False show ?thesis by simp
  qed
  show ?case
  proof (cases "rx_aborted x")
    case False
    have "within_run k (fold (\<lambda>i x. if rx_aborted x then x
        else if counts ! i \<ge> ac_max_occurrences (df_actions (rq_definition n) ! i) then x
        else if rx_examined x \<ge> m then x\<lparr>rx_aborted := True\<rparr>
        else ref_descend d n m (current @ [ac_id (df_actions (rq_definition n) ! i)]) (counts[i := counts ! i + 1]) x)
        [0..<length (df_actions (rq_definition n))] (ref_visit n current x))"
      by (rule fold_within[OF body visit_within[OF Suc.prems k]])
    with False show ?thesis by simp
  qed (use Suc.prems in simp)
qed

section \<open>The solver on the sample fabrics\<close>

lemma one_action_run:
  assumes d: "canonicalise_definition d = d" "df_actions d = [a]" "ac_max_occurrences a = 1"
  shows "ro_kind (reference_solve (request_on d) default_reference_limits) = RK_COMPLETED"
proof -
  let ?n = "ref_normal (request_on d)" and ?l = default_reference_limits
  have n: "df_actions (rq_definition ?n) = [a]" "rq_policy ?n = sample_policy" using d by (simp_all add: ref_normal_def)
  have room: "max_plan_steps sample_policy \<noteq> 0" "rl_max_plan_steps ?l \<noteq> 0" "rl_max_sequences ?l = 40000000"
    by (simp_all add: sample_policy_def default_reference_limits_def)
  have bound: "ref_depth_bound ?n ?l = 1"
    by (simp add: ref_depth_bound_def n d(3) add_overflow_def UINT64_MAX_def sample_policy_def default_reference_limits_def)
  have "\<not> rx_aborted (ref_descend 1 ?n 40000000 [] [0] \<lparr>rx_examined = 0, rx_valid = 0, rx_best = None, rx_aborted = False\<rparr>)"
    by (simp add: n(1) d(3) word_le_nat_alt)
  then show ?thesis by (simp add: reference_solve_def Let_def n room bound)
qed

lemma sample_comparable: "comparable (normalise_request (request_on sample_definition))"
  by (simp add: comparable_def clean_evidence_def request_on_normal[OF sample_canonical] plain_resources_def small_costs_def
      sample_simps sample_action_def)

lemma blocked_comparable: "comparable (normalise_request (request_on blocked_definition))"
  by (simp add: comparable_def clean_evidence_def request_on_normal[OF blocked_canonical] plain_resources_def small_costs_def
      blocked_simps sample_definition_simps blocked_action_def sample_action_def)

lemma sample_run_completed: "ro_kind (reference_solve (request_on sample_definition) default_reference_limits) = RK_COMPLETED"
  by (rule one_action_run[OF sample_canonical, of sample_action]) (simp_all add: sample_definition_simps sample_action_def)

lemma blocked_run_completed: "ro_kind (reference_solve (request_on blocked_definition) default_reference_limits) = RK_COMPLETED"
  by (rule one_action_run[OF blocked_canonical, of blocked_action]) (simp_all add: blocked_simps blocked_action_def sample_action_def)

lemma sample_room: "step_bound (request_env default_model_limits (normalise_request (request_on d))) \<le>
    unat (rl_max_plan_steps default_reference_limits)"
proof -
  have "rq_policy (normalise_request (request_on d)) = sample_policy" by (simp add: normalise_request_def)
  then show ?thesis
    using step_bound_le_policy[of "request_env default_model_limits (normalise_request (request_on d))"]
    by (simp add: sample_policy_def default_reference_limits_def)
qed

section \<open>Properties\<close>

text \<open>C5. The planner and the reference solver agree on the best plan. When the planner returns a plan for a
  request, and the enumeration of the reference solver completes with room for the planner's step bound, then
  the reference solver finds a plan too, of the same objective and with the same actions. The two must read the
  request alike: no action lists a resource twice, capacities stay below \<open>2 ^ 31\<close>, costs and durations below
  \<open>2 ^ 50\<close>, no two facts of one subject and sequence number contradict each other, and no inadmissible fact is
  newer than an admissible one of its subject.\<close>

theorem reference_agrees:
  assumes "pr_decision (plan default_model_limits r) = PD_PLAN_FOUND" "pr_plan (plan default_model_limits r) = Some p"
    and "comparable (normalise_request r)" "ro_kind (reference_solve r l) = RK_COMPLETED"
    and "step_bound (request_env default_model_limits (normalise_request r)) \<le> unat (rl_max_plan_steps l)"
  shows "ro_plan_found (reference_solve r l) \<and> ro_objective (reference_solve r l) = pl_objective p \<and>
    ro_encoding (reference_solve r l) = plan_encoding p"
proof -
  have rd: "ready_request (ref_normal r)" by (rule admitted_ready[OF _ assms(3)]) (simp add: assms(1) is_rejection_def)
  have best: "optimal_score (env_default (ref_normal r)) (request_initial default_model_limits (ref_normal r))
      (pl_objective p, plan_encoding p)"
    using found_plan_optimal[OF default_limits_ok assms(1)] assms(2) by (simp add: ref_normal_env)
  from completed_run_optimal[OF rd assms(4)] assms(5)
  have answer: "case run_answer (reference_solve r l) of
       None \<Rightarrow> \<forall>path. \<not> solves (env_default (ref_normal r)) (request_initial default_model_limits (ref_normal r)) path
     | Some b \<Rightarrow> optimal_score (env_default (ref_normal r)) (request_initial default_model_limits (ref_normal r)) b"
    by (simp add: ref_normal_env)
  have "run_answer (reference_solve r l) = Some (pl_objective p, plan_encoding p)"
  proof (cases "run_answer (reference_solve r l)")
    case None
    with answer best show ?thesis by (simp add: optimal_score_def)
  next
    case (Some b)
    with answer have b: "optimal_score (env_default (ref_normal r)) (request_initial default_model_limits (ref_normal r)) b" by simp
    have "b = (pl_objective p, plan_encoding p)"
      by (rule best_unique) (use b best in \<open>unfold optimal_score_def, blast+\<close>)
    with Some show ?thesis by simp
  qed
  then show ?thesis by (simp add: run_answer_def split: if_splits)
qed

theorem reference_agrees_witness:
  "\<exists>p. pr_plan (plan default_model_limits (request_on sample_definition)) = Some p \<and>
     ro_plan_found (reference_solve (request_on sample_definition) default_reference_limits) \<and>
     ro_objective (reference_solve (request_on sample_definition) default_reference_limits) = pl_objective p \<and>
     ro_encoding (reference_solve (request_on sample_definition) default_reference_limits) = plan_encoding p"
proof -
  obtain p where "pr_plan (plan default_model_limits (request_on sample_definition)) = Some p"
    using found_plan_optimal[OF default_limits_ok sample_found] by blast
  with reference_agrees[OF sample_found this sample_comparable sample_run_completed sample_room] show ?thesis by blast
qed

text \<open>C6. The reference solver confirms proofs of exhaustion: where the planner certifies by exhaustive search
  that there is no plan for a request, no enumeration that completes with room for the planner's step bound
  finds one. The request must be one both read alike, as for the property before (\<open>comparable\<close>).\<close>

theorem reference_confirms_exhaustion:
  assumes "pr_certificate (plan default_model_limits r) = Some c" "ct_kind c = PF_EXHAUSTIVE_SEARCH"
    and "comparable (normalise_request r)" "ro_kind (reference_solve r l) = RK_COMPLETED"
    and "step_bound (request_env default_model_limits (normalise_request r)) \<le> unat (rl_max_plan_steps l)"
  shows "\<not> ro_plan_found (reference_solve r l)"
proof
  assume found: "ro_plan_found (reference_solve r l)"
  note none = exhausted_unsolvable[OF default_limits_ok assms(1,2)]
  then have rd: "ready_request (ref_normal r)" by (intro admitted_ready[OF _ assms(3)]) (simp add: is_rejection_def)
  have "optimal_score (env_default (ref_normal r)) (request_initial default_model_limits (ref_normal r))
      (ro_objective (reference_solve r l), ro_encoding (reference_solve r l))"
    using completed_run_optimal[OF rd assms(4)] assms(5) found by (simp add: ref_normal_env run_answer_def)
  then show False using none by (simp add: optimal_score_def ref_normal_env)
qed

theorem reference_confirms_exhaustion_witness:
  "\<not> ro_plan_found (reference_solve (request_on blocked_definition) default_reference_limits)"
  by (rule reference_confirms_exhaustion[OF blocked_exhausted _ blocked_comparable blocked_run_completed sample_room]) (simp add: exhaustive_certificate_def)

text \<open>C7. The check of a single sequence is exact: for a request that the planner does not reject and that both
  read alike (\<open>comparable\<close>: no action lists a resource twice, capacities below \<open>2 ^ 31\<close>, costs and durations
  below \<open>2 ^ 50\<close>, no contradiction within one sequence number, no inadmissible fact newer than an admissible
  one), the reference checker accepts a list of action identities exactly when it is the encoding of an admissible
  sequence of actions, within the step bound, that satisfies the goals.\<close>

theorem reference_check_exact:
  assumes "\<not> is_rejection (pr_decision (plan default_model_limits r))" "comparable (normalise_request r)"
  shows "reference_check_sequence r aids \<longleftrightarrow>
    (\<exists>path. solves (request_env default_model_limits (normalise_request r))
        (request_initial default_model_limits (normalise_request r)) path \<and>
      map (action_id_at (request_env default_model_limits (normalise_request r))) path = aids)"
proof -
  have rd: "ready_request (ref_normal r)" by (rule admitted_ready[OF assms])
  have "reference_evaluate r aids = reference_evaluate (ref_normal r) aids"
    by (simp add: reference_evaluate_def ref_normal_idem)
  then have "reference_check_sequence r aids \<longleftrightarrow>
      (\<exists>z path. solves (env_default (ref_normal r)) (request_initial default_model_limits (ref_normal r)) path \<and>
        plan_score (env_default (ref_normal r)) (request_initial default_model_limits (ref_normal r)) path = Some (z, aids))"
    unfolding reference_check_sequence_def using evaluate_exact[OF rd ref_normal_idem, of aids] by auto
  also have "\<dots> \<longleftrightarrow> (\<exists>path. solves (env_default (ref_normal r)) (request_initial default_model_limits (ref_normal r)) path \<and>
      map (action_id_at (env_default (ref_normal r))) path = aids)"
  proof -
    have scored: "solves (env_default (ref_normal r)) (request_initial default_model_limits (ref_normal r)) path \<Longrightarrow>
        \<exists>z. plan_score (env_default (ref_normal r)) (request_initial default_model_limits (ref_normal r)) path =
          Some (z, map (action_id_at (env_default (ref_normal r))) path)" for path
      using ready_score_defined[OF rd, of path] by (auto simp: solves_def split: option.splits)
    have named: "plan_score (env_default (ref_normal r)) (request_initial default_model_limits (ref_normal r)) path = Some (z, aids) \<Longrightarrow>
        map (action_id_at (env_default (ref_normal r))) path = aids" for path z
      using plan_score_encoding by fastforce
    show ?thesis using scored named by metis
  qed
  finally show ?thesis by (simp only: ref_normal_env)
qed

theorem reference_check_exact_witness:
  "reference_check_sequence (request_on sample_definition) [7] \<longleftrightarrow>
    (\<exists>path. solves sample_env sample_state path \<and> map (action_id_at sample_env) path = [7])"
  using reference_check_exact[OF _ sample_comparable, of "[7]"] sample_found
  by (simp add: is_rejection_def request_on_normal[OF sample_canonical] sample_request_env sample_request_initial)

text \<open>C8. A run stays within its limits and counts without wrap-around: it examines no more sequences than
  the limit allows (the empty sequence is always examined), and no more are valid than were examined.\<close>

theorem reference_run_bounded:
  "unat (ro_sequences_examined (reference_solve r l)) \<le> max 1 (unat (rl_max_sequences l)) \<and>
   unat (ro_valid_plans (reference_solve r l)) \<le> unat (ro_sequences_examined (reference_solve r l))"
proof -
  define x where "x = ref_descend (unat (ref_depth_bound (ref_normal r) l)) (ref_normal r) (rl_max_sequences l) []
    (replicate (length (df_actions (rq_definition (ref_normal r)))) 0) \<lparr>rx_examined = 0, rx_valid = 0, rx_best = None, rx_aborted = False\<rparr>"
  have "max 1 (unat (rl_max_sequences l)) < 2 ^ 64"
    using unsigned_less[of "rl_max_sequences l", where ?'a = nat] by simp
  then have "within_run (max 1 (unat (rl_max_sequences l))) x"
    unfolding x_def by (intro descend_within) (simp_all add: within_run_def)
  then show ?thesis by (simp add: reference_solve_def Let_def no_outcome_def x_def[symmetric] within_run_def)
qed

end
