(* ===== verification/NRP_Decode.thy ===== *)
theory NRP_Decode
  imports NRP_Canonical
begin

text \<open>
  Decoders that are exact: they succeed on the encoding of a value of their domain, with any bytes
  behind it, and on nothing else. An exact reader or decoder is described by the relation of the
  values it returns and the bytes it consumes for them; the rules of this theory compose the
  relations along the code (reads in sequence, guards, element loops), so that the exactness of a
  decoder follows its text.
\<close>

section \<open>Exact readers and decoders\<close>

definition exact_reader :: "(reader \<Rightarrow> 'a \<times> reader) \<Rightarrow> ('a \<Rightarrow> bytes \<Rightarrow> bool) \<Rightarrow> bool" where
  "exact_reader r R \<longleftrightarrow> (\<forall>rd. \<not> rd_ok rd \<longrightarrow> \<not> rd_ok (snd (r rd))) \<and>
     (\<forall>rd bs v rd'. rd_at rd bs \<longrightarrow> (r rd = (v, rd') \<and> rd_ok rd' \<longleftrightarrow>
        (\<exists>out rest. R v out \<and> bs = out @ rest \<and> rd' = rd_advance (length out) rd)))"

text \<open>A decoder of the code returns a \<open>Status\<close> or the value; here with the reader behind it.\<close>

type_synonym 'a decoder = "reader \<Rightarrow> status + 'a \<times> reader"

definition exact :: "'a decoder \<Rightarrow> ('a \<Rightarrow> bytes \<Rightarrow> bool) \<Rightarrow> bool" where
  "exact d R \<longleftrightarrow> (\<forall>rd. \<not> rd_ok rd \<longrightarrow> isl (d rd)) \<and>
     (\<forall>rd bs v rd'. rd_at rd bs \<longrightarrow> (d rd = Inr (v, rd') \<longleftrightarrow>
        (\<exists>out rest. R v out \<and> bs = out @ rest \<and> rd' = rd_advance (length out) rd)))"

text \<open>The combinators the decoders are written with: \<open>if (!reader.ok()) return reader.status()\<close>, the
  calls that pass a failed status on, and the counted element loops.\<close>

definition checked :: "'a decoder \<Rightarrow> 'a decoder" where
  "checked d rd = (if \<not> rd_ok rd then Inl (rd_error rd) else d rd)"

definition and_then :: "status + 'a \<times> reader \<Rightarrow> ('a \<Rightarrow> 'b decoder) \<Rightarrow> status + 'b \<times> reader" where
  "and_then x k = (case x of Inl e \<Rightarrow> Inl e | Inr (a, rd) \<Rightarrow> k a rd)"

definition yield_value :: "'a \<Rightarrow> 'a decoder" where
  "yield_value v rd = Inr (v, rd)"

text \<open>An element of a loop: read it, then check the reader.\<close>

definition element :: "(reader \<Rightarrow> 'a \<times> reader) \<Rightarrow> 'a decoder" where
  "element r rd = (case r rd of (v, rd') \<Rightarrow> checked (yield_value v) rd')"

fun decode_times :: "nat \<Rightarrow> 'a decoder \<Rightarrow> 'a list decoder" where
  "decode_times 0 d rd = Inr ([], rd)"
| "decode_times (Suc n) d rd =
     and_then (d rd) (\<lambda>x rd. and_then (decode_times n d rd) (\<lambda>xs rd. Inr (x # xs, rd)))"

definition decode_list :: "u32 \<Rightarrow> string \<Rightarrow> 'a decoder \<Rightarrow> 'a list decoder" where
  "decode_list max_count what d rd0 =
     (case r_bounded_count max_count what rd0 of (cnt, rd) \<Rightarrow> checked (decode_times (unat cnt) d) rd)"

section \<open>Primitive reads\<close>

lemma rd_advance_advance [simp]: "rd_advance m (rd_advance n rd) = rd_advance (n + m) rd"
  by (simp add: rd_advance_def)

lemma rd_advance_0 [simp]: "rd_advance 0 rd = rd"
  by (simp add: rd_advance_def)

lemma rd_ok_advance [simp]: "rd_ok (rd_advance n rd) = rd_ok rd"
  by (simp add: rd_ok_def rd_advance_def)

lemma rd_ok_fail [simp]: "code \<noteq> SC_OK \<Longrightarrow> \<not> rd_ok (rd_fail code msg rd)"
  by (auto simp: rd_fail_def rd_ok_def status_error_def status_ok_def)

lemma rd_atI: "rd_at rd (xs @ bs) \<Longrightarrow> rd_at (rd_advance (length xs) rd) bs"
  by (rule rd_at_advance) auto

lemma rd_at_ok: "rd_at rd bs \<Longrightarrow> rd_ok rd"
  by (simp add: rd_at_def)

lemma rd_at_short: "rd_at rd bs \<Longrightarrow> length bs < n \<Longrightarrow> fst (rd_need n rd) = False \<and> \<not> rd_ok (snd (rd_need n rd))"
  by (auto simp: rd_at_def rd_need_def)

lemma rd_need_at:
  assumes "rd_at rd bs"
  shows "rd_need n rd = (n \<le> length bs, snd (rd_need n rd))" "n \<le> length bs \<Longrightarrow> snd (rd_need n rd) = rd"
    "\<not> n \<le> length bs \<Longrightarrow> \<not> rd_ok (snd (rd_need n rd))"
  using assms by (auto simp: rd_at_def rd_need_def)

text \<open>A scalar read of \<open>n\<close> bytes through a value function.\<close>

lemma exact_scalar:
  assumes r: "\<And>rd. r rd = (case rd_need n rd of (False, rd') \<Rightarrow> (z, rd') | (True, rd') \<Rightarrow> (val rd', rd_advance n rd'))"
    and w: "\<And>v. length (w v) = n" "\<And>rd rest v. rd_at rd (w v @ rest) \<Longrightarrow> val rd = v"
    and whole: "\<And>rd xs rest. rd_at rd (xs @ rest) \<Longrightarrow> length xs = n \<Longrightarrow> w (val rd) = xs"
  shows "exact_reader r (\<lambda>v out. out = w v)"
  unfolding exact_reader_def
proof (intro conjI allI impI)
  fix rd bs v rd'
  assume at: "rd_at rd bs"
  show "r rd = (v, rd') \<and> rd_ok rd' \<longleftrightarrow>
      (\<exists>out rest. out = w v \<and> bs = out @ rest \<and> rd' = rd_advance (length out) rd)" (is "?L \<longleftrightarrow> ?R")
  proof (cases "n \<le> length bs")
    case True
    then have need: "r rd = (val rd, rd_advance n rd)" using rd_at_need[OF at True] by (simp add: r)
    have split: "bs = take n bs @ drop n bs" by simp
    have "w (val rd) = take n bs" using whole[of rd "take n bs" "drop n bs"] at True by simp
    then show ?thesis using need rd_at_ok[OF at] w split at by (auto intro: exI[of _ "drop n bs"])
  next
    case False
    then have "\<not> ?R" using w by auto
    moreover have "\<not> rd_ok (snd (r rd))"
      using rd_need_at[OF at, of n] False by (cases "rd_need n rd") (auto simp: r)
    ultimately show ?thesis by auto
  qed
qed (simp add: r)

lemma byte_split:
  "(\<lambda>i. ucast (drop_bit (8 * i) v AND 0xFF) :: u8) = (\<lambda>i. ucast (drop_bit (8 * i) (v :: 'a::len word)))"
  if "8 \<le> LENGTH('a)"
  using byte_of[OF that] by simp

text \<open>Splitting a joined word gives its bytes back.\<close>

lemma bit_join:
  "bit (fold (\<lambda>i acc. acc OR push_bit (8 * i) (ucast (f i :: u8))) [0..<k] (0 :: 'a::len word)) n \<longleftrightarrow>
     n < LENGTH('a) \<and> n div 8 < k \<and> bit (f (n div 8)) (n mod 8)"
proof (induction k)
  case (Suc k)
  have d: "n - 8 * k < 8 \<longleftrightarrow> n div 8 \<le> k" if "8 * k \<le> n" using that by linarith
  have eq: "n div 8 = k \<and> n mod 8 = n - 8 * k" if "8 * k \<le> n" "n - 8 * k < 8"
  proof -
    have "n = 8 * k + (n - 8 * k)" using that by simp
    with that(2) show ?thesis by (metis div_mult_self4 div_less mod_less mod_mult_self4 add.commute add_0
          zero_neq_numeral)
  qed
  have len: "bit (f k) m \<Longrightarrow> m < 8" for m by (drule bit_imp_le_length) simp
  show ?case
  proof (cases "8 * k \<le> n \<and> n - 8 * k < 8")
    case True
    with eq Suc show ?thesis by (auto simp: bit_simps)
  next
    case False
    then have "n div 8 < Suc k \<longleftrightarrow> n div 8 < k" using d by (cases "8 * k \<le> n") auto
    with False Suc len show ?thesis by (auto simp: bit_simps)
  qed
qed simp

lemma split_join:
  assumes "8 * k \<le> LENGTH('a::len)" "j < k"
  shows "ucast (drop_bit (8 * j) (fold (\<lambda>i acc. acc OR push_bit (8 * i) (ucast (f i :: u8))) [0..<k] (0 :: 'a word))) = f j"
proof (rule bit_word_eqI)
  fix n assume "n < LENGTH(8)"
  then have "(8 * j + n) div 8 = j" "(8 * j + n) mod 8 = n" "8 * j + n < LENGTH('a)" using assms by auto
  then show "bit (ucast (drop_bit (8 * j) (fold (\<lambda>i acc. acc OR push_bit (8 * i) (ucast (f i :: u8))) [0..<k]
      (0 :: 'a word))) :: u8) n \<longleftrightarrow> bit (f j) n"
    using \<open>n < LENGTH(8)\<close> assms by (simp add: bit_simps bit_join)
qed

text \<open>The scalars.\<close>

lemma exact_u8: "exact_reader r_u8 (\<lambda>v out. out = w_u8 v)"
proof (rule exact_scalar)
  fix rd :: reader and xs rest assume "rd_at rd (xs @ rest)" "length xs = 1"
  then show "w_u8 (rd_byte rd 0) = xs" by (auto simp: w_u8_def rd_at_byte length_Suc_conv nth_append)
qed (auto simp: r_u8_def w_u8_def rd_at_byte nth_append)

lemma split_all:
  assumes at: "rd_at rd (xs @ rest)" and len: "length xs = k" and k: "8 * k \<le> LENGTH('a::len)"
  shows "map (\<lambda>i. ucast (drop_bit (8 * i) (fold (\<lambda>i acc. acc OR push_bit (8 * i) (ucast (rd_byte rd i)))
    [0..<k] (0 :: 'a word)))) [0..<k] = xs"
  by (rule nth_equalityI) (use len rd_at_byte[OF at] in \<open>auto simp: split_join[OF k] nth_append\<close>)

lemma exact_u32: "exact_reader r_u32 (\<lambda>v out. out = w_u32 v)"
proof (rule exact_scalar[where val = "\<lambda>r. fold (\<lambda>i v. v OR push_bit (8 * i) (ucast (rd_byte r i))) [0..<4] 0" and z = 0])
  show "r_u32 rd = (case rd_need 4 rd of (False, rd') \<Rightarrow> (0, rd') | (True, rd') \<Rightarrow>
      (fold (\<lambda>i v. v OR push_bit (8 * i) (ucast (rd_byte rd' i))) [0..<4] 0, rd_advance 4 rd'))" for rd
    by (simp only: r_u32_def)
  show "length (w_u32 v) = 4" for v by simp
  show "fold (\<lambda>i v. v OR push_bit (8 * i) (ucast (rd_byte rd i))) [0..<4] 0 = v"
    if "rd_at rd (w_u32 v @ rest)" for rd rest and v :: u32
    using fold_bytes_cong[OF that[unfolded w_u32_def]] by (simp add: take_bit_word_eq_self)
  show "w_u32 (fold (\<lambda>i v. v OR push_bit (8 * i) (ucast (rd_byte rd i))) [0..<4] 0) = xs"
    if "rd_at rd (xs @ rest)" "length xs = 4" for rd xs rest
    using split_all[OF that, where ?'a = 32] by (simp add: w_u32_def byte_of)
qed

lemma exact_u64: "exact_reader r_u64 (\<lambda>v out. out = w_u64 v)"
proof (rule exact_scalar[where val = "\<lambda>r. fold (\<lambda>i v. v OR push_bit (8 * i) (ucast (rd_byte r i))) [0..<8] 0" and z = 0])
  show "r_u64 rd = (case rd_need 8 rd of (False, rd') \<Rightarrow> (0, rd') | (True, rd') \<Rightarrow>
      (fold (\<lambda>i v. v OR push_bit (8 * i) (ucast (rd_byte rd' i))) [0..<8] 0, rd_advance 8 rd'))" for rd
    by (simp only: r_u64_def)
  show "length (w_u64 v) = 8" for v by simp
  show "fold (\<lambda>i v. v OR push_bit (8 * i) (ucast (rd_byte rd i))) [0..<8] 0 = v"
    if "rd_at rd (w_u64 v @ rest)" for rd rest and v :: u64
    using fold_bytes_cong[OF that[unfolded w_u64_def]] by (simp add: take_bit_word_eq_self)
  show "w_u64 (fold (\<lambda>i v. v OR push_bit (8 * i) (ucast (rd_byte rd i))) [0..<8] 0) = xs"
    if "rd_at rd (xs @ rest)" "length xs = 8" for rd xs rest
    using split_all[OF that, where ?'a = 64] by (simp add: w_u64_def byte_of)
qed

lemma exact_i64: "exact_reader r_i64 (\<lambda>v out. out = w_i64 v)"
  using exact_u64 by (simp add: exact_reader_def r_i64_def w_i64_def)

section \<open>Composition\<close>

named_theorems exact_rules

lemma exact_reader_cong:
  "exact_reader r R \<Longrightarrow> (\<And>v out. R v out \<longleftrightarrow> R' v out) \<Longrightarrow> exact_reader r R'"
  by (simp add: exact_reader_def)

lemma exact_cong: "exact d R \<Longrightarrow> (\<And>v out. R v out \<longleftrightarrow> R' v out) \<Longrightarrow> exact d R'"
  by (simp add: exact_def)

declare exact_u8 [exact_rules] exact_u32 [exact_rules] exact_u64 [exact_rules] exact_i64 [exact_rules]

lemma exact_readerD:
  assumes "exact_reader r R"
  shows "rd_at rd bs \<Longrightarrow> r rd = (v, rd') \<Longrightarrow> rd_ok rd' \<Longrightarrow>
      \<exists>out rest. R v out \<and> bs = out @ rest \<and> rd' = rd_advance (length out) rd \<and> rd_at rd' rest"
    "R v out \<Longrightarrow> rd_at rd (out @ rest) \<Longrightarrow> r rd = (v, rd_advance (length out) rd)"
    "\<not> rd_ok rd \<Longrightarrow> r rd = (v, rd') \<Longrightarrow> \<not> rd_ok rd'"
proof -
  have iff: "rd_at rd bs \<Longrightarrow> r rd = (v, rd') \<and> rd_ok rd' \<longleftrightarrow>
      (\<exists>out rest. R v out \<and> bs = out @ rest \<and> rd' = rd_advance (length out) rd)" for rd bs v rd'
    using assms by (simp add: exact_reader_def)
  show "\<exists>out rest. R v out \<and> bs = out @ rest \<and> rd' = rd_advance (length out) rd \<and> rd_at rd' rest"
    if "rd_at rd bs" "r rd = (v, rd')" "rd_ok rd'"
    using iff[OF that(1), of v rd'] that rd_atI by blast
  show "r rd = (v, rd_advance (length out) rd)" if "R v out" "rd_at rd (out @ rest)"
    using iff[OF that(2), of v "rd_advance (length out) rd"] that(1) by blast
  show "\<not> rd_ok rd'" if "\<not> rd_ok rd" "r rd = (v, rd')"
    using assms that by (auto simp: exact_reader_def)
qed

lemma exactD:
  assumes "exact d R"
  shows "rd_at rd bs \<Longrightarrow> d rd = Inr (v, rd') \<Longrightarrow>
      \<exists>out rest. R v out \<and> bs = out @ rest \<and> rd' = rd_advance (length out) rd \<and> rd_at rd' rest"
    "R v out \<Longrightarrow> rd_at rd (out @ rest) \<Longrightarrow> d rd = Inr (v, rd_advance (length out) rd)"
    "\<not> rd_ok rd \<Longrightarrow> d rd \<noteq> Inr x"
proof -
  have iff: "rd_at rd bs \<Longrightarrow> d rd = Inr (v, rd') \<longleftrightarrow>
      (\<exists>out rest. R v out \<and> bs = out @ rest \<and> rd' = rd_advance (length out) rd)" for rd bs v rd'
    using assms by (simp add: exact_def)
  show "\<exists>out rest. R v out \<and> bs = out @ rest \<and> rd' = rd_advance (length out) rd \<and> rd_at rd' rest"
    if "rd_at rd bs" "d rd = Inr (v, rd')"
    using iff[OF that(1), of v rd'] that rd_atI by blast
  show "d rd = Inr (v, rd_advance (length out) rd)" if "R v out" "rd_at rd (out @ rest)"
    using iff[OF that(2), of v "rd_advance (length out) rd"] that(1) by blast
  show "d rd \<noteq> Inr x" if "\<not> rd_ok rd"
    using assms that by (auto simp: exact_def isl_def)
qed

lemma exact_readerI:
  assumes "\<And>rd v rd'. \<not> rd_ok rd \<Longrightarrow> r rd = (v, rd') \<Longrightarrow> \<not> rd_ok rd'"
    and "\<And>rd bs v rd'. rd_at rd bs \<Longrightarrow> r rd = (v, rd') \<Longrightarrow> rd_ok rd' \<Longrightarrow>
      \<exists>out rest. R v out \<and> bs = out @ rest \<and> rd' = rd_advance (length out) rd"
    and "\<And>rd v out rest. R v out \<Longrightarrow> rd_at rd (out @ rest) \<Longrightarrow> r rd = (v, rd_advance (length out) rd)"
  shows "exact_reader r R"
  unfolding exact_reader_def
proof (intro conjI allI impI iffI)
  fix rd assume "\<not> rd_ok rd" then show "\<not> rd_ok (snd (r rd))" by (cases "r rd") (auto dest: assms(1))
next
  fix rd bs v rd' assume "rd_at rd bs" "r rd = (v, rd') \<and> rd_ok rd'"
  then show "\<exists>out rest. R v out \<and> bs = out @ rest \<and> rd' = rd_advance (length out) rd" using assms(2) by blast
next
  fix rd bs v rd' assume "rd_at rd bs" "\<exists>out rest. R v out \<and> bs = out @ rest \<and> rd' = rd_advance (length out) rd"
  then show "r rd = (v, rd')" "rd_ok rd'" using assms(3) by (auto dest: rd_at_ok)
qed

lemma exactI:
  assumes "\<And>rd x. \<not> rd_ok rd \<Longrightarrow> d rd \<noteq> Inr x"
    and "\<And>rd bs v rd'. rd_at rd bs \<Longrightarrow> d rd = Inr (v, rd') \<Longrightarrow>
      \<exists>out rest. R v out \<and> bs = out @ rest \<and> rd' = rd_advance (length out) rd"
    and "\<And>rd v out rest. R v out \<Longrightarrow> rd_at rd (out @ rest) \<Longrightarrow> d rd = Inr (v, rd_advance (length out) rd)"
  shows "exact d R"
  unfolding exact_def
proof (intro conjI allI impI iffI)
  fix rd assume "\<not> rd_ok rd" then show "isl (d rd)" using assms(1) by (cases "d rd") auto
next
  fix rd bs v rd' assume "rd_at rd bs" "d rd = Inr (v, rd')"
  then show "\<exists>out rest. R v out \<and> bs = out @ rest \<and> rd' = rd_advance (length out) rd" using assms(2) by blast
next
  fix rd bs v rd' assume "rd_at rd bs" "\<exists>out rest. R v out \<and> bs = out @ rest \<and> rd' = rd_advance (length out) rd"
  then show "d rd = Inr (v, rd')" using assms(3) by auto
qed

lemma exact_reader_return [exact_rules]: "exact_reader (\<lambda>rd. (c, rd)) (\<lambda>v out. v = c \<and> out = [])"
  by (rule exact_readerI) auto

text \<open>\<open>reader.fail\<close> after the fields have been read.\<close>

lemma exact_reader_guard [exact_rules]:
  "code \<noteq> SC_OK \<Longrightarrow> exact_reader (\<lambda>rd. (c, if rd_ok rd \<and> b then rd_fail code msg rd else rd))
     (\<lambda>v out. v = c \<and> \<not> b \<and> out = [])"
  by (rule exact_readerI) (auto dest: rd_at_ok split: if_splits)

lemma exact_reader_bind [exact_rules]:
  assumes r: "exact_reader r R" and k: "\<And>a. exact_reader (k a) (S a)"
  shows "exact_reader (\<lambda>rd. case r rd of (a, rd1) \<Rightarrow> k a rd1)
    (\<lambda>v out. \<exists>a o1 o2. R a o1 \<and> S a v o2 \<and> out = o1 @ o2)"
proof (rule exact_readerI)
  fix rd v rd' assume bad: "\<not> rd_ok rd" and eq: "(case r rd of (a, rd1) \<Rightarrow> k a rd1) = (v, rd')"
  obtain a rd1 where 1: "r rd = (a, rd1)" by fastforce
  show "\<not> rd_ok rd'" using exact_readerD(3)[OF k exact_readerD(3)[OF r bad 1]] 1 eq by simp
next
  fix rd bs v rd'
  assume at: "rd_at rd bs" and eq: "(case r rd of (a, rd1) \<Rightarrow> k a rd1) = (v, rd')" and ok: "rd_ok rd'"
  obtain a rd1 where 1: "r rd = (a, rd1)" by fastforce
  with eq have 2: "k a rd1 = (v, rd')" by simp
  then have ok1: "rd_ok rd1" using ok exact_readerD(3)[OF k] by blast
  obtain o1 rest1 where o1: "R a o1" "bs = o1 @ rest1" "rd1 = rd_advance (length o1) rd" "rd_at rd1 rest1"
    using exact_readerD(1)[OF r at 1 ok1] by blast
  obtain o2 rest where o2: "S a v o2" "rest1 = o2 @ rest" "rd' = rd_advance (length o2) rd1"
    using exact_readerD(1)[OF k o1(4) 2 ok] by blast
  show "\<exists>out rest. (\<exists>a o1 o2. R a o1 \<and> S a v o2 \<and> out = o1 @ o2) \<and> bs = out @ rest \<and>
      rd' = rd_advance (length out) rd"
    by (rule exI[of _ "o1 @ o2"]) (use o1 o2 in auto)
next
  fix rd v out rest
  assume "\<exists>a o1 o2. R a o1 \<and> S a v o2 \<and> out = o1 @ o2" and at: "rd_at rd (out @ rest)"
  then obtain a o1 o2 where 1: "R a o1" "S a v o2" "out = o1 @ o2" by blast
  have at1: "rd_at rd (o1 @ (o2 @ rest))" using at 1(3) by simp
  show "(case r rd of (a, rd1) \<Rightarrow> k a rd1) = (v, rd_advance (length out) rd)"
    using exact_readerD(2)[OF r 1(1) at1] exact_readerD(2)[OF k 1(2) rd_atI[OF at1]] 1(3) by simp
qed

lemma exact_bind_reader [exact_rules]:
  assumes r: "exact_reader r R" and k: "\<And>a. exact (k a) (S a)"
  shows "exact (\<lambda>rd. case r rd of (a, rd1) \<Rightarrow> k a rd1)
    (\<lambda>v out. \<exists>a o1 o2. R a o1 \<and> S a v o2 \<and> out = o1 @ o2)"
proof (rule exactI)
  fix rd x assume bad: "\<not> rd_ok rd"
  obtain a rd1 where 1: "r rd = (a, rd1)" by fastforce
  show "(case r rd of (a, rd1) \<Rightarrow> k a rd1) \<noteq> Inr x"
    using exactD(3)[OF k exact_readerD(3)[OF r bad 1]] 1 by simp
next
  fix rd bs v rd'
  assume at: "rd_at rd bs" and eq: "(case r rd of (a, rd1) \<Rightarrow> k a rd1) = Inr (v, rd')"
  obtain a rd1 where 1: "r rd = (a, rd1)" by fastforce
  with eq have 2: "k a rd1 = Inr (v, rd')" by simp
  then have ok1: "rd_ok rd1" using exactD(3)[OF k] by blast
  obtain o1 rest1 where o1: "R a o1" "bs = o1 @ rest1" "rd1 = rd_advance (length o1) rd" "rd_at rd1 rest1"
    using exact_readerD(1)[OF r at 1 ok1] by blast
  obtain o2 rest where o2: "S a v o2" "rest1 = o2 @ rest" "rd' = rd_advance (length o2) rd1"
    using exactD(1)[OF k o1(4) 2] by blast
  show "\<exists>out rest. (\<exists>a o1 o2. R a o1 \<and> S a v o2 \<and> out = o1 @ o2) \<and> bs = out @ rest \<and>
      rd' = rd_advance (length out) rd"
    by (rule exI[of _ "o1 @ o2"]) (use o1 o2 in auto)
next
  fix rd v out rest
  assume "\<exists>a o1 o2. R a o1 \<and> S a v o2 \<and> out = o1 @ o2" and at: "rd_at rd (out @ rest)"
  then obtain a o1 o2 where 1: "R a o1" "S a v o2" "out = o1 @ o2" by blast
  have at1: "rd_at rd (o1 @ (o2 @ rest))" using at 1(3) by simp
  show "(case r rd of (a, rd1) \<Rightarrow> k a rd1) = Inr (v, rd_advance (length out) rd)"
    using exact_readerD(2)[OF r 1(1) at1] exactD(2)[OF k 1(2) rd_atI[OF at1]] 1(3) by simp
qed

text \<open>A decoder that is only run on a reader that has not failed.\<close>

definition exact_ok :: "'a decoder \<Rightarrow> ('a \<Rightarrow> bytes \<Rightarrow> bool) \<Rightarrow> bool" where
  "exact_ok d R \<longleftrightarrow> (\<forall>rd bs v rd'. rd_at rd bs \<longrightarrow> (d rd = Inr (v, rd') \<longleftrightarrow>
     (\<exists>out rest. R v out \<and> bs = out @ rest \<and> rd' = rd_advance (length out) rd)))"

lemma exact_okD:
  assumes "exact_ok d R"
  shows "rd_at rd bs \<Longrightarrow> d rd = Inr (v, rd') \<Longrightarrow>
      \<exists>out rest. R v out \<and> bs = out @ rest \<and> rd' = rd_advance (length out) rd"
    "R v out \<Longrightarrow> rd_at rd (out @ rest) \<Longrightarrow> d rd = Inr (v, rd_advance (length out) rd)"
  using assms unfolding exact_ok_def by blast+

lemma exact_ok_exact: "exact d R \<Longrightarrow> exact_ok d R"
  by (simp add: exact_def exact_ok_def)

lemma exact_ok_cong: "exact_ok d R \<Longrightarrow> (\<And>v out. R v out \<longleftrightarrow> R' v out) \<Longrightarrow> exact_ok d R'"
  by (simp add: exact_ok_def)

lemma exact_ok_return [exact_rules]: "exact_ok (\<lambda>rd. Inr (c, rd)) (\<lambda>v out. v = c \<and> out = [])"
  unfolding exact_ok_def by auto

lemma exact_iff: "exact d R \<longleftrightarrow> exact_ok d R \<and> (\<forall>rd. \<not> rd_ok rd \<longrightarrow> isl (d rd))"
  by (auto simp: exact_def exact_ok_def)

lemma exact_ok_seq:
  assumes r: "exact_ok d R" and k: "\<And>a. exact_ok (k a) (S a)"
  shows "exact_ok (\<lambda>rd. and_then (d rd) k) (\<lambda>v out. \<exists>a o1 o2. R a o1 \<and> S a v o2 \<and> out = o1 @ o2)"
  unfolding exact_ok_def
proof (intro allI impI iffI)
  fix rd bs v rd'
  assume at: "rd_at rd bs" and eq: "and_then (d rd) k = Inr (v, rd')"
  obtain a rd1 where 1: "d rd = Inr (a, rd1)" and 2: "k a rd1 = Inr (v, rd')"
    using eq by (auto simp: and_then_def split: sum.splits)
  obtain o1 rest1 where o1: "R a o1" "bs = o1 @ rest1" "rd1 = rd_advance (length o1) rd"
    using exact_okD(1)[OF r at 1] by blast
  have "rd_at rd1 rest1" using rd_atI at o1 by blast
  then obtain o2 rest where o2: "S a v o2" "rest1 = o2 @ rest" "rd' = rd_advance (length o2) rd1"
    using exact_okD(1)[OF k _ 2] by blast
  show "\<exists>out rest. (\<exists>a o1 o2. R a o1 \<and> S a v o2 \<and> out = o1 @ o2) \<and> bs = out @ rest \<and>
      rd' = rd_advance (length out) rd"
    by (rule exI[of _ "o1 @ o2"]) (use o1 o2 in auto)
next
  fix rd bs v rd'
  assume at: "rd_at rd bs" and "\<exists>out rest. (\<exists>a o1 o2. R a o1 \<and> S a v o2 \<and> out = o1 @ o2) \<and>
      bs = out @ rest \<and> rd' = rd_advance (length out) rd"
  then obtain a o1 o2 rest where 1: "R a o1" "S a v o2" "bs = o1 @ (o2 @ rest)"
      "rd' = rd_advance (length (o1 @ o2)) rd" by auto
  have at1: "rd_at rd (o1 @ (o2 @ rest))" using at 1(3) by simp
  show "and_then (d rd) k = Inr (v, rd')"
    using exact_okD(2)[OF r 1(1) at1] exact_okD(2)[OF k 1(2) rd_atI[OF at1]] 1(4) by (simp add: and_then_def)
qed

lemma exact_and_then [exact_rules]:
  assumes "exact d R" and "\<And>a. exact_ok (k a) (S a)"
  shows "exact (\<lambda>rd. and_then (d rd) k) (\<lambda>v out. \<exists>a o1 o2. R a o1 \<and> S a v o2 \<and> out = o1 @ o2)"
  using exact_ok_seq[of d R k S] assms
  by (auto simp: exact_iff and_then_def isl_def)

lemmas exact_ok_and_then [exact_rules] = exact_ok_exact[OF exact_and_then]
lemmas exact_ok_bind_reader [exact_rules] = exact_ok_exact[OF exact_bind_reader]

lemma exact_checked [exact_rules]: "exact_ok d R \<Longrightarrow> exact (checked d) R"
  by (rule exactI) (auto simp: checked_def dest: exact_okD rd_at_ok split: if_splits)

lemmas exact_ok_checked [exact_rules] = exact_ok_exact[OF exact_checked]

lemma exact_ok_yield [exact_rules]: "exact_ok (yield_value c) (\<lambda>v out. v = c \<and> out = [])"
  unfolding exact_ok_def yield_value_def by auto

section \<open>Checked scalars, strings and lists\<close>

text \<open>A scalar that is accepted only when a test on it succeeds.\<close>

lemma exact_reader_filter:
  assumes r: "exact_reader p R" and code: "code \<noteq> SC_OK"
  shows "exact_reader (\<lambda>rd. case p rd of (raw, rd1) \<Rightarrow> if \<not> rd_ok rd1 then (z, rd1)
      else if bad raw then (z, rd_fail code (msg raw) rd1) else (f raw, rd1))
    (\<lambda>v out. \<exists>raw. R raw out \<and> \<not> bad raw \<and> v = f raw)"
proof (rule exact_reader_cong)
  show "exact_reader (\<lambda>rd. case p rd of (raw, rd1) \<Rightarrow> if \<not> rd_ok rd1 then (z, rd1)
      else if bad raw then (z, rd_fail code (msg raw) rd1) else (f raw, rd1))
    (\<lambda>v out. \<exists>a o1 o2. R a o1 \<and> (\<not> bad a \<and> v = f a \<and> o2 = []) \<and> out = o1 @ o2)"
    by (rule exact_reader_bind[OF r], rule exact_readerI)
      (use code in \<open>auto dest: rd_at_ok split: if_splits\<close>)
qed auto

lemma exact_boolean [exact_rules]: "exact_reader r_boolean (\<lambda>v out. out = w_boolean v)"
proof (rule exact_reader_cong)
  show "exact_reader r_boolean (\<lambda>v out. \<exists>raw. out = w_u8 raw \<and> \<not> raw > 1 \<and> v = (raw = 1))"
    unfolding r_boolean_def[abs_def] Let_def by (rule exact_reader_filter[OF exact_u8]) simp
  show "(\<exists>raw. out = w_u8 raw \<and> \<not> raw > 1 \<and> v = (raw = 1)) \<longleftrightarrow> out = w_boolean v" for v out
  proof -
    have "raw = 0 \<or> raw = 1" if "\<not> raw > 1" for raw :: u8
    proof -
      have "unat raw \<le> 1" using that by (simp add: not_less word_le_nat_alt)
      then have "unat raw = unat (0 :: u8) \<or> unat raw = unat (1 :: u8)" by (simp add: le_Suc_eq)
      then show ?thesis by (simp only: word_unat_eq_iff)
    qed
    then show ?thesis by (auto simp: w_boolean_def) 
  qed
qed

text \<open>An enumeration: \<open>static_cast\<close> takes the raw byte to the enumerator at that position.\<close>

lemma exact_enum:
  assumes all: "map raw es = map of_nat [0..<unat n]" and inj: "\<And>a b. raw a = raw b \<Longrightarrow> a = b"
  shows "exact_reader (r_enum (\<lambda>b. es ! unat b) n what) (\<lambda>v out. raw v < n \<and> out = w_u8 (raw v))"
proof (rule exact_reader_cong)
  show "exact_reader (r_enum (\<lambda>b. es ! unat b) n what)
      (\<lambda>v out. \<exists>b. out = w_u8 b \<and> \<not> b \<ge> n \<and> v = es ! unat b)"
    unfolding r_enum_def[abs_def] Let_def by (rule exact_reader_filter[OF exact_u8]) simp
  have len: "length es = unat n" using arg_cong[OF all, of length] by simp
  have at: "raw (es ! unat b) = b" if "b < n" for b
  proof -
    have "unat b < length es" using that by (simp add: len word_less_nat_alt)
    then have "raw (es ! unat b) = map raw es ! unat b" by simp
    also have "\<dots> = b" using that by (simp add: all word_less_nat_alt del: map_map)
    finally show ?thesis .
  qed
  show "(\<exists>b. out = w_u8 b \<and> \<not> b \<ge> n \<and> v = es ! unat b) \<longleftrightarrow> raw v < n \<and> out = w_u8 (raw v)" for v out
    using at inj by (auto simp: not_le intro!: exI[of _ "raw v"])
qed

lemma exact_bounded_count:
  "exact_reader (r_bounded_count m what) (\<lambda>v out. v \<le> m \<and> out = w_u32 v)"
proof (rule exact_reader_cong)
  show "exact_reader (r_bounded_count m what) (\<lambda>v out. \<exists>raw. out = w_u32 raw \<and> \<not> raw > m \<and> v = raw)"
    unfolding r_bounded_count_def[abs_def] Let_def by (rule exact_reader_filter[OF exact_u32]) simp
qed auto

lemma exact_take:
  assumes code: "code \<noteq> SC_OK"
  shows "exact_reader (\<lambda>rd. if \<not> rd_ok rd then (z, rd) else if n > m then (z, rd_fail code msg rd)
      else case rd_need n rd of (False, rd') \<Rightarrow> (z, rd')
        | (True, rd') \<Rightarrow> (f (take n (drop (rd_offset rd') (rd_data rd'))), rd_advance n rd'))
    (\<lambda>v out. n \<le> m \<and> length out = n \<and> v = f out)"
proof (rule exact_readerI)
  fix rd bs v rd'
  assume at: "rd_at rd bs" and ok: "rd_ok rd'"
    and eq: "(if \<not> rd_ok rd then (z, rd) else if n > m then (z, rd_fail code msg rd)
      else case rd_need n rd of (False, rd') \<Rightarrow> (z, rd')
        | (True, rd') \<Rightarrow> (f (take n (drop (rd_offset rd') (rd_data rd'))), rd_advance n rd')) = (v, rd')"
  have le: "n \<le> m" "n \<le> length bs"
    using eq ok at code rd_need_at[OF at, of n] by (auto dest: rd_at_ok split: if_splits prod.splits bool.splits)
  with eq at have "v = f (take n bs) \<and> rd' = rd_advance n rd"
    using rd_need_at(2)[OF at, of n] rd_need_at(1)[OF at, of n]
    by (auto simp: rd_at_def split: prod.splits bool.splits)
  then show "\<exists>out rest. (n \<le> m \<and> length out = n \<and> v = f out) \<and> bs = out @ rest \<and> rd' = rd_advance (length out) rd"
    using le by (intro exI[of _ "take n bs"] exI[of _ "drop n bs"]) simp
next
  fix rd v out rest
  assume o: "n \<le> m \<and> length out = n \<and> v = f out" and at: "rd_at rd (out @ rest)"
  then have "rd_need n rd = (True, rd)" by (simp add: rd_at_need)
  then show "(if \<not> rd_ok rd then (z, rd) else if n > m then (z, rd_fail code msg rd)
      else case rd_need n rd of (False, rd') \<Rightarrow> (z, rd')
        | (True, rd') \<Rightarrow> (f (take n (drop (rd_offset rd') (rd_data rd'))), rd_advance n rd')) =
      (v, rd_advance (length out) rd)"
    using o at by (auto simp: rd_at_def)
qed (auto split: if_splits prod.splits)

lemma of_nat_length: "length v < 2 ^ 32 \<Longrightarrow> unat (of_nat (length v) :: u32) = length v"
  by (simp add: unat_of_nat)

lemma exact_str [exact_rules]:
  "exact_reader (r_str m) (\<lambda>v out. length v \<le> m \<and> length v < 2 ^ 32 \<and> out = w_str v)"
proof (rule exact_reader_cong)
  show "exact_reader (r_str m) (\<lambda>v out. \<exists>len o1 o2. o1 = w_u32 len \<and>
      (unat len \<le> m \<and> length o2 = unat len \<and> v = map (\<lambda>b. char_of (unat b)) o2) \<and> out = o1 @ o2)"
    unfolding r_str_def[abs_def] Let_def by (rule exact_reader_bind[OF exact_u32 exact_take]) simp
  fix v out
  have round: "map (of_char :: char \<Rightarrow> u8) (map (\<lambda>b. char_of (unat b)) o2) = o2" for o2 :: bytes
  proof -
    have "(of_char (char_of (unat b)) :: u8) = b" for b :: u8
    proof -
      have "unat (of_char (char_of (unat b) :: char) :: u8) = of_char (char_of (unat b) :: char)"
        by (rule unat_of_char)
      also have "\<dots> = unat b mod 256" by simp
      also have "\<dots> = unat b" using unsigned_less[of b, where ?'a = nat] by simp
      finally show ?thesis by (simp only: word_unat_eq_iff)
    qed
    then show ?thesis by (simp add: map_idI)
  qed
  have rnd2: "map (\<lambda>b. char_of (unat b)) (map (of_char :: char \<Rightarrow> u8) v) = v" for v :: string
    by (simp add: unat_of_char comp_def)
  show "(\<exists>len o1 o2. o1 = w_u32 len \<and>
      (unat len \<le> m \<and> length o2 = unat len \<and> v = map (\<lambda>b. char_of (unat b)) o2) \<and> out = o1 @ o2) \<longleftrightarrow>
      length v \<le> m \<and> length v < 2 ^ 32 \<and> out = w_str v" (is "?L \<longleftrightarrow> ?R")
  proof
    assume ?L
    then obtain len o2 where 1: "unat len \<le> m" "length o2 = unat (len :: u32)" "v = map (\<lambda>b. char_of (unat b)) o2"
      "out = w_u32 len @ o2" by blast
    have "(of_nat (length o2) :: u32) = len" by (simp add: 1)
    with 1 show ?R using unsigned_less[of len, where ?'a = nat] round[of o2] by (simp add: w_str_def)
  next
    assume ?R
    then show ?L
      by (intro exI[of _ "of_nat (length v)"] exI[of _ "w_u32 (of_nat (length v))"]
          exI[of _ "map of_char v"]) (simp add: w_str_def of_nat_length rnd2[of v, simplified])
  qed
qed

text \<open>The counted element loops.\<close>

lemma exact_times:
  assumes d: "exact d (\<lambda>v out. P v \<and> out = w v)"
  shows "exact_ok (decode_times n d) (\<lambda>vs out. length vs = n \<and> list_all P vs \<and> out = concat (map w vs))"
proof (induction n)
  case 0
  show ?case unfolding exact_ok_def by auto
next
  case (Suc n)
  show ?case
    unfolding decode_times.simps[abs_def]
    by (rule exact_ok_cong[OF exact_ok_and_then[OF d exact_ok_seq[OF Suc exact_ok_return]]])
      (auto simp: length_Suc_conv)
qed

lemma exact_list:
  assumes d: "exact d (\<lambda>v out. P v \<and> out = w v)"
  shows "exact (decode_list m what d)
    (\<lambda>vs out. length vs \<le> unat m \<and> list_all P vs \<and> out = w_list w vs)"
proof (rule exact_cong)
  show "exact (decode_list m what d) (\<lambda>vs out. \<exists>cnt o1 o2. (cnt \<le> m \<and> o1 = w_u32 cnt) \<and>
      (length vs = unat cnt \<and> list_all P vs \<and> o2 = concat (map w vs)) \<and> out = o1 @ o2)"
    unfolding decode_list_def[abs_def]
    by (rule exact_bind_reader[OF exact_bounded_count exact_checked[OF exact_times[OF d]]])
  fix vs out
  have lt: "unat m < 2 ^ 32" using unsigned_less[of m, where ?'a = nat] by simp
  show "(\<exists>cnt o1 o2. (cnt \<le> m \<and> o1 = w_u32 cnt) \<and>
      (length vs = unat cnt \<and> list_all P vs \<and> o2 = concat (map w vs)) \<and> out = o1 @ o2) \<longleftrightarrow>
      length vs \<le> unat m \<and> list_all P vs \<and> out = w_list w vs" (is "?L \<longleftrightarrow> ?R")
  proof
    assume ?R
    then have "unat (of_nat (length vs) :: u32) = length vs" using lt by (simp add: unat_of_nat)
    with \<open>?R\<close> show ?L
      by (intro exI[of _ "of_nat (length vs)"]) (simp add: w_list_def word_le_nat_alt)
  qed (auto simp: w_list_def word_le_nat_alt)
qed

lemma exact_element [exact_rules]:
  assumes r: "exact_reader r R"
  shows "exact (element r) R"
  unfolding element_def[abs_def]
  by (rule exact_cong[OF exact_bind_reader[OF r exact_checked[OF exact_ok_yield]]]) auto

end
