(* ===== verification/NRP_Codec.thy ===== *)
theory NRP_Codec
  imports NRP_Decode NRP_Plan
begin

text \<open>
  The decoders of the domain objects (\<open>src/codec.cpp\<close>), the counterparts of the encoders that the
  earlier theories state with their records. A decoder returns the \<open>Status\<close> it fails with, or the
  value and the reader behind it. Each is proved exact with respect to its encoder: it accepts the
  encodings of the values within the model limits, and no other bytes.
\<close>

section \<open>Enumerations\<close>

text \<open>The enumerators in the order of their values, for \<open>static_cast\<close> from a checked byte.\<close>

definition subject_kinds :: "subject_kind list" where
  "subject_kinds = [SK_NONE, SK_NODE, SK_LINK, SK_SERVICE, SK_RESOURCE, SK_ACTION, SK_FABRIC]"

definition resource_kinds :: "resource_kind list" where
  "resource_kinds = [RK_CONSUMABLE, RK_REUSABLE]"

definition precondition_kinds :: "precondition_kind list" where
  "precondition_kinds = [PK_LINK_OPERATIONAL, PK_LINK_NOT_OPERATIONAL, PK_NODE_OPERATIONAL,
     PK_NODE_NOT_OPERATIONAL, PK_SERVICE_REACHABLE_AT_LEAST, PK_SERVICE_REACHABLE_AT_MOST,
     PK_RESOURCE_AVAILABLE_AT_LEAST, PK_ACTION_EXECUTED_AT_LEAST]"

definition effect_kinds :: "effect_kind list" where
  "effect_kinds = [FK_SET_LINK_OPERATIONAL, FK_SET_NODE_OPERATIONAL, FK_SERVICE_REACHABLE_DELTA,
     FK_MARK_RESOURCE_RESTORED, FK_SET_SERVICE_REACHABLE, FK_SET_RESOURCE_AVAILABLE]"

definition action_kinds :: "action_kind list" where
  "action_kinds = [AK_REROUTE, AK_REPLACE, AK_RESTART, AK_DRAIN, AK_ISOLATE, AK_RESTORE, AK_DEGRADE]"

definition reversibilities :: "reversibility list" where
  "reversibilities = [RV_REVERSIBLE, RV_IRREVERSIBLE]"

definition goal_kinds :: "goal_kind list" where
  "goal_kinds = [GK_SERVICE_REACHABLE_AT_LEAST, GK_LINK_OPERATIONAL, GK_NODE_OPERATIONAL,
     GK_RESOURCE_RESTORED]"

definition authority_domains :: "authority_domain list" where
  "authority_domains = [AD_FABRIC_STATE, AD_RECOVERY_ADMISSION, AD_RESOURCE_LEASE, AD_POLICY,
     AD_EVIDENCE_INGEST]"

definition authority_levels :: "authority_level list" where
  "authority_levels = [AL_NONE, AL_OBSERVATION, AL_ELIGIBILITY, AL_RECOMMENDATION, AL_AUTHORIZATION,
     AL_ACKNOWLEDGEMENT, AL_VERIFIED_EFFECT]"

definition evidence_kinds :: "evidence_kind list" where
  "evidence_kinds = [EK_LINK_OPERATIONAL, EK_NODE_OPERATIONAL, EK_SERVICE_REACHABLE_ENDPOINTS,
     EK_RESOURCE_AVAILABLE_UNITS, EK_RESOURCE_RESTORED]"

definition trust_labels :: "trust_label list" where
  "trust_labels = [TL_UNKNOWN, TL_REAL, TL_SYNTHETIC, TL_UNSUPPORTED]"

definition read_authority_domain :: "string \<Rightarrow> reader \<Rightarrow> authority_domain \<times> reader" where
  "read_authority_domain what = r_enum (\<lambda>b. authority_domains ! unat b) 5 what"

definition read_authority_level :: "string \<Rightarrow> reader \<Rightarrow> authority_level \<times> reader" where
  "read_authority_level what = r_enum (\<lambda>b. authority_levels ! unat b) 7 what"

definition read_evidence_kind :: "string \<Rightarrow> reader \<Rightarrow> evidence_kind \<times> reader" where
  "read_evidence_kind what = r_enum (\<lambda>b. evidence_kinds ! unat b) 5 what"

definition read_subject_kind :: "string \<Rightarrow> reader \<Rightarrow> subject_kind \<times> reader" where
  "read_subject_kind what = r_enum (\<lambda>b. subject_kinds ! unat b) 7 what"

lemma exact_subject_kind [exact_rules]:
  "exact_reader (read_subject_kind what) (\<lambda>v out. out = w_u8 (raw_subject_kind v))"
  unfolding read_subject_kind_def
  by (rule exact_reader_cong[OF exact_enum[where raw = raw_subject_kind]])
    (simp_all add: subject_kinds_def upt_rec, case_tac v, simp_all)

text \<open>\<open>read_subject\<close>: the kind NONE is not addressable.\<close>

definition read_subject :: "string \<Rightarrow> reader \<Rightarrow> subject \<times> reader" where
  "read_subject what rd =
     (case read_subject_kind what rd of (kind, rd) \<Rightarrow>
      case r_u64 rd of (i, rd) \<Rightarrow>
        (Subject kind i,
         if rd_ok rd \<and> kind = SK_NONE
         then rd_fail SC_PROTOCOL_ERROR (''subject kind NONE is not addressable in '' @ what) rd
         else rd))"

section \<open>Definitions\<close>

definition read_node :: "reader \<Rightarrow> node_spec \<times> reader" where
  "read_node rd = (case r_u64 rd of (i, rd) \<Rightarrow> case r_boolean rd of (p, rd) \<Rightarrow>
     (\<lparr>nd_id = i, nd_protected = p\<rparr>, rd))"

definition read_link :: "reader \<Rightarrow> link_spec \<times> reader" where
  "read_link rd = (case r_u64 rd of (i, rd) \<Rightarrow> case r_u64 rd of (a, rd) \<Rightarrow> case r_u64 rd of (b, rd) \<Rightarrow>
     (\<lparr>lk_id = i, lk_endpoint_a = a, lk_endpoint_b = b\<rparr>, rd))"

definition read_service :: "reader \<Rightarrow> service_spec \<times> reader" where
  "read_service rd = (case r_u64 rd of (i, rd) \<Rightarrow> case r_u32 rd of (req, rd) \<Rightarrow>
     case r_u32 rd of (target, rd) \<Rightarrow> case r_u32 rd of (m, rd) \<Rightarrow> case r_boolean rd of (p, rd) \<Rightarrow>
     (\<lparr>sv_id = i, sv_required = req, sv_target = target, sv_max = m, sv_protected = p\<rparr>, rd))"

definition read_resource :: "reader \<Rightarrow> resource_spec \<times> reader" where
  "read_resource rd = (case r_u64 rd of (i, rd) \<Rightarrow>
     case r_enum (\<lambda>b. resource_kinds ! unat b) 2 ''resource kind'' rd of (k, rd) \<Rightarrow>
     case r_u32 rd of (c, rd) \<Rightarrow> case r_u32 rd of (h, rd) \<Rightarrow>
     (\<lparr>rs_id = i, rs_kind = k, rs_capacity = c, rs_hold_steps = h\<rparr>, rd))"

definition read_precondition :: "reader \<Rightarrow> precondition \<times> reader" where
  "read_precondition rd =
     (case r_enum (\<lambda>b. precondition_kinds ! unat b) 8 ''precondition kind'' rd of (k, rd) \<Rightarrow>
      case read_subject ''precondition'' rd of (x, rd) \<Rightarrow> case r_u64 rd of (v, rd) \<Rightarrow>
      (\<lparr>pc_kind = k, pc_subject = x, pc_value = v\<rparr>, rd))"

definition read_effect :: "reader \<Rightarrow> effect \<times> reader" where
  "read_effect rd =
     (case r_enum (\<lambda>b. effect_kinds ! unat b) 6 ''effect kind'' rd of (k, rd) \<Rightarrow>
      case read_subject ''effect'' rd of (x, rd) \<Rightarrow> case r_i64 rd of (v, rd) \<Rightarrow>
      (\<lparr>fx_kind = k, fx_subject = x, fx_value = v\<rparr>, rd))"

definition read_use :: "reader \<Rightarrow> resource_use \<times> reader" where
  "read_use rd = (case r_u64 rd of (r, rd) \<Rightarrow> case r_u32 rd of (u, rd) \<Rightarrow>
     (\<lparr>ru_resource = r, ru_units = u\<rparr>, rd))"

definition read_dependency :: "reader \<Rightarrow> action_dependency \<times> reader" where
  "read_dependency rd = (case r_u64 rd of (p, rd) \<Rightarrow> case r_u32 rd of (m, rd) \<Rightarrow>
     (\<lparr>dp_predecessor = p, dp_min_occurrences = m\<rparr>, rd))"

definition decode_action :: "model_limits \<Rightarrow> action_spec decoder" where
  "decode_action l rd =
     (case r_u64 rd of (i, rd) \<Rightarrow>
      case r_str (unat (max_string_length l)) rd of (name, rd) \<Rightarrow>
      case r_enum (\<lambda>b. action_kinds ! unat b) 7 ''action kind'' rd of (kind, rd) \<Rightarrow>
      case r_enum (\<lambda>b. reversibilities ! unat b) 2 ''action reversibility'' rd of (rvs, rd) \<Rightarrow>
      case r_u64 rd of (cmp, rd) \<Rightarrow>
      case r_u32 rd of (blast, rd) \<Rightarrow>
      case r_u32 rd of (disr, rd) \<Rightarrow>
      case r_u64 rd of (costs, rd) \<Rightarrow>
      case r_u64 rd of (dur, rd) \<Rightarrow>
      case r_u32 rd of (occ, rd) \<Rightarrow>
      case read_authority_domain ''action required_domain'' rd of (ad, rd) \<Rightarrow>
      case read_authority_level ''action required_level'' rd of (lvl, rd) \<Rightarrow>
      checked (\<lambda>rd. and_then (decode_list (max_preconditions_per_action l) ''preconditions''
        (element read_precondition) rd) (\<lambda>ps rd.
      and_then (decode_list (max_effects_per_action l) ''effects'' (element read_effect) rd) (\<lambda>fs rd.
      and_then (decode_list (max_resources l) ''resource uses per action'' (element read_use) rd) (\<lambda>us rd.
      and_then (decode_list (max_actions l) ''action dependencies'' (element read_dependency) rd) (\<lambda>ds rd.
      and_then (decode_list (max_exclusion_groups l) ''action exclusion groups'' (element r_u64) rd) (\<lambda>gs rd.
      Inr (\<lparr>ac_id = i, ac_name = name, ac_kind = kind, ac_reversibility = rvs, ac_compensation = cmp,
            ac_blast_radius = blast, ac_disruption = disr, ac_cost_units = costs,
            ac_duration_ticks = dur, ac_max_occurrences = occ, ac_required_domain = ad,
            ac_required_level = lvl, ac_preconditions = ps, ac_effects = fs, ac_resource_uses = us,
            ac_dependencies = ds, ac_exclusion_groups = gs\<rparr>, rd))))))) rd)"

definition read_goal :: "reader \<Rightarrow> goal_spec \<times> reader" where
  "read_goal rd =
     (case r_enum (\<lambda>b. goal_kinds ! unat b) 4 ''goal kind'' rd of (k, rd) \<Rightarrow>
      case read_subject ''goal'' rd of (x, rd) \<Rightarrow> case r_u64 rd of (v, rd) \<Rightarrow> case r_u32 rd of (w, rd) \<Rightarrow>
      (\<lparr>gl_kind = k, gl_subject = x, gl_value = v, gl_weight = w\<rparr>, rd))"

definition read_group :: "reader \<Rightarrow> exclusion_group \<times> reader" where
  "read_group rd = (case r_u64 rd of (i, rd) \<Rightarrow> case r_u32 rd of (m, rd) \<Rightarrow>
     (\<lparr>xg_id = i, xg_max_selected = m\<rparr>, rd))"

definition decode_definition :: "model_limits \<Rightarrow> fabric_definition decoder" where
  "decode_definition l rd =
     and_then (decode_list (max_nodes l) ''nodes'' (element read_node) rd) (\<lambda>ns rd.
     and_then (decode_list (max_links l) ''links'' (element read_link) rd) (\<lambda>ls rd.
     and_then (decode_list (max_services l) ''services'' (element read_service) rd) (\<lambda>ss rd.
     and_then (decode_list (max_resources l) ''resources'' (element read_resource) rd) (\<lambda>rs rd.
     and_then (decode_list (max_actions l) ''actions'' (decode_action l) rd) (\<lambda>as rd.
     and_then (decode_list (max_goals l) ''goals'' (element read_goal) rd) (\<lambda>gs rd.
     and_then (decode_list (max_exclusion_groups l) ''exclusion groups'' (element read_group) rd) (\<lambda>xs rd.
     Inr (\<lparr>df_nodes = ns, df_links = ls, df_services = ss, df_resources = rs, df_actions = as,
           df_goals = gs, df_exclusion_groups = xs\<rparr>, rd))))))))"

section \<open>Evidence, authority, policy and fences\<close>

definition read_fact :: "reader \<Rightarrow> evidence_fact \<times> reader" where
  "read_fact rd =
     (case r_u64 rd of (i, rd) \<Rightarrow> case read_evidence_kind ''evidence kind'' rd of (k, rd) \<Rightarrow>
      case read_subject ''evidence'' rd of (x, rd) \<Rightarrow> case r_u64 rd of (v, rd) \<Rightarrow>
      case r_u64 rd of (g, rd) \<Rightarrow> case read_authority_domain ''evidence source_domain'' rd of (ad, rd) \<Rightarrow>
      case r_u64 rd of (src, rd) \<Rightarrow>
      case r_enum (\<lambda>b. trust_labels ! unat b) 4 ''evidence trust label'' rd of (lbl, rd) \<Rightarrow>
      case r_u64 rd of (sq, rd) \<Rightarrow>
      (\<lparr>ef_id = i, ef_kind = k, ef_subject = x, ef_value = v, ef_generation = g, ef_source_domain = ad,
        ef_source = src, ef_label = lbl, ef_sequence = sq\<rparr>, rd))"

definition decode_evidence :: "model_limits \<Rightarrow> evidence_bundle decoder" where
  "decode_evidence l rd =
     (case r_u64 rd of (ep, rd) \<Rightarrow> case r_u64 rd of (bt, rd) \<Rightarrow>
      and_then (decode_list (max_evidence_facts l) ''evidence facts'' (element read_fact) rd) (\<lambda>fs rd.
      Inr (\<lparr>eb_epoch = ep, eb_boot = bt, eb_facts = fs\<rparr>, rd)))"

definition read_binding :: "reader \<Rightarrow> authority_binding \<times> reader" where
  "read_binding rd =
     (case read_authority_domain ''authority domain'' rd of (ad, rd) \<Rightarrow> case r_u64 rd of (a, rd) \<Rightarrow>
      case r_u64 rd of (req, rd) \<Rightarrow> case r_u64 rd of (gr, rd) \<Rightarrow>
      case read_authority_level ''authority level'' rd of (lvl, rd) \<Rightarrow>
      (\<lparr>ab_domain = ad, ab_authority = a, ab_required = req, ab_granted = gr, ab_level = lvl\<rparr>, rd))"

definition decode_authority :: "model_limits \<Rightarrow> authority_vector decoder" where
  "decode_authority l rd =
     (case r_u64 rd of (ep, rd) \<Rightarrow> case r_u64 rd of (bt, rd) \<Rightarrow>
      and_then (decode_list (max_authority_bindings l) ''authority bindings'' (element read_binding) rd)
       (\<lambda>bs rd. Inr (\<lparr>av_epoch = ep, av_boot = bt, av_bindings = bs\<rparr>, rd)))"

text \<open>\<open>decode_policy\<close> also refuses zero bounds, with a status of its own.\<close>

definition finish_policy :: "plan_policy \<Rightarrow> plan_policy decoder" where
  "finish_policy p rd =
     (if max_plan_steps p = 0
      then Inl (status_error SC_INVALID_ARGUMENT ''policy max_plan_steps must be at least one'')
      else if max_nodes_expanded p = 0 \<or> max_generated_states p = 0 \<or> max_frontier_entries p = 0
      then Inl (status_error SC_INVALID_ARGUMENT ''policy search budgets must be at least one'')
      else Inr (p, rd))"

definition decode_policy :: "plan_policy decoder" where
  "decode_policy rd =
     (case r_boolean rd of (irr, rd) \<Rightarrow> case r_boolean rd of (req, rd) \<Rightarrow>
      case r_u64 rd of (steps, rd) \<Rightarrow> case r_u64 rd of (nodes, rd) \<Rightarrow> case r_u64 rd of (states, rd) \<Rightarrow>
      case r_u64 rd of (entries, rd) \<Rightarrow> case r_u32 rd of (scl, rd) \<Rightarrow>
      checked (finish_policy \<lparr>allow_irreversible_actions = irr, require_current_authority = req,
        max_plan_steps = steps, max_nodes_expanded = nodes, max_generated_states = states,
        max_frontier_entries = entries, budget_scale = scl\<rparr>) rd)"

definition read_fence :: "reader \<Rightarrow> fence \<times> reader" where
  "read_fence rd =
     (case r_u64 rd of (ep, rd) \<Rightarrow> case r_u64 rd of (bt, rd) \<Rightarrow>
      case read_authority_domain ''fence domain'' rd of (ad, rd) \<Rightarrow> case r_u64 rd of (g, rd) \<Rightarrow>
      case r_u64 rd of (sq, rd) \<Rightarrow> case r_str 128 rd of (why, rd) \<Rightarrow>
      (\<lparr>fe_epoch = ep, fe_boot = bt, fe_domain = ad, fe_minimum_generation = g, fe_sequence = sq,
        fe_reason = why\<rparr>, rd))"

definition decode_fence :: "fence decoder" where
  "decode_fence = element read_fence"

section \<open>Requests\<close>

definition decode_request_body :: "model_limits \<Rightarrow> plan_request decoder" where
  "decode_request_body l rd =
     (case r_u64 rd of (i, rd) \<Rightarrow> case r_u64 rd of (ep, rd) \<Rightarrow> case r_u64 rd of (bt, rd) \<Rightarrow>
      case r_u64 rd of (att, rd) \<Rightarrow>
      checked (\<lambda>rd. and_then (decode_definition l rd) (\<lambda>d rd.
      and_then (decode_evidence l rd) (\<lambda>ev rd.
      and_then (decode_authority l rd) (\<lambda>av rd.
      and_then (decode_policy rd) (\<lambda>p rd.
      and_then (decode_list (max_fences l) ''fences'' decode_fence rd) (\<lambda>fs rd.
      Inr (\<lparr>rq_id = i, rq_epoch = ep, rq_boot = bt, rq_attempt = att, rq_definition = d,
            rq_evidence = ev, rq_authority = av, rq_policy = p, rq_fences = fs\<rparr>, rd))))))) rd)"

text \<open>The public entry point also asks for the end of the buffer.\<close>

definition decode_whole :: "'a decoder \<Rightarrow> bytes \<Rightarrow> status + 'a" where
  "decode_whole d bs = (case d (make_reader bs) of Inl e \<Rightarrow> Inl e
     | Inr (v, rd) \<Rightarrow> let e = r_require_end rd in if status_ok e then Inr v else Inl e)"

definition decode_plan_request :: "bytes \<Rightarrow> model_limits \<Rightarrow> status + plan_request" where
  "decode_plan_request bs l = decode_whole (decode_request_body l) bs"

section \<open>Explanations and plans\<close>

definition reason_codes :: "reason_code list" where
  "reason_codes = [RC_NONE, RC_PLAN_ACCEPTED, RC_PLAN_OPTIMAL_BY_OBJECTIVE, RC_PROOF_EXHAUSTIVE_SEARCH,
     RC_PROOF_DEPENDENCY_CYCLE, RC_PROOF_GOAL_UPPER_BOUND, RC_SEARCH_BUDGET_EXHAUSTED,
     RC_EVIDENCE_SUBJECT_MISSING, RC_EVIDENCE_SUBJECT_STALE,
     RC_EVIDENCE_SUBJECT_AHEAD_OF_AUTHORITY, RC_EVIDENCE_SUBJECT_CONFLICTING,
     RC_EVIDENCE_SUBJECT_INVALID, RC_EVIDENCE_SUBJECT_UNSUPPORTED,
     RC_AUTHORITY_BINDING_MISSING, RC_AUTHORITY_BINDING_STALE,
     RC_AUTHORITY_BINDING_UNKNOWN, RC_AUTHORITY_BINDING_CONFLICT,
     RC_AUTHORITY_BINDING_INVALID, RC_AUTHORITY_BINDING_UNSUPPORTED,
     RC_AUTHORITY_LEVEL_INSUFFICIENT, RC_REQUEST_INVALID_DEFINITION,
     RC_REQUEST_UNSUPPORTED_PROBLEM, RC_REQUEST_MALFORMED_ENCODING,
     RC_REQUEST_POLICY_RESTRICTED_ACTION, RC_REQUEST_FENCED_BY_EPOCH,
     RC_VALIDATION_PRECONDITION_UNMET, RC_VALIDATION_ORDERING_VIOLATION,
     RC_VALIDATION_RESOURCE_VIOLATION, RC_VALIDATION_SAFETY_VIOLATION,
     RC_VALIDATION_AUTHORITY_MISMATCH, RC_VALIDATION_EVIDENCE_BINDING_MISMATCH,
     RC_VALIDATION_GOAL_UNMET, RC_VALIDATION_OBJECTIVE_MISMATCH,
     RC_VALIDATION_DIGEST_MISMATCH, RC_VALIDATION_OCCURRENCE_EXCEEDED,
     RC_VALIDATION_EXCLUSION_VIOLATION, RC_VALIDATION_COMPENSATION_MISSING,
     RC_VALIDATION_FENCED, RC_PERSISTENCE_INTEGRITY_FAILURE,
     RC_PERSISTENCE_VERSION_UNSUPPORTED, RC_PERSISTENCE_SEQUENCE_REGRESSION,
     RC_PERSISTENCE_TRAILING_GARBAGE, RC_PERSISTENCE_TORN_TAIL_RECOVERED,
     RC_PERSISTENCE_EPOCH_ADVANCED, RC_PERSISTENCE_STALE_DYNAMIC_STATE_FENCED,
     RC_PROTOCOL_FRAME_TOO_LARGE, RC_PROTOCOL_BAD_MAGIC, RC_PROTOCOL_BAD_VERSION,
     RC_PROTOCOL_BAD_CHECKSUM, RC_PROTOCOL_TRUNCATED, RC_PROTOCOL_TRAILING_BYTES,
     RC_PROTOCOL_SEQUENCE_REGRESSION, RC_PROTOCOL_SESSION_MISMATCH,
     RC_PROTOCOL_STICKY_FAILURE, RC_PROTOCOL_DECODE_REJECTED, RC_SESSION_LIMIT_REACHED,
     RC_QUEUE_LIMIT_REACHED, RC_SHUTDOWN_REQUESTED]"

definition read_explanation :: "model_limits \<Rightarrow> reader \<Rightarrow> explanation \<times> reader" where
  "read_explanation l rd =
     (case r_enum (\<lambda>b. reason_codes ! unat b) (raw_reason_code RC_COUNT) ''reason code'' rd of (code, rd) \<Rightarrow>
      case read_subject_kind ''explanation subject kind'' rd of (kind, rd) \<Rightarrow>
      case r_u64 rd of (i, rd) \<Rightarrow> case r_u64 rd of (a, rd) \<Rightarrow> case r_u64 rd of (b, rd) \<Rightarrow>
      case r_str (unat (max_string_length l * 4)) rd of (txt, rd) \<Rightarrow>
      (\<lparr>ex_code = code, ex_subject = Subject kind i, ex_detail_a = a, ex_detail_b = b, ex_text = txt\<rparr>, rd))"

definition decode_explanation :: "model_limits \<Rightarrow> explanation decoder" where
  "decode_explanation l = element (read_explanation l)"

definition read_evidence_binding :: "reader \<Rightarrow> evidence_binding \<times> reader" where
  "read_evidence_binding rd =
     (case read_evidence_kind ''evidence binding kind'' rd of (k, rd) \<Rightarrow>
      case read_subject ''evidence binding'' rd of (x, rd) \<Rightarrow> case r_u64 rd of (g, rd) \<Rightarrow>
      (\<lparr>bd_kind = k, bd_subject = x, bd_generation = g\<rparr>, rd))"

definition decode_step :: "model_limits \<Rightarrow> plan_step decoder" where
  "decode_step l rd =
     (case r_u32 rd of (ix, rd) \<Rightarrow> case r_u64 rd of (a, rd) \<Rightarrow> case r_u32 rd of (occ, rd) \<Rightarrow>
      case r_u64 rd of (t0, rd) \<Rightarrow> case r_u64 rd of (t1, rd) \<Rightarrow>
      case read_authority_domain ''step required_domain'' rd of (ad, rd) \<Rightarrow>
      case read_authority_level ''step required_level'' rd of (lvl, rd) \<Rightarrow>
      case r_u64 rd of (g, rd) \<Rightarrow>
      case read_authority_level ''step issued_level'' rd of (iss, rd) \<Rightarrow>
      checked (\<lambda>rd. and_then (decode_list (max_evidence_facts l) ''step evidence bindings''
        (element read_evidence_binding) rd) (\<lambda>bs rd.
      case r_boolean rd of (irr, rd) \<Rightarrow> case r_u64 rd of (cmp, rd) \<Rightarrow>
      checked (yield_value \<lparr>ps_index = ix, ps_action = a, ps_occurrence = occ, ps_start_tick = t0,
        ps_end_tick = t1, ps_required_domain = ad, ps_required_level = lvl,
        ps_required_generation = g, ps_issued_level = iss, ps_evidence = bs,
        ps_irreversible = irr, ps_compensation = cmp\<rparr>) rd)) rd)"

fun read_words :: "nat \<Rightarrow> reader \<Rightarrow> u64 list \<times> reader" where
  "read_words 0 rd = ([], rd)"
| "read_words (Suc n) rd = (case r_u64 rd of (w, rd) \<Rightarrow> case read_words n rd of (ws, rd) \<Rightarrow> (w # ws, rd))"

definition read_objective :: "reader \<Rightarrow> objective \<times> reader" where
  "read_objective rd = (case read_words 8 rd of (ws, rd) \<Rightarrow> (objective_of_list ws, rd))"

definition read_digest :: "reader \<Rightarrow> digest \<times> reader" where
  "read_digest rd = (case r_u64 rd of (h, rd) \<Rightarrow> case r_u64 rd of (l, rd) \<Rightarrow> (\<lparr>dg_hi = h, dg_lo = l\<rparr>, rd))"

text \<open>The plan digest is not part of the encoding: a decoded plan has the zero digest.\<close>

definition decode_plan :: "model_limits \<Rightarrow> recovery_plan decoder" where
  "decode_plan l rd =
     (case r_u64 rd of (i, rd) \<Rightarrow> case r_u64 rd of (req, rd) \<Rightarrow> case r_u64 rd of (ep, rd) \<Rightarrow>
      case r_u64 rd of (bt, rd) \<Rightarrow> case r_u64 rd of (att, rd) \<Rightarrow>
      and_then (decode_list (max_actions l * max_action_occurrences l + 1) ''plan steps'' (decode_step l) rd)
       (\<lambda>ss rd.
      case read_objective rd of (obj, rd) \<Rightarrow> case read_digest rd of (rqd, rd) \<Rightarrow>
      case read_digest rd of (dfd, rd) \<Rightarrow> case read_digest rd of (evd, rd) \<Rightarrow>
      case read_digest rd of (aud, rd) \<Rightarrow> case read_digest rd of (pod, rd) \<Rightarrow>
      checked (\<lambda>rd. and_then (decode_list 256 ''plan explanations'' (decode_explanation l) rd) (\<lambda>es rd.
      Inr (\<lparr>pl_id = i, pl_request = req, pl_epoch = ep, pl_boot = bt, pl_attempt = att, pl_steps = ss,
            pl_objective = obj, pl_request_digest = rqd, pl_definition_digest = dfd,
            pl_evidence_digest = evd, pl_authority_digest = aud, pl_policy_digest = pod,
            pl_plan_digest = zero_digest, pl_explanations = es\<rparr>, rd))) rd))"

section \<open>The decoders are exact\<close>

subsection \<open>Enumerations\<close>

lemma exact_resource_kind [exact_rules]:
  "exact_reader (r_enum (\<lambda>b. resource_kinds ! unat b) 2 what) (\<lambda>v out. valid_resource_kind v \<and> out = w_u8 (raw_resource_kind v))"
  by (rule exact_reader_cong[OF exact_enum[where raw = raw_resource_kind]])
    (simp_all add: resource_kinds_def upt_rec valid_resource_kind_def, case_tac v, simp_all)

lemma exact_precondition_kind [exact_rules]:
  "exact_reader (r_enum (\<lambda>b. precondition_kinds ! unat b) 8 what) (\<lambda>v out. valid_precondition_kind v \<and> out = w_u8 (raw_precondition_kind v))"
  by (rule exact_reader_cong[OF exact_enum[where raw = raw_precondition_kind]])
    (simp_all add: precondition_kinds_def upt_rec valid_precondition_kind_def, case_tac v, simp_all)

lemma exact_effect_kind [exact_rules]:
  "exact_reader (r_enum (\<lambda>b. effect_kinds ! unat b) 6 what) (\<lambda>v out. valid_effect_kind v \<and> out = w_u8 (raw_effect_kind v))"
  by (rule exact_reader_cong[OF exact_enum[where raw = raw_effect_kind]])
    (simp_all add: effect_kinds_def upt_rec valid_effect_kind_def, case_tac v, simp_all)

lemma exact_action_kind [exact_rules]:
  "exact_reader (r_enum (\<lambda>b. action_kinds ! unat b) 7 what) (\<lambda>v out. valid_action_kind v \<and> out = w_u8 (raw_action_kind v))"
  by (rule exact_reader_cong[OF exact_enum[where raw = raw_action_kind]])
    (simp_all add: action_kinds_def upt_rec valid_action_kind_def, case_tac v, simp_all)

lemma exact_reversibility [exact_rules]:
  "exact_reader (r_enum (\<lambda>b. reversibilities ! unat b) 2 what) (\<lambda>v out. valid_reversibility v \<and> out = w_u8 (raw_reversibility v))"
  by (rule exact_reader_cong[OF exact_enum[where raw = raw_reversibility]])
    (simp_all add: reversibilities_def upt_rec valid_reversibility_def, case_tac v, simp_all)

lemma exact_goal_kind [exact_rules]:
  "exact_reader (r_enum (\<lambda>b. goal_kinds ! unat b) 4 what) (\<lambda>v out. valid_goal_kind v \<and> out = w_u8 (raw_goal_kind v))"
  by (rule exact_reader_cong[OF exact_enum[where raw = raw_goal_kind]])
    (simp_all add: goal_kinds_def upt_rec valid_goal_kind_def, case_tac v, simp_all)

lemma exact_authority_domain [exact_rules]:
  "exact_reader (r_enum (\<lambda>b. authority_domains ! unat b) 5 what) (\<lambda>v out. valid_authority_domain v \<and> out = w_u8 (raw_authority_domain v))"
  by (rule exact_reader_cong[OF exact_enum[where raw = raw_authority_domain]])
    (simp_all add: authority_domains_def upt_rec valid_authority_domain_def, case_tac v, simp_all)

lemma exact_authority_level [exact_rules]:
  "exact_reader (r_enum (\<lambda>b. authority_levels ! unat b) 7 what) (\<lambda>v out. valid_authority_level v \<and> out = w_u8 (raw_authority_level v))"
  by (rule exact_reader_cong[OF exact_enum[where raw = raw_authority_level]])
    (simp_all add: authority_levels_def upt_rec valid_authority_level_def, case_tac v, simp_all)

lemma exact_evidence_kind [exact_rules]:
  "exact_reader (r_enum (\<lambda>b. evidence_kinds ! unat b) 5 what) (\<lambda>v out. valid_evidence_kind v \<and> out = w_u8 (raw_evidence_kind v))"
  by (rule exact_reader_cong[OF exact_enum[where raw = raw_evidence_kind]])
    (simp_all add: evidence_kinds_def upt_rec valid_evidence_kind_def, case_tac v, simp_all)

lemma exact_trust_label [exact_rules]:
  "exact_reader (r_enum (\<lambda>b. trust_labels ! unat b) 4 what) (\<lambda>v out. out = w_u8 (raw_trust_label v))"
  by (rule exact_reader_cong[OF exact_enum[where raw = raw_trust_label]])
    (simp_all add: trust_labels_def upt_rec, case_tac v, simp_all)

lemma exact_read_kinds [exact_rules]:
  "exact_reader (read_authority_domain what)
     (\<lambda>v out. valid_authority_domain v \<and> out = w_u8 (raw_authority_domain v))"
  "exact_reader (read_authority_level what)
     (\<lambda>v out. valid_authority_level v \<and> out = w_u8 (raw_authority_level v))"
  "exact_reader (read_evidence_kind what)
     (\<lambda>v out. valid_evidence_kind v \<and> out = w_u8 (raw_evidence_kind v))"
  unfolding read_authority_domain_def read_authority_level_def read_evidence_kind_def
  by (rule exact_rules)+

subsection \<open>Elements\<close>

text \<open>A subject that a decoder accepts.\<close>

definition addressable :: "subject \<Rightarrow> bool" where
  "addressable x \<longleftrightarrow> subj_kind x \<noteq> SK_NONE"

lemma exact_subject [exact_rules]:
  "exact_reader (read_subject what) (\<lambda>v out. addressable v \<and> out = encode_subject v)"
  unfolding read_subject_def[abs_def]
  by (rule exact_reader_cong, (rule exact_rules)+)
    (simp, case_tac v, auto simp: encode_subject_def addressable_def)

lemma exact_node [exact_rules]: "exact_reader read_node (\<lambda>v out. out = encode_node v)"
  unfolding read_node_def[abs_def]
  by (rule exact_reader_cong, (rule exact_rules)+) (case_tac v, auto simp: encode_node_def)

lemma exact_link [exact_rules]: "exact_reader read_link (\<lambda>v out. out = encode_link v)"
  unfolding read_link_def[abs_def]
  by (rule exact_reader_cong, (rule exact_rules)+) (case_tac v, auto simp: encode_link_def)

lemma exact_service [exact_rules]: "exact_reader read_service (\<lambda>v out. out = encode_service v)"
  unfolding read_service_def[abs_def]
  by (rule exact_reader_cong, (rule exact_rules)+) (case_tac v, auto simp: encode_service_def)

lemma exact_resource [exact_rules]:
  "exact_reader read_resource (\<lambda>v out. valid_resource_kind (rs_kind v) \<and> out = encode_resource v)"
  unfolding read_resource_def[abs_def]
  by (rule exact_reader_cong, (rule exact_rules)+) (case_tac v, auto simp: encode_resource_def)

definition wf_precondition :: "precondition \<Rightarrow> bool" where
  "wf_precondition p \<longleftrightarrow> valid_precondition_kind (pc_kind p) \<and> addressable (pc_subject p)"

lemma exact_precondition [exact_rules]:
  "exact_reader read_precondition (\<lambda>v out. wf_precondition v \<and> out = encode_precondition v)"
  unfolding read_precondition_def[abs_def]
  by (rule exact_reader_cong, (rule exact_rules)+)
    (case_tac v, auto simp: encode_precondition_def wf_precondition_def)

definition wf_effect :: "effect \<Rightarrow> bool" where
  "wf_effect f \<longleftrightarrow> valid_effect_kind (fx_kind f) \<and> addressable (fx_subject f)"

lemma exact_effect [exact_rules]: "exact_reader read_effect (\<lambda>v out. wf_effect v \<and> out = encode_effect v)"
  unfolding read_effect_def[abs_def]
  by (rule exact_reader_cong, (rule exact_rules)+) (case_tac v, auto simp: encode_effect_def wf_effect_def)

lemma exact_use [exact_rules]: "exact_reader read_use (\<lambda>v out. out = encode_use v)"
  unfolding read_use_def[abs_def]
  by (rule exact_reader_cong, (rule exact_rules)+) (case_tac v, auto simp: encode_use_def)

lemma exact_dependency [exact_rules]: "exact_reader read_dependency (\<lambda>v out. out = encode_dependency v)"
  unfolding read_dependency_def[abs_def]
  by (rule exact_reader_cong, (rule exact_rules)+) (case_tac v, auto simp: encode_dependency_def)

definition wf_goal :: "goal_spec \<Rightarrow> bool" where
  "wf_goal g \<longleftrightarrow> valid_goal_kind (gl_kind g) \<and> addressable (gl_subject g)"

lemma exact_goal [exact_rules]: "exact_reader read_goal (\<lambda>v out. wf_goal v \<and> out = encode_goal v)"
  unfolding read_goal_def[abs_def]
  by (rule exact_reader_cong, (rule exact_rules)+) (case_tac v, auto simp: encode_goal_def wf_goal_def)

lemma exact_group [exact_rules]: "exact_reader read_group (\<lambda>v out. out = encode_group v)"
  unfolding read_group_def[abs_def]
  by (rule exact_reader_cong, (rule exact_rules)+) (case_tac v, auto simp: encode_group_def)

subsection \<open>Definitions\<close>

definition wf_action :: "model_limits \<Rightarrow> action_spec \<Rightarrow> bool" where
  "wf_action l a \<longleftrightarrow> length (ac_name a) \<le> unat (max_string_length l) \<and>
     valid_action_kind (ac_kind a) \<and> valid_reversibility (ac_reversibility a) \<and>
     valid_authority_domain (ac_required_domain a) \<and> valid_authority_level (ac_required_level a) \<and>
     length (ac_preconditions a) \<le> unat (max_preconditions_per_action l) \<and>
     list_all wf_precondition (ac_preconditions a) \<and>
     length (ac_effects a) \<le> unat (max_effects_per_action l) \<and> list_all wf_effect (ac_effects a) \<and>
     length (ac_resource_uses a) \<le> unat (max_resources l) \<and>
     length (ac_dependencies a) \<le> unat (max_actions l) \<and>
     length (ac_exclusion_groups a) \<le> unat (max_exclusion_groups l)"

lemma unat_lt [simp]: "unat (m :: u32) < 4294967296"
  using unsigned_less[of m, where ?'a = nat] by simp

lemma exact_plain_list:
  "exact_reader r (\<lambda>v out. out = w v) \<Longrightarrow>
   exact (decode_list m what (element r)) (\<lambda>vs out. length vs \<le> unat m \<and> out = w_list w vs)"
  by (rule exact_cong[OF exact_list[where P = "\<lambda>_. True"]], drule exact_element, simp)
    (simp add: list_all_iff)

lemma exact_wf_list:
  "exact_reader r (\<lambda>v out. P v \<and> out = w v) \<Longrightarrow>
   exact (decode_list m what (element r)) (\<lambda>vs out. length vs \<le> unat m \<and> list_all P vs \<and> out = w_list w vs)"
  by (rule exact_list) (rule exact_element)

lemmas exact_lists = exact_plain_list[OF exact_node] exact_plain_list[OF exact_link]
  exact_plain_list[OF exact_service] exact_wf_list[OF exact_resource] exact_wf_list[OF exact_precondition]
  exact_wf_list[OF exact_effect] exact_plain_list[OF exact_use] exact_plain_list[OF exact_dependency]
  exact_plain_list[OF exact_u64] exact_wf_list[OF exact_goal] exact_plain_list[OF exact_group]

lemma exact_action: "exact (decode_action l) (\<lambda>v out. wf_action l v \<and> out = encode_action v)"
  unfolding decode_action_def[abs_def]
  by (rule exact_cong, (rule exact_lists exact_rules)+)
    (case_tac v, auto simp: encode_action_def wf_action_def intro: order_le_less_trans[OF _ unat_lt])

definition wf_definition :: "model_limits \<Rightarrow> fabric_definition \<Rightarrow> bool" where
  "wf_definition l d \<longleftrightarrow> length (df_nodes d) \<le> unat (max_nodes l) \<and>
     length (df_links d) \<le> unat (max_links l) \<and> length (df_services d) \<le> unat (max_services l) \<and>
     length (df_resources d) \<le> unat (max_resources l) \<and>
     list_all (\<lambda>r. valid_resource_kind (rs_kind r)) (df_resources d) \<and>
     length (df_actions d) \<le> unat (max_actions l) \<and> list_all (wf_action l) (df_actions d) \<and>
     length (df_goals d) \<le> unat (max_goals l) \<and> list_all wf_goal (df_goals d) \<and>
     length (df_exclusion_groups d) \<le> unat (max_exclusion_groups l)"

lemma exact_definition: "exact (decode_definition l) (\<lambda>v out. wf_definition l v \<and> out = encode_definition v)"
  unfolding decode_definition_def[abs_def]
  by (rule exact_cong, (rule exact_lists exact_list[OF exact_action] exact_rules)+)
    (case_tac v, auto simp: encode_definition_def wf_definition_def)

subsection \<open>Evidence, authority, policy and fences\<close>

definition wf_fact :: "evidence_fact \<Rightarrow> bool" where
  "wf_fact f \<longleftrightarrow> valid_evidence_kind (ef_kind f) \<and> addressable (ef_subject f) \<and>
     valid_authority_domain (ef_source_domain f)"

definition encode_fact :: "evidence_fact \<Rightarrow> bytes" where
  "encode_fact f = w_u64 (ef_id f) @ w_u8 (raw_evidence_kind (ef_kind f)) @
     w_u8 (raw_subject_kind (subj_kind (ef_subject f))) @ w_u64 (subj_id (ef_subject f)) @
     w_u64 (ef_value f) @ w_u64 (ef_generation f) @ w_u8 (raw_authority_domain (ef_source_domain f)) @
     w_u64 (ef_source f) @ w_u8 (raw_trust_label (ef_label f)) @ w_u64 (ef_sequence f)"

lemma exact_fact: "exact_reader read_fact (\<lambda>v out. wf_fact v \<and> out = encode_fact v)"
  unfolding read_fact_def[abs_def]
  by (rule exact_reader_cong, (rule exact_rules)+)
    (case_tac v, auto simp: encode_fact_def wf_fact_def encode_subject_def)

definition wf_evidence :: "model_limits \<Rightarrow> evidence_bundle \<Rightarrow> bool" where
  "wf_evidence l e \<longleftrightarrow> length (eb_facts e) \<le> unat (max_evidence_facts l) \<and> list_all wf_fact (eb_facts e)"

lemma exact_evidence: "exact (decode_evidence l) (\<lambda>v out. wf_evidence l v \<and> out = encode_evidence v)"
  unfolding decode_evidence_def[abs_def]
  by (rule exact_cong, (rule exact_wf_list[OF exact_fact] exact_rules)+)
    (case_tac v, auto simp: encode_evidence_def wf_evidence_def encode_fact_def[abs_def])

definition wf_binding :: "authority_binding \<Rightarrow> bool" where
  "wf_binding b \<longleftrightarrow> valid_authority_domain (ab_domain b) \<and> valid_authority_level (ab_level b)"

definition encode_authority_binding :: "authority_binding \<Rightarrow> bytes" where
  "encode_authority_binding b = w_u8 (raw_authority_domain (ab_domain b)) @ w_u64 (ab_authority b) @
     w_u64 (ab_required b) @ w_u64 (ab_granted b) @ w_u8 (raw_authority_level (ab_level b))"

lemma exact_binding: "exact_reader read_binding (\<lambda>v out. wf_binding v \<and> out = encode_authority_binding v)"
  unfolding read_binding_def[abs_def]
  by (rule exact_reader_cong, (rule exact_rules)+)
    (case_tac v, auto simp: encode_authority_binding_def wf_binding_def)

definition wf_authority :: "model_limits \<Rightarrow> authority_vector \<Rightarrow> bool" where
  "wf_authority l v \<longleftrightarrow> length (av_bindings v) \<le> unat (max_authority_bindings l) \<and>
     list_all wf_binding (av_bindings v)"

lemma exact_authority: "exact (decode_authority l) (\<lambda>v out. wf_authority l v \<and> out = encode_authority v)"
  unfolding decode_authority_def[abs_def]
  by (rule exact_cong, (rule exact_wf_list[OF exact_binding] exact_rules)+)
    (case_tac v, auto simp: encode_authority_def wf_authority_def encode_authority_binding_def[abs_def])

definition wf_policy :: "plan_policy \<Rightarrow> bool" where
  "wf_policy p \<longleftrightarrow> max_plan_steps p \<noteq> 0 \<and> max_nodes_expanded p \<noteq> 0 \<and> max_generated_states p \<noteq> 0 \<and>
     max_frontier_entries p \<noteq> 0"

lemma exact_finish_policy [exact_rules]: "exact_ok (finish_policy p) (\<lambda>v out. v = p \<and> wf_policy p \<and> out = [])"
  unfolding exact_ok_def finish_policy_def wf_policy_def by auto

lemma exact_policy: "exact decode_policy (\<lambda>v out. wf_policy v \<and> out = encode_policy v)"
  unfolding decode_policy_def[abs_def]
  by (rule exact_cong, (rule exact_rules)+) (case_tac v, auto simp: encode_policy_def)

definition wf_fence :: "fence \<Rightarrow> bool" where
  "wf_fence f \<longleftrightarrow> valid_authority_domain (fe_domain f) \<and> length (fe_reason f) \<le> 128"

lemma exact_fence: "exact decode_fence (\<lambda>v out. wf_fence v \<and> out = encode_fence v)"
proof -
  have "exact_reader read_fence (\<lambda>v out. wf_fence v \<and> out = encode_fence v)"
    unfolding read_fence_def[abs_def]
    by (rule exact_reader_cong, (rule exact_rules)+)
      (case_tac v, auto simp: encode_fence_def wf_fence_def)
  then show ?thesis unfolding decode_fence_def by (rule exact_element)
qed

subsection \<open>Requests\<close>

definition wf_request :: "model_limits \<Rightarrow> plan_request \<Rightarrow> bool" where
  "wf_request l r \<longleftrightarrow> wf_definition l (rq_definition r) \<and> wf_evidence l (rq_evidence r) \<and>
     wf_authority l (rq_authority r) \<and> wf_policy (rq_policy r) \<and>
     length (rq_fences r) \<le> unat (max_fences l) \<and> list_all wf_fence (rq_fences r)"

lemma exact_request: "exact (decode_request_body l) (\<lambda>v out. wf_request l v \<and> out = encode_request v)"
  unfolding decode_request_body_def[abs_def]
  by (rule exact_cong, (rule exact_definition exact_evidence exact_authority exact_policy
        exact_list[OF exact_fence] exact_rules)+)
    (case_tac v, auto simp: encode_request_def wf_request_def)

subsection \<open>Explanations and plans\<close>

lemma reason_code_at: "(reason_codes @ [RC_COUNT]) ! unat (raw_reason_code v) = v"
  by (cases v) (simp_all add: reason_codes_def)

lemma raw_reason_code_inj: "raw_reason_code a = raw_reason_code b \<Longrightarrow> a = b"
  by (metis reason_code_at)

lemma reason_code_valid: "raw_reason_code v < 58 \<longleftrightarrow> v \<noteq> RC_COUNT"
  by (cases v) simp_all

lemma exact_reason_code [exact_rules]:
  "exact_reader (r_enum (\<lambda>b. reason_codes ! unat b) (raw_reason_code RC_COUNT) what)
     (\<lambda>v out. v \<noteq> RC_COUNT \<and> out = w_u8 (raw_reason_code v))"
  by (rule exact_reader_cong[OF exact_enum[where raw = raw_reason_code]])
    (simp add: reason_codes_def upt_rec, erule raw_reason_code_inj, simp add: reason_code_valid)

definition wf_explanation :: "model_limits \<Rightarrow> explanation \<Rightarrow> bool" where
  "wf_explanation l e \<longleftrightarrow> ex_code e \<noteq> RC_COUNT \<and> length (ex_text e) \<le> unat (max_string_length l * 4)"

lemma exact_explanation:
  "exact (decode_explanation l) (\<lambda>v out. wf_explanation l v \<and> out = encode_explanation v)"
proof -
  have len: "n < 4294967296" if "n \<le> unat (m :: u32)" for n m
    using order_le_less_trans[OF that unat_lt] by simp
  have "exact_reader (read_explanation l) (\<lambda>v out. wf_explanation l v \<and> out = encode_explanation v)"
    unfolding read_explanation_def[abs_def]
    by (rule exact_reader_cong, (rule exact_rules)+)
      (case_tac v, rename_tac sub da db t, case_tac sub,
        auto simp: encode_explanation_def wf_explanation_def intro: len)
  then show ?thesis unfolding decode_explanation_def by (rule exact_element)
qed

definition wf_evidence_binding :: "evidence_binding \<Rightarrow> bool" where
  "wf_evidence_binding b \<longleftrightarrow> valid_evidence_kind (bd_kind b) \<and> addressable (bd_subject b)"

lemma exact_evidence_binding:
  "exact_reader read_evidence_binding (\<lambda>v out. wf_evidence_binding v \<and> out = encode_binding v)"
  unfolding read_evidence_binding_def[abs_def]
  by (rule exact_reader_cong, (rule exact_rules)+)
    (case_tac v, auto simp: encode_binding_def wf_evidence_binding_def encode_subject_def)

definition wf_step :: "model_limits \<Rightarrow> plan_step \<Rightarrow> bool" where
  "wf_step l s \<longleftrightarrow> valid_authority_domain (ps_required_domain s) \<and>
     valid_authority_level (ps_required_level s) \<and> valid_authority_level (ps_issued_level s) \<and>
     length (ps_evidence s) \<le> unat (max_evidence_facts l) \<and> list_all wf_evidence_binding (ps_evidence s)"

lemma exact_step: "exact (decode_step l) (\<lambda>v out. wf_step l v \<and> out = encode_step v)"
  unfolding decode_step_def[abs_def]
  by (rule exact_cong, (rule exact_wf_list[OF exact_evidence_binding] exact_rules)+)
    (case_tac v, auto simp: encode_step_def wf_step_def)

lemma exact_words [exact_rules]:
  "exact_reader (read_words n) (\<lambda>v out. length v = n \<and> out = concat (map w_u64 v))"
proof (induction n)
  case 0
  show ?case unfolding read_words.simps[abs_def] by (rule exact_reader_cong[OF exact_reader_return]) auto
next
  case (Suc n)
  show ?case
    unfolding read_words.simps[abs_def]
    by (rule exact_reader_cong[OF exact_reader_bind[OF exact_u64 exact_reader_bind[OF Suc exact_reader_return]]])
      (auto simp: length_Suc_conv)
qed

lemma exact_digest [exact_rules]: "exact_reader read_digest (\<lambda>v out. out = encode_digest v)"
  unfolding read_digest_def[abs_def]
  by (rule exact_reader_cong, (rule exact_rules)+) (case_tac v, auto simp: encode_digest_def)

definition wf_plan :: "model_limits \<Rightarrow> recovery_plan \<Rightarrow> bool" where
  "wf_plan l p \<longleftrightarrow> length (pl_steps p) \<le> unat (max_actions l * max_action_occurrences l + 1) \<and>
     list_all (wf_step l) (pl_steps p) \<and> length (pl_explanations p) \<le> 256 \<and>
     list_all (wf_explanation l) (pl_explanations p)"

lemma objective_list: "length cs = 8 \<Longrightarrow> component (objective_of_list cs) = cs"
  by (simp add: component_def objective_of_list_def list_eq_iff_nth_eq nth_Cons' less_Suc_eq numeral_eq_Suc)

lemma objective_component: "objective_of_list (component v) = v" "length (component v) = 8"
  by (simp_all add: component_def objective_of_list_def)

lemma exact_objective [exact_rules]: "exact_reader read_objective (\<lambda>v out. out = encode_objective v)"
proof (rule exact_reader_cong)
  show "exact_reader read_objective (\<lambda>v out. \<exists>ws o1 o2. (length ws = 8 \<and> o1 = concat (map w_u64 ws)) \<and>
      (v = objective_of_list ws \<and> o2 = []) \<and> out = o1 @ o2)"
    unfolding read_objective_def[abs_def] by (rule exact_rules)+
  show "(\<exists>ws o1 o2. (length ws = 8 \<and> o1 = concat (map w_u64 ws)) \<and>
      (v = objective_of_list ws \<and> o2 = []) \<and> out = o1 @ o2) \<longleftrightarrow> out = encode_objective v" for v out
    using objective_component[of v]
    by (auto simp: encode_objective_def objective_list intro: exI[of _ "component v"])
qed

lemma exact_plan:
  "exact (decode_plan l) (\<lambda>v out. wf_plan l v \<and> pl_plan_digest v = zero_digest \<and> out = encode_plan v)"
  unfolding decode_plan_def[abs_def]
  by (rule exact_cong, (rule exact_list[OF exact_step] exact_list[OF exact_explanation] exact_rules)+)
    (case_tac v, auto simp: encode_plan_def wf_plan_def)

section \<open>Whole buffers\<close>

text \<open>The interface of the codec: a decoder that is exact for an encoder decodes exactly the encodings
  of its domain, hence round trips, and two values with one encoding are equal.\<close>

locale exact_codec =
  fixes d :: "'a decoder" and w :: "'a \<Rightarrow> bytes" and P :: "'a \<Rightarrow> bool"
  assumes exactness: "exact d (\<lambda>v out. P v \<and> out = w v)"
begin

lemma decode_whole_iff: "decode_whole d bs = Inr v \<longleftrightarrow> P v \<and> bs = w v"
proof
  assume "decode_whole d bs = Inr v"
  then obtain rd where 1: "d (make_reader bs) = Inr (v, rd)" "status_ok (r_require_end rd)"
    by (auto simp: decode_whole_def Let_def split: sum.splits if_splits)
  obtain out rest where 2: "P v" "out = w v" "bs = out @ rest" "rd_at rd rest"
    using exactD(1)[OF exactness rd_at_make 1(1)] by blast
  have "rest = []"
  proof (rule ccontr)
    assume "rest \<noteq> []"
    then have "rd_offset rd \<noteq> length (rd_data rd)" using 2(4) by (auto simp: rd_at_def)
    then show False
      using 1(2) 2(4) by (auto simp: r_require_end_def rd_at_def status_ok_def status_error_def)
  qed
  with 2 show "P v \<and> bs = w v" by simp
next
  assume v: "P v \<and> bs = w v"
  have "rd_at (make_reader bs) (w v @ [])" using v by simp
  then have "d (make_reader bs) = Inr (v, rd_advance (length (w v)) (make_reader bs))"
    by (rule exactD(2)[OF exactness, rotated]) (use v in simp)
  moreover have "r_require_end (rd_advance (length (w v)) (make_reader bs)) = success"
    using v by (simp add: r_require_end_def rd_advance_def make_reader_def rd_ok_def)
  ultimately show "decode_whole d bs = Inr v" by (simp add: decode_whole_def status_ok_def success_def)
qed

lemma encoding_injective: "P a \<Longrightarrow> P b \<Longrightarrow> w a = w b \<Longrightarrow> a = b"
  using decode_whole_iff[of "w a" a] decode_whole_iff[of "w b" b] by simp

end

interpretation definition_codec: exact_codec "decode_definition l" encode_definition "wf_definition l" for l
  by unfold_locales (rule exact_definition)

interpretation evidence_codec: exact_codec "decode_evidence l" encode_evidence "wf_evidence l" for l
  by unfold_locales (rule exact_evidence)

interpretation authority_codec: exact_codec "decode_authority l" encode_authority "wf_authority l" for l
  by unfold_locales (rule exact_authority)

interpretation policy_codec: exact_codec decode_policy encode_policy wf_policy
  by unfold_locales (rule exact_policy)

interpretation fence_codec: exact_codec decode_fence encode_fence wf_fence
  by unfold_locales (rule exact_fence)

interpretation request_codec: exact_codec "decode_request_body l" encode_request "wf_request l" for l
  by unfold_locales (rule exact_request)

interpretation plan_codec: exact_codec "decode_plan l" encode_plan
    "\<lambda>p. wf_plan l p \<and> pl_plan_digest p = zero_digest" for l
  using exact_plan by unfold_locales (simp add: conj_assoc)

section \<open>Properties\<close>


text \<open>A decoded plan is the encoded plan except for its digest, which the encoding leaves out: the
  decoder returns the zero digest.\<close>

theorem decode_plan_loses_digest:
  "decode_whole (decode_plan l) bs = Inr p \<longleftrightarrow>
     (\<exists>q. wf_plan l q \<and> bs = encode_plan q \<and> p = q\<lparr>pl_plan_digest := zero_digest\<rparr>)"
proof -
  have "encode_plan (q\<lparr>pl_plan_digest := z\<rparr>) = encode_plan q" "wf_plan l (q\<lparr>pl_plan_digest := z\<rparr>) = wf_plan l q" for q z
    by (simp_all add: encode_plan_def wf_plan_def)
  moreover have "p\<lparr>pl_plan_digest := zero_digest\<rparr> = p" if "pl_plan_digest p = zero_digest"
    using that by simp
  ultimately show ?thesis
    unfolding plan_codec.decode_whole_iff by (metis (no_types, lifting) recovery_plan.select_convs(13)
        recovery_plan.surjective recovery_plan.update_convs(13))
qed

end
