(* ===== verification/NRP_Checksum.thy ===== *)
theory NRP_Checksum
  imports NRP_Prelude
begin

text \<open>
  CRC-32 (\<open>src/crc32.cpp\<close>): the table, the byte loop, and what the checksum is worth to the
  journal and to the frames. The table-driven loop is proved equal to the division one message
  bit at a time, and two messages that differ only within 32 consecutive bits have different
  checksums.
\<close>

section \<open>The checksum\<close>

text \<open>One round of the table constructor.\<close>

definition crc_bit :: "u32 \<Rightarrow> u32" where
  "crc_bit v = (if v AND 1 \<noteq> 0 then 0xEDB88320 XOR drop_bit 1 v else drop_bit 1 v)"

definition crc_entry :: "nat \<Rightarrow> u32" where
  "crc_entry i = (crc_bit ^^ 8) (of_nat i)"

definition crc_table :: "u32 list" where
  "crc_table = map crc_entry [0..<256]"

definition crc_byte :: "u8 \<Rightarrow> u32 \<Rightarrow> u32" where
  "crc_byte d crc = crc_table ! unat ((crc XOR ucast d) AND 0xFF) XOR drop_bit 8 crc"

definition crc32_from :: "u32 \<Rightarrow> bytes \<Rightarrow> u32" where
  "crc32_from seed data = fold crc_byte data (seed XOR 0xFFFFFFFF) XOR 0xFFFFFFFF"

text \<open>The default seed, with which every caller calls it.\<close>

definition crc32 :: "bytes \<Rightarrow> u32" where
  "crc32 = crc32_from 0"

section \<open>The bitwise reference\<close>

text \<open>The message bits, least significant first, and the division that takes one bit at a time.\<close>

definition byte_bits :: "u8 \<Rightarrow> bool list" where
  "byte_bits d = map (bit d) [0..<8]"

definition message_bits :: "bytes \<Rightarrow> bool list" where
  "message_bits data = concat (map byte_bits data)"

definition crc_feed :: "bool \<Rightarrow> u32 \<Rightarrow> u32" where
  "crc_feed b crc = crc_bit (crc XOR of_bool b)"

definition crc32_reference :: "u32 \<Rightarrow> bytes \<Rightarrow> u32" where
  "crc32_reference seed data = fold crc_feed (message_bits data) (NOT seed) XOR NOT 0"

lemma and_one_bit: "(v AND 1 \<noteq> 0) = bit (v :: u32) 0"
  by (simp add: and_one_eq odd_iff_mod_2_eq_one[symmetric] bit_0 mod_2_eq_odd)

lemma xor_cancel: "(a XOR c = b XOR c) \<longleftrightarrow> a = (b :: u32)"
  by (metis xor.assoc xor_self_eq xor.right_neutral)

lemma xor_cancel_left: "(c XOR a = c XOR b) \<longleftrightarrow> a = (b :: u32)"
  by (simp add: xor.commute[of c] xor_cancel)

lemma crc_bit_linear: "crc_bit (a XOR b) = crc_bit a XOR crc_bit b"
proof -
  have 1: "crc_bit v = of_bool (bit v 0) * 0xEDB88320 XOR drop_bit 1 v" for v
    by (simp add: crc_bit_def and_one_bit)
  show ?thesis
  proof (rule bit_eqI)
    fix n
    show "bit (crc_bit (a XOR b)) n = bit (crc_bit a XOR crc_bit b) n"
      unfolding 1 by (cases "bit a 0"; cases "bit b 0") (auto simp: bit_xor_iff bit_drop_bit_eq)
  qed
qed

lemma crc_bit_even: "\<not> bit v 0 \<Longrightarrow> crc_bit v = drop_bit 1 v"
  by (simp add: crc_bit_def and_one_bit)

text \<open>The top bit of the polynomial makes a round injective.\<close>

lemma crc_bit_zero: "crc_bit v = 0 \<longleftrightarrow> v = 0"
proof
  assume z: "crc_bit v = 0"
  have "\<not> bit v 0"
  proof
    assume "bit v 0"
    then have "crc_bit v = 0xEDB88320 XOR drop_bit 1 v" by (simp add: crc_bit_def and_one_bit)
    moreover have "\<not> bit (drop_bit 1 v) 31"
      using bit_imp_le_length[of v 32] by (auto simp: bit_drop_bit_eq)
    moreover have "bit (0xEDB88320 :: u32) 31" by simp
    ultimately have "bit (crc_bit v) 31" by (simp only: bit_xor_iff) simp
    with z show False by simp
  qed
  then have low: "\<not> bit v 0" "drop_bit 1 v = 0" using z crc_bit_even[of v] by auto
  have "\<not> bit v n" for n
  proof (cases n)
    case (Suc k)
    have "bit v n = bit (drop_bit 1 v) k" unfolding bit_drop_bit_eq by (simp add: Suc)
    then show ?thesis using low(2) by simp
  qed (use low in simp)
  then show "v = 0" by (simp add: bit_eq_iff)
qed (simp add: crc_bit_def)

lemma crc_bit_inj: "crc_bit a = crc_bit b \<longleftrightarrow> a = b"
proof -
  have xor_zero: "(x XOR y = 0) \<longleftrightarrow> x = y" for x y :: u32
    using xor_cancel[of x y y] by simp
  have "crc_bit a = crc_bit b \<longleftrightarrow> crc_bit (a XOR b) = 0"
    by (simp only: crc_bit_linear xor_zero)
  then show ?thesis by (simp only: crc_bit_zero xor_zero)
qed

lemma crc_rounds_inj: "(crc_bit ^^ n) a = (crc_bit ^^ n) b \<longleftrightarrow> a = b"
  by (induction n) (simp_all add: crc_bit_inj)

text \<open>Rounds on a state that holds pending message bits feed these bits.\<close>

lemma split_low_bit: "y = of_bool (bit y 0) XOR unset_bit 0 y" for y :: u32
  by (rule bit_eqI) (auto simp: bit_xor_iff bit_unset_bit_iff bit_of_bool_iff)

lemma split_low_byte: "y = take_bit 8 y XOR push_bit 8 (drop_bit 8 y)" for y :: u32
proof (rule bit_eqI)
  fix n
  show "bit y n = bit (take_bit 8 y XOR push_bit 8 (drop_bit 8 y)) n"
  proof (cases "n < 8")
    case False
    then obtain m where "n = 8 + m" by (metis le_Suc_ex not_less)
    then show ?thesis by (auto simp: bit_simps dest: bit_imp_le_length)
  qed (simp add: bit_simps)
qed

lemma crc_rounds_linear: "(crc_bit ^^ n) (a XOR b) = (crc_bit ^^ n) a XOR (crc_bit ^^ n) b"
  by (induction n) (simp_all add: crc_bit_linear)

lemma crc_rounds_feed:
  "(crc_bit ^^ n) (c XOR x) = fold crc_feed (map (bit x) [0..<n]) c XOR drop_bit n x"
proof (induction n)
  case (Suc n)
  let ?f = "fold crc_feed (map (bit x) [0..<n]) c" and ?y = "drop_bit n x"
  have y0: "bit ?y 0 = bit x n" by (simp add: bit_drop_bit_eq)
  have "(crc_bit ^^ Suc n) (c XOR x) = crc_bit (?f XOR ?y)" by (simp add: Suc)
  also have "\<dots> = crc_bit ((?f XOR of_bool (bit x n)) XOR unset_bit 0 ?y)"
    using split_low_bit[of ?y] by (simp only: y0 xor.assoc)
  also have "\<dots> = crc_bit (?f XOR of_bool (bit x n)) XOR crc_bit (unset_bit 0 ?y)"
    by (rule crc_bit_linear)
  also have "crc_bit (unset_bit 0 ?y) = drop_bit (Suc n) x"
  proof -
    have "\<not> bit (unset_bit 0 ?y) 0" by (simp add: bit_unset_bit_iff)
    moreover have "drop_bit 1 (unset_bit 0 ?y) = drop_bit (Suc n) x"
      by (rule bit_eqI) (auto simp: bit_drop_bit_eq bit_unset_bit_iff)
    ultimately show ?thesis by (simp only: crc_bit_even not_False_eq_True)
  qed
  finally show ?case by (simp add: crc_feed_def)
qed simp

lemma crc_table_nth: "i < 256 \<Longrightarrow> crc_table ! i = (crc_bit ^^ 8) (of_nat i)"
  by (simp add: crc_table_def crc_entry_def)

lemma crc_feed_zeros: "fold crc_feed (replicate n False) 0 = 0"
proof (induction n)
  case (Suc n)
  have "crc_feed False 0 = 0" by (simp add: crc_feed_def crc_bit_def)
  with Suc show ?case by simp
qed simp

lemma crc_rounds_high: "(crc_bit ^^ 8) (push_bit 8 (drop_bit 8 y)) = drop_bit 8 y"
proof -
  have "map (bit (push_bit 8 (drop_bit 8 y))) [0..<8] = replicate 8 False"
    by (rule nth_equalityI) (auto simp: bit_push_bit_iff)
  moreover have "drop_bit 8 (push_bit 8 (drop_bit 8 y)) = drop_bit 8 y"
    by (rule bit_eqI) (auto simp: bit_simps dest: bit_imp_le_length)
  ultimately show ?thesis
    using crc_rounds_feed[of 8 0 "push_bit 8 (drop_bit 8 y)"] by (simp only: crc_feed_zeros xor.left_neutral)
qed

lemma crc_byte_rounds: "crc_byte d c = (crc_bit ^^ 8) (c XOR ucast d)"
proof -
  let ?x = "c XOR ucast d :: u32"
  have low: "?x AND 0xFF = take_bit 8 ?x"
    by (simp add: take_bit_eq_mask mask_eq_exp_minus_1)
  have "unat (take_bit 8 ?x) = take_bit 8 (unat ?x)" by (rule unsigned_take_bit_eq)
  then have lt: "unat (take_bit 8 ?x) < 256" using take_bit_nat_less_exp[of 8 "unat ?x"] by simp
  have high: "drop_bit 8 ?x = drop_bit 8 c"
    by (rule bit_eqI) (auto simp: bit_drop_bit_eq bit_xor_iff bit_ucast_iff dest: bit_imp_le_length)
  have nat: "of_nat (unat (take_bit 8 ?x)) = take_bit 8 ?x" by simp
  have "(crc_bit ^^ 8) ?x = (crc_bit ^^ 8) (take_bit 8 ?x XOR push_bit 8 (drop_bit 8 ?x))"
    by (rule arg_cong[where f = "crc_bit ^^ 8", OF split_low_byte])
  also have "\<dots> = (crc_bit ^^ 8) (take_bit 8 ?x) XOR drop_bit 8 c"
    unfolding crc_rounds_linear crc_rounds_high high ..
  finally show ?thesis unfolding crc_byte_def low crc_table_nth[OF lt] nat by (rule sym)
qed

lemma crc_byte_feed: "crc_byte d c = fold crc_feed (byte_bits d) c"
proof -
  have "drop_bit 8 (ucast d :: u32) = 0"
    by (rule bit_eqI) (auto simp: bit_simps dest: bit_imp_le_length)
  moreover have "map (bit (ucast d :: u32)) [0..<8] = byte_bits d"
    by (auto simp: byte_bits_def bit_simps)
  ultimately show ?thesis unfolding crc_byte_rounds crc_rounds_feed by simp
qed

lemma crc_bytes_feed: "fold crc_byte data c = fold crc_feed (message_bits data) c"
  by (induction data arbitrary: c) (simp_all add: message_bits_def crc_byte_feed)

section \<open>Burst errors\<close>

lemma crc_feed_inj: "fold crc_feed bs a = fold crc_feed bs b \<longleftrightarrow> a = b"
proof (induction bs arbitrary: a b)
  case (Cons x bs)
  have "crc_feed x a = crc_feed x b \<longleftrightarrow> a = b" by (simp only: crc_feed_def crc_bit_inj xor_cancel)
  then show ?case by (simp only: fold.simps comp_apply Cons)
qed simp

lemma bits_of_word: "n \<le> 32 \<Longrightarrow> length bs = n \<Longrightarrow> \<exists>x :: u32. map (bit x) [0..<n] = bs \<and> drop_bit n x = 0"
proof (induction n arbitrary: bs)
  case (Suc n)
  then obtain cs b where bs: "bs = cs @ [b]" "length cs = n"
    by (metis length_Suc_conv_rev)
  with Suc obtain x :: u32 where x: "map (bit x) [0..<n] = cs" "drop_bit n x = 0" by auto
  define y where "y = (x OR push_bit n (of_bool b) :: u32)"
  have y: "bit y k \<longleftrightarrow> bit x k \<or> k = n \<and> b" if "k < 32" for k
    using that by (auto simp: y_def bit_or_iff bit_push_bit_iff bit_of_bool_iff)
  have high: "\<not> bit x k" if "n \<le> k" for k
  proof -
    have "bit x k = bit (drop_bit n x) (k - n)" using that by (simp add: bit_drop_bit_eq)
    then show ?thesis using x(2) by simp
  qed
  have "map (bit y) [0..<n] = map (bit x) [0..<n]" using Suc.prems(1) by (auto simp: y)
  then have "map (bit y) [0..<n] = cs" by (simp only: x(1))
  moreover have "bit y n = b" using high[of n] Suc.prems(1) by (simp add: y)
  moreover have "drop_bit (Suc n) y = 0"
  proof (rule bit_eqI)
    fix k
    show "bit (drop_bit (Suc n) y) k = bit (0 :: u32) k"
      using y[of "Suc n + k"] high[of "Suc n + k"] bit_imp_le_length[of y "Suc n + k"]
      by (auto simp: bit_drop_bit_eq)
  qed
  ultimately show ?case using bs by (intro exI[of _ y]) simp
qed (intro exI[of _ 0], simp)

lemma crc_feed_burst:
  assumes "length u = length v" "length v \<le> 32" "u \<noteq> v"
  shows "fold crc_feed u c \<noteq> fold crc_feed v c"
proof -
  obtain x y :: u32 where
    x: "map (bit x) [0..<length v] = u" "drop_bit (length v) x = 0" and
    y: "map (bit y) [0..<length v] = v" "drop_bit (length v) y = 0"
    using bits_of_word[of "length v" u] bits_of_word[of "length v" v] assms(1,2) by auto
  have "x \<noteq> y" using x(1) y(1) assms(3) by auto
  then have "c XOR x \<noteq> c XOR y" by (simp add: xor_cancel_left)
  then have "(crc_bit ^^ length v) (c XOR x) \<noteq> (crc_bit ^^ length v) (c XOR y)"
    by (simp add: crc_rounds_inj)
  then show ?thesis by (simp add: crc_rounds_feed x y)
qed

text \<open>Two messages that differ, and only within a window of at most 32 bits.\<close>

definition burst_error :: "bytes \<Rightarrow> bytes \<Rightarrow> bool" where
  "burst_error a b \<longleftrightarrow> (\<exists>p u v s. message_bits a = p @ u @ s \<and> message_bits b = p @ v @ s \<and>
     length u = length v \<and> length v \<le> 32 \<and> u \<noteq> v)"

lemma length_message_bits: "length (message_bits data) = 8 * length data"
  by (induction data) (simp_all add: message_bits_def byte_bits_def)

lemma burst_error_length: "burst_error a b \<Longrightarrow> length a = length b"
proof -
  assume "burst_error a b"
  then have "length (message_bits a) = length (message_bits b)" by (auto simp: burst_error_def)
  then show ?thesis by (simp add: length_message_bits)
qed

lemma crc32_burst:
  assumes "burst_error a b"
  shows "crc32 a \<noteq> crc32 b"
proof -
  obtain p u v s where bits: "message_bits a = p @ u @ s" "message_bits b = p @ v @ s"
    and burst: "length u = length v" "length v \<le> 32" "u \<noteq> v"
    using assms by (auto simp: burst_error_def)
  have "fold crc_feed (p @ u @ s) c \<noteq> fold crc_feed (p @ v @ s) c" for c
    using crc_feed_burst[OF burst] by (simp add: crc_feed_inj)
  then show ?thesis
    unfolding crc32_def crc32_from_def crc_bytes_feed bits by (simp add: xor_cancel)
qed

text \<open>A change within four consecutive bytes is a burst.\<close>

lemma burst_errorI:
  assumes "length u = length v" "length v \<le> 4" "u \<noteq> v"
  shows "burst_error (p @ u @ s) (p @ v @ s)"
proof -
  have inj: "byte_bits x = byte_bits y \<Longrightarrow> x = y" for x y
    by (auto simp: byte_bits_def bit_eq_iff map_eq_conv)
  have "length u = length v \<Longrightarrow> message_bits u = message_bits v \<Longrightarrow> u = v"
    by (induction u v rule: list_induct2) (auto simp: message_bits_def byte_bits_def intro: inj[unfolded byte_bits_def])
  then have "message_bits u \<noteq> message_bits v" using assms by blast
  then show ?thesis
    unfolding burst_error_def using assms length_message_bits[of u] length_message_bits[of v]
    by (intro exI[of _ "message_bits p"] exI[of _ "message_bits u"] exI[of _ "message_bits v"]
        exI[of _ "message_bits s"]) (simp add: message_bits_def)
qed

section \<open>Properties\<close>

text \<open>C40. The table-driven checksum is the polynomial division of the message one bit at a time, for
  every seed.\<close>

theorem crc32_equals_reference: "crc32_from seed data = crc32_reference seed data"
proof -
  have ones: "(0xFFFFFFFF :: u32) = NOT 0" by simp
  have "seed XOR NOT 0 = NOT seed" by (rule bit_eqI) (auto simp: bit_simps)
  then show ?thesis
    unfolding crc32_from_def crc32_reference_def crc_bytes_feed ones by simp
qed

text \<open>The checksum detects every burst error of up to 32 bits: two messages whose bit strings
  agree outside a window of at most 32 bits and differ within it have different checksums.\<close>

theorem crc32_detects_bursts:
  assumes "burst_error a b"
  shows "crc32 a \<noteq> crc32 b"
  using assms by (rule crc32_burst)

theorem crc32_detects_bursts_witness: "crc32 [0x4E, 0x52, 0x50] \<noteq> crc32 [0x4E, 0x53, 0x50]"
  by (rule crc32_detects_bursts)
    (rule burst_errorI[of "[0x52]" "[0x53]" "[0x4E]" "[0x50]", simplified])

end
