(* ===== verification/NRP_Framing.thy ===== *)
theory NRP_Framing
  imports NRP_Decode NRP_Checksum
begin

text \<open>
  Fixed-offset little-endian fields, as the journal (\<open>src/persistence.cpp\<close>) and the frame layer
  (\<open>src/protocol.cpp\<close>) read them out of a header. The write side is the canonical \<open>w_u16\<close>,
  \<open>w_u32\<close>, \<open>w_u64\<close>: a header is the concatenation of its fields in the order of their offsets.
\<close>

section \<open>Reading fields\<close>

definition peek_u16 :: "bytes \<Rightarrow> nat \<Rightarrow> u16" where
  "peek_u16 data at = ucast (data ! at) OR push_bit 8 (ucast (data ! (at + 1)))"

definition peek_u32 :: "bytes \<Rightarrow> nat \<Rightarrow> u32" where
  "peek_u32 data at = ucast (data ! at) OR push_bit 8 (ucast (data ! (at + 1))) OR
     push_bit 16 (ucast (data ! (at + 2))) OR push_bit 24 (ucast (data ! (at + 3)))"

definition peek_u64 :: "bytes \<Rightarrow> nat \<Rightarrow> u64" where
  "peek_u64 data at = fold (\<lambda>i v. v OR push_bit (8 * i) (ucast (data ! (at + i)))) [0..<8] 0"

section \<open>Fields and their bytes\<close>

definition peek_word :: "nat \<Rightarrow> bytes \<Rightarrow> nat \<Rightarrow> 'a::len word" where
  "peek_word k data at = fold (\<lambda>i v. v OR push_bit (8 * i) (ucast (data ! (at + i)))) [0..<k] 0"

definition word_bytes :: "nat \<Rightarrow> 'a::len word \<Rightarrow> bytes" where
  "word_bytes k v = map (\<lambda>i. ucast (drop_bit (8 * i) v)) [0..<k]"

lemma peek_words:
  "peek_u16 = peek_word 2" "peek_u32 = peek_word 4" "peek_u64 = peek_word 8"
  by (intro ext, simp add: peek_u16_def peek_word_def upt_rec)
    (intro ext, simp add: peek_u32_def peek_word_def upt_rec or.assoc numeral_eq_Suc,
      intro ext, simp add: peek_u64_def peek_word_def)

lemma write_words: "w_u16 = word_bytes 2" "w_u32 = word_bytes 4" "w_u64 = word_bytes 8"
  using byte_of[where ?'a = 16] byte_of[where ?'a = 32] byte_of[where ?'a = 64]
    byte_of[where ?'a = 16 and s = 0]
  by (auto intro!: ext simp: w_u16_def w_u32_def w_u64_def word_bytes_def upt_rec)

lemma length_word_bytes [simp]: "length (word_bytes k v) = k"
  by (simp add: word_bytes_def)

lemma peek_word_bytes:
  assumes "8 * k = LENGTH('a::len)"
  shows "peek_word k (pre @ word_bytes k v @ post) (length pre) = (v :: 'a word)"
proof -
  have "peek_word k (pre @ word_bytes k v @ post) (length pre) =
      fold (\<lambda>i acc. acc OR push_bit (8 * i) (ucast (ucast (drop_bit (8 * i) v) :: u8))) [0..<k] 0"
    unfolding peek_word_def by (intro fold_cong) (auto simp: word_bytes_def nth_append)
  also have "\<dots> = take_bit (8 * k) v" by (rule join_bytes)
  finally show ?thesis using assms by (simp add: take_bit_word_eq_self)
qed

lemma word_bytes_peek:
  assumes "8 * k \<le> LENGTH('a::len)" "at + k \<le> length data"
  shows "word_bytes k (peek_word k data at :: 'a word) = take k (drop at data)"
  by (rule nth_equalityI)
    (use assms in \<open>auto simp: word_bytes_def peek_word_def split_join[OF assms(1)]\<close>)

lemma peek_written [simp]:
  "length pre = at \<Longrightarrow> peek_u16 (pre @ w_u16 a @ post) at = a"
  "length pre = at \<Longrightarrow> peek_u32 (pre @ w_u32 b @ post) at = b"
  "length pre = at \<Longrightarrow> peek_u64 (pre @ w_u64 c @ post) at = c"
  unfolding peek_words write_words by (auto intro: peek_word_bytes)

lemma written_peek:
  "at + 2 \<le> length data \<Longrightarrow> w_u16 (peek_u16 data at) = take 2 (drop at data)"
  "at + 4 \<le> length data \<Longrightarrow> w_u32 (peek_u32 data at) = take 4 (drop at data)"
  "at + 8 \<le> length data \<Longrightarrow> w_u64 (peek_u64 data at) = take 8 (drop at data)"
  unfolding peek_words write_words by (simp_all add: word_bytes_peek)

text \<open>A field only depends on its own bytes.\<close>

lemma peek_word_cong:
  "(\<And>i. i < k \<Longrightarrow> data ! (at + i) = data' ! (at' + i)) \<Longrightarrow> peek_word k data at = peek_word k data' at'"
  unfolding peek_word_def by (intro fold_cong) auto

lemma peek_append:
  "at + 2 \<le> length data \<Longrightarrow> peek_u16 (data @ post) at = peek_u16 data at"
  "at + 4 \<le> length data \<Longrightarrow> peek_u32 (data @ post) at = peek_u32 data at"
  "at + 8 \<le> length data \<Longrightarrow> peek_u64 (data @ post) at = peek_u64 data at"
  unfolding peek_words by (auto intro!: peek_word_cong simp: nth_append)

end
