(* ===== verification/NRP_Journal.thy ===== *)
theory NRP_Journal
  imports NRP_Framing
begin

text \<open>
  The record format of the durable store (first half of \<open>src/persistence.cpp\<close>): the framing of one
  record and the scan of a journal with its checks, its refusals and its torn-tail rule. Proved: a
  journal cut at any byte scans to the complete records before the cut and reports the rest as a torn
  tail; a burst error in the last record's payload is refused.
\<close>

section \<open>Records\<close>

datatype record_type = RT_BOOT | RT_DEFINITION | RT_POLICY | RT_COMMITTED_PLAN | RT_INFEASIBILITY
  | RT_FENCE | RT_ATTEMPT | RT_EVIDENCE_LINEAGE | RT_COUNT

primrec raw_record_type :: "record_type \<Rightarrow> u16" where
  "raw_record_type RT_BOOT = 1"
| "raw_record_type RT_DEFINITION = 2"
| "raw_record_type RT_POLICY = 3"
| "raw_record_type RT_COMMITTED_PLAN = 4"
| "raw_record_type RT_INFEASIBILITY = 5"
| "raw_record_type RT_FENCE = 6"
| "raw_record_type RT_ATTEMPT = 7"
| "raw_record_type RT_EVIDENCE_LINEAGE = 8"
| "raw_record_type RT_COUNT = 9"

definition record_types :: "record_type list" where
  "record_types = [RT_BOOT, RT_DEFINITION, RT_POLICY, RT_COMMITTED_PLAN, RT_INFEASIBILITY, RT_FENCE,
     RT_ATTEMPT, RT_EVIDENCE_LINEAGE]"

definition valid_record_type :: "record_type \<Rightarrow> bool" where
  "valid_record_type t \<longleftrightarrow> t \<noteq> RT_COUNT"

definition is_dynamic_record :: "record_type \<Rightarrow> bool" where
  "is_dynamic_record t \<longleftrightarrow> t = RT_ATTEMPT \<or> t = RT_EVIDENCE_LINEAGE"

record durable_record =
  dr_type :: record_type
  dr_sequence :: u64
  dr_payload :: bytes

record store_limits =
  max_records :: u32
  max_record_bytes :: u32
  max_journal_bytes :: u64
  max_explanations :: u32

definition default_store_limits :: store_limits where
  "default_store_limits = \<lparr>max_records = 4096, max_record_bytes = 1048576,
     max_journal_bytes = 67108864, max_explanations = 128\<rparr>"

definition record_magic :: u32 where
  "record_magic = 0x4E525044"

definition record_header_size :: nat where
  "record_header_size = 40"

definition persistence_format_version :: u32 where
  "persistence_format_version = 1"

text \<open>The first 36 bytes of a header, which the header checksum covers, and the framed record.\<close>

definition record_header :: "record_type \<Rightarrow> u64 \<Rightarrow> u64 \<Rightarrow> bytes \<Rightarrow> bytes" where
  "record_header t sequence epoch payload =
     w_u32 record_magic @ w_u16 (ucast persistence_format_version) @ w_u16 (raw_record_type t) @
     w_u16 0 @ w_u16 0 @ w_u64 sequence @ w_u64 epoch @ w_u32 (of_nat (length payload)) @
     w_u32 (crc32 payload)"

definition frame_record :: "record_type \<Rightarrow> u64 \<Rightarrow> u64 \<Rightarrow> bytes \<Rightarrow> bytes" where
  "frame_record t sequence epoch payload =
     record_header t sequence epoch payload @
     w_u32 (crc32 (record_header t sequence epoch payload)) @ payload"

section \<open>Scanning\<close>

record scan_result =
  sc_status :: status
  sc_records :: "durable_record list"
  sc_good_bytes :: nat
  sc_torn_tail_bytes :: nat
  sc_torn_tail :: bool

text \<open>What the loop body finds at the current offset.\<close>

datatype scan_step = Scan_refused status | Scan_torn | Scan_record durable_record nat

definition magic_prefix :: "bytes \<Rightarrow> bool" where
  "magic_prefix tail \<longleftrightarrow>
     list_all (\<lambda>i. tail ! i = ucast (drop_bit (8 * i) record_magic AND 0xFF))
       [0..<if length tail < 4 then length tail else 4]"

definition scan_one :: "store_limits \<Rightarrow> u64 \<Rightarrow> bytes \<Rightarrow> scan_step" where
  "scan_one limits last_seen data =
     (if length data < record_header_size then
        (if \<not> magic_prefix data
         then Scan_refused (status_error SC_CORRUPT ''trailing bytes are not a record header prefix'')
         else Scan_torn)
      else if peek_u32 data 0 \<noteq> record_magic
        then Scan_refused (status_error SC_CORRUPT ''record magic mismatch'')
      else if ucast (peek_u16 data 4) \<noteq> persistence_format_version
        then Scan_refused (status_error SC_UNSUPPORTED
               (''record format version is not supported: '' @ dec_string (unat (peek_u16 data 4))))
      else if peek_u16 data 6 = 0 \<or> peek_u16 data 6 \<ge> raw_record_type RT_COUNT
        then Scan_refused (status_error SC_CORRUPT ''record type is outside the domain'')
      else if peek_u32 data 36 \<noteq> crc32 (take 36 data)
        then Scan_refused (status_error SC_CORRUPT ''record header checksum mismatch'')
      else
        let sequence = peek_u64 data 12; payload_length = peek_u32 data 28;
            extent = record_header_size + unat payload_length;
            payload = take (unat payload_length) (drop record_header_size data) in
        if payload_length > max_record_bytes limits
        then Scan_refused (status_error SC_CORRUPT ''record declares a payload beyond the configured bound'')
        else if length data < extent then Scan_torn
        else if crc32 payload \<noteq> peek_u32 data 32
        then Scan_refused (status_error SC_CORRUPT
               (''record payload checksum mismatch at sequence '' @ dec_string (unat sequence)))
        else if last_seen \<noteq> 0 \<and> sequence \<le> last_seen
        then Scan_refused (status_error SC_CORRUPT
               (''record sequences are not strictly increasing at '' @ dec_string (unat sequence)))
        else Scan_record \<lparr>dr_type = record_types ! (unat (peek_u16 data 6) - 1),
               dr_sequence = sequence, dr_payload = payload\<rparr> extent)"

text \<open>The loop, on the bytes from \<open>offset\<close> on.\<close>

function scan_loop ::
  "store_limits \<Rightarrow> u64 \<Rightarrow> nat \<Rightarrow> u64 \<Rightarrow> durable_record list \<Rightarrow> bytes \<Rightarrow> scan_result" where
  "scan_loop limits minimum offset last_seen found data =
     (if data = [] then
        \<lparr>sc_status = success, sc_records = found, sc_good_bytes = offset, sc_torn_tail_bytes = 0,
          sc_torn_tail = False\<rparr>
      else case scan_one limits last_seen data of
        Scan_refused e \<Rightarrow> \<lparr>sc_status = e, sc_records = found, sc_good_bytes = 0,
          sc_torn_tail_bytes = 0, sc_torn_tail = False\<rparr>
      | Scan_torn \<Rightarrow> \<lparr>sc_status = success, sc_records = found, sc_good_bytes = offset,
          sc_torn_tail_bytes = length data, sc_torn_tail = True\<rparr>
      | Scan_record r extent \<Rightarrow>
          scan_loop limits minimum (offset + extent) (dr_sequence r)
            (if dr_sequence r > minimum then found @ [r] else found) (drop extent data))"
  by pat_completeness auto

lemma scan_one_total: "scan_one limits last_seen data = Scan_record r extent \<Longrightarrow> 40 \<le> extent"
  by (auto simp: scan_one_def Let_def record_header_size_def split: if_splits)

termination scan_loop
  by (relation "measure (\<lambda>(_, _, _, _, _, data). length data)") (auto dest: scan_one_total)

declare scan_loop.simps [simp del]

definition scan_records :: "bytes \<Rightarrow> store_limits \<Rightarrow> u64 \<Rightarrow> scan_result" where
  "scan_records data limits minimum = scan_loop limits minimum 0 0 [] data"

section \<open>Framed records\<close>

text \<open>A journal: records with the epoch each was framed under.\<close>

type_synonym framed = "u64 \<times> durable_record"

definition frame_of :: "framed \<Rightarrow> bytes" where
  "frame_of f = (case f of (epoch, r) \<Rightarrow> frame_record (dr_type r) (dr_sequence r) epoch (dr_payload r))"

definition journal_of :: "framed list \<Rightarrow> bytes" where
  "journal_of fs = concat (map frame_of fs)"

definition record_within :: "store_limits \<Rightarrow> durable_record \<Rightarrow> bool" where
  "record_within l r \<longleftrightarrow> valid_record_type (dr_type r) \<and> length (dr_payload r) \<le> unat (max_record_bytes l)"

text \<open>The order of the scan: the next sequence number exceeds the last, unless that was zero.\<close>

fun sequences_from :: "u64 \<Rightarrow> durable_record list \<Rightarrow> bool" where
  "sequences_from last_seen [] \<longleftrightarrow> True"
| "sequences_from last_seen (r # rs) \<longleftrightarrow>
     (last_seen = 0 \<or> last_seen < dr_sequence r) \<and> sequences_from (dr_sequence r) rs"

definition well_framed :: "store_limits \<Rightarrow> u64 \<Rightarrow> framed list \<Rightarrow> bool" where
  "well_framed l last_seen fs \<longleftrightarrow> list_all (record_within l \<circ> snd) fs \<and> sequences_from last_seen (map snd fs)"

lemma length_record_header [simp]: "length (record_header t s e p) = 36"
  by (simp add: record_header_def)

lemma length_frame_record [simp]: "length (frame_record t s e p) = 40 + length p"
  by (simp add: frame_record_def)

lemma length_frame_of: "length (frame_of f) = 40 + length (dr_payload (snd f))"
  by (simp add: frame_of_def split: prod.split)

lemma frame_fields:
  "peek_u32 (frame_record t s e p @ post) 0 = record_magic"
  "peek_u16 (frame_record t s e p @ post) 4 = 1"
  "peek_u16 (frame_record t s e p @ post) 6 = raw_record_type t"
  "peek_u64 (frame_record t s e p @ post) 12 = s"
  "peek_u32 (frame_record t s e p @ post) 28 = of_nat (length p)"
  "peek_u32 (frame_record t s e p @ post) 32 = crc32 p"
  "peek_u32 (frame_record t s e p @ post) 36 = crc32 (take 36 (frame_record t s e p @ post))"
  "drop 40 (frame_record t s e p @ post) = p @ post"
proof -
  let ?rest = "w_u32 (crc32 (record_header t s e p)) @ p @ post"
  have f: "frame_record t s e p @ post =
     w_u32 record_magic @ w_u16 1 @ w_u16 (raw_record_type t) @ w_u16 0 @ w_u16 0 @ w_u64 s @
     w_u64 e @ w_u32 (of_nat (length p)) @ w_u32 (crc32 p) @ ?rest"
    by (simp add: frame_record_def record_header_def persistence_format_version_def)
  show "peek_u32 (frame_record t s e p @ post) 0 = record_magic"
    using peek_written(2)[of "[]" 0] by (simp add: f)
  show "peek_u16 (frame_record t s e p @ post) 4 = 1"
    using peek_written(1)[of "w_u32 record_magic" 4] by (simp add: f)
  show "peek_u16 (frame_record t s e p @ post) 6 = raw_record_type t"
    using peek_written(1)[of "w_u32 record_magic @ w_u16 1" 6] by (simp add: f)
  show "peek_u64 (frame_record t s e p @ post) 12 = s"
    using peek_written(3)[of "w_u32 record_magic @ w_u16 1 @ w_u16 (raw_record_type t) @ w_u16 0 @ w_u16 0" 12]
    by (simp add: f)
  show "peek_u32 (frame_record t s e p @ post) 28 = of_nat (length p)"
    using peek_written(2)[of "w_u32 record_magic @ w_u16 1 @ w_u16 (raw_record_type t) @ w_u16 0 @ w_u16 0 @
      w_u64 s @ w_u64 e" 28] by (simp add: f)
  show "peek_u32 (frame_record t s e p @ post) 32 = crc32 p"
    using peek_written(2)[of "w_u32 record_magic @ w_u16 1 @ w_u16 (raw_record_type t) @ w_u16 0 @ w_u16 0 @
      w_u64 s @ w_u64 e @ w_u32 (of_nat (length p))" 32] by (simp add: f)
  have "frame_record t s e p @ post = record_header t s e p @ w_u32 (crc32 (record_header t s e p)) @ p @ post"
    by (simp add: frame_record_def)
  then show "peek_u32 (frame_record t s e p @ post) 36 = crc32 (take 36 (frame_record t s e p @ post))"
    "drop 40 (frame_record t s e p @ post) = p @ post"
    using peek_written(2)[of "record_header t s e p" 36] by simp_all
qed

section \<open>Scanning framed records\<close>

lemma record_types_nth: "t \<noteq> RT_COUNT \<Longrightarrow> record_types ! (unat (raw_record_type t) - 1) = t"
  by (cases t) (simp_all add: record_types_def)

lemma raw_record_type_range:
  "t \<noteq> RT_COUNT \<Longrightarrow> raw_record_type t \<noteq> 0 \<and> raw_record_type t < raw_record_type RT_COUNT"
  by (cases t) simp_all

lemma bounded_length:
  assumes "n \<le> unat (m :: u32)"
  shows "unat (of_nat n :: u32) = n" "of_nat n \<le> m"
proof -
  show 1: "unat (of_nat n :: u32) = n"
    using order_le_less_trans[OF assms] unsigned_less[of m, where ?'a = nat] by (simp add: unat_of_nat)
  show "of_nat n \<le> m" using assms 1 by (simp add: word_le_nat_alt)
qed

text \<open>A header that frames some record passes the header checks; what remains are the payload checks.\<close>

lemma scan_one_header:
  assumes "valid_record_type t" "length p \<le> unat (max_record_bytes l)"
  shows "scan_one l last_seen (record_header t s e p @ w_u32 (crc32 (record_header t s e p)) @ post) =
    (if length post < length p then Scan_torn
     else if crc32 (take (length p) post) \<noteq> crc32 p
     then Scan_refused (status_error SC_CORRUPT
            (''record payload checksum mismatch at sequence '' @ dec_string (unat s)))
     else if last_seen \<noteq> 0 \<and> s \<le> last_seen
     then Scan_refused (status_error SC_CORRUPT
            (''record sequences are not strictly increasing at '' @ dec_string (unat s)))
     else Scan_record \<lparr>dr_type = t, dr_sequence = s, dr_payload = take (length p) post\<rparr> (40 + length p))"
proof -
  let ?h = "record_header t s e p" and ?d = "record_header t s e p @ w_u32 (crc32 (record_header t s e p))"
  have f: "frame_record t s e p = ?d @ p" by (simp add: frame_record_def)
  have fields: "peek_u32 (?d @ post) 0 = record_magic" "peek_u16 (?d @ post) 4 = 1"
    "peek_u16 (?d @ post) 6 = raw_record_type t" "peek_u64 (?d @ post) 12 = s"
    "peek_u32 (?d @ post) 28 = of_nat (length p)" "peek_u32 (?d @ post) 32 = crc32 p"
    "peek_u32 (?d @ post) 36 = crc32 ?h"
    using frame_fields[of t s e p "[]"] by (simp_all add: f peek_append del: append_assoc)
  have type: "raw_record_type t \<noteq> 0" "\<not> raw_record_type RT_COUNT \<le> raw_record_type t"
    "record_types ! (unat (raw_record_type t) - 1) = t"
    using assms(1) raw_record_type_range[of t] record_types_nth[of t]
    by (auto simp: valid_record_type_def not_le)
  have len: "unat (of_nat (length p) :: u32) = length p" "\<not> max_record_bytes l < of_nat (length p)"
    using bounded_length[OF assms(2)] by (auto simp: not_less)
  have parts: "length (?d @ post) = 40 + length post" "take 36 (?d @ post) = ?h" "drop 40 (?d @ post) = post"
    by simp_all
  show ?thesis
    unfolding append_assoc[symmetric] scan_one_def Let_def fields parts len record_header_size_def
      persistence_format_version_def
    using type len by simp
qed

lemma scan_one_frame:
  assumes "record_within l r" "last_seen = 0 \<or> last_seen < dr_sequence r"
  shows "scan_one l last_seen (frame_of (e, r) @ post) = Scan_record r (40 + length (dr_payload r))"
  using assms scan_one_header[of "dr_type r" "dr_payload r" l last_seen "dr_sequence r" e "dr_payload r @ post"]
  by (auto simp: record_within_def frame_of_def frame_record_def not_le)

lemma magic_prefix_frame: "n < 40 \<Longrightarrow> magic_prefix (take n (frame_record t s e p))"
proof -
  have "take 4 (frame_record t s e p) = w_u32 record_magic"
    by (simp add: frame_record_def record_header_def)
  moreover have "take n (frame_record t s e p) ! i = take 4 (frame_record t s e p) ! i" if "i < n" "i < 4" for i
    using that by simp
  ultimately show ?thesis
    by (auto simp: magic_prefix_def list_all_iff w_u32_def min_def split: if_splits)
qed

lemma scan_one_torn:
  assumes "record_within l r" "n < length (frame_of (e, r))"
  shows "scan_one l last_seen (take n (frame_of (e, r))) = Scan_torn"
proof (cases "n < 40")
  case True
  then show ?thesis
    using assms(2) magic_prefix_frame[OF True]
    by (simp add: scan_one_def record_header_size_def frame_of_def)
next
  case False
  let ?h = "record_header (dr_type r) (dr_sequence r) e (dr_payload r)"
  have "take n (frame_of (e, r)) = ?h @ w_u32 (crc32 ?h) @ take (n - 40) (dr_payload r)"
    using False by (simp add: frame_of_def frame_record_def)
  moreover have short: "length (take (n - 40) (dr_payload r)) < length (dr_payload r)"
    using assms(2) False by (auto simp: length_frame_of)
  ultimately show ?thesis
    using assms(1) by (simp only: scan_one_header record_within_def short if_True)
qed

text \<open>The records that a cut after \<open>n\<close> bytes leaves complete.\<close>

fun complete_frames :: "nat \<Rightarrow> framed list \<Rightarrow> framed list" where
  "complete_frames n [] = []"
| "complete_frames n (f # fs) =
     (if n < length (frame_of f) then [] else f # complete_frames (n - length (frame_of f)) fs)"

lemma journal_of_simps [simp]:
  "journal_of [] = []" "journal_of (f # fs) = frame_of f @ journal_of fs"
  "journal_of (fs @ gs) = journal_of fs @ journal_of gs"
  by (simp_all add: journal_of_def)

lemma complete_frames_prefix: "\<exists>gs. fs = complete_frames n fs @ gs"
  by (induction n fs rule: complete_frames.induct) auto

lemma complete_frames_all: "length (journal_of fs) \<le> n \<Longrightarrow> complete_frames n fs = fs"
  by (induction n fs rule: complete_frames.induct) auto

lemma complete_frames_bytes: "n \<le> length (journal_of fs) \<Longrightarrow> length (journal_of (complete_frames n fs)) \<le> n"
proof (induction n fs rule: complete_frames.induct)
  case (2 n f fs)
  show ?case
  proof (cases "n < length (frame_of f)")
    case False
    with 2 have "length (journal_of (complete_frames (n - length (frame_of f)) fs)) \<le> n - length (frame_of f)"
      by simp
    with False show ?thesis by simp
  qed simp
qed simp

lemma frame_not_empty: "frame_of f \<noteq> []"
  using length_frame_of[of f] by (metis add_is_0 list.size(3) zero_neq_numeral)

lemma scan_loop_cut:
  "well_framed l last_seen fs \<Longrightarrow> n \<le> length (journal_of fs) \<Longrightarrow>
   scan_loop l m offset last_seen found (take n (journal_of fs)) =
     \<lparr>sc_status = success,
      sc_records = found @ filter (\<lambda>r. dr_sequence r > m) (map snd (complete_frames n fs)),
      sc_good_bytes = offset + length (journal_of (complete_frames n fs)),
      sc_torn_tail_bytes = n - length (journal_of (complete_frames n fs)),
      sc_torn_tail = (length (journal_of (complete_frames n fs)) < n)\<rparr>"
proof (induction n fs arbitrary: offset last_seen found rule: complete_frames.induct)
  case (1 n)
  then show ?case by (simp add: scan_loop.simps)
next
  case (2 n f fs)
  obtain e r where f: "f = (e, r)" by (cases f)
  have r: "record_within l r" "last_seen = 0 \<or> last_seen < dr_sequence r" "well_framed l (dr_sequence r) fs"
    using "2.prems"(1) by (auto simp: well_framed_def f)
  show ?case
  proof (cases "n < length (frame_of f)")
    case True
    have "take n (journal_of (f # fs)) = take n (frame_of (e, r))" using True by (simp add: f)
    moreover have "n \<noteq> 0 \<Longrightarrow> take n (frame_of (e, r)) \<noteq> []" using frame_not_empty[of f] by (simp add: f)
    ultimately show ?thesis
      using True scan_one_torn[OF r(1), of n e last_seen]
      by (cases "n = 0") (simp_all add: scan_loop.simps f)
  next
    case False
    have "take n (journal_of (f # fs)) = frame_of (e, r) @ take (n - length (frame_of f)) (journal_of fs)"
      using False by (simp add: f)
    moreover have "40 + length (dr_payload r) = length (frame_of f)" by (simp add: f length_frame_of)
    moreover have "n - length (frame_of f) \<le> length (journal_of fs)" using "2.prems"(2) by simp
    ultimately show ?thesis
      using False frame_not_empty[of f] scan_one_frame[OF r(1,2)] "2.IH"[OF False r(3)]
      by (subst scan_loop.simps) (auto simp: f not_less)
  qed
qed

lemma scan_records_cut:
  assumes "well_framed l 0 fs" "n \<le> length (journal_of fs)"
  shows "scan_records (take n (journal_of fs)) l m =
     \<lparr>sc_status = success, sc_records = filter (\<lambda>r. dr_sequence r > m) (map snd (complete_frames n fs)),
      sc_good_bytes = length (journal_of (complete_frames n fs)),
      sc_torn_tail_bytes = n - length (journal_of (complete_frames n fs)),
      sc_torn_tail = (length (journal_of (complete_frames n fs)) < n)\<rparr>"
  using scan_loop_cut[OF assms] by (simp add: scan_records_def)

lemma scan_records_whole:
  assumes "well_framed l 0 fs"
  shows "scan_records (journal_of fs) l m =
     \<lparr>sc_status = success, sc_records = filter (\<lambda>r. dr_sequence r > m) (map snd fs),
      sc_good_bytes = length (journal_of fs), sc_torn_tail_bytes = 0, sc_torn_tail = False\<rparr>"
  using scan_records_cut[OF assms order_refl] by (simp add: complete_frames_all)

section \<open>Damaged records\<close>

lemma scan_loop_prefix:
  "well_framed l last_seen fs \<Longrightarrow>
   scan_loop l m offset last_seen found (journal_of fs @ rest) =
     scan_loop l m (offset + length (journal_of fs))
       (if fs = [] then last_seen else dr_sequence (snd (last fs)))
       (found @ filter (\<lambda>r. dr_sequence r > m) (map snd fs)) rest"
proof (induction fs arbitrary: offset last_seen found)
  case (Cons f fs)
  obtain e r where f: "f = (e, r)" by (cases f)
  have r: "record_within l r" "last_seen = 0 \<or> last_seen < dr_sequence r" "well_framed l (dr_sequence r) fs"
    using Cons.prems by (auto simp: well_framed_def f)
  show ?case
    using frame_not_empty[of f] scan_one_frame[OF r(1,2)] Cons.IH[OF r(3)] length_frame_of[of f]
    by (subst scan_loop.simps) (auto simp: f add.assoc)
qed simp

lemma scan_one_bad_header:
  assumes "length h = 36" "c \<noteq> crc32 h"
  shows "\<exists>e. scan_one l last_seen (h @ w_u32 c @ post) = Scan_refused e \<and> \<not> status_ok e"
proof -
  let ?d = "h @ w_u32 c @ post"
  have "peek_u32 ?d 36 = c" "take 36 ?d = h" "\<not> length ?d < record_header_size"
    using peek_written(2)[of h 36 c post] assms(1) by (simp_all add: record_header_size_def)
  with assms(2) show ?thesis by (simp add: scan_one_def)
qed

lemma scan_one_bad_payload:
  assumes "record_within l r" "length q = length (dr_payload r)" "crc32 q \<noteq> crc32 (dr_payload r)"
  shows "\<exists>e'. scan_one l last_seen (take 40 (frame_of (e, r)) @ q @ post) = Scan_refused e' \<and> \<not> status_ok e'"
proof -
  have "take 40 (frame_of (e, r)) @ q @ post =
      record_header (dr_type r) (dr_sequence r) e (dr_payload r) @
      w_u32 (crc32 (record_header (dr_type r) (dr_sequence r) e (dr_payload r))) @ (q @ post)"
    by (simp add: frame_of_def frame_record_def)
  then show ?thesis
    using assms by (simp only: scan_one_header record_within_def) simp
qed

lemma scan_loop_refused:
  "scan_one l last_seen data = Scan_refused e \<Longrightarrow> data \<noteq> [] \<Longrightarrow>
   sc_status (scan_loop l m offset last_seen found data) = e"
  by (subst scan_loop.simps) simp

section \<open>Properties\<close>

text \<open>A journal of two records, for the witnesses.\<close>

definition sample_journal :: "framed list" where
  "sample_journal =
     [(1, \<lparr>dr_type = RT_BOOT, dr_sequence = 1, dr_payload = [1, 2, 3]\<rparr>),
      (1, \<lparr>dr_type = RT_ATTEMPT, dr_sequence = 2, dr_payload = [4]\<rparr>)]"

lemma sample_journal_framed: "well_framed default_store_limits 0 sample_journal"
  by (simp add: sample_journal_def well_framed_def record_within_def valid_record_type_def
      default_store_limits_def)

text \<open>C36. A journal that ends anywhere, whether between two records or inside one, is recovered up to
  its last complete record: the scan succeeds, it returns exactly the records wholly before the cut
  (those above the minimum sequence), and it reports the position after them and the length of the
  torn tail. With the cut at the end of the file it returns every record.\<close>

theorem journal_cut_recovery:
  assumes "well_framed l 0 fs" and "n \<le> length (journal_of fs)"
  shows "\<exists>k \<le> length fs.
     scan_records (take n (journal_of fs)) l m =
       \<lparr>sc_status = success, sc_records = filter (\<lambda>r. dr_sequence r > m) (map snd (take k fs)),
        sc_good_bytes = length (journal_of (take k fs)),
        sc_torn_tail_bytes = n - length (journal_of (take k fs)),
        sc_torn_tail = (length (journal_of (take k fs)) < n)\<rparr> \<and>
     length (journal_of (take k fs)) \<le> n \<and>
     (k = length fs \<or> n < length (journal_of (take (Suc k) fs)))"
proof -
  have "\<exists>k \<le> length fs. complete_frames n fs = take k fs \<and>
      (k = length fs \<or> n < length (journal_of (take (Suc k) fs)))"
    using assms(2)
  proof (induction n fs rule: complete_frames.induct)
    case (2 n f fs)
    show ?case
    proof (cases "n < length (frame_of f)")
      case False
      have "n - length (frame_of f) \<le> length (journal_of fs)" using "2.prems" by simp
      from "2.IH"[OF False this] obtain k where "k \<le> length fs" "complete_frames (n - length (frame_of f)) fs = take k fs"
        "k = length fs \<or> n - length (frame_of f) < length (journal_of (take (Suc k) fs))" by blast
      with False show ?thesis by (intro exI[of _ "Suc k"]) auto
    qed (auto intro: exI[of _ 0])
  qed simp
  then obtain k where k: "k \<le> length fs" "complete_frames n fs = take k fs"
    "k = length fs \<or> n < length (journal_of (take (Suc k) fs))" by blast
  show ?thesis
    using k scan_records_cut[OF assms, of m] complete_frames_bytes[OF assms(2)]
    by (intro exI[of _ k]) simp
qed

theorem journal_cut_recovery_witness:
  "\<exists>k \<le> 2. sc_records (scan_records (take 50 (journal_of sample_journal)) default_store_limits 0) =
     map snd (take k sample_journal)"
proof -
  have "50 \<le> length (journal_of sample_journal)"
    by (simp add: sample_journal_def length_frame_of)
  from journal_cut_recovery[OF sample_journal_framed this, of 0]
  show ?thesis by (force simp: sample_journal_def take_Cons split: nat.splits)
qed

text \<open>C37. A burst error of up to 32 bits that lies wholly in the 36 header bytes the header checksum covers, or
  wholly in the payload, of a record is refused: whatever follows the record, the scan of the journal ends with an error status, it neither
  skips the record nor takes it for a torn tail.\<close>

theorem journal_burst_refused:
  assumes "well_framed l 0 (fs @ [(e, r)])"
    and "burst_error h (take 36 (frame_of (e, r))) \<and> d = h @ drop 36 (frame_of (e, r)) \<or>
         burst_error q (dr_payload r) \<and> d = take 40 (frame_of (e, r)) @ q"
  shows "\<not> status_ok (sc_status (scan_records (journal_of fs @ d @ rest) l m))"
proof -
  let ?h = "record_header (dr_type r) (dr_sequence r) e (dr_payload r)"
  have sorted: "sequences_from x (as @ bs) \<Longrightarrow> sequences_from x as" for x as bs
    by (induction x as rule: sequences_from.induct) auto
  have wf: "well_framed l 0 fs" "record_within l r"
    using assms(1) sorted by (auto simp: well_framed_def)
  have "\<exists>x. scan_one l last_seen (d @ rest) = Scan_refused x \<and> \<not> status_ok x" for last_seen
    using assms(2)
  proof
    assume b: "burst_error h (take 36 (frame_of (e, r))) \<and> d = h @ drop 36 (frame_of (e, r))"
    have parts: "take 36 (frame_of (e, r)) = ?h" "drop 36 (frame_of (e, r)) = w_u32 (crc32 ?h) @ dr_payload r"
      by (simp_all add: frame_of_def frame_record_def)
    show ?thesis
      using b burst_error_length[of h ?h] crc32_burst[of h ?h]
        scan_one_bad_header[of h "crc32 ?h" l last_seen "dr_payload r @ rest"] by (auto simp: parts)
  next
    assume b: "burst_error q (dr_payload r) \<and> d = take 40 (frame_of (e, r)) @ q"
    then show ?thesis
      using burst_error_length[of q] crc32_burst[of q] scan_one_bad_payload[OF wf(2), of q last_seen e rest]
      by auto
  qed
  moreover have "d @ rest \<noteq> []"
  proof -
    have "length (frame_of (e, r)) \<ge> 40" by (simp add: length_frame_of)
    with assms(2) show ?thesis by auto
  qed
  ultimately show ?thesis
    unfolding scan_records_def scan_loop_prefix[OF wf(1)] by (metis scan_loop_refused)
qed

theorem journal_burst_refused_witness:
  "\<not> status_ok (sc_status (scan_records
      (take 40 (frame_of (sample_journal ! 0)) @ [1, 2, 7]) default_store_limits 0))"
proof -
  have "burst_error ([1, 2] @ [7] @ []) ([1, 2] @ [3] @ [])" by (rule burst_errorI) simp_all
  then show ?thesis
    using journal_burst_refused[of default_store_limits "[]" 1
        "\<lparr>dr_type = RT_BOOT, dr_sequence = 1, dr_payload = [1, 2, 3]\<rparr>" undefined _ "[1, 2, 7]" "[]" 0]
      sample_journal_framed by (simp add: sample_journal_def well_framed_def)
qed

end
