(* ===== verification/NRP_Store.thy ===== *)
theory NRP_Store
  imports NRP_Journal NRP_Codec
begin

text \<open>
  The durable store (\<open>DurableStore\<close>, second half of \<open>src/persistence.cpp\<close>): opening with recovery,
  appending, fencing and the transactional snapshot. The disk is the contents of the journal and of
  the snapshot file; what a file system call does is an argument, so that failed and partial writes
  and crashes between two calls are values of it. The texts of \<open>std::error_code\<close> come with it.
\<close>

section \<open>State\<close>

record disk =
  dk_journal :: "bytes option"
  dk_snapshot :: "bytes option"

record recovery_report =
  rr_fresh_store :: bool
  rr_previous_epoch :: u64
  rr_current_epoch :: u64
  rr_previous_boot :: u64
  rr_current_boot :: u64
  rr_records_recovered :: u64
  rr_torn_tail_bytes :: u64
  rr_torn_tail_recovered :: bool
  rr_fenced_dynamic_records :: u32
  rr_restored_static_records :: u32
  rr_explanations :: "explanation list"

definition empty_report :: recovery_report where
  "empty_report = \<lparr>rr_fresh_store = False, rr_previous_epoch = 0, rr_current_epoch = 0,
     rr_previous_boot = 0, rr_current_boot = 0, rr_records_recovered = 0, rr_torn_tail_bytes = 0,
     rr_torn_tail_recovered = False, rr_fenced_dynamic_records = 0, rr_restored_static_records = 0,
     rr_explanations = []\<rparr>"

record open_options =
  op_limits :: store_limits
  op_model_limits :: model_limits
  op_create_if_missing :: bool
  op_advance_epoch :: bool

text \<open>\<open>st_file\<close>: there is a journal handle.\<close>

record store =
  st_limits :: store_limits
  st_records :: "durable_record list"
  st_fences :: "fence list"
  st_last_sequence :: u64
  st_epoch :: u64
  st_boot :: u64
  st_recovery :: recovery_report
  st_closed :: bool
  st_file :: bool

section \<open>Appending\<close>

text \<open>\<open>flush_file\<close>.\<close>

datatype flush_result = Flushed | Fflush_failed | Fsync_failed

fun flush_file :: "flush_result \<Rightarrow> status" where
  "flush_file Flushed = success"
| "flush_file Fflush_failed = status_error SC_IO_ERROR ''fflush failed''"
| "flush_file Fsync_failed = status_error SC_IO_ERROR ''fsync failed''"

text \<open>A write through the journal handle: whether \<open>fwrite\<close> took every byte, whether the flush
  succeeded, and how many of the bytes are in the file afterwards. Bytes that stay in the buffer of the
  stream after a write without a successful flush are not carried over to the next write, so what is
  proved of appending is proved for a handle none of whose earlier writes failed.\<close>

record write_env =
  we_written :: bool
  we_flush :: flush_result
  we_reached :: nat

definition extend_journal :: "write_env \<Rightarrow> bytes \<Rightarrow> disk \<Rightarrow> disk" where
  "extend_journal w data dk =
     dk\<lparr>dk_journal := map_option (\<lambda>j. j @ take (we_reached w) data) (dk_journal dk)\<rparr>"

definition next_record :: "record_type \<Rightarrow> bytes \<Rightarrow> store \<Rightarrow> durable_record" where
  "next_record t payload st = \<lparr>dr_type = t, dr_sequence = st_last_sequence st + 1, dr_payload = payload\<rparr>"

definition store_append :: "write_env \<Rightarrow> record_type \<Rightarrow> bytes \<Rightarrow> bool \<Rightarrow> store \<times> disk \<Rightarrow>
    (status + u64) \<times> store \<times> disk" where
  "store_append w t payload flush_now sd = (case sd of (st, dk) \<Rightarrow>
     if st_closed st then (Inl (status_error SC_CLOSED ''store is closed''), st, dk)
     else if \<not> valid_record_type t
       then (Inl (status_error SC_INVALID_ARGUMENT ''record type is outside the domain''), st, dk)
     else if length payload > unat (max_record_bytes (st_limits st))
       then (Inl (status_error SC_EXHAUSTED ''record payload exceeds the configured bound''), st, dk)
     else if length (st_records st) \<ge> unat (max_records (st_limits st))
       then (Inl (status_error SC_EXHAUSTED ''durable record count bound reached''), st, dk)
     else let r = next_record t payload st;
              data = frame_record t (dr_sequence r) (st_epoch st) payload in
       if \<not> st_file st then (Inl (status_error SC_CLOSED ''store has no journal handle''), st, dk)
       else let dk' = extend_journal w data dk in
       if \<not> we_written w then (Inl (status_error SC_IO_ERROR ''journal write failed''), st, dk')
       else if flush_now \<and> \<not> status_ok (flush_file (we_flush w)) then (Inl (flush_file (we_flush w)), st, dk')
       else (Inr (dr_sequence r),
             st\<lparr>st_records := st_records st @ [r], st_last_sequence := dr_sequence r\<rparr>, dk'))"

definition record_fence :: "write_env \<Rightarrow> fence \<Rightarrow> store \<times> disk \<Rightarrow> (status + u64) \<times> store \<times> disk" where
  "record_fence w f sd = (case store_append w RT_FENCE (encode_fence f) True sd of
       (Inl e, st, dk) \<Rightarrow> (Inl e, st, dk)
     | (Inr sq, st, dk) \<Rightarrow> (Inr sq, st\<lparr>st_fences := st_fences st @ [f]\<rparr>, dk))"

section \<open>Snapshots\<close>

definition snapshot_magic :: u32 where
  "snapshot_magic = 0x4E525053"

definition snapshot_header_size :: nat where
  "snapshot_header_size = 40"

definition snapshot_payload :: "durable_record list \<Rightarrow> u64 \<Rightarrow> bytes" where
  "snapshot_payload rs epoch =
     concat (map (\<lambda>r. frame_record (dr_type r) (dr_sequence r) epoch (dr_payload r)) rs)"

definition snapshot_header :: "durable_record list \<Rightarrow> u64 \<Rightarrow> u64 \<Rightarrow> bytes" where
  "snapshot_header rs last_sequence epoch =
     w_u32 snapshot_magic @ w_u16 (ucast persistence_format_version) @ w_u16 0 @
     w_u32 (of_nat (length rs)) @ w_u32 (of_nat (length (snapshot_payload rs epoch))) @
     w_u32 (crc32 (snapshot_payload rs epoch)) @ w_u64 last_sequence @ w_u64 epoch"

definition snapshot_bytes :: "durable_record list \<Rightarrow> u64 \<Rightarrow> u64 \<Rightarrow> bytes" where
  "snapshot_bytes rs last_sequence epoch =
     snapshot_header rs last_sequence epoch @ w_u32 (crc32 (snapshot_header rs last_sequence epoch)) @
     snapshot_payload rs epoch"

text \<open>Which calls of \<open>commit_snapshot\<close> succeed.\<close>

record commit_env =
  ce_temp_created :: bool
  ce_temp_written :: bool
  ce_temp_flush :: flush_result
  ce_renamed :: bool
  ce_journal_opened :: bool
  ce_journal_flush :: flush_result
  ce_reopened :: bool

definition commit_snapshot :: "commit_env \<Rightarrow> store \<times> disk \<Rightarrow> status \<times> store \<times> disk" where
  "commit_snapshot c sd = (case sd of (st, dk) \<Rightarrow>
     if st_closed st then (status_error SC_CLOSED ''store is closed'', st, dk)
     else if \<not> ce_temp_created c
       then (status_error SC_IO_ERROR ''cannot create the temporary snapshot'', st, dk)
     else if \<not> ce_temp_written c then (status_error SC_IO_ERROR ''snapshot write failed'', st, dk)
     else if \<not> status_ok (flush_file (ce_temp_flush c)) then (flush_file (ce_temp_flush c), st, dk)
     else if \<not> ce_renamed c
       then (status_error SC_IO_ERROR ''transactional snapshot replacement failed'', st, dk)
     else
       let installed = dk\<lparr>dk_snapshot :=
             Some (snapshot_bytes (st_records st) (st_last_sequence st) (st_epoch st))\<rparr>;
           detached = st\<lparr>st_file := False\<rparr> in
       if \<not> ce_journal_opened c
         then (status_error SC_IO_ERROR ''cannot reset the journal after the snapshot'', detached, installed)
       else let emptied = installed\<lparr>dk_journal := Some []\<rparr> in
       if \<not> status_ok (flush_file (ce_journal_flush c))
         then (flush_file (ce_journal_flush c), detached, emptied)
       else if \<not> ce_reopened c
         then (status_error SC_IO_ERROR ''cannot reopen the journal after the snapshot'', detached, emptied)
       else (success, st\<lparr>st_file := True\<rparr>, emptied))"

section \<open>Opening\<close>

record file_io =
  fi_stat_error :: "string option"
  fi_open_ok :: bool
  fi_read_ok :: bool

definition read_file :: "string \<Rightarrow> file_io \<Rightarrow> u64 \<Rightarrow> bytes \<Rightarrow> status + bytes" where
  "read_file path io max_bytes data =
     (case fi_stat_error io of
        Some msg \<Rightarrow> Inl (status_error SC_IO_ERROR (''cannot stat '' @ path @ '': '' @ msg))
      | None \<Rightarrow>
         if length data > unat max_bytes
           then Inl (status_error SC_CORRUPT ''durable state exceeds the configured bound'')
         else if \<not> fi_open_ok io then Inl (status_error SC_IO_ERROR (''cannot open '' @ path))
         else if \<not> fi_read_ok io then Inl (status_error SC_IO_ERROR (''short read from '' @ path))
         else Inr data)"

text \<open>The snapshot file: its records, its sequence number and its epoch.\<close>

definition parse_snapshot :: "store_limits \<Rightarrow> bytes \<Rightarrow> status + durable_record list \<times> u64 \<times> u64" where
  "parse_snapshot limits data =
     (if length data < snapshot_header_size
        then Inl (status_error SC_CORRUPT ''snapshot header is truncated'')
      else if peek_u32 data 0 \<noteq> snapshot_magic
        then Inl (status_error SC_CORRUPT ''snapshot magic mismatch'')
      else if ucast (peek_u16 data 4) \<noteq> persistence_format_version
        then Inl (status_error SC_UNSUPPORTED ''snapshot format version is not supported'')
      else if peek_u32 data 36 \<noteq> crc32 (take 36 data)
        then Inl (status_error SC_CORRUPT ''snapshot header checksum mismatch'')
      else let payload_length = peek_u32 data 12; payload_crc = peek_u32 data 16;
               payload = drop snapshot_header_size data in
        if length data \<noteq> snapshot_header_size + unat payload_length
          then Inl (status_error SC_CORRUPT ''snapshot length does not match its header'')
        else if crc32 payload \<noteq> payload_crc
          then Inl (status_error SC_CORRUPT ''snapshot payload checksum mismatch'')
        else let scan = scan_records payload limits 0 in
          if \<not> status_ok (sc_status scan) then Inl (sc_status scan)
          else if sc_torn_tail scan
            then Inl (status_error SC_CORRUPT ''snapshot contains a torn record'')
          else Inr (sc_records scan, peek_u64 data 20, peek_u64 data 28))"

text \<open>The pass over the recovered records: last sequence number, epoch, boot identity and fences.\<close>

record replayed =
  rp_last :: u64
  rp_epoch :: u64
  rp_boot :: u64
  rp_fences :: "fence list"

definition read_boot_record :: "bytes \<Rightarrow> (u64 \<times> u64) option" where
  "read_boot_record payload =
     (case r_u32 (make_reader payload) of (_, rd) \<Rightarrow> case r_u64 rd of (_, rd) \<Rightarrow>
      case r_u64 rd of (_, rd) \<Rightarrow> case r_u64 rd of (epoch, rd) \<Rightarrow> case r_u64 rd of (boot, rd) \<Rightarrow>
      if rd_ok rd then Some (epoch, boot) else None)"

definition replay_record :: "durable_record \<Rightarrow> replayed \<Rightarrow> status + replayed" where
  "replay_record r p =
     (if dr_sequence r \<le> rp_last p \<and> rp_last p \<noteq> 0
        then Inl (status_error SC_CORRUPT ''durable sequences are not strictly increasing'')
      else let p = p\<lparr>rp_last := dr_sequence r\<rparr> in
        if dr_type r = RT_BOOT then
          (case read_boot_record (dr_payload r) of
             None \<Rightarrow> Inl (status_error SC_CORRUPT ''boot record payload is malformed'')
           | Some (epoch, boot) \<Rightarrow> Inr (p\<lparr>rp_epoch := epoch, rp_boot := boot\<rparr>))
        else if dr_type r = RT_FENCE then
          (case decode_fence (make_reader (dr_payload r)) of
             Inl e \<Rightarrow> Inl e
           | Inr (f, _) \<Rightarrow> Inr (p\<lparr>rp_fences := rp_fences p @ [f]\<rparr>))
        else Inr p)"

fun replay_records :: "durable_record list \<Rightarrow> replayed \<Rightarrow> status + replayed" where
  "replay_records [] p = Inr p"
| "replay_records (r # rs) p = (case replay_record r p of Inl e \<Rightarrow> Inl e | Inr p' \<Rightarrow> replay_records rs p')"

definition encode_epoch_payload :: "u64 \<Rightarrow> u64 \<Rightarrow> u64 \<Rightarrow> u64 \<Rightarrow> bytes" where
  "encode_epoch_payload previous_epoch previous_boot current_epoch current_boot =
     w_u32 persistence_format_version @ w_u64 previous_epoch @ w_u64 previous_boot @
     w_u64 current_epoch @ w_u64 current_boot"

text \<open>The answers of the file system while a store is opened: \<open>oe_parent_usable\<close> is false when the
  path has a parent part that is not a directory, and \<open>oe_writes\<close> answers the appends.\<close>

record open_env =
  oe_is_directory :: bool
  oe_parent_usable :: bool
  oe_snapshot_io :: file_io
  oe_journal_io :: file_io
  oe_truncate_opened :: bool
  oe_truncated :: bool
  oe_append_opened :: bool
  oe_created :: bool
  oe_writes :: "nat \<Rightarrow> write_env"

definition torn_tail_note :: "nat \<Rightarrow> explanation" where
  "torn_tail_note n = \<lparr>ex_code = RC_PERSISTENCE_TORN_TAIL_RECOVERED, ex_subject = no_subject,
     ex_detail_a = of_nat n, ex_detail_b = 0, ex_text = ''a strictly partial trailing record was discarded''\<rparr>"

text \<open>The journal stage: the records above the snapshot, the report, and the journal cut back to its
  last complete record.\<close>

definition load_journal :: "string \<Rightarrow> open_env \<Rightarrow> store_limits \<Rightarrow> u64 \<Rightarrow> recovery_report \<Rightarrow> bytes \<Rightarrow>
    status + durable_record list \<times> recovery_report \<times> bytes" where
  "load_journal path env limits snapshot_sequence report contents =
     (case read_file path (oe_journal_io env) (max_journal_bytes limits) contents of
        Inl e \<Rightarrow> Inl e
      | Inr data \<Rightarrow>
         let scan = scan_records data limits snapshot_sequence in
         if \<not> status_ok (sc_status scan) then Inl (sc_status scan)
         else if \<not> sc_torn_tail scan then Inr (sc_records scan, report, contents)
         else if \<not> oe_truncate_opened env
           then Inl (status_error SC_IO_ERROR ''cannot open the journal to recover a torn tail'')
         else if \<not> oe_truncated env
           then Inl (status_error SC_IO_ERROR ''cannot truncate the recovered journal tail'')
         else Inr (sc_records scan,
                report\<lparr>rr_torn_tail_recovered := True, rr_torn_tail_bytes := of_nat (sc_torn_tail_bytes scan),
                  rr_explanations := rr_explanations report @ [torn_tail_note (sc_torn_tail_bytes scan)]\<rparr>,
                take (sc_good_bytes scan) contents))"

text \<open>Both files: the recovered records, the report and the disk after recovery.\<close>

definition recover :: "string \<Rightarrow> open_env \<Rightarrow> store_limits \<Rightarrow> disk \<Rightarrow>
    status + durable_record list \<times> recovery_report \<times> disk" where
  "recover path env limits dk =
     (let report = empty_report\<lparr>rr_fresh_store := dk_journal dk = None \<and> dk_snapshot dk = None\<rparr>;
          from_snapshot = (case dk_snapshot dk of
              None \<Rightarrow> Inr ([], 0, report)
            | Some contents \<Rightarrow>
               (case read_file (path @ ''.snapshot'') (oe_snapshot_io env) (max_journal_bytes limits) contents of
                  Inl e \<Rightarrow> Inl e
                | Inr data \<Rightarrow> (case parse_snapshot limits data of
                     Inl e \<Rightarrow> Inl e
                   | Inr (rs, sq, ep) \<Rightarrow> Inr (rs, sq, report\<lparr>rr_previous_epoch := ep,
                        rr_restored_static_records := of_nat (length rs)\<rparr>)))) in
      case from_snapshot of
        Inl e \<Rightarrow> Inl e
      | Inr (rs, sq, report) \<Rightarrow>
         (case dk_journal dk of
            None \<Rightarrow> Inr (rs, report, dk)
          | Some contents \<Rightarrow> (case load_journal path env limits sq report contents of
               Inl e \<Rightarrow> Inl e
             | Inr (js, report, kept) \<Rightarrow> Inr (rs @ js, report, dk\<lparr>dk_journal := Some kept\<rparr>))))"

text \<open>The fence written for a recovered dynamic record, and the loop that writes them all.\<close>

definition restart_fence :: "u64 \<Rightarrow> u64 \<Rightarrow> u64 \<Rightarrow> fence" where
  "restart_fence epoch boot sequence =
     \<lparr>fe_epoch = epoch, fe_boot = boot, fe_domain = AD_FABRIC_STATE, fe_minimum_generation = sequence,
      fe_sequence = sequence,
      fe_reason = ''process restart fenced a dynamic record recovered from sequence ''
        @ dec_string (unat sequence)\<rparr>"

fun fence_all :: "(nat \<Rightarrow> write_env) \<Rightarrow> u64 \<Rightarrow> u64 \<Rightarrow> nat \<Rightarrow> u64 list \<Rightarrow> store \<times> disk \<Rightarrow>
    status option \<times> store \<times> disk" where
  "fence_all ws epoch boot i [] sd = (None, sd)"
| "fence_all ws epoch boot i (sq # sqs) sd =
     (case record_fence (ws i) (restart_fence epoch boot sq) sd of
        (Inl e, sd') \<Rightarrow> (Some e, sd')
      | (Inr _, sd') \<Rightarrow> fence_all ws epoch boot (Suc i) sqs sd')"

definition store_note :: "reason_code \<Rightarrow> u64 \<Rightarrow> u64 \<Rightarrow> string \<Rightarrow> explanation" where
  "store_note code a b text = \<lparr>ex_code = code, ex_subject = no_subject, ex_detail_a = a, ex_detail_b = b,
     ex_text = text\<rparr>"

text \<open>The store as it is before the fencing pass.\<close>

definition restored_store :: "open_options \<Rightarrow> durable_record list \<Rightarrow> recovery_report \<Rightarrow> replayed \<Rightarrow> store" where
  "restored_store options rs report p =
     \<lparr>st_limits = op_limits options, st_records = rs, st_fences = rp_fences p, st_last_sequence = rp_last p,
      st_epoch = (if op_advance_epoch options then rp_epoch p + 1 else rp_epoch p),
      st_boot = (if op_advance_epoch options then rp_boot p + 1 else rp_boot p),
      st_recovery = report\<lparr>rr_previous_epoch := rp_epoch p, rr_previous_boot := rp_boot p,
        rr_records_recovered := of_nat (length rs)\<rparr>,
      st_closed = False, st_file = True\<rparr>"

text \<open>The fencing pass and the boot record; the store and the disk also change when it fails.\<close>

definition publish :: "(nat \<Rightarrow> write_env) \<Rightarrow> replayed \<Rightarrow> store \<times> disk \<Rightarrow> (status + store) \<times> disk" where
  "publish ws p sd =
     (let dynamic = map dr_sequence (filter (is_dynamic_record \<circ> dr_type) (st_records (fst sd))) in
      case fence_all ws (rp_epoch p) (rp_boot p) 0 dynamic sd of
        (Some e, _, dk) \<Rightarrow> (Inl e, dk)
      | (None, st, dk) \<Rightarrow>
         let fenced = of_nat (length dynamic);
             notes = (if fenced > 0
               then [store_note RC_PERSISTENCE_STALE_DYNAMIC_STATE_FENCED (ucast (fenced :: u32)) 0
                 ''recovered attempts and observations are fenced and are not restored as live state'']
               else []) in
         case store_append (ws (length dynamic)) RT_BOOT
             (encode_epoch_payload (rp_epoch p) (rp_boot p) (st_epoch st) (st_boot st)) True (st, dk) of
           (Inl e, _, dk) \<Rightarrow> (Inl e, dk)
         | (Inr _, st, dk) \<Rightarrow>
             (Inr (st\<lparr>st_recovery := (st_recovery st)\<lparr>rr_fenced_dynamic_records := fenced,
                  rr_explanations := rr_explanations (st_recovery st) @ notes @
                    [store_note RC_PERSISTENCE_EPOCH_ADVANCED (rp_epoch p) (st_epoch st)
                       ''coordinator epoch and boot incarnation advance on every open'']\<rparr>\<rparr>), dk))"

definition open_store :: "string \<Rightarrow> open_env \<Rightarrow> open_options \<Rightarrow> disk \<Rightarrow> (status + store) \<times> disk" where
  "open_store path env options dk =
     (if path = [] \<or> CHR 0x00 \<in> set path
        then (Inl (status_error SC_INVALID_ARGUMENT ''store path must be a non-empty path''), dk)
      else if oe_is_directory env
        then (Inl (status_error SC_INVALID_ARGUMENT ''store path is a directory''), dk)
      else if \<not> oe_parent_usable env
        then (Inl (status_error SC_IO_ERROR ''store directory does not exist''), dk)
      else case recover path env (op_limits options) dk of
        Inl e \<Rightarrow> (Inl e, dk)
      | Inr (rs, report, dk) \<Rightarrow>
        if length rs > unat (max_records (op_limits options))
          then (Inl (status_error SC_EXHAUSTED ''durable record count exceeds the configured bound''), dk)
        else case replay_records rs \<lparr>rp_last = 0, rp_epoch = 0, rp_boot = 0, rp_fences = []\<rparr> of
          Inl e \<Rightarrow> (Inl e, dk)
        | Inr p \<Rightarrow>
          if oe_append_opened env then
            publish (oe_writes env) p (restored_store options rs report p,
              dk\<lparr>dk_journal := Some (case dk_journal dk of None \<Rightarrow> [] | Some j \<Rightarrow> j)\<rparr>)
          else if \<not> op_create_if_missing options
            then (Inl (status_error SC_IO_ERROR ''cannot open the journal for append''), dk)
          else if \<not> oe_created env
            then (Inl (status_error SC_IO_ERROR ''cannot create the journal''), dk)
          else publish (oe_writes env) p (restored_store options rs report p, dk\<lparr>dk_journal := Some []\<rparr>))"

end
