(* ===== verification/NRP_Store_Correct.thy ===== *)
theory NRP_Store_Correct
  imports NRP_Store
begin

text \<open>
  Correctness of the durable store, against the abstract view of it as a log of records. The disk is
  related to the log by \<open>holds_log\<close>; what a restart would recover from a disk is \<open>durable_log\<close>.
\<close>

section \<open>The log on the disk\<close>

definition log_ordered :: "durable_record list \<Rightarrow> bool" where
  "log_ordered log \<longleftrightarrow> sorted_wrt (<) (0 # map dr_sequence log)"

definition log_last :: "durable_record list \<Rightarrow> u64" where
  "log_last log = (if log = [] then 0 else dr_sequence (last log))"

text \<open>A snapshot a restart can read.\<close>

definition snapshot_fits :: "store_limits \<Rightarrow> durable_record list \<Rightarrow> bool" where
  "snapshot_fits l rs \<longleftrightarrow> length (snapshot_payload rs 0) < 2 ^ 32 \<and>
     40 + length (snapshot_payload rs 0) \<le> unat (max_journal_bytes l)"

definition snapshot_holds :: "store_limits \<Rightarrow> bytes option \<Rightarrow> durable_record list \<Rightarrow> bool" where
  "snapshot_holds l file rs \<longleftrightarrow>
     file = None \<and> rs = [] \<or>
     (\<exists>epoch. file = Some (snapshot_bytes rs (log_last rs) epoch)) \<and> snapshot_fits l rs"

definition journal_holds :: "store_limits \<Rightarrow> bytes option \<Rightarrow> framed list \<Rightarrow> bool" where
  "journal_holds l file js \<longleftrightarrow>
     (file = None \<and> js = [] \<or> file = Some (journal_of js)) \<and>
     length (journal_of js) \<le> unat (max_journal_bytes l) \<and>
     log_ordered (map snd js) \<and> list_all (record_within l \<circ> snd) js"

definition holds_log :: "store_limits \<Rightarrow> disk \<Rightarrow> durable_record list \<Rightarrow> bool" where
  "holds_log l dk log \<longleftrightarrow>
     log_ordered log \<and> list_all (record_within l) log \<and> length log \<le> unat (max_records l) \<and>
     (\<exists>rs js. snapshot_holds l (dk_snapshot dk) rs \<and> journal_holds l (dk_journal dk) js \<and>
        log = rs @ filter (\<lambda>r. log_last rs < dr_sequence r) (map snd js) \<and>
        (\<forall>f\<in>set js. dr_sequence (snd f) \<le> log_last log))"

text \<open>What a restart recovers when every call of the file system succeeds.\<close>

definition working_io :: file_io where
  "working_io = \<lparr>fi_stat_error = None, fi_open_ok = True, fi_read_ok = True\<rparr>"

definition honest_write :: write_env where
  "honest_write = \<lparr>we_written = True, we_flush = Flushed, we_reached = 2 ^ 64\<rparr>"

definition working_env :: open_env where
  "working_env = \<lparr>oe_is_directory = False, oe_parent_usable = True,
     oe_snapshot_io = working_io, oe_journal_io = working_io, oe_truncate_opened = True,
     oe_truncated = True, oe_append_opened = True, oe_created = True, oe_writes = (\<lambda>_. honest_write)\<rparr>"

definition durable_log :: "store_limits \<Rightarrow> disk \<Rightarrow> status + durable_record list" where
  "durable_log l dk = (case recover ''store'' working_env l dk of
       Inl e \<Rightarrow> Inl e
     | Inr (rs, _, _) \<Rightarrow>
        if length rs > unat (max_records l)
        then Inl (status_error SC_EXHAUSTED ''durable record count exceeds the configured bound'')
        else Inr rs)"

text \<open>The running store and its disk.\<close>

definition store_inv :: "store \<Rightarrow> disk \<Rightarrow> bool" where
  "store_inv st dk \<longleftrightarrow> holds_log (st_limits st) dk (st_records st) \<and>
     st_last_sequence st = log_last (st_records st) \<and> dk_journal dk \<noteq> None \<and>
     \<not> st_closed st \<and> st_file st"

section \<open>Reading back\<close>

lemma ordered_sequences: "sorted_wrt (<) (x # map dr_sequence rs) \<Longrightarrow> sequences_from x rs"
  by (induction rs arbitrary: x) auto

lemma sequences_0: "log_ordered rs \<Longrightarrow> sequences_from 0 rs"
  unfolding log_ordered_def by (rule ordered_sequences)

lemma journal_well_framed: "journal_holds l file js \<Longrightarrow> well_framed l 0 js"
  by (simp add: journal_holds_def well_framed_def sequences_0)

lemma log_last_append [simp]: "log_last (log @ [r]) = dr_sequence r"
  by (simp add: log_last_def)

lemma log_ordered_le_last: "log_ordered log \<Longrightarrow> r \<in> set log \<Longrightarrow> dr_sequence r \<le> log_last log"
proof -
  assume o: "log_ordered log" and r: "r \<in> set log"
  then obtain xs x where log: "log = xs @ [x]" by (metis append_butlast_last_id empty_iff empty_set)
  from o r show ?thesis by (auto simp: log log_ordered_def sorted_wrt_append)
qed

lemma log_ordered_snoc:
  assumes "log_ordered log" "log_last log < dr_sequence r"
  shows "log_ordered (log @ [r])"
  using assms log_ordered_le_last[OF assms(1)]
  by (auto simp: log_ordered_def sorted_wrt_append log_last_def dest: order_le_less_trans split: if_splits)
    (metis word_gt_0 word_not_simps(1))+

lemma log_last_mem: "log \<noteq> [] \<Longrightarrow> \<exists>r\<in>set log. log_last log = dr_sequence r"
  by (auto simp: log_last_def intro: last_in_set)

lemma snapshot_payload_journal: "snapshot_payload rs epoch = journal_of (map (Pair epoch) rs)"
  by (simp add: snapshot_payload_def journal_of_def frame_of_def comp_def)

lemma length_snapshot_payload: "length (snapshot_payload rs epoch) = length (snapshot_payload rs epoch')"
  by (induction rs) (simp_all add: snapshot_payload_def)

lemma length_snapshot_header [simp]: "length (snapshot_header rs s e) = 36"
  by (simp add: snapshot_header_def)

lemma snapshot_fields:
  "peek_u32 (snapshot_bytes rs s e) 0 = snapshot_magic"
  "peek_u16 (snapshot_bytes rs s e) 4 = 1"
  "peek_u32 (snapshot_bytes rs s e) 12 = of_nat (length (snapshot_payload rs e))"
  "peek_u32 (snapshot_bytes rs s e) 16 = crc32 (snapshot_payload rs e)"
  "peek_u64 (snapshot_bytes rs s e) 20 = s"
  "peek_u64 (snapshot_bytes rs s e) 28 = e"
  "peek_u32 (snapshot_bytes rs s e) 36 = crc32 (take 36 (snapshot_bytes rs s e))"
  "drop 40 (snapshot_bytes rs s e) = snapshot_payload rs e"
  "length (snapshot_bytes rs s e) = 40 + length (snapshot_payload rs e)"
proof -
  let ?p = "snapshot_payload rs e"
  let ?rest = "w_u32 (crc32 (snapshot_header rs s e)) @ ?p"
  have f: "snapshot_bytes rs s e = w_u32 snapshot_magic @ w_u16 1 @ w_u16 0 @ w_u32 (of_nat (length rs)) @
      w_u32 (of_nat (length ?p)) @ w_u32 (crc32 ?p) @ w_u64 s @ w_u64 e @ ?rest"
    by (simp add: snapshot_bytes_def snapshot_header_def persistence_format_version_def)
  show "peek_u32 (snapshot_bytes rs s e) 0 = snapshot_magic"
    using peek_written(2)[of "[]" 0] by (simp add: f)
  show "peek_u16 (snapshot_bytes rs s e) 4 = 1"
    using peek_written(1)[of "w_u32 snapshot_magic" 4] by (simp add: f)
  show "peek_u32 (snapshot_bytes rs s e) 12 = of_nat (length ?p)"
    using peek_written(2)[of "w_u32 snapshot_magic @ w_u16 1 @ w_u16 0 @ w_u32 (of_nat (length rs))" 12]
    by (simp add: f)
  show "peek_u32 (snapshot_bytes rs s e) 16 = crc32 ?p"
    using peek_written(2)[of "w_u32 snapshot_magic @ w_u16 1 @ w_u16 0 @ w_u32 (of_nat (length rs)) @
      w_u32 (of_nat (length ?p))" 16] by (simp add: f)
  show "peek_u64 (snapshot_bytes rs s e) 20 = s"
    using peek_written(3)[of "w_u32 snapshot_magic @ w_u16 1 @ w_u16 0 @ w_u32 (of_nat (length rs)) @
      w_u32 (of_nat (length ?p)) @ w_u32 (crc32 ?p)" 20] by (simp add: f)
  show "peek_u64 (snapshot_bytes rs s e) 28 = e"
    using peek_written(3)[of "w_u32 snapshot_magic @ w_u16 1 @ w_u16 0 @ w_u32 (of_nat (length rs)) @
      w_u32 (of_nat (length ?p)) @ w_u32 (crc32 ?p) @ w_u64 s" 28] by (simp add: f)
  show "peek_u32 (snapshot_bytes rs s e) 36 = crc32 (take 36 (snapshot_bytes rs s e))"
    "drop 40 (snapshot_bytes rs s e) = ?p" "length (snapshot_bytes rs s e) = 40 + length ?p"
    using peek_written(2)[of "snapshot_header rs s e" 36] by (simp_all add: snapshot_bytes_def)
qed

lemma parse_snapshot_bytes:
  assumes "list_all (record_within l) rs" "log_ordered rs" "snapshot_fits l rs"
  shows "parse_snapshot l (snapshot_bytes rs s e) = Inr (rs, s, e)"
proof -
  have "well_framed l 0 (map (Pair e) rs)"
    using assms(1,2) by (simp add: well_framed_def comp_def list_all_iff sequences_0)
  from scan_records_whole[OF this, of 0]
  have scan: "scan_records (snapshot_payload rs e) l 0 =
     \<lparr>sc_status = success, sc_records = rs, sc_good_bytes = length (snapshot_payload rs e),
      sc_torn_tail_bytes = 0, sc_torn_tail = False\<rparr>"
    using assms(2) by (simp add: snapshot_payload_journal comp_def log_ordered_def)
  have len: "unat (of_nat (length (snapshot_payload rs e)) :: u32) = length (snapshot_payload rs e)"
    using assms(3) length_snapshot_payload[of rs e 0] by (simp add: snapshot_fits_def of_nat_length)
  show ?thesis
    unfolding parse_snapshot_def Let_def snapshot_header_size_def snapshot_fields len scan
    by (simp add: persistence_format_version_def snapshot_fields(9))
qed

section \<open>Recovery\<close>

definition io_works :: "open_env \<Rightarrow> bool" where
  "io_works env \<longleftrightarrow> oe_snapshot_io env = working_io \<and> oe_journal_io env = working_io \<and>
     oe_truncate_opened env \<and> oe_truncated env"

lemma io_works_working [simp]: "io_works working_env"
  by (simp add: io_works_def working_env_def)

lemma read_file_works: "length data \<le> unat m \<Longrightarrow> read_file path working_io m data = Inr data"
  by (simp add: read_file_def working_io_def)

text \<open>What a crash while appending leaves behind the complete records.\<close>

definition torn_append :: "store_limits \<Rightarrow> framed list \<Rightarrow> bytes \<Rightarrow> bool" where
  "torn_append l js rest \<longleftrightarrow> rest = [] \<or>
     (\<exists>e r n. rest = take n (frame_of (e, r)) \<and> n < length (frame_of (e, r)) \<and> record_within l r \<and>
        log_ordered (map snd js @ [r]))"

lemma complete_frames_append:
  "complete_frames (length (journal_of js) + n) (js @ gs) = js @ complete_frames n gs"
  by (induction js) auto

lemma scan_torn_append:
  assumes "well_framed l 0 js" "torn_append l js rest"
  shows "scan_records (journal_of js @ rest) l m =
     \<lparr>sc_status = success, sc_records = filter (\<lambda>r. dr_sequence r > m) (map snd js),
      sc_good_bytes = length (journal_of js), sc_torn_tail_bytes = length rest, sc_torn_tail = (rest \<noteq> [])\<rparr>"
proof (cases "rest = []")
  case True
  then show ?thesis using scan_records_whole[OF assms(1)] by simp
next
  case False
  then obtain e r n where rest: "rest = take n (frame_of (e, r))" "n < length (frame_of (e, r))"
    and r: "record_within l r" "log_ordered (map snd js @ [r])"
    using assms(2) by (auto simp: torn_append_def)
  have wf: "well_framed l 0 (js @ [(e, r)])"
    using assms(1) r sequences_0[OF r(2)] by (simp add: well_framed_def)
  have cut: "journal_of js @ rest = take (length (journal_of js) + n) (journal_of (js @ [(e, r)]))"
    using rest by simp
  have "length (journal_of js) + n \<le> length (journal_of (js @ [(e, r)]))" using rest by simp
  from scan_records_cut[OF wf this, of m, folded cut]
  show ?thesis using rest False by (simp add: complete_frames_append)
qed

text \<open>The snapshot stage of the recovery hands its records to the journal stage.\<close>

lemma recover_snapshot:
  assumes snap: "snapshot_holds l (dk_snapshot dk) rs" "log_ordered rs" "list_all (record_within l) rs"
    and env: "io_works env"
  shows "\<exists>report. recover path env l dk = (case dk_journal dk of
      None \<Rightarrow> Inr (rs, report, dk)
    | Some contents \<Rightarrow> (case load_journal path env l (log_last rs) report contents of
         Inl e \<Rightarrow> Inl e
       | Inr (js, report', kept) \<Rightarrow> Inr (rs @ js, report', dk\<lparr>dk_journal := Some kept\<rparr>)))"
  using snap(1) unfolding snapshot_holds_def
proof
  assume "dk_snapshot dk = None \<and> rs = []"
  then show ?thesis
    by (intro exI[of _ "empty_report\<lparr>rr_fresh_store := dk_journal dk = None\<rparr>"])
      (auto simp: recover_def Let_def log_last_def split: option.split)
next
  assume a: "(\<exists>epoch. dk_snapshot dk = Some (snapshot_bytes rs (log_last rs) epoch)) \<and> snapshot_fits l rs"
  then obtain epoch where e: "dk_snapshot dk = Some (snapshot_bytes rs (log_last rs) epoch)"
    and fits: "snapshot_fits l rs" by blast
  have "length (snapshot_bytes rs (log_last rs) epoch) \<le> unat (max_journal_bytes l)"
    using fits length_snapshot_payload[of rs epoch 0] by (simp add: snapshot_fields(9) snapshot_fits_def)
  then have read: "read_file (path @ ''.snapshot'') (oe_snapshot_io env) (max_journal_bytes l)
      (snapshot_bytes rs (log_last rs) epoch) = Inr (snapshot_bytes rs (log_last rs) epoch)"
    using env by (simp add: io_works_def read_file_works)
  show ?thesis
    by (auto simp: recover_def Let_def e read parse_snapshot_bytes[OF snap(3,2) fits])
qed

lemma recover_torn:
  assumes snap: "snapshot_holds l (dk_snapshot dk) rs" "log_ordered rs" "list_all (record_within l) rs"
    and journal: "well_framed l 0 js" "torn_append l js rest" "dk_journal dk = Some (journal_of js @ rest)"
      "length (journal_of js @ rest) \<le> unat (max_journal_bytes l)"
    and env: "io_works env"
  shows "\<exists>report. recover path env l dk =
    Inr (rs @ filter (\<lambda>r. log_last rs < dr_sequence r) (map snd js), report,
      dk\<lparr>dk_journal := Some (journal_of js)\<rparr>)"
proof -
  obtain report where r: "recover path env l dk = (case dk_journal dk of
      None \<Rightarrow> Inr (rs, report, dk)
    | Some contents \<Rightarrow> (case load_journal path env l (log_last rs) report contents of
         Inl e \<Rightarrow> Inl e
       | Inr (js, report', kept) \<Rightarrow> Inr (rs @ js, report', dk\<lparr>dk_journal := Some kept\<rparr>)))"
    using recover_snapshot[OF snap env] by blast
  have "\<exists>report'. load_journal path env l (log_last rs) report (journal_of js @ rest) =
      Inr (filter (\<lambda>r. log_last rs < dr_sequence r) (map snd js), report', journal_of js)"
    using env journal scan_torn_append[OF journal(1,2), of "log_last rs"] read_file_works[OF journal(4), of path]
    by (auto simp: load_journal_def io_works_def Let_def)
  then show ?thesis using r journal(3) by auto
qed

lemma durable_log_torn:
  assumes "snapshot_holds l (dk_snapshot dk) rs" "log_ordered rs" "list_all (record_within l) rs"
    and "well_framed l 0 js" "torn_append l js rest" "dk_journal dk = Some (journal_of js @ rest)"
      "length (journal_of js @ rest) \<le> unat (max_journal_bytes l)"
    and "log = rs @ filter (\<lambda>r. log_last rs < dr_sequence r) (map snd js)"
    and "length log \<le> unat (max_records l)"
  shows "durable_log l dk = Inr log"
proof -
  obtain report where "recover ''store'' working_env l dk = Inr (log, report, dk\<lparr>dk_journal := Some (journal_of js)\<rparr>)"
    using recover_torn[OF assms(1-7) io_works_working, of "''store''"] assms(8) by blast
  with assms(9) show ?thesis by (simp add: durable_log_def)
qed

text \<open>A disk that holds a log gives it back.\<close>

lemma holds_logE:
  assumes "holds_log l dk log"
  obtains rs js where "snapshot_holds l (dk_snapshot dk) rs" "log_ordered rs" "list_all (record_within l) rs"
    "journal_holds l (dk_journal dk) js" "log = rs @ filter (\<lambda>r. log_last rs < dr_sequence r) (map snd js)"
    "\<forall>f\<in>set js. dr_sequence (snd f) \<le> log_last log" "log_ordered log" "length log \<le> unat (max_records l)"
    "list_all (record_within l) log"
proof -
  from assms obtain rs js where a: "snapshot_holds l (dk_snapshot dk) rs" "journal_holds l (dk_journal dk) js"
    "log = rs @ filter (\<lambda>r. log_last rs < dr_sequence r) (map snd js)"
    "\<forall>f\<in>set js. dr_sequence (snd f) \<le> log_last log" "log_ordered log" "length log \<le> unat (max_records l)"
    "list_all (record_within l) log" by (auto simp: holds_log_def)
  have "log_ordered rs" "list_all (record_within l) rs"
    using a(3,5,7) by (auto simp: log_ordered_def sorted_wrt_append)
  with a show ?thesis by (intro that) auto
qed

lemma recover_holds:
  assumes "holds_log l dk log" "io_works env"
  shows "\<exists>report. recover path env l dk = Inr (log, report, dk)"
proof -
  from assms(1) obtain rs js where h: "snapshot_holds l (dk_snapshot dk) rs" "log_ordered rs"
    "list_all (record_within l) rs" "journal_holds l (dk_journal dk) js"
    "log = rs @ filter (\<lambda>r. log_last rs < dr_sequence r) (map snd js)" by (rule holds_logE)
  show ?thesis
  proof (cases "dk_journal dk")
    case (Some contents)
    then have on_disk: "dk_journal dk = Some (journal_of js @ [])" "torn_append l js []"
      "length (journal_of js @ []) \<le> unat (max_journal_bytes l)"
      using h(4) by (auto simp: journal_holds_def torn_append_def)
    have "dk\<lparr>dk_journal := Some (journal_of js)\<rparr> = dk" using on_disk by simp
    with recover_torn[OF h(1-3) journal_well_framed[OF h(4)] on_disk(2,1,3) assms(2), of path] h(5)
    show ?thesis by simp
  next
    case None
    then have js: "js = []" using h(4) by (simp add: journal_holds_def)
    \<comment> \<open>without a journal file, the disk with an empty one recovers the same records\<close>
    let ?dk = "dk\<lparr>dk_journal := Some []\<rparr>"
    have "\<exists>report. recover path env l ?dk = Inr (log, report, ?dk)"
      using recover_torn[of l ?dk rs "[]" "[]" env path] h(1-3,5) js assms(2)
      by (simp add: torn_append_def well_framed_def)
    moreover have "load_journal path env l sq report [] = Inr ([], report, [])" for sq report
      using assms(2) read_file_works[of "[]"]
      by (simp add: load_journal_def io_works_def scan_records_def scan_loop.simps)
    ultimately show ?thesis using None
      by (auto simp: recover_def Let_def split: option.splits sum.splits)
  qed
qed

lemma durable_log_holds:
  assumes "holds_log l dk log"
  shows "durable_log l dk = Inr log"
proof -
  obtain report where "recover ''store'' working_env l dk = Inr (log, report, dk)"
    using recover_holds[OF assms io_works_working] by blast
  moreover have "length log \<le> unat (max_records l)" using assms by (simp add: holds_log_def)
  ultimately show ?thesis by (simp add: durable_log_def)
qed

section \<open>Appending\<close>

text \<open>The journal has room for one more record; \<open>append\<close> itself does not check this bound.\<close>

definition journal_room :: "store_limits \<Rightarrow> disk \<Rightarrow> nat \<Rightarrow> bool" where
  "journal_room l dk n \<longleftrightarrow>
     (case dk_journal dk of None \<Rightarrow> 0 | Some j \<Rightarrow> length j) + 40 + n \<le> unat (max_journal_bytes l)"

text \<open>The requests \<open>append\<close> lets through to the file.\<close>

definition appendable :: "store \<Rightarrow> record_type \<Rightarrow> bytes \<Rightarrow> bool" where
  "appendable st t payload \<longleftrightarrow> valid_record_type t \<and>
     length payload \<le> unat (max_record_bytes (st_limits st)) \<and>
     length (st_records st) < unat (max_records (st_limits st)) \<and> st_last_sequence st < UINT64_MAX"

lemma word_less_Suc: "(a :: u64) < b \<Longrightarrow> a < a + 1"
  by (simp add: word_less_nat_alt unat_Suc_less)

lemma extend_setup:
  assumes inv: "store_inv st dk" and ok: "appendable st t payload" and r: "r = next_record t payload st"
  obtains rs js where "snapshot_holds (st_limits st) (dk_snapshot dk) rs" "log_ordered rs"
    "list_all (record_within (st_limits st)) rs" "journal_holds (st_limits st) (dk_journal dk) js"
    "st_records st = rs @ filter (\<lambda>r. log_last rs < dr_sequence r) (map snd js)"
    "\<forall>f\<in>set js. dr_sequence (snd f) \<le> log_last (st_records st)"
    "dk_journal dk = Some (journal_of js)" "log_last (st_records st) < dr_sequence r"
    "log_last rs < dr_sequence r" "log_ordered (map snd (js @ [(epoch, r)]))"
    "log_ordered (st_records st @ [r])" "record_within (st_limits st) r"
proof -
  let ?l = "st_limits st" and ?log = "st_records st"
  have holds: "holds_log ?l dk ?log" and last: "st_last_sequence st = log_last ?log" and exists: "dk_journal dk \<noteq> None"
    using inv by (auto simp: store_inv_def)
  from holds obtain rs js where h: "snapshot_holds ?l (dk_snapshot dk) rs" "log_ordered rs"
    "list_all (record_within ?l) rs" "journal_holds ?l (dk_journal dk) js"
    "?log = rs @ filter (\<lambda>r. log_last rs < dr_sequence r) (map snd js)"
    "\<forall>f\<in>set js. dr_sequence (snd f) \<le> log_last ?log" "log_ordered ?log" by (rule holds_logE)
  have on_disk: "dk_journal dk = Some (journal_of js)" using h(4) exists by (auto simp: journal_holds_def)
  have above: "log_last ?log < dr_sequence r"
    using ok last word_less_Suc[of "log_last ?log" UINT64_MAX] by (simp add: r next_record_def appendable_def)
  have pos: "0 < dr_sequence r" by (rule order_le_less_trans[OF word_zero_le above])
  have within: "record_within ?l r"
    using ok by (simp add: r next_record_def record_within_def appendable_def)
  have ordered: "log_ordered (?log @ [r])" using log_ordered_snoc[OF h(7) above] .
  have jordered: "log_ordered (map snd (js @ [(epoch, r)]))"
  proof -
    have "log_ordered (map snd js)" using h(4) by (simp add: journal_holds_def)
    moreover have "log_last (map snd js) < dr_sequence r"
    proof (cases "map snd js = []")
      case False
      then obtain f where "f \<in> set js" "log_last (map snd js) = dr_sequence (snd f)"
        using log_last_mem[OF False] by auto
      with h(6) above show ?thesis by (metis order_le_less_trans)
    qed (use pos in \<open>simp add: log_last_def\<close>)
    ultimately show ?thesis using log_ordered_snoc by auto
  qed
  have "log_last rs < dr_sequence r"
  proof (cases "rs = []")
    case False
    then obtain x where "x \<in> set ?log" "log_last rs = dr_sequence x"
      using log_last_mem[OF False] h(5) by auto
    with log_ordered_le_last[OF h(7)] above show ?thesis by (metis order_le_less_trans)
  qed (use pos in \<open>simp add: log_last_def\<close>)
  then show ?thesis using that h(1-6) on_disk above jordered ordered within by blast
qed

lemma extend_cases:
  assumes inv: "store_inv st dk" and ok: "appendable st t payload"
    and room: "journal_room (st_limits st) dk (length payload)"
    and r: "r = next_record t payload st"
    and data: "data = frame_record t (dr_sequence r) epoch payload"
    and dk': "dk' = extend_journal w data dk"
  shows "we_reached w < length data \<Longrightarrow> durable_log (st_limits st) dk' = Inr (st_records st)"
    and "length data \<le> we_reached w \<Longrightarrow> holds_log (st_limits st) dk' (st_records st @ [r])"
proof -
  let ?l = "st_limits st" and ?log = "st_records st"
  obtain rs js where h: "snapshot_holds ?l (dk_snapshot dk) rs" "log_ordered rs"
    "list_all (record_within ?l) rs" "journal_holds ?l (dk_journal dk) js"
    "?log = rs @ filter (\<lambda>r. log_last rs < dr_sequence r) (map snd js)"
    "\<forall>f\<in>set js. dr_sequence (snd f) \<le> log_last ?log" "dk_journal dk = Some (journal_of js)"
    "log_last ?log < dr_sequence r" "log_last rs < dr_sequence r"
    "log_ordered (map snd (js @ [(epoch, r)]))" "log_ordered (?log @ [r])" "record_within ?l r"
    by (rule extend_setup[OF inv ok r, of epoch])
  have frame: "data = frame_of (epoch, r)" by (simp add: data r frame_of_def next_record_def)
  have room': "length (journal_of js) + length data \<le> unat (max_journal_bytes ?l)"
    using room h(7) by (simp add: journal_room_def data add.assoc)
  have log: "length ?log \<le> unat (max_records ?l)" "list_all (record_within ?l) ?log"
    using inv by (simp_all add: store_inv_def holds_log_def)
  have snap: "snapshot_holds ?l (dk_snapshot dk') rs" using h(1) by (simp add: dk' extend_journal_def)
  show "durable_log ?l dk' = Inr ?log" if short: "we_reached w < length data"
  proof (rule durable_log_torn[OF snap h(2,3) journal_well_framed[OF h(4)] _ _ _ h(5) log(1)])
    show "torn_append ?l js (take (we_reached w) data)"
      using short h(10,12) by (auto simp: torn_append_def frame)
    show "dk_journal dk' = Some (journal_of js @ take (we_reached w) data)"
      using h(7) by (simp add: dk' extend_journal_def)
    show "length (journal_of js @ take (we_reached w) data) \<le> unat (max_journal_bytes ?l)"
      using room' by simp
  qed
  show "holds_log ?l dk' (?log @ [r])" if all: "length data \<le> we_reached w"
    unfolding holds_log_def
  proof (intro conjI exI[of _ rs] exI[of _ "js @ [(epoch, r)]"])
    show "journal_holds ?l (dk_journal dk') (js @ [(epoch, r)])"
      using h(4,7,10,12) all room' by (auto simp: journal_holds_def dk' extend_journal_def frame)
    show "?log @ [r] = rs @ filter (\<lambda>r. log_last rs < dr_sequence r) (map snd (js @ [(epoch, r)]))"
      using h(5,9) by simp
    show "\<forall>f\<in>set (js @ [(epoch, r)]). dr_sequence (snd f) \<le> log_last (?log @ [r])"
      using h(6,8) by (auto intro: less_imp_le order_le_less_trans)
    show "length (?log @ [r]) \<le> unat (max_records ?l)" using ok by (simp add: appendable_def)
  qed (use snap h(11,12) log in simp_all)
qed

text \<open>\<open>append\<close> on an appendable request, in terms of the outcome of the write.\<close>

lemma append_accepted:
  assumes "store_inv st dk" "appendable st t payload"
  shows "store_append w t payload flush_now (st, dk) =
    (let r = next_record t payload st;
         dk' = extend_journal w (frame_record t (dr_sequence r) (st_epoch st) payload) dk in
     if \<not> we_written w then (Inl (status_error SC_IO_ERROR ''journal write failed''), st, dk')
     else if flush_now \<and> we_flush w \<noteq> Flushed then (Inl (flush_file (we_flush w)), st, dk')
     else (Inr (dr_sequence r),
           st\<lparr>st_records := st_records st @ [r], st_last_sequence := dr_sequence r\<rparr>, dk'))"
proof -
  have "status_ok (flush_file f) \<longleftrightarrow> f = Flushed" for f by (cases f) simp_all
  then show ?thesis
    using assms by (auto simp: store_append_def store_inv_def appendable_def Let_def)
qed

lemma append_success_inv:
  assumes "store_inv st dk" "appendable st t payload" "journal_room (st_limits st) dk (length payload)"
    and "store_append w t payload True (st, dk) = (Inr sq, st', dk')" "40 + length payload \<le> we_reached w"
  shows "store_inv st' dk' \<and> st_records st' = st_records st @ [next_record t payload st] \<and>
    st_limits st' = st_limits st \<and> st_epoch st' = st_epoch st \<and> st_boot st' = st_boot st \<and>
    st_fences st' = st_fences st \<and> st_recovery st' = st_recovery st \<and> sq = st_last_sequence st + 1"
proof -
  let ?r = "next_record t payload st"
  have res: "st' = st\<lparr>st_records := st_records st @ [?r], st_last_sequence := dr_sequence ?r\<rparr>"
    "dk' = extend_journal w (frame_record t (dr_sequence ?r) (st_epoch st) payload) dk" "sq = dr_sequence ?r"
    using assms(4) append_accepted[OF assms(1,2), of w True] by (auto simp: Let_def split: if_splits)
  have "holds_log (st_limits st) dk' (st_records st @ [?r])"
    using extend_cases(2)[OF assms(1-3) refl refl res(2)] assms(5) by simp
  moreover have "dk_journal dk' \<noteq> None" using assms(1) by (simp add: res(2) extend_journal_def store_inv_def)
  ultimately show ?thesis
    using assms(1) res by (simp add: store_inv_def next_record_def)
qed

section \<open>A failed flush\<close>

text \<open>A record whose bytes reached the file although its append failed keeps its sequence number out
  of the store's count; the next record repeats the number.\<close>

lemma sequences_from_append:
  "sequences_from x (as @ [a]) \<Longrightarrow> sequences_from x as"
  by (induction x as rule: sequences_from.induct) auto

lemma repeated_sequence_refused:
  assumes inv: "store_inv st dk" and ok: "appendable st t payload" "appendable st t' payload'"
    and room: "journal_room (st_limits st) dk (length payload + 40 + length payload')"
    and dk1: "dk1 = extend_journal w (frame_record t (st_last_sequence st + 1) epoch payload) dk"
      "40 + length payload \<le> we_reached w"
    and dk2: "dk2 = extend_journal w' (frame_record t' (st_last_sequence st + 1) epoch payload') dk1"
      "40 + length payload' \<le> we_reached w'"
  shows "durable_log (st_limits st) dk2 = Inl (status_error SC_CORRUPT
    (''record sequences are not strictly increasing at '' @ dec_string (unat (st_last_sequence st + 1))))"
    (is "_ = Inl ?e")
proof -
  let ?l = "st_limits st" and ?r = "next_record t payload st" and ?r' = "next_record t' payload' st"
  obtain rs js where h: "snapshot_holds ?l (dk_snapshot dk) rs" "log_ordered rs"
    "list_all (record_within ?l) rs" "dk_journal dk = Some (journal_of js)"
    "log_ordered (map snd (js @ [(epoch, ?r)]))" "journal_holds ?l (dk_journal dk) js" "record_within ?l ?r"
    by (rule extend_setup[OF inv ok(1) refl, of epoch])
  have seq: "dr_sequence ?r = st_last_sequence st + 1" "st_last_sequence st + 1 \<noteq> 0"
    using ok(1) word_less_Suc[of "st_last_sequence st" UINT64_MAX] by (auto simp: next_record_def appendable_def)
  have wf: "well_framed ?l 0 (js @ [(epoch, ?r)])"
    using h(5-7) sequences_0[OF h(5)] by (simp add: well_framed_def journal_holds_def)
  have journal: "dk_journal dk2 = Some (journal_of (js @ [(epoch, ?r)]) @ frame_of (epoch, ?r'))"
    using h(4) dk1(2) dk2(2) by (simp add: dk1(1) dk2(1) extend_journal_def frame_of_def next_record_def)
  have len: "length (journal_of (js @ [(epoch, ?r)]) @ frame_of (epoch, ?r')) \<le> unat (max_journal_bytes ?l)"
    using room h(4) by (simp add: journal_room_def length_frame_of next_record_def)
  have "scan_one ?l (st_last_sequence st + 1) (frame_of (epoch, ?r') @ []) = Scan_refused ?e"
    using scan_one_header[of t' payload' ?l "st_last_sequence st + 1" "st_last_sequence st + 1" epoch payload']
      ok(2) seq(2) by (simp add: frame_of_def frame_record_def next_record_def appendable_def)
  then have scan: "sc_status (scan_records (journal_of (js @ [(epoch, ?r)]) @ frame_of (epoch, ?r')) ?l m) = ?e" for m
    unfolding scan_records_def scan_loop_prefix[OF wf]
    using scan_loop_refused[of ?l "st_last_sequence st + 1" "frame_of (epoch, ?r')" ?e] frame_not_empty seq(1) by simp
  have load: "load_journal path working_env ?l sq report (journal_of (js @ [(epoch, ?r)]) @ frame_of (epoch, ?r')) = Inl ?e"
    for path sq report
    using scan read_file_works[OF len, of path] by (simp add: load_journal_def Let_def working_env_def)
  have snap: "snapshot_holds ?l (dk_snapshot dk2) rs" using h(1) by (simp add: dk1(1) dk2(1) extend_journal_def)
  obtain report where "recover ''store'' working_env ?l dk2 = (case dk_journal dk2 of
      None \<Rightarrow> Inr (rs, report, dk2)
    | Some contents \<Rightarrow> (case load_journal ''store'' working_env ?l (log_last rs) report contents of
         Inl e \<Rightarrow> Inl e
       | Inr (js, report', kept) \<Rightarrow> Inr (rs @ js, report', dk2\<lparr>dk_journal := Some kept\<rparr>)))"
    using recover_snapshot[OF snap h(2,3) io_works_working, of "''store''"] by blast
  then show ?thesis using journal load by (simp add: durable_log_def)
qed

section \<open>Snapshots\<close>

lemma install_holds:
  assumes "store_inv st dk" "snapshot_fits (st_limits st) (st_records st)"
    and "dk' = dk\<lparr>dk_snapshot := Some (snapshot_bytes (st_records st) (st_last_sequence st) epoch)\<rparr>"
  shows "holds_log (st_limits st) dk' (st_records st)"
    and "holds_log (st_limits st) (dk'\<lparr>dk_journal := Some []\<rparr>) (st_records st)"
proof -
  let ?l = "st_limits st" and ?log = "st_records st"
  have holds: "holds_log ?l dk ?log" and last: "st_last_sequence st = log_last ?log"
    using assms(1) by (auto simp: store_inv_def)
  from holds obtain rs js where h: "journal_holds ?l (dk_journal dk) js"
    "\<forall>f\<in>set js. dr_sequence (snd f) \<le> log_last ?log" "log_ordered ?log" "length ?log \<le> unat (max_records ?l)"
    "list_all (record_within ?l) ?log" by (rule holds_logE)
  have snap: "snapshot_holds ?l (dk_snapshot dk') ?log"
    using assms(2,3) last by (auto simp: snapshot_holds_def)
  have "filter (\<lambda>r. log_last ?log < dr_sequence r) (map snd js) = []"
    using h(2) by (auto simp: filter_empty_conv not_less)
  then show "holds_log ?l dk' ?log"
    unfolding holds_log_def using snap h
    by (intro conjI exI[of _ ?log] exI[of _ js]) (simp_all add: assms(3))
  show "holds_log ?l (dk'\<lparr>dk_journal := Some []\<rparr>) ?log"
    unfolding holds_log_def using snap h
    by (intro conjI exI[of _ ?log] exI[of _ "[]"]) (simp_all add: journal_holds_def log_ordered_def)
qed

section \<open>Samples\<close>

definition sample_store :: store where
  "sample_store = \<lparr>st_limits = default_store_limits, st_records = map snd sample_journal, st_fences = [],
     st_last_sequence = 2, st_epoch = 1, st_boot = 1, st_recovery = empty_report, st_closed = False,
     st_file = True\<rparr>"

definition sample_disk :: disk where
  "sample_disk = \<lparr>dk_journal = Some (journal_of sample_journal), dk_snapshot = None\<rparr>"

lemma sample_store_inv: "store_inv sample_store sample_disk"
  unfolding store_inv_def holds_log_def sample_store_def sample_disk_def
  by (intro conjI exI[of _ "[]"] exI[of _ sample_journal])
    (simp_all add: sample_journal_def log_ordered_def record_within_def valid_record_type_def
      default_store_limits_def snapshot_holds_def journal_holds_def log_last_def length_frame_of)

lemma sample_store_room: "n \<le> 1000 \<Longrightarrow> journal_room (st_limits sample_store) sample_disk n"
  by (simp add: journal_room_def sample_disk_def sample_journal_def length_frame_of sample_store_def
      default_store_limits_def)

lemma sample_store_appendable: "valid_record_type t \<Longrightarrow> length p \<le> 1000 \<Longrightarrow> appendable sample_store t p"
  by (simp add: appendable_def sample_store_def default_store_limits_def sample_journal_def UINT64_MAX_def)

section \<open>Properties\<close>

text \<open>C33. An append is atomic and durable, for a store in step with its disk (so after no failed or torn
  write). Whatever the file system does to the write, a restart
  recovers either the records before the append or these and the new record, nothing else. An append
  that fails leaves the store's state as it was; one that reports success on a file system whose
  successful writes and flushes put every byte into the file makes the record durable and keeps the
  store and its disk in step. The journal must have room for the record within
  \<open>max_journal_bytes\<close>.\<close>

theorem append_durable:
  assumes "store_inv st dk" and "journal_room (st_limits st) dk (length payload)"
    and "st_last_sequence st < UINT64_MAX"
    and "store_append w t payload True (st, dk) = (res, st', dk')"
    and "we_written w \<and> we_flush w = Flushed \<Longrightarrow> 40 + length payload \<le> we_reached w"
  shows "case res of
      Inl _ \<Rightarrow> st' = st \<and> durable_log (st_limits st) dk' \<in>
          {Inr (st_records st), Inr (st_records st @ [next_record t payload st])}
    | Inr sq \<Rightarrow> sq = st_last_sequence st + 1 \<and> store_inv st' dk' \<and>
          st_records st' = st_records st @ [next_record t payload st] \<and>
          durable_log (st_limits st) dk' = Inr (st_records st')"
proof (cases "appendable st t payload")
  case True
  note acc = append_accepted[OF assms(1) True, of w True]
  show ?thesis
  proof (cases res)
    case (Inr sq)
    then have "40 + length payload \<le> we_reached w"
      using assms(4,5) acc by (auto simp: Let_def split: if_splits)
    from append_success_inv[OF assms(1) True assms(2) assms(4)[unfolded Inr] this]
    show ?thesis using durable_log_holds[of "st_limits st" dk' "st_records st'"]
      by (auto simp: Inr store_inv_def)
  next
    case (Inl e)
    have "holds_log (st_limits st) dk (st_records st)" using assms(1) by (simp add: store_inv_def)
    moreover have "st' = st" "dk' = extend_journal w
        (frame_record t (dr_sequence (next_record t payload st)) (st_epoch st) payload) dk"
      using assms(4) acc Inl by (auto simp: Let_def split: if_splits)
    moreover note extend_cases[OF assms(1) True assms(2) refl refl this(2)]
    ultimately show ?thesis
      using Inl durable_log_holds[of "st_limits st" dk' "st_records st @ [next_record t payload st]"]
      by (cases "we_reached w < 40 + length payload") auto
  qed
next
  case False
  then have "isl res \<and> st' = st \<and> dk' = dk"
    using assms(1,3,4) by (auto simp: store_append_def store_inv_def appendable_def Let_def split: if_splits)
  moreover have "durable_log (st_limits st) dk = Inr (st_records st)"
    using assms(1) by (intro durable_log_holds) (simp add: store_inv_def)
  ultimately show ?thesis by (auto split: sum.split)
qed

definition cut_write :: write_env where
  "cut_write = \<lparr>we_written = False, we_flush = Fsync_failed, we_reached = 17\<rparr>"

theorem append_durable_witness:
  "case store_append cut_write RT_ATTEMPT [1, 2] True (sample_store, sample_disk) of (res, st', dk') \<Rightarrow>
     case res of
       Inl _ \<Rightarrow> st' = sample_store \<and> durable_log (st_limits sample_store) dk' \<in>
          {Inr (st_records sample_store),
           Inr (st_records sample_store @ [next_record RT_ATTEMPT [1, 2] sample_store])}
     | Inr sq \<Rightarrow> False"
proof -
  have seq: "st_last_sequence sample_store < UINT64_MAX" by (simp add: sample_store_def UINT64_MAX_def)
  have room: "journal_room (st_limits sample_store) sample_disk (length [1 :: u8, 2])"
    by (rule sample_store_room) simp
  obtain res st' dk' where a: "store_append cut_write RT_ATTEMPT [1, 2] True (sample_store, sample_disk) = (res, st', dk')"
    by (metis prod_cases3)
  have "appendable sample_store RT_ATTEMPT [1, 2]"
    by (rule sample_store_appendable) (simp_all add: valid_record_type_def)
  then have "isl res"
    using a append_accepted[OF sample_store_inv, of RT_ATTEMPT "[1, 2]" cut_write True]
    by (auto simp: Let_def cut_write_def split: if_splits)
  then show ?thesis
    unfolding a using append_durable[OF sample_store_inv room seq a] by (cases res) (simp_all add: cut_write_def)
qed

text \<open>C34. A snapshot of a store in step with its disk replaces the journal atomically: whichever call of \<open>commit_snapshot\<close> fails, and
  hence wherever it crashes between two calls, a restart recovers exactly the records of the store.
  When it succeeds the journal is empty and the store goes on in step with its disk. The snapshot
  must itself stay within \<open>max_journal_bytes\<close>.\<close>

theorem snapshot_atomic:
  assumes "store_inv st dk" and "snapshot_fits (st_limits st) (st_records st)"
    and "commit_snapshot c (st, dk) = (s, st', dk')"
  shows "durable_log (st_limits st) dk' = Inr (st_records st) \<and> st_records st' = st_records st \<and>
    (status_ok s \<longrightarrow> store_inv st' dk' \<and> dk_journal dk' = Some [])"
proof -
  let ?installed = "dk\<lparr>dk_snapshot := Some (snapshot_bytes (st_records st) (st_last_sequence st) (st_epoch st))\<rparr>"
  have holds: "holds_log (st_limits st) dk (st_records st)" "\<not> st_closed st" "st_last_sequence st = log_last (st_records st)"
    using assms(1) by (simp_all add: store_inv_def)
  have flush: "status_ok (flush_file f) \<longleftrightarrow> f = Flushed" for f by (cases f) simp_all
  have after: "holds_log (st_limits st) ?installed (st_records st)"
    "holds_log (st_limits st) (?installed\<lparr>dk_journal := Some []\<rparr>) (st_records st)"
    using install_holds[OF assms(1,2) refl] by blast+
  from assms(3) holds after show ?thesis
    by (auto simp: commit_snapshot_def Let_def flush store_inv_def durable_log_holds split: if_splits)
qed

theorem snapshot_atomic_witness:
  "durable_log default_store_limits (snd (snd (commit_snapshot
     \<lparr>ce_temp_created = True, ce_temp_written = True, ce_temp_flush = Flushed, ce_renamed = True,
      ce_journal_opened = False, ce_journal_flush = Flushed, ce_reopened = True\<rparr>
     (sample_store, sample_disk)))) = Inr (map snd sample_journal)"
proof -
  have fits: "snapshot_fits (st_limits sample_store) (st_records sample_store)"
    by (simp add: snapshot_fits_def sample_store_def sample_journal_def snapshot_payload_def default_store_limits_def)
  obtain s st' dk' where c: "commit_snapshot
     \<lparr>ce_temp_created = True, ce_temp_written = True, ce_temp_flush = Flushed, ce_renamed = True,
      ce_journal_opened = False, ce_journal_flush = Flushed, ce_reopened = True\<rparr>
     (sample_store, sample_disk) = (s, st', dk')" by (metis prod_cases3)
  show ?thesis
    using snapshot_atomic[OF sample_store_inv fits c] by (simp add: c) (simp add: sample_store_def)
qed

text \<open>A failed flush poisons the journal. When an append fails after its bytes reached the file,
  the store does not count the record, so the next append, although it reports success, writes the
  same sequence number again and every later open is refused as corrupt.\<close>

theorem failed_flush_poisons_journal:
  assumes "store_inv st dk" and "appendable st t payload" and "appendable st t' payload'"
    and "journal_room (st_limits st) dk (length payload + 40 + length payload')"
    and "store_append w t payload True (st, dk) = (Inl e, st1, dk1)" and "40 + length payload \<le> we_reached w"
    and "store_append w' t' payload' True (st1, dk1) = (Inr sq, st2, dk2)" and "40 + length payload' \<le> we_reached w'"
  shows "durable_log (st_limits st) dk2 = Inl (status_error SC_CORRUPT
    (''record sequences are not strictly increasing at '' @ dec_string (unat sq)))"
proof -
  have 1: "st1 = st" "dk1 = extend_journal w (frame_record t (st_last_sequence st + 1) (st_epoch st) payload) dk"
    using assms(5) append_accepted[OF assms(1,2), of w True]
    by (auto simp: Let_def next_record_def split: if_splits)
  have "sq = st_last_sequence st + 1"
    "dk2 = extend_journal w' (frame_record t' (st_last_sequence st + 1) (st_epoch st) payload') dk1"
    using assms(1,3,7) 1(1)
    by (auto simp: store_append_def store_inv_def appendable_def next_record_def Let_def split: if_splits)
  with repeated_sequence_refused[OF assms(1-4) 1(2) assms(6) this(2) assms(8)] show ?thesis by simp
qed

theorem failed_flush_poisons_journal_witness:
  "durable_log default_store_limits
     (snd (snd (store_append honest_write RT_ATTEMPT [2] True
        (snd (store_append \<lparr>we_written = True, we_flush = Fsync_failed, we_reached = 41\<rparr> RT_ATTEMPT [1] True
          (sample_store, sample_disk)))))) =
   Inl (status_error SC_CORRUPT (''record sequences are not strictly increasing at '' @ dec_string 3))"
proof -
  let ?w = "\<lparr>we_written = True, we_flush = Fsync_failed, we_reached = 41\<rparr>"
  have ok: "appendable sample_store RT_ATTEMPT [x]" for x
    by (rule sample_store_appendable) (simp_all add: valid_record_type_def)
  have room: "journal_room (st_limits sample_store) sample_disk (length [1 :: u8] + 40 + length [2 :: u8])"
    by (rule sample_store_room) simp
  obtain e dk1 where 1: "store_append ?w RT_ATTEMPT [1] True (sample_store, sample_disk) = (Inl e, sample_store, dk1)"
    using append_accepted[OF sample_store_inv ok[of 1], of ?w True] by (simp add: Let_def)
  obtain st2 dk2 where 2: "store_append honest_write RT_ATTEMPT [2] True (sample_store, dk1) = (Inr 3, st2, dk2)"
    by (simp add: store_append_def Let_def sample_store_def honest_write_def valid_record_type_def
        default_store_limits_def sample_journal_def next_record_def)
  have lim: "st_limits sample_store = default_store_limits" by (simp add: sample_store_def)
  have "durable_log (st_limits sample_store) dk2 = Inl (status_error SC_CORRUPT
      (''record sequences are not strictly increasing at '' @ dec_string (unat (3 :: u64))))"
    by (rule failed_flush_poisons_journal[OF sample_store_inv ok ok room 1 _ 2]) (simp_all add: honest_write_def)
  then show ?thesis by (simp add: 1 2 lim)
qed

end
