(* ===== verification/NRP_Restart.thy ===== *)
theory NRP_Restart
  imports NRP_Store_Correct
begin

text \<open>
  Restarting the durable store: what \<open>DurableStore::open\<close> adds to the log, that every incarnation has
  a new epoch and boot identity, that the dynamic records of the incarnations before are fenced, and
  how the log grows with every restart.
\<close>

section \<open>The fencing pass\<close>

lemma store_append_success:
  assumes "store_append w t payload flush_now (st, dk) = (Inr sq, st', dk')"
  shows "st' = st\<lparr>st_records := st_records st @ [next_record t payload st],
      st_last_sequence := st_last_sequence st + 1\<rparr>"
    and "dk' = extend_journal w (frame_record t (st_last_sequence st + 1) (st_epoch st) payload) dk"
    and "length (st_records st) < unat (max_records (st_limits st))" "valid_record_type t"
    "length payload \<le> unat (max_record_bytes (st_limits st))"
  using assms by (auto simp: store_append_def next_record_def Let_def split: if_splits)

text \<open>The records the pass writes.\<close>

fun fence_records :: "u64 \<Rightarrow> u64 \<Rightarrow> u64 \<Rightarrow> u64 list \<Rightarrow> durable_record list" where
  "fence_records epoch boot at [] = []"
| "fence_records epoch boot at (sq # sqs) =
     \<lparr>dr_type = RT_FENCE, dr_sequence = at + 1, dr_payload = encode_fence (restart_fence epoch boot sq)\<rparr>
     # fence_records epoch boot (at + 1) sqs"

lemma length_fence_records [simp]: "length (fence_records epoch boot at sqs) = length sqs"
  by (induction sqs arbitrary: at) simp_all

lemma fence_records_static: "filter (is_dynamic_record \<circ> dr_type) (fence_records epoch boot at sqs) = []"
  by (induction sqs arbitrary: at) (simp_all add: is_dynamic_record_def)

definition journal_length :: "disk \<Rightarrow> nat" where
  "journal_length dk = (case dk_journal dk of None \<Rightarrow> 0 | Some j \<Rightarrow> length j)"

lemma journal_length_extend: "journal_length dk \<le> journal_length (extend_journal w data dk)"
  by (auto simp: journal_length_def extend_journal_def split: option.split)

lemma fence_all_success:
  "fence_all ws epoch boot i sqs (st, dk) = (None, st', dk') \<Longrightarrow>
   st_records st' = st_records st @ fence_records epoch boot (st_last_sequence st) sqs \<and>
   st_fences st' = st_fences st @ map (restart_fence epoch boot) sqs \<and>
   st_last_sequence st' = st_last_sequence st + of_nat (length sqs) \<and>
   st_epoch st' = st_epoch st \<and> st_boot st' = st_boot st \<and> st_limits st' = st_limits st \<and>
   st_recovery st' = st_recovery st \<and> journal_length dk \<le> journal_length dk'"
proof (induction sqs arbitrary: i st dk)
  case (Cons sq sqs)
  from Cons.prems obtain q st1 dk1 where
    a: "store_append (ws i) RT_FENCE (encode_fence (restart_fence epoch boot sq)) True (st, dk) = (Inr q, st1, dk1)"
    and rest: "fence_all ws epoch boot (Suc i) sqs
      (st1\<lparr>st_fences := st_fences st1 @ [restart_fence epoch boot sq]\<rparr>, dk1) = (None, st', dk')"
    by (auto simp: record_fence_def split: prod.splits sum.splits)
  have "journal_length dk \<le> journal_length dk1"
    using store_append_success(2)[OF a] journal_length_extend by simp
  with store_append_success(1)[OF a] Cons.IH[OF rest] show ?case
    by (simp add: next_record_def add.commute add.left_commute)
qed simp

text \<open>The number of records grows with every restart by the number of dynamic records and one.\<close>

lemma open_growth:
  assumes "open_store path env options dk = (Inr st, dk')"
  shows "\<exists>rs report dk1. recover path env (op_limits options) dk = Inr (rs, report, dk1) \<and>
     length (st_records st) = length rs + length (filter (is_dynamic_record \<circ> dr_type) rs) + 1 \<and>
     filter (is_dynamic_record \<circ> dr_type) (st_records st) = filter (is_dynamic_record \<circ> dr_type) rs \<and>
     length (st_records st) \<le> unat (max_records (op_limits options))"
proof -
  from assms obtain rs report dk1 p dk2 where
    r: "recover path env (op_limits options) dk = Inr (rs, report, dk1)"
    and pub: "publish (oe_writes env) p (restored_store options rs report p, dk2) = (Inr st, dk')"
    by (auto simp: open_store_def split: if_splits sum.splits)
  let ?st = "restored_store options rs report p"
  let ?dyn = "map dr_sequence (filter (is_dynamic_record \<circ> dr_type) rs)"
  have records: "st_records ?st = rs" "st_limits ?st = op_limits options" by (simp_all add: restored_store_def)
  from pub obtain st1 dk3 st2 q where
    f: "fence_all (oe_writes env) (rp_epoch p) (rp_boot p) 0 ?dyn (?st, dk2) = (None, st1, dk3)"
    and b: "store_append (oe_writes env (length ?dyn)) RT_BOOT
      (encode_epoch_payload (rp_epoch p) (rp_boot p) (st_epoch st1) (st_boot st1)) True (st1, dk3) = (Inr q, st2, dk')"
    and st: "st_records st = st_records st2"
    by (auto simp: publish_def Let_def records split: option.splits prod.splits sum.splits)
  note fs = fence_all_success[OF f] and bs = store_append_success[OF b]
  have recs: "st_records st = rs @ fence_records (rp_epoch p) (rp_boot p) (st_last_sequence ?st) ?dyn @
      [next_record RT_BOOT (encode_epoch_payload (rp_epoch p) (rp_boot p) (st_epoch st1) (st_boot st1)) st1]"
    using fs bs(1) by (simp add: st records)
  have "length (st_records st) \<le> unat (max_records (op_limits options))"
    using bs(1,3) fs by (simp add: st records)
  then show ?thesis
    using r by (intro exI[of _ rs] exI[of _ report] exI[of _ dk1])
      (simp add: recs fence_records_static next_record_def is_dynamic_record_def)
qed

section \<open>Replaying what a restart wrote\<close>

lemma replay_append: "replay_records (xs @ ys) p = (case replay_records xs p of Inl e \<Rightarrow> Inl e | Inr p' \<Rightarrow> replay_records ys p')"
  by (induction xs arbitrary: p) (simp_all split: sum.split)

lemma length_dec_string: "n < 10 ^ Suc k \<Longrightarrow> length (dec_string n) \<le> Suc k"
proof (induction k arbitrary: n)
  case (Suc k)
  then have "n div 10 < 10 ^ Suc k" by (simp add: div_less_iff_less_mult)
  with Suc.IH[OF this] show ?case by (subst dec_string.simps) simp
qed (simp add: dec_string.simps)

lemma restart_fence_wf: "wf_fence (restart_fence epoch boot sq)"
proof -
  have "unat sq < 10 ^ Suc 19" using unsigned_less[of sq, where ?'a = nat] by simp
  then have "length (dec_string (unat sq)) \<le> 20" using length_dec_string[of "unat sq" 19] by simp
  then show ?thesis by (simp add: wf_fence_def restart_fence_def valid_authority_domain_def)
qed

lemma decode_restart_fence:
  "\<exists>rd. decode_fence (make_reader (encode_fence (restart_fence epoch boot sq))) = Inr (restart_fence epoch boot sq, rd)"
proof -
  let ?f = "restart_fence epoch boot sq"
  have "rd_at (make_reader (encode_fence ?f)) (encode_fence ?f @ [])" by simp
  from exactD(2)[OF exact_fence _ this] restart_fence_wf show ?thesis by blast
qed

lemma read_epoch_payload: "read_boot_record (encode_epoch_payload a b c d) = Some (c, d)"
proof -
  let ?bs = "encode_epoch_payload a b c d"
  have at0: "rd_at (make_reader ?bs) (w_u32 persistence_format_version @ w_u64 a @ w_u64 b @ w_u64 c @ w_u64 d @ [])"
    by (simp add: encode_epoch_payload_def)
  obtain r1 where 1: "r_u32 (make_reader ?bs) = (persistence_format_version, r1)"
    "rd_at r1 (w_u64 a @ w_u64 b @ w_u64 c @ w_u64 d @ [])" using u32.read_back[OF TrueI at0] by blast
  obtain r2 where 2: "r_u64 r1 = (a, r2)" "rd_at r2 (w_u64 b @ w_u64 c @ w_u64 d @ [])"
    using u64.read_back[OF TrueI 1(2)] by blast
  obtain r3 where 3: "r_u64 r2 = (b, r3)" "rd_at r3 (w_u64 c @ w_u64 d @ [])"
    using u64.read_back[OF TrueI 2(2)] by blast
  obtain r4 where 4: "r_u64 r3 = (c, r4)" "rd_at r4 (w_u64 d @ [])" using u64.read_back[OF TrueI 3(2)] by blast
  obtain r5 where 5: "r_u64 r4 = (d, r5)" "rd_at r5 []" using u64.read_back[OF TrueI 4(2)] by blast
  show ?thesis using 1 2 3 4 5 rd_at_ok[OF 5(2)] by (simp add: read_boot_record_def)
qed

lemma replay_fences:
  assumes "unat (rp_last p) + length sqs < 2 ^ 64"
  shows "replay_records (fence_records epoch boot (rp_last p) sqs) p =
    Inr (p\<lparr>rp_last := rp_last p + of_nat (length sqs), rp_fences := rp_fences p @ map (restart_fence epoch boot) sqs\<rparr>)"
  using assms
proof (induction sqs arbitrary: p)
  case (Cons sq sqs)
  obtain rd where d: "decode_fence (make_reader (encode_fence (restart_fence epoch boot sq))) = Inr (restart_fence epoch boot sq, rd)"
    using decode_restart_fence by blast
  have "rp_last p < UINT64_MAX" using Cons.prems by (simp add: word_less_nat_alt UINT64_MAX_def)
  then have up: "rp_last p < rp_last p + 1" "unat (rp_last p + 1) = Suc (unat (rp_last p))"
    using word_less_Suc[of "rp_last p" UINT64_MAX] unat_Suc_less[of "rp_last p" UINT64_MAX] by simp_all
  let ?p = "p\<lparr>rp_last := rp_last p + 1, rp_fences := rp_fences p @ [restart_fence epoch boot sq]\<rparr>"
  have "replay_record \<lparr>dr_type = RT_FENCE, dr_sequence = rp_last p + 1,
      dr_payload = encode_fence (restart_fence epoch boot sq)\<rparr> p = Inr ?p"
    using up(1) d by (simp add: replay_record_def not_le[symmetric])
  moreover have "replay_records (fence_records epoch boot (rp_last p + 1) sqs) ?p =
    Inr (p\<lparr>rp_last := rp_last p + 1 + of_nat (length sqs),
      rp_fences := rp_fences p @ restart_fence epoch boot sq # map (restart_fence epoch boot) sqs\<rparr>)"
    using Cons.IH[of ?p] Cons.prems up(2) by simp
  ultimately show ?case by (simp add: add.commute add.left_commute)
qed simp

lemma replay_last: "replay_records rs p = Inr p' \<Longrightarrow> rp_last p' = (if rs = [] then rp_last p else dr_sequence (last rs))"
proof (induction rs arbitrary: p)
  case (Cons r rs)
  then obtain p1 where "replay_record r p = Inr p1" "replay_records rs p1 = Inr p'" by (auto split: sum.splits)
  moreover from this(1) have "rp_last p1 = dr_sequence r"
    by (auto simp: replay_record_def Let_def split: if_splits option.splits sum.splits)
  ultimately show ?case using Cons.IH by auto
qed simp

section \<open>The store stays in step\<close>

text \<open>Successful writes put every byte of an admissible record into the file.\<close>

definition honest_writes :: "store_limits \<Rightarrow> (nat \<Rightarrow> write_env) \<Rightarrow> bool" where
  "honest_writes l ws \<longleftrightarrow> (\<forall>i. 40 + unat (max_record_bytes l) \<le> we_reached (ws i))"

lemma append_in_step:
  assumes "store_inv st dk" "40 + unat (max_record_bytes (st_limits st)) \<le> we_reached w"
    and a: "store_append w t payload True (st, dk) = (Inr sq, st', dk')"
    and "journal_length dk' \<le> unat (max_journal_bytes (st_limits st))"
    and "st_last_sequence st < UINT64_MAX"
  shows "store_inv st' dk'"
proof -
  note s = store_append_success[OF a]
  have app: "appendable st t payload" using s(3-5) assms(5) by (simp add: appendable_def)
  have all: "40 + length payload \<le> we_reached w" using assms(2) s(5) by simp
  obtain j where j: "dk_journal dk = Some j" using assms(1) by (auto simp: store_inv_def)
  have "journal_length dk' = length j + 40 + length payload"
    using all by (simp add: s(2) journal_length_def extend_journal_def j)
  then have "journal_room (st_limits st) dk (length payload)" using assms(4) j by (simp add: journal_room_def)
  from append_success_inv[OF assms(1) app this a all] show ?thesis by simp
qed

lemma fence_all_in_step:
  "store_inv st dk \<Longrightarrow> honest_writes (st_limits st) ws \<Longrightarrow>
   fence_all ws epoch boot i sqs (st, dk) = (None, st', dk') \<Longrightarrow>
   journal_length dk' \<le> unat (max_journal_bytes (st_limits st)) \<Longrightarrow>
   unat (st_last_sequence st) + length sqs < 2 ^ 64 \<Longrightarrow> store_inv st' dk'"
proof (induction sqs arbitrary: i st dk)
  case (Cons sq sqs)
  from Cons.prems(3) obtain q st1 dk1 where
    a: "store_append (ws i) RT_FENCE (encode_fence (restart_fence epoch boot sq)) True (st, dk) = (Inr q, st1, dk1)"
    and rest: "fence_all ws epoch boot (Suc i) sqs
      (st1\<lparr>st_fences := st_fences st1 @ [restart_fence epoch boot sq]\<rparr>, dk1) = (None, st', dk')"
    by (auto simp: record_fence_def split: prod.splits sum.splits)
  have below: "st_last_sequence st < UINT64_MAX"
    using Cons.prems(5) by (simp add: word_less_nat_alt UINT64_MAX_def)
  have grow: "journal_length dk1 \<le> journal_length dk'" using fence_all_success[OF rest] by simp
  note s = store_append_success[OF a]
  have inv1: "store_inv st1 dk1"
    by (rule append_in_step[OF Cons.prems(1) _ a _ below])
      (use grow Cons.prems(2,4) in \<open>simp_all add: honest_writes_def\<close>)
  then have inv2: "store_inv (st1\<lparr>st_fences := st_fences st1 @ [restart_fence epoch boot sq]\<rparr>) dk1"
    by (simp add: store_inv_def)
  have "unat (st_last_sequence st + 1) = Suc (unat (st_last_sequence st))" by (rule unat_Suc_less[OF below])
  with Cons.prems(2,4,5) show ?case by (intro Cons.IH[OF inv2 _ rest]) (simp_all add: s(1))
qed simp

lemma replay_holds: "holds_log l dk log \<Longrightarrow> replay_records log \<lparr>rp_last = 0, rp_epoch = 0, rp_boot = 0, rp_fences = []\<rparr> = Inr p \<Longrightarrow>
  rp_last p = log_last log"
  using replay_last[of log _ p] by (simp add: log_last_def)

lemma journal_created:
  assumes "holds_log l dk log"
  shows "holds_log l (dk\<lparr>dk_journal := Some (case dk_journal dk of None \<Rightarrow> [] | Some j \<Rightarrow> j)\<rparr>) log"
proof -
  let ?dk = "dk\<lparr>dk_journal := Some (case dk_journal dk of None \<Rightarrow> [] | Some j \<Rightarrow> j)\<rparr>"
  obtain rs js where h: "snapshot_holds l (dk_snapshot dk) rs" "journal_holds l (dk_journal dk) js"
    "log = rs @ filter (\<lambda>r. log_last rs < dr_sequence r) (map snd js)"
    "\<forall>f\<in>set js. dr_sequence (snd f) \<le> log_last log"
    using assms by (auto simp: holds_log_def)
  have "journal_holds l (dk_journal ?dk) js" using h(2) by (auto simp: journal_holds_def)
  then show ?thesis
    using assms h unfolding holds_log_def by (intro conjI exI[of _ rs] exI[of _ js]) simp_all
qed

lemma restart_in_step:
  assumes holds: "holds_log (op_limits options) dk log" and io: "io_works env" "oe_append_opened env"
    and writes: "honest_writes (op_limits options) (oe_writes env)"
    and advance: "op_advance_epoch options"
    and opened: "open_store path env options dk = (Inr st, dk')"
    and fits: "journal_length dk' \<le> unat (max_journal_bytes (op_limits options))"
    and count: "unat (log_last log) + length log + 1 < 2 ^ 64"
  shows "\<exists>p. replay_records log \<lparr>rp_last = 0, rp_epoch = 0, rp_boot = 0, rp_fences = []\<rparr> = Inr p \<and>
    st_epoch st = rp_epoch p + 1 \<and> st_boot st = rp_boot p + 1 \<and> store_inv st dk' \<and>
    st_fences st = rp_fences p @ map (restart_fence (rp_epoch p) (rp_boot p))
      (map dr_sequence (filter (is_dynamic_record \<circ> dr_type) log)) \<and>
    replay_records (st_records st) \<lparr>rp_last = 0, rp_epoch = 0, rp_boot = 0, rp_fences = []\<rparr> =
      Inr \<lparr>rp_last = st_last_sequence st, rp_epoch = st_epoch st, rp_boot = st_boot st,
        rp_fences = st_fences st\<rparr> \<and>
    (\<exists>published. st_records st = log @ published \<and> durable_log (op_limits options) dk' = Inr (log @ published))"
proof -
  let ?l = "op_limits options" and ?init = "\<lparr>rp_last = 0, rp_epoch = 0, rp_boot = 0, rp_fences = []\<rparr>"
  let ?dk = "dk\<lparr>dk_journal := Some (case dk_journal dk of None \<Rightarrow> [] | Some j \<Rightarrow> j)\<rparr>"
  obtain report where rec: "recover path env ?l dk = Inr (log, report, dk)"
    using recover_holds[OF holds io(1)] by blast
  from opened rec io(2) obtain p where p: "replay_records log ?init = Inr p"
    and pub: "publish (oe_writes env) p (restored_store options log report p, ?dk) = (Inr st, dk')"
    by (auto simp: open_store_def split: if_splits sum.splits)
  let ?st = "restored_store options log report p"
  let ?dyn = "map dr_sequence (filter (is_dynamic_record \<circ> dr_type) log)"
  have last: "rp_last p = log_last log" by (rule replay_holds[OF holds p])
  have st0: "st_records ?st = log" "st_limits ?st = ?l" "st_last_sequence ?st = log_last log"
    "st_epoch ?st = rp_epoch p + 1" "st_boot ?st = rp_boot p + 1" "st_fences ?st = rp_fences p"
    using advance last by (simp_all add: restored_store_def)
  have inv0: "store_inv ?st ?dk"
    using journal_created[OF holds] st0 by (simp add: store_inv_def) (simp add: restored_store_def)
  from pub obtain st1 dk3 st2 q where
    f: "fence_all (oe_writes env) (rp_epoch p) (rp_boot p) 0 ?dyn (?st, ?dk) = (None, st1, dk3)"
    and b: "store_append (oe_writes env (length ?dyn)) RT_BOOT
      (encode_epoch_payload (rp_epoch p) (rp_boot p) (st_epoch st1) (st_boot st1)) True (st1, dk3) = (Inr q, st2, dk')"
    and st: "st_records st = st_records st2" "st_fences st = st_fences st2" "st_epoch st = st_epoch st2"
      "st_boot st = st_boot st2" "st_last_sequence st = st_last_sequence st2" "store_inv st dk' = store_inv st2 dk'"
    by (auto simp: publish_def Let_def st0 store_inv_def split: option.splits prod.splits sum.splits)
  note fs = fence_all_success[OF f] and bs = store_append_success[OF b]
  have few: "length ?dyn \<le> length log" by simp
  have cnt: "unat (log_last log) + length ?dyn + 1 < 2 ^ 64" using count few by linarith
  have room3: "journal_length dk3 \<le> unat (max_journal_bytes ?l)"
    using order_trans[OF journal_length_extend fits[unfolded bs(2)]] .
  have inv1: "store_inv st1 dk3"
    by (rule fence_all_in_step[OF inv0 _ f]) (use writes room3 cnt st0 in simp_all)
  have last1: "unat (st_last_sequence st1) = unat (log_last log) + length ?dyn"
  proof -
    have "unat (of_nat (length ?dyn) :: u64) = length ?dyn" using cnt by (simp add: unat_of_nat)
    then show ?thesis using fs st0 cnt by (simp add: unat_word_ariths)
  qed
  have below: "st_last_sequence st1 < UINT64_MAX"
    using last1 cnt by (simp add: word_less_nat_alt UINT64_MAX_def)
  have inv2: "store_inv st2 dk'"
    by (rule append_in_step[OF inv1 _ b _ below])
      (use writes fits fs st0 in \<open>simp_all add: honest_writes_def\<close>)
  have replay_f: "replay_records (fence_records (rp_epoch p) (rp_boot p) (rp_last p) ?dyn) p =
      Inr (p\<lparr>rp_last := rp_last p + of_nat (length ?dyn),
        rp_fences := rp_fences p @ map (restart_fence (rp_epoch p) (rp_boot p)) ?dyn\<rparr>)"
    by (rule replay_fences) (use cnt last in simp)
  have recs: "st_records st = log @ fence_records (rp_epoch p) (rp_boot p) (rp_last p) ?dyn @
      [\<lparr>dr_type = RT_BOOT, dr_sequence = st_last_sequence st1 + 1,
        dr_payload = encode_epoch_payload (rp_epoch p) (rp_boot p) (st_epoch st1) (st_boot st1)\<rparr>]"
    using fs bs(1) last by (simp add: st st0 next_record_def)
  have up: "st_last_sequence st1 < st_last_sequence st1 + 1" by (rule word_less_Suc[OF below])
  have s1: "st_last_sequence st1 = rp_last p + of_nat (length ?dyn)" "st_epoch st1 = rp_epoch p + 1"
    "st_boot st1 = rp_boot p + 1" "st_fences st1 = rp_fences p @ map (restart_fence (rp_epoch p) (rp_boot p)) ?dyn"
    using fs st0 last by simp_all
  have s2: "st_epoch st = st_epoch st1" "st_boot st = st_boot st1" "st_fences st = st_fences st1"
    "st_last_sequence st = st_last_sequence st1 + 1" using bs(1) st by simp_all
  have "replay_records (st_records st) ?init = replay_records
      [\<lparr>dr_type = RT_BOOT, dr_sequence = st_last_sequence st1 + 1,
        dr_payload = encode_epoch_payload (rp_epoch p) (rp_boot p) (st_epoch st1) (st_boot st1)\<rparr>]
      (p\<lparr>rp_last := st_last_sequence st1, rp_fences := st_fences st1\<rparr>)"
    unfolding recs replay_append p sum.case replay_f s1 ..
  also have "\<dots> = Inr \<lparr>rp_last = st_last_sequence st, rp_epoch = st_epoch st, rp_boot = st_boot st,
        rp_fences = st_fences st\<rparr>"
    using up by (simp add: replay_record_def read_epoch_payload s2 not_le[symmetric])
  finally have replayed: "replay_records (st_records st) ?init = Inr \<lparr>rp_last = st_last_sequence st, rp_epoch = st_epoch st,
      rp_boot = st_boot st, rp_fences = st_fences st\<rparr>" .
  have "holds_log ?l dk' (st_records st)"
    using inv2 fs bs(1) st0 st(1) by (simp add: store_inv_def)
  then have "durable_log ?l dk' = Inr (st_records st)" by (rule durable_log_holds)
  then have "\<exists>published. st_records st = log @ published \<and> durable_log ?l dk' = Inr (log @ published)" using recs by auto
  then show ?thesis using p inv2 s1 s2 st(6) replayed by auto
qed

section \<open>Properties\<close>

text \<open>C35. Every restart makes a new incarnation: a successful open of a store that holds a log, with
  \<open>advance_epoch\<close> set and on a working file system, keeps every recovered record and adds its own after
  them, in memory and on disk. It gives an epoch and a boot identity one above the last recorded ones,
  records them so that the next restart continues from them, fences every dynamic record of the log under
  the old epoch, and leaves the store in step with its disk. The journal must have stayed within
  \<open>max_journal_bytes\<close>, and the sequence numbers below their maximum.\<close>

theorem restart_new_incarnation:
  assumes "holds_log (op_limits options) dk log" and "io_works env" and "oe_append_opened env"
    and "honest_writes (op_limits options) (oe_writes env)" and "op_advance_epoch options"
    and "open_store path env options dk = (Inr st, dk')"
    and "journal_length dk' \<le> unat (max_journal_bytes (op_limits options))"
    and "unat (log_last log) + length log + 1 < 2 ^ 64"
  shows "\<exists>p. replay_records log \<lparr>rp_last = 0, rp_epoch = 0, rp_boot = 0, rp_fences = []\<rparr> = Inr p \<and>
    st_epoch st = rp_epoch p + 1 \<and> st_boot st = rp_boot p + 1 \<and> store_inv st dk' \<and>
    st_fences st = rp_fences p @ map (restart_fence (rp_epoch p) (rp_boot p))
      (map dr_sequence (filter (is_dynamic_record \<circ> dr_type) log)) \<and>
    replay_records (st_records st) \<lparr>rp_last = 0, rp_epoch = 0, rp_boot = 0, rp_fences = []\<rparr> =
      Inr \<lparr>rp_last = st_last_sequence st, rp_epoch = st_epoch st, rp_boot = st_boot st,
        rp_fences = st_fences st\<rparr> \<and>
    (\<exists>published. st_records st = log @ published \<and> durable_log (op_limits options) dk' = Inr (log @ published))"
  using assms by (rule restart_in_step)

definition sample_options :: open_options where
  "sample_options = \<lparr>op_limits = default_store_limits, op_model_limits = default_model_limits,
     op_create_if_missing = True, op_advance_epoch = True\<rparr>"

definition fresh_disk :: disk where
  "fresh_disk = \<lparr>dk_journal = None, dk_snapshot = None\<rparr>"

lemma fresh_disk_holds: "holds_log l fresh_disk []"
  unfolding holds_log_def
  by (intro conjI exI[of _ "[]"])
    (simp_all add: fresh_disk_def log_ordered_def snapshot_holds_def journal_holds_def)

lemma fresh_open: "\<exists>st dk'. open_store ''s'' working_env sample_options fresh_disk = (Inr st, dk') \<and>
   journal_length dk' \<le> 100"
  by (simp add: open_store_def working_env_def recover_def fresh_disk_def sample_options_def
      default_store_limits_def publish_def restored_store_def store_append_def Let_def honest_write_def
      encode_epoch_payload_def valid_record_type_def next_record_def journal_length_def extend_journal_def)

theorem restart_new_incarnation_witness:
  "\<exists>st dk'. open_store ''s'' working_env sample_options fresh_disk = (Inr st, dk') \<and>
     st_epoch st = 1 \<and> st_boot st = 1 \<and> store_inv st dk'"
proof -
  obtain st dk' where o: "open_store ''s'' working_env sample_options fresh_disk = (Inr st, dk')"
    "journal_length dk' \<le> 100" using fresh_open by blast
  have "honest_writes (op_limits sample_options) (oe_writes working_env)"
    by (simp add: honest_writes_def sample_options_def default_store_limits_def working_env_def honest_write_def)
  moreover have "oe_append_opened working_env" "op_advance_epoch sample_options"
    by (simp_all add: working_env_def sample_options_def)
  moreover have "journal_length dk' \<le> unat (max_journal_bytes (op_limits sample_options))"
    using o(2) by (simp add: sample_options_def default_store_limits_def)
  ultimately show ?thesis
    using restart_new_incarnation[OF fresh_disk_holds io_works_working _ _ _ o(1)] o(1)
    by (auto simp: log_last_def)
qed

text \<open>Every restart also grows the log: a successful open adds one fence record for each dynamic
  record of the log, however often these were fenced before, and a boot record, and removes nothing.
  As the number of records is bounded, a store can be opened only a bounded number of times.\<close>

theorem restart_growth:
  assumes "open_store path env options dk = (Inr st, dk')"
  shows "\<exists>rs report dk1. recover path env (op_limits options) dk = Inr (rs, report, dk1) \<and>
     length (st_records st) = length rs + length (filter (is_dynamic_record \<circ> dr_type) rs) + 1 \<and>
     filter (is_dynamic_record \<circ> dr_type) (st_records st) = filter (is_dynamic_record \<circ> dr_type) rs \<and>
     length (st_records st) \<le> unat (max_records (op_limits options))"
  using assms by (rule open_growth)

theorem restart_growth_witness:
  "\<exists>st dk' rs report dk1. open_store ''s'' working_env sample_options fresh_disk = (Inr st, dk') \<and>
     recover ''s'' working_env (op_limits sample_options) fresh_disk = Inr (rs, report, dk1) \<and>
     length (st_records st) = length rs + length (filter (is_dynamic_record \<circ> dr_type) rs) + 1"
proof -
  obtain st dk' where o: "open_store ''s'' working_env sample_options fresh_disk = (Inr st, dk')"
    using fresh_open by blast
  from restart_growth[OF this] o show ?thesis by blast
qed

end
