(* ===== verification/NRP_Wire.thy ===== *)
theory NRP_Wire
  imports NRP_Framing
begin

text \<open>
  The frame layer of the transport (\<open>src/protocol.cpp\<close>, \<open>include/nrp/protocol.hpp\<close>): frame types,
  the header with its two checksums, and the decoder that distinguishes an incomplete frame from a
  refused one.
\<close>

section \<open>Frames\<close>

datatype frame_type = FT_HELLO | FT_HELLO_ACK | FT_PLAN_REQUEST | FT_PLAN_RESPONSE
  | FT_VALIDATE_REQUEST | FT_VALIDATE_RESPONSE | FT_STATUS_REQUEST | FT_STATUS_RESPONSE | FT_BYE
  | FT_ERROR_FRAME | FT_COUNT

primrec raw_frame_type :: "frame_type \<Rightarrow> u16" where
  "raw_frame_type FT_HELLO = 1"
| "raw_frame_type FT_HELLO_ACK = 2"
| "raw_frame_type FT_PLAN_REQUEST = 3"
| "raw_frame_type FT_PLAN_RESPONSE = 4"
| "raw_frame_type FT_VALIDATE_REQUEST = 5"
| "raw_frame_type FT_VALIDATE_RESPONSE = 6"
| "raw_frame_type FT_STATUS_REQUEST = 7"
| "raw_frame_type FT_STATUS_RESPONSE = 8"
| "raw_frame_type FT_BYE = 9"
| "raw_frame_type FT_ERROR_FRAME = 10"
| "raw_frame_type FT_COUNT = 11"

text \<open>\<open>is_valid(FrameType)\<close>, on the raw value as the header carries it.\<close>

definition valid_frame_type :: "u16 \<Rightarrow> bool" where
  "valid_frame_type raw \<longleftrightarrow> raw \<noteq> raw_frame_type FT_COUNT \<and> raw < raw_frame_type FT_COUNT"

record frame_header =
  fh_magic :: u32
  fh_version :: u16
  fh_type :: u16
  fh_flags :: u16
  fh_reserved :: u16
  fh_session_id :: u64
  fh_epoch :: u64
  fh_boot :: u64
  fh_sequence :: u64
  fh_payload_length :: u32
  fh_payload_crc32 :: u32
  fh_header_crc32 :: u32

record frame =
  fr_header :: frame_header
  fr_payload :: bytes

definition frame_magic :: u32 where
  "frame_magic = 0x4E525046"

definition frame_header_size :: nat where
  "frame_header_size = 56"

definition protocol_version :: u16 where
  "protocol_version = 1"

text \<open>The bytes the header checksum covers, and the encoded header.\<close>

definition header_fields :: "frame_header \<Rightarrow> bytes" where
  "header_fields h =
     w_u32 (fh_magic h) @ w_u16 (fh_version h) @ w_u16 (fh_type h) @ w_u16 (fh_flags h) @
     w_u16 (fh_reserved h) @ w_u64 (fh_session_id h) @ w_u64 (fh_epoch h) @ w_u64 (fh_boot h) @
     w_u64 (fh_sequence h) @ w_u32 (fh_payload_length h) @ w_u32 (fh_payload_crc32 h)"

definition encode_frame_header :: "frame_header \<Rightarrow> bytes" where
  "encode_frame_header h = header_fields h @ w_u32 (crc32 (header_fields h))"

definition decode_frame_header :: "bytes \<Rightarrow> status + frame_header" where
  "decode_frame_header data =
     (if length data < frame_header_size
        then Inl (status_error SC_PROTOCOL_ERROR ''frame header is a truncated prefix'')
      else if peek_u32 data 0 \<noteq> frame_magic
        then Inl (status_error SC_PROTOCOL_ERROR ''frame magic mismatch'')
      else if peek_u16 data 4 \<noteq> protocol_version
        then Inl (status_error SC_UNSUPPORTED
               (''protocol version is not supported: '' @ dec_string (unat (peek_u16 data 4))))
      else if peek_u16 data 6 = 0 \<or> \<not> valid_frame_type (peek_u16 data 6)
        then Inl (status_error SC_PROTOCOL_ERROR ''frame type is outside the defined domain'')
      else if peek_u16 data 8 \<noteq> 0 \<or> peek_u16 data 10 \<noteq> 0
        then Inl (status_error SC_PROTOCOL_ERROR ''reserved frame header bits are set'')
      else if peek_u32 data 52 \<noteq> crc32 (take 52 data)
        then Inl (status_error SC_PROTOCOL_ERROR ''frame header checksum mismatch'')
      else Inr \<lparr>fh_magic = frame_magic, fh_version = peek_u16 data 4, fh_type = peek_u16 data 6,
             fh_flags = peek_u16 data 8, fh_reserved = peek_u16 data 10,
             fh_session_id = peek_u64 data 12, fh_epoch = peek_u64 data 20, fh_boot = peek_u64 data 28,
             fh_sequence = peek_u64 data 36, fh_payload_length = peek_u32 data 44,
             fh_payload_crc32 = peek_u32 data 48, fh_header_crc32 = peek_u32 data 52\<rparr>)"

text \<open>\<open>encode_frame\<close> leaves \<open>header_crc32\<close> at its default; the encoder of the header computes it.\<close>

definition make_header :: "u16 \<Rightarrow> u64 \<Rightarrow> u64 \<Rightarrow> u64 \<Rightarrow> u64 \<Rightarrow> bytes \<Rightarrow> frame_header" where
  "make_header t session_id epoch boot sequence payload =
     \<lparr>fh_magic = frame_magic, fh_version = protocol_version, fh_type = t, fh_flags = 0, fh_reserved = 0,
      fh_session_id = session_id, fh_epoch = epoch, fh_boot = boot, fh_sequence = sequence,
      fh_payload_length = of_nat (length payload), fh_payload_crc32 = crc32 payload, fh_header_crc32 = 0\<rparr>"

definition encode_frame :: "frame_type \<Rightarrow> u64 \<Rightarrow> u64 \<Rightarrow> u64 \<Rightarrow> u64 \<Rightarrow> bytes \<Rightarrow> bytes" where
  "encode_frame t session_id epoch boot sequence payload =
     encode_frame_header (make_header (raw_frame_type t) session_id epoch boot sequence payload) @ payload"

text \<open>The decoder of one frame: the frame and the number of bytes consumed.\<close>

definition decode_frame :: "bytes \<Rightarrow> u32 \<Rightarrow> status + frame \<times> nat" where
  "decode_frame data max_payload_bytes =
     (if length data < frame_header_size
        then Inl (status_error SC_NOT_FOUND ''frame header is incomplete'')
      else case decode_frame_header data of
        Inl e \<Rightarrow> Inl e
      | Inr h \<Rightarrow>
         let extent = frame_header_size + unat (fh_payload_length h);
             payload = take (unat (fh_payload_length h)) (drop frame_header_size data) in
         if fh_payload_length h > max_payload_bytes
           then Inl (status_error SC_OUT_OF_RANGE ''declared payload exceeds the frame bound'')
         else if length data < extent
           then Inl (status_error SC_NOT_FOUND ''frame payload is incomplete'')
         else if crc32 payload \<noteq> fh_payload_crc32 h
           then Inl (status_error SC_PROTOCOL_ERROR ''frame payload checksum mismatch'')
         else Inr (\<lparr>fr_header = h, fr_payload = payload\<rparr>, extent))"

section \<open>Header fields\<close>

lemma length_header_fields [simp]: "length (header_fields h) = 52"
  by (simp add: header_fields_def)

lemma length_encode_frame_header [simp]: "length (encode_frame_header h) = 56"
  by (simp add: encode_frame_header_def)

lemma header_peeks:
  "peek_u32 (encode_frame_header h @ post) 0 = fh_magic h"
  "peek_u16 (encode_frame_header h @ post) 4 = fh_version h"
  "peek_u16 (encode_frame_header h @ post) 6 = fh_type h"
  "peek_u16 (encode_frame_header h @ post) 8 = fh_flags h"
  "peek_u16 (encode_frame_header h @ post) 10 = fh_reserved h"
  "peek_u64 (encode_frame_header h @ post) 12 = fh_session_id h"
  "peek_u64 (encode_frame_header h @ post) 20 = fh_epoch h"
  "peek_u64 (encode_frame_header h @ post) 28 = fh_boot h"
  "peek_u64 (encode_frame_header h @ post) 36 = fh_sequence h"
  "peek_u32 (encode_frame_header h @ post) 44 = fh_payload_length h"
  "peek_u32 (encode_frame_header h @ post) 48 = fh_payload_crc32 h"
  "peek_u32 (encode_frame_header h @ post) 52 = crc32 (header_fields h)"
proof -
  let ?b4 = "w_u32 (fh_magic h)" let ?b6 = "?b4 @ w_u16 (fh_version h)" let ?b8 = "?b6 @ w_u16 (fh_type h)"
  let ?b10 = "?b8 @ w_u16 (fh_flags h)" let ?b12 = "?b10 @ w_u16 (fh_reserved h)"
  let ?b20 = "?b12 @ w_u64 (fh_session_id h)" let ?b28 = "?b20 @ w_u64 (fh_epoch h)"
  let ?b36 = "?b28 @ w_u64 (fh_boot h)" let ?b44 = "?b36 @ w_u64 (fh_sequence h)"
  let ?b48 = "?b44 @ w_u32 (fh_payload_length h)"
  note parts = encode_frame_header_def header_fields_def
  show "peek_u32 (encode_frame_header h @ post) 0 = fh_magic h"
    using peek_written(2)[of "[]" 0] by (simp add: parts)
  show "peek_u16 (encode_frame_header h @ post) 4 = fh_version h"
    using peek_written(1)[of ?b4 4] by (simp add: parts)
  show "peek_u16 (encode_frame_header h @ post) 6 = fh_type h"
    using peek_written(1)[of ?b6 6] by (simp add: parts)
  show "peek_u16 (encode_frame_header h @ post) 8 = fh_flags h"
    using peek_written(1)[of ?b8 8] by (simp add: parts)
  show "peek_u16 (encode_frame_header h @ post) 10 = fh_reserved h"
    using peek_written(1)[of ?b10 10] by (simp add: parts)
  show "peek_u64 (encode_frame_header h @ post) 12 = fh_session_id h"
    using peek_written(3)[of ?b12 12] by (simp add: parts)
  show "peek_u64 (encode_frame_header h @ post) 20 = fh_epoch h"
    using peek_written(3)[of ?b20 20] by (simp add: parts)
  show "peek_u64 (encode_frame_header h @ post) 28 = fh_boot h"
    using peek_written(3)[of ?b28 28] by (simp add: parts)
  show "peek_u64 (encode_frame_header h @ post) 36 = fh_sequence h"
    using peek_written(3)[of ?b36 36] by (simp add: parts)
  show "peek_u32 (encode_frame_header h @ post) 44 = fh_payload_length h"
    using peek_written(2)[of ?b44 44] by (simp add: parts)
  show "peek_u32 (encode_frame_header h @ post) 48 = fh_payload_crc32 h"
    using peek_written(2)[of ?b48 48] by (simp add: parts)
  show "peek_u32 (encode_frame_header h @ post) 52 = crc32 (header_fields h)"
    using peek_written(2)[of "header_fields h" 52] by (simp add: encode_frame_header_def)
qed

lemma take_header_fields [simp]: "take 52 (encode_frame_header h @ post) = header_fields h"
  by (simp add: encode_frame_header_def)

text \<open>Conversely the fields read from 56 bytes with the right checksum write these bytes again.\<close>

lemma rebuild_header:
  assumes "56 \<le> length data"
    and h: "fh_magic h = peek_u32 data 0" "fh_version h = peek_u16 data 4" "fh_type h = peek_u16 data 6"
      "fh_flags h = peek_u16 data 8" "fh_reserved h = peek_u16 data 10" "fh_session_id h = peek_u64 data 12"
      "fh_epoch h = peek_u64 data 20" "fh_boot h = peek_u64 data 28" "fh_sequence h = peek_u64 data 36"
      "fh_payload_length h = peek_u32 data 44" "fh_payload_crc32 h = peek_u32 data 48"
    and crc: "peek_u32 data 52 = crc32 (take 52 data)"
  shows "encode_frame_header h = take 56 data"
proof -
  have cut: "take (i + j) data = take i data @ take j (drop i data)" for i j by (rule take_add)
  have fields: "header_fields h = take 52 data"
    using cut[of 4 2] cut[of 6 2] cut[of 8 2] cut[of 10 2] cut[of 12 8] cut[of 20 8] cut[of 28 8] cut[of 36 8]
      cut[of 44 4] cut[of 48 4] assms(1)
    by (simp add: header_fields_def h written_peek)
  have "w_u32 (peek_u32 data 52) = take 4 (drop 52 data)" using assms(1) by (simp add: written_peek)
  then show ?thesis using cut[of 52 4] crc by (simp add: encode_frame_header_def fields)
qed

lemma frame_type_raw: "t \<noteq> FT_COUNT \<Longrightarrow> raw_frame_type t \<noteq> 0 \<and> valid_frame_type (raw_frame_type t)"
  by (cases t) (simp_all add: valid_frame_type_def)

lemma frame_type_of_raw:
  assumes "raw \<noteq> 0" "valid_frame_type raw"
  shows "\<exists>t. t \<noteq> FT_COUNT \<and> raw_frame_type t = raw"
proof -
  have "unat raw \<in> set [1..<11]"
    using assms unsigned_eq_0_iff[of raw, where ?'a = nat]
    by (auto simp: valid_frame_type_def word_less_nat_alt Suc_le_eq)
  then have "raw = of_nat (unat raw)" "unat raw \<in> {1, 2, 3, 4, 5, 6, 7, 8, 9, 10}" by (auto simp: upt_rec)
  then have "raw \<in> {1, 2, 3, 4, 5, 6, 7, 8, 9, 10}" by (metis (no_types, opaque_lifting) insert_iff empty_iff
        of_nat_1 of_nat_numeral)
  then show ?thesis
    by (auto intro: exI[of _ FT_HELLO] exI[of _ FT_HELLO_ACK] exI[of _ FT_PLAN_REQUEST] exI[of _ FT_PLAN_RESPONSE]
        exI[of _ FT_VALIDATE_REQUEST] exI[of _ FT_VALIDATE_RESPONSE] exI[of _ FT_STATUS_REQUEST]
        exI[of _ FT_STATUS_RESPONSE] exI[of _ FT_BYE] exI[of _ FT_ERROR_FRAME])
qed

text \<open>The frame a decoder yields for the fields of \<open>encode_frame\<close>.\<close>

definition frame_of_fields :: "frame_type \<Rightarrow> u64 \<Rightarrow> u64 \<Rightarrow> u64 \<Rightarrow> u64 \<Rightarrow> bytes \<Rightarrow> frame" where
  "frame_of_fields t session_id epoch boot sequence payload =
     (let h = make_header (raw_frame_type t) session_id epoch boot sequence payload in
      \<lparr>fr_header = h\<lparr>fh_header_crc32 := crc32 (header_fields h)\<rparr>, fr_payload = payload\<rparr>)"

lemma decode_encoded_header:
  assumes "t \<noteq> FT_COUNT"
  shows "decode_frame_header (encode_frame_header (make_header (raw_frame_type t) s e b q p) @ post) =
    Inr ((make_header (raw_frame_type t) s e b q p)\<lparr>fh_header_crc32 :=
      crc32 (header_fields (make_header (raw_frame_type t) s e b q p))\<rparr>)"
  unfolding decode_frame_header_def header_peeks take_header_fields
  using frame_type_raw[OF assms] by (simp add: frame_header_size_def make_header_def)

lemma decode_frame_encoded:
  assumes "t \<noteq> FT_COUNT" "length p \<le> unat m"
  shows "decode_frame (encode_frame_header (make_header (raw_frame_type t) s e b q p) @ post) m =
    (if length post < length p then Inl (status_error SC_NOT_FOUND ''frame payload is incomplete'')
     else if crc32 (take (length p) post) \<noteq> crc32 p
       then Inl (status_error SC_PROTOCOL_ERROR ''frame payload checksum mismatch'')
     else Inr ((frame_of_fields t s e b q p)\<lparr>fr_payload := take (length p) post\<rparr>, 56 + length p))"
proof -
  have "length p < 2 ^ 32" using assms(2) unsigned_less[of m, where ?'a = nat] by simp
  then have len: "unat (of_nat (length p) :: u32) = length p" by (rule of_nat_length)
  then have "\<not> m < of_nat (length p)" using assms(2) by (simp add: word_less_nat_alt)
  then show ?thesis
    unfolding decode_frame_def decode_encoded_header[OF assms(1)]
    by (simp add: frame_header_size_def frame_of_fields_def Let_def len make_header_def)
qed

lemma decode_frame_iff:
  "decode_frame data m = Inr (f, consumed) \<longleftrightarrow>
   (\<exists>t s e b q p post. t \<noteq> FT_COUNT \<and> length p \<le> unat m \<and> data = encode_frame t s e b q p @ post \<and>
      f = frame_of_fields t s e b q p \<and> consumed = 56 + length p)"
proof
  assume d: "decode_frame data m = Inr (f, consumed)"
  then obtain h where h: "decode_frame_header data = Inr h" and len: "56 \<le> length data"
    and fits: "fh_payload_length h \<le> m" "56 + unat (fh_payload_length h) \<le> length data"
    and crc: "crc32 (take (unat (fh_payload_length h)) (drop 56 data)) = fh_payload_crc32 h"
    and f: "f = \<lparr>fr_header = h, fr_payload = take (unat (fh_payload_length h)) (drop 56 data)\<rparr>"
      "consumed = 56 + unat (fh_payload_length h)"
    by (auto simp: decode_frame_def frame_header_size_def Let_def not_less not_le split: sum.splits if_splits)
  let ?p = "take (unat (fh_payload_length h)) (drop 56 data)"
  from h have parts: "peek_u32 data 0 = frame_magic" "peek_u16 data 4 = protocol_version"
    "peek_u16 data 6 \<noteq> 0" "valid_frame_type (peek_u16 data 6)" "peek_u16 data 8 = 0" "peek_u16 data 10 = 0"
    "peek_u32 data 52 = crc32 (take 52 data)" and hd: "h = \<lparr>fh_magic = frame_magic, fh_version = peek_u16 data 4,
      fh_type = peek_u16 data 6, fh_flags = peek_u16 data 8, fh_reserved = peek_u16 data 10,
      fh_session_id = peek_u64 data 12, fh_epoch = peek_u64 data 20, fh_boot = peek_u64 data 28,
      fh_sequence = peek_u64 data 36, fh_payload_length = peek_u32 data 44,
      fh_payload_crc32 = peek_u32 data 48, fh_header_crc32 = peek_u32 data 52\<rparr>"
    by (auto simp: decode_frame_header_def split: if_splits)
  obtain t where t: "t \<noteq> FT_COUNT" "raw_frame_type t = peek_u16 data 6"
    using frame_type_of_raw[OF parts(3,4)] by blast
  let ?h = "make_header (raw_frame_type t) (fh_session_id h) (fh_epoch h) (fh_boot h) (fh_sequence h) ?p"
  have plen: "length ?p = unat (fh_payload_length h)" using fits(2) by simp
  have same: "?h = h\<lparr>fh_header_crc32 := 0\<rparr>" using parts t(2) crc plen by (simp add: make_header_def hd)
  have head: "encode_frame_header ?h = take 56 data"
    unfolding same by (rule rebuild_header) (use len parts(7) in \<open>simp_all add: hd parts(1)\<close>)
  have fields: "header_fields ?h = take 52 data"
    using arg_cong[OF head, of "take 52"] len take_header_fields[of ?h "[]"] by (simp add: min_def)
  have "data = encode_frame t (fh_session_id h) (fh_epoch h) (fh_boot h) (fh_sequence h) ?p @ drop consumed data"
    using append_take_drop_id[of 56 data] append_take_drop_id[of "unat (fh_payload_length h)" "drop 56 data"]
    by (simp add: encode_frame_def head f(2) add.commute)
  moreover have "f = frame_of_fields t (fh_session_id h) (fh_epoch h) (fh_boot h) (fh_sequence h) ?p"
    unfolding f(1) frame_of_fields_def fields Let_def unfolding same using parts(7) by (simp add: hd)
  moreover have "length ?p \<le> unat m" using fits(1) plen by (simp add: word_le_nat_alt)
  ultimately show "\<exists>t s e b q p post. t \<noteq> FT_COUNT \<and> length p \<le> unat m \<and> data = encode_frame t s e b q p @ post \<and>
      f = frame_of_fields t s e b q p \<and> consumed = 56 + length p" using t(1) f(2) plen by metis
next
  assume "\<exists>t s e b q p post. t \<noteq> FT_COUNT \<and> length p \<le> unat m \<and> data = encode_frame t s e b q p @ post \<and>
      f = frame_of_fields t s e b q p \<and> consumed = 56 + length p"
  then obtain t s e b q p post where "t \<noteq> FT_COUNT" "length p \<le> unat m" "data = encode_frame t s e b q p @ post"
    "f = frame_of_fields t s e b q p" "consumed = 56 + length p" by blast
  then show "decode_frame data m = Inr (f, consumed)"
    using decode_frame_encoded[of t p m s e b q "p @ post"]
    by (simp add: encode_frame_def) (simp add: frame_of_fields_def Let_def)
qed

lemma frame_stream:
  assumes "t \<noteq> FT_COUNT" and "length p \<le> unat m"
  shows "n < length (encode_frame t s e b q p) \<Longrightarrow>
      \<exists>x. decode_frame (take n (encode_frame t s e b q p)) m = Inl x \<and> st_code x = SC_NOT_FOUND"
    and "burst_error d (take 52 (encode_frame t s e b q p)) \<Longrightarrow>
      \<exists>x. decode_frame (d @ drop 52 (encode_frame t s e b q p) @ post) m = Inl x \<and> st_code x \<noteq> SC_NOT_FOUND"
    and "burst_error p' p \<Longrightarrow>
      \<exists>x. decode_frame (take 56 (encode_frame t s e b q p) @ p' @ post) m = Inl x \<and> st_code x \<noteq> SC_NOT_FOUND"
proof -
  let ?h = "make_header (raw_frame_type t) s e b q p"
  have frame: "encode_frame t s e b q p = encode_frame_header ?h @ p" by (simp add: encode_frame_def)
  show "\<exists>x. decode_frame (take n (encode_frame t s e b q p)) m = Inl x \<and> st_code x = SC_NOT_FOUND"
    if "n < length (encode_frame t s e b q p)"
  proof (cases "n < 56")
    case True
    with that show ?thesis by (simp add: decode_frame_def frame_header_size_def frame status_error_def)
  next
    case False
    then have "take n (encode_frame t s e b q p) = encode_frame_header ?h @ take (n - 56) p" by (simp add: frame)
    moreover have short: "length (take (n - 56) p) < length p" using that False by (auto simp: frame)
    ultimately show ?thesis
      by (simp only: decode_frame_encoded[OF assms] short if_True) (simp add: status_error_def)
  qed
  show "\<exists>x. decode_frame (take 56 (encode_frame t s e b q p) @ p' @ post) m = Inl x \<and> st_code x \<noteq> SC_NOT_FOUND"
    if b: "burst_error p' p"
  proof -
    have "take 56 (encode_frame t s e b q p) @ p' @ post = encode_frame_header ?h @ (p' @ post)" by (simp add: frame)
    then show ?thesis
      using burst_error_length[OF b] crc32_burst[OF b]
      by (simp only: decode_frame_encoded[OF assms]) (simp add: status_error_def)
  qed
  show "\<exists>x. decode_frame (d @ drop 52 (encode_frame t s e b q p) @ post) m = Inl x \<and> st_code x \<noteq> SC_NOT_FOUND"
    if b: "burst_error d (take 52 (encode_frame t s e b q p))"
  proof -
    have t52: "take 52 (encode_frame t s e b q p) = header_fields ?h"
      using take_header_fields[of ?h p] by (simp add: frame)
    have d52: "drop 52 (encode_frame t s e b q p) = w_u32 (crc32 (header_fields ?h)) @ p"
      by (simp add: frame encode_frame_header_def)
    have len: "length d = 52" using burst_error_length[OF b] by (simp add: t52)
    let ?data = "d @ w_u32 (crc32 (header_fields ?h)) @ p @ post"
    have "peek_u32 ?data 52 = crc32 (header_fields ?h)" "take 52 ?data = d" "\<not> length ?data < 56"
      using peek_written(2)[of d 52 "crc32 (header_fields ?h)" "p @ post"] len by simp_all
    then have "\<exists>x. decode_frame_header ?data = Inl x \<and> st_code x \<noteq> SC_NOT_FOUND"
      using crc32_burst[OF b] by (simp add: decode_frame_header_def frame_header_size_def t52 status_error_def)
    then show ?thesis using len by (auto simp: d52 decode_frame_def frame_header_size_def)
  qed
qed

section \<open>Properties\<close>

text \<open>C38. Decoding a frame is exact: a buffer decodes to a frame precisely when it starts with the
  encoding of a frame of a defined type whose payload is within the bound, and then the decoder
  yields exactly its fields and payload and consumes exactly its bytes.\<close>

theorem decode_frame_exact:
  "decode_frame data m = Inr (f, consumed) \<longleftrightarrow>
   (\<exists>t s e b q p post. t \<noteq> FT_COUNT \<and> length p \<le> unat m \<and> data = encode_frame t s e b q p @ post \<and>
      f = frame_of_fields t s e b q p \<and> consumed = 56 + length p)"
  by (rule decode_frame_iff)

text \<open>C39. A stream is never misread. Every proper prefix of an encoded frame is reported as incomplete
  (\<open>NOT_FOUND\<close>, the signal to read more bytes), and a frame in which a burst error of up to 32 bits
  lies wholly in the first 52 bytes, which the header checksum covers, or wholly in the payload, is
  refused with an error that closes the connection. The payload is within the decoder's limit.\<close>

theorem frame_stream_fail_closed:
  assumes "t \<noteq> FT_COUNT" and "length p \<le> unat m"
  shows "(n < length (encode_frame t s e b q p) \<longrightarrow>
      (\<exists>x. decode_frame (take n (encode_frame t s e b q p)) m = Inl x \<and> st_code x = SC_NOT_FOUND)) \<and>
    (burst_error d (take 52 (encode_frame t s e b q p)) \<longrightarrow>
      (\<exists>x. decode_frame (d @ drop 52 (encode_frame t s e b q p) @ post) m = Inl x \<and> st_code x \<noteq> SC_NOT_FOUND)) \<and>
    (burst_error p' p \<longrightarrow>
      (\<exists>x. decode_frame (take 56 (encode_frame t s e b q p) @ p' @ post) m = Inl x \<and> st_code x \<noteq> SC_NOT_FOUND))"
  using frame_stream[OF assms] by blast

theorem frame_stream_fail_closed_witness:
  "\<exists>x. decode_frame (take 57 (encode_frame FT_BYE 1 2 3 4 [5, 6])) 100 = Inl x \<and> st_code x = SC_NOT_FOUND"
proof -
  have "57 < length (encode_frame FT_BYE 1 2 3 4 [5, 6])" by (simp add: encode_frame_def)
  moreover have "FT_BYE \<noteq> FT_COUNT" "length [5, 6::u8] \<le> unat (100::u32)" by simp_all
  ultimately show ?thesis using frame_stream_fail_closed[of FT_BYE "[5, 6]" 100 57 1 2 3 4] by blast
qed

end
