(* ===== verification/NRP_Protocol.thy ===== *)
theory NRP_Protocol
  imports NRP_Codec NRP_Wire NRP_Report NRP_Store
begin

text \<open>
  The payloads of the transport frames (\<open>src/protocol.cpp\<close>): hello, acknowledgement, errors, planning
  requests and responses, validation requests and reports, status; and the payload of a committed
  plan record (\<open>src/persistence.cpp\<close>). Every decoder is shown to be exact for its encoder, through the
  rules of \<open>NRP_Decode\<close>, so that the interface \<open>exact_codec\<close> applies to each of them.
\<close>

section \<open>Types\<close>

datatype error_code =
    EC_NONE | EC_BAD_MAGIC | EC_BAD_VERSION | EC_BAD_HEADER_CHECKSUM | EC_BAD_PAYLOAD_CHECKSUM
  | EC_FRAME_TOO_LARGE | EC_INVALID_ENUM | EC_INVALID_LENGTH | EC_TRAILING_BYTES
  | EC_SEQUENCE_REGRESSION | EC_SESSION_MISMATCH | EC_SESSION_LIMIT | EC_QUEUE_LIMIT
  | EC_UNSUPPORTED_REQUEST | EC_DECODE_REJECTED | EC_STICKY_FAILURE | EC_SHUTTING_DOWN | EC_COUNT

definition error_codes :: "error_code list" where
  "error_codes = [EC_NONE, EC_BAD_MAGIC, EC_BAD_VERSION, EC_BAD_HEADER_CHECKSUM,
     EC_BAD_PAYLOAD_CHECKSUM, EC_FRAME_TOO_LARGE, EC_INVALID_ENUM, EC_INVALID_LENGTH,
     EC_TRAILING_BYTES, EC_SEQUENCE_REGRESSION, EC_SESSION_MISMATCH, EC_SESSION_LIMIT,
     EC_QUEUE_LIMIT, EC_UNSUPPORTED_REQUEST, EC_DECODE_REJECTED, EC_STICKY_FAILURE,
     EC_SHUTTING_DOWN, EC_COUNT]"

primrec raw_error_code :: "error_code \<Rightarrow> u16" where
  "raw_error_code EC_NONE = 0"
| "raw_error_code EC_BAD_MAGIC = 1"
| "raw_error_code EC_BAD_VERSION = 2"
| "raw_error_code EC_BAD_HEADER_CHECKSUM = 3"
| "raw_error_code EC_BAD_PAYLOAD_CHECKSUM = 4"
| "raw_error_code EC_FRAME_TOO_LARGE = 5"
| "raw_error_code EC_INVALID_ENUM = 6"
| "raw_error_code EC_INVALID_LENGTH = 7"
| "raw_error_code EC_TRAILING_BYTES = 8"
| "raw_error_code EC_SEQUENCE_REGRESSION = 9"
| "raw_error_code EC_SESSION_MISMATCH = 10"
| "raw_error_code EC_SESSION_LIMIT = 11"
| "raw_error_code EC_QUEUE_LIMIT = 12"
| "raw_error_code EC_UNSUPPORTED_REQUEST = 13"
| "raw_error_code EC_DECODE_REJECTED = 14"
| "raw_error_code EC_STICKY_FAILURE = 15"
| "raw_error_code EC_SHUTTING_DOWN = 16"
| "raw_error_code EC_COUNT = 17"

definition valid_error_code :: "u16 \<Rightarrow> bool" where
  "valid_error_code code \<longleftrightarrow> code < raw_error_code EC_COUNT"

record hello_ack =
  ha_session :: strong_id
  ha_epoch :: epoch
  ha_boot :: boot_id
  ha_server_nonce :: u64
  ha_next_sequence :: seqno

record error_payload =
  ep_code :: error_code
  ep_reason :: reason_code
  ep_text :: string

record protocol_limits =
  pt_max_payload_bytes :: u32
  pt_max_records_per_message :: u32
  pt_model :: model_limits

definition default_protocol_limits :: protocol_limits where
  "default_protocol_limits = \<lparr>pt_max_payload_bytes = push_bit 20 4, pt_max_records_per_message = 4096,
     pt_model = default_model_limits\<rparr>"

section \<open>Combinators\<close>

text \<open>A present flag, then the value.\<close>

definition encode_optional :: "('a \<Rightarrow> bytes) \<Rightarrow> 'a option \<Rightarrow> bytes" where
  "encode_optional w v = (case v of None \<Rightarrow> w_boolean False | Some x \<Rightarrow> w_boolean True @ w x)"

definition decode_optional :: "'a decoder \<Rightarrow> 'a option decoder" where
  "decode_optional d rd =
     (case r_boolean rd of (has, rd) \<Rightarrow>
      if has then and_then (d rd) (\<lambda>v. yield_value (Some v)) else checked (yield_value None) rd)"

text \<open>A plan and, behind its encoding, its digest.\<close>

definition encode_plan_digest :: "recovery_plan \<Rightarrow> bytes" where
  "encode_plan_digest p = encode_plan p @ encode_digest (pl_plan_digest p)"

definition decode_plan_digest :: "model_limits \<Rightarrow> recovery_plan decoder" where
  "decode_plan_digest l rd =
     and_then (decode_plan l rd) (\<lambda>p rd. case read_digest rd of (g, rd) \<Rightarrow>
       checked (yield_value (p\<lparr>pl_plan_digest := g\<rparr>)) rd)"

section \<open>Certificates\<close>

definition encode_certificate :: "certificate \<Rightarrow> bytes" where
  "encode_certificate c =
     w_u8 (raw_proof_kind (ct_kind c)) @ encode_digest (ct_request_digest c) @
     encode_digest (ct_policy_digest c) @ w_u64 (ct_nodes_expanded c) @ w_u64 (ct_nodes_generated c) @
     w_u64 (ct_reachable_states c) @ w_list w_u64 (ct_cycle c) @
     w_u8 (raw_subject_kind (subj_kind (ct_unreachable_subject c))) @
     w_u64 (subj_id (ct_unreachable_subject c)) @ w_u64 (ct_unreachable_value c) @
     w_u64 (ct_required_value c) @ w_list w_str (ct_assumptions c) @
     w_list encode_explanation (ct_explanations c)"

definition proof_kinds :: "proof_kind list" where
  "proof_kinds = [PF_EXHAUSTIVE_SEARCH, PF_DEPENDENCY_CYCLE, PF_GOAL_UPPER_BOUND]"

definition decode_certificate :: "model_limits \<Rightarrow> certificate decoder" where
  "decode_certificate l rd =
     (case r_enum (\<lambda>b. proof_kinds ! unat b) 3 ''proof kind'' rd of (kind, rd) \<Rightarrow>
      case read_digest rd of (rqd, rd) \<Rightarrow> case read_digest rd of (pod, rd) \<Rightarrow>
      case r_u64 rd of (expanded, rd) \<Rightarrow> case r_u64 rd of (generated, rd) \<Rightarrow>
      case r_u64 rd of (states, rd) \<Rightarrow>
      and_then (decode_list (max_actions l) ''proof cycle'' (element r_u64) rd) (\<lambda>cyc rd.
      case read_subject_kind ''proof subject kind'' rd of (sk, rd) \<Rightarrow> case r_u64 rd of (si, rd) \<Rightarrow>
      case r_u64 rd of (unreachable, rd) \<Rightarrow> case r_u64 rd of (required, rd) \<Rightarrow>
      and_then (decode_list 32 ''proof assumptions''
          (element (r_str (unat (max_string_length l * 4)))) rd) (\<lambda>assumptions rd.
      and_then (decode_list 64 ''proof explanations'' (decode_explanation l) rd) (\<lambda>es rd.
      Inr (\<lparr>ct_kind = kind, ct_request_digest = rqd, ct_policy_digest = pod,
            ct_nodes_expanded = expanded, ct_nodes_generated = generated, ct_reachable_states = states,
            ct_cycle = cyc, ct_unreachable_subject = Subject sk si, ct_unreachable_value = unreachable,
            ct_required_value = required, ct_assumptions = assumptions, ct_explanations = es\<rparr>, rd)))))"

section \<open>Payloads\<close>

subsection \<open>Session set-up, errors, status\<close>

definition encode_hello :: "u64 \<Rightarrow> u32 \<Rightarrow> bytes" where
  "encode_hello client_nonce requested_features = w_u64 client_nonce @ w_u32 requested_features"

definition read_hello :: "reader \<Rightarrow> (u64 \<times> u32) \<times> reader" where
  "read_hello rd = (case r_u64 rd of (nonce, rd) \<Rightarrow> case r_u32 rd of (features, rd) \<Rightarrow> ((nonce, features), rd))"

definition decode_hello :: "bytes \<Rightarrow> status + u64" where
  "decode_hello payload = (case decode_whole (element read_hello) payload of
       Inl e \<Rightarrow> Inl e
     | Inr (nonce, _) \<Rightarrow>
         if nonce = 0 then Inl (status_error SC_PROTOCOL_ERROR ''hello nonce must be non-zero'') else Inr nonce)"

definition encode_hello_ack :: "hello_ack \<Rightarrow> bytes" where
  "encode_hello_ack a = w_u64 (ha_session a) @ w_u64 (ha_epoch a) @ w_u64 (ha_boot a) @
     w_u64 (ha_server_nonce a) @ w_u64 (ha_next_sequence a)"

definition read_hello_ack :: "reader \<Rightarrow> hello_ack \<times> reader" where
  "read_hello_ack rd = (case r_u64 rd of (s, rd) \<Rightarrow> case r_u64 rd of (e, rd) \<Rightarrow> case r_u64 rd of (b, rd) \<Rightarrow>
     case r_u64 rd of (nonce, rd) \<Rightarrow> case r_u64 rd of (sq, rd) \<Rightarrow>
     (\<lparr>ha_session = s, ha_epoch = e, ha_boot = b, ha_server_nonce = nonce, ha_next_sequence = sq\<rparr>, rd))"

definition decode_hello_ack :: "bytes \<Rightarrow> status + hello_ack" where
  "decode_hello_ack payload = (case decode_whole (element read_hello_ack) payload of
       Inl e \<Rightarrow> Inl e
     | Inr ack \<Rightarrow>
         if ha_session ack = 0 then Inl (status_error SC_PROTOCOL_ERROR ''session identity must be non-zero'')
         else if ha_next_sequence ack = 0
           then Inl (status_error SC_PROTOCOL_ERROR ''next sequence must be at least one'')
         else Inr ack)"

definition encode_error_payload :: "error_payload \<Rightarrow> bytes" where
  "encode_error_payload e = w_u16 (raw_error_code (ep_code e)) @ w_u8 (raw_reason_code (ep_reason e)) @
     w_str (ep_text e)"

definition read_error_code :: "reader \<Rightarrow> error_code \<times> reader" where
  "read_error_code rd = (case r_u16 rd of (raw, rd) \<Rightarrow>
     if rd_ok rd \<and> \<not> valid_error_code raw
     then (EC_COUNT, rd_fail SC_PROTOCOL_ERROR ''error code is outside the defined domain'' rd)
     else (error_codes ! unat raw, rd))"

definition read_error_payload :: "reader \<Rightarrow> error_payload \<times> reader" where
  "read_error_payload rd = (case read_error_code rd of (code, rd) \<Rightarrow>
     case r_enum (\<lambda>b. reason_codes ! unat b) (raw_reason_code RC_COUNT) ''error reason'' rd of (reason, rd) \<Rightarrow>
     case r_str 512 rd of (t, rd) \<Rightarrow> (\<lparr>ep_code = code, ep_reason = reason, ep_text = t\<rparr>, rd))"

definition decode_error_payload :: "bytes \<Rightarrow> status + error_payload" where
  "decode_error_payload payload = decode_whole (element read_error_payload) payload"

definition encode_status_response :: "epoch \<Rightarrow> boot_id \<Rightarrow> seqno \<Rightarrow> u64 \<Rightarrow> u64 \<Rightarrow> u64 \<Rightarrow> bytes" where
  "encode_status_response epoch boot last_sequence plans_committed sessions_active plans_rejected =
     w_u64 epoch @ w_u64 boot @ w_u64 last_sequence @ w_u64 plans_committed @ w_u64 sessions_active @
     w_u64 plans_rejected"

subsection \<open>Planning\<close>

definition encode_plan_request_payload :: "plan_request \<Rightarrow> bytes" where
  "encode_plan_request_payload r = encode_request r"

definition decode_plan_request_payload :: "bytes \<Rightarrow> protocol_limits \<Rightarrow> status + plan_request" where
  "decode_plan_request_payload payload l = (case decode_whole (decode_request_body (pt_model l)) payload of
       Inl e \<Rightarrow> Inl e
     | Inr r \<Rightarrow>
         let s = fst (validate_definition (rq_definition r) (pt_model l) (make_log 16)) in
         if \<not> status_ok s then Inl s
         else if length (df_actions (rq_definition r)) > unat (pt_max_records_per_message l)
           then Inl (status_error SC_OUT_OF_RANGE ''request declares too many actions'')
         else Inr r)"

definition encode_stats :: "search_stats \<Rightarrow> bytes" where
  "encode_stats s = w_u64 (ss_nodes_expanded s) @ w_u64 (ss_nodes_generated s) @
     w_u64 (ss_nodes_pruned_by_dominance s) @ w_u64 (ss_nodes_pruned_by_safety s) @
     w_u64 (ss_nodes_pruned_by_authority s) @ w_u64 (ss_nodes_pruned_by_policy s) @
     w_u64 (ss_frontier_high_water s) @ w_u64 (ss_states_revisited s) @ w_u64 (ss_budget_nodes s) @
     w_boolean (ss_budget_exhausted s) @ w_boolean (ss_frontier_emptied s)"

definition encode_plan_response :: "planning_result \<Rightarrow> bytes" where
  "encode_plan_response r =
     w_u8 (raw_plan_decision (pr_decision r)) @ w_u64 (pr_request r) @ w_u64 (pr_epoch r) @
     w_u64 (pr_boot r) @ w_u64 (pr_attempt r) @ encode_optional encode_plan_digest (pr_plan r) @
     encode_optional encode_certificate (pr_certificate r) @ encode_stats (pr_stats r) @
     w_list encode_subject (pr_unresolved_subjects r) @ w_list encode_explanation (pr_explanations r) @
     encode_digest (pr_request_digest r)"

definition plan_decisions :: "plan_decision list" where
  "plan_decisions = [PD_PLAN_FOUND, PD_PROVEN_INFEASIBLE, PD_INDETERMINATE_SEARCH_LIMIT,
     PD_INDETERMINATE_INCOMPLETE_EVIDENCE, PD_REJECTED_INVALID_REQUEST,
     PD_REJECTED_UNSUPPORTED_PROBLEM, PD_REJECTED_STALE_AUTHORITY,
     PD_REJECTED_UNKNOWN_AUTHORITY, PD_REJECTED_CONFLICTING_AUTHORITY, PD_REJECTED_FENCED,
     PD_REJECTED_EXHAUSTED]"

definition read_stats :: "reader \<Rightarrow> search_stats \<times> reader" where
  "read_stats rd = (case r_u64 rd of (a, rd) \<Rightarrow> case r_u64 rd of (b, rd) \<Rightarrow> case r_u64 rd of (c, rd) \<Rightarrow>
     case r_u64 rd of (d, rd) \<Rightarrow> case r_u64 rd of (e, rd) \<Rightarrow> case r_u64 rd of (f, rd) \<Rightarrow>
     case r_u64 rd of (g, rd) \<Rightarrow> case r_u64 rd of (h, rd) \<Rightarrow> case r_u64 rd of (i, rd) \<Rightarrow>
     case r_boolean rd of (j, rd) \<Rightarrow> case r_boolean rd of (k, rd) \<Rightarrow>
     (\<lparr>ss_nodes_expanded = a, ss_nodes_generated = b, ss_nodes_pruned_by_dominance = c,
       ss_nodes_pruned_by_safety = d, ss_nodes_pruned_by_authority = e, ss_nodes_pruned_by_policy = f,
       ss_frontier_high_water = g, ss_states_revisited = h, ss_budget_nodes = i,
       ss_budget_exhausted = j, ss_frontier_emptied = k\<rparr>, rd))"

text \<open>A subject of a result: unlike \<open>read_subject\<close> it may be of kind NONE.\<close>

definition read_any_subject :: "string \<Rightarrow> reader \<Rightarrow> subject \<times> reader" where
  "read_any_subject what rd =
     (case read_subject_kind what rd of (k, rd) \<Rightarrow> case r_u64 rd of (i, rd) \<Rightarrow> (Subject k i, rd))"

text \<open>The body behind the five fields of the head.\<close>

definition decode_result_body ::
    "model_limits \<Rightarrow> plan_decision \<times> u64 \<times> u64 \<times> u64 \<times> u64 \<Rightarrow> planning_result decoder" where
  "decode_result_body l front rd = (case front of (decision, request, epoch, boot, attempt) \<Rightarrow>
      and_then (decode_optional (decode_plan_digest l) rd) (\<lambda>plan rd.
      and_then (decode_optional (decode_certificate l) rd) (\<lambda>cert rd.
      case read_stats rd of (stats, rd) \<Rightarrow>
      and_then (decode_list (max_nodes l + max_links l + max_services l + max_resources l)
          ''unresolved subjects'' (element (read_any_subject ''unresolved subject kind'')) rd) (\<lambda>unresolved rd.
      and_then (decode_list 256 ''result explanations'' (decode_explanation l) rd) (\<lambda>es rd.
      case read_digest rd of (g, rd) \<Rightarrow>
      checked (yield_value \<lparr>pr_decision = decision, pr_request = request, pr_epoch = epoch, pr_boot = boot,
        pr_attempt = attempt, pr_plan = plan, pr_certificate = cert, pr_stats = stats,
        pr_unresolved_subjects = unresolved, pr_explanations = es, pr_request_digest = g\<rparr>) rd)))))"

text \<open>\<open>is_valid(result.decision)\<close> always holds behind the domain check of the enumeration.\<close>

definition decode_result :: "model_limits \<Rightarrow> planning_result decoder" where
  "decode_result l rd =
     (case r_enum (\<lambda>b. plan_decisions ! unat b) (raw_plan_decision PD_COUNT) ''plan decision'' rd of (decision, rd) \<Rightarrow>
      case r_u64 rd of (request, rd) \<Rightarrow> case r_u64 rd of (epoch, rd) \<Rightarrow> case r_u64 rd of (boot, rd) \<Rightarrow>
      case r_u64 rd of (attempt, rd) \<Rightarrow>
      checked (\<lambda>rd.
        if decision = PD_COUNT
        then Inl (status_error SC_PROTOCOL_ERROR ''plan decision is outside the domain'')
        else decode_result_body l (decision, request, epoch, boot, attempt) rd) rd)"

definition decode_plan_response :: "bytes \<Rightarrow> protocol_limits \<Rightarrow> status + planning_result" where
  "decode_plan_response payload l = decode_whole (decode_result (pt_model l)) payload"

subsection \<open>Validation\<close>

definition encode_validate_request :: "plan_request \<times> recovery_plan \<Rightarrow> bytes" where
  "encode_validate_request rp = encode_request (fst rp) @ encode_plan_digest (snd rp)"

definition decode_validate_body :: "model_limits \<Rightarrow> (plan_request \<times> recovery_plan) decoder" where
  "decode_validate_body l rd =
     and_then (decode_request_body l rd) (\<lambda>r rd. and_then (decode_plan_digest l rd) (\<lambda>p. yield_value (r, p)))"

definition decode_validate_request :: "bytes \<Rightarrow> protocol_limits \<Rightarrow> status + plan_request \<times> recovery_plan" where
  "decode_validate_request payload l = decode_whole (decode_validate_body (pt_model l)) payload"

definition encode_finding :: "validation_finding \<Rightarrow> bytes" where
  "encode_finding f = w_u8 (raw_reason_code (vf_code f)) @ w_u32 (vf_step_index f) @
     w_u8 (raw_subject_kind (subj_kind (vf_subject f))) @ w_u64 (subj_id (vf_subject f)) @ w_str (vf_text f)"

definition encode_validate_response :: "validation_report \<Rightarrow> bytes" where
  "encode_validate_response r = w_boolean (vr_valid r) @ w_boolean (vr_objective_matches r) @
     w_boolean (vr_digest_matches r) @ encode_objective (vr_recomputed_objective r) @
     encode_digest (vr_stated_plan_digest r) @ encode_digest (vr_recomputed_plan_digest r) @
     w_list encode_finding (vr_findings r)"

definition read_finding :: "reader \<Rightarrow> validation_finding \<times> reader" where
  "read_finding rd =
     (case r_enum (\<lambda>b. reason_codes ! unat b) (raw_reason_code RC_COUNT) ''finding reason'' rd of (code, rd) \<Rightarrow>
      case r_u32 rd of (i, rd) \<Rightarrow> case read_subject_kind ''finding subject kind'' rd of (sk, rd) \<Rightarrow>
      case r_u64 rd of (si, rd) \<Rightarrow> case r_str 512 rd of (t, rd) \<Rightarrow>
      (\<lparr>vf_code = code, vf_step_index = i, vf_subject = Subject sk si, vf_text = t\<rparr>, rd))"

definition decode_report :: "validation_report decoder" where
  "decode_report rd =
     (case r_boolean rd of (v, rd) \<Rightarrow> case r_boolean rd of (om, rd) \<Rightarrow> case r_boolean rd of (dm, rd) \<Rightarrow>
      case read_objective rd of (obj, rd) \<Rightarrow> case read_digest rd of (stated, rd) \<Rightarrow>
      case read_digest rd of (recomputed, rd) \<Rightarrow>
      and_then (decode_list 512 ''validation findings'' (element read_finding) rd) (\<lambda>fs.
      yield_value \<lparr>vr_valid = v, vr_objective_matches = om, vr_digest_matches = dm,
        vr_recomputed_objective = obj, vr_stated_plan_digest = stated,
        vr_recomputed_plan_digest = recomputed, vr_findings = fs\<rparr>))"

definition decode_validate_response :: "bytes \<Rightarrow> status + validation_report" where
  "decode_validate_response payload = decode_whole decode_report payload"

subsection \<open>Committed plan records\<close>

definition encode_plan_record :: "recovery_plan \<Rightarrow> bytes" where
  "encode_plan_record p = encode_plan p @ w_u64 (dg_hi (pl_plan_digest p)) @ w_u64 (dg_lo (pl_plan_digest p))"

definition decode_plan_record :: "bytes \<Rightarrow> status + recovery_plan" where
  "decode_plan_record payload = decode_whole (decode_plan_digest default_model_limits) payload"


section \<open>The decoders are exact\<close>

lemma exact_u16 [exact_rules]: "exact_reader r_u16 (\<lambda>v out. out = w_u16 v)"
proof (rule exact_scalar[where val = "\<lambda>r. fold (\<lambda>i v. v OR push_bit (8 * i) (ucast (rd_byte r i))) [0..<2] 0" and z = 0])
  show "r_u16 rd = (case rd_need 2 rd of (False, rd') \<Rightarrow> (0, rd') | (True, rd') \<Rightarrow>
      (fold (\<lambda>i v. v OR push_bit (8 * i) (ucast (rd_byte rd' i))) [0..<2] 0, rd_advance 2 rd'))" for rd
    by (simp add: r_u16_def upt_rec split: prod.splits bool.splits)
  have w: "w_u16 v = map (\<lambda>i. ucast (drop_bit (8 * i) v AND 0xFF)) [0..<2]" for v
    by (simp add: w_u16_def upt_rec)
  show "length (w_u16 v) = 2" for v by simp
  show "fold (\<lambda>i v. v OR push_bit (8 * i) (ucast (rd_byte rd i))) [0..<2] 0 = v"
    if "rd_at rd (w_u16 v @ rest)" for rd rest and v :: u16
    using fold_bytes_cong[OF that[unfolded w]] by (simp add: take_bit_word_eq_self)
  show "w_u16 (fold (\<lambda>i v. v OR push_bit (8 * i) (ucast (rd_byte rd i))) [0..<2] 0) = xs"
    if "rd_at rd (xs @ rest)" "length xs = 2" for rd xs rest
    using split_all[OF that, where ?'a = 16] by (simp add: w byte_of)
qed

lemma exact_if:
  assumes "exact d R" and "exact e S"
  shows "exact (\<lambda>rd. if b then d rd else e rd) (\<lambda>v out. if b then R v out else S v out)"
  using assms by (cases b) simp_all

lemma exact_optional:
  assumes "exact d (\<lambda>v out. P v \<and> out = w v)"
  shows "exact (decode_optional d) (\<lambda>v out. pred_option P v \<and> out = encode_optional w v)"
proof (rule exact_cong)
  show "exact (decode_optional d) (\<lambda>v out. \<exists>a o1 o2. o1 = w_boolean a \<and>
      (if a then \<exists>x p q. (P x \<and> p = w x) \<and> (v = Some x \<and> q = []) \<and> o2 = p @ q
       else v = None \<and> o2 = []) \<and> out = o1 @ o2)"
    unfolding decode_optional_def[abs_def]
    by (rule exact_bind_reader[OF exact_boolean exact_if[OF exact_and_then[OF assms exact_ok_yield]
          exact_checked[OF exact_ok_yield]]])
  show "(\<exists>a o1 o2. o1 = w_boolean a \<and>
      (if a then \<exists>x p q. (P x \<and> p = w x) \<and> (v = Some x \<and> q = []) \<and> o2 = p @ q
       else v = None \<and> o2 = []) \<and> out = o1 @ o2) \<longleftrightarrow> pred_option P v \<and> out = encode_optional w v" for v out
    by (cases v) (auto simp: encode_optional_def)
qed

lemma exact_plan_digest: "exact (decode_plan_digest l) (\<lambda>v out. wf_plan l v \<and> out = encode_plan_digest v)"
proof (rule exact_cong)
  let ?R = "\<lambda>v out. \<exists>p o1 o2. (wf_plan l p \<and> pl_plan_digest p = zero_digest \<and> o1 = encode_plan p) \<and>
      (\<exists>g o3 o4. o3 = encode_digest g \<and> (v = p\<lparr>pl_plan_digest := g\<rparr> \<and> o4 = []) \<and> o2 = o3 @ o4) \<and> out = o1 @ o2"
  show "exact (decode_plan_digest l) ?R"
    unfolding decode_plan_digest_def[abs_def] by (rule exact_plan exact_rules)+
  have same: "encode_plan (q\<lparr>pl_plan_digest := z\<rparr>) = encode_plan q" "wf_plan l (q\<lparr>pl_plan_digest := z\<rparr>) = wf_plan l q" for q z
    by (simp_all add: encode_plan_def wf_plan_def)
  show "?R v out \<longleftrightarrow> wf_plan l v \<and> out = encode_plan_digest v" for v out
  proof
    assume "wf_plan l v \<and> out = encode_plan_digest v"
    then show "?R v out"
      by (intro exI[of _ "v\<lparr>pl_plan_digest := zero_digest\<rparr>"])
        (simp add: same encode_plan_digest_def, intro exI[of _ "pl_plan_digest v"], simp)
  qed (auto simp: same encode_plan_digest_def)
qed

definition wf_certificate :: "model_limits \<Rightarrow> certificate \<Rightarrow> bool" where
  "wf_certificate l c \<longleftrightarrow> ct_kind c \<noteq> PF_COUNT \<and> length (ct_cycle c) \<le> unat (max_actions l) \<and>
     length (ct_assumptions c) \<le> 32 \<and>
     list_all (\<lambda>s. length s \<le> unat (max_string_length l * 4)) (ct_assumptions c) \<and>
     length (ct_explanations c) \<le> 64 \<and> list_all (wf_explanation l) (ct_explanations c)"

lemma exact_proof_kind [exact_rules]:
  "exact_reader (r_enum (\<lambda>b. proof_kinds ! unat b) 3 what) (\<lambda>v out. v \<noteq> PF_COUNT \<and> out = w_u8 (raw_proof_kind v))"
  by (rule exact_reader_cong[OF exact_enum[where raw = raw_proof_kind]])
    (simp add: proof_kinds_def upt_rec, simp, case_tac v, simp_all)

lemma exact_text: "exact (element (r_str (unat (m :: u32)))) (\<lambda>v out. length v \<le> unat m \<and> out = w_str v)"
  by (rule exact_cong[OF exact_element[OF exact_str]]) (auto intro: order_le_less_trans[OF _ unat_lt])

lemma exact_certificate: "exact (decode_certificate l) (\<lambda>v out. wf_certificate l v \<and> out = encode_certificate v)"
  unfolding decode_certificate_def[abs_def]
  by (rule exact_cong, (rule exact_plain_list[OF exact_u64] exact_list[OF exact_text]
        exact_list[OF exact_explanation] exact_rules)+)
    (case_tac v, rename_tac sub x1 x2 x3 x4, case_tac sub, auto simp: encode_certificate_def wf_certificate_def)


lemma exact_hello: "exact (element read_hello) (\<lambda>v out. True \<and> out = encode_hello (fst v) (snd v))"
  unfolding read_hello_def[abs_def]
  by (rule exact_cong, (rule exact_rules)+) (case_tac v, auto simp: encode_hello_def)

lemma exact_hello_ack: "exact (element read_hello_ack) (\<lambda>v out. True \<and> out = encode_hello_ack v)"
  unfolding read_hello_ack_def[abs_def]
  by (rule exact_cong, (rule exact_rules)+) (case_tac v, auto simp: encode_hello_ack_def)

lemma error_code_at: "error_codes ! unat (raw_error_code v) = v"
  by (cases v) (simp_all add: error_codes_def)

lemma raw_error_code_at: "valid_error_code raw \<Longrightarrow> error_codes ! unat raw \<noteq> EC_COUNT \<and> raw_error_code (error_codes ! unat raw) = raw"
proof -
  assume "valid_error_code raw"
  then have "unat raw < 17" by (simp add: valid_error_code_def word_less_nat_alt)
  then have "unat raw \<in> set [0..<17]" by simp
  then show ?thesis
    unfolding word_unat_eq_iff by (auto simp: error_codes_def upt_rec)
qed

lemma exact_error_code [exact_rules]:
  "exact_reader read_error_code (\<lambda>v out. v \<noteq> EC_COUNT \<and> out = w_u16 (raw_error_code v))"
proof (rule exact_reader_cong)
  show "exact_reader read_error_code (\<lambda>v out. \<exists>raw o1 o2. o1 = w_u16 raw \<and>
      (valid_error_code raw \<and> v = error_codes ! unat raw \<and> o2 = []) \<and> out = o1 @ o2)"
    unfolding read_error_code_def[abs_def]
    by (rule exact_reader_bind[OF exact_u16], rule exact_readerI) (auto dest: rd_at_ok split: if_splits)
  show "(\<exists>raw o1 o2. o1 = w_u16 raw \<and> (valid_error_code raw \<and> v = error_codes ! unat raw \<and> o2 = []) \<and>
      out = o1 @ o2) \<longleftrightarrow> v \<noteq> EC_COUNT \<and> out = w_u16 (raw_error_code v)" for v out
  proof
    assume v: "v \<noteq> EC_COUNT \<and> out = w_u16 (raw_error_code v)"
    then have "valid_error_code (raw_error_code v)" by (cases v) (simp_all add: valid_error_code_def)
    with v show "\<exists>raw o1 o2. o1 = w_u16 raw \<and> (valid_error_code raw \<and> v = error_codes ! unat raw \<and> o2 = []) \<and>
      out = o1 @ o2" by (auto simp: error_code_at intro!: exI[of _ "raw_error_code v"])
  qed (auto dest: raw_error_code_at)
qed

definition wf_error :: "error_payload \<Rightarrow> bool" where
  "wf_error e \<longleftrightarrow> ep_code e \<noteq> EC_COUNT \<and> ep_reason e \<noteq> RC_COUNT \<and> length (ep_text e) \<le> 512"

lemma exact_error: "exact (element read_error_payload) (\<lambda>v out. wf_error v \<and> out = encode_error_payload v)"
  unfolding read_error_payload_def[abs_def]
  by (rule exact_cong, (rule exact_rules)+) (case_tac v, auto simp: encode_error_payload_def wf_error_def)

lemma exact_stats [exact_rules]: "exact_reader read_stats (\<lambda>v out. out = encode_stats v)"
  unfolding read_stats_def[abs_def]
  by (rule exact_reader_cong, (rule exact_rules)+) (case_tac v, auto simp: encode_stats_def)

lemma exact_any_subject [exact_rules]: "exact_reader (read_any_subject what) (\<lambda>v out. out = encode_subject v)"
  unfolding read_any_subject_def[abs_def]
  by (rule exact_reader_cong, (rule exact_rules)+) (case_tac v, auto simp: encode_subject_def)

lemma exact_decision [exact_rules]:
  "exact_reader (r_enum (\<lambda>b. plan_decisions ! unat b) (raw_plan_decision PD_COUNT) what)
     (\<lambda>v out. v \<noteq> PD_COUNT \<and> out = w_u8 (raw_plan_decision v))"
  by (rule exact_reader_cong[OF exact_enum[where raw = raw_plan_decision]])
    (simp add: plan_decisions_def upt_rec, simp, case_tac v, simp_all)

definition wf_result :: "model_limits \<Rightarrow> planning_result \<Rightarrow> bool" where
  "wf_result l r \<longleftrightarrow> pr_decision r \<noteq> PD_COUNT \<and> pred_option (wf_plan l) (pr_plan r) \<and>
     pred_option (wf_certificate l) (pr_certificate r) \<and>
     length (pr_unresolved_subjects r) \<le> unat (max_nodes l + max_links l + max_services l + max_resources l) \<and>
     length (pr_explanations r) \<le> 256 \<and> list_all (wf_explanation l) (pr_explanations r)"


lemma exact_result_body:
  "exact (decode_result_body l (dn, rq, ep, bt, at)) (\<lambda>v out. \<exists>p c st us es g. v =
     \<lparr>pr_decision = dn, pr_request = rq, pr_epoch = ep, pr_boot = bt, pr_attempt = at, pr_plan = p,
      pr_certificate = c, pr_stats = st, pr_unresolved_subjects = us, pr_explanations = es,
      pr_request_digest = g\<rparr> \<and> (dn \<noteq> PD_COUNT \<longrightarrow> wf_result l v) \<and> pred_option (wf_plan l) p \<and> pred_option (wf_certificate l) c \<and>
     length us \<le> unat (max_nodes l + max_links l + max_services l + max_resources l) \<and>
     length es \<le> 256 \<and> list_all (wf_explanation l) es \<and>
     out = encode_optional encode_plan_digest p @ encode_optional encode_certificate c @ encode_stats st @
       w_list encode_subject us @ w_list encode_explanation es @ encode_digest g)"
  unfolding decode_result_body_def[abs_def] prod.case
  by (rule exact_cong, (rule exact_optional[OF exact_plan_digest] exact_optional[OF exact_certificate]
        exact_plain_list[OF exact_any_subject] exact_list[OF exact_explanation] exact_rules)+)
    (auto simp: wf_result_def)

lemma exact_result: "exact (decode_result l) (\<lambda>v out. wf_result l v \<and> out = encode_plan_response v)"
proof -
  have body: "exact_ok (\<lambda>rd. if dn = PD_COUNT
        then Inl (status_error SC_PROTOCOL_ERROR ''plan decision is outside the domain'')
        else decode_result_body l (dn, rq, ep, bt, at) rd)
      (\<lambda>v out. dn \<noteq> PD_COUNT \<and> wf_result l v \<and> pr_decision v = dn \<and> pr_request v = rq \<and> pr_epoch v = ep \<and>
        pr_boot v = bt \<and> pr_attempt v = at \<and>
        out = encode_optional encode_plan_digest (pr_plan v) @ encode_optional encode_certificate (pr_certificate v) @
          encode_stats (pr_stats v) @ w_list encode_subject (pr_unresolved_subjects v) @
          w_list encode_explanation (pr_explanations v) @ encode_digest (pr_request_digest v))" for dn rq ep bt at
  proof (cases "dn = PD_COUNT")
    case True
    then show ?thesis by (simp add: exact_ok_def)
  next
    case False
    then show ?thesis
      by (simp only: if_False)
        (rule exact_ok_cong[OF exact_ok_exact[OF exact_result_body]], case_tac v, auto simp: wf_result_def)
  qed
  show ?thesis
    unfolding decode_result_def[abs_def]
    by (rule exact_cong, (rule body exact_rules)+)
      (auto simp: encode_plan_response_def wf_result_def)
qed

lemma exact_validate_body:
  "exact (decode_validate_body l)
     (\<lambda>v out. (wf_request l (fst v) \<and> wf_plan l (snd v)) \<and> out = encode_validate_request v)"
  unfolding decode_validate_body_def[abs_def]
  by (rule exact_cong, (rule exact_request exact_plan_digest exact_rules)+)
    (case_tac v, auto simp: encode_validate_request_def)

definition wf_finding :: "validation_finding \<Rightarrow> bool" where
  "wf_finding f \<longleftrightarrow> vf_code f \<noteq> RC_COUNT \<and> length (vf_text f) \<le> 512"

lemma exact_finding: "exact_reader read_finding (\<lambda>v out. wf_finding v \<and> out = encode_finding v)"
  unfolding read_finding_def[abs_def]
  by (rule exact_reader_cong, (rule exact_rules)+)
    (case_tac v, rename_tac sub x, case_tac sub, auto simp: encode_finding_def wf_finding_def)

definition wf_report :: "validation_report \<Rightarrow> bool" where
  "wf_report r \<longleftrightarrow> length (vr_findings r) \<le> 512 \<and> list_all wf_finding (vr_findings r)"

lemma exact_report: "exact decode_report (\<lambda>v out. wf_report v \<and> out = encode_validate_response v)"
  unfolding decode_report_def[abs_def]
  by (rule exact_cong, (rule exact_wf_list[OF exact_finding] exact_rules)+)
    (case_tac v, auto simp: encode_validate_response_def wf_report_def)

interpretation hello_codec: exact_codec "element read_hello" "\<lambda>v. encode_hello (fst v) (snd v)" "\<lambda>_. True"
  by unfold_locales (rule exact_hello)

interpretation hello_ack_codec: exact_codec "element read_hello_ack" encode_hello_ack "\<lambda>_. True"
  by unfold_locales (rule exact_hello_ack)

interpretation error_codec: exact_codec "element read_error_payload" encode_error_payload wf_error
  by unfold_locales (rule exact_error)

interpretation result_codec: exact_codec "decode_result l" encode_plan_response "wf_result l" for l
  by unfold_locales (rule exact_result)

interpretation validate_request_codec: exact_codec "decode_validate_body l" encode_validate_request
    "\<lambda>v. wf_request l (fst v) \<and> wf_plan l (snd v)" for l
  by unfold_locales (rule exact_validate_body)

interpretation report_codec: exact_codec decode_report encode_validate_response wf_report
  by unfold_locales (rule exact_report)

interpretation plan_digest_codec: exact_codec "decode_plan_digest l" encode_plan_digest "wf_plan l" for l
  by unfold_locales (rule exact_plan_digest)

section \<open>Properties\<close>

text \<open>C21. The message decoders are exact: a payload decodes to a hello nonce, an acknowledgement, an
  error, a planning request, a planning result, a validation request or a validation report precisely
  when it is the encoding of that message and the message is within the protocol's bounds. A planning
  request is accepted only if its definition passes validation. No payload has two readings and no
  truncated, extended or out-of-domain payload is accepted.\<close>

theorem payload_decoders_exact:
  "(decode_hello bs = Inr nonce \<longleftrightarrow> nonce \<noteq> 0 \<and> (\<exists>features. bs = encode_hello nonce features)) \<and>
   (decode_hello_ack bs = Inr ack \<longleftrightarrow> ha_session ack \<noteq> 0 \<and> ha_next_sequence ack \<noteq> 0 \<and> bs = encode_hello_ack ack) \<and>
   (decode_error_payload bs = Inr er \<longleftrightarrow> wf_error er \<and> bs = encode_error_payload er) \<and>
   (decode_plan_request_payload bs pl = Inr rq \<longleftrightarrow> wf_request (pt_model pl) rq \<and>
      bs = encode_plan_request_payload rq \<and> check_definition (rq_definition rq) (pt_model pl) = None \<and>
      length (df_actions (rq_definition rq)) \<le> unat (pt_max_records_per_message pl)) \<and>
   (decode_plan_response bs pl = Inr rs \<longleftrightarrow> wf_result (pt_model pl) rs \<and> bs = encode_plan_response rs) \<and>
   (decode_validate_request bs pl = Inr (rq, p) \<longleftrightarrow> wf_request (pt_model pl) rq \<and> wf_plan (pt_model pl) p \<and>
      bs = encode_validate_request (rq, p)) \<and>
   (decode_validate_response bs = Inr rp \<longleftrightarrow> wf_report rp \<and> bs = encode_validate_response rp)"
proof -
  have hello: "decode_hello bs = Inr nonce \<longleftrightarrow>
      (\<exists>features. decode_whole (element read_hello) bs = Inr (nonce, features)) \<and> nonce \<noteq> 0"
    by (auto simp: decode_hello_def split: sum.splits if_splits)
  have ack: "decode_hello_ack bs = Inr ack \<longleftrightarrow>
      decode_whole (element read_hello_ack) bs = Inr ack \<and> ha_session ack \<noteq> 0 \<and> ha_next_sequence ack \<noteq> 0"
    by (auto simp: decode_hello_ack_def split: sum.splits if_splits)
  have req: "decode_plan_request_payload bs pl = Inr rq \<longleftrightarrow>
      decode_whole (decode_request_body (pt_model pl)) bs = Inr rq \<and>
      check_definition (rq_definition rq) (pt_model pl) = None \<and>
      length (df_actions (rq_definition rq)) \<le> unat (pt_max_records_per_message pl)"
    by (auto simp: decode_plan_request_payload_def validate_definition_def Let_def status_ok_def success_def
        status_error_def not_less split: sum.splits option.splits if_splits)
  show ?thesis
    unfolding hello ack req decode_error_payload_def decode_plan_response_def decode_validate_request_def
      decode_validate_response_def encode_plan_request_payload_def hello_codec.decode_whole_iff
      hello_ack_codec.decode_whole_iff error_codec.decode_whole_iff request_codec.decode_whole_iff
      result_codec.decode_whole_iff validate_request_codec.decode_whole_iff report_codec.decode_whole_iff
    by auto
qed

text \<open>A committed plan survives the journal with its digest: unlike \<open>decode_plan\<close>, the record decoder
  returns the plan that was written, and accepts nothing but such records.\<close>

lemma plan_record_exact:
  "decode_plan_record bs = Inr p \<longleftrightarrow> wf_plan default_model_limits p \<and> bs = encode_plan_record p"
  unfolding decode_plan_record_def plan_digest_codec.decode_whole_iff
  by (simp add: encode_plan_record_def encode_plan_digest_def encode_digest_def)

end
