(* ===== verification/NRP_Session.thy ===== *)
theory NRP_Session
  imports NRP_Ids
begin

text \<open>
  The session registry (\<open>SessionRegistry\<close>, \<open>src/runtime_service.cpp\<close>): sessions are slots of a
  vector, a closed slot is taken again under a new identity. Every operation runs under the mutex of
  the registry, so a history of the registry is a sequence of calls.
\<close>

section \<open>State and operations\<close>

record session_record =
  ssn_id :: strong_id
  ssn_epoch :: epoch
  ssn_boot :: boot_id
  ssn_last_client_sequence :: seqno
  ssn_server_sequence :: seqno
  ssn_client_nonce :: u64
  ssn_active_requests :: u64
  ssn_closed :: bool

record session_registry =
  rg_sessions :: "session_record list"
  rg_max_sessions :: u32
  rg_high_water :: u32
  rg_next_id :: u64

definition new_registry :: "u32 \<Rightarrow> session_registry" where
  "new_registry m = \<lparr>rg_sessions = [], rg_max_sessions = (if m \<noteq> 0 then m else 1), rg_high_water = 0, rg_next_id = 1\<rparr>"

text \<open>The record \<open>create\<close> writes into the slot it found.\<close>

definition fresh_session :: "strong_id \<Rightarrow> epoch \<Rightarrow> boot_id \<Rightarrow> u64 \<Rightarrow> session_record" where
  "fresh_session i e b nonce = \<lparr>ssn_id = i, ssn_epoch = e, ssn_boot = b, ssn_last_client_sequence = 0,
     ssn_server_sequence = 0, ssn_client_nonce = nonce, ssn_active_requests = 0, ssn_closed = False\<rparr>"

definition registry_create :: "epoch \<Rightarrow> boot_id \<Rightarrow> u64 \<Rightarrow> session_registry \<Rightarrow>
    (status + session_record) \<times> session_registry" where
  "registry_create e b nonce g =
     (let r = fresh_session (rg_next_id g) e b nonce in
      case find_index ssn_closed (rg_sessions g) of
        Some i \<Rightarrow> (Inr r, g\<lparr>rg_sessions := (rg_sessions g)[i := r], rg_next_id := rg_next_id g + 1\<rparr>)
      | None \<Rightarrow>
          if length (rg_sessions g) \<ge> unat (rg_max_sessions g)
            then (Inl (status_error SC_EXHAUSTED ''session table is full''), g)
          else let n = length (rg_sessions g) + 1 in
            (Inr r, g\<lparr>rg_sessions := rg_sessions g @ [r],
               rg_high_water := (if n > unat (rg_high_water g) then of_nat n else rg_high_water g),
               rg_next_id := rg_next_id g + 1\<rparr>))"

definition not_established :: status where
  "not_established = status_error SC_NOT_FOUND ''session is not established''"

definition open_session :: "strong_id \<Rightarrow> session_record \<Rightarrow> bool" where
  "open_session i r \<longleftrightarrow> ssn_id r = i \<and> \<not> ssn_closed r"

definition registry_accept :: "strong_id \<Rightarrow> epoch \<Rightarrow> boot_id \<Rightarrow> seqno \<Rightarrow> session_registry \<Rightarrow>
    status \<times> session_registry" where
  "registry_accept i e b sq g =
     (case find_index (open_session i) (rg_sessions g) of
        None \<Rightarrow> (not_established, g)
      | Some k \<Rightarrow> let r = rg_sessions g ! k in
          if ssn_epoch r \<noteq> e \<or> ssn_boot r \<noteq> b
            then (status_error SC_STATE_MISMATCH ''frame authority does not match the established session'', g)
          else if sq \<le> ssn_last_client_sequence r
            then (status_error SC_STATE_MISMATCH ''frame sequence is not strictly increasing'', g)
          else (success, g\<lparr>rg_sessions := (rg_sessions g)[k := r\<lparr>ssn_last_client_sequence := sq,
                  ssn_active_requests := ssn_active_requests r + 1\<rparr>]\<rparr>))"

definition registry_release :: "strong_id \<Rightarrow> session_registry \<Rightarrow> status \<times> session_registry" where
  "registry_release i g =
     (case find_index (\<lambda>r. ssn_id r = i) (rg_sessions g) of
        None \<Rightarrow> (not_established, g)
      | Some k \<Rightarrow> (success, g\<lparr>rg_sessions := (rg_sessions g)[k :=
          (rg_sessions g ! k)\<lparr>ssn_closed := True, ssn_active_requests := 0\<rparr>]\<rparr>))"

definition registry_get :: "strong_id \<Rightarrow> session_registry \<Rightarrow> status + session_record" where
  "registry_get i g = (case find_index (open_session i) (rg_sessions g) of
       None \<Rightarrow> Inl not_established | Some k \<Rightarrow> Inr (rg_sessions g ! k))"

definition registry_size :: "session_registry \<Rightarrow> u32" where
  "registry_size g = of_nat (length (filter (\<lambda>r. \<not> ssn_closed r) (rg_sessions g)))"

section \<open>Histories\<close>

datatype registry_call =
    Create epoch boot_id u64
  | Accept strong_id epoch boot_id seqno
  | Release strong_id

fun registry_step :: "registry_call \<Rightarrow> session_registry \<Rightarrow> session_registry" where
  "registry_step (Create e b nonce) g = snd (registry_create e b nonce g)"
| "registry_step (Accept i e b sq) g = snd (registry_accept i e b sq g)"
| "registry_step (Release i) g = snd (registry_release i g)"

definition registry_run :: "registry_call list \<Rightarrow> session_registry \<Rightarrow> session_registry" where
  "registry_run calls g = fold registry_step calls g"

section \<open>Invariant\<close>

text \<open>Identities are distinct and below the counter, and the table respects its bound.\<close>

definition registry_ok :: "session_registry \<Rightarrow> bool" where
  "registry_ok g \<longleftrightarrow> distinct (map ssn_id (rg_sessions g)) \<and> (\<forall>r\<in>set (rg_sessions g). ssn_id r < rg_next_id g) \<and>
     length (rg_sessions g) \<le> unat (rg_max_sessions g) \<and> length (rg_sessions g) \<le> unat (rg_high_water g) \<and>
     unat (rg_high_water g) \<le> unat (rg_max_sessions g)"

lemma new_registry_ok: "registry_ok (new_registry m)"
  by (simp add: registry_ok_def new_registry_def)

lemma map_update_same: "f y = f (xs ! k) \<Longrightarrow> map f (xs[k := y]) = map f xs"
  by (simp add: map_update) (metis list_update_id map_update)

lemma registry_keep:
  assumes ok: "registry_ok g" and k: "ssn_id y = ssn_id (rg_sessions g ! k)"
  shows "registry_ok (g\<lparr>rg_sessions := (rg_sessions g)[k := y]\<rparr>)"
proof -
  have ids: "map ssn_id ((rg_sessions g)[k := y]) = map ssn_id (rg_sessions g)" by (rule map_update_same[OF k])
  then have "ssn_id ` set ((rg_sessions g)[k := y]) = ssn_id ` set (rg_sessions g)" by (metis list.set_map)
  moreover have "\<forall>i\<in>ssn_id ` set (rg_sessions g). i < rg_next_id g" using ok by (auto simp: registry_ok_def)
  ultimately have "\<forall>r\<in>set ((rg_sessions g)[k := y]). ssn_id r < rg_next_id g" by blast
  then show ?thesis using ok ids by (simp add: registry_ok_def)
qed

lemma registry_create_ok:
  assumes ok: "registry_ok g" and room: "rg_next_id g < rg_next_id g + 1"
  shows "registry_ok (snd (registry_create e b nonce g))"
proof (cases "find_index ssn_closed (rg_sessions g)")
  case (Some k)
  let ?r = "fresh_session (rg_next_id g) e b nonce"
  have fresh: "rg_next_id g \<notin> set (map ssn_id (rg_sessions g))" using ok by (auto simp: registry_ok_def)
  have "distinct (map ssn_id ((rg_sessions g)[k := ?r]))"
    using ok fresh by (simp add: map_update fresh_session_def registry_ok_def distinct_list_update)
  moreover have "\<forall>r\<in>set ((rg_sessions g)[k := ?r]). ssn_id r < rg_next_id g + 1"
  proof
    fix r assume "r \<in> set ((rg_sessions g)[k := ?r])"
    then consider "r = ?r" | "r \<in> set (rg_sessions g)" using set_update_subset_insert[of "rg_sessions g" k ?r] by blast
    then show "ssn_id r < rg_next_id g + 1"
      using ok room by cases (auto simp: registry_ok_def fresh_session_def intro: less_trans)
  qed
  ultimately show ?thesis using ok Some by (simp add: registry_create_def registry_ok_def Let_def)
next
  case None
  show ?thesis
  proof (cases "length (rg_sessions g) \<ge> unat (rg_max_sessions g)")
    case False
    have "length (rg_sessions g) + 1 < 2 ^ 32" using False unsigned_less[of "rg_max_sessions g", where ?'a = nat] by simp
    moreover have "unat (of_nat n :: u32) = n" if "n < 2 ^ 32" for n using that by (simp add: unat_of_nat)
    ultimately have "unat (of_nat (length (rg_sessions g) + 1) :: u32) = length (rg_sessions g) + 1" by blast
    moreover have "snd (registry_create e b nonce g) =
        g\<lparr>rg_sessions := rg_sessions g @ [fresh_session (rg_next_id g) e b nonce],
          rg_high_water := (if length (rg_sessions g) + 1 > unat (rg_high_water g)
            then of_nat (length (rg_sessions g) + 1) else rg_high_water g), rg_next_id := rg_next_id g + 1\<rparr>"
      using None False by (simp add: registry_create_def Let_def del: find_index_None)
    ultimately show ?thesis
      using False ok room by (auto simp: registry_ok_def fresh_session_def intro: less_trans)
  qed (use None ok in \<open>simp add: registry_create_def Let_def del: find_index_None\<close>)
qed

lemma registry_step_ok:
  assumes "registry_ok g" "rg_next_id g < rg_next_id g + 1"
  shows "registry_ok (registry_step c g)"
proof (cases c)
  case (Create e b nonce)
  with registry_create_ok[OF assms] show ?thesis by simp
next
  case (Accept i e b sq)
  with assms(1) registry_keep[OF assms(1)] show ?thesis
    by (auto simp: registry_accept_def Let_def split: option.split)
next
  case (Release i)
  with assms(1) registry_keep[OF assms(1)] show ?thesis
    by (auto simp: registry_release_def split: option.split)
qed

text \<open>A fact about the last sequence number of a session that later numbers keep, and that no call
  can lose: the identity is never given out again. With \<open>\<lambda>_. False\<close> it says that the session is over.\<close>

definition settled :: "strong_id \<Rightarrow> (seqno \<Rightarrow> bool) \<Rightarrow> session_registry \<Rightarrow> bool" where
  "settled i P g \<longleftrightarrow> i < rg_next_id g \<and>
     (\<forall>r\<in>set (rg_sessions g). open_session i r \<longrightarrow> P (ssn_last_client_sequence r))"

lemma settled_update:
  assumes "settled i P g" "open_session i y \<longrightarrow> P (ssn_last_client_sequence y)"
  shows "settled i P (g\<lparr>rg_sessions := (rg_sessions g)[k := y]\<rparr>)"
  using assms set_update_subset_insert[of "rg_sessions g" k y] by (auto simp: settled_def)

lemma settled_step:
  assumes con: "settled i P g" and room: "rg_next_id g < rg_next_id g + 1"
    and up: "\<And>a b. P a \<Longrightarrow> a < b \<Longrightarrow> P b"
  shows "settled i P (registry_step c g)"
proof (cases c)
  case (Create e b nonce)
  have "\<not> open_session i (fresh_session (rg_next_id g) e b nonce)"
    using con by (auto simp: settled_def open_session_def fresh_session_def)
  then show ?thesis
    using con room set_update_subset_insert[of "rg_sessions g" _ "fresh_session (rg_next_id g) e b nonce"]
    by (fastforce simp: Create registry_create_def Let_def settled_def split: option.split intro: less_trans)
next
  case (Accept j e b sq)
  have "P sq" if "find_index (open_session j) (rg_sessions g) = Some k" "ssn_id (rg_sessions g ! k) = i"
    "\<not> sq \<le> ssn_last_client_sequence (rg_sessions g ! k)" for k
    using that con up find_index_Some[OF that(1)] by (fastforce simp: settled_def open_session_def not_le)
  then show ?thesis
    using con by (auto simp: Accept registry_accept_def Let_def open_session_def split: option.split
        intro!: settled_update)
next
  case (Release j)
  then show ?thesis
    using con by (auto simp: registry_release_def open_session_def split: option.split intro!: settled_update)
qed

section \<open>Accepted sequence numbers\<close>

fun accepted_by :: "strong_id \<Rightarrow> registry_call \<Rightarrow> session_registry \<Rightarrow> seqno list" where
  "accepted_by i (Accept j e b sq) g = (if j = i \<and> status_ok (fst (registry_accept j e b sq g)) then [sq] else [])"
| "accepted_by i _ g = []"

fun accepted_sequences :: "strong_id \<Rightarrow> registry_call list \<Rightarrow> session_registry \<Rightarrow> seqno list" where
  "accepted_sequences i [] g = []"
| "accepted_sequences i (c # cs) g = accepted_by i c g @ accepted_sequences i cs (registry_step c g)"

lemma accept_ok:
  assumes "status_ok (fst (registry_accept i e b sq g))"
  obtains k where "find_index (open_session i) (rg_sessions g) = Some k"
    "ssn_epoch (rg_sessions g ! k) = e" "ssn_boot (rg_sessions g ! k) = b"
    "ssn_last_client_sequence (rg_sessions g ! k) < sq"
  using assms by (auto simp: registry_accept_def Let_def not_established_def split: option.splits if_splits)

lemma next_id_step: "unat (rg_next_id (registry_step c g)) \<le> unat (rg_next_id g) + 1"
proof -
  have "unat (rg_next_id g + 1) \<le> unat (rg_next_id g) + 1" by (simp add: unat_word_ariths)
  then show ?thesis
    by (cases c) (auto simp: registry_create_def registry_accept_def registry_release_def Let_def split: option.split)
qed

lemma next_id_room:
  assumes "unat (g :: u64) + n < 2 ^ 64 - 1" shows "g < g + 1"
  using assms by (simp add: word_less_nat_alt unat_add_no_wrap)

text \<open>From a settled bound on, only numbers above it are accepted.\<close>

lemma accepted_above:
  "settled i ((\<le>) lo) g \<Longrightarrow> unat (rg_next_id g) + length cs < 2 ^ 64 - 1 \<Longrightarrow>
   \<forall>sq\<in>set (accepted_sequences i cs g). lo < sq"
proof (induction cs arbitrary: g)
  case (Cons c cs)
  have room: "rg_next_id g < rg_next_id g + 1" using Cons.prems(2) by (rule next_id_room)
  have "settled i ((\<le>) lo) (registry_step c g)" using Cons.prems(1) room by (rule settled_step) simp
  moreover have "unat (rg_next_id (registry_step c g)) + length cs < 2 ^ 64 - 1"
    using Cons.prems(2) next_id_step[of c g] by simp
  ultimately have later: "\<forall>sq\<in>set (accepted_sequences i cs (registry_step c g)). lo < sq" by (rule Cons.IH)
  have "lo < sq" if acc: "sq \<in> set (accepted_by i c g)" for sq
  proof -
    obtain e b where c: "c = Accept i e b sq" "status_ok (fst (registry_accept i e b sq g))"
      using acc by (cases c) (auto split: if_splits)
    from c(2) obtain k where k: "find_index (open_session i) (rg_sessions g) = Some k"
      "ssn_last_client_sequence (rg_sessions g ! k) < sq" by (rule accept_ok)
    have "lo \<le> ssn_last_client_sequence (rg_sessions g ! k)"
      using find_index_Some[OF k(1)] Cons.prems(1) by (auto simp: settled_def)
    with k(2) show ?thesis by simp
  qed
  with later show ?case by auto
qed simp

lemma accept_settles:
  assumes ok: "registry_ok g" and acc: "status_ok (fst (registry_accept i e b sq g))"
  shows "settled i ((\<le>) sq) (snd (registry_accept i e b sq g))"
proof -
  obtain k where k: "find_index (open_session i) (rg_sessions g) = Some k"
    "ssn_epoch (rg_sessions g ! k) = e" "ssn_boot (rg_sessions g ! k) = b"
    "ssn_last_client_sequence (rg_sessions g ! k) < sq" using acc by (rule accept_ok)
  note kk = find_index_Some[OF k(1)]
  let ?r = "(rg_sessions g ! k)\<lparr>ssn_last_client_sequence := sq, ssn_active_requests := ssn_active_requests (rg_sessions g ! k) + 1\<rparr>"
  have g': "snd (registry_accept i e b sq g) = g\<lparr>rg_sessions := (rg_sessions g)[k := ?r]\<rparr>"
    using k by (simp add: registry_accept_def Let_def)
  have "j = k" if "j < length (rg_sessions g)" "ssn_id (rg_sessions g ! j) = i" for j
    using that kk ok by (metis (no_types, lifting) distinct_conv_nth length_map nth_map open_session_def registry_ok_def)
  moreover have "i < rg_next_id g" using kk ok by (auto simp: registry_ok_def open_session_def)
  ultimately show ?thesis
    unfolding g' settled_def by (auto simp: in_set_conv_nth nth_list_update_if open_session_def split: if_splits)
qed

lemma release_settles:
  assumes ok: "registry_ok g" and rel: "status_ok (fst (registry_release i g))"
  shows "settled i (\<lambda>_. False) (snd (registry_release i g))"
proof -
  obtain k where k: "find_index (\<lambda>r. ssn_id r = i) (rg_sessions g) = Some k"
    using rel by (auto simp: registry_release_def not_established_def split: option.splits)
  note kk = find_index_Some[OF k]
  have "j = k" if "j < length (rg_sessions g)" "ssn_id (rg_sessions g ! j) = i" for j
    using that kk ok by (metis (no_types, lifting) distinct_conv_nth length_map nth_map registry_ok_def)
  moreover have "i < rg_next_id g" using kk ok by (auto simp: registry_ok_def)
  ultimately show ?thesis
    by (auto simp: registry_release_def k settled_def in_set_conv_nth nth_list_update_if open_session_def split: if_splits)
qed

lemma accepted_increasing:
  "registry_ok g \<Longrightarrow> unat (rg_next_id g) + length cs < 2 ^ 64 - 1 \<Longrightarrow>
   sorted_wrt (<) (accepted_sequences i cs g)"
proof (induction cs arbitrary: g)
  case (Cons c cs)
  have room: "rg_next_id g < rg_next_id g + 1" using Cons.prems(2) by (rule next_id_room)
  have len: "unat (rg_next_id (registry_step c g)) + length cs < 2 ^ 64 - 1"
    using Cons.prems(2) next_id_step[of c g] by simp
  have later: "sorted_wrt (<) (accepted_sequences i cs (registry_step c g))"
    by (rule Cons.IH[OF registry_step_ok[OF Cons.prems(1) room] len])
  show ?case
  proof (cases "accepted_by i c g = []")
    case False
    then obtain e b sq where c: "c = Accept i e b sq" "status_ok (fst (registry_accept i e b sq g))"
      by (cases c) (auto split: if_splits)
    have "settled i ((\<le>) sq) (registry_step c g)" using accept_settles[OF Cons.prems(1) c(2)] c(1) by simp
    from accepted_above[OF this len] later c show ?thesis by simp
  qed (use later in simp)
qed simp

lemma accepted_none:
  "settled i (\<lambda>_. False) g \<Longrightarrow> unat (rg_next_id g) + length cs < 2 ^ 64 - 1 \<Longrightarrow> accepted_sequences i cs g = []"
proof (induction cs arbitrary: g)
  case (Cons c cs)
  have room: "rg_next_id g < rg_next_id g + 1" using Cons.prems(2) by (rule next_id_room)
  have "settled i (\<lambda>_. False) (registry_step c g)" using Cons.prems(1) room by (rule settled_step) simp
  then have "accepted_sequences i cs (registry_step c g) = []"
    by (rule Cons.IH) (use Cons.prems(2) next_id_step[of c g] in simp)
  moreover have "accepted_by i c g = []"
  proof (rule ccontr)
    assume "accepted_by i c g \<noteq> []"
    then obtain e b sq where "status_ok (fst (registry_accept i e b sq g))" by (cases c) (auto split: if_splits)
    then obtain k where "find_index (open_session i) (rg_sessions g) = Some k" by (rule accept_ok)
    from find_index_Some[OF this] Cons.prems(1) show False by (auto simp: settled_def)
  qed
  ultimately show ?case by simp
qed simp

lemma registry_run_ok:
  "registry_ok g \<Longrightarrow> unat (rg_next_id g) + length cs < 2 ^ 64 - 1 \<Longrightarrow>
   registry_ok (registry_run cs g) \<and> unat (rg_next_id (registry_run cs g)) \<le> unat (rg_next_id g) + length cs"
proof (induction cs arbitrary: g)
  case (Cons c cs)
  have room: "rg_next_id g < rg_next_id g + 1" using Cons.prems(2) by (rule next_id_room)
  have "unat (rg_next_id (registry_step c g)) + length cs < 2 ^ 64 - 1"
    using Cons.prems(2) next_id_step[of c g] by simp
  note IH = Cons.IH[OF registry_step_ok[OF Cons.prems(1) room] this]
  then show ?case using next_id_step[of c g] by (simp add: registry_run_def)
qed (simp add: registry_run_def)

section \<open>Properties\<close>

text \<open>Frames cannot be replayed into a session. In every history of the registry the sequence
  numbers accepted for a session identity strictly increase; once the session is released nothing is
  accepted for it any more, although its slot is given to later sessions; and the table never holds
  more records than its bound. Histories of up to \<open>2 ^ 64\<close> calls, so that identities do not repeat.\<close>

theorem session_authority:
  assumes len: "length before + length after < 2 ^ 64 - 2"
  shows "sorted_wrt (<) (accepted_sequences i before (new_registry m)) \<and>
    (status_ok (fst (registry_release i (registry_run before (new_registry m)))) \<longrightarrow>
       accepted_sequences i after (snd (registry_release i (registry_run before (new_registry m)))) = []) \<and>
    length (rg_sessions (registry_run before (new_registry m))) \<le> unat (rg_max_sessions (registry_run before (new_registry m)))"
proof -
  let ?g = "registry_run before (new_registry m)"
  have next0: "unat (rg_next_id (new_registry m)) = 1" by (simp add: new_registry_def)
  have run: "registry_ok ?g" "unat (rg_next_id ?g) \<le> 1 + length before"
    using registry_run_ok[OF new_registry_ok, of m before] next0 len by simp_all
  have "accepted_sequences i after (snd (registry_release i ?g)) = []" if "status_ok (fst (registry_release i ?g))"
  proof (rule accepted_none[OF release_settles[OF run(1) that]])
    have "rg_next_id (snd (registry_release i ?g)) = rg_next_id ?g" by (simp add: registry_release_def split: option.split)
    then show "unat (rg_next_id (snd (registry_release i ?g))) + length after < 2 ^ 64 - 1" using run(2) len by simp
  qed
  moreover have "sorted_wrt (<) (accepted_sequences i before (new_registry m))"
    by (rule accepted_increasing[OF new_registry_ok]) (use next0 len in simp)
  ultimately show ?thesis using run(1) by (simp add: registry_ok_def)
qed

definition sample_calls :: "registry_call list" where
  "sample_calls = [Create 1 1 9, Accept 1 1 1 5, Accept 1 1 1 5, Accept 1 1 1 7]"

theorem session_authority_witness:
  "accepted_sequences 1 sample_calls (new_registry 1) = [5, 7] \<and>
   sorted_wrt (<) (accepted_sequences 1 sample_calls (new_registry 1)) \<and>
   accepted_sequences 1 [Create 1 1 10, Accept 1 1 1 8]
     (snd (registry_release 1 (registry_run sample_calls (new_registry 1)))) = []"
proof -
  have "accepted_sequences 1 sample_calls (new_registry 1) = [5, 7]"
    by (simp add: sample_calls_def new_registry_def registry_create_def registry_accept_def fresh_session_def
        open_session_def Let_def not_established_def)
  moreover have "status_ok (fst (registry_release 1 (registry_run sample_calls (new_registry 1))))"
    by (simp add: registry_run_def sample_calls_def new_registry_def registry_create_def registry_accept_def
        registry_release_def fresh_session_def open_session_def Let_def not_established_def)
  moreover have "length sample_calls + length [Create 1 1 10, Accept 1 1 1 8] < 2 ^ 64 - 2" by (simp add: sample_calls_def)
  ultimately show ?thesis
    using session_authority[of sample_calls "[Create 1 1 10, Accept 1 1 1 8]" 1 1] by blast
qed

end
