(* ===== verification/NRP_Service.thy ===== *)
theory NRP_Service
  imports NRP_Protocol NRP_Validate NRP_Session NRP_Store_Correct
begin

text \<open>
  The worker service (\<open>PlannerService\<close>, \<open>src/runtime_service.cpp\<close>). Every access to shared state runs
  under one mutex of the service (queue, durable store or job slot), and no two of them are held at
  the same time: a critical section is one atomic step here, and the steps of all threads interleave
  freely. A worker is in one of the phases between two critical sections of \<open>worker_loop\<close>. Answers of
  the file system are arguments; \<open>crash_now\<close> sets \<open>sy_crashed\<close>, after which no step is taken and only
  the disk counts. A waiting caller and a callback are both a ticket; what they receive is an entry of
  \<open>sy_delivered\<close>, which pairs the job with its outcome.
\<close>

section \<open>Configuration\<close>

datatype crash_point =
    CP_NONE | CP_AFTER_ATTEMPT_APPEND_BEFORE_FLUSH | CP_AFTER_COMMIT_BEFORE_PUBLISH
  | CP_AFTER_PUBLISH_BEFORE_ACK | CP_COUNT

primrec raw_crash_point :: "crash_point \<Rightarrow> u8" where
  "raw_crash_point CP_NONE = 0"
| "raw_crash_point CP_AFTER_ATTEMPT_APPEND_BEFORE_FLUSH = 1"
| "raw_crash_point CP_AFTER_COMMIT_BEFORE_PUBLISH = 2"
| "raw_crash_point CP_AFTER_PUBLISH_BEFORE_ACK = 3"
| "raw_crash_point CP_COUNT = 4"

definition valid_crash_point :: "crash_point \<Rightarrow> bool" where
  "valid_crash_point p \<longleftrightarrow> raw_crash_point p < raw_crash_point CP_COUNT"

primrec crash_point_name :: "crash_point \<Rightarrow> string" where
  "crash_point_name CP_NONE = ''NONE''"
| "crash_point_name CP_AFTER_ATTEMPT_APPEND_BEFORE_FLUSH = ''AFTER_ATTEMPT_APPEND_BEFORE_FLUSH''"
| "crash_point_name CP_AFTER_COMMIT_BEFORE_PUBLISH = ''AFTER_COMMIT_BEFORE_PUBLISH''"
| "crash_point_name CP_AFTER_PUBLISH_BEFORE_ACK = ''AFTER_PUBLISH_BEFORE_ACK''"
| "crash_point_name CP_COUNT = ''COUNT''"

definition parse_crash_point :: "string \<Rightarrow> status + crash_point" where
  "parse_crash_point t =
     (if t = [] \<or> t = ''NONE'' then Inr CP_NONE
      else if t = ''AFTER_ATTEMPT_APPEND_BEFORE_FLUSH'' then Inr CP_AFTER_ATTEMPT_APPEND_BEFORE_FLUSH
      else if t = ''AFTER_COMMIT_BEFORE_PUBLISH'' then Inr CP_AFTER_COMMIT_BEFORE_PUBLISH
      else if t = ''AFTER_PUBLISH_BEFORE_ACK'' then Inr CP_AFTER_PUBLISH_BEFORE_ACK
      else Inl (status_error SC_INVALID_ARGUMENT (''unknown crash point: '' @ t)))"

record service_config =
  cf_model_limits :: model_limits
  cf_protocol_limits :: protocol_limits
  cf_store_limits :: store_limits
  cf_worker_threads :: u32
  cf_max_queue_depth :: u32
  cf_max_sessions :: u32
  cf_crash_point :: crash_point
  cf_persist :: bool

definition default_service_config :: service_config where
  "default_service_config = \<lparr>cf_model_limits = default_model_limits, cf_protocol_limits = default_protocol_limits,
     cf_store_limits = default_store_limits, cf_worker_threads = 4, cf_max_queue_depth = 256, cf_max_sessions = 64,
     cf_crash_point = CP_NONE, cf_persist = True\<rparr>"

record service_stats =
  ct_requests_accepted :: u64
  ct_requests_completed :: u64
  ct_requests_rejected :: u64
  ct_requests_refused_exhausted :: u64
  ct_plans_found :: u64
  ct_plans_infeasible :: u64
  ct_plans_indeterminate :: u64
  ct_validations_run :: u64
  ct_queue_high_water :: u64

definition zero_service_stats :: service_stats where
  "zero_service_stats = \<lparr>ct_requests_accepted = 0, ct_requests_completed = 0, ct_requests_rejected = 0,
     ct_requests_refused_exhausted = 0, ct_plans_found = 0, ct_plans_infeasible = 0, ct_plans_indeterminate = 0,
     ct_validations_run = 0, ct_queue_high_water = 0\<rparr>"

section \<open>State\<close>

text \<open>A planning job or a validation job, with the ticket of its waiter.\<close>

datatype job_task = Task_plan plan_request | Task_validate plan_request recovery_plan

record job =
  jb_task :: job_task
  jb_ticket :: nat

datatype job_outcome = Out_plan planning_result | Out_report validation_report | Out_error status

datatype worker =
    W_idle
  | W_taken job
  | W_planning job
  | W_ready job job_outcome
  | W_exited

record service =
  sy_config :: service_config
  sy_store :: "store option"
  sy_disk :: disk
  sy_last_durable :: u64
  sy_epoch :: u64
  sy_boot :: u64
  sy_registry :: session_registry
  sy_queue :: "job list"
  sy_stopping :: bool
  sy_pending :: "job list"
  sy_workers :: "worker list"
  sy_stats :: service_stats
  sy_delivered :: "(job \<times> job_outcome) list"
  sy_next_ticket :: nat
  sy_crashed :: bool

definition service_start :: "service_config \<Rightarrow> string \<Rightarrow> open_env \<Rightarrow> disk \<Rightarrow> (status + service) \<times> disk" where
  "service_start cf path env dk =
     (let up = (\<lambda>store dk sq e b. \<lparr>sy_config = cf, sy_store = store, sy_disk = dk, sy_last_durable = sq, sy_epoch = e,
          sy_boot = b, sy_registry = new_registry (if cf_max_sessions cf \<noteq> 0 then cf_max_sessions cf else 1),
          sy_queue = [], sy_stopping = False, sy_pending = [],
          sy_workers = replicate (unat (if cf_worker_threads cf = 0 then 1 else cf_worker_threads cf)) W_idle,
          sy_stats = zero_service_stats, sy_delivered = [], sy_next_ticket = 0, sy_crashed = False\<rparr>) in
      if cf_persist cf \<and> path \<noteq> [] then
        (case open_store path env \<lparr>op_limits = cf_store_limits cf, op_model_limits = cf_model_limits cf,
             op_create_if_missing = True, op_advance_epoch = True\<rparr> dk of
           (Inl e, dk) \<Rightarrow> (Inl e, dk)
         | (Inr st, dk) \<Rightarrow> (Inr (up (Some st) dk (st_last_sequence st) (st_epoch st) (st_boot st)), dk))
      else (Inr (up None dk 0 1 1), dk))"

section \<open>Running a job\<close>

definition append_durable_record :: "write_env \<Rightarrow> record_type \<Rightarrow> bytes \<Rightarrow> service \<Rightarrow> status \<times> service" where
  "append_durable_record w t payload s =
     (case sy_store s of
        None \<Rightarrow> (success, s)
      | Some st \<Rightarrow> (case store_append w t payload True (st, sy_disk s) of
          (Inl e, st, dk) \<Rightarrow> (e, s\<lparr>sy_store := Some st, sy_disk := dk\<rparr>)
        | (Inr _, st, dk) \<Rightarrow> (success, s\<lparr>sy_store := Some st, sy_disk := dk, sy_last_durable := st_last_sequence st\<rparr>)))"

definition blank_result :: "plan_request \<Rightarrow> plan_decision \<Rightarrow> digest \<Rightarrow> explanation \<Rightarrow> planning_result" where
  "blank_result r d g x = \<lparr>pr_decision = d, pr_request = rq_id r, pr_epoch = rq_epoch r, pr_boot = rq_boot r,
     pr_attempt = rq_attempt r, pr_plan = None, pr_certificate = None, pr_stats = zero_stats,
     pr_unresolved_subjects = [], pr_explanations = [x], pr_request_digest = g\<rparr>"

definition plain_note :: "reason_code \<Rightarrow> string \<Rightarrow> explanation" where
  "plain_note c t = \<lparr>ex_code = c, ex_subject = no_subject, ex_detail_a = 0, ex_detail_b = 0, ex_text = t\<rparr>"

definition fenced_result :: "service \<Rightarrow> plan_request \<Rightarrow> planning_result" where
  "fenced_result s r = blank_result r PD_REJECTED_FENCED (request_digest r) (plain_note RC_REQUEST_FENCED_BY_EPOCH
     (''request is scoped to coordinator epoch '' @ dec_string (unat (rq_epoch r)) @ '' boot '' @
      dec_string (unat (rq_boot r)) @ '' but this incarnation is epoch '' @ dec_string (unat (sy_epoch s)) @
      '' boot '' @ dec_string (unat (sy_boot s))))"

definition attempt_payload :: "plan_request \<Rightarrow> bytes" where
  "attempt_payload r = w_u64 (rq_id r) @ w_u64 (rq_attempt r) @ w_u64 (rq_epoch r) @ w_u64 (rq_boot r) @
     w_u64 (dg_hi (request_digest r)) @ w_u64 (dg_lo (request_digest r))"

datatype begun = Begun_rejected planning_result | Begun_planning | Begun_crash

text \<open>\<open>run_plan\<close> up to the durable attempt record.\<close>

definition begin_plan :: "write_env \<Rightarrow> plan_request \<Rightarrow> service \<Rightarrow> begun \<times> service" where
  "begin_plan w r s =
     (if rq_epoch r \<noteq> sy_epoch s \<or> rq_boot r \<noteq> sy_boot s then (Begun_rejected (fenced_result s r), s)
      else if sy_store s \<noteq> None \<and> cf_crash_point (sy_config s) = CP_AFTER_ATTEMPT_APPEND_BEFORE_FLUSH then
        (case store_append w RT_ATTEMPT (attempt_payload r) False (the (sy_store s), sy_disk s) of
           (_, st, dk) \<Rightarrow> (Begun_crash, s\<lparr>sy_store := Some st, sy_disk := dk, sy_crashed := True\<rparr>))
      else case append_durable_record w RT_ATTEMPT (attempt_payload r) s of
          (e, s) \<Rightarrow> if \<not> status_ok e
            then (Begun_rejected (blank_result r PD_REJECTED_EXHAUSTED zero_digest
                    (plain_note RC_PERSISTENCE_INTEGRITY_FAILURE (status_to_string e))), s)
            else (Begun_planning, s))"

definition outcome_record :: "planning_result \<Rightarrow> record_type \<times> bytes" where
  "outcome_record res = (case pr_plan res of
       Some p \<Rightarrow> (RT_COMMITTED_PLAN, encode_plan_record p)
     | None \<Rightarrow> (RT_INFEASIBILITY, w_u64 (pr_request res) @ w_u8 (raw_plan_decision (pr_decision res)) @
         w_u64 (ss_nodes_expanded (pr_stats res)) @ w_u64 (ss_nodes_generated (pr_stats res)) @
         w_u64 (dg_hi (pr_request_digest res)) @ w_u64 (dg_lo (pr_request_digest res))))"

text \<open>The rest of \<open>run_plan\<close>: \<open>None\<close> when the process dies after the commit.\<close>

definition commit_outcome :: "write_env \<Rightarrow> planning_result \<Rightarrow> service \<Rightarrow> planning_result option \<times> service" where
  "commit_outcome w res s =
     (case outcome_record res of (t, payload) \<Rightarrow>
      case append_durable_record w t payload s of (e, s) \<Rightarrow>
      if \<not> status_ok e
        then (Some (res\<lparr>pr_decision := PD_REJECTED_EXHAUSTED, pr_plan := None, pr_certificate := None,
                pr_explanations := pr_explanations res @
                  [plain_note RC_PERSISTENCE_INTEGRITY_FAILURE (status_to_string e)]\<rparr>), s)
      else if cf_crash_point (sy_config s) = CP_AFTER_COMMIT_BEFORE_PUBLISH
        then (None, s\<lparr>sy_crashed := True\<rparr>)
      else (Some res, s))"

definition run_plan :: "write_env \<Rightarrow> write_env \<Rightarrow> plan_request \<Rightarrow> service \<Rightarrow> planning_result option \<times> service" where
  "run_plan w1 w2 r s = (case begin_plan w1 r s of
       (Begun_rejected res, s) \<Rightarrow> (Some res, s)
     | (Begun_crash, s) \<Rightarrow> (None, s)
     | (Begun_planning, s) \<Rightarrow> commit_outcome w2 (plan (cf_model_limits (sy_config s)) r) s)"

definition lineage_payload :: "plan_request \<Rightarrow> recovery_plan \<Rightarrow> validation_report \<Rightarrow> bytes" where
  "lineage_payload r p report = w_u64 (rq_id r) @ w_u64 (dg_hi (pl_plan_digest p)) @ w_u64 (dg_lo (pl_plan_digest p)) @
     w_boolean (vr_valid report)"

definition run_validate :: "write_env \<Rightarrow> plan_request \<Rightarrow> recovery_plan \<Rightarrow> service \<Rightarrow> validation_report \<times> service" where
  "run_validate w r p s =
     (let report = validate_plan r p in
      (report, if sy_store s \<noteq> None
         then snd (append_durable_record w RT_EVIDENCE_LINEAGE (lineage_payload r p report) s) else s))"

section \<open>Submission\<close>

text \<open>The critical section of \<open>plan\<close>, \<open>validate\<close> and \<open>submit_plan\<close>; \<open>validate\<close> alone does not record
  the high-water mark of the queue.\<close>

definition enqueue :: "bool \<Rightarrow> job_task \<Rightarrow> service \<Rightarrow> status \<times> service" where
  "enqueue marks task s =
     (if sy_stopping s then (status_error SC_CLOSED ''service is shutting down'', s)
      else if length (sy_queue s) \<ge> unat (cf_max_queue_depth (sy_config s))
        then (status_error SC_EXHAUSTED ''work queue is full'',
              s\<lparr>sy_stats := (sy_stats s)\<lparr>ct_requests_refused_exhausted := ct_requests_refused_exhausted (sy_stats s) + 1\<rparr>\<rparr>)
      else let q = sy_queue s @ [\<lparr>jb_task = task, jb_ticket = sy_next_ticket s\<rparr>] in
        (success, s\<lparr>sy_queue := q, sy_next_ticket := sy_next_ticket s + 1,
           sy_stats := (sy_stats s)\<lparr>ct_requests_accepted := ct_requests_accepted (sy_stats s) + 1,
             ct_queue_high_water := (if marks \<and> length q > unat (ct_queue_high_water (sy_stats s))
               then of_nat (length q) else ct_queue_high_water (sy_stats s))\<rparr>\<rparr>))"

definition service_plan :: "plan_request \<Rightarrow> service \<Rightarrow> status \<times> service" where
  "service_plan r s = enqueue True (Task_plan r) s"

definition service_validate :: "plan_request \<Rightarrow> recovery_plan \<Rightarrow> service \<Rightarrow> status \<times> service" where
  "service_validate r p s = enqueue False (Task_validate r p) s"

definition submit_plan :: "plan_request \<Rightarrow> service \<Rightarrow> status \<times> service" where
  "submit_plan r s = enqueue True (Task_plan r) s"

section \<open>Workers\<close>

definition deliver :: "job \<Rightarrow> job_outcome \<Rightarrow> service \<Rightarrow> service" where
  "deliver j out s = s\<lparr>sy_delivered := sy_delivered s @ [(j, out)]\<rparr>"

definition set_worker :: "nat \<Rightarrow> worker \<Rightarrow> service \<Rightarrow> service" where
  "set_worker i w s = s\<lparr>sy_workers := (sy_workers s)[i := w]\<rparr>"

definition worker_at :: "nat \<Rightarrow> service \<Rightarrow> worker" where
  "worker_at i s = (if i < length (sy_workers s) then sy_workers s ! i else W_exited)"

text \<open>The wait at the head of the loop: a job, or the exit.\<close>

definition take_job :: "nat \<Rightarrow> service \<Rightarrow> service option" where
  "take_job i s = (if worker_at i s \<noteq> W_idle then None
     else case sy_queue s of
        j # q \<Rightarrow> Some (set_worker i (W_taken j) (s\<lparr>sy_queue := q\<rparr>))
      | [] \<Rightarrow> if sy_stopping s then Some (set_worker i W_exited s) else None)"

definition begin_job :: "write_env \<Rightarrow> nat \<Rightarrow> service \<Rightarrow> service option" where
  "begin_job w i s = (case worker_at i s of
       W_taken j \<Rightarrow> Some (case jb_task j of
          Task_plan r \<Rightarrow> (case begin_plan w r s of
             (Begun_rejected res, s) \<Rightarrow> set_worker i (W_ready j (Out_plan res)) s
           | (Begun_planning, s) \<Rightarrow> set_worker i (W_planning j) s
           | (Begun_crash, s) \<Rightarrow> s)
        | Task_validate r p \<Rightarrow> (case run_validate w r p s of
             (report, s) \<Rightarrow> set_worker i (W_ready j (Out_report report)) s))
     | _ \<Rightarrow> None)"

definition finish_job :: "write_env \<Rightarrow> nat \<Rightarrow> service \<Rightarrow> service option" where
  "finish_job w i s = (case worker_at i s of
       W_planning j \<Rightarrow> (case jb_task j of
          Task_plan r \<Rightarrow> Some (case commit_outcome w (plan (cf_model_limits (sy_config s)) r) s of
             (Some res, s) \<Rightarrow> set_worker i (W_ready j (Out_plan res)) s
           | (None, s) \<Rightarrow> s)
        | Task_validate _ _ \<Rightarrow> None)
     | _ \<Rightarrow> None)"

definition count_plan :: "planning_result \<Rightarrow> service_stats \<Rightarrow> service_stats" where
  "count_plan res c =
     (let c = c\<lparr>ct_requests_completed := ct_requests_completed c + 1\<rparr> in
      case pr_decision res of
        PD_PLAN_FOUND \<Rightarrow> c\<lparr>ct_plans_found := ct_plans_found c + 1\<rparr>
      | PD_PROVEN_INFEASIBLE \<Rightarrow> c\<lparr>ct_plans_infeasible := ct_plans_infeasible c + 1\<rparr>
      | PD_INDETERMINATE_SEARCH_LIMIT \<Rightarrow> c\<lparr>ct_plans_indeterminate := ct_plans_indeterminate c + 1\<rparr>
      | PD_INDETERMINATE_INCOMPLETE_EVIDENCE \<Rightarrow> c\<lparr>ct_plans_indeterminate := ct_plans_indeterminate c + 1\<rparr>
      | _ \<Rightarrow> c\<lparr>ct_requests_rejected := ct_requests_rejected c + 1\<rparr>)"

definition publish_job :: "nat \<Rightarrow> service \<Rightarrow> service option" where
  "publish_job i s = (case worker_at i s of
       W_ready j out \<Rightarrow> Some (case out of
          Out_plan res \<Rightarrow> (let s = deliver j out (set_worker i W_idle (s\<lparr>sy_stats := count_plan res (sy_stats s)\<rparr>)) in
            if cf_crash_point (sy_config s) = CP_AFTER_PUBLISH_BEFORE_ACK then s\<lparr>sy_crashed := True\<rparr> else s)
        | _ \<Rightarrow> deliver j out (set_worker i W_idle
            (s\<lparr>sy_stats := (sy_stats s)\<lparr>ct_validations_run := ct_validations_run (sy_stats s) + 1\<rparr>\<rparr>)))
     | _ \<Rightarrow> None)"

section \<open>Shutdown\<close>

definition shutdown_begin :: "service \<Rightarrow> service" where
  "shutdown_begin s = s\<lparr>sy_stopping := True, sy_pending := sy_pending s @ sy_queue s, sy_queue := []\<rparr>"

definition shutdown_drain :: "service \<Rightarrow> service option" where
  "shutdown_drain s = (case sy_pending s of
       [] \<Rightarrow> None
     | j # js \<Rightarrow> Some (deliver j (Out_error (status_error SC_CLOSED ''service shut down before the job ran''))
         (s\<lparr>sy_pending := js\<rparr>)))"

text \<open>Joining the workers and closing the store.\<close>

definition shutdown_finish :: "commit_env \<Rightarrow> service \<Rightarrow> service option" where
  "shutdown_finish c s =
     (if \<not> sy_stopping s \<or> sy_pending s \<noteq> [] \<or> \<not> list_all (\<lambda>w. w = W_exited) (sy_workers s) \<or>
         sy_workers s = [] \<and> sy_store s = None then None
      else Some (case sy_store s of
          None \<Rightarrow> s\<lparr>sy_workers := []\<rparr>
        | Some st \<Rightarrow> (case commit_snapshot c (st, sy_disk s) of
            (_, _, dk) \<Rightarrow> s\<lparr>sy_workers := [], sy_store := None, sy_disk := dk\<rparr>)))"

section \<open>Interleavings\<close>

text \<open>What the threads of the service do on their own.\<close>

inductive internal_step :: "service \<Rightarrow> service \<Rightarrow> bool" where
  take: "\<not> sy_crashed s \<Longrightarrow> take_job i s = Some s' \<Longrightarrow> internal_step s s'"
| begin_work: "\<not> sy_crashed s \<Longrightarrow> begin_job w i s = Some s' \<Longrightarrow> internal_step s s'"
| finish_work: "\<not> sy_crashed s \<Longrightarrow> finish_job w i s = Some s' \<Longrightarrow> internal_step s s'"
| publish_work: "\<not> sy_crashed s \<Longrightarrow> publish_job i s = Some s' \<Longrightarrow> internal_step s s'"
| drain: "\<not> sy_crashed s \<Longrightarrow> shutdown_drain s = Some s' \<Longrightarrow> internal_step s s'"
| close: "\<not> sy_crashed s \<Longrightarrow> shutdown_finish c s = Some s' \<Longrightarrow> internal_step s s'"

text \<open>What callers do.\<close>

inductive client_step :: "service \<Rightarrow> service \<Rightarrow> bool" where
  submit: "\<not> sy_crashed s \<Longrightarrow> client_step s (snd (enqueue marks task s))"
| shutdown: "\<not> sy_crashed s \<Longrightarrow> client_step s (shutdown_begin s)"

inductive reachable_service :: "service \<Rightarrow> bool" where
  start: "service_start cf path env dk = (Inr s, dk') \<Longrightarrow> reachable_service s"
| internal: "reachable_service s \<Longrightarrow> internal_step s s' \<Longrightarrow> reachable_service s'"
| client: "reachable_service s \<Longrightarrow> client_step s s' \<Longrightarrow> reachable_service s'"

end
