(* ===== verification/NRP_Server.thy ===== *)
theory NRP_Server
  imports NRP_Wire NRP_Service
begin

text \<open>
  The framed server (\<open>PlanningServer\<close>, \<open>src/runtime_server.cpp\<close>). A connection thread is a state
  machine: it fills its buffer, serves one frame, or waits for the service. One iteration of \<open>serve\<close> is
  one step, up to the point where the thread blocks in \<open>plan\<close> or \<open>validate\<close>, which is a state of its
  own with the job it waits for. What a socket receives and whether a send succeeds are arguments.
  \<open>cx_sent\<close> holds the byte strings given to \<open>send_all\<close>; connections that have ended stay in the list.
\<close>

section \<open>State\<close>

record connection =
  cx_buffer :: bytes
  cx_session :: strong_id
  cx_server_sequence :: seqno
  cx_handshake_complete :: bool
  cx_waiting :: "job option"
  cx_open :: bool
  cx_sent :: "bytes list"

definition new_connection :: connection where
  "new_connection = \<lparr>cx_buffer = [], cx_session = 0, cx_server_sequence = 0, cx_handshake_complete = False,
     cx_waiting = None, cx_open = True, cx_sent = []\<rparr>"

record server_stats =
  vs_connections_accepted :: u64
  vs_connections_rejected :: u64
  vs_frames_received :: u64
  vs_frames_rejected :: u64
  vs_sticky_failures :: u64

record server =
  sv_service :: service
  sv_max_sessions :: u32
  sv_limits :: protocol_limits
  sv_epoch :: epoch
  sv_boot :: boot_id
  sv_port :: u16
  sv_stopping :: bool
  sv_sessions :: session_registry
  sv_connections :: "connection list"
  sv_stats :: server_stats

definition map_status :: "status \<Rightarrow> error_code \<times> reason_code" where
  "map_status e = (case st_code e of
       SC_PROTOCOL_ERROR \<Rightarrow> (EC_DECODE_REJECTED, RC_PROTOCOL_DECODE_REJECTED)
     | SC_UNSUPPORTED \<Rightarrow> (EC_UNSUPPORTED_REQUEST, RC_REQUEST_UNSUPPORTED_PROBLEM)
     | SC_OUT_OF_RANGE \<Rightarrow> (EC_FRAME_TOO_LARGE, RC_PROTOCOL_FRAME_TOO_LARGE)
     | SC_STATE_MISMATCH \<Rightarrow> (EC_SEQUENCE_REGRESSION, RC_PROTOCOL_SEQUENCE_REGRESSION)
     | SC_EXHAUSTED \<Rightarrow> (EC_QUEUE_LIMIT, RC_QUEUE_LIMIT_REACHED)
     | SC_CLOSED \<Rightarrow> (EC_SHUTTING_DOWN, RC_SHUTDOWN_REQUESTED)
     | _ \<Rightarrow> (EC_DECODE_REJECTED, RC_PROTOCOL_DECODE_REJECTED))"

section \<open>Sending\<close>

definition send_frame :: "server \<Rightarrow> frame_type \<Rightarrow> strong_id \<Rightarrow> seqno \<Rightarrow> bytes \<Rightarrow> connection \<Rightarrow> connection" where
  "send_frame s t session sequence payload c =
     c\<lparr>cx_sent := cx_sent c @ [encode_frame t session (sv_epoch s) (sv_boot s) sequence payload]\<rparr>"

definition send_error :: "server \<Rightarrow> strong_id \<Rightarrow> seqno \<Rightarrow> error_code \<times> reason_code \<Rightarrow> string \<Rightarrow> connection \<Rightarrow> connection" where
  "send_error s session sequence code t c = send_frame s FT_ERROR_FRAME session sequence
     (encode_error_payload \<lparr>ep_code = fst code, ep_reason = snd code, ep_text = t\<rparr>) c"

definition set_connection :: "nat \<Rightarrow> connection \<Rightarrow> server \<Rightarrow> server" where
  "set_connection i c s = s\<lparr>sv_connections := (sv_connections s)[i := c]\<rparr>"

text \<open>The end of \<open>serve\<close>: the session is released and the socket closed.\<close>

definition end_connection :: "nat \<Rightarrow> connection \<Rightarrow> server \<Rightarrow> server" where
  "end_connection i c s = set_connection i (c\<lparr>cx_open := False\<rparr>)
     (if cx_handshake_complete c then s\<lparr>sv_sessions := snd (registry_release (cx_session c) (sv_sessions s))\<rparr> else s)"

definition count_rejected :: "server \<Rightarrow> server" where
  "count_rejected s = s\<lparr>sv_stats := (sv_stats s)\<lparr>vs_frames_rejected := vs_frames_rejected (sv_stats s) + 1\<rparr>\<rparr>"

definition count_sticky :: "server \<Rightarrow> server" where
  "count_sticky s = s\<lparr>sv_stats := (sv_stats s)\<lparr>vs_sticky_failures := vs_sticky_failures (sv_stats s) + 1\<rparr>\<rparr>"

definition next_sequence :: "connection \<Rightarrow> seqno" where
  "next_sequence c = cx_server_sequence c + 1"

text \<open>An error answer that ends the connection.\<close>

definition refuse :: "nat \<Rightarrow> strong_id \<Rightarrow> seqno \<Rightarrow> error_code \<times> reason_code \<Rightarrow> string \<Rightarrow> connection \<Rightarrow> server \<Rightarrow> server" where
  "refuse i session sequence code t c s = end_connection i (send_error s session sequence code t c) (count_sticky s)"

text \<open>An answer after which the connection goes on.\<close>

definition answer :: "nat \<Rightarrow> frame_type \<Rightarrow> bytes \<Rightarrow> connection \<Rightarrow> server \<Rightarrow> server" where
  "answer i t payload c s = set_connection i
     ((send_frame s t (cx_session c) (next_sequence c) payload c)\<lparr>cx_server_sequence := cx_server_sequence c + 1\<rparr>) s"

definition answer_error :: "nat \<Rightarrow> status \<Rightarrow> connection \<Rightarrow> server \<Rightarrow> server" where
  "answer_error i e c s = answer i FT_ERROR_FRAME
     (encode_error_payload \<lparr>ep_code = fst (map_status e), ep_reason = snd (map_status e), ep_text = st_message e\<rparr>) c s"

section \<open>Filling the buffer\<close>

datatype intake = Intake_more | Intake_frame | Intake_refused "error_code \<times> reason_code" string

definition intake_of :: "protocol_limits \<Rightarrow> bytes \<Rightarrow> intake" where
  "intake_of limits buffer =
     (if length buffer < frame_header_size then Intake_more
      else case decode_frame_header buffer of
        Inl e \<Rightarrow> Intake_refused (map_status e) (st_message e)
      | Inr h \<Rightarrow>
          if fh_payload_length h > pt_max_payload_bytes limits
            then Intake_refused (EC_FRAME_TOO_LARGE, RC_PROTOCOL_FRAME_TOO_LARGE) ''declared payload exceeds the frame bound''
          else if length buffer \<ge> frame_header_size + unat (fh_payload_length h) then Intake_frame
          else Intake_more)"

definition receive_chunk :: "bytes option \<Rightarrow> nat \<Rightarrow> connection \<Rightarrow> server \<Rightarrow> server" where
  "receive_chunk input i c s = (case input of
       None \<Rightarrow> end_connection i c s
     | Some b \<Rightarrow>
         if b = [] then end_connection i c s
         else let c = c\<lparr>cx_buffer := cx_buffer c @ b\<rparr> in
           if length (cx_buffer c) > unat (pt_max_payload_bytes (sv_limits s)) + 4 * frame_header_size
             then end_connection i c (count_sticky (count_rejected s))
           else set_connection i c s)"

section \<open>Serving a frame\<close>

text \<open>The handshake: the first frame of a connection.\<close>

definition greet :: "bool \<Rightarrow> nat \<Rightarrow> frame \<Rightarrow> connection \<Rightarrow> server \<Rightarrow> server" where
  "greet sent i f c s =
     (if fh_type (fr_header f) \<noteq> raw_frame_type FT_HELLO
        then refuse i 0 1 (EC_SESSION_MISMATCH, RC_PROTOCOL_SESSION_MISMATCH)
               ''the first frame of a connection must be HELLO'' c s
      else case decode_hello (fr_payload f) of
        Inl e \<Rightarrow> refuse i 0 1 (EC_DECODE_REJECTED, RC_PROTOCOL_DECODE_REJECTED) (st_message e) c s
      | Inr nonce \<Rightarrow> (case registry_create (sv_epoch s) (sv_boot s) nonce (sv_sessions s) of
          (Inl e, g) \<Rightarrow> end_connection i (send_error s 0 1 (EC_SESSION_LIMIT, RC_SESSION_LIMIT_REACHED) (st_message e) c)
            (s\<lparr>sv_sessions := g, sv_stats := (sv_stats s)\<lparr>vs_connections_rejected := vs_connections_rejected (sv_stats s) + 1\<rparr>\<rparr>)
        | (Inr r, g) \<Rightarrow>
            let s = s\<lparr>sv_sessions := g\<rparr>;
                c = send_frame s FT_HELLO_ACK (ssn_id r) 1 (encode_hello_ack \<lparr>ha_session = ssn_id r, ha_epoch = sv_epoch s,
                      ha_boot = sv_boot s, ha_server_nonce = 1, ha_next_sequence = 2\<rparr>)
                      (c\<lparr>cx_session := ssn_id r, cx_server_sequence := 1, cx_handshake_complete := True\<rparr>) in
            if \<not> sent then end_connection i c s
            else set_connection i (c\<lparr>cx_server_sequence := 2\<rparr>) s))"

text \<open>A call of the service: refused at once, or a job to wait for.\<close>

definition call_service :: "nat \<Rightarrow> job_task \<Rightarrow> status \<times> service \<Rightarrow> connection \<Rightarrow> server \<Rightarrow> server" where
  "call_service i task submitted c s = (case submitted of (e, svc) \<Rightarrow>
     if \<not> status_ok e then answer_error i e c (s\<lparr>sv_service := svc\<rparr>)
     else set_connection i (c\<lparr>cx_waiting := Some \<lparr>jb_task = task, jb_ticket = sy_next_ticket (sv_service s)\<rparr>\<rparr>)
            (s\<lparr>sv_service := svc\<rparr>))"

definition refuse_payload :: "nat \<Rightarrow> status \<Rightarrow> connection \<Rightarrow> server \<Rightarrow> server" where
  "refuse_payload i e c s = refuse i (cx_session c) (next_sequence c) (map_status e) (st_message e) c s"

definition serve_request :: "nat \<Rightarrow> frame \<Rightarrow> connection \<Rightarrow> server \<Rightarrow> server" where
  "serve_request i f c s =
     (let t = fh_type (fr_header f); st = sy_stats (sv_service s) in
      if t = raw_frame_type FT_PLAN_REQUEST then
        (case decode_plan_request_payload (fr_payload f) (sv_limits s) of
           Inl e \<Rightarrow> refuse_payload i e c s
         | Inr r \<Rightarrow> call_service i (Task_plan r) (service_plan r (sv_service s)) c s)
      else if t = raw_frame_type FT_VALIDATE_REQUEST then
        (case decode_validate_request (fr_payload f) (sv_limits s) of
           Inl e \<Rightarrow> refuse_payload i e c s
         | Inr (r, p) \<Rightarrow> call_service i (Task_validate r p) (service_validate r p (sv_service s)) c s)
      else if t = raw_frame_type FT_STATUS_REQUEST then
        answer i FT_STATUS_RESPONSE (encode_status_response (sv_epoch s) (sv_boot s) (sy_last_durable (sv_service s))
          (ct_plans_found st + ct_plans_infeasible st) (ucast (registry_size (sv_sessions s))) (ct_requests_rejected st)) c s
      else if t = raw_frame_type FT_BYE then end_connection i c s
      else refuse i (cx_session c) (next_sequence c) (EC_UNSUPPORTED_REQUEST, RC_REQUEST_UNSUPPORTED_PROBLEM)
             ''frame type is not accepted in this state'' c s)"

definition serve_frame :: "bool \<Rightarrow> nat \<Rightarrow> connection \<Rightarrow> server \<Rightarrow> server" where
  "serve_frame sent i c s = (case decode_frame (cx_buffer c) (pt_max_payload_bytes (sv_limits s)) of
       Inl e \<Rightarrow> refuse i (cx_session c) (next_sequence c) (map_status e) (st_message e) c (count_rejected s)
     | Inr (f, consumed) \<Rightarrow>
         let c = c\<lparr>cx_buffer := drop consumed (cx_buffer c)\<rparr>;
             s = s\<lparr>sv_stats := (sv_stats s)\<lparr>vs_frames_received := vs_frames_received (sv_stats s) + 1\<rparr>\<rparr>;
             h = fr_header f in
         if \<not> cx_handshake_complete c then greet sent i f c s
         else case registry_accept (fh_session_id h) (fh_epoch h) (fh_boot h) (fh_sequence h) (sv_sessions s) of
           (e, g) \<Rightarrow> let s = s\<lparr>sv_sessions := g\<rparr> in
             if \<not> status_ok e
               then refuse i (cx_session c) (next_sequence c) (EC_SESSION_MISMATCH, RC_PROTOCOL_SESSION_MISMATCH)
                      (st_message e) c s
             else serve_request i f c s)"

section \<open>Steps\<close>

definition live_connection :: "nat \<Rightarrow> server \<Rightarrow> connection option" where
  "live_connection i s = (if i < length (sv_connections s) \<and> cx_open (sv_connections s ! i)
     then Some (sv_connections s ! i) else None)"

text \<open>One iteration of \<open>serve\<close>.\<close>

definition serve_step :: "bool \<Rightarrow> bytes option \<Rightarrow> nat \<Rightarrow> server \<Rightarrow> server option" where
  "serve_step sent input i s = (case live_connection i s of
       None \<Rightarrow> None
     | Some c \<Rightarrow>
         if cx_waiting c \<noteq> None then None
         else Some (if sv_stopping s then end_connection i c s
           else case intake_of (sv_limits s) (cx_buffer c) of
             Intake_more \<Rightarrow> receive_chunk input i c s
           | Intake_frame \<Rightarrow> serve_frame sent i c s
           | Intake_refused code t \<Rightarrow> refuse i (cx_session c) (next_sequence c) code t c (count_rejected s)))"

text \<open>The return from \<open>plan\<close> or \<open>validate\<close>.\<close>

definition resume_step :: "nat \<Rightarrow> server \<Rightarrow> server option" where
  "resume_step i s = (case live_connection i s of
       None \<Rightarrow> None
     | Some c \<Rightarrow> (case cx_waiting c of
         None \<Rightarrow> None
       | Some j \<Rightarrow> (case find (\<lambda>d. jb_ticket (fst d) = jb_ticket j) (sy_delivered (sv_service s)) of
           None \<Rightarrow> None
         | Some (_, out) \<Rightarrow> let c = c\<lparr>cx_waiting := None\<rparr> in Some (case out of
             Out_plan res \<Rightarrow> answer i FT_PLAN_RESPONSE (encode_plan_response res) c s
           | Out_report report \<Rightarrow> answer i FT_VALIDATE_RESPONSE (encode_validate_response report) c s
           | Out_error e \<Rightarrow> answer_error i e c s))))"

definition accept_step :: "server \<Rightarrow> server option" where
  "accept_step s =
     (if sv_stopping s then None
      else Some (if registry_size (sv_sessions s) \<ge> sv_max_sessions s
        then s\<lparr>sv_connections := sv_connections s @
                 [(send_error s 0 1 (EC_SESSION_LIMIT, RC_SESSION_LIMIT_REACHED) ''session limit reached''
                     new_connection)\<lparr>cx_open := False\<rparr>],
               sv_stats := (sv_stats s)\<lparr>vs_connections_rejected := vs_connections_rejected (sv_stats s) + 1\<rparr>\<rparr>
        else s\<lparr>sv_connections := sv_connections s @ [new_connection],
               sv_stats := (sv_stats s)\<lparr>vs_connections_accepted := vs_connections_accepted (sv_stats s) + 1\<rparr>\<rparr>))"

definition server_shutdown :: "server \<Rightarrow> server" where
  "server_shutdown s = s\<lparr>sv_stopping := True\<rparr>"

text \<open>What the system calls of \<open>start\<close> answer.\<close>

record listen_env =
  li_initialised :: status
  li_socket_ok :: bool
  li_address_ok :: bool
  li_bind_ok :: bool
  li_listen_ok :: bool
  li_port :: u16

definition server_start :: "u32 \<Rightarrow> listen_env \<Rightarrow> service option \<Rightarrow> status + server" where
  "server_start max_sessions env svc = (case svc of
       None \<Rightarrow> Inl (status_error SC_INVALID_ARGUMENT ''server requires a planner service'')
     | Some svc \<Rightarrow>
         if \<not> status_ok (li_initialised env) then Inl (li_initialised env)
         else if \<not> li_socket_ok env then Inl (status_error SC_IO_ERROR ''cannot create the listening socket'')
         else if \<not> li_address_ok env
           then Inl (status_error SC_INVALID_ARGUMENT ''bind address is not a valid IPv4 address'')
         else if \<not> li_bind_ok env then Inl (status_error SC_IO_ERROR ''bind failed'')
         else if \<not> li_listen_ok env then Inl (status_error SC_IO_ERROR ''listen failed'')
         else Inr \<lparr>sv_service = svc, sv_max_sessions = max_sessions, sv_limits = default_protocol_limits,
             sv_epoch = sy_epoch svc, sv_boot = sy_boot svc, sv_port = li_port env, sv_stopping = False,
             sv_sessions = new_registry (if max_sessions \<noteq> 0 then max_sessions else 1), sv_connections = [],
             sv_stats = \<lparr>vs_connections_accepted = 0, vs_connections_rejected = 0, vs_frames_received = 0,
               vs_frames_rejected = 0, vs_sticky_failures = 0\<rparr>\<rparr>)"

text \<open>Interleavings of the connection threads, the accept loop, the service and its other callers.\<close>

inductive server_step :: "server \<Rightarrow> server \<Rightarrow> bool" where
  accept: "\<not> sy_crashed (sv_service s) \<Longrightarrow> accept_step s = Some s' \<Longrightarrow> server_step s s'"
| serve: "\<not> sy_crashed (sv_service s) \<Longrightarrow> serve_step sent input i s = Some s' \<Longrightarrow> server_step s s'"
| resume: "\<not> sy_crashed (sv_service s) \<Longrightarrow> resume_step i s = Some s' \<Longrightarrow> server_step s s'"
| stop: "\<not> sy_crashed (sv_service s) \<Longrightarrow> server_step s (server_shutdown s)"
| work: "internal_step (sv_service s) svc \<Longrightarrow> server_step s (s\<lparr>sv_service := svc\<rparr>)"
| others: "client_step (sv_service s) svc \<Longrightarrow> server_step s (s\<lparr>sv_service := svc\<rparr>)"

inductive reachable_server :: "server \<Rightarrow> bool" where
  start: "reachable_service svc \<Longrightarrow> server_start m env (Some svc) = Inr s \<Longrightarrow> reachable_server s"
| step: "reachable_server s \<Longrightarrow> server_step s s' \<Longrightarrow> reachable_server s'"

end
