(* ===== verification/NRP_Service_Correct.thy ===== *)
theory NRP_Service_Correct
  imports NRP_Service NRP_Planner_Correct
begin

text \<open>
  What holds of the worker service under every interleaving of its threads and callers: accepted jobs
  are answered exactly once, plans are committed before they are published and carry the authority of
  this incarnation only, and after a shutdown the service runs to completion.
\<close>

section \<open>Frames\<close>

lemma set_worker_simps [simp]:
  "sy_config (set_worker i w s) = sy_config s" "sy_store (set_worker i w s) = sy_store s"
  "sy_epoch (set_worker i w s) = sy_epoch s" "sy_boot (set_worker i w s) = sy_boot s"
  "sy_queue (set_worker i w s) = sy_queue s" "sy_stopping (set_worker i w s) = sy_stopping s"
  "sy_pending (set_worker i w s) = sy_pending s" "sy_workers (set_worker i w s) = (sy_workers s)[i := w]"
  "sy_delivered (set_worker i w s) = sy_delivered s" "sy_next_ticket (set_worker i w s) = sy_next_ticket s"
  "sy_crashed (set_worker i w s) = sy_crashed s"
  by (simp_all add: set_worker_def)

lemma deliver_simps [simp]:
  "sy_config (deliver j out s) = sy_config s" "sy_store (deliver j out s) = sy_store s"
  "sy_epoch (deliver j out s) = sy_epoch s" "sy_boot (deliver j out s) = sy_boot s"
  "sy_queue (deliver j out s) = sy_queue s" "sy_stopping (deliver j out s) = sy_stopping s"
  "sy_pending (deliver j out s) = sy_pending s" "sy_workers (deliver j out s) = sy_workers s"
  "sy_delivered (deliver j out s) = sy_delivered s @ [(j, out)]"
  "sy_next_ticket (deliver j out s) = sy_next_ticket s" "sy_crashed (deliver j out s) = sy_crashed s"
  by (simp_all add: deliver_def)

text \<open>A step that touches only the durable state.\<close>

definition durable_only :: "service \<Rightarrow> service \<Rightarrow> bool" where
  "durable_only s t \<longleftrightarrow> sy_config t = sy_config s \<and> sy_epoch t = sy_epoch s \<and> sy_boot t = sy_boot s \<and>
     sy_queue t = sy_queue s \<and> sy_stopping t = sy_stopping s \<and> sy_pending t = sy_pending s \<and>
     sy_workers t = sy_workers s \<and> sy_delivered t = sy_delivered s \<and> sy_next_ticket t = sy_next_ticket s \<and>
     (sy_store t = None \<longleftrightarrow> sy_store s = None) \<and>
     (\<forall>a b. sy_store s = Some a \<longrightarrow> sy_store t = Some b \<longrightarrow> set (st_records a) \<subseteq> set (st_records b))"

lemma store_append_records: "store_append w t payload fl (st, dk) = (res, st', dk') \<Longrightarrow> set (st_records st) \<subseteq> set (st_records st')"
  by (auto simp: store_append_def Let_def split: if_splits)

lemma append_durable_only: "durable_only s (snd (append_durable_record w t payload s))"
proof (cases "sy_store s")
  case (Some st)
  obtain res st' dk' where a: "store_append w t payload True (st, sy_disk s) = (res, st', dk')" by (metis prod_cases3)
  from store_append_records[OF this] Some a show ?thesis
    by (cases res) (simp_all add: append_durable_record_def durable_only_def)
qed (simp add: append_durable_record_def durable_only_def)

lemma begin_plan_durable: "durable_only s (snd (begin_plan w r s))"
proof (cases "sy_store s")
  case (Some st)
  obtain res st' dk' where a: "store_append w RT_ATTEMPT (attempt_payload r) False (st, sy_disk s) = (res, st', dk')"
    by (metis prod_cases3)
  from store_append_records[OF this] Some a append_durable_only[of s w RT_ATTEMPT "attempt_payload r"] show ?thesis
    by (auto simp: begin_plan_def durable_only_def split: prod.splits)
next
  case None
  with append_durable_only[of s w RT_ATTEMPT "attempt_payload r"] show ?thesis
    by (auto simp: begin_plan_def durable_only_def split: prod.splits)
qed

lemma commit_outcome_durable: "durable_only s (snd (commit_outcome w res s))"
  using append_durable_only[of s w "fst (outcome_record res)" "snd (outcome_record res)"]
  by (auto simp: commit_outcome_def durable_only_def split: prod.splits)

lemma run_validate_durable: "durable_only s (snd (run_validate w r p s))"
  using append_durable_only[of s w RT_EVIDENCE_LINEAGE "lineage_payload r p (validate_plan r p)"]
  by (auto simp: run_validate_def Let_def durable_only_def)

section \<open>Every ticket once\<close>

fun worker_jobs :: "worker \<Rightarrow> job list" where
  "worker_jobs (W_taken j) = [j]"
| "worker_jobs (W_planning j) = [j]"
| "worker_jobs (W_ready j out) = [j]"
| "worker_jobs _ = []"

text \<open>The jobs of the service: answered, in the queue, set aside by a shutdown, or with a worker.\<close>

definition jobs :: "service \<Rightarrow> job multiset" where
  "jobs s = mset (map fst (sy_delivered s)) + mset (sy_queue s) + mset (sy_pending s) +
     mset (concat (map worker_jobs (sy_workers s)))"

definition tickets :: "service \<Rightarrow> nat multiset" where
  "tickets s = image_mset jb_ticket (jobs s)"

definition tickets_ok :: "service \<Rightarrow> bool" where
  "tickets_ok s \<longleftrightarrow> tickets s = mset [0..<sy_next_ticket s]"

lemma worker_at_Some: "worker_at i s \<noteq> W_exited \<Longrightarrow> i < length (sy_workers s) \<and> worker_at i s = sy_workers s ! i"
  by (simp add: worker_at_def split: if_splits)

lemma concat_update:
  "i < length xs \<Longrightarrow> mset (concat (map f (xs[i := y]))) + mset (f (xs ! i)) = mset (concat (map f xs)) + mset (f y)"
proof (induction xs arbitrary: i)
  case (Cons x xs)
  show ?case
  proof (cases i)
    case (Suc k)
    with Cons.IH[of k] Cons.prems show ?thesis by (simp add: ac_simps)
  qed (simp add: ac_simps)
qed simp

text \<open>A worker moves on without changing what it holds, or gains or loses one job.\<close>

lemma workers_move:
  assumes "worker_at i s = w" "w \<noteq> W_exited"
  shows "mset (concat (map worker_jobs ((sy_workers s)[i := w']))) + mset (worker_jobs w) =
    mset (concat (map worker_jobs (sy_workers s))) + mset (worker_jobs w')"
  using concat_update[of i "sy_workers s" worker_jobs w'] worker_at_Some[of i s] assms by auto

lemma workers_keep:
  assumes "worker_at i s = w" "w \<noteq> W_exited" "worker_jobs w' = worker_jobs w"
  shows "mset (concat (map worker_jobs ((sy_workers s)[i := w']))) = mset (concat (map worker_jobs (sy_workers s)))"
  using workers_move[OF assms(1,2), of w'] assms(3) by simp

lemma take_job_jobs:
  assumes "take_job i s = Some s'"
  shows "jobs s' = jobs s \<and> sy_next_ticket s' = sy_next_ticket s"
proof -
  have idle: "worker_at i s = W_idle" using assms by (auto simp: take_job_def split: if_splits)
  show ?thesis
  proof (cases "sy_queue s")
    case Nil
    then have "s' = set_worker i W_exited s" using assms idle by (auto simp: take_job_def split: if_splits)
    then show ?thesis using workers_keep[OF idle, of W_exited] by (simp add: jobs_def)
  next
    case (Cons j q)
    then have "s' = set_worker i (W_taken j) (s\<lparr>sy_queue := q\<rparr>)" using assms idle by (simp add: take_job_def)
    then show ?thesis using workers_move[OF idle, of "W_taken j"] Cons by (simp add: jobs_def)
  qed
qed

lemma durable_worker_jobs:
  assumes "durable_only s t" "worker_at i s = w" "w \<noteq> W_exited" "worker_jobs w' = worker_jobs w"
  shows "jobs (set_worker i w' t) = jobs s \<and> sy_next_ticket (set_worker i w' t) = sy_next_ticket s"
  using assms(1) workers_keep[OF assms(2-4)] by (simp add: jobs_def durable_only_def)

lemma durable_jobs: "durable_only s t \<Longrightarrow> jobs t = jobs s \<and> sy_next_ticket t = sy_next_ticket s"
  by (simp add: jobs_def durable_only_def)

lemma begin_job_cases:
  assumes "begin_job w i s = Some s'"
  obtains j t where "worker_at i s = W_taken j" "durable_only s t" "s' = t"
  | j t w' where "worker_at i s = W_taken j" "durable_only s t" "worker_jobs w' = [j]" "s' = set_worker i w' t"
proof -
  obtain j where j: "worker_at i s = W_taken j" using assms by (auto simp: begin_job_def split: worker.splits)
  show thesis
  proof (cases "jb_task j")
    case (Task_plan r)
    obtain b t where b: "begin_plan w r s = (b, t)" by fastforce
    with begin_plan_durable[of s w r] have d: "durable_only s t" by simp
    show thesis
      using that(1)[OF j d] that(2)[OF j d, of "W_planning j"] that(2)[OF j d, of "W_ready j (Out_plan _)"] assms j Task_plan b
      by (cases b) (auto simp: begin_job_def)
  next
    case (Task_validate r p)
    obtain rep t where b: "run_validate w r p s = (rep, t)" by fastforce
    with run_validate_durable[of s w r p] have d: "durable_only s t" by simp
    show thesis using that(2)[OF j d, of "W_ready j (Out_report rep)"] assms j Task_validate b by (simp add: begin_job_def)
  qed
qed

lemma begin_job_jobs:
  assumes "begin_job w i s = Some s'"
  shows "jobs s' = jobs s \<and> sy_next_ticket s' = sy_next_ticket s"
  using assms
proof (cases rule: begin_job_cases)
  case (2 j t w')
  with durable_worker_jobs[OF 2(2,1), of w'] show ?thesis by simp
qed (simp add: durable_jobs)

lemma finish_job_cases:
  assumes "finish_job w i s = Some s'"
  obtains j r oc t where "worker_at i s = W_planning j" "jb_task j = Task_plan r"
    "commit_outcome w (plan (cf_model_limits (sy_config s)) r) s = (oc, t)" "durable_only s t"
    "s' = (case oc of Some res \<Rightarrow> set_worker i (W_ready j (Out_plan res)) t | None \<Rightarrow> t)"
proof -
  obtain j where j: "worker_at i s = W_planning j" using assms by (auto simp: finish_job_def split: worker.splits)
  obtain r where r: "jb_task j = Task_plan r" using assms j by (auto simp: finish_job_def split: job_task.splits)
  obtain oc t where c: "commit_outcome w (plan (cf_model_limits (sy_config s)) r) s = (oc, t)" by fastforce
  have "durable_only s t" using commit_outcome_durable[of s w "plan (cf_model_limits (sy_config s)) r"] c by simp
  then show thesis using that[OF j r c] assms j r c by (simp add: finish_job_def split: option.splits)
qed

lemma finish_job_jobs:
  assumes "finish_job w i s = Some s'"
  shows "jobs s' = jobs s \<and> sy_next_ticket s' = sy_next_ticket s"
proof (rule finish_job_cases[OF assms])
  fix j r oc t
  assume j: "worker_at i s = W_planning j" and d: "durable_only s t"
    and s': "s' = (case oc of Some res \<Rightarrow> set_worker i (W_ready j (Out_plan res)) t | None \<Rightarrow> t)"
  show ?thesis using durable_worker_jobs[OF d j] durable_jobs[OF d] s' by (cases oc) simp_all
qed

lemma publish_job_cases:
  assumes "publish_job i s = Some s'"
  obtains j out where "worker_at i s = W_ready j out"
    "sy_config s' = sy_config s" "sy_store s' = sy_store s" "sy_epoch s' = sy_epoch s" "sy_boot s' = sy_boot s"
    "sy_queue s' = sy_queue s" "sy_stopping s' = sy_stopping s" "sy_pending s' = sy_pending s"
    "sy_workers s' = (sy_workers s)[i := W_idle]" "sy_delivered s' = sy_delivered s @ [(j, out)]"
    "sy_next_ticket s' = sy_next_ticket s"
proof -
  obtain j out where j: "worker_at i s = W_ready j out" using assms by (auto simp: publish_job_def split: worker.splits)
  show thesis by (rule that[OF j]; cases out) (use assms j in \<open>auto simp: publish_job_def Let_def split: if_splits\<close>)
qed

lemma publish_job_jobs:
  assumes "publish_job i s = Some s'"
  shows "jobs s' = jobs s \<and> sy_next_ticket s' = sy_next_ticket s"
proof (rule publish_job_cases[OF assms])
  fix j out
  assume j: "worker_at i s = W_ready j out"
    and eqs: "sy_queue s' = sy_queue s" "sy_pending s' = sy_pending s" "sy_workers s' = (sy_workers s)[i := W_idle]"
    "sy_delivered s' = sy_delivered s @ [(j, out)]" "sy_next_ticket s' = sy_next_ticket s"
  from workers_move[OF j, of W_idle] eqs show ?thesis by (simp add: jobs_def)
qed

lemma exited_jobs: "list_all (\<lambda>w. w = W_exited) ws \<Longrightarrow> concat (map worker_jobs ws) = []"
  by (induction ws) auto

lemma internal_jobs:
  assumes "internal_step s s'"
  shows "jobs s' = jobs s \<and> sy_next_ticket s' = sy_next_ticket s"
  using assms
proof cases
  case (close c)
  then show ?thesis
    using exited_jobs[of "sy_workers s"]
    by (auto simp: shutdown_finish_def jobs_def split: if_splits option.splits prod.splits)
next
  case drain
  then show ?thesis by (auto simp: shutdown_drain_def jobs_def split: list.splits)
qed (simp_all add: take_job_jobs begin_job_jobs finish_job_jobs publish_job_jobs)

lemma client_tickets: "client_step s s' \<Longrightarrow> tickets_ok s \<Longrightarrow> tickets_ok s'"
  by (erule client_step.cases)
    (auto simp: tickets_ok_def tickets_def jobs_def enqueue_def shutdown_begin_def Let_def ac_simps
      atLeast0_lessThan_Suc)

lemma start_fields:
  assumes "service_start cf path env dk = (Inr s, dk')"
  shows "sy_queue s = []" "sy_pending s = []" "sy_delivered s = []" "sy_next_ticket s = 0" "\<not> sy_stopping s"
    "set (sy_workers s) \<subseteq> {W_idle}"
  using assms by (auto simp: service_start_def Let_def split: if_splits prod.splits sum.splits)

lemma reachable_tickets: "reachable_service s \<Longrightarrow> tickets_ok s"
proof (induction rule: reachable_service.induct)
  case (start cf path env dk s dk')
  have "concat (map worker_jobs (sy_workers s)) = []" using start_fields(6)[OF start] by auto
  with start_fields[OF start] show ?case by (simp add: tickets_ok_def tickets_def jobs_def)
next
  case (internal s s')
  with internal_jobs[of s s'] show ?case by (simp add: tickets_ok_def tickets_def)
qed (rule client_tickets)

lemma reachable_distinct:
  assumes "reachable_service s" "j \<in># jobs s" "k \<in># jobs s" "jb_ticket j = jb_ticket k"
  shows "j = k"
proof (rule ccontr)
  assume "j \<noteq> k"
  then obtain m where "jobs s = add_mset j (add_mset k m)"
    by (metis assms(2,3) insert_noteq_member mset_add)
  then have "mset [0..<sy_next_ticket s] = add_mset (jb_ticket j) (add_mset (jb_ticket j) (image_mset jb_ticket m))"
    using reachable_tickets[OF assms(1)] assms(4) by (simp add: tickets_ok_def tickets_def)
  then show False by (metis distinct.simps(2) distinct_upt ex_mset list.set_intros(1) mset.simps(2) mset_eq_imp_distinct_iff)
qed

lemma delivered_once: "reachable_service s \<Longrightarrow> distinct (map (\<lambda>d. jb_ticket (fst d)) (sy_delivered s))"
proof -
  assume "reachable_service s"
  then have "mset [0..<sy_next_ticket s] = mset (map (\<lambda>d. jb_ticket (fst d)) (sy_delivered s) @
      map jb_ticket (sy_queue s @ sy_pending s @ concat (map worker_jobs (sy_workers s))))"
    using reachable_tickets[of s] by (simp add: tickets_ok_def tickets_def jobs_def comp_def image_mset.compositionality ac_simps)
  then show ?thesis by (metis distinct_append distinct_upt mset_eq_imp_distinct_iff)
qed

section \<open>The queue\<close>

definition queue_ok :: "service \<Rightarrow> bool" where
  "queue_ok s \<longleftrightarrow> length (sy_queue s) \<le> unat (cf_max_queue_depth (sy_config s)) \<and> (sy_stopping s \<longrightarrow> sy_queue s = []) \<and>
     (\<not> sy_stopping s \<longrightarrow> sy_pending s = [])"

lemma internal_queue:
  assumes "internal_step s s'" "queue_ok s" shows "queue_ok s'"
  using assms(1)
proof cases
  case (take i)
  then show ?thesis using assms(2) by (auto simp: take_job_def queue_ok_def split: if_splits list.splits)
next
  case (begin_work w i)
  from begin_work(2) show ?thesis
    by (rule begin_job_cases) (use assms(2) in \<open>auto simp: queue_ok_def durable_only_def\<close>)
next
  case (finish_work w i)
  from finish_work(2) show ?thesis
    by (rule finish_job_cases) (use assms(2) in \<open>auto simp: queue_ok_def durable_only_def split: option.splits\<close>)
next
  case (publish_work i)
  from publish_work(2) show ?thesis by (rule publish_job_cases) (use assms(2) in \<open>simp add: queue_ok_def\<close>)
next
  case drain
  then show ?thesis using assms(2) by (auto simp: shutdown_drain_def queue_ok_def split: list.splits)
next
  case (close c)
  then show ?thesis
    using assms(2) by (auto simp: shutdown_finish_def queue_ok_def split: if_splits option.splits prod.splits)
qed

lemma reachable_queue: "reachable_service s \<Longrightarrow> queue_ok s"
proof (induction rule: reachable_service.induct)
  case (client s s')
  from client(2,3) show ?case
    by (cases rule: client_step.cases) (auto simp: queue_ok_def enqueue_def shutdown_begin_def Let_def)
next
  case (start cf path env dk s dk')
  with start_fields[OF start] show ?case by (simp add: queue_ok_def)
qed (rule internal_queue)

section \<open>Work that is left\<close>

fun worker_work :: "worker \<Rightarrow> nat" where
  "worker_work W_idle = 1"
| "worker_work (W_taken j) = 4"
| "worker_work (W_planning j) = 3"
| "worker_work (W_ready j out) = 2"
| "worker_work W_exited = 0"

definition work :: "service \<Rightarrow> nat" where
  "work s = (if sy_crashed s then 0 else 1 + 4 * length (sy_queue s) + length (sy_pending s) +
     sum_list (map worker_work (sy_workers s)) + (if sy_workers s \<noteq> [] \<or> sy_store s \<noteq> None then 1 else 0))"

lemma work_update:
  assumes "worker_at i s = w" "w \<noteq> W_exited"
  shows "sum_list (map worker_work ((sy_workers s)[i := w'])) + worker_work w = sum_list (map worker_work (sy_workers s)) + worker_work w'"
proof -
  have i: "i < length (sy_workers s)" "sy_workers s ! i = w" using worker_at_Some[of i s] assms by auto
  have "sum_list (map f (xs[i := y])) + f (xs ! i) = sum_list (map f xs) + (f y :: nat)"
    if "i < length xs" for f xs y i
    using that by (induction xs arbitrary: i) (auto split: nat.splits)
  from this[OF i(1)] i(2) show ?thesis by simp
qed

lemma set_worker_work:
  assumes "durable_only s t" "worker_at i s = w" "w \<noteq> W_exited" "worker_work w' < worker_work w" "\<not> sy_crashed s"
  shows "work (set_worker i w' t) < work s"
proof (cases "sy_crashed t")
  case False
  have "sy_workers s \<noteq> []" using worker_at_Some[of i s] assms(2,3) by auto
  with False assms work_update[OF assms(2,3), of w'] show ?thesis by (simp add: work_def durable_only_def)
qed (use assms(5) in \<open>simp add: work_def\<close>)

lemma crashed_work: "sy_crashed t \<Longrightarrow> \<not> sy_crashed s \<Longrightarrow> work t < work s"
  by (simp add: work_def)

text \<open>Every step of a thread uses up work, so threads left alone come to rest.\<close>

lemma internal_work:
  assumes "internal_step s s'" shows "work s' < work s"
  using assms
proof cases
  case (take i)
  have idle: "worker_at i s = W_idle" using take by (auto simp: take_job_def split: if_splits)
  have some: "sy_workers s \<noteq> []" using worker_at_Some[of i s] idle by auto
  show ?thesis
    using take idle some work_update[OF idle, of W_exited] work_update[OF idle, of "W_taken _"]
    by (cases "sy_queue s") (auto simp: take_job_def work_def split: if_splits)
next
  case (begin_work w i)
  then obtain j where j: "worker_at i s = W_taken j" by (auto simp: begin_job_def split: worker.splits)
  show ?thesis
  proof (cases "jb_task j")
    case (Task_plan r)
    obtain b t where b: "begin_plan w r s = (b, t)" by fastforce
    with begin_plan_durable[of s w r] have d: "durable_only s t" by simp
    have crash: "sy_crashed t" if "b = Begun_crash"
      using b that by (auto simp: begin_plan_def split: if_splits prod.splits)
    show ?thesis
      using set_worker_work[OF d j] crashed_work crash begin_work j Task_plan b
      by (cases b) (auto simp: begin_job_def)
  next
    case (Task_validate r p)
    obtain rep t where b: "run_validate w r p s = (rep, t)" by fastforce
    with run_validate_durable[of s w r p] have d: "durable_only s t" by simp
    show ?thesis using set_worker_work[OF d j] begin_work j Task_validate b by (auto simp: begin_job_def)
  qed
next
  case (finish_work w i)
  from finish_work(2) show ?thesis
  proof (rule finish_job_cases)
    fix j r oc t
    assume j: "worker_at i s = W_planning j" and d: "durable_only s t"
      and c: "commit_outcome w (plan (cf_model_limits (sy_config s)) r) s = (oc, t)"
      and s': "s' = (case oc of Some res \<Rightarrow> set_worker i (W_ready j (Out_plan res)) t | None \<Rightarrow> t)"
    have "sy_crashed t" if "oc = None" using c that by (auto simp: commit_outcome_def split: if_splits prod.splits)
    then show "work s' < work s"
      using set_worker_work[OF d j] crashed_work finish_work(1) s' by (cases oc) auto
  qed
next
  case (publish_work i)
  from publish_work(2) show ?thesis
  proof (rule publish_job_cases)
    fix j out
    assume j: "worker_at i s = W_ready j out" and w': "sy_workers s' = (sy_workers s)[i := W_idle]"
      and eqs: "sy_queue s' = sy_queue s" "sy_pending s' = sy_pending s" "sy_store s' = sy_store s"
    have "sy_workers s \<noteq> []" using worker_at_Some[of i s] j by auto
    then show "work s' < work s"
      using work_update[OF j, of W_idle] publish_work(1) w' eqs by (simp add: work_def)
  qed
next
  case drain
  then show ?thesis by (auto simp: shutdown_drain_def work_def split: list.splits)
next
  case (close c)
  then show ?thesis
    by (auto simp: shutdown_finish_def work_def split: if_splits option.splits prod.splits)
qed

section \<open>Committed before published\<close>

definition committed :: "store \<Rightarrow> recovery_plan \<Rightarrow> bool" where
  "committed st p \<longleftrightarrow> (\<exists>r\<in>set (st_records st). dr_type r = RT_COMMITTED_PLAN \<and> dr_payload r = encode_plan_record p)"

text \<open>The answers the service gives to a planning request. A request of another incarnation is fenced. For
  one of this incarnation it is the planner's result, or, after a record could not be written, a
  rejection that names the failure: in place of a result before the planner ran, or on top of the
  planner's result with plan and certificate taken out.\<close>

definition storage_rejection :: "model_limits \<Rightarrow> plan_request \<Rightarrow> planning_result \<Rightarrow> bool" where
  "storage_rejection l r res \<longleftrightarrow> (\<exists>e. \<not> status_ok e \<and>
     (res = blank_result r PD_REJECTED_EXHAUSTED zero_digest (plain_note RC_PERSISTENCE_INTEGRITY_FAILURE (status_to_string e)) \<or>
      res = (plan l r)\<lparr>pr_decision := PD_REJECTED_EXHAUSTED, pr_plan := None, pr_certificate := None,
        pr_explanations := pr_explanations (plan l r) @ [plain_note RC_PERSISTENCE_INTEGRITY_FAILURE (status_to_string e)]\<rparr>))"

definition service_answer :: "service \<Rightarrow> plan_request \<Rightarrow> planning_result \<Rightarrow> bool" where
  "service_answer s r res \<longleftrightarrow>
     (if rq_epoch r = sy_epoch s \<and> rq_boot r = sy_boot s
      then res = plan (cf_model_limits (sy_config s)) r \<or> storage_rejection (cf_model_limits (sy_config s)) r res
      else res = fenced_result s r)"

lemma service_answer_cong:
  "sy_config t = sy_config s \<Longrightarrow> sy_epoch t = sy_epoch s \<Longrightarrow> sy_boot t = sy_boot s \<Longrightarrow>
   service_answer t r res = service_answer s r res"
  by (simp add: service_answer_def fenced_result_def)

lemma service_answer_substantial:
  assumes "service_answer s r res" "pr_plan res \<noteq> None \<or> pr_certificate res \<noteq> None"
  shows "res = plan (cf_model_limits (sy_config s)) r \<and> rq_epoch r = sy_epoch s \<and> rq_boot r = sy_boot s"
  using assms by (auto simp: service_answer_def storage_rejection_def fenced_result_def blank_result_def split: if_splits)

text \<open>An outcome that may be handed out for a job: the service's answer to its request, committed if it
  is a plan and there is a store; or the validator's report.\<close>

fun rightful :: "service \<Rightarrow> job \<times> job_outcome \<Rightarrow> bool" where
  "rightful s (j, Out_plan res) = ((\<exists>r. jb_task j = Task_plan r \<and> service_answer s r res) \<and>
     (\<forall>p st. pr_plan res = Some p \<longrightarrow> sy_store s = Some st \<longrightarrow> committed st p))"
| "rightful s (j, Out_report rep) = (\<exists>r p. jb_task j = Task_validate r p \<and> rep = validate_plan r p)"
| "rightful s (j, Out_error e) = True"

fun worker_ok :: "service \<Rightarrow> worker \<Rightarrow> bool" where
  "worker_ok s (W_planning j) = (\<exists>r. jb_task j = Task_plan r \<and> rq_epoch r = sy_epoch s \<and> rq_boot r = sy_boot s)"
| "worker_ok s (W_ready j out) = rightful s (j, out)"
| "worker_ok s _ = True"

definition published_ok :: "service \<Rightarrow> bool" where
  "published_ok s \<longleftrightarrow> (\<forall>d\<in>set (sy_delivered s). rightful s d) \<and> (\<forall>w\<in>set (sy_workers s). worker_ok s w)"

text \<open>Steps that keep the configuration, the incarnation and the committed plans.\<close>

definition same_incarnation :: "service \<Rightarrow> service \<Rightarrow> bool" where
  "same_incarnation s t \<longleftrightarrow> sy_config t = sy_config s \<and> sy_epoch t = sy_epoch s \<and> sy_boot t = sy_boot s \<and>
     (\<forall>b. sy_store t = Some b \<longrightarrow> (\<exists>a. sy_store s = Some a \<and> set (st_records a) \<subseteq> set (st_records b)))"

lemma rightful_mono: "same_incarnation s t \<Longrightarrow> rightful s d \<Longrightarrow> rightful t d"
  by (induction s d rule: rightful.induct) (auto simp: same_incarnation_def committed_def service_answer_cong[of t], blast+)

lemma worker_ok_mono: "same_incarnation s t \<Longrightarrow> worker_ok s w \<Longrightarrow> worker_ok t w"
  by (cases w) (auto intro: rightful_mono, auto simp: same_incarnation_def)

lemma durable_incarnation: "durable_only s t \<Longrightarrow> same_incarnation s t"
  by (cases "sy_store s"; cases "sy_store t") (auto simp: durable_only_def same_incarnation_def)

lemma published_update:
  assumes ok: "published_ok s" and inc: "same_incarnation s t"
    and "sy_workers t = (sy_workers s)[i := w']" "worker_ok t w'"
    and "set (sy_delivered t) \<subseteq> set (sy_delivered s) \<union> D" "\<forall>d\<in>D. rightful t d"
  shows "published_ok t"
proof -
  have "worker_ok t w" if "w \<in> set (sy_workers t)" for w
  proof -
    have "w = w' \<or> w \<in> set (sy_workers s)"
      using that assms(3) set_update_subset_insert[of "sy_workers s" i w'] by auto
    then show ?thesis using ok worker_ok_mono[OF inc] assms(4) by (auto simp: published_ok_def)
  qed
  moreover have "rightful t d" if "d \<in> set (sy_delivered t)" for d
    using that assms(5,6) ok rightful_mono[OF inc] by (fastforce simp: published_ok_def)
  ultimately show ?thesis by (simp add: published_ok_def)
qed

lemma published_keep:
  assumes "published_ok s" "same_incarnation s t" "set (sy_workers t) \<subseteq> set (sy_workers s)" "sy_delivered t = sy_delivered s"
  shows "published_ok t"
  unfolding published_ok_def assms(4)
proof (intro conjI ballI)
  fix d assume "d \<in> set (sy_delivered s)"
  then have "rightful s d" using assms(1) by (simp add: published_ok_def)
  then show "rightful t d" by (rule rightful_mono[OF assms(2)])
next
  fix w assume "w \<in> set (sy_workers t)"
  then have "worker_ok s w" using assms(1,3) by (auto simp: published_ok_def)
  then show "worker_ok t w" by (rule worker_ok_mono[OF assms(2)])
qed

lemma store_append_status:
  "store_append w t payload fl (st, dk) = (Inl e, st', dk') \<Longrightarrow> \<not> status_ok e"
  "store_append w t payload fl (st, dk) = (Inr sq, st', dk') \<Longrightarrow> next_record t payload st \<in> set (st_records st')"
  by (auto simp: store_append_def Let_def split: if_splits)

lemma append_committed:
  assumes "append_durable_record w t payload s = (e, s')" "status_ok e" "sy_store s' = Some st"
  shows "\<exists>r\<in>set (st_records st). dr_type r = t \<and> dr_payload r = payload"
proof (cases "sy_store s")
  case None
  with assms(1,3) show ?thesis by (simp add: append_durable_record_def)
next
  case (Some st0)
  obtain res st1 dk1 where a: "store_append w t payload True (st0, sy_disk s) = (res, st1, dk1)" by (metis prod_cases3)
  show ?thesis
  proof (cases res)
    case (Inl x)
    with store_append_status(1)[of w t payload True st0 "sy_disk s"] a assms(1,2) Some show ?thesis
      by (simp add: append_durable_record_def)
  next
    case (Inr sq)
    with a assms(1,3) Some have "st1 = st" by (auto simp: append_durable_record_def)
    with store_append_status(2)[OF a[unfolded Inr]] show ?thesis by (force simp: next_record_def)
  qed
qed

lemma commit_answers:
  "commit_outcome w (plan l r) s = (Some res, t) \<Longrightarrow> res = plan l r \<or> storage_rejection l r res"
  by (auto simp: commit_outcome_def storage_rejection_def split: prod.splits if_splits)

lemma begin_answers:
  "begin_plan w r s = (Begun_rejected res, t) \<Longrightarrow> service_answer s r res"
  by (auto simp: begin_plan_def service_answer_def storage_rejection_def split: if_splits prod.splits)

lemma commit_rightful:
  assumes c: "commit_outcome w res s = (Some res', t)" and p: "pr_plan res' = Some p"
  shows "\<forall>st. sy_store t = Some st \<longrightarrow> committed st p"
proof -
  obtain e t1 where a: "append_durable_record w (fst (outcome_record res)) (snd (outcome_record res)) s = (e, t1)" by fastforce
  have ok: "status_ok e" "res' = res" "t = t1"
    using c p a by (auto simp: commit_outcome_def split: prod.splits if_splits)
  have "outcome_record res = (RT_COMMITTED_PLAN, encode_plan_record p)" using p ok(2) by (simp add: outcome_record_def)
  with append_committed[OF a ok(1)] ok show ?thesis by (auto simp: committed_def)
qed

lemma take_published:
  assumes "take_job i s = Some s'" "published_ok s" shows "published_ok s'"
proof -
  have idle: "worker_at i s = W_idle" using assms(1) by (auto simp: take_job_def split: if_splits)
  show ?thesis
  proof (cases "sy_queue s")
    case Nil
    then have s': "s' = set_worker i W_exited s" using assms(1) idle by (auto simp: take_job_def split: if_splits)
    show ?thesis
      by (rule published_update[OF assms(2), where D = "{}" and i = i and w' = W_exited])
        (simp_all add: s' same_incarnation_def)
  next
    case (Cons j q)
    then have s': "s' = set_worker i (W_taken j) (s\<lparr>sy_queue := q\<rparr>)" using assms(1) idle by (simp add: take_job_def)
    show ?thesis
      by (rule published_update[OF assms(2), where D = "{}" and i = i and w' = "W_taken j"])
        (simp_all add: s' same_incarnation_def)
  qed
qed

text \<open>A worker moves on after a step on the durable state.\<close>

lemma durable_published:
  assumes ok: "published_ok s" and d: "durable_only s t" and w: "worker_ok t w'"
  shows "published_ok (set_worker i w' t)"
proof (rule published_update[OF ok, where D = "{}" and i = i and w' = w'])
  show "same_incarnation s (set_worker i w' t)" using durable_incarnation[OF d] by (simp add: same_incarnation_def)
  show "worker_ok (set_worker i w' t) w'"
    by (rule worker_ok_mono[OF _ w]) (simp add: same_incarnation_def)
qed (use d in \<open>simp_all add: durable_only_def\<close>)

lemma durable_published_keep: "published_ok s \<Longrightarrow> durable_only s t \<Longrightarrow> published_ok t"
  by (rule published_keep[OF _ durable_incarnation]) (simp_all add: durable_only_def)

lemma begin_published:
  assumes "begin_job w i s = Some s'" "published_ok s" shows "published_ok s'"
proof -
  obtain j where j: "worker_at i s = W_taken j" using assms(1) by (auto simp: begin_job_def split: worker.splits)
  show ?thesis
  proof (cases "jb_task j")
    case (Task_plan r)
    obtain b t where b: "begin_plan w r s = (b, t)" by fastforce
    with begin_plan_durable[of s w r] have d: "durable_only s t" by simp
    show ?thesis
    proof (cases b)
      case (Begun_rejected res)
      have "service_answer s r res" using b Begun_rejected begin_answers by simp
      then have "service_answer t r res" using d service_answer_cong[of t s] by (simp add: durable_only_def)
      moreover have "pr_plan res = None"
        using b Begun_rejected by (auto simp: begin_plan_def fenced_result_def blank_result_def split: if_splits prod.splits)
      ultimately have "worker_ok t (W_ready j (Out_plan res))" by (simp add: Task_plan)
      from durable_published[OF assms(2) d this] show ?thesis
        using assms(1) j Task_plan b Begun_rejected by (auto simp: begin_job_def)
    next
      case Begun_planning
      have "rq_epoch r = sy_epoch s" "rq_boot r = sy_boot s"
        using b Begun_planning by (auto simp: begin_plan_def split: if_splits prod.splits)
      then have "worker_ok t (W_planning j)" using Task_plan d by (simp add: durable_only_def)
      from durable_published[OF assms(2) d this] show ?thesis
        using assms(1) j Task_plan b Begun_planning by (auto simp: begin_job_def)
    next
      case Begun_crash
      then show ?thesis
        using durable_published_keep[OF assms(2) d] assms(1) j Task_plan b by (auto simp: begin_job_def)
    qed
  next
    case (Task_validate r p)
    obtain rep t where b: "run_validate w r p s = (rep, t)" by fastforce
    with run_validate_durable[of s w r p] have d: "durable_only s t" by simp
    have "worker_ok t (W_ready j (Out_report rep))" using b by (auto simp: Task_validate run_validate_def Let_def)
    from durable_published[OF assms(2) d this] show ?thesis
      using assms(1) j Task_validate b by (auto simp: begin_job_def)
  qed
qed

lemma finish_published:
  assumes "finish_job w i s = Some s'" "published_ok s" shows "published_ok s'"
  using assms(1)
proof (rule finish_job_cases)
  fix j r oc t
  assume j: "worker_at i s = W_planning j" "jb_task j = Task_plan r" and d: "durable_only s t"
    and c: "commit_outcome w (plan (cf_model_limits (sy_config s)) r) s = (oc, t)"
    and s': "s' = (case oc of Some res \<Rightarrow> set_worker i (W_ready j (Out_plan res)) t | None \<Rightarrow> t)"
  have "worker_ok s (W_planning j)" using j(1) assms(2) worker_at_Some[of i s] by (auto simp: published_ok_def)
  then have inc: "rq_epoch r = sy_epoch s" "rq_boot r = sy_boot s" using j(2) by auto
  show "published_ok s'"
  proof (cases oc)
    case (Some res)
    have "worker_ok t (W_ready j (Out_plan res))"
      using commit_rightful[OF c[unfolded Some]] commit_answers[OF c[unfolded Some]] inc d j(2)
      by (auto simp: durable_only_def service_answer_def)
    from durable_published[OF assms(2) d this] show ?thesis by (simp add: s' Some)
  qed (use s' durable_published_keep[OF assms(2) d] in simp)
qed

lemma publish_published:
  assumes "publish_job i s = Some s'" "published_ok s" shows "published_ok s'"
  using assms(1)
proof (rule publish_job_cases)
  fix j out
  assume j: "worker_at i s = W_ready j out" and w': "sy_workers s' = (sy_workers s)[i := W_idle]"
    and dl: "sy_delivered s' = sy_delivered s @ [(j, out)]"
    and eqs: "sy_config s' = sy_config s" "sy_store s' = sy_store s" "sy_epoch s' = sy_epoch s" "sy_boot s' = sy_boot s"
  have inc: "same_incarnation s s'" using eqs by (auto simp: same_incarnation_def)
  have "worker_ok s (W_ready j out)" using j assms(2) worker_at_Some[of i s] by (auto simp: published_ok_def)
  then have "rightful s' (j, out)" using rightful_mono[OF inc] by simp
  then show "published_ok s'"
    by (intro published_update[OF assms(2) inc w', where D = "{(j, out)}"]) (simp_all add: dl)
qed

lemma drain_published:
  assumes "shutdown_drain s = Some s'" "published_ok s" shows "published_ok s'"
proof -
  obtain j js where p: "sy_pending s = j # js" using assms(1) by (auto simp: shutdown_drain_def split: list.splits)
  let ?out = "Out_error (status_error SC_CLOSED ''service shut down before the job ran'')"
  have s': "s' = deliver j ?out (s\<lparr>sy_pending := js\<rparr>)" using assms(1) p by (simp add: shutdown_drain_def)
  then have inc: "same_incarnation s s'" by (simp add: same_incarnation_def)
  have ws: "worker_ok s' w" if "w \<in> set (sy_workers s)" for w
    by (rule worker_ok_mono[OF inc]) (use assms(2) that in \<open>simp add: published_ok_def\<close>)
  have ds: "rightful s' d" if "d \<in> set (sy_delivered s)" for d
    by (rule rightful_mono[OF inc]) (use assms(2) that in \<open>simp add: published_ok_def\<close>)
  have "rightful s' (j, ?out)" by simp
  with ws ds show ?thesis by (auto simp: published_ok_def s')
qed

lemma internal_published:
  assumes "internal_step s s'" "published_ok s" shows "published_ok s'"
  using assms(1)
proof cases
  case (close c)
  then have "same_incarnation s s' \<and> sy_workers s' = [] \<and> sy_delivered s' = sy_delivered s"
    by (auto simp: shutdown_finish_def same_incarnation_def split: if_splits option.splits prod.splits)
  then show ?thesis by (intro published_keep[OF assms(2)]) simp_all
qed (use assms(2) in \<open>simp_all add: take_published begin_published finish_published publish_published drain_published\<close>)

lemma reachable_published: "reachable_service s \<Longrightarrow> published_ok s"
proof (induction rule: reachable_service.induct)
  case (start cf path env dk s dk')
  with start_fields[OF start] show ?case by (fastforce simp: published_ok_def)
next
  case (client s s')
  from client(2) have "same_incarnation s s' \<and> sy_workers s' = sy_workers s \<and> sy_delivered s' = sy_delivered s"
    by (cases rule: client_step.cases) (auto simp: enqueue_def shutdown_begin_def same_incarnation_def Let_def)
  then show ?case by (intro published_keep[OF client(3)]) simp_all
qed (rule internal_published)

section \<open>Progress after a shutdown\<close>

lemma internal_stopping: "internal_step s s' \<Longrightarrow> sy_stopping s' = sy_stopping s"
proof (erule internal_step.cases)
  fix s0 i t assume "s = s0" "s' = t" "take_job i s0 = Some t"
  then show ?thesis by (auto simp: take_job_def split: if_splits list.splits)
next
  fix s0 w i t assume "s = s0" "s' = t" "begin_job w i s0 = Some t"
  then show ?thesis by (auto elim!: begin_job_cases simp: durable_only_def)
next
  fix s0 w i t assume "s = s0" "s' = t" "finish_job w i s0 = Some t"
  then show ?thesis by (auto elim!: finish_job_cases simp: durable_only_def split: option.splits)
next
  fix s0 i t assume "s = s0" "s' = t" "publish_job i s0 = Some t"
  then show ?thesis by (auto elim!: publish_job_cases)
next
  fix s0 t assume "s = s0" "s' = t" "shutdown_drain s0 = Some t"
  then show ?thesis by (auto simp: shutdown_drain_def split: list.splits)
next
  fix s0 c t assume "s = s0" "s' = t" "shutdown_finish c s0 = Some t"
  then show ?thesis by (auto simp: shutdown_finish_def split: if_splits option.splits prod.splits)
qed

text \<open>A service that is shutting down is only at rest when everything is answered and closed.\<close>

lemma at_rest:
  assumes reach: "reachable_service s" and stop: "sy_stopping s" "\<not> sy_crashed s"
    and rest: "\<And>s'. \<not> internal_step s s'"
  shows "sy_queue s = []" "sy_pending s = []" "sy_workers s = []" "sy_store s = None"
proof -
  show q: "sy_queue s = []" using reachable_queue[OF reach] stop by (simp add: queue_ok_def)
  show p: "sy_pending s = []"
    using rest internal_step.drain[OF stop(2)] by (cases "sy_pending s") (auto simp: shutdown_drain_def)
  have "w = W_exited" if w: "w \<in> set (sy_workers s)" for w
  proof (rule ccontr)
    assume live: "w \<noteq> W_exited"
    obtain i where i: "i < length (sy_workers s)" "sy_workers s ! i = w" using w by (auto simp: in_set_conv_nth)
    then have at: "worker_at i s = w" by (simp add: worker_at_def)
    have "worker_ok s w" using reachable_published[OF reach] w by (simp add: published_ok_def)
    then have "(\<exists>t. take_job i s = Some t) \<or> (\<exists>t. begin_job undefined i s = Some t) \<or>
        (\<exists>t. finish_job undefined i s = Some t) \<or> (\<exists>t. publish_job i s = Some t)"
      using at live q stop(1)
      by (cases w) (auto simp: take_job_def begin_job_def finish_job_def publish_job_def)
    then show False using rest internal_step.intros(1-4)[OF stop(2)] by blast
  qed
  then have all: "list_all (\<lambda>w. w = W_exited) (sy_workers s)" by (simp add: list_all_iff)
  have "sy_workers s = [] \<and> sy_store s = None"
  proof (rule ccontr)
    assume "\<not> (sy_workers s = [] \<and> sy_store s = None)"
    then have "\<exists>t. shutdown_finish undefined s = Some t" using all p stop(1) by (auto simp: shutdown_finish_def)
    then show False using rest internal_step.close[OF stop(2)] by blast
  qed
  then show "sy_workers s = []" "sy_store s = None" by simp_all
qed

lemma internal_run:
  assumes "internal_step\<^sup>*\<^sup>* s s'" "reachable_service s" "sy_stopping s"
  shows "reachable_service s' \<and> sy_stopping s' \<and> sy_next_ticket s' = sy_next_ticket s"
  using assms
  by (induction rule: rtranclp_induct) (auto simp: internal_stopping internal_jobs intro: reachable_service.internal)

lemma no_endless_run: "\<not> (\<forall>n. internal_step (f n) (f (Suc n)))"
proof
  assume steps: "\<forall>n. internal_step (f n) (f (Suc n))"
  have "work (f n) + n \<le> work (f 0)" for n
  proof (induction n)
    case (Suc n)
    with internal_work[of "f n" "f (Suc n)"] steps show ?case by (simp add: less_eq_Suc_le)
  qed simp
  from this[of "Suc (work (f 0))"] show False by simp
qed

section \<open>The durable record of a job\<close>

text \<open>One append, whatever the file system answers and whether or not it is flushed.\<close>

lemma append_outcomes:
  assumes inv: "store_inv st dk" and room: "journal_room (st_limits st) dk (length payload)"
    and last: "st_last_sequence st < UINT64_MAX" and app: "store_append w t payload fl (st, dk) = (res, st', dk')"
  shows "durable_log (st_limits st) dk' \<in> {Inr (st_records st), Inr (st_records st @ [next_record t payload st])}"
    and "res = Inl e \<Longrightarrow> st' = st"
    and "res = Inr sq \<Longrightarrow> fl \<Longrightarrow> (we_written w \<and> we_flush w = Flushed \<Longrightarrow> 40 + length payload \<le> we_reached w) \<Longrightarrow>
      store_inv st' dk' \<and> st_records st' = st_records st @ [next_record t payload st] \<and> st_limits st' = st_limits st \<and>
      st_last_sequence st' = st_last_sequence st + 1 \<and>
      (\<forall>n. journal_room (st_limits st) dk (length payload + 40 + n) \<longrightarrow> journal_room (st_limits st) dk' n)"
proof -
  have before: "durable_log (st_limits st) dk = Inr (st_records st)"
    using inv by (intro durable_log_holds) (simp add: store_inv_def)
  let ?data = "frame_record t (dr_sequence (next_record t payload st)) (st_epoch st) payload"
  have ext: "dk' = extend_journal w ?data dk" if "appendable st t payload"
    using app append_accepted[OF inv that, of w fl] by (auto simp: Let_def split: if_splits)
  have refused: "isl res \<and> st' = st \<and> dk' = dk" if "\<not> appendable st t payload"
    using that inv last app by (auto simp: store_append_def store_inv_def appendable_def Let_def split: if_splits)
  show "durable_log (st_limits st) dk' \<in> {Inr (st_records st), Inr (st_records st @ [next_record t payload st])}"
  proof (cases "appendable st t payload")
    case True
    note cases = extend_cases[OF inv True room refl refl ext[OF True]]
    show ?thesis
      using cases durable_log_holds[of "st_limits st" dk' "st_records st @ [next_record t payload st]"]
      by (cases "we_reached w < length ?data") auto
  next
    case False
    with refused before show ?thesis by simp
  qed
  show "res = Inl e \<Longrightarrow> st' = st"
    using app refused append_accepted[OF inv, of t payload w fl]
    by (cases "appendable st t payload") (auto simp: Let_def split: if_splits)
  assume r: "res = Inr sq" "fl" and honest: "we_written w \<and> we_flush w = Flushed \<Longrightarrow> 40 + length payload \<le> we_reached w"
  have ok: "appendable st t payload" using refused r(1) by auto
  have written: "we_written w \<and> we_flush w = Flushed"
    using app append_accepted[OF inv ok, of w fl] r by (auto simp: Let_def split: if_splits)
  note reached = honest[OF this]
  have "journal_room (st_limits st) dk' n" if "journal_room (st_limits st) dk (length payload + 40 + n)" for n
    using that reached inv ext[OF ok] by (auto simp: journal_room_def extend_journal_def store_inv_def)
  moreover have "st_last_sequence st' = st_last_sequence st + 1"
    using app append_accepted[OF inv ok, of w fl] r by (auto simp: Let_def next_record_def split: if_splits)
  ultimately show "store_inv st' dk' \<and> st_records st' = st_records st @ [next_record t payload st] \<and> st_limits st' = st_limits st \<and>
      st_last_sequence st' = st_last_sequence st + 1 \<and>
      (\<forall>n. journal_room (st_limits st) dk (length payload + 40 + n) \<longrightarrow> journal_room (st_limits st) dk' n)"
    using append_success_inv[OF inv ok room _ reached, where sq = sq and st' = st' and dk' = dk'] app r by simp
qed

lemma length_attempt_payload: "length (attempt_payload r) = 48"
  by (simp add: attempt_payload_def)

definition attempt_record :: "plan_request \<Rightarrow> store \<Rightarrow> durable_record" where
  "attempt_record r st = next_record RT_ATTEMPT (attempt_payload r) st"

definition outcome_after :: "model_limits \<Rightarrow> plan_request \<Rightarrow> store \<Rightarrow> durable_record" where
  "outcome_after l r st = \<lparr>dr_type = fst (outcome_record (plan l r)), dr_sequence = st_last_sequence st + 2,
     dr_payload = snd (outcome_record (plan l r))\<rparr>"

text \<open>The journal and the sequence numbers have room for both records of a job.\<close>

definition job_room :: "service \<Rightarrow> store \<Rightarrow> plan_request \<Rightarrow> bool" where
  "job_room s st r \<longleftrightarrow> store_inv st (sy_disk s) \<and> st_last_sequence st < UINT64_MAX - 1 \<and>
     journal_room (st_limits st) (sy_disk s)
       (88 + length (snd (outcome_record (plan (cf_model_limits (sy_config s)) r))))"

definition honest_flush :: "write_env \<Rightarrow> nat \<Rightarrow> bool" where
  "honest_flush w n \<longleftrightarrow> (we_written w \<and> we_flush w = Flushed \<longrightarrow> n \<le> we_reached w)"

lemma commit_durable:
  assumes st: "sy_store s = Some st" "store_inv st (sy_disk s)" "st_last_sequence st < UINT64_MAX"
    and room: "journal_room (st_limits st) (sy_disk s) (length (snd (outcome_record res)))"
    and honest: "honest_flush w (40 + length (snd (outcome_record res)))"
    and c: "commit_outcome w res s = (out, s')"
  defines "r2 \<equiv> next_record (fst (outcome_record res)) (snd (outcome_record res)) st"
  shows "durable_log (st_limits st) (sy_disk s') \<in> {Inr (st_records st), Inr (st_records st @ [r2])} \<and>
    (\<forall>res' p. out = Some res' \<longrightarrow> pr_plan res' = Some p \<longrightarrow> res' = res \<and>
       durable_log (st_limits st) (sy_disk s') = Inr (st_records st @ [r2]))"
proof -
  obtain sr st1 dk1 where a: "store_append w (fst (outcome_record res)) (snd (outcome_record res)) True (st, sy_disk s) = (sr, st1, dk1)"
    by (metis prod_cases3)
  note o = append_outcomes[OF st(2) room st(3) a]
  have "sy_disk s' = dk1"
    using c a st(1) by (cases sr) (auto simp: commit_outcome_def append_durable_record_def split: prod.splits if_splits)
  moreover have "\<exists>sq. sr = Inr sq \<and> res' = res" if "out = Some res'" "pr_plan res' = Some p" for res' p
    using c a st(1) that store_append_status(1)[of w "fst (outcome_record res)" "snd (outcome_record res)" True st "sy_disk s"]
    by (cases sr) (auto simp: commit_outcome_def append_durable_record_def split: prod.splits if_splits)
  moreover have "durable_log (st_limits st) dk1 = Inr (st_records st @ [r2])" if "sr = Inr sq" for sq
    using o(3)[OF that] honest durable_log_holds[of "st_limits st" dk1 "st_records st1"]
    by (auto simp: honest_flush_def store_inv_def r2_def)
  ultimately have "\<forall>res' p. out = Some res' \<longrightarrow> pr_plan res' = Some p \<longrightarrow> res' = res \<and>
       durable_log (st_limits st) (sy_disk s') = Inr (st_records st @ [r2])" by metis
  then show ?thesis using o(1) \<open>sy_disk s' = dk1\<close> by (simp add: r2_def)
qed

lemma run_plan_records:
  assumes st: "sy_store s = Some st" and room: "job_room s st r"
    and honest: "honest_flush w1 88" "honest_flush w2 (40 + length (snd (outcome_record (plan (cf_model_limits (sy_config s)) r))))"
    and run: "run_plan w1 w2 r s = (out, s')"
  defines "a \<equiv> attempt_record r st" and "b \<equiv> outcome_after (cf_model_limits (sy_config s)) r st"
  shows "durable_log (st_limits st) (sy_disk s') \<in>
      {Inr (st_records st), Inr (st_records st @ [a]), Inr (st_records st @ [a, b])} \<and>
    (\<forall>res p. out = Some res \<longrightarrow> pr_plan res = Some p \<longrightarrow> res = plan (cf_model_limits (sy_config s)) r \<and>
       durable_log (st_limits st) (sy_disk s') = Inr (st_records st @ [a, b]) \<and>
       dr_type b = RT_COMMITTED_PLAN \<and> dr_payload b = encode_plan_record p)"
proof -
  let ?l = "st_limits st" and ?log = "st_records st" and ?res = "plan (cf_model_limits (sy_config s)) r"
  have inv: "store_inv st (sy_disk s)" and last: "st_last_sequence st < UINT64_MAX - 1" using room by (simp_all add: job_room_def)
  have last0: "st_last_sequence st < UINT64_MAX" using last by (simp add: UINT64_MAX_def word_less_nat_alt)
  have room1: "journal_room ?l (sy_disk s) (length (attempt_payload r))"
    "journal_room ?l (sy_disk s) (length (attempt_payload r) + 40 + length (snd (outcome_record ?res)))"
    using room by (simp_all add: job_room_def journal_room_def length_attempt_payload)
  have before: "durable_log ?l (sy_disk s) = Inr ?log"
    using inv by (intro durable_log_holds) (simp add: store_inv_def)
  obtain g s1 where g: "begin_plan w1 r s = (g, s1)" by fastforce
  obtain sr st1 dk1 where ap: "store_append w1 RT_ATTEMPT (attempt_payload r) (g \<noteq> Begun_crash) (st, sy_disk s) = (sr, st1, dk1)"
    by (metis prod_cases3)
  note o = append_outcomes[OF inv room1(1) last0 ap, folded attempt_record_def, folded a_def]
  show ?thesis
  proof (cases g)
    case (Begun_rejected res)
    have "pr_plan res = None"
      using g Begun_rejected by (auto simp: begin_plan_def fenced_result_def blank_result_def split: if_splits prod.splits)
    moreover have "sy_disk s1 \<in> {sy_disk s, dk1}"
      using g ap st Begun_rejected
      by (cases sr) (auto simp: begin_plan_def append_durable_record_def split: if_splits prod.splits)
    ultimately show ?thesis using run g Begun_rejected o(1) before by (auto simp: run_plan_def)
  next
    case Begun_crash
    have "sy_disk s1 = dk1" using g ap st Begun_crash by (auto simp: begin_plan_def split: if_splits prod.splits)
    then show ?thesis using run g Begun_crash o(1) by (auto simp: run_plan_def)
  next
    case Begun_planning
    have ok: "\<exists>sq. sr = Inr sq" "sy_store s1 = Some st1" "sy_disk s1 = dk1" "sy_config s1 = sy_config s"
      using g ap st Begun_planning store_append_status(1)[of w1 RT_ATTEMPT "attempt_payload r" True st "sy_disk s"]
      by (cases sr; auto simp: begin_plan_def append_durable_record_def split: if_splits prod.splits)+
    then obtain sq where sq: "sr = Inr sq" by blast
    have st1: "store_inv st1 dk1" "st_records st1 = ?log @ [a]" "st_limits st1 = ?l"
      "st_last_sequence st1 = st_last_sequence st + 1"
      "journal_room ?l dk1 (length (snd (outcome_record ?res)))"
      using o(3)[OF sq] Begun_planning honest(1) room1(2) by (auto simp: honest_flush_def length_attempt_payload)
    have "st_last_sequence st1 < UINT64_MAX" using last st1(4) word_less_Suc[of "st_last_sequence st"]
      by (simp add: UINT64_MAX_def word_less_nat_alt unat_word_ariths)
    from commit_durable[OF ok(2) _ this, of ?res w2 out s'] st1 ok honest(2) run g Begun_planning
    have c: "durable_log ?l (sy_disk s') \<in> {Inr (?log @ [a]), Inr ((?log @ [a]) @ [next_record (fst (outcome_record ?res)) (snd (outcome_record ?res)) st1])} \<and>
      (\<forall>res' p. out = Some res' \<longrightarrow> pr_plan res' = Some p \<longrightarrow> res' = ?res \<and>
        durable_log ?l (sy_disk s') = Inr ((?log @ [a]) @ [next_record (fst (outcome_record ?res)) (snd (outcome_record ?res)) st1]))"
      by (simp add: run_plan_def)
    moreover have "next_record (fst (outcome_record ?res)) (snd (outcome_record ?res)) st1 = b"
      by (simp add: next_record_def b_def outcome_after_def st1(4))
    moreover have "dr_type b = RT_COMMITTED_PLAN \<and> dr_payload b = encode_plan_record p" if "pr_plan ?res = Some p" for p
      using that by (simp add: b_def outcome_after_def outcome_record_def)
    ultimately show ?thesis by auto
  qed
qed

section \<open>A service without a store\<close>

definition quiet_config :: service_config where
  "quiet_config = default_service_config\<lparr>cf_worker_threads := 1, cf_persist := False\<rparr>"

definition quiet_service :: "job list \<Rightarrow> nat \<Rightarrow> worker \<Rightarrow> service_stats \<Rightarrow> (job \<times> job_outcome) list \<Rightarrow> service" where
  "quiet_service q n w c dl = \<lparr>sy_config = quiet_config, sy_store = None, sy_disk = \<lparr>dk_journal = None, dk_snapshot = None\<rparr>,
     sy_last_durable = 0, sy_epoch = 1, sy_boot = 1, sy_registry = new_registry 64, sy_queue = q, sy_stopping = False,
     sy_pending = [], sy_workers = [w], sy_stats = c, sy_delivered = dl, sy_next_ticket = n, sy_crashed = False\<rparr>"

lemma quiet_start: "reachable_service (quiet_service [] 0 W_idle zero_service_stats [])"
  by (rule reachable_service.start[of quiet_config "[]" working_env "\<lparr>dk_journal = None, dk_snapshot = None\<rparr>" _
        "\<lparr>dk_journal = None, dk_snapshot = None\<rparr>"])
    (simp add: service_start_def quiet_config_def default_service_config_def quiet_service_def Let_def)

abbreviation sample_job :: job where
  "sample_job \<equiv> \<lparr>jb_task = Task_plan (request_on sample_definition), jb_ticket = 0\<rparr>"

lemma quiet_submitted: "\<exists>c. reachable_service (quiet_service [sample_job] 1 W_idle c [])"
proof -
  have "reachable_service (snd (enqueue True (Task_plan (request_on sample_definition))
      (quiet_service [] 0 W_idle zero_service_stats [])))"
    by (rule reachable_service.client[OF quiet_start client_step.submit]) (simp add: quiet_service_def)
  then show ?thesis
    by (auto simp: enqueue_def quiet_service_def quiet_config_def default_service_config_def Let_def)
qed

lemma quiet_runs:
  "internal_step\<^sup>*\<^sup>* (quiet_service [sample_job] 1 W_idle c []) (quiet_service [] 1 W_idle
     (count_plan (plan default_model_limits (request_on sample_definition)) c)
     [(sample_job, Out_plan (plan default_model_limits (request_on sample_definition)))])"
proof -
  let ?res = "plan default_model_limits (request_on sample_definition)"
  have 1: "internal_step (quiet_service [sample_job] 1 W_idle c []) (quiet_service [] 1 (W_taken sample_job) c [])"
    by (rule internal_step.take[of _ 0]) (simp_all add: take_job_def worker_at_def quiet_service_def set_worker_def)
  have 2: "internal_step (quiet_service [] 1 (W_taken sample_job) c []) (quiet_service [] 1 (W_planning sample_job) c [])"
    by (rule internal_step.begin_work[of _ honest_write 0])
      (simp_all add: begin_job_def worker_at_def quiet_service_def set_worker_def begin_plan_def append_durable_record_def)
  have 3: "internal_step (quiet_service [] 1 (W_planning sample_job) c []) (quiet_service [] 1 (W_ready sample_job (Out_plan ?res)) c [])"
    by (rule internal_step.finish_work[of _ honest_write 0])
      (simp_all add: finish_job_def worker_at_def quiet_service_def set_worker_def commit_outcome_def append_durable_record_def
        quiet_config_def default_service_config_def split: prod.split)
  have 4: "internal_step (quiet_service [] 1 (W_ready sample_job (Out_plan ?res)) c [])
      (quiet_service [] 1 W_idle (count_plan ?res c) [(sample_job, Out_plan ?res)])"
    by (rule internal_step.publish_work[of _ 0])
      (simp_all add: publish_job_def worker_at_def quiet_service_def set_worker_def deliver_def
        quiet_config_def default_service_config_def Let_def)
  show ?thesis using 1 2 3 4 by (meson rtranclp.rtrancl_into_rtrancl rtranclp.rtrancl_refl)
qed

lemma reachable_runs: "internal_step\<^sup>*\<^sup>* s s' \<Longrightarrow> reachable_service s \<Longrightarrow> reachable_service s'"
  by (induction rule: rtranclp_induct) (auto intro: reachable_service.internal)

lemma quiet_published: "\<exists>c. reachable_service (quiet_service [] 1 W_idle c
    [(sample_job, Out_plan (plan default_model_limits (request_on sample_definition)))])"
  using quiet_submitted reachable_runs[OF quiet_runs] by blast

section \<open>Properties\<close>

text \<open>C30. Every accepted job is answered at most once and none is lost: in every reachable state the
  tickets given out are exactly the answered ones, those in the queue, those a shutdown has set aside
  and those in the hands of a worker, each once. The queue stays within its configured depth.\<close>

theorem service_tickets:
  assumes "reachable_service s"
  shows "tickets s = mset [0..<sy_next_ticket s] \<and> distinct (map (\<lambda>d. jb_ticket (fst d)) (sy_delivered s)) \<and>
    length (sy_queue s) \<le> unat (cf_max_queue_depth (sy_config s))"
proof -
  have t: "tickets s = mset [0..<sy_next_ticket s]" using reachable_tickets[OF assms] by (simp add: tickets_ok_def)
  with delivered_once[OF assms] reachable_queue[OF assms] show ?thesis by (simp add: queue_ok_def)
qed

theorem service_tickets_witness:
  "\<exists>c. tickets (quiet_service [sample_job] 1 W_idle c []) = mset [0..<1]"
proof -
  obtain c where "reachable_service (quiet_service [sample_job] 1 W_idle c [])" using quiet_submitted by blast
  from service_tickets[OF this] show ?thesis by (intro exI[of _ c]) (simp add: quiet_service_def)
qed

text \<open>C29. Answers are rightful and committed before they are published. Whatever the interleaving, a plan
  or a certificate a caller receives is the planner's answer to the very request of its job, the request
  carries the service's own epoch and boot, and while the service has a store the plan stands in it as a
  committed record.\<close>

theorem service_commits_first:
  assumes "reachable_service s" "(j, Out_plan res) \<in> set (sy_delivered s)" "pr_plan res \<noteq> None \<or> pr_certificate res \<noteq> None"
  shows "(\<exists>r. jb_task j = Task_plan r \<and> res = plan (cf_model_limits (sy_config s)) r \<and>
      rq_epoch r = sy_epoch s \<and> rq_boot r = sy_boot s) \<and>
    (\<forall>p st. pr_plan res = Some p \<longrightarrow> sy_store s = Some st \<longrightarrow>
       (\<exists>d\<in>set (st_records st). dr_type d = RT_COMMITTED_PLAN \<and> dr_payload d = encode_plan_record p))"
proof -
  have "rightful s (j, Out_plan res)" using reachable_published[OF assms(1)] assms(2) by (auto simp: published_ok_def)
  with assms(3) show ?thesis using service_answer_substantial[of s _ res] by (fastforce simp: committed_def)
qed

theorem service_commits_first_witness:
  "\<exists>r. jb_task sample_job = Task_plan r \<and>
    plan default_model_limits (request_on sample_definition) = plan default_model_limits r \<and> rq_epoch r = 1 \<and> rq_boot r = 1"
proof -
  obtain c where reach: "reachable_service (quiet_service [] 1 W_idle c
      [(sample_job, Out_plan (plan default_model_limits (request_on sample_definition)))])" using quiet_published by blast
  have "pr_plan (plan default_model_limits (request_on sample_definition)) \<noteq> None"
    using found_plan_optimal[OF default_limits_ok sample_found] by blast
  with service_commits_first[OF reach, of sample_job] show ?thesis
    by (simp add: quiet_service_def quiet_config_def default_service_config_def)
qed

text \<open>C31. A shutdown completes. From a state in which the service is stopping its threads cannot run on
  for ever, and when none of them can take a step the process has crashed, or every ticket is answered,
  all workers have ended and the store is closed.\<close>

theorem service_shutdown_completes:
  assumes "reachable_service s" "sy_stopping s"
  shows "\<not> (\<exists>f. f 0 = s \<and> (\<forall>n. internal_step (f n) (f (Suc n)))) \<and>
    (\<forall>s'. internal_step\<^sup>*\<^sup>* s s' \<longrightarrow> (\<forall>s''. \<not> internal_step s' s'') \<longrightarrow> sy_crashed s' \<or>
       mset (map (\<lambda>d. jb_ticket (fst d)) (sy_delivered s')) = mset [0..<sy_next_ticket s] \<and> sy_workers s' = [] \<and> sy_store s' = None)"
proof (intro conjI allI impI)
  show "\<not> (\<exists>f. f 0 = s \<and> (\<forall>n. internal_step (f n) (f (Suc n))))" using no_endless_run by blast
  fix s' assume run: "internal_step\<^sup>*\<^sup>* s s'" and rest: "\<forall>s''. \<not> internal_step s' s''"
  note s' = internal_run[OF run assms]
  show "sy_crashed s' \<or> mset (map (\<lambda>d. jb_ticket (fst d)) (sy_delivered s')) = mset [0..<sy_next_ticket s] \<and> sy_workers s' = [] \<and> sy_store s' = None"
  proof (cases "sy_crashed s'")
    case False
    have "tickets s' = mset [0..<sy_next_ticket s]" using reachable_tickets s' by (simp add: tickets_ok_def)
    with at_rest[of s'] s' rest False show ?thesis by (simp add: tickets_def jobs_def comp_def image_mset.compositionality)
  qed simp
qed

theorem service_shutdown_completes_witness:
  "\<exists>c. \<not> (\<exists>f. f 0 = shutdown_begin (quiet_service [sample_job] 1 W_idle c []) \<and> (\<forall>n. internal_step (f n) (f (Suc n))))"
proof -
  obtain c where "reachable_service (quiet_service [sample_job] 1 W_idle c [])" using quiet_submitted by blast
  then have "reachable_service (shutdown_begin (quiet_service [sample_job] 1 W_idle c []))"
    by (rule reachable_service.client[OF _ client_step.shutdown]) (simp add: quiet_service_def)
  from service_shutdown_completes[OF this] show ?thesis by (intro exI[of _ c]) (simp add: shutdown_begin_def)
qed

text \<open>C32. The durable trace of a job, for a service whose store is in step with its disk, with room in the
  journal for both records and sequence numbers below their maximum. Whatever the file system answers and wherever the process dies, a
  restart after \<open>run_plan\<close> finds the log as it was, or with the attempt, or with the attempt and the
  outcome; and when \<open>run_plan\<close> returns a plan, the attempt and exactly this plan are durable. The file
  system is assumed to keep every byte of a write whose flush it reported as done.\<close>

theorem run_plan_durable:
  assumes "sy_store s = Some st" "job_room s st r" "honest_flush w1 88"
    "honest_flush w2 (40 + length (snd (outcome_record (plan (cf_model_limits (sy_config s)) r))))"
    and "run_plan w1 w2 r s = (out, s')"
  shows "durable_log (st_limits st) (sy_disk s') \<in> {Inr (st_records st), Inr (st_records st @ [attempt_record r st]),
      Inr (st_records st @ [attempt_record r st, outcome_after (cf_model_limits (sy_config s)) r st])} \<and>
    (\<forall>res p. out = Some res \<longrightarrow> pr_plan res = Some p \<longrightarrow> res = plan (cf_model_limits (sy_config s)) r \<and>
       durable_log (st_limits st) (sy_disk s') =
         Inr (st_records st @ [attempt_record r st, outcome_after (cf_model_limits (sy_config s)) r st]) \<and>
       dr_type (outcome_after (cf_model_limits (sy_config s)) r st) = RT_COMMITTED_PLAN \<and>
       dr_payload (outcome_after (cf_model_limits (sy_config s)) r st) = encode_plan_record p)"
  by (rule run_plan_records[OF assms])

definition nameless_request :: plan_request where
  "nameless_request = (request_on sample_definition)\<lparr>rq_id := 0\<rparr>"

definition stored_service :: service where
  "stored_service = (quiet_service [] 0 W_idle zero_service_stats [])\<lparr>sy_store := Some sample_store, sy_disk := sample_disk\<rparr>"

theorem run_plan_durable_witness:
  "durable_log default_store_limits (sy_disk (snd (run_plan honest_write cut_write nameless_request stored_service))) \<in>
    {Inr (st_records sample_store), Inr (st_records sample_store @ [attempt_record nameless_request sample_store]),
     Inr (st_records sample_store @ [attempt_record nameless_request sample_store,
       outcome_after default_model_limits nameless_request sample_store])}"
proof -
  have l: "cf_model_limits (sy_config stored_service) = default_model_limits"
    by (simp add: stored_service_def quiet_service_def quiet_config_def default_service_config_def)
  have "pr_plan (plan default_model_limits nameless_request) = None"
    by (simp add: plan_def admit_def admit_identity_def nameless_request_def Let_def guard_def first_some.simps)
  then have len: "length (snd (outcome_record (plan default_model_limits nameless_request))) = 41"
    by (simp add: outcome_record_def)
  have room: "job_room stored_service sample_store nameless_request"
    using sample_store_inv
    by (simp add: job_room_def l len) (simp add: stored_service_def sample_store_def sample_disk_def journal_room_def
        default_store_limits_def UINT64_MAX_def sample_journal_def length_frame_of)
  have "sy_store stored_service = Some sample_store" by (simp add: stored_service_def)
  from run_plan_durable[OF this room, of honest_write cut_write] show ?thesis
    by (cases "run_plan honest_write cut_write nameless_request stored_service")
      (simp add: l len honest_flush_def honest_write_def cut_write_def sample_store_def)
qed

end
