(* ===== verification/NRP_Server_Correct.thy ===== *)
theory NRP_Server_Correct
  imports NRP_Server NRP_Service_Correct
begin

text \<open>
  What holds of the framed server under every interleaving of connections, accept loop and service: how
  the frames of a connection are numbered and whose authority they carry, that an answer belongs to the
  request it answers, that connections have sessions of their own, and that no connection is left
  waiting when the service has shut down.
\<close>

section \<open>The service underneath\<close>

lemma internal_frame:
  assumes "internal_step s s'"
  shows "same_incarnation s s' \<and> set (sy_delivered s) \<subseteq> set (sy_delivered s')"
  using assms
proof cases
  case (take i)
  then show ?thesis by (auto simp: take_job_def same_incarnation_def split: if_splits list.splits)
next
  case (begin_work w i)
  from begin_work(2) show ?thesis
  proof (cases rule: begin_job_cases)
    case (1 j t)
    with durable_incarnation[OF 1(2)] show ?thesis by (simp add: durable_only_def)
  next
    case (2 j t w')
    with durable_incarnation[OF 2(2)] show ?thesis by (simp add: durable_only_def same_incarnation_def)
  qed
next
  case (finish_work w i)
  from finish_work(2) show ?thesis
  proof (rule finish_job_cases)
    fix j r oc t
    assume d: "durable_only s t" and s': "s' = (case oc of Some res \<Rightarrow> set_worker i (W_ready j (Out_plan res)) t | None \<Rightarrow> t)"
    with durable_incarnation[OF d] show ?thesis by (cases oc) (simp_all add: durable_only_def same_incarnation_def)
  qed
next
  case (publish_work i)
  from publish_work(2) show ?thesis by (rule publish_job_cases) (auto simp: same_incarnation_def)
next
  case drain
  then show ?thesis by (auto simp: shutdown_drain_def same_incarnation_def split: list.splits)
next
  case (close c)
  then show ?thesis
    by (auto simp: shutdown_finish_def same_incarnation_def split: if_splits option.splits prod.splits)
qed

lemma client_frame: "client_step s s' \<Longrightarrow> same_incarnation s s' \<and> sy_delivered s' = sy_delivered s \<and> set_mset (jobs s) \<subseteq> set_mset (jobs s')"
  by (erule client_step.cases) (auto simp: enqueue_def shutdown_begin_def same_incarnation_def jobs_def Let_def)

lemma enqueue_accepted:
  assumes "enqueue m task s = (e, s')" "status_ok e"
  shows "\<lparr>jb_task = task, jb_ticket = sy_next_ticket s\<rparr> \<in># jobs s'"
  using assms by (auto simp: enqueue_def jobs_def Let_def split: if_splits)

section \<open>Numbering of frames\<close>

text \<open>A sent frame as type, session, sequence number and payload. The first frame of a connection has
  the number 1, the following ones count from 3: \<open>serve\<close> advances the counter after the acknowledgement
  and again before each answer.\<close>

type_synonym sent_frame = "frame_type \<times> strong_id \<times> seqno \<times> bytes"

fun wire :: "epoch \<Rightarrow> boot_id \<Rightarrow> sent_frame \<Rightarrow> bytes" where
  "wire e b (t, session, sequence, payload) = encode_frame t session e b sequence payload"

fun frame_numbers :: "nat \<Rightarrow> seqno list" where
  "frame_numbers 0 = []"
| "frame_numbers (Suc n) = 1 # map of_nat [3..<n + 3]"

lemma frame_numbers_Suc: "0 < n \<Longrightarrow> frame_numbers (Suc n) = frame_numbers n @ [of_nat (n + 2)]"
  by (cases n) (simp_all add: numeral_3_eq_3)

lemma frame_numbers_increase: "n < 2 ^ 63 \<Longrightarrow> sorted_wrt (<) (frame_numbers n)"
proof (cases n)
  case (Suc m)
  assume n: "n < 2 ^ 63"
  have u: "unat (of_nat k :: seqno) = k" if "k < m + 3" for k
    using that n Suc by (simp add: unat_of_nat)
  have "sorted_wrt (<) (map (of_nat :: nat \<Rightarrow> seqno) [3..<m + 3])"
    unfolding sorted_wrt_map by (rule sorted_wrt_mono_rel[OF _ sorted_wrt_upt]) (auto simp: word_less_nat_alt u)
  then show ?thesis using Suc u by (auto simp: word_less_nat_alt)
qed simp

text \<open>Whose answer a frame may carry.\<close>

definition answers :: "(job \<times> job_outcome) list \<Rightarrow> frame_type \<Rightarrow> bytes \<Rightarrow> bool" where
  "answers ds t payload \<longleftrightarrow>
     (t = FT_PLAN_RESPONSE \<longrightarrow> (\<exists>j res. (j, Out_plan res) \<in> set ds \<and> payload = encode_plan_response res)) \<and>
     (t = FT_VALIDATE_RESPONSE \<longrightarrow> (\<exists>j rep. (j, Out_report rep) \<in> set ds \<and> payload = encode_validate_response rep))"

definition at_frame :: "connection \<Rightarrow> nat \<Rightarrow> bool" where
  "at_frame c n \<longleftrightarrow> (if cx_handshake_complete c then 0 < n \<and> cx_server_sequence c = of_nat (n + 1)
     else n = 0 \<and> cx_server_sequence c = 0 \<and> cx_session c = 0 \<and> cx_waiting c = None)"

definition sent_ok :: "epoch \<Rightarrow> boot_id \<Rightarrow> (job \<times> job_outcome) list \<Rightarrow> connection \<Rightarrow> sent_frame list \<Rightarrow> bool" where
  "sent_ok e b ds c fs \<longleftrightarrow> cx_sent c = map (wire e b) fs \<and> map (\<lambda>f. fst (snd (snd f))) fs = frame_numbers (length fs) \<and>
     (\<forall>(t, session, q, payload)\<in>set fs. t \<noteq> FT_COUNT \<and> session = cx_session c \<and> answers ds t payload)"

definition connection_ok :: "epoch \<Rightarrow> boot_id \<Rightarrow> (job \<times> job_outcome) list \<Rightarrow> connection \<Rightarrow> bool" where
  "connection_ok e b ds c \<longleftrightarrow> (\<exists>fs. sent_ok e b ds c fs \<and> (cx_open c \<longrightarrow> at_frame c (length fs)))"

lemma connection_ok_mono: "set ds \<subseteq> set ds' \<Longrightarrow> connection_ok e b ds c \<Longrightarrow> connection_ok e b ds' c"
  by (fastforce simp: connection_ok_def sent_ok_def answers_def)

lemma connection_ok_cong:
  "connection_ok e b ds c \<Longrightarrow> cx_sent c' = cx_sent c \<Longrightarrow> cx_session c' = cx_session c \<Longrightarrow>
   (cx_open c' \<Longrightarrow> cx_open c \<and> cx_handshake_complete c' = cx_handshake_complete c \<and> cx_server_sequence c' = cx_server_sequence c \<and>
     (cx_waiting c' = None \<or> cx_handshake_complete c')) \<Longrightarrow> connection_ok e b ds c'"
  by (auto simp: connection_ok_def sent_ok_def at_frame_def)

text \<open>One more frame, with the next number.\<close>

lemma sent_ok_snoc:
  assumes ok: "sent_ok e b ds c fs" and at: "at_frame c (length fs)"
    and c': "cx_sent c' = cx_sent c @ [encode_frame t session e b q payload]" "cx_session c' = session"
    and q: "q = (if fs = [] then 1 else next_sequence c)" and s: "fs = [] \<or> session = cx_session c"
    and t: "t \<noteq> FT_COUNT" "answers ds t payload"
  shows "sent_ok e b ds c' (fs @ [(t, session, q, payload)])"
proof -
  have "frame_numbers (Suc (length fs)) = frame_numbers (length fs) @ [q]"
  proof (cases "fs = []")
    case False
    then have "q = of_nat (length fs + 2)"
      using at q by (simp add: at_frame_def next_sequence_def split: if_splits)
    then show ?thesis using False frame_numbers_Suc[of "length fs"] by simp
  qed (simp add: q)
  then show ?thesis using ok c' s t by (auto simp: sent_ok_def)
qed

section \<open>Invariant of the server\<close>

definition server_connection :: "server \<Rightarrow> connection \<Rightarrow> bool" where
  "server_connection s c \<longleftrightarrow> connection_ok (sv_epoch s) (sv_boot s) (sy_delivered (sv_service s)) c \<and>
     (\<forall>j. cx_waiting c = Some j \<longrightarrow> j \<in># jobs (sv_service s))"

definition server_ok :: "server \<Rightarrow> bool" where
  "server_ok s \<longleftrightarrow> reachable_service (sv_service s) \<and> sv_epoch s = sy_epoch (sv_service s) \<and>
     sv_boot s = sy_boot (sv_service s) \<and> (\<forall>c\<in>set (sv_connections s). server_connection s c)"

text \<open>Changes of counters and of the session table do not matter to it.\<close>

lemma server_ok_cong:
  "server_ok s \<Longrightarrow> sv_service s' = sv_service s \<Longrightarrow> sv_epoch s' = sv_epoch s \<Longrightarrow> sv_boot s' = sv_boot s \<Longrightarrow>
   sv_connections s' = sv_connections s \<Longrightarrow> server_ok s'"
  by (auto simp add: server_ok_def server_connection_def)

lemma server_connection_cong:
  "server_connection s c \<Longrightarrow> sv_service s' = sv_service s \<Longrightarrow> sv_epoch s' = sv_epoch s \<Longrightarrow> sv_boot s' = sv_boot s \<Longrightarrow>
   server_connection s' c"
  by (simp add: server_connection_def)

lemma set_connection_ok: "server_ok s \<Longrightarrow> server_connection s c \<Longrightarrow> server_ok (set_connection i c s)"
  using set_update_subset_insert[of "sv_connections s" i c]
  by (auto simp: server_ok_def set_connection_def server_connection_def)

lemma end_connection_ok:
  assumes "server_ok s" "server_connection s c" shows "server_ok (end_connection i c s)"
proof -
  have "server_connection s (c\<lparr>cx_open := False\<rparr>)"
    using assms(2) connection_ok_cong[of _ _ _ c "c\<lparr>cx_open := False\<rparr>"] by (simp add: server_connection_def)
  then show ?thesis unfolding end_connection_def
    by (intro set_connection_ok) (auto intro: server_ok_cong[OF assms(1)] elim: server_connection_cong)
qed

lemma stats_simps [simp]:
  "sv_service (count_rejected s) = sv_service s" "sv_epoch (count_rejected s) = sv_epoch s" "sv_boot (count_rejected s) = sv_boot s"
  "sv_connections (count_rejected s) = sv_connections s" "sv_sessions (count_rejected s) = sv_sessions s"
  "sv_service (count_sticky s) = sv_service s" "sv_epoch (count_sticky s) = sv_epoch s" "sv_boot (count_sticky s) = sv_boot s"
  "sv_connections (count_sticky s) = sv_connections s" "sv_sessions (count_sticky s) = sv_sessions s"
  by (simp_all add: count_rejected_def count_sticky_def)

text \<open>A closing error and an ordinary answer.\<close>

lemma closing_error_ok:
  assumes c: "server_connection s c" "cx_open c" and s': "sv_epoch s' = sv_epoch s" "sv_boot s' = sv_boot s"
  shows "server_connection s ((send_error s' (cx_session c) (next_sequence c) code t c)\<lparr>cx_open := False\<rparr>)"
proof -
  obtain fs where fs: "sent_ok (sv_epoch s) (sv_boot s) (sy_delivered (sv_service s)) c fs" "at_frame c (length fs)"
    using c by (auto simp: server_connection_def connection_ok_def)
  have "next_sequence c = (if fs = [] then 1 else next_sequence c)"
    using fs(2) by (auto simp: at_frame_def next_sequence_def split: if_splits)
  note sent_ok_snoc[OF fs _ _ this, where session = "cx_session c" and t = FT_ERROR_FRAME
      and payload = "encode_error_payload \<lparr>ep_code = fst code, ep_reason = snd code, ep_text = t\<rparr>"
      and c' = "(send_error s' (cx_session c) (next_sequence c) code t c)\<lparr>cx_open := False\<rparr>"]
  then show ?thesis
    using c(1) by (auto simp: server_connection_def connection_ok_def send_error_def send_frame_def s' answers_def)
qed

lemma refuse_ok:
  assumes s: "server_ok s" and c: "server_connection s c" "cx_open c" and s': "s' = s \<or> s' = count_rejected s"
  shows "server_ok (refuse i (cx_session c) (next_sequence c) code t c s')"
proof -
  let ?c = "send_error s' (cx_session c) (next_sequence c) code t c"
  have "end_connection i ?c (count_sticky s') = set_connection i (?c\<lparr>cx_open := False\<rparr>)
      (if cx_handshake_complete c then (count_sticky s')\<lparr>sv_sessions := snd (registry_release (cx_session c) (sv_sessions s))\<rparr>
       else count_sticky s')"
    using s' by (auto simp: end_connection_def send_error_def send_frame_def)
  moreover have "server_connection s (?c\<lparr>cx_open := False\<rparr>)"
    by (rule closing_error_ok[OF c]) (use s' in auto)
  ultimately show ?thesis unfolding refuse_def using s'
    by (auto intro!: set_connection_ok intro: server_ok_cong[OF s] elim: server_connection_cong)
qed

lemma answer_ok:
  assumes s: "server_ok s" and c: "server_connection s c" "cx_open c" "cx_handshake_complete c"
    and t: "t \<noteq> FT_COUNT" "answers (sy_delivered (sv_service s)) t payload"
  shows "server_ok (answer i t payload c s)"
proof -
  obtain fs where fs: "sent_ok (sv_epoch s) (sv_boot s) (sy_delivered (sv_service s)) c fs" "at_frame c (length fs)"
    using c by (auto simp: server_connection_def connection_ok_def)
  have ne: "fs \<noteq> []" using fs(2) c(3) by (auto simp: at_frame_def)
  let ?c = "(send_frame s t (cx_session c) (next_sequence c) payload c)\<lparr>cx_server_sequence := cx_server_sequence c + 1\<rparr>"
  have "sent_ok (sv_epoch s) (sv_boot s) (sy_delivered (sv_service s)) ?c (fs @ [(t, cx_session c, next_sequence c, payload)])"
    by (rule sent_ok_snoc[OF fs]) (use ne t in \<open>simp_all add: send_frame_def\<close>)
  moreover have "at_frame ?c (length (fs @ [(t, cx_session c, next_sequence c, payload)]))"
    using fs(2) c(3) by (simp add: at_frame_def send_frame_def add.commute)
  ultimately have "server_connection s ?c"
    using c(1) unfolding server_connection_def connection_ok_def by (auto simp: send_frame_def)
  then show ?thesis unfolding answer_def by (rule set_connection_ok[OF s])
qed

lemma answer_error_ok:
  "server_ok s \<Longrightarrow> server_connection s c \<Longrightarrow> cx_open c \<Longrightarrow> cx_handshake_complete c \<Longrightarrow> server_ok (answer_error i e c s)"
  unfolding answer_error_def by (rule answer_ok) (simp_all add: answers_def)

text \<open>Steps of the service.\<close>

definition service_grows :: "service \<Rightarrow> service \<Rightarrow> bool" where
  "service_grows s t \<longleftrightarrow> reachable_service t \<and> sy_epoch t = sy_epoch s \<and> sy_boot t = sy_boot s \<and>
     set (sy_delivered s) \<subseteq> set (sy_delivered t) \<and> set_mset (jobs s) \<subseteq> set_mset (jobs t)"

lemma internal_grows: "reachable_service s \<Longrightarrow> internal_step s t \<Longrightarrow> service_grows s t"
  using internal_frame[of s t] internal_jobs[of s t] reachable_service.internal[of s t]
  by (simp add: service_grows_def same_incarnation_def)

lemma client_grows: "reachable_service s \<Longrightarrow> client_step s t \<Longrightarrow> service_grows s t"
  using client_frame[of s t] reachable_service.client[of s t] by (simp add: service_grows_def same_incarnation_def)

lemma service_connection:
  "service_grows (sv_service s) svc \<Longrightarrow> server_connection s c \<Longrightarrow> server_connection (s\<lparr>sv_service := svc\<rparr>) c"
  using connection_ok_mono[of "sy_delivered (sv_service s)" "sy_delivered svc"]
  by (auto simp: server_connection_def service_grows_def)

lemma service_ok: "service_grows (sv_service s) svc \<Longrightarrow> server_ok s \<Longrightarrow> server_ok (s\<lparr>sv_service := svc\<rparr>)"
  using service_connection[of s svc] by (auto simp: server_ok_def service_grows_def)

lemma call_service_ok:
  assumes s: "server_ok s" "\<not> sy_crashed (sv_service s)" and c: "server_connection s c" "cx_open c" "cx_handshake_complete c"
  shows "server_ok (call_service i task (enqueue m task (sv_service s)) c s)"
proof -
  obtain e svc where q: "enqueue m task (sv_service s) = (e, svc)" by fastforce
  have "client_step (sv_service s) svc" using client_step.submit[OF s(2), of m task] q by simp
  then have g: "service_grows (sv_service s) svc" using client_grows s(1) by (simp add: server_ok_def)
  let ?s = "s\<lparr>sv_service := svc\<rparr>"
  note ok = service_ok[OF g s(1)] service_connection[OF g c(1)]
  show ?thesis
  proof (cases "status_ok e")
    case True
    let ?c = "c\<lparr>cx_waiting := Some \<lparr>jb_task = task, jb_ticket = sy_next_ticket (sv_service s)\<rparr>\<rparr>"
    have "server_connection ?s ?c"
      using ok(2) enqueue_accepted[OF q True] c(2,3) connection_ok_cong[of _ _ _ c ?c] by (simp add: server_connection_def)
    from set_connection_ok[OF ok(1) this] True show ?thesis by (simp add: call_service_def q)
  next
    case False
    with answer_error_ok[OF ok c(2,3)] show ?thesis by (simp add: call_service_def q)
  qed
qed

text \<open>Steps of a connection.\<close>

lemma greet_ok:
  assumes s: "server_ok s" and c: "server_connection s c" "cx_open c" "\<not> cx_handshake_complete c"
  shows "server_ok (greet sent i f c s)"
proof -
  obtain fs where fs: "sent_ok (sv_epoch s) (sv_boot s) (sy_delivered (sv_service s)) c fs" "at_frame c (length fs)"
    using c by (auto simp: server_connection_def connection_ok_def)
  then have none: "fs = []" "cx_session c = 0" "next_sequence c = 1" "cx_waiting c = None"
    using c(3) by (simp_all add: at_frame_def next_sequence_def)
  note refused = refuse_ok[OF s c(1,2), of s i, simplified none, simplified]
  show ?thesis
  proof (cases "fh_type (fr_header f) = raw_frame_type FT_HELLO")
    case hello: True
    show ?thesis
    proof (cases "decode_hello (fr_payload f)")
      case (Inl e)
      then show ?thesis using hello refused by (simp add: greet_def)
    next
      case (Inr nonce)
      obtain cr g where cr: "registry_create (sv_epoch s) (sv_boot s) nonce (sv_sessions s) = (cr, g)" by fastforce
      let ?s = "s\<lparr>sv_sessions := g\<rparr>"
      have sok: "server_ok ?s" by (rule server_ok_cong[OF s]) simp_all
      show ?thesis
      proof (cases cr)
        case (Inl e)
        let ?code = "(EC_SESSION_LIMIT, RC_SESSION_LIMIT_REACHED)"
        let ?t = "?s\<lparr>sv_stats := (sv_stats s)\<lparr>vs_connections_rejected := vs_connections_rejected (sv_stats s) + 1\<rparr>\<rparr>"
        have tok: "server_ok ?t" by (rule server_ok_cong[OF s]) simp_all
        have "server_connection ?t ((send_error s 0 1 ?code (st_message e) c)\<lparr>cx_open := False\<rparr>)"
          using closing_error_ok[OF c(1,2), of s ?code "st_message e"] none by (simp add: server_connection_def)
        from set_connection_ok[OF tok this] show ?thesis
          using hello Inr cr Inl c(3) by (simp add: greet_def end_connection_def send_error_def send_frame_def)
      next
        case r: (Inr r)
        let ?ack = "encode_hello_ack \<lparr>ha_session = ssn_id r, ha_epoch = sv_epoch s, ha_boot = sv_boot s, ha_server_nonce = 1,
            ha_next_sequence = 2\<rparr>"
        let ?c = "send_frame ?s FT_HELLO_ACK (ssn_id r) 1 ?ack
            (c\<lparr>cx_session := ssn_id r, cx_server_sequence := 1, cx_handshake_complete := True\<rparr>)"
        have sent: "sent_ok (sv_epoch s) (sv_boot s) (sy_delivered (sv_service s)) c' [(FT_HELLO_ACK, ssn_id r, 1, ?ack)]"
          if "cx_sent c' = cx_sent ?c" "cx_session c' = ssn_id r" for c'
          using fs(1) none that by (simp add: sent_ok_def send_frame_def answers_def)
        have closed: "server_connection ?s (?c\<lparr>cx_open := False\<rparr>)"
          using sent[of "?c\<lparr>cx_open := False\<rparr>"] none
          by (auto simp: server_connection_def connection_ok_def send_frame_def)
        have going: "server_connection ?s (?c\<lparr>cx_server_sequence := 2\<rparr>)"
          using sent[of "?c\<lparr>cx_server_sequence := 2\<rparr>"] none unfolding server_connection_def connection_ok_def
          by (intro conjI exI[of _ "[(FT_HELLO_ACK, ssn_id r, 1, ?ack)]"]) (simp_all add: send_frame_def at_frame_def)
        have "server_ok (end_connection i ?c ?s)"
          unfolding end_connection_def
          by (rule set_connection_ok[OF server_ok_cong[OF s] server_connection_cong[OF closed]]) simp_all
        with set_connection_ok[OF sok going] show ?thesis
          using hello Inr cr r by (simp add: greet_def Let_def)
      qed
    qed
  qed (simp add: greet_def refused)
qed

lemma serve_request_ok:
  assumes s: "server_ok s" "\<not> sy_crashed (sv_service s)" and c: "server_connection s c" "cx_open c" "cx_handshake_complete c"
  shows "server_ok (serve_request i f c s)"
proof -
  have refused: "server_ok (refuse i (cx_session c) (next_sequence c) code t c s)" for code t
    by (rule refuse_ok[OF s(1) c(1,2)]) simp
  have status: "server_ok (answer i FT_STATUS_RESPONSE payload c s)" for payload
    by (rule answer_ok[OF s(1) c]) (simp_all add: answers_def)
  note parts = refused status call_service_ok[OF s c] end_connection_ok[OF s(1) c(1)]
  show ?thesis
    by (simp add: serve_request_def Let_def refuse_payload_def service_plan_def service_validate_def parts
        split: sum.split prod.split)
qed

lemma buffer_connection:
  "server_connection s c \<Longrightarrow> cx_open c \<Longrightarrow> server_connection s (c\<lparr>cx_buffer := b\<rparr>)"
  by (auto simp: server_connection_def connection_ok_def sent_ok_def at_frame_def)

lemma serve_frame_ok:
  assumes s: "server_ok s" "\<not> sy_crashed (sv_service s)" and c: "server_connection s c" "cx_open c"
  shows "server_ok (serve_frame sent i c s)"
proof (cases "decode_frame (cx_buffer c) (pt_max_payload_bytes (sv_limits s))")
  case (Inl e)
  have "server_ok (refuse i (cx_session c) (next_sequence c) (map_status e) (st_message e) c (count_rejected s))"
    by (rule refuse_ok[OF s(1) c]) simp
  then show ?thesis by (simp add: serve_frame_def Inl)
next
  case (Inr d)
  obtain f consumed where d: "d = (f, consumed)" by fastforce
  let ?c = "c\<lparr>cx_buffer := drop consumed (cx_buffer c)\<rparr>"
  let ?s = "s\<lparr>sv_stats := (sv_stats s)\<lparr>vs_frames_received := vs_frames_received (sv_stats s) + 1\<rparr>\<rparr>"
  have sok: "server_ok ?s" by (rule server_ok_cong[OF s(1)]) simp_all
  have cok: "server_connection ?s ?c" by (rule server_connection_cong[OF buffer_connection[OF c]]) simp_all
  show ?thesis
  proof (cases "cx_handshake_complete c")
    case False
    with greet_ok[OF sok cok] c(2) show ?thesis by (simp add: serve_frame_def Inr d)
  next
    case True
    let ?h = "fr_header f"
    obtain e g where a: "registry_accept (fh_session_id ?h) (fh_epoch ?h) (fh_boot ?h) (fh_sequence ?h) (sv_sessions s) = (e, g)"
      by fastforce
    let ?t = "?s\<lparr>sv_sessions := g\<rparr>"
    have tok: "server_ok ?t" by (rule server_ok_cong[OF s(1)]) simp_all
    have ctok: "server_connection ?t ?c" by (rule server_connection_cong[OF cok]) simp_all
    show ?thesis
      using serve_request_ok[OF tok _ ctok] refuse_ok[OF tok ctok, of ?t] c(2) True s(2)
      by (simp add: serve_frame_def Inr d a next_sequence_def Let_def)
  qed
qed

lemma receive_chunk_ok:
  assumes s: "server_ok s" and c: "server_connection s c" "cx_open c"
  shows "server_ok (receive_chunk input i c s)"
proof -
  have "server_ok (count_sticky (count_rejected s))" by (rule server_ok_cong[OF s]) simp_all
  moreover have "server_connection (count_sticky (count_rejected s)) (c\<lparr>cx_buffer := b\<rparr>)" for b
    by (rule server_connection_cong[OF buffer_connection[OF c]]) simp_all
  ultimately show ?thesis
    using end_connection_ok[OF s c(1)] set_connection_ok[OF s buffer_connection[OF c]]
    by (simp add: receive_chunk_def Let_def end_connection_ok split: option.split)
qed

lemma live_connectionD: "live_connection i s = Some c \<Longrightarrow> i < length (sv_connections s) \<and> c = sv_connections s ! i \<and> cx_open (sv_connections s ! i)"
  by (auto simp: live_connection_def split: if_splits)

lemma live_connection_ok: "server_ok s \<Longrightarrow> live_connection i s = Some c \<Longrightarrow> server_connection s c \<and> cx_open c"
  using live_connectionD[of i s c] by (auto simp: server_ok_def)

lemma serve_step_ok:
  assumes "server_ok s" "\<not> sy_crashed (sv_service s)" "serve_step sent input i s = Some s'"
  shows "server_ok s'"
proof -
  obtain c where c: "live_connection i s = Some c" using assms(3) by (auto simp: serve_step_def split: option.splits)
  note live = live_connection_ok[OF assms(1) c]
  have "server_ok (refuse i (cx_session c) (next_sequence c) code t c (count_rejected s))" for code t
    by (rule refuse_ok[OF assms(1)]) (use live in auto)
  then show ?thesis
    using assms(3) c live end_connection_ok[OF assms(1)] receive_chunk_ok[OF assms(1)] serve_frame_ok[OF assms(1,2)]
    by (auto simp: serve_step_def split: if_splits intake.splits)
qed

text \<open>A connection that waits has shaken hands.\<close>

lemma waiting_handshake: "server_connection s c \<Longrightarrow> cx_open c \<Longrightarrow> cx_waiting c = Some j \<Longrightarrow> cx_handshake_complete c"
  by (auto simp: server_connection_def connection_ok_def at_frame_def split: if_splits)

definition respond :: "nat \<Rightarrow> job_outcome \<Rightarrow> connection \<Rightarrow> server \<Rightarrow> server" where
  "respond i out c s = (case out of
       Out_plan res \<Rightarrow> answer i FT_PLAN_RESPONSE (encode_plan_response res) c s
     | Out_report report \<Rightarrow> answer i FT_VALIDATE_RESPONSE (encode_validate_response report) c s
     | Out_error e \<Rightarrow> answer_error i e c s)"

text \<open>The outcome a connection resumes with is that of its own job.\<close>

lemma resume_cases:
  assumes ok: "server_ok s" and r: "resume_step i s = Some s'"
  obtains c j out where "live_connection i s = Some c" "cx_waiting c = Some j" "(j, out) \<in> set (sy_delivered (sv_service s))"
    "server_connection s (c\<lparr>cx_waiting := None\<rparr>)" "cx_open c" "cx_handshake_complete c"
    "s' = respond i out (c\<lparr>cx_waiting := None\<rparr>) s"
proof -
  obtain c j where c: "live_connection i s = Some c" "cx_waiting c = Some j"
    using r by (auto simp: resume_step_def split: option.splits)
  obtain k out where k: "find (\<lambda>d. jb_ticket (fst d) = jb_ticket j) (sy_delivered (sv_service s)) = Some (k, out)"
    using r c by (auto simp: resume_step_def split: option.splits)
  then have mem: "(k, out) \<in> set (sy_delivered (sv_service s))" "jb_ticket k = jb_ticket j" by (auto simp: find_Some_iff) (metis fst_conv)
  note live = live_connection_ok[OF ok c(1)]
  let ?c = "c\<lparr>cx_waiting := None\<rparr>"
  have "k \<in># jobs (sv_service s)" using mem(1) by (force simp: jobs_def)
  moreover have "j \<in># jobs (sv_service s)" using live c(2) by (simp add: server_connection_def)
  ultimately have "k = j" using reachable_distinct[of "sv_service s" k j] mem(2) ok by (simp add: server_ok_def)
  moreover have "server_connection s ?c"
    using live connection_ok_cong[of "sv_epoch s" "sv_boot s" "sy_delivered (sv_service s)" c ?c]
    by (simp add: server_connection_def)
  moreover have "s' = respond i out ?c s" using r c k by (simp add: resume_step_def respond_def Let_def)
  ultimately show thesis
    using that[OF c, of out] mem live waiting_handshake[of s c j] c(2) by simp
qed

lemma resume_step_ok:
  assumes "server_ok s" "resume_step i s = Some s'" shows "server_ok s'"
proof (rule resume_cases[OF assms])
  fix c j out
  assume d: "(j, out) \<in> set (sy_delivered (sv_service s))" and s': "s' = respond i out (c\<lparr>cx_waiting := None\<rparr>) s"
    and c: "server_connection s (c\<lparr>cx_waiting := None\<rparr>)" "cx_open c" "cx_handshake_complete c"
  show ?thesis
  proof (cases out)
    case (Out_plan res)
    have "server_ok (answer i FT_PLAN_RESPONSE (encode_plan_response res) (c\<lparr>cx_waiting := None\<rparr>) s)"
      by (rule answer_ok[OF assms(1) c(1)]) (use c d Out_plan in \<open>auto simp: answers_def\<close>)
    then show ?thesis by (simp add: s' respond_def Out_plan)
  next
    case (Out_report rep)
    have "server_ok (answer i FT_VALIDATE_RESPONSE (encode_validate_response rep) (c\<lparr>cx_waiting := None\<rparr>) s)"
      by (rule answer_ok[OF assms(1) c(1)]) (use c d Out_report in \<open>auto simp: answers_def\<close>)
    then show ?thesis by (simp add: s' respond_def Out_report)
  qed (use answer_error_ok[OF assms(1) c(1)] c s' in \<open>simp add: respond_def\<close>)
qed

lemma accept_step_ok:
  assumes "server_ok s" "accept_step s = Some s'" shows "server_ok s'"
proof -
  let ?code = "(EC_SESSION_LIMIT, RC_SESSION_LIMIT_REACHED)"
  have new: "server_connection s new_connection"
    by (auto simp: server_connection_def connection_ok_def sent_ok_def new_connection_def at_frame_def intro: exI[of _ "[]"])
  then have "server_connection s ((send_error s 0 1 ?code ''session limit reached'' new_connection)\<lparr>cx_open := False\<rparr>)"
    using closing_error_ok[OF new, of s ?code "''session limit reached''"] by (simp add: new_connection_def next_sequence_def)
  with assms new show ?thesis
    by (auto simp: accept_step_def server_ok_def server_connection_def split: if_splits)
qed

lemma server_step_ok: "server_step s s' \<Longrightarrow> server_ok s \<Longrightarrow> server_ok s'"
proof (induction rule: server_step.induct)
  case (work s svc)
  then show ?case using service_ok[OF internal_grows[OF _ work(1)]] by (simp add: server_ok_def)
next
  case (others s svc)
  then show ?case using service_ok[OF client_grows[OF _ others(1)]] by (simp add: server_ok_def)
next
  case (stop s)
  show ?case by (rule server_ok_cong[OF stop(2)]) (simp_all add: server_shutdown_def)
qed (auto intro: accept_step_ok serve_step_ok resume_step_ok)

lemma reachable_server_ok: "reachable_server s \<Longrightarrow> server_ok s"
proof (induction rule: reachable_server.induct)
  case (start svc m env s)
  then show ?case by (auto simp: server_start_def server_ok_def split: if_splits)
qed (rule server_step_ok)

section \<open>Sessions of connections\<close>

definition open_ids :: "session_registry \<Rightarrow> strong_id set" where
  "open_ids g = {ssn_id r | r. r \<in> set (rg_sessions g) \<and> \<not> ssn_closed r}"

lemma open_ids_image: "open_ids g = ssn_id ` set (filter (\<lambda>r. \<not> ssn_closed r) (rg_sessions g))"
  by (auto simp: open_ids_def)

lemma find_index_SomeD: "find_index P xs = Some k \<Longrightarrow> k < length xs \<and> P (xs ! k)"
  by (simp add: find_index_Some)

lemma accept_open_ids:
  assumes "registry_accept i e b q g = (st, g')"
  shows "open_ids g' = open_ids g \<and> rg_next_id g' = rg_next_id g \<and> (registry_ok g \<longrightarrow> registry_ok g')"
proof (cases "find_index (open_session i) (rg_sessions g)")
  case (Some k)
  let ?r = "(rg_sessions g ! k)\<lparr>ssn_last_client_sequence := q, ssn_active_requests := ssn_active_requests (rg_sessions g ! k) + 1\<rparr>"
  have k: "k < length (rg_sessions g)" using find_index_SomeD[OF Some] by simp
  have "map (\<lambda>r. (ssn_id r, ssn_closed r)) ((rg_sessions g)[k := ?r]) = map (\<lambda>r. (ssn_id r, ssn_closed r)) (rg_sessions g)"
    by (rule map_update_same) simp
  from arg_cong[OF this, of set]
  have "(\<lambda>r. (ssn_id r, ssn_closed r)) ` set ((rg_sessions g)[k := ?r]) = (\<lambda>r. (ssn_id r, ssn_closed r)) ` set (rg_sessions g)"
    by (simp only: list.set_map)
  moreover have "open_ids h = {i. (i, False) \<in> (\<lambda>r. (ssn_id r, ssn_closed r)) ` set (rg_sessions h)}" for h
    by (auto simp: open_ids_def image_iff)
  ultimately have ids: "open_ids (g\<lparr>rg_sessions := (rg_sessions g)[k := ?r]\<rparr>) = open_ids g" by simp
  have ok: "registry_ok (g\<lparr>rg_sessions := (rg_sessions g)[k := ?r]\<rparr>)" if "registry_ok g"
    by (rule registry_keep[OF that]) simp
  have "g' = g \<or> g' = g\<lparr>rg_sessions := (rg_sessions g)[k := ?r]\<rparr>"
    using assms Some by (simp add: registry_accept_def Let_def split: if_splits)
  then show ?thesis
  proof
    assume "g' = g\<lparr>rg_sessions := (rg_sessions g)[k := ?r]\<rparr>"
    then show ?thesis using ids ok by simp
  qed simp
qed (use assms in \<open>simp add: registry_accept_def del: find_index_None\<close>)

lemma distinct_same: "distinct (map f xs) \<Longrightarrow> x \<in> set xs \<Longrightarrow> y \<in> set xs \<Longrightarrow> f x = f y \<Longrightarrow> x = y"
  by (metis distinct_map inj_onD)

lemma release_open_ids:
  assumes ok: "registry_ok g"
  shows "open_ids (snd (registry_release i g)) = open_ids g - {i} \<and> registry_ok (snd (registry_release i g)) \<and>
    rg_next_id (snd (registry_release i g)) = rg_next_id g"
proof (cases "find_index (\<lambda>r. ssn_id r = i) (rg_sessions g)")
  case None
  have same: "snd (registry_release i g) = g" using None by (simp add: registry_release_def del: find_index_None)
  have "\<forall>r\<in>set (rg_sessions g). ssn_id r \<noteq> i" using None by simp
  then show ?thesis using ok by (auto simp: same open_ids_def)
next
  case (Some k)
  let ?xs = "rg_sessions g" let ?r = "(?xs ! k)\<lparr>ssn_closed := True, ssn_active_requests := 0\<rparr>"
  have k: "k < length ?xs" "ssn_id (?xs ! k) = i" using find_index_SomeD[OF Some] by simp_all
  have d: "distinct (map ssn_id ?xs)" using ok by (simp add: registry_ok_def)
  have "distinct ?xs" using d by (simp add: distinct_map)
  have set: "set (?xs[k := ?r]) = insert ?r (set ?xs - {?xs ! k})"
    using set_update_distinct[OF \<open>distinct ?xs\<close> k(1), of ?r] .
  have "ssn_id r \<noteq> i" if "r \<in> set ?xs - {?xs ! k}" for r
    using that distinct_same[OF d, of r "?xs ! k"] k by auto
  then have "open_ids (g\<lparr>rg_sessions := ?xs[k := ?r]\<rparr>) = open_ids g - {i}"
    using k by (auto simp: open_ids_def set)
  moreover have "registry_ok (g\<lparr>rg_sessions := ?xs[k := ?r]\<rparr>)" by (rule registry_keep[OF ok]) simp
  ultimately show ?thesis by (simp add: registry_release_def Some)
qed

lemma create_open_ids:
  assumes ok: "registry_ok g" and c: "registry_create e b nonce g = (Inr r, g')"
  shows "ssn_id r = rg_next_id g \<and> open_ids g' = insert (rg_next_id g) (open_ids g) \<and> rg_next_id g' = rg_next_id g + 1"
proof (cases "find_index ssn_closed (rg_sessions g)")
  case None
  then have "rg_sessions g' = rg_sessions g @ [r]" "r = fresh_session (rg_next_id g) e b nonce" "rg_next_id g' = rg_next_id g + 1"
    using c by (auto simp: registry_create_def Let_def simp del: find_index_None split: if_splits)
  then show ?thesis by (auto simp: open_ids_image fresh_session_def)
next
  case (Some k)
  let ?xs = "rg_sessions g" let ?r = "fresh_session (rg_next_id g) e b nonce"
  have k: "k < length ?xs" "ssn_closed (?xs ! k)" using find_index_SomeD[OF Some] by simp_all
  have "distinct (map ssn_id ?xs)" using ok by (simp add: registry_ok_def)
  then have set: "set (?xs[k := ?r]) = insert ?r (set ?xs - {?xs ! k})"
    using set_update_distinct[of ?xs k ?r] k(1) by (simp add: distinct_map)
  have fresh: "ssn_id ?r = rg_next_id g" "\<not> ssn_closed ?r" by (simp_all add: fresh_session_def)
  have "open_ids (g\<lparr>rg_sessions := ?xs[k := ?r], rg_next_id := rg_next_id g + 1\<rparr>) = insert (rg_next_id g) (open_ids g)"
    using k fresh by (auto simp: open_ids_image set) (rule image_eqI[of _ _ ?r], simp_all)
  then show ?thesis using c Some by (auto simp: registry_create_def Let_def fresh_session_def)
qed

text \<open>Connections that have shaken hands have sessions of their own, and the open sessions are those of
  the live connections.\<close>

definition session_live :: "connection \<Rightarrow> bool" where
  "session_live c \<longleftrightarrow> cx_open c \<and> cx_handshake_complete c"

definition sessions_match :: "connection list \<Rightarrow> session_registry \<Rightarrow> bool" where
  "sessions_match cs g \<longleftrightarrow> registry_ok g \<and> unat (rg_next_id g) \<le> Suc (length (filter cx_handshake_complete cs)) \<and>
     (\<forall>i<length cs. \<forall>k<length cs. cx_handshake_complete (cs ! i) \<longrightarrow> cx_handshake_complete (cs ! k) \<longrightarrow>
        cx_session (cs ! i) = cx_session (cs ! k) \<longrightarrow> i = k) \<and>
     (\<forall>c\<in>set cs. cx_handshake_complete c \<longrightarrow> cx_session c < rg_next_id g) \<and>
     open_ids g = {cx_session c | c. c \<in> set cs \<and> session_live c}"

lemma sessions_distinct:
  "sessions_match cs g \<Longrightarrow> i < length cs \<Longrightarrow> k < length cs \<Longrightarrow> cx_handshake_complete (cs ! i) \<Longrightarrow>
   cx_handshake_complete (cs ! k) \<Longrightarrow> cx_session (cs ! i) = cx_session (cs ! k) \<Longrightarrow> i = k"
  by (simp add: sessions_match_def)

lemma sessions_below: "sessions_match cs g \<Longrightarrow> k < length cs \<Longrightarrow> cx_handshake_complete (cs ! k) \<Longrightarrow> cx_session (cs ! k) < rg_next_id g"
  by (simp add: sessions_match_def)

text \<open>The connection at one place of the list is replaced.\<close>

lemma set_replaced:
  "i < length xs \<Longrightarrow> {f c | c. c \<in> set (xs[i := y]) \<and> P c} =
     {f (xs ! k) | k. k < length xs \<and> k \<noteq> i \<and> P (xs ! k)} \<union> (if P y then {f y} else {})"
  by (auto simp: in_set_conv_nth nth_list_update)

lemma live_split:
  "i < length cs \<Longrightarrow> {cx_session x | x. x \<in> set cs \<and> session_live x} =
     {cx_session (cs ! k) | k. k < length cs \<and> k \<noteq> i \<and> session_live (cs ! k)} \<union>
     (if session_live (cs ! i) then {cx_session (cs ! i)} else {})"
  using set_replaced[of i cs cx_session "cs ! i" session_live] by simp

lemma length_filter_update:
  "i < length xs \<Longrightarrow> length (filter P (xs[i := y])) + (if P (xs ! i) then 1 else 0) = length (filter P xs) + (if P y then 1 else 0)"
proof (induction xs arbitrary: i)
  case (Cons x xs)
  show ?case
  proof (cases i)
    case (Suc k)
    with Cons.IH[of k] Cons.prems show ?thesis by auto
  qed auto
qed simp

lemma sessions_keep:
  assumes m: "sessions_match cs g" and i: "i < length cs"
    and c: "cx_handshake_complete c = cx_handshake_complete (cs ! i)" "cx_session c = cx_session (cs ! i)" "cx_open c = cx_open (cs ! i)"
    and g: "open_ids g' = open_ids g" "rg_next_id g' = rg_next_id g" "registry_ok g'"
  shows "sessions_match (cs[i := c]) g'"
proof -
  have at: "cx_handshake_complete (cs[i := c] ! k) = cx_handshake_complete (cs ! k) \<and> cx_session (cs[i := c] ! k) = cx_session (cs ! k) \<and>
      cx_open (cs[i := c] ! k) = cx_open (cs ! k)" if "k < length cs" for k
    using that c i by (simp add: nth_list_update)
  have "{cx_session x | x. x \<in> set (cs[i := c]) \<and> session_live x} = {cx_session x | x. x \<in> set cs \<and> session_live x}"
    unfolding set_replaced[OF i] using set_replaced[OF i, of cx_session "cs ! i" session_live] c
    by (simp add: session_live_def)
  moreover have "length (filter cx_handshake_complete (cs[i := c])) = length (filter cx_handshake_complete cs)"
    using length_filter_update[OF i, of cx_handshake_complete c] c by (simp split: if_splits)
  moreover have "\<forall>x\<in>set (cs[i := c]). cx_handshake_complete x \<longrightarrow> cx_session x < rg_next_id g"
    using sessions_below[OF m] at by (auto simp: in_set_conv_nth)
  ultimately show ?thesis using m g at by (simp add: sessions_match_def)
qed

lemma sessions_close:
  assumes m: "sessions_match cs g" and i: "i < length cs" "cx_open (cs ! i)"
    and c: "cx_handshake_complete c = cx_handshake_complete (cs ! i)" "cx_session c = cx_session (cs ! i)" "\<not> cx_open c"
    and g: "g' = (if cx_handshake_complete c then snd (registry_release (cx_session c) g) else g)"
  shows "sessions_match (cs[i := c]) g'"
proof -
  have at: "cx_handshake_complete (cs[i := c] ! k) = cx_handshake_complete (cs ! k) \<and> cx_session (cs[i := c] ! k) = cx_session (cs ! k)"
    if "k < length cs" for k using that c i by (simp add: nth_list_update)
  have ok: "registry_ok g" using m by (simp add: sessions_match_def)
  note here = live_split[OF i(1)]
  have apart: "cx_session (cs ! i) \<notin> {cx_session (cs ! k) | k. k < length cs \<and> k \<noteq> i \<and> session_live (cs ! k)}"
    if "cx_handshake_complete (cs ! i)"
    using sessions_distinct[OF m i(1)] that by (auto simp: session_live_def)
  have "open_ids g' = {cx_session x | x. x \<in> set (cs[i := c]) \<and> session_live x}"
  proof (cases "cx_handshake_complete (cs ! i)")
    case True
    have "open_ids g' = open_ids g - {cx_session (cs ! i)}" using release_open_ids[OF ok] g c True by simp
    then show ?thesis using m here apart[OF True] c i(2) True
      unfolding set_replaced[OF i(1)] by (auto simp: sessions_match_def session_live_def)
  next
    case False
    then show ?thesis using m here c g unfolding set_replaced[OF i(1)] by (simp add: sessions_match_def session_live_def)
  qed
  moreover have "length (filter cx_handshake_complete (cs[i := c])) = length (filter cx_handshake_complete cs)"
    using length_filter_update[OF i(1), of cx_handshake_complete c] c by (simp split: if_splits)
  moreover have "\<forall>x\<in>set (cs[i := c]). cx_handshake_complete x \<longrightarrow> cx_session x < rg_next_id g"
    using sessions_below[OF m] at by (auto simp: in_set_conv_nth)
  moreover have "registry_ok g'" "rg_next_id g' = rg_next_id g" using release_open_ids[OF ok] ok g by simp_all
  ultimately show ?thesis using m at by (simp add: sessions_match_def)
qed

lemma sessions_greet:
  assumes m: "sessions_match cs g" and i: "i < length cs" "\<not> cx_handshake_complete (cs ! i)" and few: "length cs < 2 ^ 64 - 2"
    and c: "cx_handshake_complete c" "cx_session c = ssn_id r" "cx_open c" and g: "registry_create e b nonce g = (Inr r, g')"
  shows "sessions_match (cs[i := c]) g'"
proof -
  have ok: "registry_ok g" and n: "unat (rg_next_id g) \<le> Suc (length (filter cx_handshake_complete cs))"
    using m by (simp_all add: sessions_match_def)
  have "length (filter cx_handshake_complete cs) \<le> length cs" by simp
  then have "unat (rg_next_id g) + 1 < 2 ^ 64" using n few by linarith
  then have up: "unat (rg_next_id g + 1) = unat (rg_next_id g) + 1" by (simp add: unat_add_no_wrap)
  then have room: "rg_next_id g < rg_next_id g + 1" by (simp add: word_less_nat_alt)
  note cr = create_open_ids[OF ok g]
  have old: "cx_session (cs ! k) < rg_next_id g" if "k < length cs" "cx_handshake_complete (cs ! k)" for k
    using that by (rule sessions_below[OF m])
  have "registry_ok g'" using registry_create_ok[OF ok room, of e b nonce] g by simp
  moreover have "unat (rg_next_id g') \<le> Suc (length (filter cx_handshake_complete (cs[i := c])))"
    using length_filter_update[OF i(1), of cx_handshake_complete c] i(2) c(1) n up cr by simp
  moreover have "ia = k" if "ia < length cs" "k < length cs" "cx_handshake_complete (cs[i := c] ! ia)"
    "cx_handshake_complete (cs[i := c] ! k)" "cx_session (cs[i := c] ! ia) = cx_session (cs[i := c] ! k)" for ia k
    using that old[of ia] old[of k] sessions_distinct[OF m, of ia k] c cr i(1)
    by (cases "ia = i"; cases "k = i") simp_all
  moreover have "cx_session x < rg_next_id g'" if x: "x \<in> set (cs[i := c])" "cx_handshake_complete x" for x
  proof -
    obtain k where k: "k < length cs" "x = cs[i := c] ! k" using x(1) by (auto simp: in_set_conv_nth)
    show ?thesis
    proof (cases "k = i")
      case False
      then have "cx_session x < rg_next_id g" using k x(2) old by simp
      then show ?thesis using cr room by simp
    qed (use k c cr room i(1) in simp)
  qed
  moreover have "open_ids g' = {cx_session x | x. x \<in> set (cs[i := c]) \<and> session_live x}"
  proof -
    have "session_live c" "\<not> session_live (cs ! i)" using c i(2) by (simp_all add: session_live_def)
    moreover have "open_ids g = {cx_session x | x. x \<in> set cs \<and> session_live x}" using m by (simp add: sessions_match_def)
    ultimately show ?thesis using cr c(2) unfolding set_replaced[OF i(1)] live_split[OF i(1)] by simp
  qed
  ultimately show ?thesis unfolding sessions_match_def by simp
qed

lemma sessions_add:
  assumes m: "sessions_match cs g" and c: "\<not> cx_handshake_complete c"
  shows "sessions_match (cs @ [c]) g"
  using assms by (auto simp: sessions_match_def nth_append session_live_def split: if_splits)

text \<open>Preserved by every step of the server.\<close>

lemma sessions_set:
  assumes "sessions_match (sv_connections s) g" "sv_connections s ! i = c" "i < length (sv_connections s)"
    "cx_handshake_complete c' = cx_handshake_complete c" "cx_session c' = cx_session c" "cx_open c' = cx_open c"
    "sv_sessions s = g"
  shows "sessions_match (sv_connections (set_connection i c' s)) (sv_sessions (set_connection i c' s))"
  using sessions_keep[OF assms(1,3), of c' g] assms by (simp add: set_connection_def sessions_match_def)

abbreviation server_sessions :: "server \<Rightarrow> bool" where
  "server_sessions s \<equiv> sessions_match (sv_connections s) (sv_sessions s)"

lemma sessions_end:
  assumes "server_sessions s" "i < length (sv_connections s)" "cx_open (sv_connections s ! i)"
    "cx_handshake_complete c = cx_handshake_complete (sv_connections s ! i)" "cx_session c = cx_session (sv_connections s ! i)"
  shows "server_sessions (end_connection i c s)"
  using sessions_close[OF assms(1-3), of "c\<lparr>cx_open := False\<rparr>"] assms(4,5)
  by (simp add: end_connection_def set_connection_def split: if_splits)

lemma sessions_refuse:
  assumes "server_sessions s" "i < length (sv_connections s)" "cx_open (sv_connections s ! i)"
    "cx_handshake_complete c = cx_handshake_complete (sv_connections s ! i)" "cx_session c = cx_session (sv_connections s ! i)"
  shows "server_sessions (refuse i session q code t c s)"
  unfolding refuse_def by (rule sessions_end) (use assms in \<open>simp_all add: send_error_def send_frame_def\<close>)

lemma sessions_answer:
  assumes "server_sessions s" "i < length (sv_connections s)"
    "cx_handshake_complete c = cx_handshake_complete (sv_connections s ! i)" "cx_session c = cx_session (sv_connections s ! i)"
    "cx_open c = cx_open (sv_connections s ! i)"
  shows "server_sessions (answer i t payload c s)"
  unfolding answer_def by (rule sessions_set[OF assms(1) refl assms(2)]) (use assms in \<open>simp_all add: send_frame_def\<close>)

lemma sessions_call:
  assumes "server_sessions s" "i < length (sv_connections s)"
    "cx_handshake_complete c = cx_handshake_complete (sv_connections s ! i)" "cx_session c = cx_session (sv_connections s ! i)"
    "cx_open c = cx_open (sv_connections s ! i)"
  shows "server_sessions (call_service i task submitted c s)"
proof -
  obtain e svc where "submitted = (e, svc)" by fastforce
  let ?s = "s\<lparr>sv_service := svc\<rparr>"
  have "server_sessions (answer_error i e c ?s)" unfolding answer_error_def by (rule sessions_answer) (use assms in simp_all)
  moreover have "server_sessions (set_connection i (c\<lparr>cx_waiting := j\<rparr>) ?s)" for j
    by (rule sessions_set[of ?s "sv_sessions s" i "sv_connections s ! i"]) (use assms in simp_all)
  ultimately show ?thesis by (simp add: call_service_def \<open>submitted = (e, svc)\<close>)
qed

lemma sessions_request:
  assumes "server_sessions s" "i < length (sv_connections s)" "cx_open (sv_connections s ! i)"
    "cx_handshake_complete c = cx_handshake_complete (sv_connections s ! i)" "cx_session c = cx_session (sv_connections s ! i)"
    "cx_open c"
  shows "server_sessions (serve_request i f c s)"
proof -
  note parts = sessions_refuse[OF assms(1-5)] sessions_end[OF assms(1-5)] sessions_answer[OF assms(1,2,4,5)]
    sessions_call[OF assms(1,2,4,5)]
  show ?thesis using assms(3,6)
    by (simp add: serve_request_def Let_def refuse_payload_def parts split: sum.split prod.split)
qed

lemma sessions_hello:
  assumes m: "server_sessions s" and few: "length (sv_connections s) < 2 ^ 64 - 2" and i: "i < length (sv_connections s)"
    and op: "cx_open (sv_connections s ! i)" and fresh: "\<not> cx_handshake_complete (sv_connections s ! i)"
    and c: "\<not> cx_handshake_complete c" "cx_session c = cx_session (sv_connections s ! i)" "cx_open c"
  shows "server_sessions (greet sent i f c s)"
proof -
  have refused: "server_sessions (refuse i session q code t c s)" for session q code t
    by (rule sessions_refuse[OF m i op]) (use fresh c in simp_all)
  show ?thesis
  proof (cases "decode_hello (fr_payload f)")
    case (Inl e)
    then show ?thesis by (simp add: greet_def refused)
  next
    case (Inr nonce)
    obtain cr g where cr: "registry_create (sv_epoch s) (sv_boot s) nonce (sv_sessions s) = (cr, g)" by fastforce
    show ?thesis
    proof (cases cr)
      case (Inl e)
      then have "g = sv_sessions s" using cr by (auto simp: registry_create_def Let_def split: option.splits if_splits)
      then have "server_sessions (end_connection i (send_error s 0 1 code t c) (s\<lparr>sv_sessions := g, sv_stats := st\<rparr>))" for code t st
        by (intro sessions_end) (use m i op fresh c in \<open>simp_all add: send_error_def send_frame_def\<close>)
      then show ?thesis using Inr cr Inl refused by (simp add: greet_def)
    next
      case r: (Inr r)
      let ?c = "send_frame (s\<lparr>sv_sessions := g\<rparr>) FT_HELLO_ACK (ssn_id r) 1 (encode_hello_ack \<lparr>ha_session = ssn_id r,
          ha_epoch = sv_epoch s, ha_boot = sv_boot s, ha_server_nonce = 1, ha_next_sequence = 2\<rparr>)
          (c\<lparr>cx_session := ssn_id r, cx_server_sequence := 1, cx_handshake_complete := True\<rparr>)"
      have at: "sessions_match ((sv_connections s)[i := c']) g"
        if "cx_handshake_complete c'" "cx_session c' = ssn_id r" "cx_open c'" for c'
        using sessions_greet[OF m i fresh few that] cr r by blast
      have "sessions_match ((sv_connections s)[i := ?c, i := ?c\<lparr>cx_open := False\<rparr>]) (snd (registry_release (ssn_id r) g))"
        by (rule sessions_close[OF at]) (use i c in \<open>simp_all add: send_frame_def\<close>)
      then have "server_sessions (end_connection i ?c (s\<lparr>sv_sessions := g\<rparr>))"
        by (simp add: end_connection_def set_connection_def send_frame_def)
      moreover have "server_sessions (set_connection i (?c\<lparr>cx_server_sequence := 2\<rparr>) (s\<lparr>sv_sessions := g\<rparr>))"
        using at[of "?c\<lparr>cx_server_sequence := 2\<rparr>"] c by (simp add: set_connection_def send_frame_def)
      ultimately show ?thesis using Inr cr r refused by (simp add: greet_def Let_def)
    qed
  qed
qed

lemma sessions_accept:
  "sessions_match cs g \<Longrightarrow> registry_accept i e b q g = (st, g') \<Longrightarrow> sessions_match cs g'"
  using accept_open_ids[of i e b q g st g'] by (simp add: sessions_match_def)

lemma sessions_frame:
  assumes m: "server_sessions s" and few: "length (sv_connections s) < 2 ^ 64 - 2"
    and c: "live_connection i s = Some c"
  shows "server_sessions (serve_frame sent i c s)"
proof (cases "decode_frame (cx_buffer c) (pt_max_payload_bytes (sv_limits s))")
  case (Inl e)
  have "server_sessions (refuse i session q code t c (count_rejected s))" for session q code t
    by (rule sessions_refuse) (use m live_connectionD[OF c] in auto)
  then show ?thesis by (simp add: serve_frame_def Inl)
next
  case (Inr d)
  obtain f consumed where d: "d = (f, consumed)" by fastforce
  note live = live_connectionD[OF c]
  let ?c = "c\<lparr>cx_buffer := drop consumed (cx_buffer c)\<rparr>"
  let ?s = "s\<lparr>sv_stats := (sv_stats s)\<lparr>vs_frames_received := vs_frames_received (sv_stats s) + 1\<rparr>\<rparr>"
  show ?thesis
  proof (cases "cx_handshake_complete c")
    case False
    have "server_sessions (greet sent i f ?c ?s)" by (rule sessions_hello) (use m few live False in simp_all)
    then show ?thesis using False by (simp add: serve_frame_def Inr d)
  next
    case True
    let ?h = "fr_header f"
    obtain e g where a: "registry_accept (fh_session_id ?h) (fh_epoch ?h) (fh_boot ?h) (fh_sequence ?h) (sv_sessions s) = (e, g)"
      by fastforce
    let ?t = "?s\<lparr>sv_sessions := g\<rparr>"
    have t: "server_sessions ?t" using sessions_accept[OF m a] by simp
    have "server_sessions (serve_request i f ?c ?t)" by (rule sessions_request[OF t]) (use live in simp_all)
    moreover have "server_sessions (refuse i session q code tx ?c ?t)" for session q code tx
      by (rule sessions_refuse[OF t]) (use live in simp_all)
    ultimately show ?thesis using True by (simp add: serve_frame_def Inr d a Let_def)
  qed
qed

lemma sessions_chunk:
  assumes m: "server_sessions s" and c: "live_connection i s = Some c"
  shows "server_sessions (receive_chunk input i c s)"
proof -
  note live = live_connectionD[OF c]
  have "server_sessions (end_connection i (c\<lparr>cx_buffer := b\<rparr>) s')" if "s' = s \<or> s' = count_sticky (count_rejected s)" for b s'
    by (rule sessions_end) (use m live that in auto)
  from this[of s "cx_buffer c"] this[of "count_sticky (count_rejected s)"]
  have ends: "server_sessions (end_connection i c s)"
    "server_sessions (end_connection i (c\<lparr>cx_buffer := b\<rparr>) (count_sticky (count_rejected s)))" for b
    by simp_all
  have "server_sessions (set_connection i (c\<lparr>cx_buffer := b\<rparr>) s)" for b
    by (rule sessions_set[OF m refl]) (use live in simp_all)
  with ends show ?thesis by (simp add: receive_chunk_def Let_def split: option.split)
qed

lemma sessions_serve_step:
  assumes m: "server_sessions s" and few: "length (sv_connections s) < 2 ^ 64 - 2" and s': "serve_step sent input i s = Some s'"
  shows "server_sessions s'"
proof -
  obtain c where c: "live_connection i s = Some c" using s' by (auto simp: serve_step_def split: option.splits)
  note live = live_connectionD[OF c]
  have "server_sessions (refuse i session q code t c (count_rejected s))" for session q code t
    by (rule sessions_refuse) (use m live in auto)
  moreover have "server_sessions (end_connection i c s)" by (rule sessions_end[OF m]) (use live in simp_all)
  ultimately show ?thesis
    using s' c sessions_chunk[OF m c] sessions_frame[OF m few c] by (auto simp: serve_step_def split: if_splits intake.splits)
qed

lemma sessions_resume_step:
  assumes m: "server_sessions s" and s': "resume_step i s = Some s'"
  shows "server_sessions s'"
proof -
  obtain c where c: "live_connection i s = Some c" using s' by (auto simp: resume_step_def split: option.splits)
  note live = live_connectionD[OF c]
  have "server_sessions (answer i t payload (c\<lparr>cx_waiting := None\<rparr>) s)" for t payload
    by (rule sessions_answer[OF m]) (use live in simp_all)
  then show ?thesis using s' c by (auto simp: resume_step_def answer_error_def Let_def split: option.splits prod.splits job_outcome.splits)
qed

lemma length_connections:
  "length (sv_connections (set_connection i c s)) = length (sv_connections s)"
  "length (sv_connections (end_connection i c s)) = length (sv_connections s)"
  "length (sv_connections (refuse i session q code t c s)) = length (sv_connections s)"
  "length (sv_connections (answer i ty payload c s)) = length (sv_connections s)"
  "length (sv_connections (call_service i task sub c s)) = length (sv_connections s)"
  by (simp_all add: set_connection_def end_connection_def refuse_def answer_def answer_error_def call_service_def split: prod.split)

lemma length_served:
  "length (sv_connections (serve_request i f c s)) = length (sv_connections s)"
  "length (sv_connections (greet sent i f c s)) = length (sv_connections s)"
  "length (sv_connections (receive_chunk input i c s)) = length (sv_connections s)"
  by (simp_all add: serve_request_def refuse_payload_def greet_def receive_chunk_def Let_def length_connections
      split: sum.split prod.split option.split)

lemma length_serve_frame: "length (sv_connections (serve_frame sent i c s)) = length (sv_connections s)"
  by (simp add: serve_frame_def Let_def length_connections length_served split: sum.split prod.split)

lemma server_step_length: "server_step s s' \<Longrightarrow> length (sv_connections s) \<le> length (sv_connections s')"
proof (induction rule: server_step.induct)
  case (serve s sent input i s')
  then show ?case
    by (auto simp: serve_step_def length_connections length_served length_serve_frame
        split: option.splits if_splits intake.splits)
next
  case (resume s i s')
  then show ?case
    by (auto simp: resume_step_def answer_error_def Let_def length_connections
        split: option.splits prod.splits job_outcome.splits)
qed (auto simp: accept_step_def server_shutdown_def split: if_splits)

lemma reachable_sessions: "reachable_server s \<Longrightarrow> length (sv_connections s) < 2 ^ 64 - 2 \<Longrightarrow> server_sessions s"
proof (induction rule: reachable_server.induct)
  case (start svc m env s)
  then have "sv_connections s = []" "sv_sessions s = new_registry (if m \<noteq> 0 then m else 1)"
    by (auto simp: server_start_def split: if_splits)
  then show ?case
    by (simp add: sessions_match_def new_registry_ok open_ids_def) (simp add: new_registry_def)
next
  case (step s s')
  have few: "length (sv_connections s) < 2 ^ 64 - 2" using server_step_length[OF step(2)] step(4) by linarith
  note m = step(3)[OF few]
  from step(2) show ?case
  proof cases
    case accept
    then show ?thesis using sessions_add[OF m] m
      by (auto simp: accept_step_def new_connection_def send_error_def send_frame_def split: if_splits)
  next
    case (serve sent input i)
    then show ?thesis using sessions_serve_step[OF m few] by blast
  next
    case (resume i)
    then show ?thesis using sessions_resume_step[OF m] by blast
  qed (use m in \<open>simp_all add: server_shutdown_def\<close>)
qed

end
