(* ===== verification/NRP_Client.thy ===== *)
theory NRP_Client
  imports NRP_Wire NRP_Protocol
begin

text \<open>
  The framed client (\<open>PlanningClient\<close>, \<open>src/runtime_client.cpp\<close>). What the socket delivers is the
  byte string \<open>cl_input\<close> followed by \<open>cl_end\<close>: how the bytes are cut into chunks does not matter to
  \<open>recv_exact_or_eof\<close>, which loops until it has all it wants. Whether a send succeeds is an argument;
  \<open>cl_sent\<close> holds the byte strings given to \<open>send_all\<close>.
\<close>

section \<open>Names of codes\<close>

primrec reason_code_name :: "reason_code \<Rightarrow> string" where
  "reason_code_name RC_NONE = ''NONE''"
| "reason_code_name RC_PLAN_ACCEPTED = ''PLAN_ACCEPTED''"
| "reason_code_name RC_PLAN_OPTIMAL_BY_OBJECTIVE = ''PLAN_OPTIMAL_BY_OBJECTIVE''"
| "reason_code_name RC_PROOF_EXHAUSTIVE_SEARCH = ''PROOF_EXHAUSTIVE_SEARCH''"
| "reason_code_name RC_PROOF_DEPENDENCY_CYCLE = ''PROOF_DEPENDENCY_CYCLE''"
| "reason_code_name RC_PROOF_GOAL_UPPER_BOUND = ''PROOF_GOAL_UPPER_BOUND''"
| "reason_code_name RC_SEARCH_BUDGET_EXHAUSTED = ''SEARCH_BUDGET_EXHAUSTED''"
| "reason_code_name RC_EVIDENCE_SUBJECT_MISSING = ''EVIDENCE_SUBJECT_MISSING''"
| "reason_code_name RC_EVIDENCE_SUBJECT_STALE = ''EVIDENCE_SUBJECT_STALE''"
| "reason_code_name RC_EVIDENCE_SUBJECT_AHEAD_OF_AUTHORITY = ''EVIDENCE_SUBJECT_AHEAD_OF_AUTHORITY''"
| "reason_code_name RC_EVIDENCE_SUBJECT_CONFLICTING = ''EVIDENCE_SUBJECT_CONFLICTING''"
| "reason_code_name RC_EVIDENCE_SUBJECT_INVALID = ''EVIDENCE_SUBJECT_INVALID''"
| "reason_code_name RC_EVIDENCE_SUBJECT_UNSUPPORTED = ''EVIDENCE_SUBJECT_UNSUPPORTED''"
| "reason_code_name RC_AUTHORITY_BINDING_MISSING = ''AUTHORITY_BINDING_MISSING''"
| "reason_code_name RC_AUTHORITY_BINDING_STALE = ''AUTHORITY_BINDING_STALE''"
| "reason_code_name RC_AUTHORITY_BINDING_UNKNOWN = ''AUTHORITY_BINDING_UNKNOWN''"
| "reason_code_name RC_AUTHORITY_BINDING_CONFLICT = ''AUTHORITY_BINDING_CONFLICT''"
| "reason_code_name RC_AUTHORITY_BINDING_INVALID = ''AUTHORITY_BINDING_INVALID''"
| "reason_code_name RC_AUTHORITY_BINDING_UNSUPPORTED = ''AUTHORITY_BINDING_UNSUPPORTED''"
| "reason_code_name RC_AUTHORITY_LEVEL_INSUFFICIENT = ''AUTHORITY_LEVEL_INSUFFICIENT''"
| "reason_code_name RC_REQUEST_INVALID_DEFINITION = ''REQUEST_INVALID_DEFINITION''"
| "reason_code_name RC_REQUEST_UNSUPPORTED_PROBLEM = ''REQUEST_UNSUPPORTED_PROBLEM''"
| "reason_code_name RC_REQUEST_MALFORMED_ENCODING = ''REQUEST_MALFORMED_ENCODING''"
| "reason_code_name RC_REQUEST_POLICY_RESTRICTED_ACTION = ''REQUEST_POLICY_RESTRICTED_ACTION''"
| "reason_code_name RC_REQUEST_FENCED_BY_EPOCH = ''REQUEST_FENCED_BY_EPOCH''"
| "reason_code_name RC_VALIDATION_PRECONDITION_UNMET = ''VALIDATION_PRECONDITION_UNMET''"
| "reason_code_name RC_VALIDATION_ORDERING_VIOLATION = ''VALIDATION_ORDERING_VIOLATION''"
| "reason_code_name RC_VALIDATION_RESOURCE_VIOLATION = ''VALIDATION_RESOURCE_VIOLATION''"
| "reason_code_name RC_VALIDATION_SAFETY_VIOLATION = ''VALIDATION_SAFETY_VIOLATION''"
| "reason_code_name RC_VALIDATION_AUTHORITY_MISMATCH = ''VALIDATION_AUTHORITY_MISMATCH''"
| "reason_code_name RC_VALIDATION_EVIDENCE_BINDING_MISMATCH = ''VALIDATION_EVIDENCE_BINDING_MISMATCH''"
| "reason_code_name RC_VALIDATION_GOAL_UNMET = ''VALIDATION_GOAL_UNMET''"
| "reason_code_name RC_VALIDATION_OBJECTIVE_MISMATCH = ''VALIDATION_OBJECTIVE_MISMATCH''"
| "reason_code_name RC_VALIDATION_DIGEST_MISMATCH = ''VALIDATION_DIGEST_MISMATCH''"
| "reason_code_name RC_VALIDATION_OCCURRENCE_EXCEEDED = ''VALIDATION_OCCURRENCE_EXCEEDED''"
| "reason_code_name RC_VALIDATION_EXCLUSION_VIOLATION = ''VALIDATION_EXCLUSION_VIOLATION''"
| "reason_code_name RC_VALIDATION_COMPENSATION_MISSING = ''VALIDATION_COMPENSATION_MISSING''"
| "reason_code_name RC_VALIDATION_FENCED = ''VALIDATION_FENCED''"
| "reason_code_name RC_PERSISTENCE_INTEGRITY_FAILURE = ''PERSISTENCE_INTEGRITY_FAILURE''"
| "reason_code_name RC_PERSISTENCE_VERSION_UNSUPPORTED = ''PERSISTENCE_VERSION_UNSUPPORTED''"
| "reason_code_name RC_PERSISTENCE_SEQUENCE_REGRESSION = ''PERSISTENCE_SEQUENCE_REGRESSION''"
| "reason_code_name RC_PERSISTENCE_TRAILING_GARBAGE = ''PERSISTENCE_TRAILING_GARBAGE''"
| "reason_code_name RC_PERSISTENCE_TORN_TAIL_RECOVERED = ''PERSISTENCE_TORN_TAIL_RECOVERED''"
| "reason_code_name RC_PERSISTENCE_EPOCH_ADVANCED = ''PERSISTENCE_EPOCH_ADVANCED''"
| "reason_code_name RC_PERSISTENCE_STALE_DYNAMIC_STATE_FENCED = ''PERSISTENCE_STALE_DYNAMIC_STATE_FENCED''"
| "reason_code_name RC_PROTOCOL_FRAME_TOO_LARGE = ''PROTOCOL_FRAME_TOO_LARGE''"
| "reason_code_name RC_PROTOCOL_BAD_MAGIC = ''PROTOCOL_BAD_MAGIC''"
| "reason_code_name RC_PROTOCOL_BAD_VERSION = ''PROTOCOL_BAD_VERSION''"
| "reason_code_name RC_PROTOCOL_BAD_CHECKSUM = ''PROTOCOL_BAD_CHECKSUM''"
| "reason_code_name RC_PROTOCOL_TRUNCATED = ''PROTOCOL_TRUNCATED''"
| "reason_code_name RC_PROTOCOL_TRAILING_BYTES = ''PROTOCOL_TRAILING_BYTES''"
| "reason_code_name RC_PROTOCOL_SEQUENCE_REGRESSION = ''PROTOCOL_SEQUENCE_REGRESSION''"
| "reason_code_name RC_PROTOCOL_SESSION_MISMATCH = ''PROTOCOL_SESSION_MISMATCH''"
| "reason_code_name RC_PROTOCOL_STICKY_FAILURE = ''PROTOCOL_STICKY_FAILURE''"
| "reason_code_name RC_PROTOCOL_DECODE_REJECTED = ''PROTOCOL_DECODE_REJECTED''"
| "reason_code_name RC_SESSION_LIMIT_REACHED = ''SESSION_LIMIT_REACHED''"
| "reason_code_name RC_QUEUE_LIMIT_REACHED = ''QUEUE_LIMIT_REACHED''"
| "reason_code_name RC_SHUTDOWN_REQUESTED = ''SHUTDOWN_REQUESTED''"
| "reason_code_name RC_COUNT = ''COUNT''"

primrec error_code_name :: "error_code \<Rightarrow> string" where
  "error_code_name EC_NONE = ''NONE''"
| "error_code_name EC_BAD_MAGIC = ''BAD_MAGIC''"
| "error_code_name EC_BAD_VERSION = ''BAD_VERSION''"
| "error_code_name EC_BAD_HEADER_CHECKSUM = ''BAD_HEADER_CHECKSUM''"
| "error_code_name EC_BAD_PAYLOAD_CHECKSUM = ''BAD_PAYLOAD_CHECKSUM''"
| "error_code_name EC_FRAME_TOO_LARGE = ''FRAME_TOO_LARGE''"
| "error_code_name EC_INVALID_ENUM = ''INVALID_ENUM''"
| "error_code_name EC_INVALID_LENGTH = ''INVALID_LENGTH''"
| "error_code_name EC_TRAILING_BYTES = ''TRAILING_BYTES''"
| "error_code_name EC_SEQUENCE_REGRESSION = ''SEQUENCE_REGRESSION''"
| "error_code_name EC_SESSION_MISMATCH = ''SESSION_MISMATCH''"
| "error_code_name EC_SESSION_LIMIT = ''SESSION_LIMIT''"
| "error_code_name EC_QUEUE_LIMIT = ''QUEUE_LIMIT''"
| "error_code_name EC_UNSUPPORTED_REQUEST = ''UNSUPPORTED_REQUEST''"
| "error_code_name EC_DECODE_REJECTED = ''DECODE_REJECTED''"
| "error_code_name EC_STICKY_FAILURE = ''STICKY_FAILURE''"
| "error_code_name EC_SHUTTING_DOWN = ''SHUTTING_DOWN''"
| "error_code_name EC_COUNT = ''COUNT''"

section \<open>State and socket\<close>

datatype stream_end = Peer_closed | Recv_failed

record client =
  cl_limits :: protocol_limits
  cl_session :: strong_id
  cl_epoch :: epoch
  cl_boot :: boot_id
  cl_client_sequence :: seqno
  cl_server_sequence :: seqno
  cl_handshake_complete :: bool
  cl_closed :: bool
  cl_input :: bytes
  cl_end :: stream_end
  cl_sent :: "bytes list"

datatype received = Got bytes | Got_eof | Got_error status

definition recv_exact_or_eof :: "nat \<Rightarrow> client \<Rightarrow> received \<times> client" where
  "recv_exact_or_eof n cl =
     (if n = 0 then (Got [], cl)
      else if cl_closed cl then (Got_error (status_error SC_CLOSED ''socket is not open''), cl)
      else if n \<le> length (cl_input cl) then (Got (take n (cl_input cl)), cl\<lparr>cl_input := drop n (cl_input cl)\<rparr>)
      else (case cl_end cl of Peer_closed \<Rightarrow> Got_eof | Recv_failed \<Rightarrow> Got_error (status_error SC_IO_ERROR ''recv failed''),
            cl\<lparr>cl_input := []\<rparr>))"

definition send_bytes :: "bool \<Rightarrow> bytes \<Rightarrow> client \<Rightarrow> status \<times> client" where
  "send_bytes sent b cl =
     (if cl_closed cl then (status_error SC_CLOSED ''socket is not open'', cl)
      else (if sent then success else status_error SC_IO_ERROR ''send failed'', cl\<lparr>cl_sent := cl_sent cl @ [b]\<rparr>))"

section \<open>Frames\<close>

definition read_frame_bytes :: "client \<Rightarrow> (status + bytes) \<times> client" where
  "read_frame_bytes cl = (case recv_exact_or_eof frame_header_size cl of
       (Got_error e, cl) \<Rightarrow> (Inl e, cl)
     | (Got_eof, cl) \<Rightarrow> (Inl (status_error SC_CLOSED ''peer closed before a frame header arrived''), cl)
     | (Got header, cl) \<Rightarrow> (case decode_frame_header header of
         Inl e \<Rightarrow> (Inl e, cl)
       | Inr h \<Rightarrow>
           if fh_payload_length h > pt_max_payload_bytes (cl_limits cl)
             then (Inl (status_error SC_OUT_OF_RANGE ''declared payload exceeds the frame bound''), cl)
           else if fh_payload_length h > 0 then
             (case recv_exact_or_eof (unat (fh_payload_length h)) cl of
                (Got_error e, cl) \<Rightarrow> (Inl e, cl)
              | (Got_eof, cl) \<Rightarrow> (Inl (status_error SC_CLOSED ''peer closed inside a frame payload''), cl)
              | (Got payload, cl) \<Rightarrow> (Inr (header @ payload), cl))
           else (Inr header, cl)))"

definition send_request :: "bool \<Rightarrow> frame_type \<Rightarrow> bytes \<Rightarrow> client \<Rightarrow> status \<times> client" where
  "send_request sent t payload cl =
     (if cl_closed cl then (status_error SC_CLOSED ''client is closed'', cl)
      else if \<not> cl_handshake_complete cl then (status_error SC_STATE_MISMATCH ''handshake has not completed'', cl)
      else case send_bytes sent (encode_frame t (cl_session cl) (cl_epoch cl) (cl_boot cl) (cl_client_sequence cl) payload) cl of
        (e, cl) \<Rightarrow> if \<not> status_ok e then (e, cl)
          else (success, cl\<lparr>cl_client_sequence := cl_client_sequence cl + 1\<rparr>))"

definition server_error :: "error_payload \<Rightarrow> status" where
  "server_error er = status_error SC_STATE_MISMATCH (''server error '' @ error_code_name (ep_code er) @ '' ('' @
     reason_code_name (ep_reason er) @ ''): '' @ ep_text er)"

definition read_response :: "frame_type \<Rightarrow> client \<Rightarrow> (status + bytes) \<times> client" where
  "read_response expected cl = (case read_frame_bytes cl of
       (Inl e, cl) \<Rightarrow> (Inl e, cl)
     | (Inr raw, cl) \<Rightarrow> (case decode_frame raw (pt_max_payload_bytes (cl_limits cl)) of
         Inl e \<Rightarrow> (Inl e, cl)
       | Inr (f, _) \<Rightarrow>
           let h = fr_header f in
           if fh_session_id h \<noteq> cl_session cl \<or> fh_epoch h \<noteq> cl_epoch cl \<or> fh_boot h \<noteq> cl_boot cl
             then (Inl (status_error SC_STATE_MISMATCH ''response frame carries a different session authority''), cl)
           else if fh_sequence h \<le> cl_server_sequence cl
             then (Inl (status_error SC_STATE_MISMATCH ''response sequence is not strictly increasing''), cl)
           else let cl = cl\<lparr>cl_server_sequence := fh_sequence h\<rparr> in
             if fh_type h = raw_frame_type FT_ERROR_FRAME then
               (case decode_error_payload (fr_payload f) of
                  Inl e \<Rightarrow> (Inl e, cl)
                | Inr er \<Rightarrow> (Inl (server_error er), cl))
             else if fh_type h \<noteq> raw_frame_type expected
               then (Inl (status_error SC_PROTOCOL_ERROR ''unexpected response frame type''), cl)
             else (Inr (fr_payload f), cl)))"

section \<open>Calls\<close>

definition client_plan :: "bool \<Rightarrow> plan_request \<Rightarrow> client \<Rightarrow> (status + planning_result) \<times> client" where
  "client_plan sent r cl = (case send_request sent FT_PLAN_REQUEST (encode_plan_request_payload r) cl of
       (e, cl) \<Rightarrow> if \<not> status_ok e then (Inl e, cl)
         else (case read_response FT_PLAN_RESPONSE cl of
           (Inl e, cl) \<Rightarrow> (Inl e, cl)
         | (Inr payload, cl) \<Rightarrow> (decode_plan_response payload (cl_limits cl), cl)))"

definition client_validate :: "bool \<Rightarrow> plan_request \<Rightarrow> recovery_plan \<Rightarrow> client \<Rightarrow> (status + validation_report) \<times> client" where
  "client_validate sent r p cl = (case send_request sent FT_VALIDATE_REQUEST (encode_validate_request (r, p)) cl of
       (e, cl) \<Rightarrow> if \<not> status_ok e then (Inl e, cl)
         else (case read_response FT_VALIDATE_RESPONSE cl of
           (Inl e, cl) \<Rightarrow> (Inl e, cl)
         | (Inr payload, cl) \<Rightarrow> (decode_validate_response payload, cl)))"

definition client_ping :: "bool \<Rightarrow> client \<Rightarrow> status \<times> client" where
  "client_ping sent cl = (case send_request sent FT_STATUS_REQUEST [] cl of
       (e, cl) \<Rightarrow> if \<not> status_ok e then (e, cl)
         else (case read_response FT_STATUS_RESPONSE cl of
           (Inl e, cl) \<Rightarrow> (e, cl)
         | (Inr _, cl) \<Rightarrow> (success, cl)))"

definition read_raw_frame :: "protocol_limits \<Rightarrow> client \<Rightarrow> (status + bytes) \<times> client" where
  "read_raw_frame limits cl = (case read_frame_bytes (cl\<lparr>cl_limits := limits\<rparr>) of
     (raw, cl') \<Rightarrow> (raw, cl'\<lparr>cl_limits := cl_limits cl\<rparr>))"

definition client_close :: "bool \<Rightarrow> client \<Rightarrow> status \<times> client" where
  "client_close sent cl =
     (if cl_closed cl then (success, cl)
      else (success, (if cl_handshake_complete cl
         then snd (send_bytes sent (encode_frame FT_BYE (cl_session cl) (cl_epoch cl) (cl_boot cl) (cl_client_sequence cl) []) cl)
         else cl)\<lparr>cl_closed := True\<rparr>))"

text \<open>\<open>connect\<close>: \<open>counter\<close> is \<open>g_client_nonce\<close> before the call, \<open>initialised\<close> and \<open>connected\<close> the
  answers of the network layer.\<close>

definition client_connect ::
  "status \<Rightarrow> status \<Rightarrow> bool \<Rightarrow> u64 \<Rightarrow> protocol_limits \<Rightarrow> bytes \<Rightarrow> stream_end \<Rightarrow> status + client" where
  "client_connect initialised connected sent counter limits input ending =
     (if \<not> status_ok initialised then Inl initialised
      else if \<not> status_ok connected then Inl connected
      else let cl = \<lparr>cl_limits = limits, cl_session = 0, cl_epoch = 0, cl_boot = 0, cl_client_sequence = 1,
                cl_server_sequence = 0, cl_handshake_complete = False, cl_closed = False, cl_input = input,
                cl_end = ending, cl_sent = []\<rparr> in
        case send_bytes sent (encode_frame FT_HELLO 0 0 0 1 (encode_hello (counter + 1) 1)) cl of (e, cl) \<Rightarrow>
        if \<not> status_ok e then Inl e
        else case read_frame_bytes cl of
          (Inl e, _) \<Rightarrow> Inl e
        | (Inr raw, cl) \<Rightarrow> (case decode_frame raw (pt_max_payload_bytes limits) of
            Inl e \<Rightarrow> Inl e
          | Inr (f, _) \<Rightarrow>
              if fh_type (fr_header f) \<noteq> raw_frame_type FT_HELLO_ACK
                then Inl (status_error SC_PROTOCOL_ERROR ''server did not answer HELLO with HELLO_ACK'')
              else (case decode_hello_ack (fr_payload f) of
                Inl e \<Rightarrow> Inl e
              | Inr ack \<Rightarrow> Inr (cl\<lparr>cl_session := ha_session ack, cl_epoch := ha_epoch ack, cl_boot := ha_boot ack,
                  cl_handshake_complete := True, cl_server_sequence := 0\<rparr>))))"

section \<open>Reading is exact\<close>

lemma of_nat_payload: "length p \<le> unat (m :: u32) \<Longrightarrow> unat (of_nat (length p) :: u32) = length p"
proof -
  assume "length p \<le> unat m"
  then have "length p < 4294967296" using unat_lt[of m] by linarith
  then show ?thesis by (intro of_nat_length) simp
qed

lemma length_encode_frame: "length (encode_frame t s e b q p) = 56 + length p"
  by (simp add: encode_frame_def)

lemma read_frame_whole:
  assumes "\<not> cl_closed cl" "cl_input cl = encode_frame t s e b q p @ rest" "t \<noteq> FT_COUNT"
    "length p \<le> unat (pt_max_payload_bytes (cl_limits cl))"
  shows "read_frame_bytes cl = (Inr (encode_frame t s e b q p), cl\<lparr>cl_input := rest\<rparr>)"
proof -
  let ?h = "make_header (raw_frame_type t) s e b q p"
  let ?eh = "encode_frame_header ?h"
  have 1: "recv_exact_or_eof 56 cl = (Got ?eh, cl\<lparr>cl_input := p @ rest\<rparr>)"
    using assms(1,2) by (simp add: recv_exact_or_eof_def encode_frame_def)
  have 2: "decode_frame_header ?eh = Inr (?h\<lparr>fh_header_crc32 := crc32 (header_fields ?h)\<rparr>)"
    using decode_encoded_header[OF assms(3), of s e b q p "[]"] by simp
  have 3: "fh_payload_length (make_header (raw_frame_type t) s e b q p') = of_nat (length p')" for p'
    by (simp add: make_header_def)
  note len = of_nat_payload[OF assms(4)]
  have 4: "\<not> pt_max_payload_bytes (cl_limits cl) < of_nat (length p)" using assms(4) len by (simp add: word_less_nat_alt)
  show ?thesis
  proof (cases "p = []")
    case True
    then show ?thesis using 4 unfolding read_frame_bytes_def frame_header_size_def 1 prod.case received.case 2 sum.case
      by (simp add: 3 encode_frame_def)
  next
    case False
    then have "0 < (of_nat (length p) :: u32)" using len by (simp add: word_less_nat_alt)
    moreover have "recv_exact_or_eof (length p) (cl\<lparr>cl_input := p @ rest\<rparr>) = (Got p, cl\<lparr>cl_input := rest\<rparr>)"
      using False assms(1) by (simp add: recv_exact_or_eof_def)
    ultimately show ?thesis using 4 len by (simp add: read_frame_bytes_def frame_header_size_def 1 2 3 encode_frame_def)
  qed
qed

lemma recv_Got:
  "recv_exact_or_eof n cl = (Got b, cl') \<Longrightarrow>
   b = take n (cl_input cl) \<and> length b = n \<and> cl' = cl\<lparr>cl_input := drop n (cl_input cl)\<rparr>"
  by (auto simp: recv_exact_or_eof_def split: if_splits stream_end.splits)

lemma read_frame_splits:
  assumes "read_frame_bytes cl = (Inr raw, cl')"
  obtains h rest where "cl_input cl = raw @ rest" "cl' = cl\<lparr>cl_input := rest\<rparr>"
    "decode_frame_header (take 56 raw) = Inr h" "length raw = 56 + unat (fh_payload_length h)"
proof -
  obtain hb c1 where 1: "recv_exact_or_eof 56 cl = (Got hb, c1)"
    using assms by (auto simp: read_frame_bytes_def frame_header_size_def split: prod.splits received.splits)
  obtain h where 2: "decode_frame_header hb = Inr h" "\<not> pt_max_payload_bytes (cl_limits c1) < fh_payload_length h"
    using assms 1 by (auto simp: read_frame_bytes_def frame_header_size_def split: sum.splits if_splits)
  have hb: "hb = take 56 (cl_input cl)" "length hb = 56" and c1: "c1 = cl\<lparr>cl_input := drop 56 (cl_input cl)\<rparr>"
    using recv_Got[OF 1] by blast+
  have whole: "cl_input cl = hb @ drop 56 (cl_input cl)" by (simp add: hb(1))
  show thesis
  proof (cases "fh_payload_length h > 0")
    case True
    obtain p where p: "recv_exact_or_eof (unat (fh_payload_length h)) c1 = (Got p, cl')" "raw = hb @ p"
      using assms 1 2 True by (auto simp: read_frame_bytes_def frame_header_size_def split: prod.splits received.splits)
    let ?rest = "drop (unat (fh_payload_length h)) (drop 56 (cl_input cl))"
    have gp: "length p = unat (fh_payload_length h)" using recv_Got[OF p(1)] by blast
    have g: "p = take (unat (fh_payload_length h)) (drop 56 (cl_input cl))"
      "cl' = cl\<lparr>cl_input := ?rest\<rparr>"
      using recv_Got[OF p(1)] by (simp_all add: c1)
    have "drop 56 (cl_input cl) = p @ ?rest" unfolding g(1) by (rule append_take_drop_id[symmetric])
    then have "cl_input cl = raw @ ?rest" using whole p(2) by (metis append_assoc)
    then show thesis by (rule that[OF _ g(2)]) (use 2 hb(2) p(2) gp in simp_all)
  next
    case False
    then have zero: "fh_payload_length h = 0" by (simp add: word_neq_0_conv[symmetric])
    then have "raw = hb" "cl' = c1" "unat (fh_payload_length h) = 0"
      using assms 1 2 by (simp_all add: read_frame_bytes_def frame_header_size_def)
    then show thesis using that[of "drop 56 (cl_input cl)" h] 2 hb(2) c1 whole by simp
  qed
qed

lemma read_frame_decoded:
  assumes r: "read_frame_bytes cl = (Inr raw, cl')" and d: "decode_frame raw m = Inr (f, n)"
  obtains t s e b q p rest where "t \<noteq> FT_COUNT" "length p \<le> unat m" "f = frame_of_fields t s e b q p"
    "cl_input cl = encode_frame t s e b q p @ rest" "cl' = cl\<lparr>cl_input := rest\<rparr>"
proof -
  obtain t s e b q p post where f: "t \<noteq> FT_COUNT" "length p \<le> unat m" "raw = encode_frame t s e b q p @ post"
    "f = frame_of_fields t s e b q p" using d by (auto simp: decode_frame_iff)
  obtain h rest where h: "cl_input cl = raw @ rest" "cl' = cl\<lparr>cl_input := rest\<rparr>"
    "decode_frame_header (take 56 raw) = Inr h" "length raw = 56 + unat (fh_payload_length h)"
    using r by (rule read_frame_splits)
  have "take 56 raw = encode_frame_header (make_header (raw_frame_type t) s e b q p)" by (simp add: f(3) encode_frame_def)
  then have "fh_payload_length h = of_nat (length p)"
    using h(3) decode_encoded_header[OF f(1), of s e b q p "[]"] by (auto simp: make_header_def)
  then have "length raw = 56 + length p" using h(4) of_nat_payload[OF f(2)] by simp
  then have "post = []" using f(3) by (simp add: length_encode_frame)
  then show thesis using that[OF f(1,2,4)] f(3) h(1,2) by simp
qed

lemma frame_fields_simps [simp]:
  "fr_payload (frame_of_fields t s e b q p) = p"
  "fh_type (fr_header (frame_of_fields t s e b q p)) = raw_frame_type t"
  "fh_session_id (fr_header (frame_of_fields t s e b q p)) = s"
  "fh_epoch (fr_header (frame_of_fields t s e b q p)) = e"
  "fh_boot (fr_header (frame_of_fields t s e b q p)) = b"
  "fh_sequence (fr_header (frame_of_fields t s e b q p)) = q"
  by (simp_all add: frame_of_fields_def make_header_def)

lemma raw_frame_type_inj: "raw_frame_type t = raw_frame_type u \<longleftrightarrow> t = u"
  by (cases t; cases u) simp_all

lemma decode_whole_frame:
  assumes "t \<noteq> FT_COUNT" "length p \<le> unat m"
  shows "decode_frame (encode_frame t s e b q p) m = Inr (frame_of_fields t s e b q p, 56 + length p)"
proof -
  have "encode_frame t s e b q p = encode_frame t s e b q p @ []" by simp
  then show ?thesis unfolding decode_frame_iff using assms by blast
qed

text \<open>What \<open>read_response\<close> accepts.\<close>

lemma read_response_iff:
  assumes cl: "\<not> cl_closed cl" and ty: "expected \<noteq> FT_ERROR_FRAME" "expected \<noteq> FT_COUNT"
  shows "read_response expected cl = (Inr payload, cl') \<longleftrightarrow>
    (\<exists>q rest. cl_input cl = encode_frame expected (cl_session cl) (cl_epoch cl) (cl_boot cl) q payload @ rest \<and>
       length payload \<le> unat (pt_max_payload_bytes (cl_limits cl)) \<and> cl_server_sequence cl < q \<and>
       cl' = cl\<lparr>cl_input := rest, cl_server_sequence := q\<rparr>)"
proof
  assume r: "read_response expected cl = (Inr payload, cl')"
  then obtain raw c1 where 1: "read_frame_bytes cl = (Inr raw, c1)"
    by (auto simp: read_response_def split: prod.splits sum.splits)
  then obtain f n where 2: "decode_frame raw (pt_max_payload_bytes (cl_limits c1)) = Inr (f, n)"
    using r by (auto simp: read_response_def split: sum.splits)
  obtain t s e b q p rest where f: "t \<noteq> FT_COUNT" "length p \<le> unat (pt_max_payload_bytes (cl_limits c1))"
    "f = frame_of_fields t s e b q p" "cl_input cl = encode_frame t s e b q p @ rest" "c1 = cl\<lparr>cl_input := rest\<rparr>"
    using 1 2 by (rule read_frame_decoded)
  have same: "cl_session c1 = cl_session cl" "cl_epoch c1 = cl_epoch cl" "cl_boot c1 = cl_boot cl"
    "cl_server_sequence c1 = cl_server_sequence cl" "cl_limits c1 = cl_limits cl"
    by (simp_all add: f(5))
  have "s = cl_session cl" "e = cl_epoch cl" "b = cl_boot cl" "cl_server_sequence cl < q" "t = expected" "payload = p"
    "cl' = c1\<lparr>cl_server_sequence := q\<rparr>"
    using r 2[unfolded same f(3)]
    by (auto simp: read_response_def 1 same raw_frame_type_inj Let_def split: if_splits sum.splits)
  moreover have "c1\<lparr>cl_server_sequence := q\<rparr> = cl\<lparr>cl_input := rest, cl_server_sequence := q\<rparr>" by (simp add: f(5))
  ultimately show "\<exists>q rest. cl_input cl = encode_frame expected (cl_session cl) (cl_epoch cl) (cl_boot cl) q payload @ rest \<and>
       length payload \<le> unat (pt_max_payload_bytes (cl_limits cl)) \<and> cl_server_sequence cl < q \<and>
       cl' = cl\<lparr>cl_input := rest, cl_server_sequence := q\<rparr>"
    using f(2,4) same by auto
next
  assume "\<exists>q rest. cl_input cl = encode_frame expected (cl_session cl) (cl_epoch cl) (cl_boot cl) q payload @ rest \<and>
       length payload \<le> unat (pt_max_payload_bytes (cl_limits cl)) \<and> cl_server_sequence cl < q \<and>
       cl' = cl\<lparr>cl_input := rest, cl_server_sequence := q\<rparr>"
  then obtain q rest where q: "cl_input cl = encode_frame expected (cl_session cl) (cl_epoch cl) (cl_boot cl) q payload @ rest"
    "length payload \<le> unat (pt_max_payload_bytes (cl_limits cl))" "cl_server_sequence cl < q"
    "cl' = cl\<lparr>cl_input := rest, cl_server_sequence := q\<rparr>" by blast
  have "raw_frame_type expected \<noteq> raw_frame_type FT_ERROR_FRAME" using ty(1) by (simp only: raw_frame_type_inj not_False_eq_True)
  moreover have "\<not> q \<le> cl_server_sequence cl" using q(3) by simp
  ultimately show "read_response expected cl = (Inr payload, cl')"
    using q(4) read_frame_whole[OF cl q(1) ty(2) q(2)] decode_whole_frame[OF ty(2) q(2)] ty
    by (simp add: read_response_def raw_frame_type_inj Let_def)
qed

end
