(* ===== verification/NRP_Connection.thy ===== *)
theory NRP_Connection
  imports NRP_Server_Correct NRP_Client
begin

text \<open>
  Server, service and client together: the properties of the framed connection, from the request a
  connection submits to the result a client returns.
\<close>

section \<open>Answers\<close>

lemma respond_sent:
  assumes "i < length (sv_connections s)"
  shows "cx_sent (sv_connections (respond i out c s) ! i) = cx_sent c @ [wire (sv_epoch s) (sv_boot s) (case out of
      Out_plan res \<Rightarrow> (FT_PLAN_RESPONSE, cx_session c, next_sequence c, encode_plan_response res)
    | Out_report rep \<Rightarrow> (FT_VALIDATE_RESPONSE, cx_session c, next_sequence c, encode_validate_response rep)
    | Out_error e \<Rightarrow> (FT_ERROR_FRAME, cx_session c, next_sequence c, encode_error_payload
        \<lparr>ep_code = fst (map_status e), ep_reason = snd (map_status e), ep_text = st_message e\<rparr>))]"
  using assms by (cases out) (simp_all add: respond_def answer_def answer_error_def set_connection_def send_frame_def)

lemma delivered_rightful: "server_ok s \<Longrightarrow> d \<in> set (sy_delivered (sv_service s)) \<Longrightarrow> rightful (sv_service s) d"
  using reachable_published[of "sv_service s"] by (auto simp: server_ok_def published_ok_def)

lemma resume_answers:
  assumes reach: "reachable_server s" and c: "live_connection i s = Some c" "cx_waiting c = Some j" "jb_task j = Task_plan r"
    and step: "resume_step i s = Some s'"
  shows "\<exists>t payload. cx_sent (sv_connections s' ! i) = cx_sent c @
      [encode_frame t (cx_session c) (sv_epoch s) (sv_boot s) (cx_server_sequence c + 1) payload] \<and>
    (t = FT_ERROR_FRAME \<or> (\<exists>res. t = FT_PLAN_RESPONSE \<and> payload = encode_plan_response res \<and>
      service_answer (sv_service s) r res \<and>
      (\<forall>p st. pr_plan res = Some p \<longrightarrow> sy_store (sv_service s) = Some st \<longrightarrow>
         (\<exists>d\<in>set (st_records st). dr_type d = RT_COMMITTED_PLAN \<and> dr_payload d = encode_plan_record p))))"
proof -
  note ok = reachable_server_ok[OF reach]
  obtain ca ja out where r: "live_connection i s = Some ca" "cx_waiting ca = Some ja"
    "(ja, out) \<in> set (sy_delivered (sv_service s))" "s' = respond i out (ca\<lparr>cx_waiting := None\<rparr>) s"
    by (rule resume_cases[OF ok step])
  then have out: "(j, out) \<in> set (sy_delivered (sv_service s))" "s' = respond i out (c\<lparr>cx_waiting := None\<rparr>) s"
    using c(1,2) by simp_all
  have rf: "rightful (sv_service s) (j, out)" by (rule delivered_rightful[OF ok out(1)])
  have inc: "sy_epoch (sv_service s) = sv_epoch s" "sy_boot (sv_service s) = sv_boot s" using ok by (simp_all add: server_ok_def)
  have i: "i < length (sv_connections s)" using live_connectionD[OF c(1)] by simp
  note sent = respond_sent[OF i, of out "c\<lparr>cx_waiting := None\<rparr>"]
  show ?thesis
  proof (cases out)
    case (Out_plan res)
    have "cx_sent (sv_connections s' ! i) = cx_sent c @
        [encode_frame FT_PLAN_RESPONSE (cx_session c) (sv_epoch s) (sv_boot s) (cx_server_sequence c + 1) (encode_plan_response res)]"
      using sent by (simp add: Out_plan out(2) next_sequence_def)
    moreover have "service_answer (sv_service s) r res" using rf c(3) unfolding Out_plan rightful.simps by fastforce
    moreover have "\<forall>p st. pr_plan res = Some p \<longrightarrow> sy_store (sv_service s) = Some st \<longrightarrow>
        (\<exists>d\<in>set (st_records st). dr_type d = RT_COMMITTED_PLAN \<and> dr_payload d = encode_plan_record p)"
      using rf unfolding Out_plan rightful.simps committed_def by blast
    ultimately show ?thesis by blast
  next
    case (Out_report rep)
    then show ?thesis using rf c(3) by simp
  next
    case (Out_error e)
    have "cx_sent (sv_connections s' ! i) = cx_sent c @ [encode_frame FT_ERROR_FRAME (cx_session c) (sv_epoch s) (sv_boot s)
        (cx_server_sequence c + 1) (encode_error_payload
          \<lparr>ep_code = fst (map_status e), ep_reason = snd (map_status e), ep_text = st_message e\<rparr>)]"
      using sent by (simp add: Out_error out(2) next_sequence_def)
    then show ?thesis by blast
  qed
qed

section \<open>Whole frames in a buffer\<close>

lemma intake_whole:
  assumes "t \<noteq> FT_COUNT" "length p \<le> unat (pt_max_payload_bytes l)"
  shows "intake_of l (encode_frame t s e b q p) = Intake_frame"
proof -
  let ?h = "make_header (raw_frame_type t) s e b q p"
  have d: "decode_frame_header (encode_frame t s e b q p) = Inr (?h\<lparr>fh_header_crc32 := crc32 (header_fields ?h)\<rparr>)"
    using decode_encoded_header[OF assms(1), of s e b q p p] by (simp add: encode_frame_def)
  have len: "unat (fh_payload_length ?h) = length p" using of_nat_payload[OF assms(2)] by (simp add: make_header_def)
  then have "\<not> pt_max_payload_bytes l < fh_payload_length ?h" using assms(2) by (simp add: word_less_nat_alt)
  then show ?thesis using len by (simp add: intake_of_def d frame_header_size_def length_encode_frame)
qed

text \<open>An established connection serves a whole frame.\<close>

lemma serve_whole:
  assumes c: "live_connection i s = Some c" "cx_waiting c = None" "cx_handshake_complete c" "\<not> sv_stopping s"
    and b: "cx_buffer c = encode_frame t session e b q p" "t \<noteq> FT_COUNT" "length p \<le> unat (pt_max_payload_bytes (sv_limits s))"
    and a: "registry_accept session e b q (sv_sessions s) = (st, g)" "status_ok st"
  shows "serve_step sent input i s = Some (serve_request i (frame_of_fields t session e b q p) (c\<lparr>cx_buffer := []\<rparr>)
    (s\<lparr>sv_stats := (sv_stats s)\<lparr>vs_frames_received := vs_frames_received (sv_stats s) + 1\<rparr>, sv_sessions := g\<rparr>))"
  using c a by (simp add: serve_step_def serve_frame_def b(1) intake_whole[OF b(2,3)] decode_whole_frame[OF b(2,3)] Let_def
      length_encode_frame)

section \<open>Rest\<close>

lemma at_rest_answered:
  assumes ok: "server_ok s" and stop: "sy_stopping (sv_service s)" "\<not> sy_crashed (sv_service s)"
    and rest: "\<And>svc. \<not> internal_step (sv_service s) svc" and j: "j \<in># jobs (sv_service s)"
  shows "\<exists>d. find (\<lambda>d. jb_ticket (fst d) = jb_ticket j) (sy_delivered (sv_service s)) = Some d"
proof -
  have "reachable_service (sv_service s)" using ok by (simp add: server_ok_def)
  note r = at_rest[OF this stop rest]
  have "j \<in> fst ` set (sy_delivered (sv_service s))" using j r by (simp add: jobs_def)
  then have "find (\<lambda>d. jb_ticket (fst d) = jb_ticket j) (sy_delivered (sv_service s)) \<noteq> None"
    by (auto simp: find_None_iff)
  then show ?thesis by auto
qed

definition closed_at :: "nat \<Rightarrow> server \<Rightarrow> server \<Rightarrow> bool" where
  "closed_at i s s' \<longleftrightarrow> sv_service s' = sv_service s \<and> sv_stopping s' = sv_stopping s \<and>
     (\<exists>c. \<not> cx_open c \<and> sv_connections s' = (sv_connections s)[i := c])"

lemma stopping_closes:
  assumes "live_connection i s = Some c" "cx_waiting c = None" "sv_stopping s"
  shows "\<exists>s'. serve_step sent input i s = Some s' \<and> closed_at i s s'"
  using assms
  by (simp add: serve_step_def closed_at_def end_connection_def set_connection_def) (rule exI[of _ "c\<lparr>cx_open := False\<rparr>"], simp)

lemma answer_live:
  "i < length (sv_connections s) \<Longrightarrow> cx_open c \<Longrightarrow> live_connection i (answer i t payload c s) =
    Some ((send_frame s t (cx_session c) (next_sequence c) payload c)\<lparr>cx_server_sequence := cx_server_sequence c + 1\<rparr>)"
  by (simp add: live_connection_def answer_def set_connection_def send_frame_def)

lemma answer_simps [simp]:
  "sv_service (answer i t payload c s) = sv_service s" "sv_stopping (answer i t payload c s) = sv_stopping s"
  by (simp_all add: answer_def set_connection_def)

lemma respond_live:
  assumes "i < length (sv_connections s)" "cx_open c" "cx_waiting c = None"
  shows "\<exists>c'. live_connection i (respond i out c s) = Some c' \<and> cx_waiting c' = None \<and>
    sv_stopping (respond i out c s) = sv_stopping s \<and> sv_service (respond i out c s) = sv_service s \<and>
    sv_connections (respond i out c s) = (sv_connections s)[i := c']"
  using assms
  by (cases out) (simp_all add: respond_def answer_error_def answer_live, simp_all add: send_frame_def answer_def set_connection_def)

lemma drained:
  assumes reach: "reachable_server s" and stop: "sv_stopping s" "sy_stopping (sv_service s)" "\<not> sy_crashed (sv_service s)"
    and rest: "\<And>svc. \<not> internal_step (sv_service s) svc" and c: "live_connection i s = Some c"
  shows "\<exists>s'. server_step\<^sup>*\<^sup>* s s' \<and> closed_at i s s'"
proof (cases "cx_waiting c")
  case None
  obtain s' where s': "serve_step True None i s = Some s'" "closed_at i s s'"
    using stopping_closes[OF c None stop(1), of True None] by blast
  have "server_step\<^sup>*\<^sup>* s s'" by (rule r_into_rtranclp) (rule server_step.serve[OF stop(3) s'(1)])
  with s'(2) show ?thesis by blast
next
  case (Some j)
  note ok = reachable_server_ok[OF reach]
  have "j \<in># jobs (sv_service s)" using live_connection_ok[OF ok c] Some by (simp add: server_connection_def)
  from at_rest_answered[OF ok stop(2,3) rest this] obtain k out where
    k: "find (\<lambda>d. jb_ticket (fst d) = jb_ticket j) (sy_delivered (sv_service s)) = Some (k, out)" by auto
  let ?s = "respond i out (c\<lparr>cx_waiting := None\<rparr>) s"
  have step: "resume_step i s = Some ?s" using c Some k by (simp add: resume_step_def respond_def Let_def)
  obtain c' where c': "live_connection i ?s = Some c'" "cx_waiting c' = None" "sv_stopping ?s" "sv_service ?s = sv_service s"
    "sv_connections ?s = (sv_connections s)[i := c']"
    using respond_live[of i s "c\<lparr>cx_waiting := None\<rparr>" out] live_connectionD[OF c] stop(1) by auto
  from stopping_closes[OF c'(1-3), of True None] obtain s' where s': "serve_step True None i ?s = Some s'" "closed_at i ?s s'"
    by blast
  have "server_step s ?s" by (rule server_step.resume[OF stop(3) step])
  moreover have "server_step ?s s'" using server_step.serve[OF _ s'(1)] stop(3) c'(4) by simp
  ultimately have "server_step\<^sup>*\<^sup>* s s'" by (rule converse_rtranclp_into_rtranclp[OF _ r_into_rtranclp])
  moreover have "closed_at i s s'" using s'(2) c'(3-5) stop(1) by (simp add: closed_at_def)
  ultimately show ?thesis by blast
qed

lemma reachable_server_run: "server_step\<^sup>*\<^sup>* s s' \<Longrightarrow> reachable_server s \<Longrightarrow> reachable_server s'"
  by (induction rule: rtranclp_induct) (auto intro: reachable_server.step)

lemma all_drained:
  assumes "reachable_server s" "sv_stopping s" "sy_stopping (sv_service s)" "\<not> sy_crashed (sv_service s)"
    "\<And>svc. \<not> internal_step (sv_service s) svc"
  shows "\<exists>s'. server_step\<^sup>*\<^sup>* s s' \<and> (\<forall>c\<in>set (sv_connections s'). \<not> cx_open c)"
  using assms
proof (induction "length (filter cx_open (sv_connections s))" arbitrary: s rule: less_induct)
  case less
  show ?case
  proof (cases "\<forall>c\<in>set (sv_connections s). \<not> cx_open c")
    case False
    then obtain i where i: "i < length (sv_connections s)" "cx_open (sv_connections s ! i)" by (auto simp: in_set_conv_nth)
    then have "live_connection i s = Some (sv_connections s ! i)" by (simp add: live_connection_def)
    from drained[OF less.prems this] obtain s1 where s1: "server_step\<^sup>*\<^sup>* s s1" "closed_at i s s1" by blast
    then have same: "sv_service s1 = sv_service s" "sv_stopping s1" using less.prems(2) by (simp_all add: closed_at_def)
    obtain c where c: "\<not> cx_open c" "sv_connections s1 = (sv_connections s)[i := c]" using s1(2) by (auto simp: closed_at_def)
    have "length (filter cx_open (sv_connections s1)) < length (filter cx_open (sv_connections s))"
      using c i length_filter_update[OF i(1), of cx_open c] by simp
    from less.hyps[OF this reachable_server_run[OF s1(1) less.prems(1)]] same less.prems obtain s2 where
      "server_step\<^sup>*\<^sup>* s1 s2" "\<forall>c\<in>set (sv_connections s2). \<not> cx_open c" by auto
    with s1(1) show ?thesis by (blast intro: rtranclp_trans)
  qed blast
qed

text \<open>The service runs on beside the connections, and comes to rest.\<close>

lemma service_runs: "internal_step\<^sup>*\<^sup>* (sv_service s) svc \<Longrightarrow> server_step\<^sup>*\<^sup>* s (s\<lparr>sv_service := svc\<rparr>)"
proof (induction rule: rtranclp_induct)
  case (step y z)
  have "server_step (s\<lparr>sv_service := y\<rparr>) (s\<lparr>sv_service := z\<rparr>)"
    using server_step.work[of "s\<lparr>sv_service := y\<rparr>" z] step.hyps(2) by simp
  with step.IH show ?case by (rule rtranclp.rtrancl_into_rtrancl)
qed simp

lemma comes_to_rest: "\<exists>svc'. internal_step\<^sup>*\<^sup>* svc svc' \<and> (\<forall>t. \<not> internal_step svc' t)"
proof (induction "work svc" arbitrary: svc rule: less_induct)
  case less
  show ?case
  proof (cases "\<exists>t. internal_step svc t")
    case True
    then obtain t where t: "internal_step svc t" by blast
    from less[OF internal_work[OF t]] show ?thesis using t by (blast intro: converse_rtranclp_into_rtranclp)
  qed blast
qed

section \<open>End to end\<close>

text \<open>Whatever a client reads as a planning response, from any point of the server's output on, the
  service has delivered.\<close>

lemma client_plan_received:
  assumes "client_plan sent r cl = (Inr res, cl')"
  obtains q rest payload where
    "cl_input cl = encode_frame FT_PLAN_RESPONSE (cl_session cl) (cl_epoch cl) (cl_boot cl) q payload @ rest"
    "decode_plan_response payload (cl_limits cl) = Inr res" "length payload < 2 ^ 32"
proof -
  obtain e c1 where 1: "send_request sent FT_PLAN_REQUEST (encode_plan_request_payload r) cl = (e, c1)" by fastforce
  then have ok: "status_ok e" using assms by (auto simp: client_plan_def split: if_splits)
  have c1: "\<not> cl_closed c1 \<and> cl_input c1 = cl_input cl \<and> cl_session c1 = cl_session cl \<and> cl_epoch c1 = cl_epoch cl \<and>
      cl_boot c1 = cl_boot cl \<and> cl_limits c1 = cl_limits cl"
    using 1 ok by (auto simp: send_request_def send_bytes_def split: if_splits)
  obtain payload c2 where 2: "read_response FT_PLAN_RESPONSE c1 = (Inr payload, c2)"
      "decode_plan_response payload (cl_limits c2) = Inr res"
    using assms 1 ok by (auto simp: client_plan_def split: prod.splits sum.splits)
  obtain q rest where q: "cl_input c1 = encode_frame FT_PLAN_RESPONSE (cl_session c1) (cl_epoch c1) (cl_boot c1) q payload @ rest"
      "c2 = c1\<lparr>cl_input := rest, cl_server_sequence := q\<rparr>" "length payload \<le> unat (pt_max_payload_bytes (cl_limits c1))"
    using 2(1) read_response_iff[of c1 FT_PLAN_RESPONSE payload c2] c1 by auto
  have "length payload < 4294967296" using q(3) unat_lt[of "pt_max_payload_bytes (cl_limits c1)"] by linarith
  then show thesis by (intro that[of q payload rest]) (use q c1 2(2) in simp_all)
qed

lemma encode_frame_prefix:
  assumes "encode_frame t s e b q p @ x = encode_frame t' s' e' b' q' p' @ y" "t \<noteq> FT_COUNT" "t' \<noteq> FT_COUNT"
    "length p < 2 ^ 32" "length p' < 2 ^ 32"
  shows "t = t' \<and> s = s' \<and> e = e' \<and> b = b' \<and> p = p'"
proof -
  have d: "decode_frame (encode_frame t s e b q p @ x) 4294967295 = Inr (frame_of_fields t s e b q p, 56 + length p)"
    if "t \<noteq> FT_COUNT" "length p < 2 ^ 32" for t s e b q p x
    unfolding decode_frame_iff using that by (intro exI[of _ t] exI[of _ s] exI[of _ e] exI[of _ b] exI[of _ q] exI[of _ p] exI[of _ x])
      simp
  have same: "frame_of_fields t s e b q p = frame_of_fields t' s' e' b' q' p'"
    using d[OF assms(2,4), of s e b q x] d[OF assms(3,5), of s' e' b' q' y] assms(1) by simp
  from arg_cong[OF same, of fr_payload] arg_cong[OF same, of "\<lambda>f. fh_type (fr_header f)"]
    arg_cong[OF same, of "\<lambda>f. fh_session_id (fr_header f)"] arg_cong[OF same, of "\<lambda>f. fh_epoch (fr_header f)"]
    arg_cong[OF same, of "\<lambda>f. fh_boot (fr_header f)"]
  show ?thesis by (simp add: raw_frame_type_inj)
qed

lemma received_delivered:
  assumes reach: "reachable_server s" and c: "c \<in> set (sv_connections s)" "\<forall>b\<in>set (cx_sent c). length b < 2 ^ 32"
    and cl: "cl_input cl = concat (drop k (cx_sent c))" "client_plan sent r cl = (Inr res', cl')"
  shows "cl_session cl = cx_session c \<and> cl_epoch cl = sv_epoch s \<and> cl_boot cl = sv_boot s \<and>
    (\<exists>j res. (j, Out_plan res) \<in> set (sy_delivered (sv_service s)) \<and> encode_plan_response res = encode_plan_response res')"
proof -
  obtain q rest payload where rd:
    "cl_input cl = encode_frame FT_PLAN_RESPONSE (cl_session cl) (cl_epoch cl) (cl_boot cl) q payload @ rest"
    "decode_plan_response payload (cl_limits cl) = Inr res'" "length payload < 2 ^ 32"
    using cl(2) by (rule client_plan_received)
  have pay: "payload = encode_plan_response res'"
    using rd(2) by (simp add: decode_plan_response_def result_codec.decode_whole_iff)
  note ok = reachable_server_ok[OF reach]
  obtain fs where fs: "sent_ok (sv_epoch s) (sv_boot s) (sy_delivered (sv_service s)) c fs"
    using ok c(1) by (auto simp: server_ok_def server_connection_def connection_ok_def)
  have "56 \<le> length (cl_input cl)" by (simp add: rd(1) length_encode_frame)
  then have "drop k (cx_sent c) \<noteq> []" using cl(1) by auto
  then obtain b bs where b: "drop k (cx_sent c) = b # bs" by (cases "drop k (cx_sent c)") auto
  then have "b \<in> set (cx_sent c)" by (metis in_set_dropD list.set_intros(1))
  then obtain t se n p where f: "(t, se, n, p) \<in> set fs" "b = encode_frame t se (sv_epoch s) (sv_boot s) n p"
    using fs by (auto simp: sent_ok_def)
  have t: "t \<noteq> FT_COUNT" "se = cx_session c" "answers (sy_delivered (sv_service s)) t p" using fs f(1) by (auto simp: sent_ok_def)
  have "length p < 2 ^ 32" using c(2) \<open>b \<in> set (cx_sent c)\<close> f(2) by (auto simp: length_encode_frame)
  have eq: "encode_frame t se (sv_epoch s) (sv_boot s) n p @ concat bs =
      encode_frame FT_PLAN_RESPONSE (cl_session cl) (cl_epoch cl) (cl_boot cl) q payload @ rest"
    using rd(1) cl(1) b f(2) by simp
  from encode_frame_prefix[OF eq t(1) _ \<open>length p < 2 ^ 32\<close> rd(3)] have
    "t = FT_PLAN_RESPONSE" "cl_session cl = cx_session c" "cl_epoch cl = sv_epoch s" "cl_boot cl = sv_boot s" "p = payload"
    using t(2) by auto
  moreover obtain j res where "(j, Out_plan res) \<in> set (sy_delivered (sv_service s))" "p = encode_plan_response res"
    using t(3) \<open>t = FT_PLAN_RESPONSE\<close> by (auto simp: answers_def)
  ultimately show ?thesis using pay by (intro conjI exI[of _ j] exI[of _ res]) simp_all
qed

section \<open>A connection from hello to answer\<close>

abbreviation sample_request :: plan_request where
  "sample_request \<equiv> request_on sample_definition"

definition demo_server :: "service \<Rightarrow> connection list \<Rightarrow> session_registry \<Rightarrow> server_stats \<Rightarrow> server" where
  "demo_server svc cs g st = \<lparr>sv_service = svc, sv_max_sessions = 64, sv_limits = default_protocol_limits, sv_epoch = 1,
     sv_boot = 1, sv_port = 0, sv_stopping = False, sv_sessions = g, sv_connections = cs, sv_stats = st\<rparr>"

lemma demo_simps [simp]:
  "sv_service (demo_server svc cs g st) = svc" "sv_connections (demo_server svc cs g st) = cs"
  "sv_sessions (demo_server svc cs g st) = g" "sv_stats (demo_server svc cs g st) = st"
  "sv_epoch (demo_server svc cs g st) = 1" "sv_boot (demo_server svc cs g st) = 1"
  "sv_limits (demo_server svc cs g st) = default_protocol_limits" "\<not> sv_stopping (demo_server svc cs g st)"
  by (simp_all add: demo_server_def)

lemma demo_updates [simp]:
  "(demo_server svc cs g st)\<lparr>sv_service := svc'\<rparr> = demo_server svc' cs g st"
  "(demo_server svc cs g st)\<lparr>sv_connections := cs'\<rparr> = demo_server svc cs' g st"
  "(demo_server svc cs g st)\<lparr>sv_sessions := g'\<rparr> = demo_server svc cs g' st"
  "(demo_server svc cs g st)\<lparr>sv_stats := st'\<rparr> = demo_server svc cs g st'"
  by (simp_all add: demo_server_def)

abbreviation quiet_start_service :: service where
  "quiet_start_service \<equiv> quiet_service [] 0 W_idle zero_service_stats []"

lemma quiet_alive [simp]: "\<not> sy_crashed (quiet_service q n w c dl)"
  by (simp add: quiet_service_def)

abbreviation hello_frame :: bytes where
  "hello_frame \<equiv> encode_frame FT_HELLO 0 0 0 1 (encode_hello 2 1)"

definition ack_frame :: bytes where
  "ack_frame = encode_frame FT_HELLO_ACK 1 1 1 1 (encode_hello_ack
     \<lparr>ha_session = 1, ha_epoch = 1, ha_boot = 1, ha_server_nonce = 1, ha_next_sequence = 2\<rparr>)"

definition demo_registry :: "u64 \<Rightarrow> seqno \<Rightarrow> session_registry" where
  "demo_registry n q = \<lparr>rg_sessions = [(fresh_session 1 1 1 2)\<lparr>ssn_last_client_sequence := q, ssn_active_requests := n\<rparr>],
     rg_max_sessions = 64, rg_high_water = 1, rg_next_id = 2\<rparr>"

definition demo_connection :: "bytes \<Rightarrow> job option \<Rightarrow> seqno \<Rightarrow> bytes list \<Rightarrow> connection" where
  "demo_connection b w q sent = \<lparr>cx_buffer = b, cx_session = 1, cx_server_sequence = q, cx_handshake_complete = True,
     cx_waiting = w, cx_open = True, cx_sent = sent\<rparr>"

lemma decode_sample_hello: "decode_hello (encode_hello 2 1) = Inr 2"
proof -
  have "decode_whole (element read_hello) (encode_hello 2 1) = Inr (2, 1)" by (simp add: hello_codec.decode_whole_iff)
  then show ?thesis by (simp add: decode_hello_def)
qed

lemma demo_accepted:
  "\<exists>st. reachable_server (demo_server quiet_start_service [new_connection] (new_registry 64) st)"
proof -
  let ?env = "\<lparr>li_initialised = success, li_socket_ok = True, li_address_ok = True, li_bind_ok = True, li_listen_ok = True, li_port = 0\<rparr>"
  have "server_start 64 ?env (Some quiet_start_service) = Inr (demo_server quiet_start_service [] (new_registry 64)
      \<lparr>vs_connections_accepted = 0, vs_connections_rejected = 0, vs_frames_received = 0, vs_frames_rejected = 0, vs_sticky_failures = 0\<rparr>)"
    by (simp add: server_start_def demo_server_def quiet_service_def)
  from reachable_server.start[OF quiet_start this] obtain st where
    r: "reachable_server (demo_server quiet_start_service [] (new_registry 64) st)" by blast
  have "\<exists>st'. accept_step (demo_server quiet_start_service [] (new_registry 64) st) =
      Some (demo_server quiet_start_service [new_connection] (new_registry 64) st')"
    by (simp add: accept_step_def registry_size_def new_registry_def) (simp add: demo_server_def)
  then show ?thesis using reachable_server.step[OF r server_step.accept] by fastforce
qed

lemma receives:
  assumes r: "reachable_server (demo_server svc [c] g st)" and c: "cx_open c" "cx_waiting c = None" "cx_buffer c = []"
    and b: "b \<noteq> []" "length b \<le> 4194304" and alive: "\<not> sy_crashed svc"
  shows "reachable_server (demo_server svc [c\<lparr>cx_buffer := b\<rparr>] g st)"
proof (rule reachable_server.step[OF r], rule server_step.serve[where sent = True and input = "Some b" and i = 0])
  have "\<not> length b > unat (pt_max_payload_bytes default_protocol_limits) + 4 * frame_header_size"
    using b(2) by (simp add: default_protocol_limits_def frame_header_size_def)
  then show "serve_step True (Some b) 0 (demo_server svc [c] g st) = Some (demo_server svc [c\<lparr>cx_buffer := b\<rparr>] g st)"
    using c b(1) by (simp add: serve_step_def live_connection_def intake_of_def frame_header_size_def receive_chunk_def
        set_connection_def Let_def)
qed (simp add: alive)

lemma demo_greeted:
  "\<exists>st. reachable_server (demo_server quiet_start_service [demo_connection [] None 2 [ack_frame]] (demo_registry 0 0) st)"
proof -
  obtain st where r: "reachable_server (demo_server quiet_start_service [new_connection] (new_registry 64) st)"
    using demo_accepted by blast
  have len: "length hello_frame \<le> 4194304" by (simp add: length_encode_frame encode_hello_def)
  have 1: "reachable_server (demo_server quiet_start_service [new_connection\<lparr>cx_buffer := hello_frame\<rparr>] (new_registry 64) st)"
    by (rule receives[OF r _ _ _ _ len]) (simp_all add: new_connection_def encode_frame_def encode_hello_def w_u64_def)
  have whole: "length (encode_hello 2 1) \<le> unat (pt_max_payload_bytes default_protocol_limits)"
    by (simp add: encode_hello_def default_protocol_limits_def)
  have cr: "registry_create 1 1 2 (new_registry 64) = (Inr (fresh_session 1 1 1 2), demo_registry 0 0)"
    by (simp add: registry_create_def new_registry_def demo_registry_def Let_def fresh_session_def)
  have "serve_step True None 0 (demo_server quiet_start_service [new_connection\<lparr>cx_buffer := hello_frame\<rparr>] (new_registry 64) st) =
      Some (demo_server quiet_start_service [demo_connection [] None 2 [ack_frame]] (demo_registry 0 0)
        (st\<lparr>vs_frames_received := vs_frames_received st + 1\<rparr>))"
    using intake_whole[OF _ whole, of FT_HELLO 0 0 0 1] decode_whole_frame[OF _ whole, of FT_HELLO 0 0 0 1]
    by (simp add: serve_step_def live_connection_def new_connection_def serve_frame_def length_encode_frame greet_def
        decode_sample_hello cr set_connection_def send_frame_def demo_connection_def ack_frame_def fresh_session_def Let_def)
  then show ?thesis using reachable_server.step[OF 1 server_step.serve] by fastforce
qed

lemma wf_sample_request: "wf_request default_model_limits sample_request"
  by (simp add: wf_request_def wf_definition_def wf_action_def wf_precondition_def wf_effect_def wf_goal_def wf_evidence_def
      wf_fact_def wf_authority_def wf_binding_def wf_policy_def request_on_def sample_definition_def sample_action_def
      sample_authority_def sample_binding_def sample_policy_def link_fact_def addressable_def default_model_limits_def
      valid_action_kind_def valid_reversibility_def valid_authority_domain_def valid_authority_level_def
      valid_precondition_kind_def valid_effect_kind_def valid_resource_kind_def valid_goal_kind_def valid_evidence_kind_def)

lemma decode_sample_request:
  "decode_plan_request_payload (encode_plan_request_payload sample_request) default_protocol_limits = Inr sample_request"
proof -
  have l: "pt_model default_protocol_limits = default_model_limits" by (simp add: default_protocol_limits_def)
  have "decode_whole (decode_request_body default_model_limits) (encode_request sample_request) = Inr sample_request"
    using wf_sample_request by (simp add: request_codec.decode_whole_iff)
  moreover have "rq_definition sample_request = sample_definition" by (simp add: request_on_def)
  moreover have "\<not> unat (pt_max_records_per_message default_protocol_limits) < length (df_actions sample_definition)"
    by (simp add: default_protocol_limits_def sample_definition_def)
  ultimately show ?thesis
    using sample_checked by (simp add: decode_plan_request_payload_def encode_plan_request_payload_def l validate_definition_def Let_def)
qed

lemma sample_request_length: "length (encode_plan_request_payload sample_request) \<le> 4000000"
  by (simp add: encode_plan_request_payload_def encode_request_def request_on_def sample_definition_def encode_definition_def
      encode_evidence_def encode_authority_def encode_policy_def w_list_def w_str_def encode_node_def encode_link_def
      encode_resource_def encode_goal_def encode_subject_def encode_action_def sample_action_def sample_authority_def
      sample_binding_def sample_policy_def link_fact_def encode_precondition_def encode_effect_def encode_use_def)

abbreviation plan_job :: "plan_request \<Rightarrow> job" where
  "plan_job r \<equiv> \<lparr>jb_task = Task_plan r, jb_ticket = 0\<rparr>"

abbreviation demo_wait :: "plan_request \<Rightarrow> connection" where
  "demo_wait r \<equiv> demo_connection [] (Some (plan_job r)) 2 [ack_frame]"

definition request_fits :: "plan_request \<Rightarrow> bool" where
  "request_fits r \<longleftrightarrow> decode_plan_request_payload (encode_plan_request_payload r) default_protocol_limits = Inr r \<and>
     length (encode_plan_request_payload r) \<le> 4000000"

lemma sample_fits: "request_fits sample_request"
  using decode_sample_request sample_request_length by (simp add: request_fits_def)

lemma quiet_ticket: "sy_next_ticket (quiet_service q n w c dl) = n"
  by (simp add: quiet_service_def)

lemma demo_waiting:
  assumes fits: "request_fits r"
  shows "\<exists>st c. reachable_server (demo_server (quiet_service [plan_job r] 1 W_idle c []) [demo_wait r] (demo_registry 1 1) st)"
proof -
  let ?p = "encode_plan_request_payload r"
  let ?f = "encode_frame FT_PLAN_REQUEST 1 1 1 1 ?p"
  let ?c = "demo_connection ?f None 2 [ack_frame]"
  obtain st where start: "reachable_server (demo_server quiet_start_service [demo_connection [] None 2 [ack_frame]] (demo_registry 0 0) st)"
    using demo_greeted by blast
  have len: "length ?f \<le> 4194304" using fits by (simp add: length_encode_frame request_fits_def)
  have ne: "?f \<noteq> []" using length_encode_frame[of FT_PLAN_REQUEST 1 1 1 1 ?p] by auto
  let ?s = "demo_server quiet_start_service [?c] (demo_registry 0 0) st"
  have 1: "reachable_server ?s" using receives[OF start _ _ _ ne len] by (simp add: demo_connection_def)
  have acc: "registry_accept 1 1 1 1 (demo_registry 0 0) = (success, demo_registry 1 1)"
    by (simp add: registry_accept_def demo_registry_def open_session_def fresh_session_def Let_def)
  obtain c where sub: "service_plan r quiet_start_service = (success, quiet_service [plan_job r] 1 W_idle c [])"
    by (simp add: service_plan_def enqueue_def quiet_service_def quiet_config_def default_service_config_def Let_def)
  have len': "length ?p \<le> unat (pt_max_payload_bytes default_protocol_limits)"
    using fits by (simp add: default_protocol_limits_def request_fits_def)
  have dec: "decode_plan_request_payload ?p default_protocol_limits = Inr r" using fits by (simp add: request_fits_def)
  obtain st' where "serve_step True None 0 ?s
     = Some (demo_server (quiet_service [plan_job r] 1 W_idle c []) [demo_wait r] (demo_registry 1 1) st')"
    using serve_whole[of 0 ?s ?c FT_PLAN_REQUEST 1 1 1 1 ?p success "demo_registry 1 1" True None] len' acc
    by (simp add: live_connection_def demo_connection_def serve_request_def dec call_service_def sub set_connection_def
       frame_fields_simps quiet_ticket)
  then show ?thesis using reachable_server.step[OF 1 server_step.serve] by fastforce
qed

lemma work_runs:
  assumes "internal_step\<^sup>*\<^sup>* svc svc'" "reachable_server (demo_server svc cs g st)"
  shows "reachable_server (demo_server svc' cs g st)"
  using assms
proof (induction rule: rtranclp_induct)
  case (step y z)
  from reachable_server.step[OF step.IH[OF step.prems] server_step.work[of _ z]] step.hyps(2) show ?case by simp
qed

definition answer_frame :: "planning_result \<Rightarrow> bytes" where
  "answer_frame res = encode_frame FT_PLAN_RESPONSE 1 1 1 3 (encode_plan_response res)"

abbreviation demo_done :: "plan_request \<Rightarrow> planning_result \<Rightarrow> service_stats \<Rightarrow> service" where
  "demo_done r res c \<equiv> quiet_service [] 1 W_idle c [(plan_job r, Out_plan res)]"

abbreviation demo_answer :: "planning_result \<Rightarrow> connection" where
  "demo_answer res \<equiv> demo_connection [] None 3 [ack_frame, answer_frame res]"

lemma demo_served:
  assumes "request_fits r" "\<And>c. \<exists>c'. internal_step\<^sup>*\<^sup>* (quiet_service [plan_job r] 1 W_idle c []) (demo_done r res c')"
  shows "\<exists>st c. reachable_server (demo_server (demo_done r res c) [demo_wait r] (demo_registry 1 1) st)"
  using demo_waiting[OF assms(1)] assms(2) work_runs by blast

lemma demo_resumes:
  "resume_step 0 (demo_server (demo_done r res c) [demo_wait r] (demo_registry 1 1) st) =
   Some (demo_server (demo_done r res c) [demo_answer res] (demo_registry 1 1) st)"
  by (simp add: resume_step_def live_connection_def demo_connection_def quiet_service_def answer_def set_connection_def send_frame_def
      next_sequence_def answer_frame_def)

lemma demo_answered:
  assumes "request_fits r" "\<And>c. \<exists>c'. internal_step\<^sup>*\<^sup>* (quiet_service [plan_job r] 1 W_idle c []) (demo_done r res c')"
  shows "\<exists>st c. reachable_server (demo_server (demo_done r res c) [demo_answer res] (demo_registry 1 1) st)"
  using demo_served[OF assms] demo_resumes reachable_server.step[OF _ server_step.resume] by fastforce

abbreviation sample_answer :: planning_result where
  "sample_answer \<equiv> plan default_model_limits sample_request"

lemma sample_runs: "\<exists>c'. internal_step\<^sup>*\<^sup>* (quiet_service [plan_job sample_request] 1 W_idle c []) (demo_done sample_request sample_answer c')"
  using quiet_runs by blast

text \<open>A request of an earlier epoch is answered without planning.\<close>

definition stale_request :: plan_request where
  "stale_request = sample_request\<lparr>rq_epoch := 7\<rparr>"

definition stale_answer :: planning_result where
  "stale_answer = fenced_result quiet_start_service stale_request"

lemma stale_fits: "request_fits stale_request"
proof -
  have l: "pt_model default_protocol_limits = default_model_limits" by (simp add: default_protocol_limits_def)
  have "wf_request default_model_limits stale_request" using wf_sample_request by (simp add: wf_request_def stale_request_def)
  then have "decode_whole (decode_request_body default_model_limits) (encode_request stale_request) = Inr stale_request"
    by (simp add: request_codec.decode_whole_iff)
  moreover have "rq_definition stale_request = sample_definition" by (simp add: request_on_def stale_request_def)
  moreover have "\<not> unat (pt_max_records_per_message default_protocol_limits) < length (df_actions sample_definition)"
    by (simp add: default_protocol_limits_def sample_definition_def)
  ultimately have "decode_plan_request_payload (encode_plan_request_payload stale_request) default_protocol_limits = Inr stale_request"
    using sample_checked by (simp add: decode_plan_request_payload_def encode_plan_request_payload_def l validate_definition_def Let_def)
  moreover have "length (encode_plan_request_payload stale_request) = length (encode_plan_request_payload sample_request)"
    by (simp add: encode_plan_request_payload_def encode_request_def stale_request_def)
  ultimately show ?thesis using sample_request_length by (simp add: request_fits_def)
qed

lemma stale_runs: "\<exists>c'. internal_step\<^sup>*\<^sup>* (quiet_service [plan_job stale_request] 1 W_idle c []) (demo_done stale_request stale_answer c')"
proof -
  let ?j = "plan_job stale_request"
  have f: "fenced_result (quiet_service [] 1 (W_taken ?j) c []) stale_request = stale_answer"
    by (simp add: fenced_result_def quiet_service_def stale_answer_def)
  have 1: "internal_step (quiet_service [?j] 1 W_idle c []) (quiet_service [] 1 (W_taken ?j) c [])"
    by (rule internal_step.take[of _ 0]) (simp_all add: take_job_def worker_at_def quiet_service_def set_worker_def)
  have b: "begin_plan honest_write stale_request (quiet_service [] 1 (W_taken ?j) c []) =
      (Begun_rejected stale_answer, quiet_service [] 1 (W_taken ?j) c [])"
    unfolding begin_plan_def f by (simp add: stale_request_def request_on_def quiet_service_def)
  have 2: "internal_step (quiet_service [] 1 (W_taken ?j) c []) (quiet_service [] 1 (W_ready ?j (Out_plan stale_answer)) c [])"
  proof (rule internal_step.begin_work[of _ honest_write 0])
    have "worker_at 0 (quiet_service [] 1 (W_taken ?j) c []) = W_taken ?j" by (simp add: worker_at_def quiet_service_def)
    then show "begin_job honest_write 0 (quiet_service [] 1 (W_taken ?j) c []) = Some (quiet_service [] 1 (W_ready ?j (Out_plan stale_answer)) c [])"
      using b by (simp add: begin_job_def) (simp add: set_worker_def quiet_service_def)
  qed simp
  have 3: "internal_step (quiet_service [] 1 (W_ready ?j (Out_plan stale_answer)) c [])
      (demo_done stale_request stale_answer (count_plan stale_answer c))"
    by (rule internal_step.publish_work[of _ 0])
      (simp_all add: publish_job_def worker_at_def quiet_service_def set_worker_def deliver_def
        quiet_config_def default_service_config_def Let_def)
  show ?thesis using 1 2 3 by (meson rtranclp.rtrancl_into_rtrancl rtranclp.rtrancl_refl)
qed

section \<open>Properties of the connection\<close>

lemma sessions_handshaken:
  assumes "sessions_match cs g"
  shows "distinct (map cx_session (filter cx_handshake_complete cs))"
proof -
  let ?ns = "filter (\<lambda>i. cx_handshake_complete (cs ! i)) [0..<length cs]"
  have f: "filter cx_handshake_complete cs = map ((!) cs) ?ns"
    by (subst (1) map_nth[symmetric]) (simp only: filter_map comp_def)
  have "inj_on (\<lambda>i. cx_session (cs ! i)) (set ?ns)"
    using assms by (auto simp: sessions_match_def inj_on_def)
  then show ?thesis by (simp add: f distinct_map comp_def)
qed

text \<open>C24. Every frame a connection of the server has sent is a canonical encoding that carries the
  server's epoch and boot and the connection's own session; the frame numbers strictly increase; and a
  planning or validation response is the encoding of a result the service delivered.\<close>

theorem server_frames:
  assumes "reachable_server s" "c \<in> set (sv_connections s)" "length (cx_sent c) < 2 ^ 63"
  shows "\<exists>fs. cx_sent c = map (\<lambda>(t, q, p). encode_frame t (cx_session c) (sv_epoch s) (sv_boot s) q p) fs \<and>
    sorted_wrt (<) (map (fst \<circ> snd) fs) \<and>
    (\<forall>(t, q, p)\<in>set fs. answers (sy_delivered (sv_service s)) t p)"
proof -
  obtain fs where fs: "sent_ok (sv_epoch s) (sv_boot s) (sy_delivered (sv_service s)) c fs"
    using reachable_server_ok[OF assms(1)] assms(2) by (auto simp: server_ok_def server_connection_def connection_ok_def)
  have own: "se = cx_session c \<and> answers (sy_delivered (sv_service s)) t p" if "(t, se, q, p) \<in> set fs" for t se q p
    using fs that unfolding sent_ok_def by fast
  have len: "length fs < 2 ^ 63" using fs assms(3) by (simp add: sent_ok_def)
  let ?fs = "map (\<lambda>(t, se, q, p). (t, q, p)) fs"
  have "wire (sv_epoch s) (sv_boot s) f = (\<lambda>(t, q, p). encode_frame t (cx_session c) (sv_epoch s) (sv_boot s) q p)
      ((\<lambda>(t, se, q, p). (t, q, p)) f)" if "f \<in> set fs" for f
    using own that by (cases f) simp
  then have "cx_sent c = map (\<lambda>(t, q, p). encode_frame t (cx_session c) (sv_epoch s) (sv_boot s) q p) ?fs"
    using fs by (simp add: sent_ok_def)
  moreover have "map (fst \<circ> snd) ?fs = frame_numbers (length fs)"
    using fs by (simp add: sent_ok_def comp_def case_prod_unfold)
  moreover have "\<forall>(t, q, p)\<in>set ?fs. answers (sy_delivered (sv_service s)) t p" using own by auto
  ultimately show ?thesis using frame_numbers_increase[OF len] by (intro exI[of _ ?fs]) simp
qed

theorem server_frames_witness:
  "\<exists>(s::server) (c::connection). c \<in> set (sv_connections s) \<and> cx_sent c = [ack_frame, answer_frame sample_answer] \<and>
    (\<exists>fs. cx_sent c = map (\<lambda>(t, q, p). encode_frame t (cx_session c) (sv_epoch s) (sv_boot s) q p) fs \<and>
      sorted_wrt (<) (map (fst \<circ> snd) fs))"
proof -
  let ?c = "demo_connection [] None 3 [ack_frame, answer_frame sample_answer]"
  let ?s = "\<lambda>st k. demo_server (quiet_service [] 1 W_idle k [(sample_job, Out_plan sample_answer)]) [?c] (demo_registry 1 1) st"
  obtain st k where "reachable_server (?s st k)" using demo_answered[OF sample_fits sample_runs] by blast
  from server_frames[OF this, of ?c] obtain fs where
    "cx_sent ?c = map (\<lambda>(t, q, p). encode_frame t (cx_session ?c) 1 1 q p) fs" "sorted_wrt (<) (map (fst \<circ> snd) fs)"
    by (force simp: demo_connection_def)
  then show ?thesis by (intro exI[of _ "?s st k"] exI[of _ ?c] exI[of _ fs] conjI) (simp_all add: demo_connection_def)
qed

text \<open>C23. When a connection resumes after the service answered its planning request, it sends one more
  frame: an error, or a planning response that answers the connection's own request. If that request
  carries the service's epoch and boot, the response is the planner's result for it, or, after a record
  could not be written, the rejection that reports this failure and holds neither plan nor certificate; if
  the request is of another incarnation, the response is the service's REJECTED_FENCED result. While the
  service has a store, a plan in the response stands among the store's records as a committed plan.\<close>

theorem server_answers_request:
  assumes reach: "reachable_server s" and c: "live_connection i s = Some c" "cx_waiting c = Some j" "jb_task j = Task_plan r"
    and step: "resume_step i s = Some s'"
  shows "\<exists>t payload. cx_sent (sv_connections s' ! i) = cx_sent c @
      [encode_frame t (cx_session c) (sv_epoch s) (sv_boot s) (cx_server_sequence c + 1) payload] \<and>
    (t = FT_ERROR_FRAME \<or> (\<exists>res. t = FT_PLAN_RESPONSE \<and> payload = encode_plan_response res \<and>
      service_answer (sv_service s) r res \<and>
      (\<forall>p st. pr_plan res = Some p \<longrightarrow> sy_store (sv_service s) = Some st \<longrightarrow>
         (\<exists>d\<in>set (st_records st). dr_type d = RT_COMMITTED_PLAN \<and> dr_payload d = encode_plan_record p))))"
  by (rule resume_answers[OF assms])

theorem server_answers_request_witness:
  "\<exists>s s'. live_connection 0 s = Some (demo_wait sample_request) \<and> resume_step 0 s = Some s' \<and>
    (\<exists>t payload. cx_sent (sv_connections s' ! 0) = [ack_frame, encode_frame t 1 1 1 3 payload])"
proof -
  let ?s = "\<lambda>st k. demo_server (quiet_service [] 1 W_idle k [(sample_job, Out_plan sample_answer)]) [demo_wait sample_request] (demo_registry 1 1) st"
  obtain st k where r: "reachable_server (?s st k)" using demo_served[OF sample_fits sample_runs] by blast
  have l: "live_connection 0 (?s st k) = Some (demo_wait sample_request)" by (simp add: live_connection_def demo_connection_def)
  obtain s' where s': "resume_step 0 (?s st k) = Some s'" using demo_resumes by blast
  from server_answers_request[OF r l _ _ s', of sample_job sample_request] have
    "\<exists>t payload. cx_sent (sv_connections s' ! 0) = [ack_frame, encode_frame t 1 1 1 3 payload]"
    by (simp add: demo_connection_def) blast
  with l s' show ?thesis by blast
qed

text \<open>C25. Sessions belong to connections: two connections that completed the handshake never share a
  session, the open sessions of the registry are exactly those of the live established connections, and
  there are never more of them than the registry's limit.\<close>

theorem server_sessions_own:
  assumes "reachable_server s" "length (sv_connections s) < 2 ^ 64 - 2"
  shows "distinct (map cx_session (filter cx_handshake_complete (sv_connections s))) \<and>
    {ssn_id r | r. r \<in> set (rg_sessions (sv_sessions s)) \<and> \<not> ssn_closed r} =
      cx_session ` set (filter (\<lambda>c. cx_open c \<and> cx_handshake_complete c) (sv_connections s)) \<and>
    card (cx_session ` set (filter (\<lambda>c. cx_open c \<and> cx_handshake_complete c) (sv_connections s))) \<le>
      unat (rg_max_sessions (sv_sessions s))"
proof -
  let ?g = "sv_sessions s" and ?live = "filter (\<lambda>c. cx_open c \<and> cx_handshake_complete c) (sv_connections s)"
  note m = reachable_sessions[OF assms]
  have ids: "open_ids ?g = cx_session ` set ?live" using m by (auto simp: sessions_match_def session_live_def)
  have ok: "registry_ok ?g" using m by (simp add: sessions_match_def)
  have "card (open_ids ?g) \<le> length (filter (\<lambda>r. \<not> ssn_closed r) (rg_sessions ?g))"
    unfolding open_ids_image by (rule order_trans[OF card_image_le card_length]) simp
  also have "\<dots> \<le> unat (rg_max_sessions ?g)"
    by (rule order_trans[OF length_filter_le]) (use ok in \<open>simp add: registry_ok_def\<close>)
  finally show ?thesis using sessions_handshaken[OF m] ids by (simp add: open_ids_def)
qed

theorem server_sessions_own_witness:
  "\<exists>s::server. sv_connections s = [demo_wait sample_request] \<and> {ssn_id r | r. r \<in> set (rg_sessions (sv_sessions s)) \<and> \<not> ssn_closed r} = {1}"
proof -
  let ?s = "\<lambda>st k. demo_server (quiet_service [sample_job] 1 W_idle k []) [demo_wait sample_request] (demo_registry 1 1) st"
  obtain st k where r: "reachable_server (?s st k)" using demo_waiting[OF sample_fits] by blast
  from server_sessions_own[OF r] have "{ssn_id r | r. r \<in> set (rg_sessions (sv_sessions (?s st k))) \<and> \<not> ssn_closed r} = {1}"
    by (simp add: demo_connection_def)
  then show ?thesis by (intro exI[of _ "?s st k"]) simp
qed

lemma find_index_get: "registry_get x g = Inr r \<Longrightarrow> \<exists>k. find_index (open_session x) (rg_sessions g) = Some k \<and> r = rg_sessions g ! k"
  by (simp add: registry_get_def split: option.splits)

lemma find_index_update:
  "find_index P xs = Some k \<Longrightarrow> P y \<Longrightarrow> find_index P (xs[k := y]) = Some k"
proof (induction xs arbitrary: k)
  case (Cons x xs)
  then show ?case by (cases k) (auto split: if_splits)
qed simp

lemma accept_advances:
  assumes "registry_get x g = Inr r" "ssn_epoch r = e" "ssn_boot r = b" "ssn_last_client_sequence r < q"
  obtains g' where "registry_accept x e b q g = (success, g')"
    "\<And>q' st g''. q' \<le> q \<Longrightarrow> registry_accept x e b q' g' = (st, g'') \<Longrightarrow> \<not> status_ok st \<and> g'' = g'"
proof -
  obtain k where k: "find_index (open_session x) (rg_sessions g) = Some k" "r = rg_sessions g ! k" using find_index_get[OF assms(1)] by blast
  let ?r = "r\<lparr>ssn_last_client_sequence := q, ssn_active_requests := ssn_active_requests r + 1\<rparr>"
  let ?g = "g\<lparr>rg_sessions := (rg_sessions g)[k := ?r]\<rparr>"
  have kl: "k < length (rg_sessions g)" "open_session x r" using find_index_SomeD[OF k(1)] k(2) by auto
  have acc: "registry_accept x e b q g = (success, ?g)" using k assms(2-4) by (simp add: registry_accept_def Let_def)
  have "find_index (open_session x) (rg_sessions ?g) = Some k"
    using find_index_update[OF k(1), of ?r] kl(2) by (simp add: open_session_def)
  then show thesis using kl assms(2,3) by (intro that[OF acc]) (auto simp: registry_accept_def Let_def split: if_splits)
qed

text \<open>C26. A connection may speak for another connection's session: \<open>serve\<close> checks a frame against the
  session the frame names, not against the session of the connection it came in on.  A status request that
  names any open session with a fresh sequence number is answered like one of the connection's own, and from then on the
  named session refuses every frame whose number is not above it.\<close>

theorem session_crossing:
  assumes c: "live_connection i s = Some c" "cx_waiting c = None" "cx_handshake_complete c" "\<not> sv_stopping s"
    and b: "cx_buffer c = encode_frame FT_STATUS_REQUEST x (sv_epoch s) (sv_boot s) q []"
    and x: "registry_get x (sv_sessions s) = Inr r" "ssn_epoch r = sv_epoch s" "ssn_boot r = sv_boot s"
      "ssn_last_client_sequence r < q"
  shows "\<exists>s' payload. serve_step sent input i s = Some s' \<and>
    cx_sent (sv_connections s' ! i) = cx_sent c @
      [encode_frame FT_STATUS_RESPONSE (cx_session c) (sv_epoch s) (sv_boot s) (cx_server_sequence c + 1) payload] \<and>
    (\<forall>q'\<le>q. \<not> status_ok (fst (registry_accept x (sv_epoch s) (sv_boot s) q' (sv_sessions s'))))"
proof -
  obtain g where g: "registry_accept x (sv_epoch s) (sv_boot s) q (sv_sessions s) = (success, g)"
    "\<And>q' st g''. q' \<le> q \<Longrightarrow> registry_accept x (sv_epoch s) (sv_boot s) q' g = (st, g'') \<Longrightarrow> \<not> status_ok st \<and> g'' = g"
    using accept_advances[OF x] by blast
  let ?s = "s\<lparr>sv_stats := (sv_stats s)\<lparr>vs_frames_received := vs_frames_received (sv_stats s) + 1\<rparr>, sv_sessions := g\<rparr>"
  obtain payload where p: "serve_request i (frame_of_fields FT_STATUS_REQUEST x (sv_epoch s) (sv_boot s) q []) (c\<lparr>cx_buffer := []\<rparr>) ?s =
      answer i FT_STATUS_RESPONSE payload (c\<lparr>cx_buffer := []\<rparr>) ?s"
    by (simp add: serve_request_def frame_fields_simps Let_def)
  have i: "i < length (sv_connections s)" using live_connectionD[OF c(1)] by simp
  have "serve_step sent input i s = Some (answer i FT_STATUS_RESPONSE payload (c\<lparr>cx_buffer := []\<rparr>) ?s)"
    using serve_whole[OF c b _ _ g(1)] p by simp
  moreover have "cx_sent (sv_connections (answer i FT_STATUS_RESPONSE payload (c\<lparr>cx_buffer := []\<rparr>) ?s) ! i) = cx_sent c @
      [encode_frame FT_STATUS_RESPONSE (cx_session c) (sv_epoch s) (sv_boot s) (cx_server_sequence c + 1) payload]"
    using i by (simp add: answer_def set_connection_def send_frame_def next_sequence_def)
  moreover have "\<not> status_ok (fst (registry_accept x (sv_epoch s) (sv_boot s) q'
      (sv_sessions (answer i FT_STATUS_RESPONSE payload (c\<lparr>cx_buffer := []\<rparr>) ?s))))" if "q' \<le> q" for q'
    using g(2)[OF that] by (simp add: answer_def set_connection_def) (metis prod.collapse)
  ultimately show ?thesis by blast
qed

definition two_sessions :: session_registry where
  "two_sessions = \<lparr>rg_sessions = [fresh_session 1 1 1 2, fresh_session 2 1 1 2], rg_max_sessions = 64, rg_high_water = 2, rg_next_id = 3\<rparr>"

theorem session_crossing_witness:
  "\<exists>(s::server) s'. map cx_session (sv_connections s) = [1, 2] \<and> status_ok (fst (registry_accept 2 1 1 1 (sv_sessions s))) \<and>
    serve_step True None 0 s = Some s' \<and> \<not> status_ok (fst (registry_accept 2 1 1 1 (sv_sessions s')))"
proof -
  let ?c = "demo_connection (encode_frame FT_STATUS_REQUEST 2 1 1 9 []) None 2 [ack_frame]"
  let ?s = "demo_server quiet_start_service [?c, (demo_connection [] None 2 [])\<lparr>cx_session := 2\<rparr>] two_sessions
     \<lparr>vs_connections_accepted = 2, vs_connections_rejected = 0, vs_frames_received = 2, vs_frames_rejected = 0, vs_sticky_failures = 0\<rparr>"
  have "live_connection 0 ?s = Some ?c" "registry_get 2 (sv_sessions ?s) = Inr (fresh_session 2 1 1 2)"
    by (simp_all add: live_connection_def demo_connection_def registry_get_def two_sessions_def open_session_def fresh_session_def)
  from session_crossing[OF this(1) _ _ _ _ this(2), of 9 True None] obtain s' where s': "serve_step True None 0 ?s = Some s'"
    "\<forall>q'\<le>9. \<not> status_ok (fst (registry_accept 2 1 1 q' (sv_sessions s')))"
    by (auto simp: demo_connection_def fresh_session_def)
  moreover have "status_ok (fst (registry_accept 2 1 1 1 (sv_sessions ?s)))"
    by (simp add: registry_accept_def two_sessions_def open_session_def fresh_session_def Let_def)
  ultimately show ?thesis by (intro exI[of _ ?s] exI[of _ s']) (simp add: demo_connection_def)
qed

text \<open>C27. Shutdown can always be completed: from every state in which the server and its service are
  stopping, steps of the service and of the connections lead to a state in which every connection is
  closed, or the process crashes at one of its crash points; a connection that waits for the service finds
  its answer on the way.\<close>

theorem server_drains:
  assumes "reachable_server s" "sv_stopping s" "sy_stopping (sv_service s)"
  shows "\<exists>s'. server_step\<^sup>*\<^sup>* s s' \<and> (sy_crashed (sv_service s') \<or> (\<forall>c\<in>set (sv_connections s'). \<not> cx_open c))"
proof -
  obtain svc where svc: "internal_step\<^sup>*\<^sup>* (sv_service s) svc" "\<forall>t. \<not> internal_step svc t" using comes_to_rest by blast
  let ?s = "s\<lparr>sv_service := svc\<rparr>"
  note run = service_runs[OF svc(1)]
  show ?thesis
  proof (cases "sy_crashed svc")
    case False
    have "reachable_service (sv_service s)" using reachable_server_ok[OF assms(1)] by (simp add: server_ok_def)
    from internal_run[OF svc(1) this assms(3)] have "sy_stopping svc" by simp
    with all_drained[OF reachable_server_run[OF run assms(1)]] assms(2) False svc(2) obtain s' where
      "server_step\<^sup>*\<^sup>* ?s s'" "\<forall>c\<in>set (sv_connections s'). \<not> cx_open c" by auto
    with run show ?thesis by (blast intro: rtranclp_trans)
  qed (use run in auto)
qed

theorem server_drains_witness:
  "\<exists>s s'. sv_connections s = [demo_wait sample_request] \<and> server_step\<^sup>*\<^sup>* s s' \<and>
    (sy_crashed (sv_service s') \<or> (\<forall>c\<in>set (sv_connections s'). \<not> cx_open c))"
proof -
  obtain st k where r: "reachable_server (demo_server (quiet_service [sample_job] 1 W_idle k []) [demo_wait sample_request] (demo_registry 1 1) st)"
    (is "reachable_server ?s") using demo_waiting[OF sample_fits] by blast
  let ?t = "server_shutdown (?s\<lparr>sv_service := shutdown_begin (sv_service ?s)\<rparr>)"
  have "client_step (sv_service ?s) (shutdown_begin (sv_service ?s))" by (rule client_step.shutdown) simp
  from reachable_server.step[OF r server_step.others[OF this]] have "reachable_server ?t"
    by (rule reachable_server.step[OF _ server_step.stop]) (simp add: shutdown_begin_def)
  from server_drains[OF this] obtain s' where "server_step\<^sup>*\<^sup>* ?t s'"
    "sy_crashed (sv_service s') \<or> (\<forall>c\<in>set (sv_connections s'). \<not> cx_open c)"
    by (auto simp: server_shutdown_def shutdown_begin_def)
  moreover have "sv_connections ?t = [demo_wait sample_request]" by (simp add: server_shutdown_def)
  ultimately show ?thesis by blast
qed

text \<open>C28. The client returns a response exactly when its input starts with the canonical frame of that
  payload: of the expected type, under the session, epoch and boot it was granted, within its payload
  limit and with a number above the last one; it then stands after that frame.\<close>

theorem client_response_exact:
  assumes "\<not> cl_closed cl" "expected \<noteq> FT_ERROR_FRAME" "expected \<noteq> FT_COUNT"
  shows "read_response expected cl = (Inr payload, cl') \<longleftrightarrow>
    (\<exists>q rest. cl_input cl = encode_frame expected (cl_session cl) (cl_epoch cl) (cl_boot cl) q payload @ rest \<and>
       length payload \<le> unat (pt_max_payload_bytes (cl_limits cl)) \<and> cl_server_sequence cl < q \<and>
       cl' = cl\<lparr>cl_input := rest, cl_server_sequence := q\<rparr>)"
  by (rule read_response_iff[OF assms])

definition demo_client :: "bytes \<Rightarrow> client" where
  "demo_client b = \<lparr>cl_limits = default_protocol_limits, cl_session = 1, cl_epoch = 1, cl_boot = 1, cl_client_sequence = 1,
     cl_server_sequence = 1, cl_handshake_complete = True, cl_closed = False, cl_input = b, cl_end = Peer_closed, cl_sent = []\<rparr>"

lemma dec_string_short: "n < 10 \<Longrightarrow> length (dec_string n) = 1"
  by (simp add: dec_string.simps)

lemma stale_fields [simp]:
  "rq_epoch stale_request = 7" "rq_boot stale_request = 1" "sy_epoch quiet_start_service = 1" "sy_boot quiet_start_service = 1"
  by (simp_all add: stale_request_def request_on_def quiet_service_def)

lemma stale_shape:
  "wf_result default_model_limits stale_answer" "length (encode_plan_response stale_answer) \<le> 4000000"
proof -
  show "wf_result default_model_limits stale_answer"
    by (simp add: stale_answer_def fenced_result_def blank_result_def plain_note_def wf_result_def wf_explanation_def
      default_model_limits_def dec_string_short)
  show "length (encode_plan_response stale_answer) \<le> 4000000"
    by (simp add: stale_answer_def fenced_result_def blank_result_def plain_note_def encode_plan_response_def encode_optional_def
      encode_stats_def encode_explanation_def encode_digest_def w_list_def w_str_def dec_string_short)
qed

theorem client_response_exact_witness:
  "\<exists>cl'. read_response FT_PLAN_RESPONSE (demo_client (answer_frame stale_answer)) = (Inr (encode_plan_response stale_answer), cl')"
proof -
  let ?cl = "demo_client (answer_frame stale_answer)"
  have "length (encode_plan_response stale_answer) \<le> unat (pt_max_payload_bytes default_protocol_limits)"
    using stale_shape(2) by (simp add: default_protocol_limits_def)
  then show ?thesis using client_response_exact[of ?cl FT_PLAN_RESPONSE "encode_plan_response stale_answer"
    "?cl\<lparr>cl_input := [], cl_server_sequence := 3\<rparr>"]
    by (auto simp: demo_client_def answer_frame_def)
qed

text \<open>C22. End to end: a client whose input is what a connection of the server sent, from any frame on,
  and whose \<open>plan\<close> call returns a result, holds the session, epoch and boot of that connection, and the
  result is byte for byte one the service delivered for a planning job: the planner's own result for the
  job's request, or the rejection that reports a failed write, when the request is of the service's
  incarnation, and the REJECTED_FENCED result when it is not. While the service has a store, a plan in the
  result stands among the store's records as a committed plan. Frames are shorter than \<open>2 ^ 32\<close> bytes.\<close>

theorem client_plan_committed:
  assumes "reachable_server s" "c \<in> set (sv_connections s)" "\<forall>b\<in>set (cx_sent c). length b < 2 ^ 32"
    and "cl_input cl = concat (drop k (cx_sent c))" "client_plan sent r cl = (Inr res', cl')"
  shows "cl_session cl = cx_session c \<and> cl_epoch cl = sv_epoch s \<and> cl_boot cl = sv_boot s \<and>
    (\<exists>j res r'. (j, Out_plan res) \<in> set (sy_delivered (sv_service s)) \<and> jb_task j = Task_plan r' \<and>
      encode_plan_response res = encode_plan_response res' \<and>
      service_answer (sv_service s) r' res \<and>
      (\<forall>p st. pr_plan res = Some p \<longrightarrow> sy_store (sv_service s) = Some st \<longrightarrow>
         (\<exists>d\<in>set (st_records st). dr_type d = RT_COMMITTED_PLAN \<and> dr_payload d = encode_plan_record p)))"
proof -
  from received_delivered[OF assms] obtain j res where d: "cl_session cl = cx_session c \<and> cl_epoch cl = sv_epoch s \<and> cl_boot cl = sv_boot s"
    "(j, Out_plan res) \<in> set (sy_delivered (sv_service s))" "encode_plan_response res = encode_plan_response res'" by blast
  from delivered_rightful[OF reachable_server_ok[OF assms(1)] d(2)] obtain r' where rf: "jb_task j = Task_plan r'"
    "service_answer (sv_service s) r' res"
    "\<forall>p st. pr_plan res = Some p \<longrightarrow> sy_store (sv_service s) = Some st \<longrightarrow> committed st p" by auto
  show ?thesis by (intro conjI exI[of _ j] exI[of _ res] exI[of _ r']) (use d rf in \<open>simp_all add: committed_def\<close>)
qed

lemma stale_received:
  "client_plan True stale_request (demo_client (answer_frame stale_answer)) = (Inr stale_answer,
     (demo_client [])\<lparr>cl_client_sequence := 2, cl_server_sequence := 3,
        cl_sent := [encode_frame FT_PLAN_REQUEST 1 1 1 1 (encode_plan_request_payload stale_request)]\<rparr>)"
proof -
  let ?c = "(demo_client (answer_frame stale_answer))\<lparr>cl_client_sequence := 2,
        cl_sent := [encode_frame FT_PLAN_REQUEST 1 1 1 1 (encode_plan_request_payload stale_request)]\<rparr>"
  have len: "length (encode_plan_response stale_answer) \<le> unat (pt_max_payload_bytes default_protocol_limits)"
    using stale_shape(2) by (simp add: default_protocol_limits_def)
  have "send_request True FT_PLAN_REQUEST (encode_plan_request_payload stale_request) (demo_client (answer_frame stale_answer)) = (success, ?c)"
    by (simp add: send_request_def send_bytes_def demo_client_def)
  moreover have "read_response FT_PLAN_RESPONSE ?c = (Inr (encode_plan_response stale_answer), ?c\<lparr>cl_input := [], cl_server_sequence := 3\<rparr>)"
    using len by (subst read_response_iff) (auto simp: demo_client_def answer_frame_def)
  moreover have "decode_plan_response (encode_plan_response stale_answer) default_protocol_limits = Inr stale_answer"
    using stale_shape(1) by (simp add: decode_plan_response_def result_codec.decode_whole_iff default_protocol_limits_def)
  ultimately show ?thesis by (simp add: client_plan_def demo_client_def)
qed

theorem client_plan_committed_witness:
  "\<exists>(s::server) res' cl'. reachable_server s \<and> client_plan True stale_request (demo_client (concat (drop 1 [ack_frame, answer_frame stale_answer]))) = (Inr res', cl') \<and>
    (\<exists>j res r'. (j, Out_plan res) \<in> set (sy_delivered (sv_service s)) \<and> jb_task j = Task_plan r' \<and>
      encode_plan_response res = encode_plan_response res' \<and> service_answer (sv_service s) r' res)"
proof -
  obtain st k where r: "reachable_server (demo_server (demo_done stale_request stale_answer k) [demo_answer stale_answer] (demo_registry 1 1) st)"
    (is "reachable_server ?s") using demo_answered[OF stale_fits stale_runs] by blast
  have short: "\<forall>b\<in>set (cx_sent (demo_answer stale_answer)). length b < 2 ^ 32"
    using stale_shape(2) by (simp add: demo_connection_def ack_frame_def answer_frame_def length_encode_frame encode_hello_ack_def)
  have got: "client_plan True stale_request (demo_client (concat (drop 1 [ack_frame, answer_frame stale_answer]))) = (Inr stale_answer,
     (demo_client [])\<lparr>cl_client_sequence := 2, cl_server_sequence := 3,
        cl_sent := [encode_frame FT_PLAN_REQUEST 1 1 1 1 (encode_plan_request_payload stale_request)]\<rparr>)"
    using stale_received by simp
  from client_plan_committed[OF r _ short _ got, of 1] have
    "\<exists>j res r'. (j, Out_plan res) \<in> set (sy_delivered (sv_service ?s)) \<and> jb_task j = Task_plan r' \<and>
      encode_plan_response res = encode_plan_response stale_answer \<and> service_answer (sv_service ?s) r' res"
    by (simp add: demo_connection_def demo_client_def) blast
  with r got show ?thesis by blast
qed

end
