(* ===== verification/Spec2Isabelle.thy ===== *)
theory Spec2Isabelle
  imports NRP_Validate_Sound NRP_Reference_Agree NRP_Codec NRP_Restart NRP_Protocol NRP_Connection
begin

text \<open>
  A verification development for the Network Recovery Planner, a deterministic C++ runtime that
  computes recovery plans for a disrupted network fabric.

  The program. A request carries a fabric definition (nodes, links, services, resources, actions,
  goals), evidence facts, an authority vector, a policy and fences. \<open>Planner::plan\<close>
  (\<open>src/planner.cpp\<close>) brings it to canonical form, admits or rejects it, reconciles the evidence
  into an initial state, attempts two static proofs of infeasibility, and runs a best-first search
  over the states the actions reach. The result is a plan, a certificate of infeasibility, an
  indeterminate answer or a rejection.

  The theories, in the order of the code:

  \<^item> \<open>NRP_Prelude\<close>: word types, the C++ library algorithms the code calls (sort with a comparator,
    ordered maps and sets, lower bound), and their lemmas; the locales of a strict weak order and of
    an ordered map.
  \<^item> \<open>NRP_Ids\<close>: identities, subjects, status values, the digest (\<open>include/nrp/ids.hpp\<close>,
    \<open>include/nrp/result.hpp\<close>, \<open>src/ids.cpp\<close>).
  \<^item> \<open>NRP_Canonical\<close>: the canonical writer and the reader with its sticky error, and checked
    arithmetic (\<open>src/canonical.cpp\<close>).
  \<^item> \<open>NRP_Objective\<close>: the objective vector and the order on scored plans (\<open>src/objective.cpp\<close>).
  \<^item> \<open>NRP_Model\<close>: authority, evidence, fences, explanation log (\<open>src/model.cpp\<close>).
  \<^item> \<open>NRP_Domain\<close>: the fabric definition, its canonical form, its encoding and its validation, the
    fabric state, the policy and the request (\<open>src/domain.cpp\<close>).
  \<^item> \<open>NRP_Plan\<close>: plan, certificate and result records (\<open>src/plan.cpp\<close>, encoders of \<open>src/codec.cpp\<close>).
  \<^item> \<open>NRP_Decode\<close> and \<open>NRP_Codec\<close>: the decoders of \<open>src/codec.cpp\<close>. \<open>NRP_Decode\<close> defines when a
    decoder is exact for an encoder (it accepts precisely the encodings) and proves this of the
    combinators; the locale \<open>exact_codec\<close> of \<open>NRP_Codec\<close> is interpreted on every domain object.
  \<^item> \<open>NRP_Reconcile\<close>: the reconciler and the initial state (first part of \<open>src/planner.cpp\<close>).
  \<^item> \<open>NRP_Transition\<close>: \<open>Search::apply\<close>, one admissible action at a time, with its invariants.
  \<^item> \<open>NRP_Paths\<close>: sequences of actions, their scores, and the locale in which a closed table of best
    scores is proved to cover every sequence; interpreted on the transition function.
  \<^item> \<open>NRP_Search\<close> and \<open>NRP_Search_Correct\<close>: \<open>Search::run\<close> with its arena, visited table, frontier and
    budgets, the replay of a plan, and the proof that the search is optimal and exhaustive.
  \<^item> \<open>NRP_Static\<close>: dependency cycles, structural upper bounds, required authority domains.
  \<^item> \<open>NRP_Planner\<close> and \<open>NRP_Planner_Correct\<close>: \<open>Planner::plan\<close> and what its decisions mean.
  \<^item> \<open>NRP_Checksum\<close>: the table-driven CRC-32 (\<open>src/crc32.cpp\<close>), its bit-serial reference, and that it
    detects every burst of up to 32 bits.
  \<^item> \<open>NRP_Framing\<close> and \<open>NRP_Journal\<close>: little-endian fields at an offset, the framing of durable records
    and the scan of a journal (\<open>src/persistence.cpp\<close>).
  \<^item> \<open>NRP_Store\<close>, \<open>NRP_Store_Correct\<close> and \<open>NRP_Restart\<close>: the durable store over a disk of two files; that
    appending refines an append-only log, that snapshots are atomic, and what a restart does.
  \<^item> \<open>NRP_Wire\<close> and \<open>NRP_Protocol\<close>: the frames of the transport protocol and the payload codecs
    (\<open>src/protocol.cpp\<close>), each decoder exact for its encoder.
  \<^item> \<open>NRP_Report\<close> and \<open>NRP_Validate\<close>: the independent validator of plans and certificates
    (\<open>src/validate.cpp\<close>), with every finding it can add.
  \<^item> \<open>NRP_Validate_Evidence\<close>, \<open>NRP_Validate_Step\<close>, \<open>NRP_Validate_Holds\<close> and \<open>NRP_Validate_Sound\<close>: the
    validator against the planner. The two reconcilers establish the same initial state, a step without
    findings is an admissible step to the same state, and so an accepted plan is a solution of the
    planner's search with the stated score.
  \<^item> \<open>NRP_Reference\<close>: the reference solver (\<open>src/reference_solver.cpp\<close>), which enumerates all sequences
    of actions and simulates each one from the start. \<open>NRP_Reference_Step\<close> relates its variables to the
    planner's state, \<open>NRP_Reference_Start\<close> its reading of the evidence to the reconciler,
    \<open>NRP_Reference_Correct\<close> its steps to the transition function, \<open>NRP_Reference_Paths\<close> its evaluation of a
    sequence to the planner's solutions, and \<open>NRP_Reference_Agree\<close> its enumeration to the planner's answer.
    The recursion of \<open>descend\<close> is on the depth that is left; the code bounds the depth by 12.
  \<^item> \<open>NRP_Session\<close>: the session registry (\<open>src/runtime_service.cpp\<close>) and the histories of its calls.
  \<^item> \<open>NRP_Service\<close> and \<open>NRP_Service_Correct\<close>: the worker service (\<open>src/runtime_service.cpp\<close>). Each
    critical section is one step, and the steps of all threads interleave freely. Proved of every
    interleaving: each accepted job is answered at most once and none is lost, plans are committed before
    they are published, a shutdown completes; and what a crash at any point of \<open>run_plan\<close> leaves on disk.
  \<^item> \<open>NRP_Server\<close> and \<open>NRP_Server_Correct\<close>: the framed server (\<open>src/runtime_server.cpp\<close>). Each iteration of
    a connection's \<open>serve\<close> is one step; a connection that called the service waits until its job is
    answered. The steps of all connections, of the accept loop, of the service and of its other callers
    interleave freely. Proved of every interleaving: what a connection has sent, and that sessions belong
    to connections.
  \<^item> \<open>NRP_Client\<close>: the client (\<open>src/runtime_client.cpp\<close>) over a byte stream; reading a response is exact.
  \<^item> \<open>NRP_Connection\<close>: server, service and client together, from a request to the result a client returns,
    with a run from hello to answer as witness.

  Conventions. Fixed-width integers are words, so additions and subtractions wrap as in the code;
  \<open>std::vector\<close> is a list, \<open>std::map\<close> an association list in key order, \<open>std::set\<close> an ordered list
  of distinct elements; a function that may return early with an error yields an option or a sum
  (\<open>Inl\<close> the error). \<open>std::sort\<close> is modelled by a stable insertion sort: where the comparator leaves
  two different elements equivalent the order the C++ library picks is unspecified, and this happens
  only for definitions with repeated identities, which validation rejects. The search loop
  terminates by a measure on its counters, so no fuel is needed; the index of a node is a natural
  number where the code uses \<open>uint64_t\<close>, which the budgets keep far below the limit. The effect
  SERVICE_REACHABLE_DELTA is computed in unbounded integers where the code adds 64-bit ones, whose
  overflow is undefined behaviour in C++.

  Input and output. The disk is a pair of optional byte strings; what a system call answers (a failed
  write, a flush that reaches only some bytes, a rename that fails) is an argument of the operation
  that makes the call, so a theorem about every such argument is a theorem about every file system.
  In the same way a socket is what it hands over on a read and whether it took a write; the server's
  output is the list of frames it passed to \<open>send_all\<close>.
  The buffer of the journal's stream is not part of the state: bytes a failed or unflushed write leaves in
  it, which a later write could still carry to the file, are not modelled, and the theorems on appending
  are about a handle whose earlier writes succeeded.

  Bounds. The search theorems need the sum of all \<open>max_occurrences\<close> to stay below \<open>2 ^ 32\<close>
  (\<open>search_ready\<close>, \<open>limits_ok\<close>): the default limits allow 512 actions of 16 occurrences. Planner,
  validator and reference solver read a request alike only under conditions the theorems name
  (\<open>unambiguous\<close>, \<open>comparable\<close>): the validator and the reference solver add overlapping holds in 32 bits,
  the reference solver adds costs without a check, and it lets any newer fact of a subject supersede an
  older one, also one the planner would not admit.

  Not modelled. The command line tools (\<open>tools/\<close>, \<open>examples/\<close>) parse arguments, read and print files and
  call the functions above; the rendering of plans, reports and results as text; the socket and thread
  library calls themselves, whose outcomes are arguments; the test programs.
\<close>

end
